(* ===== verification/Rv_Prelude.thy ===== *)
theory Rv_Prelude
  imports Main "HOL-Library.Word" "HOL-Library.Signed_Division"
begin

text \<open>
  Shared vocabulary of the development.

  \<^item> Rust's machine integers are words of the same width.  The workspace is built with
    \<^verbatim>\<open>overflow-checks = false\<close> (\<^verbatim>\<open>src/Cargo.toml\<close>), so \<open>+\<close>, \<open>-\<close> and \<open>*\<close> wrap around, as they do on
    words.  A signed integer is the word with the same bit pattern; a signed comparison, shift
    or division is written with the signed operation.
  \<^item> \<open>result\<close> is Rust's \<open>Result\<close> with a third outcome, \<open>Panic\<close>, for an index that is out of
    range.  Every function that can index out of range returns it, and the components prove
    where it cannot occur.
  \<^item> A method that takes \<open>&mut self\<close> (or \<open>&self\<close> with interior mutability) returns its result
    paired with the new state; \<open>bindS\<close> is the \<open>?\<close> operator on such pairs and \<open>matchS\<close> is
    \<open>match\<close> on \<open>Ok\<close> and \<open>Err\<close>.
  \<^item> A fixed-size array is a function on its indices.
\<close>

unbundle bit_operations_syntax

subsection \<open>Machine integers\<close>

type_synonym u8 = "8 word"
type_synonym u16 = "16 word"
type_synonym u32 = "32 word"
type_synonym u64 = "64 word"
type_synonym i32 = "32 word"
type_synonym i64 = "64 word"
type_synonym i128 = "128 word"

abbreviation shl :: "'a::len word \<Rightarrow> nat \<Rightarrow> 'a word" where
  "shl w n \<equiv> push_bit n w"

abbreviation shr :: "'a::len word \<Rightarrow> nat \<Rightarrow> 'a word" where
  "shr w n \<equiv> drop_bit n w"

abbreviation sar :: "'a::len word \<Rightarrow> nat \<Rightarrow> 'a word" where
  "sar w n \<equiv> signed_drop_bit n w"

text \<open>Rust's \<open>as\<close> casts to and from the 64-bit register width.\<close>

abbreviation low8 :: "u64 \<Rightarrow> u8" where "low8 w \<equiv> ucast w"
abbreviation low16 :: "u64 \<Rightarrow> u16" where "low16 w \<equiv> ucast w"
abbreviation low32 :: "u64 \<Rightarrow> u32" where "low32 w \<equiv> ucast w"
abbreviation zext8 :: "u8 \<Rightarrow> u64" where "zext8 w \<equiv> ucast w"
abbreviation zext16 :: "u16 \<Rightarrow> u64" where "zext16 w \<equiv> ucast w"
abbreviation zext32 :: "u32 \<Rightarrow> u64" where "zext32 w \<equiv> ucast w"
abbreviation sext8 :: "u8 \<Rightarrow> u64" where "sext8 w \<equiv> scast w"
abbreviation sext16 :: "u16 \<Rightarrow> u64" where "sext16 w \<equiv> scast w"
abbreviation sext32 :: "u32 \<Rightarrow> u64" where "sext32 w \<equiv> scast w"

text \<open>Signed \<open>/\<close> and \<open>%\<close> truncate towards zero; the callers exclude a zero divisor.\<close>

definition sdivw :: "'a::len word \<Rightarrow> 'a word \<Rightarrow> 'a word" where
  "sdivw a b = word_of_int (sint a sdiv sint b)"

definition sremw :: "'a::len word \<Rightarrow> 'a word \<Rightarrow> 'a word" where
  "sremw a b = word_of_int (sint a smod sint b)"

subsection \<open>Results\<close>

datatype ('a, 'e) result = Ok 'a | Err 'e | Panic

definition is_ok :: "('a, 'e) result \<Rightarrow> bool" where
  "is_ok r = (case r of Ok _ \<Rightarrow> True | _ \<Rightarrow> False)"

definition map_err :: "('e \<Rightarrow> 'f) \<Rightarrow> ('a, 'e) result \<Rightarrow> ('a, 'f) result" where
  "map_err g r = map_result id g r"

definition bindS ::
  "('a, 'e) result \<times> 's \<Rightarrow> ('a \<Rightarrow> 's \<Rightarrow> ('b, 'e) result \<times> 's) \<Rightarrow> ('b, 'e) result \<times> 's" where
  "bindS m f = (case m of (Ok a, s) \<Rightarrow> f a s | (Err e, s) \<Rightarrow> (Err e, s) | (Panic, s) \<Rightarrow> (Panic, s))"

definition matchS ::
  "('a, 'e) result \<times> 's \<Rightarrow> ('a \<Rightarrow> 's \<Rightarrow> ('b, 'f) result \<times> 't)
    \<Rightarrow> ('e \<Rightarrow> 's \<Rightarrow> ('b, 'f) result \<times> 't) \<Rightarrow> ('s \<Rightarrow> 't) \<Rightarrow> ('b, 'f) result \<times> 't" where
  "matchS m f g h = (case m of (Ok a, s) \<Rightarrow> f a s | (Err e, s) \<Rightarrow> g e s | (Panic, s) \<Rightarrow> (Panic, h s))"

lemma is_ok_simps [simp]:
  "is_ok (Ok a)" "\<not> is_ok (Err e)" "\<not> is_ok Panic"
  by (simp_all add: is_ok_def)

lemma is_ok_iff: "is_ok r \<longleftrightarrow> (\<exists>a. r = Ok a)"
  by (cases r) auto

lemma map_err_simps [simp]:
  "map_err g (Ok a) = Ok a" "map_err g (Err e) = Err (g e)" "map_err g Panic = Panic"
  by (simp_all add: map_err_def)

lemma bindS_simps [simp]:
  "bindS (Ok a, s) f = f a s" "bindS (Err e, s) f = (Err e, s)" "bindS (Panic, s) f = (Panic, s)"
  by (simp_all add: bindS_def)

lemma bindS_Ok: "bindS m f = (Ok v, s') \<longleftrightarrow> (\<exists>a s1. m = (Ok a, s1) \<and> f a s1 = (Ok v, s'))"
  by (cases m; cases "fst m") (auto simp: bindS_def)

lemma matchS_simps [simp]:
  "matchS (Ok a, s) f g h = f a s" "matchS (Err e, s) f g h = g e s"
  "matchS (Panic, s) f g h = (Panic, h s)"
  by (simp_all add: matchS_def)

subsection \<open>Absence of panics\<close>

text \<open>\<open>safe I m\<close>: the outcome is not a panic and the new state satisfies \<open>I\<close>.  The rules are those of the
  sequencing operators, so that the safety of a method follows the structure of its body.\<close>

definition safe :: "('s \<Rightarrow> bool) \<Rightarrow> ('a, 'e) result \<times> 's \<Rightarrow> bool" where
  "safe I m \<longleftrightarrow> fst m \<noteq> Panic \<and> I (snd m)"

lemma safe_simps [simp]:
  "safe I (Ok a, s) \<longleftrightarrow> I s" "safe I (Err e, s) \<longleftrightarrow> I s" "\<not> safe I (Panic, s)"
  by (simp_all add: safe_def)

lemma safeE:
  assumes "safe I m"
  obtains a s where "m = (Ok a, s)" "I s" | e s where "m = (Err e, s)" "I s"
  using assms by (cases m; cases "fst m") (auto simp: safe_def)

lemma safe_bindS:
  assumes "safe I m" "\<And>a s. m = (Ok a, s) \<Longrightarrow> I s \<Longrightarrow> safe I (f a s)"
  shows "safe I (bindS m f)"
  using assms(1) by (rule safeE) (simp_all add: assms(2))

lemma safe_matchS:
  assumes "safe I m" "\<And>a s. m = (Ok a, s) \<Longrightarrow> I s \<Longrightarrow> safe J (f a s)" "\<And>e s. I s \<Longrightarrow> safe J (g e s)"
  shows "safe J (matchS m f g h)"
  using assms(1) by (rule safeE) (simp_all add: assms(2,3))

lemma map_result_eq_simps [simp]:
  "map_result f g r = Panic \<longleftrightarrow> r = Panic" "map_err g r = Panic \<longleftrightarrow> r = Panic"
  by (cases r; simp)+

subsection \<open>Bits of machine words\<close>

text \<open>
  \<open>bitx\<close> reduces a bit of a composed word to bits of its parts, with the position written as a
  linear term, so that an equation between words is decided position by position.
\<close>

named_theorems bitx

lemma bit_shl [bitx]:
  "bit (shl (x :: 'a::len word) k) n \<longleftrightarrow> k \<le> n \<and> n < LENGTH('a) \<and> bit x (n - k)"
  by (auto simp: bit_simps possible_bit_def)

lemma bit_shr [bitx]: "bit (shr (x :: 'a::len word) k) n \<longleftrightarrow> bit x (k + n)"
  by (simp add: bit_simps)

lemma bit_sar [bitx]:
  "bit (sar (x :: 'a::len word) k) n
    \<longleftrightarrow> n < LENGTH('a) \<and> bit x (min (LENGTH('a) - 1) (k + n))"
proof (cases "Suc (k + n) = LENGTH('a)")
  case True
  then have "LENGTH('a) - 1 = k + n" by simp
  then show ?thesis using True by (auto simp: bit_signed_drop_bit_iff dest: bit_imp_le_length)
next
  case False
  then show ?thesis
    by (auto simp: bit_signed_drop_bit_iff min_def not_le dest: bit_imp_le_length)
qed

lemma bit_scast [bitx]:
  "bit (scast (x :: 'a::len word) :: 'b::len word) n
    \<longleftrightarrow> n < LENGTH('b) \<and> bit x (min (LENGTH('a) - 1) n)"
  by (auto simp: bit_simps possible_bit_def min_def)

lemma bit_ucast [bitx]:
  "bit (ucast (x :: 'a::len word) :: 'b::len word) n \<longleftrightarrow> n < LENGTH('b) \<and> bit x n"
  by (auto simp: bit_simps possible_bit_def)

lemma bit_and_mask:
  fixes x :: "'a::len word"
  shows "m = mask k \<Longrightarrow> bit (x AND m) n \<longleftrightarrow> n < k \<and> bit x n"
  by (auto simp: bit_simps dest: bit_imp_possible_bit)

lemma bit_and_masks [bitx]:
  fixes x :: "'a::len word"
  shows "bit (x AND 1) n \<longleftrightarrow> n < 1 \<and> bit x n"
    "bit (x AND 0x3) n \<longleftrightarrow> n < 2 \<and> bit x n"
    "bit (x AND 0x7) n \<longleftrightarrow> n < 3 \<and> bit x n"
    "bit (x AND 0xF) n \<longleftrightarrow> n < 4 \<and> bit x n"
    "bit (x AND 0x1F) n \<longleftrightarrow> n < 5 \<and> bit x n"
    "bit (x AND 0x3F) n \<longleftrightarrow> n < 6 \<and> bit x n"
    "bit (x AND 0x7F) n \<longleftrightarrow> n < 7 \<and> bit x n"
    "bit (x AND 0xFF) n \<longleftrightarrow> n < 8 \<and> bit x n"
    "bit (x AND 0x1FF) n \<longleftrightarrow> n < 9 \<and> bit x n"
    "bit (x AND 0x3FF) n \<longleftrightarrow> n < 10 \<and> bit x n"
    "bit (x AND 0xFFF) n \<longleftrightarrow> n < 12 \<and> bit x n"
    "bit (x AND 0x1FFF) n \<longleftrightarrow> n < 13 \<and> bit x n"
    "bit (x AND 0xFFFF) n \<longleftrightarrow> n < 16 \<and> bit x n"
    "bit (x AND 0xFFFFF) n \<longleftrightarrow> n < 20 \<and> bit x n"
    "bit (x AND 0xFFFFFFFF) n \<longleftrightarrow> n < 32 \<and> bit x n"
    "bit (x AND 0xFFFFFFFFFFF) n \<longleftrightarrow> n < 44 \<and> bit x n"
  by (rule bit_and_mask, simp add: mask_eq_exp_minus_1)+

declare bit_or_iff [bitx]

lemma bit_less_2p:
  fixes x :: "'a::len word"
  assumes "x < 2 ^ k" "k < LENGTH('a)" "k \<le> n"
  shows "\<not> bit x n"
proof -
  have "take_bit k x = x" using assms by (simp add: less_mask_eq take_bit_eq_mask)
  then show ?thesis using assms(3) by (metis bit_take_bit_iff not_le)
qed

lemma word_eq_bits:
  fixes a b :: "'a::len word"
  assumes "list_all (\<lambda>n. bit a n = bit b n) [0..<LENGTH('a)]"
  shows "a = b"
  using assms by (auto intro!: bit_word_eqI simp: list_all_iff)

lemma positions:
  shows
    "[0..<16] = [0, 1, 2, 3, 4, 5, 6, 7, 8, 9, 10, 11, 12, 13, 14, 15]"
    "[0..<32] = [0, 1, 2, 3, 4, 5, 6, 7, 8, 9, 10, 11, 12, 13, 14, 15, 16, 17, 18, 19, 20, 21, 22,
      23, 24, 25, 26, 27, 28, 29, 30, 31]"
    "[0..<64] = [0, 1, 2, 3, 4, 5, 6, 7, 8, 9, 10, 11, 12, 13, 14, 15, 16, 17, 18, 19, 20, 21, 22,
      23, 24, 25, 26, 27, 28, 29, 30, 31, 32, 33, 34, 35, 36, 37, 38, 39, 40, 41, 42, 43, 44, 45,
      46, 47, 48, 49, 50, 51, 52, 53, 54, 55, 56, 57, 58, 59, 60, 61, 62, 63]"
  by (simp_all add: upt_rec eval_nat_numeral)

lemma word_eq_0_bits:
  fixes a :: "'a::len word"
  shows "a = 0 \<longleftrightarrow> list_all (\<lambda>n. \<not> bit a n) [0..<LENGTH('a)]"
  by (auto intro!: bit_word_eqI simp: list_all_iff)

lemma unat_inj_iff [simp]: "unat (a :: 'a::len word) = unat b \<longleftrightarrow> a = b"
  by (auto intro: unsigned_word_eqI)

lemma and_1_iff:
  fixes w :: "'a::len word"
  shows "(w AND 1 = 0) = (\<not> bit w 0)" "(w AND 1 = 1) = bit w 0"
  by (auto simp: and_one_eq mod2_eq_if bit_0)

lemma shr_and_1_iff:
  fixes w :: "'a::len word"
  shows "(shr w n AND 1 = 0) = (\<not> bit w n)" "(shr w n AND 1 = 1) = bit w n"
  by (simp_all add: and_1_iff bit_drop_bit_eq)

lemma less_2p_bits:
  fixes x :: "'a::len word"
  assumes "k < LENGTH('a)" "\<And>n. k \<le> n \<Longrightarrow> n < LENGTH('a) \<Longrightarrow> \<not> bit x n"
  shows "x < 2 ^ k"
proof -
  have "x = x AND mask k"
  proof (rule bit_word_eqI)
    fix n assume "n < LENGTH('a)"
    then show "bit x n = bit (x AND mask k) n"
      using assms(2) [of n] by (cases "n < k") (auto simp: bit_simps)
  qed
  also have "\<dots> < 2 ^ k" by (rule and_mask_less') (use assms in simp)
  finally show ?thesis .
qed

lemma bit_upper32 [bitx]: "bit (x AND 0xFFFFFFFF00000000) n \<longleftrightarrow> 32 \<le> n \<and> bit x n" for x :: u64
proof -
  have "(0xFFFFFFFF00000000 :: u64) = shl (mask 32) 32" by (simp add: mask_eq_exp_minus_1)
  then have "x AND 0xFFFFFFFF00000000 = x AND shl (mask 32) 32" by (rule arg_cong)
  then show ?thesis by (auto simp only: bit_and_iff bit_shl bit_mask_iff) (auto dest: bit_imp_le_length)
qed

lemma and_2p_iff:
  fixes w :: "'a::len word"
  assumes "n < LENGTH('a)"
  shows "(w AND 2 ^ n = 0) = (\<not> bit w n)"
proof -
  have "w AND 2 ^ n = (if bit w n then 2 ^ n else 0)"
    by (rule bit_word_eqI) (auto simp: bit_simps)
  moreover have "(2 ^ n :: 'a word) \<noteq> 0"
    using assms by (metis bit_0_eq bit_exp_iff bot_apply bot_bool_def possible_bit_word)
  ultimately show ?thesis by simp
qed

lemma unat_less_step: "(b :: 'a::len word) \<noteq> a \<Longrightarrow> unat (a - (b + 1)) < unat (a - b)"
  by (metis diff_diff_eq eq_iff_diff_eq_0 measure_unat)

subsection \<open>Casts and arithmetic\<close>

lemma word_of_int_mod:
  assumes "LENGTH('a) \<le> n"
  shows "(word_of_int (k mod 2 ^ n) :: 'a::len word) = word_of_int k"
  unfolding word_of_int_eq_iff take_bit_eq_mod by (rule mod_mod_cancel) (rule le_imp_power_dvd [OF assms])

lemma ucast_mult_down:
  assumes "LENGTH('b) \<le> LENGTH('a)"
  shows "(ucast (x * y :: 'a::len word) :: 'b::len word) = ucast x * ucast y"
  unfolding ucast_eq uint_word_ariths word_of_int_mod [OF assms] by simp

lemma unat_ucast_up:
  assumes "LENGTH('a) \<le> LENGTH('b)"
  shows "unat (ucast (x :: 'a::len word) :: 'b::len word) = unat x"
  unfolding unsigned_ucast_eq
  by (rule take_bit_nat_eq_self) (rule less_le_trans [OF unsigned_less power_increasing [OF assms]], simp)

lemma unat_zext16: "unat (zext16 w) = unat w"
  by (rule unat_ucast_up) simp

lemma ucast_of_nat: "(ucast (word_of_nat n :: u64) :: u32) = word_of_nat n"
  by transfer (simp add: min_def)

lemma unat_zext32: "unat (zext32 w) = unat w"
  by (rule unat_ucast_up) simp

end
