(* ===== verification/Rv_Types.thy ===== *)
theory Rv_Types
  imports Rv_Prelude
begin

text \<open>
  The types shared by every component of the emulator (\<^verbatim>\<open>riscv-vm/src/cpu/types.rs\<close>): privilege
  modes with their \<open>MPP\<close> encoding, and traps.  \<open>Trap::Fatal\<close> carries a host message as a string.
  Modes are ordered by privilege level.
\<close>

datatype mode = User | Supervisor | Machine

fun to_mpp :: "mode \<Rightarrow> u64" where
  "to_mpp User = 0"
| "to_mpp Supervisor = 1"
| "to_mpp Machine = 3"

definition from_mpp :: "u64 \<Rightarrow> mode" where
  "from_mpp bits = (let b = bits AND 3 in
     if b = 0 then User else if b = 1 then Supervisor else Machine)"

fun privilege_level :: "mode \<Rightarrow> u16" where
  "privilege_level User = 0"
| "privilege_level Supervisor = 1"
| "privilege_level Machine = 3"

datatype trap =
    InstructionAddressMisaligned u64
  | InstructionAccessFault u64
  | IllegalInstruction u64
  | Breakpoint
  | LoadAddressMisaligned u64
  | LoadAccessFault u64
  | StoreAddressMisaligned u64
  | StoreAccessFault u64
  | EnvironmentCallFromU
  | EnvironmentCallFromS
  | EnvironmentCallFromM
  | InstructionPageFault u64
  | LoadPageFault u64
  | StorePageFault u64
  | MachineSoftwareInterrupt
  | MachineTimerInterrupt
  | MachineExternalInterrupt
  | SupervisorSoftwareInterrupt
  | SupervisorTimerInterrupt
  | SupervisorExternalInterrupt
  | RequestedTrap u64
  | Fatal string

instantiation mode :: linorder
begin

definition less_eq_mode :: "mode \<Rightarrow> mode \<Rightarrow> bool" where
  "less_eq_mode m n \<longleftrightarrow> privilege_level m \<le> privilege_level n"

definition less_mode :: "mode \<Rightarrow> mode \<Rightarrow> bool" where
  "less_mode m n \<longleftrightarrow> privilege_level m < privilege_level n"

instance
proof
  fix m n k :: mode
  show "(m < n) = (m \<le> n \<and> \<not> n \<le> m)"
    by (auto simp: less_eq_mode_def less_mode_def)
  show "m \<le> m"
    by (simp add: less_eq_mode_def)
  show "m \<le> n \<Longrightarrow> n \<le> k \<Longrightarrow> m \<le> k"
    by (simp add: less_eq_mode_def)
  show "m \<le> n \<Longrightarrow> n \<le> m \<Longrightarrow> m = n"
    by (cases m; cases n) (simp_all add: less_eq_mode_def word_le_nat_alt)
  show "m \<le> n \<or> n \<le> m"
    by (auto simp: less_eq_mode_def)
qed

end

lemma from_mpp_to_mpp [simp]: "from_mpp (to_mpp m) = m"
  by (cases m) (simp_all add: from_mpp_def)

lemma mode_order_simps [simp]:
  "User \<le> m" "m \<le> Machine" "Supervisor \<le> m \<longleftrightarrow> m \<noteq> User" "Machine \<le> m \<longleftrightarrow> m = Machine"
  by (cases m; simp add: less_eq_mode_def word_le_nat_alt)+

lemma to_mpp_bound: "to_mpp m \<le> 3"
  by (cases m) (simp_all add: word_le_nat_alt)

end
