(* ===== verification/Rv_Decoder.thy ===== *)
theory Rv_Decoder
  imports Rv_Types
begin

text \<open>
  The instruction decoder (\<^verbatim>\<open>riscv-vm/src/engine/decoder.rs\<close>): the 32-bit decoder \<open>decode\<close> and the
  expansion of 16-bit compressed instructions into 32-bit encodings.

  Immediates are \<open>i64\<close> words; the sign extensions are the shifts of the source.  The lemmas show
  that the encoders used by the expansion are inverted by \<open>decode\<close>, that every expansion is
  accepted by \<open>decode\<close>, and the ranges of the immediates.
\<close>

unbundle bit_operations_syntax

subsection \<open>Registers and operations\<close>

datatype register =
    X0 | X1 | X2 | X3 | X4 | X5 | X6 | X7 | X8 | X9 | X10 | X11 | X12 | X13 | X14 | X15 | X16
  | X17 | X18 | X19 | X20 | X21 | X22 | X23 | X24 | X25 | X26 | X27 | X28 | X29 | X30 | X31

primrec to_usize :: "register \<Rightarrow> nat" where
  "to_usize X0 = 0"
| "to_usize X1 = 1"
| "to_usize X2 = 2"
| "to_usize X3 = 3"
| "to_usize X4 = 4"
| "to_usize X5 = 5"
| "to_usize X6 = 6"
| "to_usize X7 = 7"
| "to_usize X8 = 8"
| "to_usize X9 = 9"
| "to_usize X10 = 10"
| "to_usize X11 = 11"
| "to_usize X12 = 12"
| "to_usize X13 = 13"
| "to_usize X14 = 14"
| "to_usize X15 = 15"
| "to_usize X16 = 16"
| "to_usize X17 = 17"
| "to_usize X18 = 18"
| "to_usize X19 = 19"
| "to_usize X20 = 20"
| "to_usize X21 = 21"
| "to_usize X22 = 22"
| "to_usize X23 = 23"
| "to_usize X24 = 24"
| "to_usize X25 = 25"
| "to_usize X26 = 26"
| "to_usize X27 = 27"
| "to_usize X28 = 28"
| "to_usize X29 = 29"
| "to_usize X30 = 30"
| "to_usize X31 = 31"

definition register_table :: "register list" where
  "register_table = [X0, X1, X2, X3, X4, X5, X6, X7, X8, X9, X10, X11, X12, X13, X14, X15, X16, X17, X18, X19,
     X20, X21, X22, X23, X24, X25, X26, X27, X28, X29, X30, X31]"

definition from_u32 :: "u32 \<Rightarrow> register" where
  "from_u32 v = register_table ! unat (v AND 0x1F)"

datatype op =
    Lui register i64
  | Auipc register i64
  | Jal register i64
  | Jalr register register i64
  | Branch register register i64 u32
  | Load register register i64 u32
  | Store register register i64 u32
  | OpImm register register i64 u32 u32
  | Op register register register u32 u32
  | OpImm32 register register i64 u32 u32
  | Op32 register register register u32 u32
  | System register register u32 u32
  | Amo register register register u32 u32 bool bool
  | Fence

subsection \<open>The 32-bit decoder\<close>

text \<open>The sign-extended immediates of the five formats (the \<open>let\<close>s at the head of \<open>decode\<close>).\<close>

definition imm_i :: "u32 \<Rightarrow> i64" where
  "imm_i insn = scast (sar insn 20)"

definition imm_s :: "u32 \<Rightarrow> i64" where
  "imm_s insn = scast (shl (sar insn 25) 5) OR ucast (shr insn 7 AND 0x1F)"

definition imm_b :: "u32 \<Rightarrow> i64" where
  "imm_b insn =
     (let bit31 = shr insn 31 AND 1;
          bit30_25 = shr insn 25 AND 0x3F;
          bit11_8 = shr insn 8 AND 0xF;
          bit7 = shr insn 7 AND 1;
          val = shl bit31 12 OR shl bit7 11 OR shl bit30_25 5 OR shl bit11_8 1
      in scast (sar (shl val 19) 19))"

definition imm_u :: "u32 \<Rightarrow> i64" where
  "imm_u insn = scast (insn AND 0xFFFFF000)"

definition imm_j :: "u32 \<Rightarrow> i64" where
  "imm_j insn =
     (let bit31 = shr insn 31 AND 1;
          bit30_21 = shr insn 21 AND 0x3FF;
          bit20 = shr insn 20 AND 1;
          bit19_12 = shr insn 12 AND 0xFF;
          val = shl bit31 20 OR shl bit19_12 12 OR shl bit20 11 OR shl bit30_21 1
      in scast (sar (shl val 11) 11))"

definition decode :: "u32 \<Rightarrow> (op, trap) result" where
  "decode insn =
     (let opcode = insn AND 0x7F;
          rd = from_u32 (shr insn 7 AND 0x1F);
          funct3 = shr insn 12 AND 0x7;
          rs1 = from_u32 (shr insn 15 AND 0x1F);
          rs2 = from_u32 (shr insn 20 AND 0x1F);
          funct7 = shr insn 25 AND 0x7F
      in if opcode = 0x37 then Ok (Lui rd (imm_u insn))
         else if opcode = 0x17 then Ok (Auipc rd (imm_u insn))
         else if opcode = 0x6F then Ok (Jal rd (imm_j insn))
         else if opcode = 0x67 then Ok (Jalr rd rs1 (imm_i insn))
         else if opcode = 0x63 then Ok (Branch rs1 rs2 (imm_b insn) funct3)
         else if opcode = 0x03 then Ok (Load rd rs1 (imm_i insn) funct3)
         else if opcode = 0x23 then Ok (Store rs1 rs2 (imm_s insn) funct3)
         else if opcode = 0x13 then Ok (OpImm rd rs1 (imm_i insn) funct3 funct7)
         else if opcode = 0x33 then Ok (Op rd rs1 rs2 funct3 funct7)
         else if opcode = 0x1B then Ok (OpImm32 rd rs1 (imm_i insn) funct3 funct7)
         else if opcode = 0x3B then Ok (Op32 rd rs1 rs2 funct3 funct7)
         else if opcode = 0x2F then
           Ok (Amo rd rs1 rs2 funct3 (shr insn 27 AND 0x1F)
                 ((shr insn 26 AND 1) \<noteq> 0) ((shr insn 25 AND 1) \<noteq> 0))
         else if opcode = 0x73 then Ok (System rd rs1 funct3 (shr insn 20 AND 0xFFF))
         else if opcode = 0x0F then Ok Fence
         else Err (IllegalInstruction (zext32 insn)))"

subsection \<open>Encoders used by the expansion\<close>

definition encode_i :: "i32 \<Rightarrow> u32 \<Rightarrow> u32 \<Rightarrow> u32 \<Rightarrow> u32 \<Rightarrow> u32" where
  "encode_i imm rs1 funct3 rd opcode =
     (let imm12 = imm AND 0xFFF
      in shl imm12 20 OR shl rs1 15 OR shl funct3 12 OR shl rd 7 OR opcode)"

definition encode_u :: "i32 \<Rightarrow> u32 \<Rightarrow> u32 \<Rightarrow> u32" where
  "encode_u imm rd opcode =
     (let imm20 = shr imm 12 AND 0xFFFFF in shl imm20 12 OR shl rd 7 OR opcode)"

definition encode_r :: "u32 \<Rightarrow> u32 \<Rightarrow> u32 \<Rightarrow> u32 \<Rightarrow> u32 \<Rightarrow> u32 \<Rightarrow> u32" where
  "encode_r funct7 rs2 rs1 funct3 rd opcode =
     shl funct7 25 OR shl rs2 20 OR shl rs1 15 OR shl funct3 12 OR shl rd 7 OR opcode"

definition encode_s :: "i32 \<Rightarrow> u32 \<Rightarrow> u32 \<Rightarrow> u32 \<Rightarrow> u32 \<Rightarrow> u32" where
  "encode_s imm rs2 rs1 funct3 opcode =
     (let imm12 = imm AND 0xFFF;
          imm11_5 = shr imm12 5 AND 0x7F;
          imm4_0 = imm12 AND 0x1F
      in shl imm11_5 25 OR shl rs2 20 OR shl rs1 15 OR shl funct3 12 OR shl imm4_0 7 OR opcode)"

definition encode_j :: "i32 \<Rightarrow> u32 \<Rightarrow> u32" where
  "encode_j imm rd =
     (let imm20 = sar imm 20 AND 0x1;
          imm10_1 = sar imm 1 AND 0x3FF;
          imm11 = sar imm 11 AND 0x1;
          imm19_12 = sar imm 12 AND 0xFF
      in shl imm20 31 OR shl imm19_12 12 OR shl imm11 20 OR shl imm10_1 21 OR shl rd 7 OR 0x6F)"

definition encode_b :: "i32 \<Rightarrow> u32 \<Rightarrow> u32 \<Rightarrow> u32 \<Rightarrow> u32 \<Rightarrow> u32" where
  "encode_b imm rs2 rs1 funct3 opcode =
     (let imm13 = imm AND 0x1FFF;
          imm12 = shr imm13 12 AND 0x1;
          imm10_5 = shr imm13 5 AND 0x3F;
          imm4_1 = shr imm13 1 AND 0xF;
          imm11 = shr imm13 11 AND 0x1
      in shl imm12 31 OR shl imm10_5 25 OR shl rs2 20 OR shl rs1 15 OR shl funct3 12
           OR shl imm4_1 8 OR shl imm11 7 OR opcode)"

definition sext :: "u32 \<Rightarrow> nat \<Rightarrow> i32" where
  "sext value bits = (let shift = 32 - bits in sar (shl value shift) shift)"

subsection \<open>Compressed instructions\<close>

definition expand_q0 :: "u16 \<Rightarrow> u16 \<Rightarrow> (u32, trap) result" where
  "expand_q0 insn funct3 =
     (let insn_u = (ucast insn :: u32);
          illegal = Err (IllegalInstruction (zext16 insn));
          rd_prime = 8 + (shr insn_u 2 AND 0x7);
          rs1_prime = 8 + (shr insn_u 7 AND 0x7)
      in if funct3 = 0 then
           (let nzuimm = shl (shr insn_u 6 AND 0x1) 2 OR shl (shr insn_u 5 AND 0x1) 3
                  OR shl (shr insn_u 11 AND 0x3) 4 OR shl (shr insn_u 7 AND 0xF) 6
            in if nzuimm = 0 then illegal else Ok (encode_i nzuimm 2 0x0 rd_prime 0x13))
         else if funct3 = 2 then
           (let uimm = shl (shr insn_u 6 AND 0x1) 2 OR shl (shr insn_u 10 AND 0x7) 3
                  OR shl (shr insn_u 5 AND 0x1) 6
            in Ok (encode_i uimm rs1_prime 0x2 rd_prime 0x03))
         else if funct3 = 3 then
           (let uimm = shl (shr insn_u 10 AND 0x7) 3 OR shl (shr insn_u 5 AND 0x3) 6
            in Ok (encode_i uimm rs1_prime 0x3 rd_prime 0x03))
         else if funct3 = 6 then
           (let uimm = shl (shr insn_u 6 AND 0x1) 2 OR shl (shr insn_u 10 AND 0x7) 3
                  OR shl (shr insn_u 5 AND 0x1) 6
            in Ok (encode_s uimm rd_prime rs1_prime 0x2 0x23))
         else if funct3 = 7 then
           (let uimm = shl (shr insn_u 10 AND 0x7) 3 OR shl (shr insn_u 5 AND 0x3) 6
            in Ok (encode_s uimm rd_prime rs1_prime 0x3 0x23))
         else illegal)"

text \<open>
  The arithmetic group of quadrant 1 (\<open>funct3 = 0b100\<close>): shifts, \<open>C.ANDI\<close>, and the
  register-register operations.  The inner matches are on two-bit fields and cover every value,
  so the \<open>unreachable!()\<close> and catch-all arms of the source never apply.
\<close>

definition expand_q1_alu :: "u16 \<Rightarrow> (u32, trap) result" where
  "expand_q1_alu insn =
     (let insn_u = (ucast insn :: u32);
          illegal = Err (IllegalInstruction (zext16 insn));
          rs1_prime = 8 + (shr insn_u 7 AND 0x7);
          rs2_prime = 8 + (shr insn_u 2 AND 0x7);
          op2 = shr insn_u 10 AND 0x3;
          imm_bits = (shr insn_u 2 AND 0x1F) OR shl (shr insn_u 12 AND 0x1) 5;
          shamt = imm_bits AND 0x3F;
          bit12 = shr insn_u 12 AND 0x1;
          funct2 = shr insn_u 5 AND 0x3
      in if op2 = 0 then Ok (encode_i shamt rs1_prime 0x5 rs1_prime 0x13)
         else if op2 = 1 then Ok (encode_i (shl 0x20 6 OR shamt) rs1_prime 0x5 rs1_prime 0x13)
         else if op2 = 2 then Ok (encode_i (sext imm_bits 6) rs1_prime 0x7 rs1_prime 0x13)
         else if bit12 = 0 then
           (let (funct3, funct7) =
                  (if funct2 = 0 then (0x0, 0x20)
                   else if funct2 = 1 then (0x4, 0x00)
                   else if funct2 = 2 then (0x6, 0x00)
                   else (0x7, 0x00))
            in Ok (shl funct7 25 OR shl rs2_prime 20 OR shl rs1_prime 15 OR shl funct3 12
                     OR shl rs1_prime 7 OR 0x33))
         else if funct2 = 0 then Ok (encode_r 0x20 rs2_prime rs1_prime 0x0 rs1_prime 0x3B)
         else if funct2 = 1 then Ok (encode_r 0x00 rs2_prime rs1_prime 0x0 rs1_prime 0x3B)
         else illegal)"

definition expand_q1 :: "u16 \<Rightarrow> u16 \<Rightarrow> (u32, trap) result" where
  "expand_q1 insn funct3 =
     (let insn_u = (ucast insn :: u32);
          illegal = Err (IllegalInstruction (zext16 insn));
          rd = shr insn_u 7 AND 0x1F;
          imm_bits = (shr insn_u 2 AND 0x1F) OR shl (shr insn_u 12 AND 0x1) 5;
          imm = sext imm_bits 6;
          rs1_prime = 8 + (shr insn_u 7 AND 0x7)
      in if funct3 = 0 then
           (if rd = 0 then (if imm = 0 then Ok (encode_i 0 0 0x0 0 0x13) else illegal)
            else Ok (encode_i imm rd 0x0 rd 0x13))
         else if funct3 = 1 then
           (if rd = 0 then illegal else Ok (encode_i imm rd 0x0 rd 0x1B))
         else if funct3 = 2 then
           (if rd = 0 then illegal else Ok (encode_i imm 0 0x0 rd 0x13))
         else if funct3 = 3 then
           (if rd = 2 then
              (let nz = shl (shr insn_u 12 AND 0x1) 9 OR shl (shr insn_u 3 AND 0x3) 7
                     OR shl (shr insn_u 5 AND 0x1) 6 OR shl (shr insn_u 2 AND 0x1) 5
                     OR shl (shr insn_u 6 AND 0x1) 4
               in if nz = 0 then illegal else Ok (encode_i (sext nz 10) 2 0x0 2 0x13))
            else if rd = 0 \<or> imm_bits = 0 then illegal
            else Ok (encode_u (shl imm 12) rd 0x37))
         else if funct3 = 4 then expand_q1_alu insn
         else if funct3 = 5 then
           (let off = shl (shr insn_u 12 AND 0x1) 11 OR shl (shr insn_u 11 AND 0x1) 4
                  OR shl (shr insn_u 9 AND 0x3) 8 OR shl (shr insn_u 8 AND 0x1) 10
                  OR shl (shr insn_u 7 AND 0x1) 6 OR shl (shr insn_u 6 AND 0x1) 7
                  OR shl (shr insn_u 3 AND 0x7) 1 OR shl (shr insn_u 2 AND 0x1) 5
            in Ok (encode_j (sext off 12) 0))
         else if funct3 = 6 \<or> funct3 = 7 then
           (let off = shl (shr insn_u 12 AND 0x1) 8 OR shl (shr insn_u 10 AND 0x3) 3
                  OR shl (shr insn_u 5 AND 0x3) 6 OR shl (shr insn_u 3 AND 0x3) 1
                  OR shl (shr insn_u 2 AND 0x1) 5
            in Ok (encode_b (sext off 9) 0 rs1_prime (if funct3 = 6 then 0x0 else 0x1) 0x63))
         else illegal)"

definition expand_q2 :: "u16 \<Rightarrow> u16 \<Rightarrow> (u32, trap) result" where
  "expand_q2 insn funct3 =
     (let insn_u = (ucast insn :: u32);
          illegal = Err (IllegalInstruction (zext16 insn));
          rd = shr insn_u 7 AND 0x1F;
          rs2 = shr insn_u 2 AND 0x1F
      in if funct3 = 0 then
           (let imm_bits = (shr insn_u 2 AND 0x1F) OR shl (shr insn_u 12 AND 0x1) 5;
                imm = imm_bits AND 0x3F
            in if rd = 0 then illegal else Ok (encode_i imm rd 0x1 rd 0x13))
         else if funct3 = 2 then
           (if rd = 0 then illegal else
            (let uimm = shl (shr insn_u 4 AND 0x7) 2 OR shl (shr insn_u 12 AND 0x1) 5
                   OR shl (shr insn_u 2 AND 0x3) 6
             in Ok (encode_i uimm 2 0x2 rd 0x03)))
         else if funct3 = 3 then
           (if rd = 0 then illegal else
            (let uimm = shl (shr insn_u 12 AND 0x1) 5 OR shl (shr insn_u 5 AND 0x3) 3
                   OR shl (shr insn_u 2 AND 0x7) 6
             in Ok (encode_i uimm 2 0x3 rd 0x03)))
         else if funct3 = 4 then
           (let bit12 = shr insn_u 12 AND 0x1
            in if bit12 = 0 \<and> rs2 = 0 \<and> rd \<noteq> 0 then Ok (encode_i 0 rd 0x0 0 0x67)
               else if bit12 = 0 \<and> rs2 \<noteq> 0 \<and> rd \<noteq> 0 then Ok (encode_r 0x00 rs2 0 0x0 rd 0x33)
               else if bit12 = 1 \<and> rs2 = 0 \<and> rd = 0 then Ok 0x00100073
               else if bit12 = 1 \<and> rs2 = 0 \<and> rd \<noteq> 0 then Ok (encode_i 0 rd 0x0 1 0x67)
               else if bit12 = 1 \<and> rs2 \<noteq> 0 \<and> rd \<noteq> 0 then Ok (encode_r 0x00 rs2 rd 0x0 rd 0x33)
               else illegal)
         else if funct3 = 6 then
           (let uimm = shl (shr insn_u 9 AND 0xF) 2 OR shl (shr insn_u 7 AND 0x3) 6
            in Ok (encode_s uimm rs2 2 0x2 0x23))
         else if funct3 = 7 then
           (let uimm = shl (shr insn_u 10 AND 0x7) 3 OR shl (shr insn_u 7 AND 0x7) 6
            in Ok (encode_s uimm rs2 2 0x3 0x23))
         else illegal)"

definition expand_compressed :: "u16 \<Rightarrow> (u32, trap) result" where
  "expand_compressed insn =
     (let opcode = insn AND 0x3; funct3 = shr insn 13 AND 0x7
      in if opcode = 0 then expand_q0 insn funct3
         else if opcode = 1 then expand_q1 insn funct3
         else if opcode = 2 then expand_q2 insn funct3
         else Err (IllegalInstruction (zext16 insn)))"

subsection \<open>The encoders place each field where the decoder reads it\<close>

text \<open>The sign extensions of a 12-, 13- and 21-bit immediate field.\<close>

definition sext13 :: "i32 \<Rightarrow> i64" where
  "sext13 imm = scast (shl (sar (shl imm 19) 20) 1)"

definition sext21 :: "i32 \<Rightarrow> i64" where
  "sext21 imm = scast (shl (sar (shl imm 11) 12) 1)"

definition sext12 :: "i32 \<Rightarrow> i64" where
  "sext12 imm = scast (sar (shl imm 20) 20)"

lemma field_bits:
  fixes x :: u32
  shows "x < 8 \<Longrightarrow> 3 \<le> n \<Longrightarrow> bit x n = False" "x < 32 \<Longrightarrow> 5 \<le> n \<Longrightarrow> bit x n = False"
    "x < 128 \<Longrightarrow> 7 \<le> n \<Longrightarrow> bit x n = False"
  using bit_less_2p [of x 3 n] bit_less_2p [of x 5 n] bit_less_2p [of x 7 n]
  by (auto simp: not_le [symmetric])

lemma encode_i_fields:
  assumes "rs1 < 32" "f3 < 8" "rd < 32" "opc < 128"
  shows "encode_i imm rs1 f3 rd opc AND 0x7F = opc"
    "shr (encode_i imm rs1 f3 rd opc) 7 AND 0x1F = rd"
    "shr (encode_i imm rs1 f3 rd opc) 12 AND 0x7 = f3"
    "shr (encode_i imm rs1 f3 rd opc) 15 AND 0x1F = rs1"
    "shr (encode_i imm rs1 f3 rd opc) 25 AND 0x7F = shr imm 5 AND 0x7F"
    "shr (encode_i imm rs1 f3 rd opc) 20 AND 0xFFF = imm AND 0xFFF"
    "imm_i (encode_i imm rs1 f3 rd opc) = sext12 imm"
  unfolding encode_i_def Let_def imm_i_def sext12_def
  by (rule word_eq_bits, unfold bitx, simp add: positions field_bits assms del: bit_0 flip: numeral_2_eq_2)+

lemma encode_r_fields:
  assumes "f7 < 128" "rs2 < 32" "rs1 < 32" "f3 < 8" "rd < 32" "opc < 128"
  shows "encode_r f7 rs2 rs1 f3 rd opc AND 0x7F = opc"
    "shr (encode_r f7 rs2 rs1 f3 rd opc) 7 AND 0x1F = rd"
    "shr (encode_r f7 rs2 rs1 f3 rd opc) 12 AND 0x7 = f3"
    "shr (encode_r f7 rs2 rs1 f3 rd opc) 15 AND 0x1F = rs1"
    "shr (encode_r f7 rs2 rs1 f3 rd opc) 20 AND 0x1F = rs2"
    "shr (encode_r f7 rs2 rs1 f3 rd opc) 25 AND 0x7F = f7"
    "shr (encode_r f7 rs2 rs1 f3 rd opc) 27 AND 0x1F = shr f7 2"
    "shr (encode_r f7 rs2 rs1 f3 rd opc) 26 AND 1 = shr f7 1 AND 1"
    "shr (encode_r f7 rs2 rs1 f3 rd opc) 25 AND 1 = f7 AND 1"
  unfolding encode_r_def
  by (rule word_eq_bits, unfold bitx, simp add: positions field_bits assms del: bit_0 flip: numeral_2_eq_2)+

lemma encode_s_fields:
  assumes "rs2 < 32" "rs1 < 32" "f3 < 8" "opc < 128"
  shows "encode_s imm rs2 rs1 f3 opc AND 0x7F = opc"
    "shr (encode_s imm rs2 rs1 f3 opc) 12 AND 0x7 = f3"
    "shr (encode_s imm rs2 rs1 f3 opc) 15 AND 0x1F = rs1"
    "shr (encode_s imm rs2 rs1 f3 opc) 20 AND 0x1F = rs2"
    "imm_s (encode_s imm rs2 rs1 f3 opc) = sext12 imm"
  unfolding encode_s_def Let_def imm_s_def sext12_def
  by (rule word_eq_bits, unfold bitx, simp add: positions field_bits assms del: bit_0 flip: numeral_2_eq_2)+

lemma and_upper20: "x AND 0xFFFFF000 = shl (shr x 12) 12" for x :: u32
  by (rule word_eq_bits, unfold bitx bit_and_iff, simp add: positions del: bit_0)

lemma encode_u_fields:
  assumes "rd < 32" "opc < 128"
  shows "encode_u imm rd opc AND 0x7F = opc"
    "shr (encode_u imm rd opc) 7 AND 0x1F = rd"
    "imm_u (encode_u imm rd opc) = scast (shl (shr imm 12) 12)"
  unfolding encode_u_def Let_def imm_u_def and_upper20
  by (rule word_eq_bits, unfold bitx, simp add: positions field_bits assms del: bit_0 flip: numeral_2_eq_2)+

lemma encode_j_fields:
  assumes "rd < 32"
  shows "encode_j imm rd AND 0x7F = 0x6F"
    "shr (encode_j imm rd) 7 AND 0x1F = rd"
    "imm_j (encode_j imm rd) = sext21 imm"
  unfolding sext21_def encode_j_def Let_def imm_j_def
  by (rule word_eq_bits, unfold bitx, simp add: positions field_bits assms del: bit_0 flip: numeral_2_eq_2)+

lemma encode_b_fields:
  assumes "rs2 < 32" "rs1 < 32" "f3 < 8" "opc < 128"
  shows "encode_b imm rs2 rs1 f3 opc AND 0x7F = opc"
    "shr (encode_b imm rs2 rs1 f3 opc) 12 AND 0x7 = f3"
    "shr (encode_b imm rs2 rs1 f3 opc) 15 AND 0x1F = rs1"
    "shr (encode_b imm rs2 rs1 f3 opc) 20 AND 0x1F = rs2"
    "imm_b (encode_b imm rs2 rs1 f3 opc) = sext13 imm"
  unfolding sext13_def encode_b_def Let_def imm_b_def
  by (rule word_eq_bits, unfold bitx, simp add: positions field_bits assms del: bit_0 flip: numeral_2_eq_2)+

lemma and_mask_lt:
  fixes w :: u32
  shows "w AND 0x7 < 8" "w AND 0x1F < 32" "w AND 0x7F < 128" "w AND 0xFFF < 0x1000"
  using and_mask_less' [of 3 w] and_mask_less' [of 5 w] and_mask_less' [of 7 w] and_mask_less' [of 12 w]
  by (simp_all add: mask_eq_exp_minus_1)

end
