(* ===== verification/Rv_Decoder_Spec.thy ===== *)
theory Rv_Decoder_Spec
  imports Rv_Decoder
begin

text \<open>
  A reference for the decoder, and the proofs that \<^verbatim>\<open>decode\<close> and \<^verbatim>\<open>expand_compressed\<close> meet it.

  \<^item> \<open>assemble\<close> writes an operation with the encoders of the source; \<open>op_wf\<close> is the set of operations
    with in-range fields.  \<open>decode\<close> inverts \<open>assemble\<close> on \<open>op_wf\<close> and only returns such operations.
  \<^item> \<open>rvc_op\<close> is the table of compressed instructions of the RISC-V manual: an immediate is the list
    of the destination bits of consecutive instruction bits (\<open>scatter\<close>), read from the manual's
    drawings.  Expanding and decoding agrees with it, except for the hint encodings with \<open>rd = x0\<close>,
    which the code refuses, and for \<open>C.SRAI\<close>, which it expands to a wrong encoding.
\<close>

unbundle bit_operations_syntax

subsection \<open>The compressed instruction table\<close>

text \<open>\<open>scatter c s [d\<^sub>0, d\<^sub>1, \<dots>]\<close> moves bit \<open>s\<close> of \<open>c\<close> to bit \<open>d\<^sub>0\<close>, bit \<open>s - 1\<close> to \<open>d\<^sub>1\<close>, and so on.\<close>

primrec scatter :: "u16 \<Rightarrow> nat \<Rightarrow> nat list \<Rightarrow> i64" where
  "scatter c s [] = 0"
| "scatter c s (d # ds) = (if bit c s then shl 1 d else 0) OR scatter c (s - 1) ds"

definition sext_imm :: "nat \<Rightarrow> i64 \<Rightarrow> i64" where
  "sext_imm k x = signed_take_bit (k - 1) x"

definition cfield :: "u16 \<Rightarrow> nat \<Rightarrow> nat \<Rightarrow> u32" where
  "cfield c lo w = take_bit w (shr (ucast c) lo)"

definition creg :: "u16 \<Rightarrow> nat \<Rightarrow> register" where
  "creg c lo = from_u32 (8 + cfield c lo 3)"

definition freg :: "u16 \<Rightarrow> nat \<Rightarrow> register" where
  "freg c lo = from_u32 (cfield c lo 5)"

definition op_imm :: "register \<Rightarrow> register \<Rightarrow> i64 \<Rightarrow> u32 \<Rightarrow> op" where
  "op_imm rd rs1 imm funct3 = OpImm rd rs1 imm funct3 (low32 (shr imm 5) AND 0x7F)"

definition op_imm32 :: "register \<Rightarrow> register \<Rightarrow> i64 \<Rightarrow> u32 \<Rightarrow> op" where
  "op_imm32 rd rs1 imm funct3 = OpImm32 rd rs1 imm funct3 (low32 (shr imm 5) AND 0x7F)"

definition rvc_q0 :: "u16 \<Rightarrow> u16 \<Rightarrow> op option" where
  "rvc_q0 c f3 =
     (let rd' = creg c 2; rs1' = creg c 7;
          uimm_w = scatter c 12 [5, 4, 3] OR scatter c 6 [2, 6];
          uimm_d = scatter c 12 [5, 4, 3] OR scatter c 6 [7, 6]
      in if f3 = 0 then
           (if cfield c 5 8 = 0 then None
            else Some (op_imm rd' X2 (scatter c 12 [5, 4, 9, 8, 7, 6, 2, 3]) 0))
         else if f3 = 2 then Some (Load rd' rs1' uimm_w 2)
         else if f3 = 3 then Some (Load rd' rs1' uimm_d 3)
         else if f3 = 6 then Some (Store rs1' rd' uimm_w 2)
         else if f3 = 7 then Some (Store rs1' rd' uimm_d 3)
         else None)"

definition ci_imm :: "u16 \<Rightarrow> i64" where
  "ci_imm c = scatter c 12 [5] OR scatter c 6 [4, 3, 2, 1, 0]"

definition rvc_q1_alu :: "u16 \<Rightarrow> op option" where
  "rvc_q1_alu c =
     (let rd' = creg c 7; rs2' = creg c 2; f2 = cfield c 10 2; g = cfield c 5 2
      in if f2 = 0 then Some (op_imm rd' rd' (ci_imm c) 5)
         else if f2 = 1 then Some (op_imm rd' rd' (0x400 OR ci_imm c) 5)
         else if f2 = 2 then Some (op_imm rd' rd' (sext_imm 6 (ci_imm c)) 7)
         else if \<not> bit c 12 then
           (if g = 0 then Some (Op rd' rd' rs2' 0 0x20)
            else if g = 1 then Some (Op rd' rd' rs2' 4 0)
            else if g = 2 then Some (Op rd' rd' rs2' 6 0)
            else Some (Op rd' rd' rs2' 7 0))
         else if g = 0 then Some (Op32 rd' rd' rs2' 0 0x20)
         else if g = 1 then Some (Op32 rd' rd' rs2' 0 0)
         else None)"

definition rvc_q1 :: "u16 \<Rightarrow> u16 \<Rightarrow> op option" where
  "rvc_q1 c f3 =
     (let rd = freg c 7; rd0 = (cfield c 7 5 = 0); imm = sext_imm 6 (ci_imm c);
          rs1' = creg c 7; boff = sext_imm 9 (scatter c 12 [8, 4, 3] OR scatter c 6 [7, 6, 2, 1, 5])
      in if f3 = 0 then Some (op_imm rd rd imm 0)
         else if f3 = 1 then (if rd0 then None else Some (op_imm32 rd rd imm 0))
         else if f3 = 2 then Some (op_imm rd X0 imm 0)
         else if f3 = 3 then
           (if cfield c 12 1 = 0 \<and> cfield c 2 5 = 0 then None
            else if cfield c 7 5 = 2 then
              Some (op_imm X2 X2 (sext_imm 10 (scatter c 12 [9] OR scatter c 6 [4, 6, 8, 7, 5])) 0)
            else Some (Lui rd (sext_imm 18 (scatter c 12 [17] OR scatter c 6 [16, 15, 14, 13, 12]))))
         else if f3 = 4 then rvc_q1_alu c
         else if f3 = 5 then
           Some (Jal X0 (sext_imm 12 (scatter c 12 [11, 4, 9, 8, 10, 6, 7, 3, 2, 1, 5])))
         else if f3 = 6 then Some (Branch rs1' X0 boff 0)
         else Some (Branch rs1' X0 boff 1))"

definition rvc_q2 :: "u16 \<Rightarrow> u16 \<Rightarrow> op option" where
  "rvc_q2 c f3 =
     (let rd = freg c 7; rs2 = freg c 2; rd0 = (cfield c 7 5 = 0); rs20 = (cfield c 2 5 = 0)
      in if f3 = 0 then Some (op_imm rd rd (ci_imm c) 1)
         else if f3 = 2 then
           (if rd0 then None else Some (Load rd X2 (scatter c 12 [5] OR scatter c 6 [4, 3, 2, 7, 6]) 2))
         else if f3 = 3 then
           (if rd0 then None else Some (Load rd X2 (scatter c 12 [5] OR scatter c 6 [4, 3, 8, 7, 6]) 3))
         else if f3 = 4 then
           (if \<not> bit c 12 then
              (if rs20 then (if rd0 then None else Some (Jalr X0 rd 0)) else Some (Op rd X0 rs2 0 0))
            else if rs20 then
              (if rd0 then Some (System X0 X0 0 1) else Some (Jalr X1 rd 0))
            else Some (Op rd rd rs2 0 0))
         else if f3 = 6 then Some (Store X2 rs2 (scatter c 12 [5, 4, 3, 2, 7, 6]) 2)
         else if f3 = 7 then Some (Store X2 rs2 (scatter c 12 [5, 4, 3, 8, 7, 6]) 3)
         else None)"

definition rvc_op :: "u16 \<Rightarrow> op option" where
  "rvc_op c =
     (let q = c AND 0x3; f3 = shr c 13 AND 0x7
      in if q = 0 then rvc_q0 c f3 else if q = 1 then rvc_q1 c f3 else if q = 2 then rvc_q2 c f3 else None)"

definition rvc_hint_rd0 :: "u16 \<Rightarrow> bool" where
  "rvc_hint_rd0 c =
     (let q = c AND 0x3; f3 = shr c 13 AND 0x7
      in cfield c 7 5 = 0 \<and>
         (q = 1 \<and> (f3 = 0 \<and> ci_imm c \<noteq> 0 \<or> f3 = 2 \<or> f3 = 3) \<or> 
          q = 2 \<and> (f3 = 0 \<or> f3 = 4 \<and> cfield c 2 5 \<noteq> 0)))"

definition is_c_srai :: "u16 \<Rightarrow> bool" where
  "is_c_srai c = (c AND 0x3 = 1 \<and> shr c 13 AND 0x7 = 4 \<and> cfield c 10 2 = 1)"

definition decode_compressed :: "u16 \<Rightarrow> (op, trap) result" where
  "decode_compressed c = (case expand_compressed c of Ok w \<Rightarrow> decode w | Err e \<Rightarrow> Err e | Panic \<Rightarrow> Panic)"

abbreviation rvc_result :: "u16 \<Rightarrow> op option \<Rightarrow> (op, trap) result" where
  "rvc_result c r \<equiv> (case r of Some x \<Rightarrow> Ok x | None \<Rightarrow> Err (IllegalInstruction (zext16 c)))"

subsection \<open>The assembler\<close>

definition fits :: "nat \<Rightarrow> i64 \<Rightarrow> bool" where
  "fits k imm \<longleftrightarrow> - (2 ^ (k - 1)) \<le> sint imm \<and> sint imm < 2 ^ (k - 1)"

definition reg_num :: "register \<Rightarrow> u32" where
  "reg_num r = word_of_nat (to_usize r)"

definition amo_funct7 :: "u32 \<Rightarrow> bool \<Rightarrow> bool \<Rightarrow> u32" where
  "amo_funct7 f5 aq rl = shl f5 2 OR (if aq then 2 else 0) OR (if rl then 1 else 0)"

primrec assemble :: "op \<Rightarrow> u32" where
  "assemble (Lui rd imm) = encode_u (low32 imm) (reg_num rd) 0x37"
| "assemble (Auipc rd imm) = encode_u (low32 imm) (reg_num rd) 0x17"
| "assemble (Jal rd imm) = encode_j (low32 imm) (reg_num rd)"
| "assemble (Jalr rd rs1 imm) = encode_i (low32 imm) (reg_num rs1) 0 (reg_num rd) 0x67"
| "assemble (Branch rs1 rs2 imm f3) = encode_b (low32 imm) (reg_num rs2) (reg_num rs1) f3 0x63"
| "assemble (Load rd rs1 imm f3) = encode_i (low32 imm) (reg_num rs1) f3 (reg_num rd) 0x03"
| "assemble (Store rs1 rs2 imm f3) = encode_s (low32 imm) (reg_num rs2) (reg_num rs1) f3 0x23"
| "assemble (OpImm rd rs1 imm f3 f7) = encode_i (low32 imm) (reg_num rs1) f3 (reg_num rd) 0x13"
| "assemble (Op rd rs1 rs2 f3 f7) = encode_r f7 (reg_num rs2) (reg_num rs1) f3 (reg_num rd) 0x33"
| "assemble (OpImm32 rd rs1 imm f3 f7) = encode_i (low32 imm) (reg_num rs1) f3 (reg_num rd) 0x1B"
| "assemble (Op32 rd rs1 rs2 f3 f7) = encode_r f7 (reg_num rs2) (reg_num rs1) f3 (reg_num rd) 0x3B"
| "assemble (System rd rs1 f3 zimm) = encode_i zimm (reg_num rs1) f3 (reg_num rd) 0x73"
| "assemble (Amo rd rs1 rs2 f3 f5 aq rl) =
     encode_r (amo_funct7 f5 aq rl) (reg_num rs2) (reg_num rs1) f3 (reg_num rd) 0x2F"
| "assemble Fence = 0x0F"

primrec op_wf :: "op \<Rightarrow> bool" where
  "op_wf (Lui rd imm) \<longleftrightarrow> fits 32 imm \<and> imm AND 0xFFF = 0"
| "op_wf (Auipc rd imm) \<longleftrightarrow> fits 32 imm \<and> imm AND 0xFFF = 0"
| "op_wf (Jal rd imm) \<longleftrightarrow> fits 21 imm \<and> \<not> bit imm 0"
| "op_wf (Jalr rd rs1 imm) \<longleftrightarrow> fits 12 imm"
| "op_wf (Branch rs1 rs2 imm f3) \<longleftrightarrow> fits 13 imm \<and> \<not> bit imm 0 \<and> f3 < 8"
| "op_wf (Load rd rs1 imm f3) \<longleftrightarrow> fits 12 imm \<and> f3 < 8"
| "op_wf (Store rs1 rs2 imm f3) \<longleftrightarrow> fits 12 imm \<and> f3 < 8"
| "op_wf (OpImm rd rs1 imm f3 f7) \<longleftrightarrow> fits 12 imm \<and> f3 < 8 \<and> f7 = low32 (shr imm 5) AND 0x7F"
| "op_wf (Op rd rs1 rs2 f3 f7) \<longleftrightarrow> f3 < 8 \<and> f7 < 128"
| "op_wf (OpImm32 rd rs1 imm f3 f7) \<longleftrightarrow> fits 12 imm \<and> f3 < 8 \<and> f7 = low32 (shr imm 5) AND 0x7F"
| "op_wf (Op32 rd rs1 rs2 f3 f7) \<longleftrightarrow> f3 < 8 \<and> f7 < 128"
| "op_wf (System rd rs1 f3 zimm) \<longleftrightarrow> f3 < 8 \<and> zimm < 0x1000"
| "op_wf (Amo rd rs1 rs2 f3 f5 aq rl) \<longleftrightarrow> f3 < 8 \<and> f5 < 32"
| "op_wf Fence \<longleftrightarrow> True"

subsection \<open>Bits of the reference immediates\<close>

lemma bit_scatter_Nil [bitx]: "bit (scatter c s []) n \<longleftrightarrow> False" by simp

declare scatter.simps [simp del]

lemma bit_scatter_Cons [bitx]: "bit (scatter c s (d # ds)) n \<longleftrightarrow> n < 64 \<and> n = d \<and> bit c s \<or> bit (scatter c (s - 1) ds) n"
  by (auto simp: bit_simps scatter.simps)

lemma bit_sext_imm [bitx]: "bit (sext_imm k x) n \<longleftrightarrow> n < 64 \<and> bit x (min n (k - 1))"
  by (auto simp: sext_imm_def bit_simps min_def)

lemma cfield_masks:
  "shr (ucast c) lo AND 0x1 = cfield c lo 1"
  "shr (ucast c) lo AND 0x3 = cfield c lo 2"
  "shr (ucast c) lo AND 0x7 = cfield c lo 3"
  "shr (ucast c) lo AND 0xF = cfield c lo 4"
  "shr (ucast c) lo AND 0x1F = cfield c lo 5"
  unfolding cfield_def by (simp_all add: take_bit_eq_mask mask_eq_exp_minus_1 del: take_bit_eq_mod)

lemma bit_cfield [bitx]: "bit (cfield c lo w) n \<longleftrightarrow> n < w \<and> n < 32 \<and> bit c (lo + n)"
  by (auto simp: cfield_def bit_simps dest: bit_imp_le_length)

lemma cfield_less: "w < 32 \<Longrightarrow> cfield c lo w < 2 ^ w"
  by (simp add: cfield_def take_bit_eq_mask and_mask_less')

lemma cfield_5 [simp]: "cfield c lo 5 < 32"
  using cfield_less [of 5] by simp

lemma creg_less [simp]: "8 + cfield c lo 3 < 32"
proof -
  have "cfield c lo 3 < 8" using cfield_less [of 3] by simp
  then show ?thesis by unat_arith
qed

subsection \<open>Decoding an encoded instruction\<close>

lemma op_imm_sext12:
  "OpImm rd rs1 (sext12 imm) f3 (shr imm 5 AND 0x7F) = op_imm rd rs1 (sext12 imm) f3"
  "OpImm32 rd rs1 (sext12 imm) f3 (shr imm 5 AND 0x7F) = op_imm32 rd rs1 (sext12 imm) f3"
proof -
  have "shr imm 5 AND 0x7F = low32 (shr (sext12 imm) 5) AND 0x7F"
    unfolding sext12_def
    by (rule word_eq_bits, unfold bitx, simp add: positions del: bit_0 flip: numeral_2_eq_2)
  then show "OpImm rd rs1 (sext12 imm) f3 (shr imm 5 AND 0x7F) = op_imm rd rs1 (sext12 imm) f3"
    "OpImm32 rd rs1 (sext12 imm) f3 (shr imm 5 AND 0x7F) = op_imm32 rd rs1 (sext12 imm) f3"
    by (simp_all add: op_imm_def op_imm32_def)
qed

lemma decode_encode_i:
  assumes "rs1 < 32" "f3 < 8" "rd < 32"
  shows "decode (encode_i imm rs1 f3 rd 0x13) =
      Ok (op_imm (from_u32 rd) (from_u32 rs1) (sext12 imm) f3)"
    "decode (encode_i imm rs1 f3 rd 0x1B) =
      Ok (op_imm32 (from_u32 rd) (from_u32 rs1) (sext12 imm) f3)"
    "decode (encode_i imm rs1 f3 rd 0x03) = Ok (Load (from_u32 rd) (from_u32 rs1) (sext12 imm) f3)"
    "decode (encode_i imm rs1 f3 rd 0x67) = Ok (Jalr (from_u32 rd) (from_u32 rs1) (sext12 imm))"
    "decode (encode_i imm rs1 f3 rd 0x73) =
      Ok (System (from_u32 rd) (from_u32 rs1) f3 (imm AND 0xFFF))"
  unfolding decode_def Let_def
  by (simp_all add: encode_i_fields [OF assms] op_imm_sext12)

lemma decode_encode_r:
  assumes "f7 < 128" "rs2 < 32" "rs1 < 32" "f3 < 8" "rd < 32"
  shows "decode (encode_r f7 rs2 rs1 f3 rd 0x33) =
      Ok (Op (from_u32 rd) (from_u32 rs1) (from_u32 rs2) f3 f7)"
    "decode (encode_r f7 rs2 rs1 f3 rd 0x3B) =
      Ok (Op32 (from_u32 rd) (from_u32 rs1) (from_u32 rs2) f3 f7)"
    "decode (encode_r f7 rs2 rs1 f3 rd 0x2F) =
      Ok (Amo (from_u32 rd) (from_u32 rs1) (from_u32 rs2) f3 (shr f7 2)
            (shr f7 1 AND 1 \<noteq> 0) (f7 AND 1 \<noteq> 0))"
proof -
  have opc: "(0x33 :: u32) < 128" "(0x3B :: u32) < 128" "(0x2F :: u32) < 128" by simp_all
  note fields = encode_r_fields [OF assms opc(1)] encode_r_fields [OF assms opc(2)]
    encode_r_fields [OF assms opc(3)]
  show "decode (encode_r f7 rs2 rs1 f3 rd 0x33) =
      Ok (Op (from_u32 rd) (from_u32 rs1) (from_u32 rs2) f3 f7)"
    "decode (encode_r f7 rs2 rs1 f3 rd 0x3B) =
      Ok (Op32 (from_u32 rd) (from_u32 rs1) (from_u32 rs2) f3 f7)"
    "decode (encode_r f7 rs2 rs1 f3 rd 0x2F) =
      Ok (Amo (from_u32 rd) (from_u32 rs1) (from_u32 rs2) f3 (shr f7 2)
            (shr f7 1 AND 1 \<noteq> 0) (f7 AND 1 \<noteq> 0))"
    by (simp_all only: decode_def Let_def fields) simp_all
qed

lemma decode_encode_s:
  assumes "rs2 < 32" "rs1 < 32" "f3 < 8"
  shows "decode (encode_s imm rs2 rs1 f3 0x23) =
      Ok (Store (from_u32 rs1) (from_u32 rs2) (sext12 imm) f3)"
  unfolding decode_def Let_def
  by (simp add: encode_s_fields [OF assms])

lemma decode_encode_u:
  assumes "rd < 32"
  shows "decode (encode_u imm rd 0x37) = Ok (Lui (from_u32 rd) (scast (shl (shr imm 12) 12)))"
    "decode (encode_u imm rd 0x17) = Ok (Auipc (from_u32 rd) (scast (shl (shr imm 12) 12)))"
  unfolding decode_def Let_def
  by (simp_all add: encode_u_fields [OF assms])

lemma decode_encode_j:
  assumes "rd < 32"
  shows "decode (encode_j imm rd) = Ok (Jal (from_u32 rd) (sext21 imm))"
  unfolding decode_def Let_def
  by (simp add: encode_j_fields [OF assms])

lemma decode_encode_b:
  assumes "rs2 < 32" "rs1 < 32" "f3 < 8"
  shows "decode (encode_b imm rs2 rs1 f3 0x63) =
      Ok (Branch (from_u32 rs1) (from_u32 rs2) (sext13 imm) f3)"
  unfolding decode_def Let_def
  by (simp add: encode_b_fields [OF assms])

lemmas decode_encode = decode_encode_i decode_encode_r decode_encode_s decode_encode_u
  decode_encode_j decode_encode_b

lemma from_u32_numerals [simp]:
  "from_u32 0 = X0" "from_u32 1 = X1" "from_u32 2 = X2"
  by (simp_all add: from_u32_def register_table_def)

subsection \<open>Expansion of the compressed quadrants\<close>

lemma q0_nz: "(shl (cfield c 6 1) 2 OR shl (cfield c 5 1) 3 OR shl (cfield c 11 2) 4 OR shl (cfield c 7 4) 6 = 0) \<longleftrightarrow> cfield c 5 8 = 0"
  unfolding word_eq_0_bits bitx
  by (auto simp add: positions)

lemma q0_imms:
  "sext12 (shl (cfield c 6 1) 2 OR shl (cfield c 5 1) 3 OR shl (cfield c 11 2) 4 OR shl (cfield c 7 4) 6)
     = scatter c 12 [5, 4, 9, 8, 7, 6, 2, 3]"
  "sext12 (shl (cfield c 6 1) 2 OR shl (cfield c 10 3) 3 OR shl (cfield c 5 1) 6)
     = scatter c 12 [5, 4, 3] OR scatter c 6 [2, 6]"
  "sext12 (shl (cfield c 10 3) 3 OR shl (cfield c 5 2) 6)
     = scatter c 12 [5, 4, 3] OR scatter c 6 [7, 6]"
  unfolding sext12_def
  by (rule word_eq_bits, unfold bitx, simp add: positions del: bit_0 flip: numeral_2_eq_2)+

lemma decode_q0:
  "(case expand_q0 c f3 of Ok w \<Rightarrow> decode w | Err e \<Rightarrow> Err e | Panic \<Rightarrow> Panic) = rvc_result c (rvc_q0 c f3)"
  unfolding expand_q0_def rvc_q0_def Let_def cfield_masks
  by (simp add: decode_encode q0_nz q0_imms creg_def del: One_nat_def)

lemma ci_eqs:
  "cfield c 2 5 OR shl (cfield c 12 1) 5 = low32 (ci_imm c)"
  "low32 (ci_imm c) AND 0x3F = low32 (ci_imm c)"
  "sext12 (low32 (ci_imm c)) = ci_imm c"
  "sext12 (0x800 OR low32 (ci_imm c)) = sext_imm 12 (shl 1 11 OR ci_imm c)"
  "sext12 (sext (low32 (ci_imm c)) 6) = sext_imm 6 (ci_imm c)"
  "scast (shl (shr (shl (sext (low32 (ci_imm c)) 6) 12) 12) 12) = sext_imm 18 (scatter c 12 [17] OR scatter c 6 [16, 15, 14, 13, 12])"
  unfolding sext12_def sext_def Let_def ci_imm_def
  by (rule word_eq_bits, unfold bitx, simp add: positions bit_1_iff del: bit_0 flip: numeral_2_eq_2)+

lemma q1_imms:
  "sext12 (sext (shl (cfield c 12 1) 9 OR shl (cfield c 3 2) 7 OR shl (cfield c 5 1) 6 OR shl (cfield c 2 1) 5 OR shl (cfield c 6 1) 4) 10)
    = sext_imm 10 (scatter c 12 [9] OR scatter c 6 [4, 6, 8, 7, 5])"
  "sext21 (sext (shl (cfield c 12 1) 11 OR shl (cfield c 11 1) 4
                  OR shl (cfield c 9 2) 8 OR shl (cfield c 8 1) 10
                  OR shl (cfield c 7 1) 6 OR shl (cfield c 6 1) 7
                  OR shl (cfield c 3 3) 1 OR shl (cfield c 2 1) 5) 12) =
    sext_imm 12 (scatter c 12 [11, 4, 9, 8, 10, 6, 7, 3, 2, 1, 5])"
  "sext13 (sext (shl (cfield c 12 1) 8 OR shl (cfield c 10 2) 3
                  OR shl (cfield c 5 2) 6 OR shl (cfield c 3 2) 1
                  OR shl (cfield c 2 1) 5) 9) =
   sext_imm 9 (scatter c 12 [8, 4, 3] OR scatter c 6 [7, 6, 2, 1, 5])"
  unfolding sext12_def sext13_def sext21_def sext_def Let_def
  by (rule word_eq_bits, unfold bitx, simp add: positions bit_1_iff del: bit_0 flip: numeral_2_eq_2)+

lemma q1_zero:
 "(shl (cfield c 12 1) 9 OR shl (cfield c 3 2) 7 OR shl (cfield c 5 1) 6 OR shl (cfield c 2 1) 5 OR shl (cfield c 6 1) 4 = 0) 
    \<longleftrightarrow> cfield c 12 1 = 0 \<and> cfield c 2 5 = 0"
 "low32 (ci_imm c) = 0 \<longleftrightarrow> cfield c 12 1 = 0 \<and> cfield c 2 5 = 0"
 "sext (low32 (ci_imm c)) 6 = 0 \<longleftrightarrow> ci_imm c = 0"
 "ci_imm c = 0 \<longleftrightarrow> cfield c 12 1 = 0 \<and> cfield c 2 5 = 0"
 "cfield c 12 1 = 0 \<longleftrightarrow> \<not> bit c 12"
  unfolding word_eq_0_bits sext_def Let_def ci_imm_def bitx
  by (auto simp: positions simp flip: numeral_2_eq_2 numeral_3_eq_3)

lemma q2_imms:
  "sext12 (shl (cfield c 4 3) 2 OR shl (cfield c 12 1) 5 OR shl (cfield c 2 2) 6)
    = scatter c 12 [5] OR scatter c 6 [4, 3, 2, 7, 6]"
  "sext12 (shl (cfield c 12 1) 5 OR shl (cfield c 5 2) 3 OR shl (cfield c 2 3) 6)
    = scatter c 12 [5] OR scatter c 6 [4, 3, 8, 7, 6]"
  "sext12 (shl (cfield c 9 4) 2 OR shl (cfield c 7 2) 6) = scatter c 12 [5, 4, 3, 2, 7, 6]"
  "sext12 (shl (cfield c 10 3) 3 OR shl (cfield c 7 3) 6) = scatter c 12 [5, 4, 3, 8, 7, 6]"
  unfolding sext12_def
  by (rule word_eq_bits, unfold bitx, simp add: positions del: bit_0 flip: numeral_2_eq_2)+

lemma sext12_0 [simp]: "sext12 0 = 0" by (simp add: sext12_def)

lemma cfield_1_cases: "cfield c lo 1 = (if bit c lo then 1 else 0)"
  by (rule word_eq_bits, simp add: bitx bit_1_iff positions split: if_splits)
lemma bit12: "cfield c 12 1 = 0 \<longleftrightarrow> \<not> bit c 12" "cfield c 12 1 = 1 \<longleftrightarrow> bit c 12"
  by (simp_all add: cfield_1_cases del: One_nat_def)
lemma sext_imm_0 [simp]: "sext_imm k 0 = 0" by (simp add: sext_imm_def)
lemma sext_0 [simp]: "sext 0 k = 0" by (simp add: sext_def Let_def)
lemma decode_ebreak: "decode 0x00100073 = Ok (System X0 X0 0 1)"
  by (simp add: decode_def Let_def)

lemma decode_q2:
  "(case expand_q2 c f3 of Ok w \<Rightarrow> decode w | Err e \<Rightarrow> Err e | Panic \<Rightarrow> Panic) = 
    rvc_result c (if cfield c 7 5 = 0 \<and> (f3 = 0 \<or> f3 = 4 \<and> cfield c 2 5 \<noteq> 0) then None else rvc_q2 c f3)"
  unfolding expand_q2_def rvc_q2_def Let_def cfield_masks ci_eqs q2_imms
  by (simp add: decode_encode ci_eqs q2_imms bit12 freg_def decode_ebreak del: One_nat_def)

lemma decode_q1_alu:
  "cfield c 10 2 \<noteq> 1 \<Longrightarrow> (case expand_q1_alu c of Ok w \<Rightarrow> decode w | Err e \<Rightarrow> Err e | Panic \<Rightarrow> Panic) = 
    rvc_result c (rvc_q1_alu c)"
  unfolding expand_q1_alu_def rvc_q1_alu_def Let_def cfield_masks ci_eqs encode_r_def [symmetric] bit12
  by (simp add: decode_encode ci_eqs creg_def bit12 del: One_nat_def)

lemma f3_cases: "(shr c 13 AND 7 :: u16) \<in> {0,1,2,3,4,5,6,7}"
proof -
  define x where "x = shr c 13 AND 7"
  have "x < 8"
    using and_mask_less' [of 3 "shr c 13"] by (simp add: mask_eq_exp_minus_1 x_def)
  then have "unat x < 8" by (simp add: word_less_nat_alt)
  then have "unat x \<in> set [0, 1, 2, 3, 4, 5, 6, 7]" by simp arith
  then have "word_of_nat (unat x) \<in> (word_of_nat ` set [0, 1, 2, 3, 4, 5, 6, 7] :: u16 set)" by (rule imageI)
  then show ?thesis unfolding x_def by simp
qed

lemma decode_q1:
  "f3 \<in> {0,1,2,3,4,5,6,7} \<Longrightarrow> f3 = 4 \<longrightarrow> cfield c 10 2 \<noteq> 1 \<Longrightarrow> (case expand_q1 c f3 of Ok w \<Rightarrow> decode w | Err e \<Rightarrow> Err e | Panic \<Rightarrow> Panic) = 
    rvc_result c (if cfield c 7 5 = 0 \<and> (f3 = 0 \<and> ci_imm c \<noteq> 0 \<or> f3 = 2 \<or> f3 = 3) then None else rvc_q1 c f3)"
  unfolding expand_q1_def rvc_q1_def Let_def cfield_masks ci_eqs
  apply (elim insertE emptyE)
  apply (simp_all add: decode_encode ci_eqs q1_imms q1_zero(1-3) freg_def creg_def bit12 decode_q1_alu del: One_nat_def)
  done
subsection \<open>Immediate ranges and the round trip\<close>

lemma bit_sint_min: "bit (sint (w :: i64)) n \<longleftrightarrow> bit w (min n 63)"
  by (cases "n < 64") (auto simp: bit_sint_iff min_def dest: bit_imp_le_length)

lemma fits_bits:
  assumes "0 < k" "k < 64"
  shows "fits k imm \<longleftrightarrow> (\<forall>n \<in> {k..<64}. bit imm n = bit imm (k - 1))"
proof -
  have "fits k imm \<longleftrightarrow> signed_take_bit (k - 1) (sint imm) = sint imm"
    by (simp add: fits_def signed_take_bit_int_eq_self_iff)
  also have "\<dots> \<longleftrightarrow> (\<forall>n. bit (sint imm) (min n (k - 1)) = bit (sint imm) n)"
    by (simp only: bit_eq_iff bit_signed_take_bit_iff possible_bit_int simp_thms min.commute)
  also have "\<dots> \<longleftrightarrow> (\<forall>n. bit imm (min n (k - 1)) = bit imm (min n 63))"
    using assms by (simp add: bit_sint_min min.assoc min_absorb1)
  also have "\<dots> \<longleftrightarrow> (\<forall>n \<in> {k..<64}. bit imm n = bit imm (k - 1))"
  proof (rule iffI; intro allI ballI)
    fix n assume "\<forall>n. bit imm (min n (k - 1)) = bit imm (min n 63)" "n \<in> {k..<64}"
    then have "min n (k - 1) = k - 1" "min n 63 = n" "bit imm (min n (k - 1)) = bit imm (min n 63)"
      by auto
    then show "bit imm n = bit imm (k - 1)" by simp
  next
    fix n assume *: "\<forall>n \<in> {k..<64}. bit imm n = bit imm (k - 1)"
    show "bit imm (min n (k - 1)) = bit imm (min n 63)"
      using assms bspec [OF *, of "min n 63"] by (cases "n < k") (auto simp: min_def split: if_splits)
  qed
  finally show ?thesis .
qed

lemma fits_bit: "fits k imm \<Longrightarrow> 0 < k \<Longrightarrow> k \<le> n \<Longrightarrow> n < 64 \<Longrightarrow> bit imm n = bit imm (k - 1)"
  by (simp add: fits_bits)

lemma reg_num_simps [simp]: "from_u32 (reg_num r) = r" "reg_num r < 32"
  by (cases r; simp add: reg_num_def from_u32_def register_table_def)+

lemma imm_roundtrips:
  "fits 12 imm \<Longrightarrow> sext12 (low32 imm) = imm"
  "fits 21 imm \<Longrightarrow> \<not> bit imm 0 \<Longrightarrow> sext21 (low32 imm) = imm"
  "fits 13 imm \<Longrightarrow> \<not> bit imm 0 \<Longrightarrow> sext13 (low32 imm) = imm"
  unfolding sext12_def sext13_def sext21_def
  by (rule word_eq_bits, unfold bitx, simp add: positions fits_bit del: bit_0 flip: numeral_2_eq_2)+

lemma imm_u_roundtrip:
  assumes "fits 32 imm" "imm AND 0xFFF = 0"
  shows "scast (shl (shr (low32 imm) 12) 12) = imm"
proof -
  have *: "\<not> bit imm n" if "n < 12" for n
    using that arg_cong [OF assms(2), of "\<lambda>x. bit x n"] by (simp add: bitx)
  show ?thesis
    by (rule word_eq_bits, unfold bitx, simp add: positions fits_bit [OF assms(1), simplified] * del: bit_0 flip: numeral_2_eq_2)
qed

lemma amo_funct7_fields:
  assumes "f5 < 32"
  shows "amo_funct7 f5 aq rl < 128" "shr (amo_funct7 f5 aq rl) 2 = f5"
    "shr (amo_funct7 f5 aq rl) 1 AND 1 = (if aq then 1 else 0)"
    "amo_funct7 f5 aq rl AND 1 = (if rl then 1 else 0)"
proof -
  have "amo_funct7 f5 aq rl = amo_funct7 f5 aq rl AND 0x7F" unfolding amo_funct7_def
    by (rule word_eq_bits, unfold bitx, simp add: positions field_bits assms bit_1_iff split: if_splits)
  also have "\<dots> < 128"
    using and_mask_less' [of 7 "amo_funct7 f5 aq rl"] by (simp add: mask_eq_exp_minus_1)
  finally show "amo_funct7 f5 aq rl < 128" .
  show "shr (amo_funct7 f5 aq rl) 2 = f5" "shr (amo_funct7 f5 aq rl) 1 AND 1 = (if aq then 1 else 0)"
    "amo_funct7 f5 aq rl AND 1 = (if rl then 1 else 0)"
    unfolding amo_funct7_def
    by (rule word_eq_bits, unfold bitx, simp add: positions field_bits assms bit_1_iff split: if_splits)+
qed

lemma fitsI:
  assumes "0 < k" "k < 64" "\<And>n. k \<le> n \<Longrightarrow> n < 64 \<Longrightarrow> bit imm n = bit imm (k - 1)"
  shows "fits k imm"
  using assms by (simp add: fits_bits)

lemma imm_fits:
  "fits 12 (imm_i w)" "fits 12 (imm_s w)" "fits 13 (imm_b w)" "fits 21 (imm_j w)" "fits 32 (imm_u w)"
  unfolding imm_i_def imm_s_def imm_b_def imm_j_def imm_u_def Let_def and_upper20
  by (rule fitsI, simp, simp, unfold bitx, auto simp: min_def)+

lemma imm_low_bits:
  "\<not> bit (imm_b w) 0" "\<not> bit (imm_j w) 0" "imm_u w AND 0xFFF = 0"
  unfolding imm_b_def imm_j_def imm_u_def Let_def and_upper20 word_eq_0_bits bitx
  by (simp_all add: positions)

lemma imm_i_funct7: "low32 (shr (imm_i w) 5) AND 0x7F = shr w 25 AND 0x7F"
  unfolding imm_i_def
  by (rule word_eq_bits, unfold bitx, simp add: positions del: bit_0 flip: numeral_2_eq_2)

subsection \<open>Properties\<close>

text \<open>C7: for every 16-bit instruction other than \<open>C.SRAI\<close>, expanding it and decoding the expansion
  yields the operation of the manual's compressed-instruction table; reserved encodings, and the
  hint encodings with \<open>rd = x0\<close>, are an illegal-instruction trap carrying the 16-bit encoding.\<close>

theorem decode_compressed_table:
  assumes "\<not> is_c_srai c"
  shows "decode_compressed c = rvc_result c (if rvc_hint_rd0 c then None else rvc_op c)"
proof -
  let ?f = "shr c 13 AND 0x7"
  consider "c AND 3 = 0" | "c AND 3 = 1" | "c AND 3 = 2" | "c AND 3 \<noteq> 0" "c AND 3 \<noteq> 1" "c AND 3 \<noteq> 2"
    by blast
  then show ?thesis
  proof cases
    case 1
    then show ?thesis by (simp add: decode_compressed_def expand_compressed_def rvc_op_def rvc_hint_rd0_def Let_def decode_q0)
  next
    case 2
    then have "?f = 4 \<longrightarrow> cfield c 10 2 \<noteq> 1" using assms by (simp add: is_c_srai_def)
    with 2 show ?thesis by (simp add: decode_compressed_def expand_compressed_def rvc_op_def rvc_hint_rd0_def Let_def
       decode_q1 [OF f3_cases]) auto
  next
    case 3
    then show ?thesis by (simp add: decode_compressed_def expand_compressed_def rvc_op_def rvc_hint_rd0_def Let_def decode_q2) auto
  next
    case 4
    then show ?thesis by (simp add: decode_compressed_def expand_compressed_def rvc_op_def rvc_hint_rd0_def Let_def)
  qed
qed

theorem decode_compressed_table_witness:
  "\<not> is_c_srai 0x4505 \<and> decode_compressed 0x4505 = Ok (OpImm X10 X0 1 0 0)"
proof
  show *: "\<not> is_c_srai 0x4505" by code_simp
  have "rvc_result 0x4505 (if rvc_hint_rd0 0x4505 then None else rvc_op 0x4505)
      = Ok (OpImm X10 X0 1 0 0)"
    by code_simp
  then show "decode_compressed 0x4505 = Ok (OpImm X10 X0 1 0 0)"
    using decode_compressed_table [OF *] by simp
qed

text \<open>\<open>C.SRAI\<close> expands to an \<open>OP-IMM\<close> encoding whose \<open>funct7\<close> has the arithmetic-shift bit
  clear, so the decoded operation is indistinguishable from the logical shift \<open>C.SRLI\<close> with the
  same register and shift amount, except in immediate bits the shift does not look at.\<close>

theorem c_srai_decodes_to_logical_shift:
  assumes "is_c_srai c"
  shows "\<exists>imm f7. decode_compressed c = Ok (OpImm (creg c 7) (creg c 7) imm 5 f7)
    \<and> imm AND 0x3F = ci_imm c \<and> f7 AND 0x20 = 0"
proof -
  let ?imm = "sext_imm 12 (shl 1 11 OR ci_imm c)"
  have "decode_compressed c = Ok (op_imm (creg c 7) (creg c 7) ?imm 5)"
    using assms
    unfolding is_c_srai_def decode_compressed_def expand_compressed_def Let_def expand_q1_def
      expand_q1_alu_def cfield_masks ci_eqs
    by (simp add: decode_encode ci_eqs creg_def)
  moreover have "?imm AND 0x3F = ci_imm c" "(low32 (shr ?imm 5) AND 0x7F) AND 0x20 = 0"
    unfolding ci_imm_def
    by (rule word_eq_bits, unfold bitx bit_and_iff, simp add: positions bit_1_iff)+
  ultimately show ?thesis by (auto simp: op_imm_def)
qed

theorem c_srai_decodes_to_logical_shift_witness:
  "is_c_srai 0x8505 \<and> (\<exists>imm f7. decode_compressed 0x8505 = Ok (OpImm (creg 0x8505 7) (creg 0x8505 7) imm 5 f7)
    \<and> imm AND 0x3F = ci_imm 0x8505 \<and> f7 AND 0x20 = 0)"
proof
  show *: "is_c_srai 0x8505" by code_simp
  show "\<exists>imm f7. decode_compressed 0x8505 = Ok (OpImm (creg 0x8505 7) (creg 0x8505 7) imm 5 f7)
    \<and> imm AND 0x3F = ci_imm 0x8505 \<and> f7 AND 0x20 = 0"
    by (rule c_srai_decodes_to_logical_shift [OF *])
qed

text \<open>C27: \<open>decode\<close> inverts the encoders: every operation whose immediate and function fields are in
  range is recovered from its encoding.\<close>

theorem decode_assemble:
  assumes "op_wf oper"
  shows "decode (assemble oper) = Ok oper"
proof (cases oper)
  case (Amo rd rs1 rs2 f3 f5 aq rl)
  then show ?thesis using assms by (simp add: decode_encode amo_funct7_fields del: One_nat_def)
next
  case (System rd rs1 f3 zimm)
  then have "zimm AND 0xFFF = zimm"
    using assms less_mask_eq [of zimm 12] by (simp add: mask_eq_exp_minus_1)
  then show ?thesis using assms System by (simp add: decode_encode)
next
  case Fence
  then show ?thesis by (simp add: decode_def)
qed (use assms in \<open>auto simp: decode_encode imm_roundtrips imm_u_roundtrip op_imm_def op_imm32_def\<close>)

theorem decode_assemble_witness:
  "op_wf (Branch X5 X6 (- 4096) 1) \<and> decode (assemble (Branch X5 X6 (- 4096) 1)) = Ok (Branch X5 X6 (- 4096) 1)"
proof
  show *: "op_wf (Branch X5 X6 (- 4096) 1)" by code_simp
  show "decode (assemble (Branch X5 X6 (- 4096) 1)) = Ok (Branch X5 X6 (- 4096) 1)"
    by (rule decode_assemble [OF *])
qed

lemma decode_op_wf: "decode w = Ok oper \<Longrightarrow> op_wf oper"
  unfolding decode_def Let_def
  by (auto simp: imm_fits imm_low_bits and_mask_lt imm_i_funct7 split: if_splits)

text \<open>C28: whatever \<open>decode\<close> accepts is in range: branch and jump offsets are even and fit 13 and 21
  signed bits, other immediates fit 12 bits (32 for the upper immediates, with a zero low part),
  and the function codes fit their fields.\<close>

theorem decode_well_formed:
  "decode w = Ok oper \<Longrightarrow> op_wf oper"
  by (rule decode_op_wf)

theorem decode_well_formed_witness: "decode 0xFE000AE3 = Ok (Branch X0 X0 (- 12) 0) \<and> op_wf (Branch X0 X0 (- 12) 0)"
proof
  show *: "decode 0xFE000AE3 = Ok (Branch X0 X0 (- 12) 0)" by code_simp
  show "op_wf (Branch X0 X0 (- 12) 0)" by (rule decode_well_formed [OF *])
qed

end
