(* ===== verification/Rv_Csr.thy ===== *)
theory Rv_Csr
  imports Rv_Types
begin

text \<open>
  The control and status register file (\<^verbatim>\<open>riscv-vm/src/cpu/csr.rs\<close>).

  \<open>sstatus\<close>, \<open>sie\<close> and \<open>sip\<close> are views of the machine registers through a mask.  The storage array
  has 4096 slots and is indexed by a 16-bit address, so an address of 4096 or more is an
  out-of-range index (\<open>Panic\<close>).  \<open>HashMap<u16, u64>\<close> is a partial map: \<open>import\<close> visits every key once
  and the keys name distinct slots, so the order of iteration does not matter.
\<close>

unbundle bit_operations_syntax

subsection \<open>Register file\<close>

record csr_file =
  storage :: "nat \<Rightarrow> u64"

abbreviation storage_len :: nat where "storage_len \<equiv> 4096"

definition csr_new :: csr_file where
  "csr_new = \<lparr> storage = (\<lambda>_. 0) \<rparr>"

abbreviation CSR_SATP :: u16 where "CSR_SATP \<equiv> 0x180"
abbreviation CSR_MSTATUS :: u16 where "CSR_MSTATUS \<equiv> 0x300"
abbreviation CSR_MISA :: u16 where "CSR_MISA \<equiv> 0x301"
abbreviation CSR_MEDELEG :: u16 where "CSR_MEDELEG \<equiv> 0x302"
abbreviation CSR_MIDELEG :: u16 where "CSR_MIDELEG \<equiv> 0x303"
abbreviation CSR_MIE :: u16 where "CSR_MIE \<equiv> 0x304"
abbreviation CSR_MTVEC :: u16 where "CSR_MTVEC \<equiv> 0x305"
abbreviation CSR_MEPC :: u16 where "CSR_MEPC \<equiv> 0x341"
abbreviation CSR_MCAUSE :: u16 where "CSR_MCAUSE \<equiv> 0x342"
abbreviation CSR_MTVAL :: u16 where "CSR_MTVAL \<equiv> 0x343"
abbreviation CSR_MIP :: u16 where "CSR_MIP \<equiv> 0x344"
abbreviation CSR_SSTATUS :: u16 where "CSR_SSTATUS \<equiv> 0x100"
abbreviation CSR_SIE :: u16 where "CSR_SIE \<equiv> 0x104"
abbreviation CSR_STVEC :: u16 where "CSR_STVEC \<equiv> 0x105"
abbreviation CSR_SSCRATCH :: u16 where "CSR_SSCRATCH \<equiv> 0x140"
abbreviation CSR_SEPC :: u16 where "CSR_SEPC \<equiv> 0x141"
abbreviation CSR_SCAUSE :: u16 where "CSR_SCAUSE \<equiv> 0x142"
abbreviation CSR_STVAL :: u16 where "CSR_STVAL \<equiv> 0x143"
abbreviation CSR_SIP :: u16 where "CSR_SIP \<equiv> 0x144"
abbreviation CSR_TIME :: u16 where "CSR_TIME \<equiv> 0xC01"
abbreviation CSR_MENVCFG :: u16 where "CSR_MENVCFG \<equiv> 0x30A"
abbreviation CSR_STIMECMP :: u16 where "CSR_STIMECMP \<equiv> 0x14D"
abbreviation CSR_MCOUNTEREN :: u16 where "CSR_MCOUNTEREN \<equiv> 0x306"
abbreviation CSR_MVENDORID :: u16 where "CSR_MVENDORID \<equiv> 0xF11"
abbreviation CSR_MARCHID :: u16 where "CSR_MARCHID \<equiv> 0xF12"
abbreviation CSR_MIMPID :: u16 where "CSR_MIMPID \<equiv> 0xF13"
abbreviation CSR_MHARTID :: u16 where "CSR_MHARTID \<equiv> 0xF14"

text \<open>The masks are written in the source as sums of shifted bits.\<close>

definition sstatus_mask :: u64 where
  "sstatus_mask = shl 1 1 OR shl 1 5 OR shl 1 8 OR shl 3 13 OR shl 1 18 OR shl 1 19"

definition sie_mask :: u64 where
  "sie_mask = shl 1 1 OR shl 1 5 OR shl 1 9"

definition sip_write_mask :: u64 where
  "sip_write_mask = shl 1 1"

definition get_csr :: "csr_file \<Rightarrow> u16 \<Rightarrow> u64" where
  "get_csr f addr = storage f (unat addr)"

definition set_csr :: "u16 \<Rightarrow> u64 \<Rightarrow> csr_file \<Rightarrow> csr_file" where
  "set_csr addr val f = f\<lparr> storage := (storage f)(unat addr := val) \<rparr>"

definition csr_export :: "csr_file \<Rightarrow> (u16 \<rightharpoonup> u64)" where
  "csr_export f = (\<lambda>a. if unat a < storage_len \<and> storage f (unat a) \<noteq> 0
                       then Some (storage f (unat a)) else None)"

definition csr_import :: "(u16 \<rightharpoonup> u64) \<Rightarrow> csr_file \<Rightarrow> csr_file" where
  "csr_import m f = f\<lparr> storage := (\<lambda>i. if i < storage_len
     then (case m (word_of_nat i) of Some v \<Rightarrow> v | None \<Rightarrow> 0) else 0) \<rparr>"

definition csr_read :: "csr_file \<Rightarrow> u16 \<Rightarrow> mode \<Rightarrow> (u64, trap) result" where
  "csr_read f addr mode =
     (let required_priv = shr addr 8 AND 0x3; current_priv = privilege_level mode
      in if current_priv < required_priv then Err (IllegalInstruction (zext16 addr))
         else if addr = CSR_SSTATUS then Ok (get_csr f CSR_MSTATUS AND sstatus_mask)
         else if addr = CSR_SIE then Ok (get_csr f CSR_MIE AND sie_mask)
         else if addr = CSR_SIP then Ok (get_csr f CSR_MIP AND sie_mask)
         else if unat addr < storage_len then Ok (get_csr f addr) else Panic)"

definition csr_write :: "u16 \<Rightarrow> u64 \<Rightarrow> mode \<Rightarrow> csr_file \<Rightarrow> (unit, trap) result \<times> csr_file" where
  "csr_write addr val mode f =
     (let read_only = (shr addr 10 AND 0x3 = 0x3);
          required_priv = shr addr 8 AND 0x3; current_priv = privilege_level mode
      in if read_only then (Ok (), f)
         else if current_priv < required_priv then (Err (IllegalInstruction (zext16 addr)), f)
         else if addr = CSR_SSTATUS then
           (Ok (), set_csr CSR_MSTATUS
              ((get_csr f CSR_MSTATUS AND NOT sstatus_mask) OR (val AND sstatus_mask)) f)
         else if addr = CSR_SIE then
           (Ok (), set_csr CSR_MIE ((get_csr f CSR_MIE AND NOT sie_mask) OR (val AND sie_mask)) f)
         else if addr = CSR_SIP then
           (Ok (), set_csr CSR_MIP
              ((get_csr f CSR_MIP AND NOT sip_write_mask) OR (val AND sip_write_mask)) f)
         else if unat addr < storage_len then (Ok (), set_csr addr val f) else (Panic, f))"

subsection \<open>Access laws\<close>

text \<open>An address is a view if its contents live in a machine register, and writable if it is not
  in the read-only range.\<close>

definition is_view :: "u16 \<Rightarrow> bool" where
  "is_view addr \<longleftrightarrow> addr \<in> {CSR_SSTATUS, CSR_SIE, CSR_SIP}"

definition read_only_csr :: "u16 \<Rightarrow> bool" where
  "read_only_csr addr \<longleftrightarrow> shr addr 10 AND 0x3 = 0x3"

definition accessible :: "mode \<Rightarrow> u16 \<Rightarrow> bool" where
  "accessible mode addr \<longleftrightarrow> shr addr 8 AND 0x3 \<le> privilege_level mode"

definition csr_target :: "u16 \<Rightarrow> u16" where
  "csr_target addr = (if addr = CSR_SSTATUS then CSR_MSTATUS else if addr = CSR_SIE then CSR_MIE
     else if addr = CSR_SIP then CSR_MIP else addr)"

definition csr_write_mask :: "u16 \<Rightarrow> u64" where
  "csr_write_mask addr = (if addr = CSR_SSTATUS then sstatus_mask else if addr = CSR_SIE then sie_mask
     else if addr = CSR_SIP then sip_write_mask else NOT 0)"

lemma get_set_csr [simp]:
  "get_csr (set_csr a v f) b = (if a = b then v else get_csr f b)"
  by (simp add: get_csr_def set_csr_def)

lemma set_csr_same [simp]: "set_csr a v (set_csr a w f) = set_csr a v f"
  by (simp add: set_csr_def)

lemma set_csr_swap: "a \<noteq> b \<Longrightarrow> set_csr a v (set_csr b w f) = set_csr b w (set_csr a v f)"
  by (simp add: set_csr_def fun_upd_twist)

lemma csr_read_accessible:
  "accessible mode addr \<Longrightarrow> unat addr < storage_len \<Longrightarrow>
     csr_read f addr mode = Ok (if addr = CSR_SSTATUS then get_csr f CSR_MSTATUS AND sstatus_mask
       else if addr = CSR_SIE then get_csr f CSR_MIE AND sie_mask
       else if addr = CSR_SIP then get_csr f CSR_MIP AND sie_mask
       else get_csr f addr)"
  by (auto simp: csr_read_def accessible_def Let_def not_less)

lemma masked_merge:
  fixes m v k :: "'a::len word"
  shows "((m AND NOT k) OR (v AND k)) AND k = v AND k"
    "((m AND NOT k) OR (v AND k)) AND NOT k = m AND NOT k"
  by (rule bit_word_eqI; auto simp: bit_simps)+

lemma csr_no_panic:
  assumes "unat addr < storage_len"
  shows "csr_read f addr mode \<noteq> Panic" "fst (csr_write addr v mode f) \<noteq> Panic"
  using assms by (simp_all add: csr_read_def csr_write_def Let_def)

text \<open>reading a register right after a permitted write returns the value written; through a
  supervisor view it returns the writable part of the value, \<open>sip\<close> keeping its other pending bits.\<close>

theorem csr_read_after_write:
  assumes "accessible mode addr" "\<not> read_only_csr addr" "unat addr < storage_len"
    and "csr_write addr v mode f = (r, f')"
  shows "r = Ok () \<and> csr_read f' addr mode =
    Ok (if addr = CSR_SSTATUS then v AND sstatus_mask
        else if addr = CSR_SIE then v AND sie_mask
        else if addr = CSR_SIP then
          (get_csr f CSR_MIP AND sie_mask AND NOT sip_write_mask) OR (v AND sip_write_mask)
        else v)"
proof -
  have sub: "bit sip_write_mask n \<Longrightarrow> bit sie_mask n" for n
    by (auto simp: sip_write_mask_def sie_mask_def bit_simps)
  have sip: "((m AND NOT sip_write_mask) OR (v AND sip_write_mask)) AND sie_mask
      = (m AND sie_mask AND NOT sip_write_mask) OR (v AND sip_write_mask)" for m
    by (rule bit_word_eqI) (auto simp: bit_simps dest: sub)
  show ?thesis
    using assms sip [of "get_csr f CSR_MIP"]
    by (auto simp: csr_read_accessible csr_write_def accessible_def read_only_csr_def Let_def
        masked_merge not_less[symmetric])
qed

theorem csr_read_after_write_witness:
  "accessible Supervisor CSR_SSTATUS \<and> csr_read (snd (csr_write CSR_SSTATUS 0x1FF Supervisor csr_new)) CSR_SSTATUS Supervisor
     = Ok 0x122"
proof -
  have 1: "accessible Supervisor CSR_SSTATUS" "\<not> read_only_csr CSR_SSTATUS"
    "unat CSR_SSTATUS < storage_len" by code_simp+
  have "0x1FF AND sstatus_mask = 0x122" by code_simp
  then show ?thesis
    using 1 csr_read_after_write [OF 1, of "0x1FF" csr_new "fst (csr_write CSR_SSTATUS 0x1FF Supervisor csr_new)"
        "snd (csr_write CSR_SSTATUS 0x1FF Supervisor csr_new)"] by simp
qed

text \<open>A write touches one machine register only, and within it only the bits of the view it goes
  through; a write that is refused, or that targets a read-only register, changes nothing.\<close>

theorem csr_write_frame:
  "csr_write addr v mode f = (r, f') \<Longrightarrow>
     (read_only_csr addr \<or> \<not> accessible mode addr \<longrightarrow> f' = f) \<and>
     (b \<noteq> csr_target addr \<longrightarrow> get_csr f' b = get_csr f b) \<and>
     get_csr f' (csr_target addr) AND NOT (csr_write_mask addr)
       = get_csr f (csr_target addr) AND NOT (csr_write_mask addr)"
  unfolding csr_write_def csr_target_def csr_write_mask_def read_only_csr_def accessible_def Let_def
  by (auto simp: masked_merge not_le split: if_splits)

theorem csr_write_frame_witness:
  "get_csr (snd (csr_write CSR_SSTATUS 0xFFFF User (set_csr CSR_MSTATUS 7 csr_new))) CSR_MSTATUS = 7"
  using csr_write_frame [of CSR_SSTATUS "0xFFFF" User "set_csr CSR_MSTATUS 7 csr_new"
      "fst (csr_write CSR_SSTATUS 0xFFFF User (set_csr CSR_MSTATUS 7 csr_new))"
      "snd (csr_write CSR_SSTATUS 0xFFFF User (set_csr CSR_MSTATUS 7 csr_new))"]
  by (simp add: accessible_def word_le_nat_alt)

text \<open>restoring an exported register file reproduces every register.\<close>

theorem csr_import_export:
  "unat addr < storage_len \<Longrightarrow> get_csr (csr_import (csr_export f) g) addr = get_csr f addr"
  by (simp add: csr_import_def csr_export_def get_csr_def)

theorem csr_import_export_witness:
  "unat CSR_MEPC < storage_len \<and>
   get_csr (csr_import (csr_export (set_csr CSR_MEPC 0x80000000 csr_new)) csr_new) CSR_MEPC = 0x80000000"
  using csr_import_export [of CSR_MEPC "set_csr CSR_MEPC 0x80000000 csr_new" csr_new]
  by simp

end
