(* ===== verification/Rv_Microop.thy ===== *)
theory Rv_Microop
  imports Rv_Decoder
begin

text \<open>
  The pre-decoded instructions of the superblock engine (\<^verbatim>\<open>riscv-vm/src/engine/microop.rs\<close>).  The fields
  of a constructor are in the order of the source; several names are also constructors of the
  decoder's \<open>op\<close> and are used qualified.  An operation that may trap or ends
  a block knows its offset from the start of the block.
\<close>

datatype (plugins only: size) micro_op =
    Addi u8 u8 i64
  | Xori u8 u8 i64
  | Ori u8 u8 i64
  | Andi u8 u8 i64
  | Slti u8 u8 i64
  | Sltiu u8 u8 i64
  | Slli u8 u8 u8
  | Srli u8 u8 u8
  | Srai u8 u8 u8
  | Add u8 u8 u8
  | Sub u8 u8 u8
  | Xor u8 u8 u8
  | Or u8 u8 u8
  | And u8 u8 u8
  | Sll u8 u8 u8
  | Srl u8 u8 u8
  | Sra u8 u8 u8
  | Slt u8 u8 u8
  | Sltu u8 u8 u8
  | Addiw u8 u8 i32
  | Slliw u8 u8 u8
  | Srliw u8 u8 u8
  | Sraiw u8 u8 u8
  | Addw u8 u8 u8
  | Subw u8 u8 u8
  | Sllw u8 u8 u8
  | Srlw u8 u8 u8
  | Sraw u8 u8 u8
  | Mul u8 u8 u8
  | Mulh u8 u8 u8
  | Mulhsu u8 u8 u8
  | Mulhu u8 u8 u8
  | Div u8 u8 u8
  | Divu u8 u8 u8
  | Rem u8 u8 u8
  | Remu u8 u8 u8
  | Mulw u8 u8 u8
  | Divw u8 u8 u8
  | Divuw u8 u8 u8
  | Remw u8 u8 u8
  | Remuw u8 u8 u8
  | Lui u8 i64
  | Auipc u8 i64 u16
  | Lb u8 u8 i64 u16
  | Lbu u8 u8 i64 u16
  | Lh u8 u8 i64 u16
  | Lhu u8 u8 i64 u16
  | Lw u8 u8 i64 u16
  | Lwu u8 u8 i64 u16
  | Ld u8 u8 i64 u16
  | Sb u8 u8 i64 u16
  | Sh u8 u8 i64 u16
  | Sw u8 u8 i64 u16
  | Sd u8 u8 i64 u16
  | Jal u8 i64 u16 u8
  | Jalr u8 u8 i64 u16 u8
  | Beq u8 u8 i64 u16 u8
  | Bne u8 u8 i64 u16 u8
  | Blt u8 u8 i64 u16 u8
  | Bge u8 u8 i64 u16 u8
  | Bltu u8 u8 i64 u16 u8
  | Bgeu u8 u8 i64 u16 u8
  | Ecall u16
  | Ebreak u16
  | Csrrw u8 u8 u16 u16
  | Csrrs u8 u8 u16 u16
  | Csrrc u8 u8 u16 u16
  | Csrrwi u8 u8 u16 u16
  | Csrrsi u8 u8 u16 u16
  | Csrrci u8 u8 u16 u16
  | Mret u16
  | Sret u16
  | Wfi u16
  | SfenceVma u16
  | Fence
  | LrW u8 u8 u16
  | LrD u8 u8 u16
  | ScW u8 u8 u8 u16
  | ScD u8 u8 u8 u16
  | AmoSwap u8 u8 u8 bool u16
  | AmoAdd u8 u8 u8 bool u16
  | AmoXor u8 u8 u8 bool u16
  | AmoAnd u8 u8 u8 bool u16
  | AmoOr u8 u8 u8 bool u16
  | AmoMin u8 u8 u8 bool u16
  | AmoMax u8 u8 u8 bool u16
  | AmoMinu u8 u8 u8 bool u16
  | AmoMaxu u8 u8 u8 bool u16

instantiation micro_op :: equal
begin

definition equal_micro_op :: "micro_op \<Rightarrow> micro_op \<Rightarrow> bool" where
  "equal_micro_op m n \<longleftrightarrow> m = n"

instance by standard (simp add: equal_micro_op_def)

end

primrec is_terminator :: "micro_op \<Rightarrow> bool" where
  "is_terminator (Addi a b c) = False"
| "is_terminator (Xori a b c) = False"
| "is_terminator (Ori a b c) = False"
| "is_terminator (Andi a b c) = False"
| "is_terminator (Slti a b c) = False"
| "is_terminator (Sltiu a b c) = False"
| "is_terminator (Slli a b c) = False"
| "is_terminator (Srli a b c) = False"
| "is_terminator (Srai a b c) = False"
| "is_terminator (Add a b c) = False"
| "is_terminator (Sub a b c) = False"
| "is_terminator (Xor a b c) = False"
| "is_terminator (Or a b c) = False"
| "is_terminator (And a b c) = False"
| "is_terminator (Sll a b c) = False"
| "is_terminator (Srl a b c) = False"
| "is_terminator (Sra a b c) = False"
| "is_terminator (Slt a b c) = False"
| "is_terminator (Sltu a b c) = False"
| "is_terminator (Addiw a b c) = False"
| "is_terminator (Slliw a b c) = False"
| "is_terminator (Srliw a b c) = False"
| "is_terminator (Sraiw a b c) = False"
| "is_terminator (Addw a b c) = False"
| "is_terminator (Subw a b c) = False"
| "is_terminator (Sllw a b c) = False"
| "is_terminator (Srlw a b c) = False"
| "is_terminator (Sraw a b c) = False"
| "is_terminator (Mul a b c) = False"
| "is_terminator (Mulh a b c) = False"
| "is_terminator (Mulhsu a b c) = False"
| "is_terminator (Mulhu a b c) = False"
| "is_terminator (Div a b c) = False"
| "is_terminator (Divu a b c) = False"
| "is_terminator (Rem a b c) = False"
| "is_terminator (Remu a b c) = False"
| "is_terminator (Mulw a b c) = False"
| "is_terminator (Divw a b c) = False"
| "is_terminator (Divuw a b c) = False"
| "is_terminator (Remw a b c) = False"
| "is_terminator (Remuw a b c) = False"
| "is_terminator (micro_op.Lui a b) = False"
| "is_terminator (micro_op.Auipc a b c) = False"
| "is_terminator (Lb a b c d) = False"
| "is_terminator (Lbu a b c d) = False"
| "is_terminator (Lh a b c d) = False"
| "is_terminator (Lhu a b c d) = False"
| "is_terminator (Lw a b c d) = False"
| "is_terminator (Lwu a b c d) = False"
| "is_terminator (Ld a b c d) = False"
| "is_terminator (Sb a b c d) = False"
| "is_terminator (Sh a b c d) = False"
| "is_terminator (Sw a b c d) = False"
| "is_terminator (Sd a b c d) = False"
| "is_terminator (micro_op.Jal a b c d) = True"
| "is_terminator (micro_op.Jalr a b c d e) = True"
| "is_terminator (Beq a b c d e) = True"
| "is_terminator (Bne a b c d e) = True"
| "is_terminator (Blt a b c d e) = True"
| "is_terminator (Bge a b c d e) = True"
| "is_terminator (Bltu a b c d e) = True"
| "is_terminator (Bgeu a b c d e) = True"
| "is_terminator (Ecall a) = True"
| "is_terminator (Ebreak a) = True"
| "is_terminator (Csrrw a b c d) = True"
| "is_terminator (Csrrs a b c d) = True"
| "is_terminator (Csrrc a b c d) = True"
| "is_terminator (Csrrwi a b c d) = True"
| "is_terminator (Csrrsi a b c d) = True"
| "is_terminator (Csrrci a b c d) = True"
| "is_terminator (Mret a) = True"
| "is_terminator (Sret a) = True"
| "is_terminator (Wfi a) = False"
| "is_terminator (SfenceVma a) = True"
| "is_terminator micro_op.Fence = False"
| "is_terminator (LrW a b c) = True"
| "is_terminator (LrD a b c) = True"
| "is_terminator (ScW a b c d) = True"
| "is_terminator (ScD a b c d) = True"
| "is_terminator (AmoSwap a b c d e) = True"
| "is_terminator (AmoAdd a b c d e) = True"
| "is_terminator (AmoXor a b c d e) = True"
| "is_terminator (AmoAnd a b c d e) = True"
| "is_terminator (AmoOr a b c d e) = True"
| "is_terminator (AmoMin a b c d e) = True"
| "is_terminator (AmoMax a b c d e) = True"
| "is_terminator (AmoMinu a b c d e) = True"
| "is_terminator (AmoMaxu a b c d e) = True"

primrec may_trap :: "micro_op \<Rightarrow> bool" where
  "may_trap (Addi a b c) = False"
| "may_trap (Xori a b c) = False"
| "may_trap (Ori a b c) = False"
| "may_trap (Andi a b c) = False"
| "may_trap (Slti a b c) = False"
| "may_trap (Sltiu a b c) = False"
| "may_trap (Slli a b c) = False"
| "may_trap (Srli a b c) = False"
| "may_trap (Srai a b c) = False"
| "may_trap (Add a b c) = False"
| "may_trap (Sub a b c) = False"
| "may_trap (Xor a b c) = False"
| "may_trap (Or a b c) = False"
| "may_trap (And a b c) = False"
| "may_trap (Sll a b c) = False"
| "may_trap (Srl a b c) = False"
| "may_trap (Sra a b c) = False"
| "may_trap (Slt a b c) = False"
| "may_trap (Sltu a b c) = False"
| "may_trap (Addiw a b c) = False"
| "may_trap (Slliw a b c) = False"
| "may_trap (Srliw a b c) = False"
| "may_trap (Sraiw a b c) = False"
| "may_trap (Addw a b c) = False"
| "may_trap (Subw a b c) = False"
| "may_trap (Sllw a b c) = False"
| "may_trap (Srlw a b c) = False"
| "may_trap (Sraw a b c) = False"
| "may_trap (Mul a b c) = False"
| "may_trap (Mulh a b c) = False"
| "may_trap (Mulhsu a b c) = False"
| "may_trap (Mulhu a b c) = False"
| "may_trap (Div a b c) = False"
| "may_trap (Divu a b c) = False"
| "may_trap (Rem a b c) = False"
| "may_trap (Remu a b c) = False"
| "may_trap (Mulw a b c) = False"
| "may_trap (Divw a b c) = False"
| "may_trap (Divuw a b c) = False"
| "may_trap (Remw a b c) = False"
| "may_trap (Remuw a b c) = False"
| "may_trap (micro_op.Lui a b) = False"
| "may_trap (micro_op.Auipc a b c) = False"
| "may_trap (Lb a b c d) = True"
| "may_trap (Lbu a b c d) = True"
| "may_trap (Lh a b c d) = True"
| "may_trap (Lhu a b c d) = True"
| "may_trap (Lw a b c d) = True"
| "may_trap (Lwu a b c d) = True"
| "may_trap (Ld a b c d) = True"
| "may_trap (Sb a b c d) = True"
| "may_trap (Sh a b c d) = True"
| "may_trap (Sw a b c d) = True"
| "may_trap (Sd a b c d) = True"
| "may_trap (micro_op.Jal a b c d) = False"
| "may_trap (micro_op.Jalr a b c d e) = False"
| "may_trap (Beq a b c d e) = False"
| "may_trap (Bne a b c d e) = False"
| "may_trap (Blt a b c d e) = False"
| "may_trap (Bge a b c d e) = False"
| "may_trap (Bltu a b c d e) = False"
| "may_trap (Bgeu a b c d e) = False"
| "may_trap (Ecall a) = True"
| "may_trap (Ebreak a) = True"
| "may_trap (Csrrw a b c d) = True"
| "may_trap (Csrrs a b c d) = True"
| "may_trap (Csrrc a b c d) = True"
| "may_trap (Csrrwi a b c d) = True"
| "may_trap (Csrrsi a b c d) = True"
| "may_trap (Csrrci a b c d) = True"
| "may_trap (Mret a) = False"
| "may_trap (Sret a) = False"
| "may_trap (Wfi a) = False"
| "may_trap (SfenceVma a) = False"
| "may_trap micro_op.Fence = False"
| "may_trap (LrW a b c) = False"
| "may_trap (LrD a b c) = False"
| "may_trap (ScW a b c d) = False"
| "may_trap (ScD a b c d) = False"
| "may_trap (AmoSwap a b c d e) = False"
| "may_trap (AmoAdd a b c d e) = False"
| "may_trap (AmoXor a b c d e) = False"
| "may_trap (AmoAnd a b c d e) = False"
| "may_trap (AmoOr a b c d e) = False"
| "may_trap (AmoMin a b c d e) = False"
| "may_trap (AmoMax a b c d e) = False"
| "may_trap (AmoMinu a b c d e) = False"
| "may_trap (AmoMaxu a b c d e) = False"

primrec pc_offset :: "micro_op \<Rightarrow> u16 option" where
  "pc_offset (Addi a b c) = None"
| "pc_offset (Xori a b c) = None"
| "pc_offset (Ori a b c) = None"
| "pc_offset (Andi a b c) = None"
| "pc_offset (Slti a b c) = None"
| "pc_offset (Sltiu a b c) = None"
| "pc_offset (Slli a b c) = None"
| "pc_offset (Srli a b c) = None"
| "pc_offset (Srai a b c) = None"
| "pc_offset (Add a b c) = None"
| "pc_offset (Sub a b c) = None"
| "pc_offset (Xor a b c) = None"
| "pc_offset (Or a b c) = None"
| "pc_offset (And a b c) = None"
| "pc_offset (Sll a b c) = None"
| "pc_offset (Srl a b c) = None"
| "pc_offset (Sra a b c) = None"
| "pc_offset (Slt a b c) = None"
| "pc_offset (Sltu a b c) = None"
| "pc_offset (Addiw a b c) = None"
| "pc_offset (Slliw a b c) = None"
| "pc_offset (Srliw a b c) = None"
| "pc_offset (Sraiw a b c) = None"
| "pc_offset (Addw a b c) = None"
| "pc_offset (Subw a b c) = None"
| "pc_offset (Sllw a b c) = None"
| "pc_offset (Srlw a b c) = None"
| "pc_offset (Sraw a b c) = None"
| "pc_offset (Mul a b c) = None"
| "pc_offset (Mulh a b c) = None"
| "pc_offset (Mulhsu a b c) = None"
| "pc_offset (Mulhu a b c) = None"
| "pc_offset (Div a b c) = None"
| "pc_offset (Divu a b c) = None"
| "pc_offset (Rem a b c) = None"
| "pc_offset (Remu a b c) = None"
| "pc_offset (Mulw a b c) = None"
| "pc_offset (Divw a b c) = None"
| "pc_offset (Divuw a b c) = None"
| "pc_offset (Remw a b c) = None"
| "pc_offset (Remuw a b c) = None"
| "pc_offset (micro_op.Lui a b) = None"
| "pc_offset (micro_op.Auipc a b c) = Some c"
| "pc_offset (Lb a b c d) = Some d"
| "pc_offset (Lbu a b c d) = Some d"
| "pc_offset (Lh a b c d) = Some d"
| "pc_offset (Lhu a b c d) = Some d"
| "pc_offset (Lw a b c d) = Some d"
| "pc_offset (Lwu a b c d) = Some d"
| "pc_offset (Ld a b c d) = Some d"
| "pc_offset (Sb a b c d) = Some d"
| "pc_offset (Sh a b c d) = Some d"
| "pc_offset (Sw a b c d) = Some d"
| "pc_offset (Sd a b c d) = Some d"
| "pc_offset (micro_op.Jal a b c d) = Some c"
| "pc_offset (micro_op.Jalr a b c d e) = Some d"
| "pc_offset (Beq a b c d e) = Some d"
| "pc_offset (Bne a b c d e) = Some d"
| "pc_offset (Blt a b c d e) = Some d"
| "pc_offset (Bge a b c d e) = Some d"
| "pc_offset (Bltu a b c d e) = Some d"
| "pc_offset (Bgeu a b c d e) = Some d"
| "pc_offset (Ecall a) = Some a"
| "pc_offset (Ebreak a) = Some a"
| "pc_offset (Csrrw a b c d) = Some d"
| "pc_offset (Csrrs a b c d) = Some d"
| "pc_offset (Csrrc a b c d) = Some d"
| "pc_offset (Csrrwi a b c d) = Some d"
| "pc_offset (Csrrsi a b c d) = Some d"
| "pc_offset (Csrrci a b c d) = Some d"
| "pc_offset (Mret a) = Some a"
| "pc_offset (Sret a) = Some a"
| "pc_offset (Wfi a) = Some a"
| "pc_offset (SfenceVma a) = Some a"
| "pc_offset micro_op.Fence = None"
| "pc_offset (LrW a b c) = Some c"
| "pc_offset (LrD a b c) = Some c"
| "pc_offset (ScW a b c d) = Some d"
| "pc_offset (ScD a b c d) = Some d"
| "pc_offset (AmoSwap a b c d e) = Some e"
| "pc_offset (AmoAdd a b c d e) = Some e"
| "pc_offset (AmoXor a b c d e) = Some e"
| "pc_offset (AmoAnd a b c d e) = Some e"
| "pc_offset (AmoOr a b c d e) = Some e"
| "pc_offset (AmoMin a b c d e) = Some e"
| "pc_offset (AmoMax a b c d e) = Some e"
| "pc_offset (AmoMinu a b c d e) = Some e"
| "pc_offset (AmoMaxu a b c d e) = Some e"

lemma pc_offset_known: "may_trap m \<or> is_terminator m \<Longrightarrow> pc_offset m \<noteq> None"
  by (cases m) simp_all

end
