(* ===== verification/Rv_Bus.thy ===== *)
theory Rv_Bus
  imports Rv_Types
begin

text \<open>
  The \<open>Bus\<close> trait (\<^verbatim>\<open>riscv-vm/src/bus.rs\<close>).  A \<open>&dyn Bus\<close> is a record of the trait's required
  methods over a bus state \<open>'b\<close>; every method returns the new state, since a read of a device
  register may have a side effect.  The provided methods (\<open>load\<close>, \<open>store\<close>, \<open>fetch_u32\<close> and the atomic
  memory operations) are defined over the record; the native \<open>SystemBus\<close> overrides of the
  atomics are the same bodies under a global lock.
\<close>

unbundle bit_operations_syntax

record 'b bus_ops =
  bus_read8 :: "u64 \<Rightarrow> 'b \<Rightarrow> (u8, trap) result \<times> 'b"
  bus_read16 :: "u64 \<Rightarrow> 'b \<Rightarrow> (u16, trap) result \<times> 'b"
  bus_read32 :: "u64 \<Rightarrow> 'b \<Rightarrow> (u32, trap) result \<times> 'b"
  bus_read64 :: "u64 \<Rightarrow> 'b \<Rightarrow> (u64, trap) result \<times> 'b"
  bus_write8 :: "u64 \<Rightarrow> u8 \<Rightarrow> 'b \<Rightarrow> (unit, trap) result \<times> 'b"
  bus_write16 :: "u64 \<Rightarrow> u16 \<Rightarrow> 'b \<Rightarrow> (unit, trap) result \<times> 'b"
  bus_write32 :: "u64 \<Rightarrow> u32 \<Rightarrow> 'b \<Rightarrow> (unit, trap) result \<times> 'b"
  bus_write64 :: "u64 \<Rightarrow> u64 \<Rightarrow> 'b \<Rightarrow> (unit, trap) result \<times> 'b"
  bus_poll_interrupts_for_hart :: "nat \<Rightarrow> 'b \<Rightarrow> u64 \<times> 'b"

subsection \<open>Sized accesses\<close>

text \<open>\<open>to_dec\<close> is the decimal rendering used by \<open>format!\<close>.\<close>

fun to_dec :: "nat \<Rightarrow> string" where
  "to_dec n = (if n < 10 then [char_of (48 + n)] else to_dec (n div 10) @ [char_of (48 + n mod 10)])"

definition bus_load :: "'b bus_ops \<Rightarrow> u64 \<Rightarrow> u64 \<Rightarrow> 'b \<Rightarrow> (u64, trap) result \<times> 'b" where
  "bus_load ops addr sz b =
     (if sz = 1 then bindS (bus_read8 ops addr b) (\<lambda>v b. (Ok (zext8 v), b))
      else if sz = 2 then bindS (bus_read16 ops addr b) (\<lambda>v b. (Ok (zext16 v), b))
      else if sz = 4 then bindS (bus_read32 ops addr b) (\<lambda>v b. (Ok (zext32 v), b))
      else if sz = 8 then bus_read64 ops addr b
      else (Err (Fatal (''Unsupported bus load size: '' @ to_dec (unat sz))), b))"

definition bus_store :: "'b bus_ops \<Rightarrow> u64 \<Rightarrow> u64 \<Rightarrow> u64 \<Rightarrow> 'b \<Rightarrow> (unit, trap) result \<times> 'b" where
  "bus_store ops addr sz val b =
     (if sz = 1 then bus_write8 ops addr (low8 val) b
      else if sz = 2 then bus_write16 ops addr (low16 val) b
      else if sz = 4 then bus_write32 ops addr (low32 val) b
      else if sz = 8 then bus_write64 ops addr val b
      else (Err (Fatal (''Unsupported bus store size: '' @ to_dec (unat sz))), b))"

fun fetch_err :: "trap \<Rightarrow> trap" where
  "fetch_err (LoadAccessFault a) = InstructionAccessFault a"
| "fetch_err (LoadAddressMisaligned a) = InstructionAddressMisaligned a"
| "fetch_err e = e"

definition bus_fetch_u32 :: "'b bus_ops \<Rightarrow> u64 \<Rightarrow> 'b \<Rightarrow> (u32, trap) result \<times> 'b" where
  "bus_fetch_u32 ops addr b =
     (if addr mod 4 \<noteq> 0 then (Err (InstructionAddressMisaligned addr), b)
      else (case bus_read32 ops addr b of (r, b) \<Rightarrow> (map_err fetch_err r, b)))"

subsection \<open>Atomic memory operations\<close>

text \<open>The read-modify-write bodies shared by the \<open>AMO\<close> methods: read, write the new value, return
  the old one.\<close>

definition rmw32 :: "'b bus_ops \<Rightarrow> u64 \<Rightarrow> (u32 \<Rightarrow> u64) \<Rightarrow> 'b \<Rightarrow> (u64, trap) result \<times> 'b" where
  "rmw32 ops addr new b =
     bindS (bus_read32 ops addr b) (\<lambda>v b.
     bindS (bus_write32 ops addr (low32 (new v)) b) (\<lambda>_ b. (Ok (sext32 v), b)))"

definition rmw64 :: "'b bus_ops \<Rightarrow> u64 \<Rightarrow> (u64 \<Rightarrow> u64) \<Rightarrow> 'b \<Rightarrow> (u64, trap) result \<times> 'b" where
  "rmw64 ops addr new b =
     bindS (bus_read64 ops addr b) (\<lambda>v b.
     bindS (bus_write64 ops addr (new v) b) (\<lambda>_ b. (Ok v, b)))"

definition atomic_swap :: "'b bus_ops \<Rightarrow> u64 \<Rightarrow> u64 \<Rightarrow> bool \<Rightarrow> 'b \<Rightarrow> (u64, trap) result \<times> 'b" where
  "atomic_swap ops addr val is_word =
     (if is_word then rmw32 ops addr (\<lambda>_. val) else rmw64 ops addr (\<lambda>_. val))"

definition atomic_add :: "'b bus_ops \<Rightarrow> u64 \<Rightarrow> u64 \<Rightarrow> bool \<Rightarrow> 'b \<Rightarrow> (u64, trap) result \<times> 'b" where
  "atomic_add ops addr val is_word =
     (if is_word then rmw32 ops addr (\<lambda>old. sext32 old + val) else rmw64 ops addr (\<lambda>old. old + val))"

definition atomic_and :: "'b bus_ops \<Rightarrow> u64 \<Rightarrow> u64 \<Rightarrow> bool \<Rightarrow> 'b \<Rightarrow> (u64, trap) result \<times> 'b" where
  "atomic_and ops addr val is_word =
     (if is_word then rmw32 ops addr (\<lambda>old. sext32 old AND val) else rmw64 ops addr (\<lambda>old. old AND val))"

definition atomic_or :: "'b bus_ops \<Rightarrow> u64 \<Rightarrow> u64 \<Rightarrow> bool \<Rightarrow> 'b \<Rightarrow> (u64, trap) result \<times> 'b" where
  "atomic_or ops addr val is_word =
     (if is_word then rmw32 ops addr (\<lambda>old. sext32 old OR val) else rmw64 ops addr (\<lambda>old. old OR val))"

definition atomic_xor :: "'b bus_ops \<Rightarrow> u64 \<Rightarrow> u64 \<Rightarrow> bool \<Rightarrow> 'b \<Rightarrow> (u64, trap) result \<times> 'b" where
  "atomic_xor ops addr val is_word =
     (if is_word then rmw32 ops addr (\<lambda>old. sext32 old XOR val) else rmw64 ops addr (\<lambda>old. old XOR val))"

definition atomic_min :: "'b bus_ops \<Rightarrow> u64 \<Rightarrow> u64 \<Rightarrow> bool \<Rightarrow> 'b \<Rightarrow> (u64, trap) result \<times> 'b" where
  "atomic_min ops addr val is_word =
     (if is_word then rmw32 ops addr (\<lambda>old. if sext32 old <s val then sext32 old else val)
      else rmw64 ops addr (\<lambda>old. if old <s val then old else val))"

definition atomic_max :: "'b bus_ops \<Rightarrow> u64 \<Rightarrow> u64 \<Rightarrow> bool \<Rightarrow> 'b \<Rightarrow> (u64, trap) result \<times> 'b" where
  "atomic_max ops addr val is_word =
     (if is_word then rmw32 ops addr (\<lambda>old. if val <s sext32 old then sext32 old else val)
      else rmw64 ops addr (\<lambda>old. if val <s old then old else val))"

definition atomic_minu :: "'b bus_ops \<Rightarrow> u64 \<Rightarrow> u64 \<Rightarrow> bool \<Rightarrow> 'b \<Rightarrow> (u64, trap) result \<times> 'b" where
  "atomic_minu ops addr val is_word =
     (if is_word then
        rmw32 ops addr (\<lambda>old. if zext32 old < zext32 (low32 val) then zext32 old else val)
      else rmw64 ops addr (\<lambda>old. if old < val then old else val))"

definition atomic_maxu :: "'b bus_ops \<Rightarrow> u64 \<Rightarrow> u64 \<Rightarrow> bool \<Rightarrow> 'b \<Rightarrow> (u64, trap) result \<times> 'b" where
  "atomic_maxu ops addr val is_word =
     (if is_word then
        rmw32 ops addr (\<lambda>old. if zext32 old > zext32 (low32 val) then zext32 old else val)
      else rmw64 ops addr (\<lambda>old. if old > val then old else val))"

definition atomic_compare_exchange ::
  "'b bus_ops \<Rightarrow> u64 \<Rightarrow> u64 \<Rightarrow> u64 \<Rightarrow> bool \<Rightarrow> 'b \<Rightarrow> (bool \<times> u64, trap) result \<times> 'b" where
  "atomic_compare_exchange ops addr expected new_value is_word b =
     (if is_word then
        bindS (bus_read32 ops addr b) (\<lambda>old b.
          if old = low32 expected then
            bindS (bus_write32 ops addr (low32 new_value) b) (\<lambda>_ b. (Ok (True, sext32 old), b))
          else (Ok (False, sext32 old), b))
      else
        bindS (bus_read64 ops addr b) (\<lambda>old b.
          if old = expected then
            bindS (bus_write64 ops addr new_value b) (\<lambda>_ b. (Ok (True, old), b))
          else (Ok (False, old), b)))"

lemmas atomic_defs = atomic_swap_def atomic_add_def atomic_and_def atomic_or_def atomic_xor_def
  atomic_min_def atomic_max_def atomic_minu_def atomic_maxu_def

subsection \<open>Buses that do not panic\<close>

text \<open>What the CPU relies on: no access panics in a state satisfying \<open>inv\<close>, and every access keeps \<open>inv\<close>.\<close>

locale safe_bus =
  fixes ops :: "'b bus_ops" and inv :: "'b \<Rightarrow> bool"
  assumes read8_safe: "inv b \<Longrightarrow> safe inv (bus_read8 ops a b)"
    and read16_safe: "inv b \<Longrightarrow> safe inv (bus_read16 ops a b)"
    and read32_safe: "inv b \<Longrightarrow> safe inv (bus_read32 ops a b)"
    and read64_safe: "inv b \<Longrightarrow> safe inv (bus_read64 ops a b)"
    and write8_safe: "inv b \<Longrightarrow> safe inv (bus_write8 ops a v8 b)"
    and write16_safe: "inv b \<Longrightarrow> safe inv (bus_write16 ops a v16 b)"
    and write32_safe: "inv b \<Longrightarrow> safe inv (bus_write32 ops a v32 b)"
    and write64_safe: "inv b \<Longrightarrow> safe inv (bus_write64 ops a v64 b)"
    and poll_safe: "inv b \<Longrightarrow> inv (snd (bus_poll_interrupts_for_hart ops h b))"
begin

lemmas access_safe = read8_safe read16_safe read32_safe read64_safe
  write8_safe write16_safe write32_safe write64_safe

lemma load_safe: "inv b \<Longrightarrow> safe inv (bus_load ops a sz b)"
  unfolding bus_load_def by (simp add: access_safe safe_bindS)

lemma store_safe: "inv b \<Longrightarrow> safe inv (bus_store ops a sz v b)"
  unfolding bus_store_def by (simp add: access_safe)

lemma fetch_u32_safe: "inv b \<Longrightarrow> safe inv (bus_fetch_u32 ops a b)"
  unfolding bus_fetch_u32_def using read32_safe [of b a] by (auto elim: safeE)

lemma rmw32_safe: "inv b \<Longrightarrow> safe inv (rmw32 ops a f b)"
  unfolding rmw32_def by (simp add: access_safe safe_bindS)

lemma rmw64_safe: "inv b \<Longrightarrow> safe inv (rmw64 ops a f b)"
  unfolding rmw64_def by (simp add: access_safe safe_bindS)

lemma atomic_safe:
  assumes "inv b"
  shows "safe inv (atomic_swap ops a v w b)" "safe inv (atomic_add ops a v w b)"
    "safe inv (atomic_and ops a v w b)" "safe inv (atomic_or ops a v w b)"
    "safe inv (atomic_xor ops a v w b)" "safe inv (atomic_min ops a v w b)"
    "safe inv (atomic_max ops a v w b)" "safe inv (atomic_minu ops a v w b)"
    "safe inv (atomic_maxu ops a v w b)"
  using assms by (simp_all add: atomic_defs rmw32_safe rmw64_safe)

lemma compare_exchange_safe: "inv b \<Longrightarrow> safe inv (atomic_compare_exchange ops a e n w b)"
  unfolding atomic_compare_exchange_def by (simp add: access_safe safe_bindS)

end

end
