(* ===== verification/Rv_Mmu.thy ===== *)
theory Rv_Mmu
  imports Rv_Bus
begin

text \<open>
  Virtual memory (\<^verbatim>\<open>riscv-vm/src/mmu.rs\<close>): the direct-mapped TLB and the Sv39/Sv48 walk with
  accessed/dirty updates.  The TLB array is a function on its 64 indices; every index is masked
  to six bits before use.  \<open>translate\<close> threads the TLB and the bus state.

  The loop over the page-table levels, from \<open>levels - 1\<close> down to \<open>0\<close>, is the primitive recursion
  \<open>walk\<close> on the number of levels left.
\<close>

unbundle bit_operations_syntax

subsection \<open>TLB entries\<close>

datatype access_type = Instruction | LoadAccess | StoreAccess

abbreviation PERM_R :: u8 where "PERM_R \<equiv> shl 1 0"
abbreviation PERM_W :: u8 where "PERM_W \<equiv> shl 1 1"
abbreviation PERM_X :: u8 where "PERM_X \<equiv> shl 1 2"
abbreviation PERM_U :: u8 where "PERM_U \<equiv> shl 1 3"
abbreviation PERM_A :: u8 where "PERM_A \<equiv> shl 1 4"
abbreviation PERM_D :: u8 where "PERM_D \<equiv> shl 1 5"
abbreviation PERM_G :: u8 where "PERM_G \<equiv> shl 1 6"

record tlb_entry =
  te_vpn :: u64
  te_ppn :: u64
  te_asid :: u16
  te_perm :: u8
  te_level :: u8
  te_valid :: bool

definition tlb_entry_EMPTY :: tlb_entry where
  "tlb_entry_EMPTY = \<lparr> te_vpn = 0, te_ppn = 0, te_asid = 0, te_perm = 0, te_level = 0, te_valid = False \<rparr>"

definition te_r :: "tlb_entry \<Rightarrow> bool" where "te_r e \<longleftrightarrow> te_perm e AND PERM_R \<noteq> 0"
definition te_w :: "tlb_entry \<Rightarrow> bool" where "te_w e \<longleftrightarrow> te_perm e AND PERM_W \<noteq> 0"
definition te_x :: "tlb_entry \<Rightarrow> bool" where "te_x e \<longleftrightarrow> te_perm e AND PERM_X \<noteq> 0"
definition te_u :: "tlb_entry \<Rightarrow> bool" where "te_u e \<longleftrightarrow> te_perm e AND PERM_U \<noteq> 0"
definition te_a :: "tlb_entry \<Rightarrow> bool" where "te_a e \<longleftrightarrow> te_perm e AND PERM_A \<noteq> 0"
definition te_d :: "tlb_entry \<Rightarrow> bool" where "te_d e \<longleftrightarrow> te_perm e AND PERM_D \<noteq> 0"
definition te_global :: "tlb_entry \<Rightarrow> bool" where "te_global e \<longleftrightarrow> te_perm e AND PERM_G \<noteq> 0"

definition set_a :: "tlb_entry \<Rightarrow> tlb_entry" where
  "set_a e = e\<lparr> te_perm := te_perm e OR PERM_A \<rparr>"

definition set_d :: "tlb_entry \<Rightarrow> tlb_entry" where
  "set_d e = e\<lparr> te_perm := te_perm e OR PERM_D \<rparr>"

subsection \<open>The TLB\<close>

record tlb =
  entries :: "nat \<Rightarrow> tlb_entry"

definition tlb_new :: tlb where
  "tlb_new = \<lparr> entries = (\<lambda>_. tlb_entry_EMPTY) \<rparr>"

definition tlb_idx :: "u64 \<Rightarrow> nat" where
  "tlb_idx vpn = unat (vpn AND 63)"

definition set_entry :: "nat \<Rightarrow> tlb_entry \<Rightarrow> tlb \<Rightarrow> tlb" where
  "set_entry i e t = t\<lparr> entries := (entries t)(i := e) \<rparr>"

definition tlb_flush :: "tlb \<Rightarrow> tlb" where
  "tlb_flush t = t\<lparr> entries := (\<lambda>i. (entries t i)\<lparr> te_valid := False \<rparr>) \<rparr>"

definition flush_asid :: "u64 \<Rightarrow> tlb \<Rightarrow> tlb" where
  "flush_asid asid t = t\<lparr> entries := (\<lambda>i. let e = entries t i in
     if \<not> te_global e \<and> te_asid e = low16 asid then e\<lparr> te_valid := False \<rparr> else e) \<rparr>"

definition flush_va :: "u64 \<Rightarrow> tlb \<Rightarrow> tlb" where
  "flush_va va t =
     (let vpn = shr va 12; idx = tlb_idx vpn; entry = entries t idx
      in if te_vpn entry = vpn then set_entry idx (entry\<lparr> te_valid := False \<rparr>) t else t)"

definition flush_page :: "u64 \<Rightarrow> u64 \<Rightarrow> tlb \<Rightarrow> tlb" where
  "flush_page vpn asid t =
     (let idx = tlb_idx vpn; entry = entries t idx
      in if te_valid entry \<and> te_vpn entry = vpn \<and> (te_global entry \<or> te_asid entry = low16 asid)
         then set_entry idx (entry\<lparr> te_valid := False \<rparr>) t else t)"

definition tlb_lookup :: "tlb \<Rightarrow> u64 \<Rightarrow> u64 \<Rightarrow> tlb_entry option" where
  "tlb_lookup t vpn asid =
     (let entry = entries t (tlb_idx vpn)
      in if te_valid entry \<and> te_vpn entry = vpn \<and> (te_global entry \<or> te_asid entry = low16 asid)
         then Some entry else None)"

definition lookup_fast :: "tlb \<Rightarrow> u64 \<Rightarrow> u64 \<Rightarrow> (u64 \<times> u8) option" where
  "lookup_fast t vpn asid =
     (let entry = entries t (tlb_idx vpn)
      in if te_valid entry \<and> te_vpn entry = vpn \<and> (te_global entry \<or> te_asid entry = low16 asid)
         then Some (te_ppn entry, te_perm entry) else None)"

definition lookup_with_level :: "tlb \<Rightarrow> u64 \<Rightarrow> u64 \<Rightarrow> (u64 \<times> u8 \<times> u8) option" where
  "lookup_with_level t vpn asid =
     (let entry = entries t (tlb_idx vpn)
      in if te_valid entry \<and> te_vpn entry = vpn \<and> (te_global entry \<or> te_asid entry = low16 asid)
         then Some (te_ppn entry, te_perm entry, te_level entry) else None)"

definition tlb_insert :: "tlb_entry \<Rightarrow> tlb \<Rightarrow> tlb" where
  "tlb_insert entry t = set_entry (tlb_idx (te_vpn entry)) entry t"

definition insert_translation :: "u64 \<Rightarrow> u64 \<Rightarrow> u8 \<Rightarrow> u8 \<Rightarrow> u16 \<Rightarrow> tlb \<Rightarrow> tlb" where
  "insert_translation vpn ppn perm level asid t =
     set_entry (tlb_idx vpn) \<lparr> te_vpn = vpn, te_ppn = ppn, te_asid = asid, te_perm = perm,
       te_level = level, te_valid = True \<rparr> t"

subsection \<open>Permissions and faults\<close>

definition check_permission_tlb :: "mode \<Rightarrow> u64 \<Rightarrow> tlb_entry \<Rightarrow> access_type \<Rightarrow> bool" where
  "check_permission_tlb mode mstatus entry access =
     (let mxr = shr mstatus 19 AND 1; sum = shr mstatus 18 AND 1;
          mode_ok = (case mode of
              Supervisor \<Rightarrow> \<not> (te_u entry \<and> (access = Instruction \<or> sum = 0))
            | User \<Rightarrow> te_u entry
            | Machine \<Rightarrow> True)
      in mode_ok \<and>
         (case access of
            Instruction \<Rightarrow> te_x entry
          | StoreAccess \<Rightarrow> te_w entry
          | LoadAccess \<Rightarrow> te_r entry \<or> (mxr = 1 \<and> te_x entry)))"

fun page_fault :: "access_type \<Rightarrow> u64 \<Rightarrow> trap" where
  "page_fault Instruction addr = InstructionPageFault addr"
| "page_fault LoadAccess addr = LoadPageFault addr"
| "page_fault StoreAccess addr = StorePageFault addr"

fun access_fault :: "access_type \<Rightarrow> u64 \<Rightarrow> trap" where
  "access_fault Instruction addr = InstructionAccessFault addr"
| "access_fault LoadAccess addr = LoadAccessFault addr"
| "access_fault StoreAccess addr = StoreAccessFault addr"

subsection \<open>The page-table walk\<close>

definition pte_ppn :: "u64 \<Rightarrow> u64" where
  "pte_ppn pte = shr pte 10 AND 0xFFFFFFFFFFF"

definition pte_perm :: "u64 \<Rightarrow> u8" where
  "pte_perm pte =
     (if shr pte 1 AND 1 \<noteq> 0 then PERM_R else 0)
     OR (if shr pte 2 AND 1 \<noteq> 0 then PERM_W else 0)
     OR (if shr pte 3 AND 1 \<noteq> 0 then PERM_X else 0)
     OR (if shr pte 4 AND 1 \<noteq> 0 then PERM_U else 0)
     OR (if shr pte 5 AND 1 \<noteq> 0 then PERM_G else 0)
     OR (if shr pte 6 AND 1 \<noteq> 0 then PERM_A else 0)
     OR (if shr pte 7 AND 1 \<noteq> 0 then PERM_D else 0)"

text \<open>The accessed/dirty update of a leaf: whether memory must change, the new entry in memory and
  the new cached entry.\<close>

definition ad_update :: "access_type \<Rightarrow> tlb_entry \<Rightarrow> u64 \<Rightarrow> bool \<times> u64 \<times> tlb_entry" where
  "ad_update access entry pte =
     (let upd_a = \<not> te_a entry;
          new_pte = (if upd_a then pte OR shl 1 6 else pte);
          entry = (if upd_a then set_a entry else entry);
          upd_d = (access = StoreAccess \<and> \<not> te_d entry);
          new_pte = (if upd_d then new_pte OR shl 1 7 else new_pte);
          entry = (if upd_d then set_d entry else entry)
      in (upd_a \<or> upd_d, new_pte, entry))"

text \<open>The leaf case: permission check, superpage alignment, accessed/dirty update in memory and
  in the cached entry, and the final physical address.\<close>

definition walk_leaf ::
  "'b bus_ops \<Rightarrow> mode \<Rightarrow> u64 \<Rightarrow> u64 \<Rightarrow> access_type \<Rightarrow> u64 \<Rightarrow> u64 \<Rightarrow> u64 \<Rightarrow> u64 \<Rightarrow> nat \<Rightarrow> tlb \<times> 'b
     \<Rightarrow> (u64, trap) result \<times> tlb \<times> 'b" where
  "walk_leaf ops mode mstatus addr access vpn_full current_asid pte_addr pte i s =
     (case s of (t, b) \<Rightarrow>
      let entry = \<lparr> te_vpn = vpn_full, te_ppn = pte_ppn pte, te_asid = low16 current_asid,
            te_perm = pte_perm pte, te_level = word_of_nat i, te_valid = True \<rparr>;
          level_mask = shl 1 (9 * i) - 1
      in if \<not> check_permission_tlb mode mstatus entry access then (Err (page_fault access addr), t, b)
         else if i > 0 \<and> pte_ppn pte AND level_mask \<noteq> 0 then (Err (page_fault access addr), t, b)
         else
           (case ad_update access entry pte of (update, new_pte, entry) \<Rightarrow>
            let result_ppn = (pte_ppn pte AND NOT level_mask) OR (shr addr 12 AND level_mask);
                finish = (\<lambda>b. (Ok (shl result_ppn 12 OR (addr AND 0xFFF)),
                               tlb_insert (entry\<lparr> te_ppn := result_ppn \<rparr>) t, b))
            in if update then
                 (case bus_store ops pte_addr 8 new_pte b of
                    (Ok _, b) \<Rightarrow> finish b
                  | (Err _, b) \<Rightarrow> (Err (access_fault access addr), t, b)
                  | (Panic, b) \<Rightarrow> (Panic, t, b))
               else finish b))"

primrec walk ::
  "'b bus_ops \<Rightarrow> mode \<Rightarrow> u64 \<Rightarrow> u64 \<Rightarrow> access_type \<Rightarrow> u64 \<Rightarrow> u64 \<Rightarrow> nat \<Rightarrow> u64 \<Rightarrow> tlb \<times> 'b
     \<Rightarrow> (u64, trap) result \<times> tlb \<times> 'b" where
  "walk ops mode mstatus addr access vpn_full current_asid 0 a s = (Err (page_fault access addr), s)"
| "walk ops mode mstatus addr access vpn_full current_asid (Suc i) a s =
     (case s of (t, b) \<Rightarrow>
      let vpn_i = shr addr (12 + 9 * i) AND 0x1FF; pte_addr = a + vpn_i * 8
      in case bus_load ops pte_addr 8 b of
           (Err _, b) \<Rightarrow> (Err (access_fault access addr), t, b)
         | (Panic, b) \<Rightarrow> (Panic, t, b)
         | (Ok pte, b) \<Rightarrow>
             (let v = pte AND 1; r = shr pte 1 AND 1; w = shr pte 2 AND 1; x = shr pte 3 AND 1
              in if v = 0 \<or> (r = 0 \<and> w = 1) then (Err (page_fault access addr), t, b)
                 else if r = 0 \<and> x = 0 then
                   (if i = 0 then (Err (page_fault access addr), t, b)
                    else walk ops mode mstatus addr access vpn_full current_asid i
                           (pte_ppn pte * 4096) (t, b))
                 else walk_leaf ops mode mstatus addr access vpn_full current_asid pte_addr pte i (t, b)))"

text \<open>Levels and address width of a \<open>satp\<close> mode; \<open>None\<close> for bare and unsupported modes.\<close>

definition satp_levels :: "u64 \<Rightarrow> (nat \<times> nat) option" where
  "satp_levels satp =
     (let satp_mode = shr satp 60 AND 0xF
      in if satp_mode = 0 then None
         else if satp_mode = 8 then Some (3, 39)
         else if satp_mode = 9 then Some (4, 48)
         else None)"

definition translate ::
  "'b bus_ops \<Rightarrow> mode \<Rightarrow> u64 \<Rightarrow> u64 \<Rightarrow> u64 \<Rightarrow> access_type \<Rightarrow> tlb \<times> 'b
     \<Rightarrow> (u64, trap) result \<times> tlb \<times> 'b" where
  "translate ops mode satp mstatus addr access s =
     (if mode = Machine then (Ok addr, s)
      else case satp_levels satp of
        None \<Rightarrow> (Ok addr, s)
      | Some (levels, va_bits) \<Rightarrow>
          (let current_asid = shr satp 44 AND 0xFFFF;
               vpn_full_mask = shl 1 (9 * levels) - 1;
               upper_mask = NOT (shl 1 va_bits - 1);
               sign = shr addr (va_bits - 1) AND 1;
               expected_upper = (if sign = 1 then upper_mask else 0)
           in if addr AND upper_mask \<noteq> expected_upper then (Err (page_fault access addr), s)
              else
                (let vpn_full = shr addr 12 AND vpn_full_mask
                 in case tlb_lookup (fst s) vpn_full current_asid of
                      Some entry \<Rightarrow>
                        (if check_permission_tlb mode mstatus entry access
                         then (Ok (shl (te_ppn entry) 12 OR (addr AND 0xFFF)), s)
                         else (Err (page_fault access addr), s))
                    | None \<Rightarrow>
                        (let root_ppn = satp AND (shl 1 44 - 1)
                         in walk ops mode mstatus addr access vpn_full current_asid levels
                              (root_ppn * 4096) s))))"

end
