(* ===== verification/Rv_Block.thy ===== *)
theory Rv_Block
  imports Rv_Microop Rv_Mmu
begin

text \<open>
  Superblocks and their compiler (\<^verbatim>\<open>riscv-vm/src/engine/block.rs\<close>).  \<open>transcode\<close> turns a decoded operation
  into a micro-operation; \<open>compile\<close> fetches instructions from a start address up to a terminator, the end
  of the page, a full block or the first instruction that cannot be fetched or decoded.  Its loop is a
  function that terminates because every round fills one of the 64 slots.  The state is the TLB and the
  bus; besides the results of the source, a panic of the bus is passed on.
\<close>

unbundle bit_operations_syntax

subsection \<open>Blocks\<close>

definition MAX_BLOCK_SIZE :: nat where "MAX_BLOCK_SIZE = 64"

record block =
  start_pc :: u64
  start_pa :: u64
  blk_len :: u8
  byte_len :: u16
  blk_ops :: "nat \<Rightarrow> micro_op"
  exec_count :: u32
  generation :: u32

definition block_new :: "u64 \<Rightarrow> u64 \<Rightarrow> u32 \<Rightarrow> block" where
  "block_new pc pa gen = \<lparr> start_pc = pc, start_pa = pa, blk_len = 0, byte_len = 0,
     blk_ops = (\<lambda>_. micro_op.Fence), exec_count = 0, generation = gen \<rparr>"

definition block_push :: "micro_op \<Rightarrow> u8 \<Rightarrow> block \<Rightarrow> bool \<times> block" where
  "block_push m insn_len b =
     (if unat (blk_len b) \<ge> MAX_BLOCK_SIZE then (False, b)
      else (True, b\<lparr> blk_ops := (blk_ops b)(unat (blk_len b) := m), blk_len := blk_len b + 1,
              byte_len := byte_len b + ucast insn_len \<rparr>))"

definition is_full :: "block \<Rightarrow> bool" where
  "is_full b \<longleftrightarrow> unat (blk_len b) \<ge> MAX_BLOCK_SIZE"

definition ops_slice :: "block \<Rightarrow> micro_op list" where
  "ops_slice b = map (blk_ops b) [0..<unat (blk_len b)]"

datatype compile_result = CompileOk block | CompileTrap trap | Unsuitable

subsection \<open>Transcoding\<close>

definition reg8 :: "register \<Rightarrow> u8" where
  "reg8 r = word_of_nat (to_usize r)"

definition transcode_branch :: "register \<Rightarrow> register \<Rightarrow> i64 \<Rightarrow> u32 \<Rightarrow> u16 \<Rightarrow> u8 \<Rightarrow> micro_op" where
  "transcode_branch r1 r2 imm funct3 off len =
     (if funct3 = 0 then Beq (reg8 r1) (reg8 r2) imm off len
      else if funct3 = 1 then Bne (reg8 r1) (reg8 r2) imm off len
      else if funct3 = 4 then Blt (reg8 r1) (reg8 r2) imm off len
      else if funct3 = 5 then Bge (reg8 r1) (reg8 r2) imm off len
      else if funct3 = 6 then Bltu (reg8 r1) (reg8 r2) imm off len
      else if funct3 = 7 then Bgeu (reg8 r1) (reg8 r2) imm off len
      else micro_op.Fence)"

definition transcode_load :: "register \<Rightarrow> register \<Rightarrow> i64 \<Rightarrow> u32 \<Rightarrow> u16 \<Rightarrow> micro_op" where
  "transcode_load rd r1 imm funct3 off =
     (if funct3 = 0 then Lb (reg8 rd) (reg8 r1) imm off
      else if funct3 = 1 then Lh (reg8 rd) (reg8 r1) imm off
      else if funct3 = 2 then Lw (reg8 rd) (reg8 r1) imm off
      else if funct3 = 3 then Ld (reg8 rd) (reg8 r1) imm off
      else if funct3 = 4 then Lbu (reg8 rd) (reg8 r1) imm off
      else if funct3 = 5 then Lhu (reg8 rd) (reg8 r1) imm off
      else if funct3 = 6 then Lwu (reg8 rd) (reg8 r1) imm off
      else micro_op.Fence)"

definition transcode_store :: "register \<Rightarrow> register \<Rightarrow> i64 \<Rightarrow> u32 \<Rightarrow> u16 \<Rightarrow> micro_op" where
  "transcode_store r1 r2 imm funct3 off =
     (if funct3 = 0 then Sb (reg8 r1) (reg8 r2) imm off
      else if funct3 = 1 then Sh (reg8 r1) (reg8 r2) imm off
      else if funct3 = 2 then Sw (reg8 r1) (reg8 r2) imm off
      else if funct3 = 3 then Sd (reg8 r1) (reg8 r2) imm off
      else micro_op.Fence)"

definition transcode_op_imm :: "register \<Rightarrow> register \<Rightarrow> i64 \<Rightarrow> u32 \<Rightarrow> u32 \<Rightarrow> micro_op" where
  "transcode_op_imm rd r1 imm funct3 funct7 =
     (if funct3 = 0 then Addi (reg8 rd) (reg8 r1) imm
      else if funct3 = 2 then Slti (reg8 rd) (reg8 r1) imm
      else if funct3 = 3 then Sltiu (reg8 rd) (reg8 r1) imm
      else if funct3 = 4 then Xori (reg8 rd) (reg8 r1) imm
      else if funct3 = 6 then Ori (reg8 rd) (reg8 r1) imm
      else if funct3 = 7 then Andi (reg8 rd) (reg8 r1) imm
      else if funct3 = 1 then Slli (reg8 rd) (reg8 r1) (low8 (imm AND 0x3F))
      else if funct3 = 5 then (if funct7 AND 0x20 \<noteq> 0 then Srai (reg8 rd) (reg8 r1) (low8 (imm AND 0x3F))
        else Srli (reg8 rd) (reg8 r1) (low8 (imm AND 0x3F)))
      else micro_op.Fence)"

definition transcode_op :: "register \<Rightarrow> register \<Rightarrow> register \<Rightarrow> u32 \<Rightarrow> u32 \<Rightarrow> micro_op" where
  "transcode_op rd r1 r2 funct3 funct7 =
     (if funct3 = 0 \<and> funct7 = 0 then Add (reg8 rd) (reg8 r1) (reg8 r2)
      else if funct3 = 0 \<and> funct7 = 0x20 then Sub (reg8 rd) (reg8 r1) (reg8 r2)
      else if funct3 = 0 \<and> funct7 = 1 then Mul (reg8 rd) (reg8 r1) (reg8 r2)
      else if funct3 = 1 \<and> funct7 = 0 then Sll (reg8 rd) (reg8 r1) (reg8 r2)
      else if funct3 = 1 \<and> funct7 = 1 then Mulh (reg8 rd) (reg8 r1) (reg8 r2)
      else if funct3 = 2 \<and> funct7 = 0 then Slt (reg8 rd) (reg8 r1) (reg8 r2)
      else if funct3 = 2 \<and> funct7 = 1 then Mulhsu (reg8 rd) (reg8 r1) (reg8 r2)
      else if funct3 = 3 \<and> funct7 = 0 then Sltu (reg8 rd) (reg8 r1) (reg8 r2)
      else if funct3 = 3 \<and> funct7 = 1 then Mulhu (reg8 rd) (reg8 r1) (reg8 r2)
      else if funct3 = 4 \<and> funct7 = 0 then Xor (reg8 rd) (reg8 r1) (reg8 r2)
      else if funct3 = 4 \<and> funct7 = 1 then Div (reg8 rd) (reg8 r1) (reg8 r2)
      else if funct3 = 5 \<and> funct7 = 0 then Srl (reg8 rd) (reg8 r1) (reg8 r2)
      else if funct3 = 5 \<and> funct7 = 0x20 then Sra (reg8 rd) (reg8 r1) (reg8 r2)
      else if funct3 = 5 \<and> funct7 = 1 then Divu (reg8 rd) (reg8 r1) (reg8 r2)
      else if funct3 = 6 \<and> funct7 = 0 then Or (reg8 rd) (reg8 r1) (reg8 r2)
      else if funct3 = 6 \<and> funct7 = 1 then Rem (reg8 rd) (reg8 r1) (reg8 r2)
      else if funct3 = 7 \<and> funct7 = 0 then And (reg8 rd) (reg8 r1) (reg8 r2)
      else if funct3 = 7 \<and> funct7 = 1 then Remu (reg8 rd) (reg8 r1) (reg8 r2)
      else micro_op.Fence)"

definition transcode_op_imm32 :: "register \<Rightarrow> register \<Rightarrow> i64 \<Rightarrow> u32 \<Rightarrow> u32 \<Rightarrow> micro_op" where
  "transcode_op_imm32 rd r1 imm funct3 funct7 =
     (if funct3 = 0 then Addiw (reg8 rd) (reg8 r1) (low32 imm)
      else if funct3 = 1 then Slliw (reg8 rd) (reg8 r1) (low8 (imm AND 0x1F))
      else if funct3 = 5 then (if funct7 AND 0x20 \<noteq> 0 then Sraiw (reg8 rd) (reg8 r1) (low8 (imm AND 0x1F))
        else Srliw (reg8 rd) (reg8 r1) (low8 (imm AND 0x1F)))
      else micro_op.Fence)"

definition transcode_op32 :: "register \<Rightarrow> register \<Rightarrow> register \<Rightarrow> u32 \<Rightarrow> u32 \<Rightarrow> micro_op" where
  "transcode_op32 rd r1 r2 funct3 funct7 =
     (if funct3 = 0 \<and> funct7 = 0 then Addw (reg8 rd) (reg8 r1) (reg8 r2)
      else if funct3 = 0 \<and> funct7 = 0x20 then Subw (reg8 rd) (reg8 r1) (reg8 r2)
      else if funct3 = 0 \<and> funct7 = 1 then Mulw (reg8 rd) (reg8 r1) (reg8 r2)
      else if funct3 = 1 \<and> funct7 = 0 then Sllw (reg8 rd) (reg8 r1) (reg8 r2)
      else if funct3 = 5 \<and> funct7 = 0 then Srlw (reg8 rd) (reg8 r1) (reg8 r2)
      else if funct3 = 5 \<and> funct7 = 0x20 then Sraw (reg8 rd) (reg8 r1) (reg8 r2)
      else if funct3 = 4 \<and> funct7 = 1 then Divw (reg8 rd) (reg8 r1) (reg8 r2)
      else if funct3 = 5 \<and> funct7 = 1 then Divuw (reg8 rd) (reg8 r1) (reg8 r2)
      else if funct3 = 6 \<and> funct7 = 1 then Remw (reg8 rd) (reg8 r1) (reg8 r2)
      else if funct3 = 7 \<and> funct7 = 1 then Remuw (reg8 rd) (reg8 r1) (reg8 r2)
      else micro_op.Fence)"

definition transcode_system :: "register \<Rightarrow> register \<Rightarrow> u32 \<Rightarrow> u32 \<Rightarrow> u16 \<Rightarrow> micro_op" where
  "transcode_system rd r1 funct3 imm off =
     (let csr = ucast (imm AND 0xFFF) in
      if funct3 = 0 then
        (if imm = 0 then Ecall off
         else if imm = 1 then Ebreak off
         else if imm = 0x302 then Mret off
         else if imm = 0x102 then Sret off
         else if imm = 0x105 then Wfi off
         else if shr imm 5 AND 0x7F = 0x09 then SfenceVma off
         else micro_op.Fence)
      else if funct3 = 1 then Csrrw (reg8 rd) (reg8 r1) csr off
      else if funct3 = 2 then Csrrs (reg8 rd) (reg8 r1) csr off
      else if funct3 = 3 then Csrrc (reg8 rd) (reg8 r1) csr off
      else if funct3 = 5 then Csrrwi (reg8 rd) (reg8 r1) csr off
      else if funct3 = 6 then Csrrsi (reg8 rd) (reg8 r1) csr off
      else if funct3 = 7 then Csrrci (reg8 rd) (reg8 r1) csr off
      else micro_op.Fence)"

definition transcode_amo :: "register \<Rightarrow> register \<Rightarrow> register \<Rightarrow> u32 \<Rightarrow> u32 \<Rightarrow> u16 \<Rightarrow> micro_op" where
  "transcode_amo rd r1 r2 funct3 funct5 off =
     (let is_word = (funct3 = 2) in
      if funct5 = 2 then (if is_word then LrW (reg8 rd) (reg8 r1) off else LrD (reg8 rd) (reg8 r1) off)
      else if funct5 = 3 then
        (if is_word then ScW (reg8 rd) (reg8 r1) (reg8 r2) off else ScD (reg8 rd) (reg8 r1) (reg8 r2) off)
      else if funct5 = 1 then AmoSwap (reg8 rd) (reg8 r1) (reg8 r2) is_word off
      else if funct5 = 0 then AmoAdd (reg8 rd) (reg8 r1) (reg8 r2) is_word off
      else if funct5 = 4 then AmoXor (reg8 rd) (reg8 r1) (reg8 r2) is_word off
      else if funct5 = 0xC then AmoAnd (reg8 rd) (reg8 r1) (reg8 r2) is_word off
      else if funct5 = 8 then AmoOr (reg8 rd) (reg8 r1) (reg8 r2) is_word off
      else if funct5 = 0x10 then AmoMin (reg8 rd) (reg8 r1) (reg8 r2) is_word off
      else if funct5 = 0x14 then AmoMax (reg8 rd) (reg8 r1) (reg8 r2) is_word off
      else if funct5 = 0x18 then AmoMinu (reg8 rd) (reg8 r1) (reg8 r2) is_word off
      else if funct5 = 0x1C then AmoMaxu (reg8 rd) (reg8 r1) (reg8 r2) is_word off
      else micro_op.Fence)"

primrec transcode :: "op \<Rightarrow> u16 \<Rightarrow> u8 \<Rightarrow> micro_op" where
  "transcode (op.Lui rd imm) off len = micro_op.Lui (reg8 rd) imm"
| "transcode (op.Auipc rd imm) off len = micro_op.Auipc (reg8 rd) imm off"
| "transcode (op.Jal rd imm) off len = micro_op.Jal (reg8 rd) imm off len"
| "transcode (op.Jalr rd r1 imm) off len = micro_op.Jalr (reg8 rd) (reg8 r1) imm off len"
| "transcode (Branch r1 r2 imm funct3) off len = transcode_branch r1 r2 imm funct3 off len"
| "transcode (Load rd r1 imm funct3) off len = transcode_load rd r1 imm funct3 off"
| "transcode (Store r1 r2 imm funct3) off len = transcode_store r1 r2 imm funct3 off"
| "transcode (OpImm rd r1 imm funct3 funct7) off len = transcode_op_imm rd r1 imm funct3 funct7"
| "transcode (Op rd r1 r2 funct3 funct7) off len = transcode_op rd r1 r2 funct3 funct7"
| "transcode (OpImm32 rd r1 imm funct3 funct7) off len = transcode_op_imm32 rd r1 imm funct3 funct7"
| "transcode (Op32 rd r1 r2 funct3 funct7) off len = transcode_op32 rd r1 r2 funct3 funct7"
| "transcode (System rd r1 funct3 imm) off len = transcode_system rd r1 funct3 imm off"
| "transcode (Amo rd r1 r2 funct3 funct5 aq rl) off len = transcode_amo rd r1 r2 funct3 funct5 off"
| "transcode op.Fence off len = micro_op.Fence"

subsection \<open>Compilation\<close>

text \<open>A bus error on an instruction fetch, reported at the address of the instruction.\<close>

fun fetch_fault :: "u64 \<Rightarrow> trap \<Rightarrow> trap" where
  "fetch_fault pc (LoadAccessFault _) = InstructionAccessFault pc"
| "fetch_fault pc (LoadAddressMisaligned _) = InstructionAddressMisaligned pc"
| "fetch_fault pc other = other"

text \<open>A bus access inside a state that also holds the TLB.\<close>

definition on_bus :: "('b \<Rightarrow> ('a, 'e) result \<times> 'b) \<Rightarrow> 't \<times> 'b \<Rightarrow> ('a, 'e) result \<times> 't \<times> 'b" where
  "on_bus f s = (case f (snd s) of (r, b) \<Rightarrow> (r, fst s, b))"

definition expand_low :: "u16 \<Rightarrow> 's \<Rightarrow> (u32 \<times> u8, trap) result \<times> 's" where
  "expand_low half s = bindS (expand_compressed half, s) (\<lambda>insn32 s. (Ok (insn32, 2), s))"

definition fetch_halves ::
  "'b bus_ops \<Rightarrow> u64 \<Rightarrow> u64 \<Rightarrow> mode \<Rightarrow> u64 \<Rightarrow> u64 \<Rightarrow> tlb \<times> 'b \<Rightarrow> (u32 \<times> u8, trap) result \<times> tlb \<times> 'b" where
  "fetch_halves ops satp mstatus m pc pa s =
     bindS (apfst (map_err (fetch_fault pc)) (on_bus (bus_read16 ops pa) s)) (\<lambda>half s.
       if half AND 0x3 \<noteq> 0x3 then expand_low half s
       else
         bindS (translate ops m satp mstatus (pc + 2) Instruction s) (\<lambda>pa_hi s.
         bindS (apfst (map_err (fetch_fault pc)) (on_bus (bus_read16 ops pa_hi) s)) (\<lambda>hi s.
           (Ok (ucast half OR shl (ucast hi) 16, 4), s))))"

definition fetch_insn ::
  "'b bus_ops \<Rightarrow> u64 \<Rightarrow> u64 \<Rightarrow> mode \<Rightarrow> u64 \<Rightarrow> tlb \<times> 'b \<Rightarrow> (u32 \<times> u8, trap) result \<times> tlb \<times> 'b" where
  "fetch_insn ops satp mstatus m pc s =
     (if pc mod 2 \<noteq> 0 then (Err (InstructionAddressMisaligned pc), s)
      else
        bindS (translate ops m satp mstatus pc Instruction s) (\<lambda>pa s.
          if pc mod 4 = 0 then
            matchS (on_bus (bus_read32 ops pa) s)
              (\<lambda>word s. if word AND 0x3 \<noteq> 0x3 then expand_low (ucast (word AND 0xFFFF)) s else (Ok (word, 4), s))
              (\<lambda>_ s. fetch_halves ops satp mstatus m pc pa s)
              (\<lambda>s. s)
          else fetch_halves ops satp mstatus m pc pa s))"

text \<open>One round of the loop: \<open>Inl\<close> ends the compilation, \<open>Inr\<close> goes on with the extended block.\<close>

definition give_up :: "block \<Rightarrow> trap \<Rightarrow> compile_result" where
  "give_up blk e = (if blk_len blk > 0 then CompileOk blk else CompileTrap e)"

definition compile_round ::
  "'b bus_ops \<Rightarrow> u64 \<Rightarrow> u64 \<Rightarrow> mode \<Rightarrow> u64 \<Rightarrow> u16 \<Rightarrow> block \<Rightarrow> tlb \<times> 'b
     \<Rightarrow> (compile_result + block \<times> u64 \<times> u16, trap) result \<times> tlb \<times> 'b" where
  "compile_round ops satp mstatus m pc off blk s =
     matchS (fetch_insn ops satp mstatus m pc s)
       (\<lambda>(raw, insn_len) s.
         case decode raw of
           Err e \<Rightarrow> (Ok (Inl (give_up blk e)), s)
         | Panic \<Rightarrow> (Panic, s)
         | Ok dop \<Rightarrow>
             (let mop = transcode dop off insn_len in
              case block_push mop insn_len blk of (pushed, blk) \<Rightarrow>
                if \<not> pushed \<or> is_terminator mop then (Ok (Inl (CompileOk blk)), s)
                else
                  (let pc = pc + ucast insn_len; off = off + ucast insn_len;
                       next_page = (start_pc blk AND NOT 0xFFF) + 0x1000
                   in if pc \<ge> next_page then (Ok (Inl (CompileOk blk)), s)
                      else (Ok (Inr (blk, pc, off)), s))))
       (\<lambda>e s. (Ok (Inl (give_up blk e)), s))
       (\<lambda>s. s)"

lemma compile_round_grows:
  assumes "compile_round ops satp mstatus m pc off blk s = (Ok (Inr (blk', pc', off')), s')"
  shows "unat (blk_len blk') = Suc (unat (blk_len blk))" "unat (blk_len blk') \<le> 64"
proof -
  obtain r s1 where f: "fetch_insn ops satp mstatus m pc s = (r, s1)" by (rule prod.exhaust)
  from assms f obtain raw n where r: "r = Ok (raw, n)" unfolding compile_round_def by (cases r) auto
  from assms f r obtain dop where d: "decode raw = Ok dop"
    unfolding compile_round_def by (cases "decode raw") auto
  obtain q b where p: "block_push (transcode dop off n) n blk = (q, b)" by fastforce
  have b: "q" "blk' = b"
    using assms f r d p unfolding compile_round_def by (auto simp: Let_def split: if_splits)
  then have lt: "unat (blk_len blk) < 64" and "blk_len blk' = blk_len blk + 1"
    using p by (auto simp: block_push_def MAX_BLOCK_SIZE_def split: if_splits)
  then show "unat (blk_len blk') = Suc (unat (blk_len blk))" "unat (blk_len blk') \<le> 64"
    by (simp_all add: unat_word_ariths)
qed

lemma compile_round_measure:
  "compile_round ops satp mstatus m pc off blk s = (Ok (Inr (blk', pc', off')), s') \<Longrightarrow>
    65 - unat (blk_len blk') < 65 - unat (blk_len blk)"
  using compile_round_grows [of ops satp mstatus m pc off blk s blk' pc' off' s'] by simp

function compile_loop ::
  "'b bus_ops \<Rightarrow> u64 \<Rightarrow> u64 \<Rightarrow> mode \<Rightarrow> u64 \<Rightarrow> u16 \<Rightarrow> block \<Rightarrow> tlb \<times> 'b
     \<Rightarrow> (compile_result, trap) result \<times> tlb \<times> 'b" where
  "compile_loop ops satp mstatus m pc off blk s =
     (case compile_round ops satp mstatus m pc off blk s of
        (Ok (Inl res), s) \<Rightarrow> (Ok res, s)
      | (Ok (Inr (blk, pc, off)), s) \<Rightarrow> compile_loop ops satp mstatus m pc off blk s
      | (Err e, s) \<Rightarrow> (Err e, s)
      | (Panic, s) \<Rightarrow> (Panic, s))"
  by pat_completeness auto

termination compile_loop
  by (relation "measure (\<lambda>(ops, satp, mstatus, m, pc, off, blk, s). 65 - unat (blk_len blk))")
    (auto dest!: compile_round_measure [OF sym])

declare compile_loop.simps [simp del]

definition compile ::
  "'b bus_ops \<Rightarrow> u64 \<Rightarrow> u64 \<Rightarrow> mode \<Rightarrow> u64 \<Rightarrow> u32 \<Rightarrow> tlb \<times> 'b
     \<Rightarrow> (compile_result, trap) result \<times> tlb \<times> 'b" where
  "compile ops satp mstatus m pc gen s =
     matchS (translate ops m satp mstatus pc Instruction s)
       (\<lambda>pa s. compile_loop ops satp mstatus m pc 0 (block_new pc pa gen) s)
       (\<lambda>e s. (Ok (CompileTrap e), s))
       (\<lambda>s. s)"

end
