(* ===== verification/Rv_Block_Cache.thy ===== *)
theory Rv_Block_Cache
  imports Rv_Block "HOL-Library.AList" "HOL-Library.Multiset"
begin

text \<open>
  The cache of compiled blocks (\<^verbatim>\<open>riscv-vm/src/engine/cache.rs\<close>).  The \<open>HashMap\<close> from addresses to blocks is an
  association list with distinct keys.  The order in which a \<open>HashMap\<close> is iterated is unspecified, and
  the eviction of cold blocks depends on it: it is the parameter \<open>iter\<close>, which puts the keys in some
  order.  \<open>stats\<close>, which only formats the counters, is left out.

  The lemmas are the laws of a cache: what a lookup returns after an insert, a flush or an
  invalidation, that a lookup returns only blocks of the current generation that start at the address
  looked up, and that an insert keeps the cache within its capacity.
\<close>

unbundle bit_operations_syntax

subsection \<open>State and operations\<close>

abbreviation (input) BLOCK_CACHE_SIZE :: nat where "BLOCK_CACHE_SIZE \<equiv> 4096"

record block_cache =
  blocks :: "(u64 \<times> block) list"
  cache_generation :: u32
  hits :: u64
  misses :: u64
  invalidations :: u64

definition block_cache_new :: block_cache where
  "block_cache_new = \<lparr> blocks = [], cache_generation = 0, hits = 0, misses = 0, invalidations = 0 \<rparr>"

definition cache_get :: "u64 \<Rightarrow> block_cache \<Rightarrow> block option \<times> block_cache" where
  "cache_get pc c =
     (case map_of (blocks c) pc of
        Some blk \<Rightarrow>
          (if generation blk = cache_generation c then (Some blk, c\<lparr> hits := hits c + 1 \<rparr>)
           else (None, c\<lparr> misses := misses c + 1 \<rparr>))
      | None \<Rightarrow> (None, c\<lparr> misses := misses c + 1 \<rparr>))"

text \<open>The loop that collects cold keys stops once \<open>threshold\<close> of them are found; the check comes after the
  push, so a threshold of 0 still collects one.\<close>

fun cold_keys :: "(u64 \<times> block) list \<Rightarrow> nat \<Rightarrow> u64 list \<Rightarrow> u64 list \<Rightarrow> u64 list" where
  "cold_keys bs threshold [] cold = cold"
| "cold_keys bs threshold (pc # pcs) cold =
     (case map_of bs pc of
        Some blk \<Rightarrow>
          (if exec_count blk < 10 then
             (let cold = cold @ [pc]
              in if length cold \<ge> threshold then cold else cold_keys bs threshold pcs cold)
           else cold_keys bs threshold pcs cold)
      | None \<Rightarrow> cold_keys bs threshold pcs cold)"

definition evict_cold :: "(u64 list \<Rightarrow> u64 list) \<Rightarrow> block_cache \<Rightarrow> block_cache" where
  "evict_cold iter c =
     (let threshold = length (blocks c) div 4;
          cold = cold_keys (blocks c) threshold (iter (map fst (blocks c))) [];
          c = c\<lparr> blocks := fold AList.delete cold (blocks c) \<rparr>
      in if length (blocks c) \<ge> BLOCK_CACHE_SIZE then
           (let oldest_gen = cache_generation c - 1
            in c\<lparr> blocks := filter (\<lambda>(_, blk). generation blk \<ge> oldest_gen) (blocks c) \<rparr>)
         else c)"

definition cache_insert :: "(u64 list \<Rightarrow> u64 list) \<Rightarrow> block \<Rightarrow> block_cache \<Rightarrow> block_cache" where
  "cache_insert iter blk c =
     (let c = (if length (blocks c) \<ge> BLOCK_CACHE_SIZE then evict_cold iter c else c)
      in c\<lparr> blocks := AList.update (start_pc blk) blk (blocks c) \<rparr>)"

definition cache_flush :: "block_cache \<Rightarrow> block_cache" where
  "cache_flush c = c\<lparr> cache_generation := cache_generation c + 1, invalidations := invalidations c + 1 \<rparr>"

definition invalidate_range :: "u64 \<Rightarrow> u64 \<Rightarrow> block_cache \<Rightarrow> block_cache" where
  "invalidate_range from_pa to_pa c =
     c\<lparr> blocks := filter (\<lambda>(_, blk). let block_end = start_pa blk + ucast (byte_len blk)
                              in \<not> (start_pa blk < to_pa \<and> block_end > from_pa)) (blocks c),
       invalidations := invalidations c + 1 \<rparr>"

text \<open>\<open>get_mut\<close> followed by the caller's update of the block found.\<close>

definition cache_update :: "(block \<Rightarrow> block) \<Rightarrow> u64 \<Rightarrow> block_cache \<Rightarrow> block_cache" where
  "cache_update f pc c =
     (case map_of (blocks c) pc of
        Some blk \<Rightarrow> c\<lparr> blocks := AList.update pc (f blk) (blocks c) \<rparr>
      | None \<Rightarrow> c)"

text \<open>The update of the caller: a saturating count of the executions.\<close>

definition count_exec :: "block \<Rightarrow> block" where
  "count_exec blk = blk\<lparr> exec_count := (if exec_count blk = - 1 then - 1 else exec_count blk + 1) \<rparr>"

definition cache_clear :: "block_cache \<Rightarrow> block_cache" where
  "cache_clear c = block_cache_new"

subsection \<open>Invariant\<close>

text \<open>The keys are distinct, every block is filed under its start address, and no block is newer than the
  cache.  The capacity is not part of it: see \<open>cache_insert_capacity\<close>.\<close>

definition cache_inv :: "block_cache \<Rightarrow> bool" where
  "cache_inv c \<longleftrightarrow> distinct (map fst (blocks c))
     \<and> list_all (\<lambda>(pc, blk). start_pc blk = pc \<and> generation blk \<le> cache_generation c) (blocks c)"

text \<open>What the cache holds for an address: the block without its execution counter and generation.\<close>

definition code_of :: "block \<Rightarrow> block" where
  "code_of blk = blk\<lparr> exec_count := 0, generation := 0 \<rparr>"

definition live :: "block_cache \<Rightarrow> u64 \<rightharpoonup> block" where
  "live c pc = (case map_of (blocks c) pc of
     Some blk \<Rightarrow> if generation blk = cache_generation c then Some (code_of blk) else None | None \<Rightarrow> None)"

lemma code_of_simps [simp]:
  "start_pc (code_of b) = start_pc b" "blk_ops (code_of b) = blk_ops b"
  "blk_len (code_of b) = blk_len b" "start_pa (code_of b) = start_pa b" "byte_len (code_of b) = byte_len b"
  "code_of (b\<lparr> exec_count := n \<rparr>) = code_of b" "code_of (b\<lparr> generation := g \<rparr>) = code_of b"
  by (simp_all add: code_of_def)

lemma live_iff:
  "live c pc = Some m \<longleftrightarrow>
    (\<exists>b. map_of (blocks c) pc = Some b \<and> generation b = cache_generation c \<and> m = code_of b)"
  by (auto simp: live_def split: option.splits)

lemma live_cong: "map_of (blocks c') = map_of (blocks c) \<Longrightarrow> cache_generation c' = cache_generation c \<Longrightarrow> live c' = live c"
  by (intro ext) (simp add: live_def split: option.split)

lemma cache_get_live: "map_option code_of (fst (cache_get pc c)) = live c pc"
  by (simp add: cache_get_def live_def split: option.split)

lemma cache_get_keeps: "live (snd (cache_get pc c)) = live c" "cache_inv (snd (cache_get pc c)) = cache_inv c"
  by (simp_all add: cache_get_def live_def cache_inv_def fun_eq_iff split: option.split)

subsection \<open>Eviction\<close>

lemma map_of_fold_delete: "map_of (fold AList.delete ks xs) = (map_of xs)|`(- set ks)"
  by (induction ks arbitrary: xs) (auto simp: AList.delete_conv' restrict_map_def fun_eq_iff)

lemma set_fold_delete: "set (fold AList.delete ks xs) \<subseteq> set xs"
proof (induction ks arbitrary: xs)
  case (Cons k ks)
  have "set (AList.delete k xs) \<subseteq> set xs" by (auto simp: AList.delete_eq)
  with Cons [of "AList.delete k xs"] show ?case by simp
qed simp

lemma distinct_fold_delete: "distinct (map fst xs) \<Longrightarrow> distinct (map fst (fold AList.delete ks xs))"
  by (induction ks arbitrary: xs) (simp_all add: AList.distinct_delete)

lemma length_fold_delete: "length (fold AList.delete ks xs) \<le> length xs"
proof (induction ks arbitrary: xs)
  case (Cons k ks)
  have "length (AList.delete k xs) \<le> length xs" by (simp add: AList.delete_eq)
  with Cons [of "AList.delete k xs"] show ?case by simp
qed simp

lemma length_fold_delete_less:
  assumes "k \<in> set ks" "k \<in> fst ` set xs"
  shows "length (fold AList.delete ks xs) < length xs"
  using assms
proof (induction ks arbitrary: xs)
  case (Cons j ks)
  have le: "length (AList.delete j xs) \<le> length xs" by (simp add: AList.delete_eq)
  show ?case
  proof (cases "j = k")
    case True
    with Cons.prems have "length (AList.delete j xs) < length xs"
      by (auto simp: AList.delete_eq intro!: length_filter_less)
    then show ?thesis using length_fold_delete [of ks "AList.delete j xs"] by simp
  next
    case False
    with Cons.prems have "k \<in> set ks" "k \<in> fst ` set (AList.delete j xs)" by (auto simp: AList.delete_eq image_iff)
    from Cons.IH [OF this] le show ?thesis by simp
  qed
qed simp

lemma map_of_filter_mono:
  assumes "distinct (map fst xs)" "map_of (filter P xs) k = Some v"
  shows "map_of xs k = Some v" "P (k, v)"
  using assms by (auto simp: map_of_eq_Some_iff distinct_map_filter dest!: map_of_SomeD)

lemma cache_inv_sub:
  assumes "cache_inv c" "cache_generation c' = cache_generation c" "set (blocks c') \<subseteq> set (blocks c)"
    "distinct (map fst (blocks c'))"
  shows "cache_inv c'"
  using assms by (auto simp: cache_inv_def list_all_iff)

lemma evict_cold_inv:
  assumes "cache_inv c"
  shows "cache_inv (evict_cold iter c)"
proof -
  define bs where "bs = fold AList.delete (cold_keys (blocks c) (length (blocks c) div 4) (iter (map fst (blocks c))) []) (blocks c)"
  have "set bs \<subseteq> set (blocks c)" "distinct (map fst bs)"
    using assms by (simp_all add: bs_def set_fold_delete distinct_fold_delete cache_inv_def)
  then show ?thesis
    by (intro cache_inv_sub [OF assms])
      (auto simp: evict_cold_def Let_def bs_def [symmetric] distinct_map_filter)
qed

lemma evict_cold_map_of:
  assumes "cache_inv c" "map_of (blocks (evict_cold iter c)) pc = Some b"
  shows "map_of (blocks c) pc = Some b"
proof -
  define bs where "bs = fold AList.delete (cold_keys (blocks c) (length (blocks c) div 4) (iter (map fst (blocks c))) []) (blocks c)"
  have "distinct (map fst bs)" using assms(1) by (simp add: bs_def cache_inv_def distinct_fold_delete)
  then have "map_of bs pc = Some b"
    using assms(2) map_of_filter_mono(1) [of bs "\<lambda>(_, blk). generation blk \<ge> cache_generation c - 1" pc b]
    by (auto simp: evict_cold_def Let_def bs_def [symmetric] split: if_splits)
  then show ?thesis by (simp add: bs_def map_of_fold_delete restrict_map_def split: if_splits)
qed

lemma evict_cold_generation [simp]: "cache_generation (evict_cold iter c) = cache_generation c"
  by (simp add: evict_cold_def Let_def)

lemma live_mono:
  assumes "cache_generation c' = cache_generation c" "\<And>pc b. map_of (blocks c') pc = Some b \<Longrightarrow> map_of (blocks c) pc = Some b"
  shows "live c' \<subseteq>\<^sub>m live c"
  unfolding map_le_def
proof
  fix pc assume "pc \<in> dom (live c')"
  then obtain m where m: "live c' pc = Some m" by auto
  then have "live c pc = Some m" using assms by (auto simp: live_iff)
  with m show "live c' pc = live c pc" by simp
qed

lemma evict_cold_live: "cache_inv c \<Longrightarrow> live (evict_cold iter c) \<subseteq>\<^sub>m live c"
  by (rule live_mono) (simp_all add: evict_cold_map_of)

subsection \<open>Insertion, flush and invalidation\<close>

text \<open>The cache after the eviction that makes room for a block.\<close>

definition make_room :: "(u64 list \<Rightarrow> u64 list) \<Rightarrow> block_cache \<Rightarrow> block_cache" where
  "make_room iter c = (if length (blocks c) \<ge> BLOCK_CACHE_SIZE then evict_cold iter c else c)"

lemma cache_insert_alt:
  "cache_insert iter blk c =
    (make_room iter c)\<lparr> blocks := AList.update (start_pc blk) blk (blocks (make_room iter c)) \<rparr>"
  by (simp add: cache_insert_def make_room_def Let_def)

lemma make_room_simps [simp]: "cache_generation (make_room iter c) = cache_generation c"
  by (simp add: make_room_def)

lemma make_room_inv: "cache_inv c \<Longrightarrow> cache_inv (make_room iter c)"
  by (simp add: make_room_def evict_cold_inv)

lemma make_room_live: "cache_inv c \<Longrightarrow> live (make_room iter c) \<subseteq>\<^sub>m live c"
  by (simp add: make_room_def evict_cold_live)

lemma set_update_sub: "set (AList.update k v xs) \<subseteq> insert (k, v) (set xs)"
  by (induction xs) auto

lemma cache_inv_update:
  assumes "cache_inv c" "start_pc blk = pc" "generation blk \<le> cache_generation c"
  shows "cache_inv (c\<lparr> blocks := AList.update pc blk (blocks c) \<rparr>)"
proof -
  have "list_all P (AList.update pc blk (blocks c))" if "list_all P (blocks c)" "P (pc, blk)" for P
    using that set_update_sub [of pc blk "blocks c"] by (auto simp: list_all_iff)
  then show ?thesis using assms by (simp add: cache_inv_def distinct_update)
qed

lemma live_update:
  "generation blk = cache_generation c \<Longrightarrow>
    live (c\<lparr> blocks := AList.update pc blk (blocks c) \<rparr>) = (live c)(pc \<mapsto> code_of blk)"
  by (intro ext) (simp add: live_def update_conv' split: option.split)

lemma cache_insert_inv:
  "cache_inv c \<Longrightarrow> generation blk = cache_generation c \<Longrightarrow> cache_inv (cache_insert iter blk c)"
  by (simp add: cache_insert_alt cache_inv_update make_room_inv)

lemma cache_insert_live:
  assumes "cache_inv c" "generation blk = cache_generation c"
  shows "live (cache_insert iter blk c) \<subseteq>\<^sub>m (live c)(start_pc blk \<mapsto> code_of blk)"
    "live (cache_insert iter blk c) (start_pc blk) = Some (code_of blk)"
  using assms make_room_live [of c iter]
  by (simp_all add: cache_insert_alt live_update map_le_upd)

lemma cache_flush_inv:
  assumes "cache_inv c" "cache_generation c \<noteq> - 1"
  shows "cache_inv (cache_flush c)" "live (cache_flush c) = Map.empty"
proof -
  have "unat (1 + cache_generation c) = Suc (unat (cache_generation c))"
    using assms(2) by (intro unatSuc) (simp add: add.commute [of 1] add_eq_0_iff2)
  then have lt: "g < cache_generation c + 1" if "g \<le> cache_generation c" for g
    using that by (simp add: word_less_nat_alt word_le_nat_alt add.commute)
  with assms(1) show "cache_inv (cache_flush c)"
    by (fastforce simp: cache_inv_def cache_flush_def list_all_iff intro: less_imp_le)
  have "generation b \<noteq> cache_generation c + 1" if "map_of (blocks c) pc = Some b" for pc b
    using map_of_SomeD [OF that] assms(1) lt by (fastforce simp: cache_inv_def list_all_iff)
  then show "live (cache_flush c) = Map.empty"
    by (intro ext) (simp add: live_def cache_flush_def split: option.split)
qed

lemma invalidate_range_inv:
  assumes "cache_inv c"
  shows "cache_inv (invalidate_range a z c)" "live (invalidate_range a z c) \<subseteq>\<^sub>m live c"
proof -
  show "cache_inv (invalidate_range a z c)"
    using assms by (intro cache_inv_sub [OF assms]) (auto simp: invalidate_range_def cache_inv_def distinct_map_filter)
  show "live (invalidate_range a z c) \<subseteq>\<^sub>m live c"
    using assms by (intro live_mono) (simp_all add: invalidate_range_def cache_inv_def map_of_filter_mono(1))
qed

lemma invalidate_range_live:
  assumes "cache_inv c" "live (invalidate_range a z c) pc = Some blk"
  shows "\<not> (start_pa blk < z \<and> start_pa blk + ucast (byte_len blk) > a)"
  using assms unfolding live_iff by (auto simp: invalidate_range_def cache_inv_def Let_def dest: map_of_filter_mono)

lemma cache_update_inv:
  assumes "cache_inv c" "\<And>b. start_pc (f b) = start_pc b" "\<And>b. generation (f b) = generation b" "\<And>b. code_of (f b) = code_of b"
  shows "cache_inv (cache_update f pc c)" "live (cache_update f pc c) = live c"
proof -
  have in_set: "start_pc b = pc \<and> generation b \<le> cache_generation c" if "map_of (blocks c) pc = Some b" for b
    using map_of_SomeD [OF that] assms(1) by (auto simp: cache_inv_def list_all_iff)
  show "cache_inv (cache_update f pc c)"
    using assms in_set by (auto simp: cache_update_def intro!: cache_inv_update split: option.split)
  show "live (cache_update f pc c) = live c"
    using assms(3,4) by (intro ext) (auto simp: cache_update_def live_def update_conv' split: option.split)
qed

subsection \<open>The cache refines a map\<close>

text \<open>A cache may lose entries but never invents one: a run of operations leaves it below the map that the
  same operations build.  \<open>cost\<close> counts what an operation uses up of a bounded resource, here the
  generation counter.\<close>

locale lossy_refinement =
  fixes apply_ev :: "'e \<Rightarrow> 'c \<Rightarrow> 'c" and spec_ev :: "'e \<Rightarrow> ('k \<rightharpoonup> 'v) \<Rightarrow> 'k \<rightharpoonup> 'v"
    and view :: "'c \<Rightarrow> 'k \<rightharpoonup> 'v" and cost :: "'e \<Rightarrow> nat" and inv :: "nat \<Rightarrow> 'c \<Rightarrow> bool"
  assumes step_inv: "inv (cost e + k) c \<Longrightarrow> inv k (apply_ev e c)"
    and step_view: "inv (cost e + k) c \<Longrightarrow> view (apply_ev e c) \<subseteq>\<^sub>m spec_ev e (view c)"
    and spec_mono: "m \<subseteq>\<^sub>m m' \<Longrightarrow> spec_ev e m \<subseteq>\<^sub>m spec_ev e m'"
begin

lemma run_refines:
  "inv (sum_list (map cost es) + k) c \<Longrightarrow> view c \<subseteq>\<^sub>m m \<Longrightarrow>
    inv k (fold apply_ev es c) \<and> view (fold apply_ev es c) \<subseteq>\<^sub>m fold spec_ev es m"
proof (induction es arbitrary: c m)
  case (Cons e es)
  then have i: "inv (cost e + (sum_list (map cost es) + k)) c" by (simp add: add.assoc)
  have "view (apply_ev e c) \<subseteq>\<^sub>m spec_ev e m"
    using step_view [OF i] spec_mono [OF Cons.prems(2)] map_le_trans by blast
  then show ?case using Cons.IH [OF step_inv [OF i]] by simp
qed simp

end

datatype cache_event =
  CacheInsert block | CacheFlush | CacheInvalidate u64 u64 | CacheLookup u64 | CacheCount u64 | CacheClear

text \<open>The operations as the CPU and the emulator use them: a block is compiled for the current generation, and
  \<open>get_mut\<close> is used to count an execution.\<close>

primrec cache_apply :: "(u64 list \<Rightarrow> u64 list) \<Rightarrow> cache_event \<Rightarrow> block_cache \<Rightarrow> block_cache" where
  "cache_apply iter (CacheInsert blk) c = cache_insert iter (blk\<lparr> generation := cache_generation c \<rparr>) c"
| "cache_apply iter CacheFlush c = cache_flush c"
| "cache_apply iter (CacheInvalidate a z) c = invalidate_range a z c"
| "cache_apply iter (CacheLookup pc) c = snd (cache_get pc c)"
| "cache_apply iter (CacheCount pc) c = cache_update count_exec pc c"
| "cache_apply iter CacheClear c = cache_clear c"

definition overlaps :: "u64 \<Rightarrow> u64 \<Rightarrow> block \<Rightarrow> bool" where
  "overlaps a z blk \<longleftrightarrow> start_pa blk < z \<and> start_pa blk + ucast (byte_len blk) > a"

primrec map_apply :: "cache_event \<Rightarrow> (u64 \<rightharpoonup> block) \<Rightarrow> u64 \<rightharpoonup> block" where
  "map_apply (CacheInsert blk) m = m(start_pc blk \<mapsto> code_of blk)"
| "map_apply CacheFlush m = Map.empty"
| "map_apply (CacheInvalidate a z) m = (\<lambda>pc. case m pc of Some blk \<Rightarrow> if overlaps a z blk then None else Some blk | None \<Rightarrow> None)"
| "map_apply (CacheLookup pc) m = m"
| "map_apply (CacheCount pc) m = m"
| "map_apply CacheClear m = Map.empty"

primrec flush_cost :: "cache_event \<Rightarrow> nat" where
  "flush_cost (CacheInsert _) = 0"
| "flush_cost CacheFlush = 1"
| "flush_cost (CacheInvalidate _ _) = 0"
| "flush_cost (CacheLookup _) = 0"
| "flush_cost (CacheCount _) = 0"
| "flush_cost CacheClear = 0"

definition flushes_left :: "nat \<Rightarrow> block_cache \<Rightarrow> bool" where
  "flushes_left k c \<longleftrightarrow> cache_inv c \<and> unat (cache_generation c) + k < 2 ^ 32"

lemma invalidate_range_spec:
  assumes "cache_inv c"
  shows "live (invalidate_range a z c) \<subseteq>\<^sub>m map_apply (CacheInvalidate a z) (live c)"
  unfolding map_le_def
proof
  fix pc assume "pc \<in> dom (live (invalidate_range a z c))"
  then obtain m where m: "live (invalidate_range a z c) pc = Some m" by auto
  moreover have "live c pc = Some m" "\<not> overlaps a z m"
    using m invalidate_range_inv(2) [OF assms, of a z] invalidate_range_live [OF assms m]
    by (simp_all add: map_le_def dom_def overlaps_def)
  ultimately show "live (invalidate_range a z c) pc = map_apply (CacheInvalidate a z) (live c) pc" by simp
qed

lemma count_exec_simps [simp]:
  "start_pc (count_exec b) = start_pc b" "generation (count_exec b) = generation b" "code_of (count_exec b) = code_of b"
  "blk_ops (count_exec b) = blk_ops b" "blk_len (count_exec b) = blk_len b" "byte_len (count_exec b) = byte_len b"
  by (simp_all add: count_exec_def)

lemma cache_generation_simps [simp]:
  "cache_generation (cache_insert iter blk c) = cache_generation c"
  "cache_generation (cache_flush c) = cache_generation c + 1"
  "cache_generation (invalidate_range a z c) = cache_generation c"
  "cache_generation (snd (cache_get pc c)) = cache_generation c"
  "cache_generation (cache_update f pc c) = cache_generation c"
  by (simp_all add: cache_insert_alt cache_flush_def invalidate_range_def cache_get_def cache_update_def split: option.split)

lemma unat_max32: "unat (- 1 :: u32) = 0xFFFFFFFF"
  by (simp add: unsigned_minus_1_eq_mask mask_eq_exp_minus_1)

lemma not_max_generation: "unat (g :: u32) + k < 0xFFFFFFFF \<Longrightarrow> g \<noteq> - 1"
  using unat_max32 by auto

lemma block_cache_new_inv [simp]: "cache_inv block_cache_new" "live block_cache_new = Map.empty"
    "cache_generation block_cache_new = 0"
  by (simp_all add: cache_inv_def live_def block_cache_new_def fun_eq_iff)

lemma cache_apply_inv:
  assumes "flushes_left (flush_cost e + k) c"
  shows "flushes_left k (cache_apply iter e c)"
proof (cases e)
  case CacheFlush
  with assms have "cache_generation c \<noteq> - 1" "unat (cache_generation c + 1) = unat (cache_generation c) + 1"
    using not_max_generation [of "cache_generation c" k] by (simp_all add: flushes_left_def unat_word_ariths)
  then show ?thesis using assms CacheFlush by (simp add: flushes_left_def cache_flush_inv)
qed (use assms in \<open>simp_all add: flushes_left_def cache_insert_inv invalidate_range_inv cache_get_keeps cache_update_inv cache_clear_def\<close>)

lemma cache_apply_view:
  assumes "flushes_left (flush_cost e + k) c"
  shows "live (cache_apply iter e c) \<subseteq>\<^sub>m map_apply e (live c)"
proof (cases e)
  case (CacheInsert blk)
  with assms show ?thesis
    using cache_insert_live(1) [of c "blk\<lparr> generation := cache_generation c \<rparr>" iter] by (simp add: flushes_left_def)
next
  case CacheFlush
  with assms have "cache_generation c \<noteq> - 1"
    using not_max_generation [of "cache_generation c" k] by (simp add: flushes_left_def)
  with assms CacheFlush show ?thesis by (simp add: flushes_left_def cache_flush_inv)
next
  case (CacheInvalidate a z)
  with assms show ?thesis using invalidate_range_spec [of c a z] by (simp add: flushes_left_def)
qed (use assms in \<open>simp_all add: flushes_left_def cache_get_keeps cache_update_inv cache_clear_def\<close>)

lemma map_apply_mono: "m \<subseteq>\<^sub>m m' \<Longrightarrow> map_apply e m \<subseteq>\<^sub>m map_apply e m'"
  by (cases e) (auto simp: map_le_def dom_def split: option.splits)

interpretation bc: lossy_refinement "cache_apply iter" map_apply live flush_cost flushes_left for iter
  by unfold_locales (simp_all only: cache_apply_inv cache_apply_view map_apply_mono)

text \<open>C11: The block cache refines a map from addresses to compiled code.  After any sequence of inserts,
  flushes, range invalidations, lookups and execution counts from an empty cache, with fewer than \<open>2 ^ 32\<close>
  flushes, a lookup returns nothing or exactly the block last inserted for the address that no later
  flush, invalidation or clear removed: eviction loses blocks but no lookup returns a stale one.\<close>

theorem block_cache_refines_map:
  assumes "sum_list (map flush_cost es) < 2 ^ 32"
    and "fst (cache_get pc (fold (cache_apply iter) es block_cache_new)) = Some blk"
  shows "fold map_apply es Map.empty pc = Some (code_of blk)"
proof -
  have "flushes_left (sum_list (map flush_cost es) + 0) block_cache_new"
    using assms(1) by (simp add: flushes_left_def)
  from bc.run_refines [OF this, of Map.empty iter]
  have "live (fold (cache_apply iter) es block_cache_new) \<subseteq>\<^sub>m fold map_apply es Map.empty" by simp
  moreover have "live (fold (cache_apply iter) es block_cache_new) pc = Some (code_of blk)"
    using assms(2) cache_get_live [of pc "fold (cache_apply iter) es block_cache_new"] by simp
  ultimately show ?thesis by (auto simp: map_le_def dom_def)
qed

theorem block_cache_refines_map_witness:
  "fold map_apply [CacheInsert (block_new 0x80000000 0x80000000 0), CacheFlush,
      CacheInsert (block_new 0x80000000 0x80001000 0)] Map.empty 0x80000000
    = Some (code_of (block_new 0x80000000 0x80001000 1))"
  by (rule block_cache_refines_map [where iter = id])
    (simp_all add: cache_get_def cache_insert_def cache_flush_def block_cache_new_def block_new_def)

text \<open>The capacity: an insert that finds the cache full removes at least one block, and so stays within the
  capacity, if some block is cold or older than the previous generation.\<close>

lemma cold_keys_sub: "set (cold_keys bs th ks acc) \<subseteq> set acc \<union> set ks"
  by (induction bs th ks acc rule: cold_keys.induct) (auto simp: Let_def split: option.splits)

lemma cold_keys_acc: "set acc \<subseteq> set (cold_keys bs th ks acc)"
  by (induction bs th ks acc rule: cold_keys.induct) (auto simp: Let_def split: option.splits)

lemma cold_keys_found:
  assumes "k \<in> set ks" "map_of bs k = Some b" "exec_count b < 10"
  shows "cold_keys bs th ks acc \<noteq> []"
  using assms
proof (induction bs th ks acc rule: cold_keys.induct)
  case (2 bs th pc pcs acc)
  have ne: "cold_keys bs th pcs (acc @ [pc]) \<noteq> []" using cold_keys_acc [of "acc @ [pc]" bs th pcs] by force
  show ?case
    using 2 ne by (auto simp: Let_def split: option.splits if_splits)
qed simp

lemma evict_cold_shrinks:
  assumes "cache_inv c" "set (iter (map fst (blocks c))) = set (map fst (blocks c))"
    and "(pc, b) \<in> set (blocks c)" "exec_count b < 10 \<or> generation b < cache_generation c - 1"
    and "length (blocks c) = BLOCK_CACHE_SIZE"
  shows "length (blocks (evict_cold iter c)) < BLOCK_CACHE_SIZE"
proof -
  define cold where "cold = cold_keys (blocks c) (length (blocks c) div 4) (iter (map fst (blocks c))) []"
  define bs where "bs = fold AList.delete cold (blocks c)"
  have len: "length (blocks (evict_cold iter c)) =
      (if length bs \<ge> BLOCK_CACHE_SIZE then length (filter (\<lambda>(_, blk). generation blk \<ge> cache_generation c - 1) bs)
       else length bs)"
    by (simp add: evict_cold_def Let_def cold_def [symmetric] bs_def [symmetric])
  have le: "length bs \<le> BLOCK_CACHE_SIZE" using assms(5) length_fold_delete [of cold "blocks c"] by (simp add: bs_def)
  show ?thesis
  proof (cases "cold = []")
    case True
    then have "bs = blocks c" by (simp add: bs_def)
    moreover have "\<not> exec_count b < 10"
    proof
      assume "exec_count b < 10"
      moreover have "map_of (blocks c) pc = Some b" using assms(1,3) by (simp add: cache_inv_def)
      moreover have "pc \<in> set (iter (map fst (blocks c)))" using assms(2,3) by force
      ultimately show False using cold_keys_found True by (simp add: cold_def)
    qed
    ultimately have "length (filter (\<lambda>(_, blk). generation blk \<ge> cache_generation c - 1) bs) < length bs"
      using assms(3,4) by (intro length_filter_less [where x = "(pc, b)"]) auto
    then show ?thesis using len le by simp
  next
    case False
    then obtain k where k: "k \<in> set cold" by (cases cold) auto
    then have "k \<in> fst ` set (blocks c)" using cold_keys_sub assms(2) by (fastforce simp: cold_def)
    then have "length bs < BLOCK_CACHE_SIZE" using length_fold_delete_less [OF k, of "blocks c"] assms(5) by (simp add: bs_def)
    then show ?thesis using len by simp
  qed
qed

lemma length_update: "length (AList.update k v xs) \<le> Suc (length xs)"
  by (induction xs) auto

text \<open>An insert keeps the block cache within its 4096 entries, whatever the iteration order of the hash map,
  provided that a full cache holds a block executed fewer than 10 times or older than the previous
  generation.\<close>

theorem cache_insert_capacity:
  assumes "cache_inv c" "length (blocks c) \<le> BLOCK_CACHE_SIZE"
    and "\<And>ks. mset (iter ks) = mset ks"
    and "length (blocks c) = BLOCK_CACHE_SIZE \<Longrightarrow>
      \<exists>(pc, b) \<in> set (blocks c). exec_count b < 10 \<or> generation b < cache_generation c - 1"
  shows "length (blocks (cache_insert iter blk c)) \<le> BLOCK_CACHE_SIZE"
proof (cases "length (blocks c) = BLOCK_CACHE_SIZE")
  case True
  then obtain pc b where b: "(pc, b) \<in> set (blocks c)" "exec_count b < 10 \<or> generation b < cache_generation c - 1"
    using assms(4) by fastforce
  have "set (iter (map fst (blocks c))) = set (map fst (blocks c))" using assms(3) by (rule mset_eq_setD)
  from evict_cold_shrinks [of c iter pc b, OF assms(1) this b True] show ?thesis
    using True length_update [of "start_pc blk" blk "blocks (evict_cold iter c)"]
    by (simp add: cache_insert_def Let_def)
next
  case False
  then show ?thesis
    using assms(2) length_update [of "start_pc blk" blk "blocks c"] by (simp add: cache_insert_def Let_def)
qed

lemma full_cache_inv:
  "cache_inv (block_cache_new\<lparr> blocks := map (\<lambda>n. (word_of_nat n, block_new (word_of_nat n) 0 0)) [0..<4096] \<rparr>)"
proof -
  have "inj_on (word_of_nat :: nat \<Rightarrow> u64) {0..<4096}"
    by (rule inj_onI) (simp add: of_nat_eq_iff word_of_nat_eq_iff take_bit_nat_eq_self)
  then show ?thesis by (simp add: cache_inv_def block_cache_new_def comp_def distinct_map list_all_iff block_new_def)
qed

theorem cache_insert_capacity_witness:
  "length (blocks (cache_insert rev (block_new 0x80000000 0 0)
     (block_cache_new\<lparr> blocks := map (\<lambda>n. (word_of_nat n, block_new (word_of_nat n) 0 0)) [0..<4096] \<rparr>))) \<le> BLOCK_CACHE_SIZE"
  by (rule cache_insert_capacity [OF full_cache_inv])
    (auto simp: block_new_def block_cache_new_def intro!: exI [of _ "0 :: nat"])

text \<open>Without such a block nothing is evicted: a full cache of hot blocks of the current generation grows
  with every insert at a new address.\<close>

lemma cold_keys_none: "\<forall>b. b \<in> snd ` set bs \<longrightarrow> \<not> exec_count b < 10 \<Longrightarrow> cold_keys bs th ks acc = acc"
  by (induction bs th ks acc rule: cold_keys.induct) (auto split: option.splits dest!: map_of_SomeD)

lemma cache_insert_over_capacity:
  assumes "length (blocks c) = BLOCK_CACHE_SIZE" "cache_generation c \<noteq> 0"
    and "\<And>pc b. (pc, b) \<in> set (blocks c) \<Longrightarrow> exec_count b \<ge> 10 \<and> generation b = cache_generation c"
    and "start_pc blk \<notin> fst ` set (blocks c)"
  shows "length (blocks (cache_insert iter blk c)) = BLOCK_CACHE_SIZE + 1"
proof -
  have cold: "cold_keys (blocks c) th ks [] = []" for th ks
    using assms(3) by (intro cold_keys_none) (auto simp: not_less)
  have "cache_generation c - 1 \<le> cache_generation c"
    using assms(2) by (simp add: word_le_nat_alt unat_minus_one)
  then have "filter (\<lambda>(_, blk). generation blk \<ge> cache_generation c - 1) (blocks c) = blocks c"
    using assms(3) by (intro filter_True) fastforce
  then have "blocks (evict_cold iter c) = blocks c" by (simp add: evict_cold_def Let_def cold)
  moreover have "length (AList.update k v xs) = Suc (length xs)" if "k \<notin> fst ` set xs" for k v and xs :: "(u64 \<times> block) list"
    using that by (induction xs) auto
  ultimately show ?thesis using assms(1,4) by (simp add: cache_insert_def Let_def)
qed

end
