(* ===== verification/Rv_Clint.thy ===== *)
theory Rv_Clint
  imports Rv_Types
begin

text \<open>
  The core-local interruptor (\<^verbatim>\<open>riscv-vm/src/devices/clint.rs\<close>): the machine timer and, per hart, the
  software-interrupt and timer-compare registers.  Atomics are plain fields: each method is one
  atomic step, and the compare-exchange loops of the 32-bit timer-compare writes are the update
  they retry until it succeeds.  Per-hart arrays are functions on the hart index.
\<close>

unbundle bit_operations_syntax

abbreviation CLINT_BASE :: u64 where "CLINT_BASE \<equiv> 0x02000000"
abbreviation CLINT_SIZE :: u64 where "CLINT_SIZE \<equiv> 0x10000"
abbreviation (input) MSIP_OFFSET :: u64 where "MSIP_OFFSET \<equiv> 0x0000"
abbreviation (input) MTIME_OFFSET :: u64 where "MTIME_OFFSET \<equiv> 0xbff8"
abbreviation (input) MTIMECMP_OFFSET :: u64 where "MTIMECMP_OFFSET \<equiv> 0x4000"
abbreviation (input) HART_COUNT_OFFSET :: u64 where "HART_COUNT_OFFSET \<equiv> 0x0F00"
definition MAX_HARTS :: nat where "MAX_HARTS = 128"
abbreviation (input) MTIME_INCREMENT :: u64 where "MTIME_INCREMENT \<equiv> 256"

lemmas clint_consts =
  MAX_HARTS_def

record clint =
  mtime :: u64
  msip :: "nat \<Rightarrow> u32"
  mtimecmp :: "nat \<Rightarrow> u64"
  num_harts :: nat

subsection \<open>Operations\<close>

definition clint_with_harts :: "nat \<Rightarrow> clint" where
  "clint_with_harts n = \<lparr> mtime = 0, msip = (\<lambda>_. 0), mtimecmp = (\<lambda>_. - 1), num_harts = min n MAX_HARTS \<rparr>"

definition clint_new :: clint where
  "clint_new = clint_with_harts 1"

definition set_num_harts :: "nat \<Rightarrow> clint \<Rightarrow> clint" where
  "set_num_harts n c = c\<lparr> num_harts := min n MAX_HARTS \<rparr>"

definition set_mtime :: "u64 \<Rightarrow> clint \<Rightarrow> clint" where
  "set_mtime v c = c\<lparr> mtime := v \<rparr>"

definition tick :: "clint \<Rightarrow> clint" where
  "tick c = c\<lparr> mtime := mtime c + MTIME_INCREMENT \<rparr>"

definition get_msip :: "clint \<Rightarrow> nat \<Rightarrow> u32" where
  "get_msip c hart = (if hart < MAX_HARTS then msip c hart else 0)"

definition set_msip :: "nat \<Rightarrow> u32 \<Rightarrow> clint \<Rightarrow> clint" where
  "set_msip hart v c =
     (if hart < MAX_HARTS then c\<lparr> msip := (msip c)(hart := v AND 1) \<rparr> else c)"

definition get_mtimecmp :: "clint \<Rightarrow> nat \<Rightarrow> u64" where
  "get_mtimecmp c hart = (if hart < MAX_HARTS then mtimecmp c hart else - 1)"

definition set_mtimecmp :: "nat \<Rightarrow> u64 \<Rightarrow> clint \<Rightarrow> clint" where
  "set_mtimecmp hart v c =
     (if hart < MAX_HARTS then c\<lparr> mtimecmp := (mtimecmp c)(hart := v) \<rparr> else c)"

definition get_mtimecmp_low :: "clint \<Rightarrow> nat \<Rightarrow> u32" where
  "get_mtimecmp_low c hart =
     (if hart < MAX_HARTS then low32 (mtimecmp c hart AND 0xFFFFFFFF) else - 1)"

definition get_mtimecmp_high :: "clint \<Rightarrow> nat \<Rightarrow> u32" where
  "get_mtimecmp_high c hart =
     (if hart < MAX_HARTS then low32 (shr (mtimecmp c hart) 32) else - 1)"

definition set_mtimecmp_low :: "nat \<Rightarrow> u32 \<Rightarrow> clint \<Rightarrow> clint" where
  "set_mtimecmp_low hart v c =
     (if hart \<ge> MAX_HARTS then c
      else let current = mtimecmp c hart;
               new = (current AND 0xFFFFFFFF00000000) OR zext32 v
           in c\<lparr> mtimecmp := (mtimecmp c)(hart := new) \<rparr>)"

definition set_mtimecmp_high :: "nat \<Rightarrow> u32 \<Rightarrow> clint \<Rightarrow> clint" where
  "set_mtimecmp_high hart v c =
     (if hart \<ge> MAX_HARTS then c
      else let current = mtimecmp c hart;
               new = (current AND 0x00000000FFFFFFFF) OR shl (zext32 v) 32
           in c\<lparr> mtimecmp := (mtimecmp c)(hart := new) \<rparr>)"

definition is_timer_pending :: "clint \<Rightarrow> nat \<Rightarrow> bool" where
  "is_timer_pending c hart = (hart < MAX_HARTS \<and> mtime c \<ge> mtimecmp c hart)"

definition is_msip_pending :: "clint \<Rightarrow> nat \<Rightarrow> bool" where
  "is_msip_pending c hart = (hart < MAX_HARTS \<and> msip c hart AND 1 \<noteq> 0)"

definition clint_check_interrupts :: "clint \<Rightarrow> nat \<Rightarrow> bool \<times> bool" where
  "clint_check_interrupts c hart =
     (if hart \<ge> MAX_HARTS then (False, False)
      else (msip c hart AND 1 \<noteq> 0, mtime c \<ge> mtimecmp c hart))"

definition clint_load :: "clint \<Rightarrow> u64 \<Rightarrow> u64 \<Rightarrow> u64" where
  "clint_load c off sz =
     (if off = MTIME_OFFSET \<and> sz = 8 then mtime c
      else if off = MTIME_OFFSET \<and> sz = 4 then mtime c AND 0xFFFFFFFF
      else if off = MTIME_OFFSET + 4 \<and> sz = 4 then shr (mtime c) 32
      else if sz = 4 \<and> off \<ge> MSIP_OFFSET \<and> off < MSIP_OFFSET + word_of_nat MAX_HARTS * 4 then
        (let hart_idx = unat ((off - MSIP_OFFSET) div 4)
         in if hart_idx < MAX_HARTS then zext32 (msip c hart_idx) else 0)
      else if sz = 8 \<and> off \<ge> MTIMECMP_OFFSET \<and> off < MTIMECMP_OFFSET + word_of_nat MAX_HARTS * 8 then
        (let hart_idx = unat ((off - MTIMECMP_OFFSET) div 8)
         in if hart_idx < MAX_HARTS then mtimecmp c hart_idx else - 1)
      else if sz = 4 \<and> off \<ge> MTIMECMP_OFFSET \<and> off < MTIMECMP_OFFSET + word_of_nat MAX_HARTS * 8 then
        (let hart_idx = unat ((off - MTIMECMP_OFFSET) div 8);
             sub_offset = (off - MTIMECMP_OFFSET) mod 8
         in if hart_idx \<ge> MAX_HARTS then 0
            else if sub_offset = 0 then mtimecmp c hart_idx AND 0xFFFFFFFF
            else if sub_offset = 4 then shr (mtimecmp c hart_idx) 32
            else 0)
      else if off = HART_COUNT_OFFSET \<and> (sz = 4 \<or> sz = 8) then word_of_nat (num_harts c)
      else 0)"

definition clint_store :: "u64 \<Rightarrow> u64 \<Rightarrow> u64 \<Rightarrow> clint \<Rightarrow> clint" where
  "clint_store off sz v c =
     (if sz = 4 \<and> off \<ge> MSIP_OFFSET \<and> off < MSIP_OFFSET + word_of_nat MAX_HARTS * 4 then
        (let hart_idx = unat ((off - MSIP_OFFSET) div 4)
         in if hart_idx < MAX_HARTS
            then c\<lparr> msip := (msip c)(hart_idx := low32 (v AND 1)) \<rparr> else c)
      else if off = MTIME_OFFSET then c
      else if off = MTIME_OFFSET + 4 \<and> sz = 4 then c
      else if sz = 8 \<and> off \<ge> MTIMECMP_OFFSET \<and> off < MTIMECMP_OFFSET + word_of_nat MAX_HARTS * 8 then
        (let hart_idx = unat ((off - MTIMECMP_OFFSET) div 8)
         in if hart_idx < MAX_HARTS
            then c\<lparr> mtimecmp := (mtimecmp c)(hart_idx := v) \<rparr> else c)
      else if sz = 4 \<and> off \<ge> MTIMECMP_OFFSET \<and> off < MTIMECMP_OFFSET + word_of_nat MAX_HARTS * 8 then
        (let hart_idx = unat ((off - MTIMECMP_OFFSET) div 8);
             sub_offset = (off - MTIMECMP_OFFSET) mod 8
         in if hart_idx \<ge> MAX_HARTS then c
            else if sub_offset = 0 then set_mtimecmp_low hart_idx (low32 v) c
            else if sub_offset = 4 then set_mtimecmp_high hart_idx (low32 v) c
            else c)
      else c)"

text \<open>Snapshot arrays: a slice shorter than the array resets the remaining slots.\<close>

definition get_msip_array :: "clint \<Rightarrow> u32 list" where
  "get_msip_array c = map (msip c) [0..<MAX_HARTS]"

definition get_mtimecmp_array :: "clint \<Rightarrow> u64 list" where
  "get_mtimecmp_array c = map (mtimecmp c) [0..<MAX_HARTS]"

definition set_msip_array :: "u32 list \<Rightarrow> clint \<Rightarrow> clint" where
  "set_msip_array vs c =
     (let len = min (length vs) MAX_HARTS
      in c\<lparr> msip := (\<lambda>i. if i < len then vs ! i else if i < MAX_HARTS then 0 else msip c i) \<rparr>)"

definition set_mtimecmp_array :: "u64 list \<Rightarrow> clint \<Rightarrow> clint" where
  "set_mtimecmp_array vs c =
     (let len = min (length vs) MAX_HARTS
      in c\<lparr> mtimecmp := (\<lambda>i. if i < len then vs ! i else if i < MAX_HARTS then - 1 else mtimecmp c i) \<rparr>)"

subsection \<open>Register map\<close>

text \<open>The offsets of a hart's registers.\<close>

definition mtimecmp_off :: "nat \<Rightarrow> u64" where
  "mtimecmp_off h = MTIMECMP_OFFSET + 8 * word_of_nat h"

definition msip_off :: "nat \<Rightarrow> u64" where
  "msip_off h = MSIP_OFFSET + 4 * word_of_nat h"

lemma unat_small: "n < 2 ^ 64 \<Longrightarrow> unat (word_of_nat n :: u64) = n"
  by (simp add: unat_of_nat take_bit_nat_eq_self)

lemma unat_offs:
  assumes "h < 128" "d < 8"
  shows "unat (mtimecmp_off h + word_of_nat d) = 0x4000 + 8 * h + d" "unat (msip_off h) = 4 * h"
  using assms by (simp_all add: mtimecmp_off_def msip_off_def clint_consts unat_word_ariths unat_of_nat
      take_bit_eq_mod)

lemma reg_index:
  assumes "h < 128" "d < 8"
  shows "(msip_off h - MSIP_OFFSET) div 4 = word_of_nat h"
    "(mtimecmp_off h + word_of_nat d - MTIMECMP_OFFSET) div 8 = word_of_nat h"
    "(mtimecmp_off h + word_of_nat d - MTIMECMP_OFFSET) mod 8 = word_of_nat d"
proof -
  have u: "unat (8 * word_of_nat h + word_of_nat d :: u64) = 8 * h + d" "unat (4 * word_of_nat h :: u64) = 4 * h"
    using assms by (simp_all add: unat_word_ariths unat_of_nat take_bit_eq_mod)
  have n: "unat (word_of_nat h :: u64) = h" "unat (word_of_nat d :: u64) = d"
    using assms by (simp_all add: unat_small)
  have "(4 * word_of_nat h) div 4 = (word_of_nat h :: u64)"
    "(8 * word_of_nat h + word_of_nat d) div 8 = (word_of_nat h :: u64)"
    "(8 * word_of_nat h + word_of_nat d) mod 8 = (word_of_nat d :: u64)"
    using assms(2) u n by (auto simp flip: unat_inj_iff simp: unat_div unat_mod)
  then show "(msip_off h - MSIP_OFFSET) div 4 = word_of_nat h"
    "(mtimecmp_off h + word_of_nat d - MTIMECMP_OFFSET) div 8 = word_of_nat h"
    "(mtimecmp_off h + word_of_nat d - MTIMECMP_OFFSET) mod 8 = word_of_nat d"
    by (simp_all add: msip_off_def mtimecmp_off_def)
qed

lemma off_ranges:
  assumes "h < 128" "d < 8"
  defines "off \<equiv> mtimecmp_off h + word_of_nat d"
  shows "MTIMECMP_OFFSET \<le> off" "off < MTIMECMP_OFFSET + word_of_nat MAX_HARTS * 8"
    "\<not> off < MSIP_OFFSET + word_of_nat MAX_HARTS * 4" "off \<noteq> MTIME_OFFSET" "off \<noteq> MTIME_OFFSET + 4"
    "MSIP_OFFSET \<le> msip_off h" "msip_off h < MSIP_OFFSET + word_of_nat MAX_HARTS * 4"
    "msip_off h \<noteq> MTIME_OFFSET" "msip_off h \<noteq> MTIME_OFFSET + 4"
  using unat_offs [OF assms(1,2)] assms(1,2) unfolding off_def
  by (auto simp: word_le_nat_alt word_less_nat_alt clint_consts simp flip: unat_inj_iff)

text \<open>The effect of a store to a hart's registers, and of the matching loads.\<close>

lemma clint_store_hart:
  assumes "h < MAX_HARTS"
  shows "clint_store (mtimecmp_off h) 8 v c = set_mtimecmp h v c"
    "clint_store (mtimecmp_off h) 4 v c = set_mtimecmp_low h (low32 v) c"
    "clint_store (mtimecmp_off h + 4) 4 v c = set_mtimecmp_high h (low32 v) c"
    "clint_store (msip_off h) 4 v c = set_msip h (low32 v) c"
proof -
  have h: "h < 128" using assms by (simp add: MAX_HARTS_def)
  note facts = off_ranges [OF h, of 0] off_ranges [OF h, of 4] reg_index [OF h, of 0] reg_index [OF h, of 4]
    unat_small [of h]
  have "low32 (v AND 1) = low32 v AND 1"
    by (rule bit_word_eqI) (auto simp: bitx)
  then show "clint_store (mtimecmp_off h) 8 v c = set_mtimecmp h v c"
    "clint_store (mtimecmp_off h) 4 v c = set_mtimecmp_low h (low32 v) c"
    "clint_store (mtimecmp_off h + 4) 4 v c = set_mtimecmp_high h (low32 v) c"
    "clint_store (msip_off h) 4 v c = set_msip h (low32 v) c"
    using facts h assms by (simp_all add: clint_store_def set_mtimecmp_def set_msip_def)
qed

lemma clint_load_hart:
  assumes "h < MAX_HARTS"
  shows "clint_load c (mtimecmp_off h) 8 = mtimecmp c h"
    "clint_load c (mtimecmp_off h) 4 = mtimecmp c h AND 0xFFFFFFFF"
    "clint_load c (mtimecmp_off h + 4) 4 = shr (mtimecmp c h) 32"
    "clint_load c (msip_off h) 4 = zext32 (msip c h)"
proof -
  have h: "h < 128" using assms by (simp add: MAX_HARTS_def)
  note facts = off_ranges [OF h, of 0] off_ranges [OF h, of 4] reg_index [OF h, of 0] reg_index [OF h, of 4]
    unat_small [of h]
  show "clint_load c (mtimecmp_off h) 8 = mtimecmp c h"
    "clint_load c (mtimecmp_off h) 4 = mtimecmp c h AND 0xFFFFFFFF"
    "clint_load c (mtimecmp_off h + 4) 4 = shr (mtimecmp c h) 32"
    "clint_load c (msip_off h) 4 = zext32 (msip c h)"
    using facts h assms by (simp_all add: clint_load_def)
qed

subsection \<open>Properties\<close>

lemma split_word:
  fixes lo hi cur :: u64
  shows "(((cur AND 0xFFFFFFFF00000000) OR zext32 (low32 lo)) AND 0xFFFFFFFF) OR shl (zext32 (low32 hi)) 32
      = shl hi 32 OR (lo AND 0xFFFFFFFF)"
    "(((cur AND 0xFFFFFFFF) OR shl (zext32 (low32 hi)) 32) AND 0xFFFFFFFF00000000) OR zext32 (low32 lo)
      = shl hi 32 OR (lo AND 0xFFFFFFFF)"
  by (rule bit_word_eqI, unfold bitx, auto)+

text \<open>Two 32-bit writes to the halves of a hart's timer-compare register, in either order, are one
  64-bit write of the combined value, which a 64-bit read returns.\<close>

theorem mtimecmp_split_write:
  assumes "h < MAX_HARTS"
  defines "off \<equiv> mtimecmp_off h"
  shows "clint_store (off + 4) 4 hi (clint_store off 4 lo c) = clint_store off 8 (shl hi 32 OR (lo AND 0xFFFFFFFF)) c
    \<and> clint_store off 4 lo (clint_store (off + 4) 4 hi c) = clint_store off 8 (shl hi 32 OR (lo AND 0xFFFFFFFF)) c
    \<and> clint_load (clint_store off 8 (shl hi 32 OR (lo AND 0xFFFFFFFF)) c) off 8 = shl hi 32 OR (lo AND 0xFFFFFFFF)"
  using assms(1) split_word unfolding off_def clint_store_hart [OF assms(1)] clint_load_hart [OF assms(1)]
  by (simp add: set_mtimecmp_low_def set_mtimecmp_high_def set_mtimecmp_def not_le Let_def)

theorem mtimecmp_split_write_witness:
  "clint_load (clint_store (mtimecmp_off 1 + 4) 4 2 (clint_store (mtimecmp_off 1) 4 7 clint_new)) (mtimecmp_off 1) 8
     = 0x200000007"
  using mtimecmp_split_write [of 1 2 7 clint_new] by (simp add: MAX_HARTS_def)

text \<open>A write to a hart's software-interrupt register raises or clears exactly that hart's
  machine software interrupt, by bit 0 of the value; it leaves every timer interrupt and every other
  hart alone, and no register write moves the timer.\<close>

theorem msip_write_interrupts:
  assumes "h < MAX_HARTS" "h' < MAX_HARTS"
  shows "clint_check_interrupts (clint_store (msip_off h) 4 v c) h' =
      (if h' = h then bit v 0 else fst (clint_check_interrupts c h'), snd (clint_check_interrupts c h'))
    \<and> mtime (clint_store off sz w c) = mtime c"
proof -
  have "((low32 v AND 1) AND 1 \<noteq> 0) = bit v 0"
    unfolding and_1_iff bitx by simp
  then show ?thesis
    using assms
    by (auto simp: clint_store_hart clint_check_interrupts_def set_msip_def clint_store_def [of off]
        set_mtimecmp_low_def set_mtimecmp_high_def Let_def)
qed

theorem msip_write_interrupts_witness:
  "clint_check_interrupts (clint_store (msip_off 3) 4 1 clint_new) 3 = (True, False) \<and>
   clint_check_interrupts (clint_store (msip_off 3) 4 1 clint_new) 0 = (False, False)"
proof -
  have "clint_check_interrupts clint_new 0 = (False, False)" "clint_check_interrupts clint_new 3 = (False, False)"
    by code_simp+
  then show ?thesis
    using msip_write_interrupts [of 3 3 1 clint_new] msip_write_interrupts [of 3 0 1 clint_new]
    by (simp add: MAX_HARTS_def)
qed

end
