(* ===== verification/Rv_Cpu.thy ===== *)
theory Rv_Cpu
  imports Rv_Csr Rv_Block_Cache Rv_Clint
begin

text \<open>
  The CPU state, traps, fetch and interrupt selection (\<^verbatim>\<open>riscv-vm/src/cpu/core.rs\<close>).  The registers and the
  decode cache are arrays, hence functions on an index.  A method that takes the CPU and the bus works
  on the pair \<open>machine\<close>.  \<open>handle_trap\<close> always fails with the trap it enters; its result is the failure
  and the new state.  Logging is left out.
\<close>

unbundle bit_operations_syntax

subsection \<open>State\<close>

record cpu =
  regs :: "nat \<Rightarrow> u64"
  cpu_pc :: u64
  reservation :: "u64 option"
  csrs :: csr_file
  cpu_mode :: mode
  cpu_tlb :: tlb
  poll_counter :: u8
  decode_cache :: "nat \<Rightarrow> (u64 \<times> u32 \<times> op) option"
  cpu_block_cache :: block_cache
  use_blocks :: bool

type_synonym 'b machine = "cpu \<times> 'b"

definition csr :: "cpu \<Rightarrow> u16 \<Rightarrow> u64" where
  "csr c a = get_csr (csrs c) a"

definition put_csr :: "u16 \<Rightarrow> u64 \<Rightarrow> cpu \<Rightarrow> cpu" where
  "put_csr a v c = c\<lparr> csrs := set_csr a v (csrs c) \<rparr>"

definition cpu_new :: "u64 \<Rightarrow> u64 \<Rightarrow> cpu" where
  "cpu_new pc hart_id =
     (let f = csr_new;
          f = set_csr CSR_MISA 0x4000000000181125 f;
          f = set_csr CSR_MHARTID hart_id f;
          f = set_csr CSR_MSTATUS 0 f
      in \<lparr> regs = (\<lambda>_. 0), cpu_pc = pc, reservation = None, csrs = f, cpu_mode = Machine, cpu_tlb = tlb_new,
           poll_counter = 0, decode_cache = (\<lambda>_. None), cpu_block_cache = block_cache_new, use_blocks = False \<rparr>)"

definition export_csrs :: "cpu \<Rightarrow> u16 \<rightharpoonup> u64" where
  "export_csrs c = csr_export (csrs c)"

definition import_csrs :: "(u16 \<rightharpoonup> u64) \<Rightarrow> cpu \<Rightarrow> cpu" where
  "import_csrs m c = c\<lparr> csrs := csr_import m (csrs c) \<rparr>"

definition decode_cache_idx :: "u64 \<Rightarrow> nat" where
  "decode_cache_idx pc = unat (pc AND 255)"

definition decode_cache_lookup :: "u64 \<Rightarrow> u32 \<Rightarrow> cpu \<Rightarrow> op option" where
  "decode_cache_lookup pc raw c =
     (case decode_cache c (decode_cache_idx pc) of
        Some (cached_pc, cached_raw, dop) \<Rightarrow> if cached_pc = pc \<and> cached_raw = raw then Some dop else None
      | None \<Rightarrow> None)"

definition decode_cache_insert :: "u64 \<Rightarrow> u32 \<Rightarrow> op \<Rightarrow> cpu \<Rightarrow> cpu" where
  "decode_cache_insert pc raw dop c =
     c\<lparr> decode_cache := (decode_cache c)(decode_cache_idx pc := Some (pc, raw, dop)) \<rparr>"

definition invalidate_decode_cache :: "cpu \<Rightarrow> cpu" where
  "invalidate_decode_cache c = c\<lparr> decode_cache := (\<lambda>_. None) \<rparr>"

definition invalidate_blocks :: "cpu \<Rightarrow> cpu" where
  "invalidate_blocks c = invalidate_decode_cache (c\<lparr> cpu_block_cache := cache_flush (cpu_block_cache c) \<rparr>)"

definition read_reg :: "cpu \<Rightarrow> register \<Rightarrow> u64" where
  "read_reg c r = (if r = X0 then 0 else regs c (to_usize r))"

definition write_reg :: "register \<Rightarrow> u64 \<Rightarrow> cpu \<Rightarrow> cpu" where
  "write_reg r v c = (if r \<noteq> X0 then c\<lparr> regs := (regs c)(to_usize r := v) \<rparr> else c)"

definition reservation_granule :: "u64 \<Rightarrow> u64" where
  "reservation_granule addr = addr AND NOT (64 - 1)"

definition clear_reservation_if_conflict :: "u64 \<Rightarrow> cpu \<Rightarrow> cpu" where
  "clear_reservation_if_conflict addr c =
     (case reservation c of
        Some res \<Rightarrow> if reservation_granule res = reservation_granule addr then c\<lparr> reservation := None \<rparr> else c
      | None \<Rightarrow> c)"

definition cpu_read_csr :: "cpu \<Rightarrow> u16 \<Rightarrow> (u64, trap) result" where
  "cpu_read_csr c addr = csr_read (csrs c) addr (cpu_mode c)"

definition cpu_write_csr :: "u16 \<Rightarrow> u64 \<Rightarrow> cpu \<Rightarrow> (unit, trap) result \<times> cpu" where
  "cpu_write_csr addr v c = (case csr_write addr v (cpu_mode c) (csrs c) of (r, f) \<Rightarrow> (r, c\<lparr> csrs := f \<rparr>))"

subsection \<open>Trap entry\<close>

fun trap_to_cause_tval :: "trap \<Rightarrow> (bool \<times> u64 \<times> u64) option" where
  "trap_to_cause_tval (InstructionAddressMisaligned addr) = Some (False, 0, addr)"
| "trap_to_cause_tval (InstructionAccessFault addr) = Some (False, 1, addr)"
| "trap_to_cause_tval (IllegalInstruction bits) = Some (False, 2, bits)"
| "trap_to_cause_tval Breakpoint = Some (False, 3, 0)"
| "trap_to_cause_tval (LoadAddressMisaligned addr) = Some (False, 4, addr)"
| "trap_to_cause_tval (LoadAccessFault addr) = Some (False, 5, addr)"
| "trap_to_cause_tval (StoreAddressMisaligned addr) = Some (False, 6, addr)"
| "trap_to_cause_tval (StoreAccessFault addr) = Some (False, 7, addr)"
| "trap_to_cause_tval EnvironmentCallFromU = Some (False, 8, 0)"
| "trap_to_cause_tval EnvironmentCallFromS = Some (False, 9, 0)"
| "trap_to_cause_tval EnvironmentCallFromM = Some (False, 11, 0)"
| "trap_to_cause_tval (InstructionPageFault addr) = Some (False, 12, addr)"
| "trap_to_cause_tval (LoadPageFault addr) = Some (False, 13, addr)"
| "trap_to_cause_tval (StorePageFault addr) = Some (False, 15, addr)"
| "trap_to_cause_tval SupervisorSoftwareInterrupt = Some (True, 1, 0)"
| "trap_to_cause_tval MachineSoftwareInterrupt = Some (True, 3, 0)"
| "trap_to_cause_tval SupervisorTimerInterrupt = Some (True, 5, 0)"
| "trap_to_cause_tval MachineTimerInterrupt = Some (True, 7, 0)"
| "trap_to_cause_tval SupervisorExternalInterrupt = Some (True, 9, 0)"
| "trap_to_cause_tval MachineExternalInterrupt = Some (True, 11, 0)"
| "trap_to_cause_tval (RequestedTrap _) = None"
| "trap_to_cause_tval (Fatal _) = None"

definition cause_value :: "bool \<Rightarrow> u64 \<Rightarrow> u64" where
  "cause_value is_interrupt cause = (if is_interrupt then shl 1 63 else 0) OR (cause AND 0x7FFFFFFFFFFFFFFF)"

definition trap_vector :: "u64 \<Rightarrow> bool \<Rightarrow> u64 \<Rightarrow> u64" where
  "trap_vector tvec is_interrupt cause =
     (let b = tvec AND NOT 3 in if is_interrupt \<and> tvec AND 3 = 1 then b + 4 * cause else b)"

definition s_entry_mstatus :: "mode \<Rightarrow> u64 \<Rightarrow> u64" where
  "s_entry_mstatus m mstatus =
     (let sie = shr mstatus 1 AND 1;
          mstatus = (mstatus AND NOT (shl 1 5)) OR shl sie 5;
          mstatus = mstatus AND NOT (shl 1 1);
          spp = (if m = Supervisor then 1 else 0)
      in (mstatus AND NOT (shl 1 8)) OR shl spp 8)"

definition m_entry_mstatus :: "mode \<Rightarrow> u64 \<Rightarrow> u64" where
  "m_entry_mstatus m mstatus =
     (let mie = shr mstatus 3 AND 1;
          mstatus = (mstatus AND NOT (shl 1 7)) OR shl mie 7;
          mstatus = mstatus AND NOT (shl 1 3)
      in (mstatus AND NOT (shl 3 11)) OR shl (to_mpp m) 11)"

definition deleg_to_s :: "cpu \<Rightarrow> bool \<Rightarrow> u64 \<Rightarrow> bool" where
  "deleg_to_s c is_interrupt cause =
     (if cpu_mode c = Machine then False
      else (if is_interrupt then csr c CSR_MIDELEG else csr c CSR_MEDELEG) AND shl 1 (unat cause) \<noteq> 0)"

definition enter_s :: "bool \<Rightarrow> u64 \<Rightarrow> u64 \<Rightarrow> u64 \<Rightarrow> cpu \<Rightarrow> cpu" where
  "enter_s is_interrupt cause tval pc c =
     (let m = cpu_mode c;
          c = put_csr CSR_SEPC pc c;
          c = put_csr CSR_STVAL tval c;
          c = put_csr CSR_SCAUSE (cause_value is_interrupt cause) c;
          c = put_csr CSR_MSTATUS (s_entry_mstatus m (csr c CSR_MSTATUS)) c
      in c\<lparr> cpu_mode := Supervisor, cpu_pc := trap_vector (csr c CSR_STVEC) is_interrupt cause \<rparr>)"

definition enter_m :: "bool \<Rightarrow> u64 \<Rightarrow> u64 \<Rightarrow> u64 \<Rightarrow> cpu \<Rightarrow> cpu" where
  "enter_m is_interrupt cause tval pc c =
     (let m = cpu_mode c;
          c = put_csr CSR_MEPC pc c;
          c = put_csr CSR_MTVAL tval c;
          c = put_csr CSR_MCAUSE (cause_value is_interrupt cause) c;
          c = put_csr CSR_MSTATUS (m_entry_mstatus m (csr c CSR_MSTATUS)) c
      in c\<lparr> cpu_mode := Machine, cpu_pc := trap_vector (csr c CSR_MTVEC) is_interrupt cause \<rparr>)"

definition handle_trap :: "trap \<Rightarrow> u64 \<Rightarrow> cpu \<Rightarrow> ('t, trap) result \<times> cpu" where
  "handle_trap trap pc c =
     (case trap_to_cause_tval trap of
        Some (is_interrupt, cause, tval) \<Rightarrow>
          (Err trap, if deleg_to_s c is_interrupt cause then enter_s is_interrupt cause tval pc c
                     else enter_m is_interrupt cause tval pc c)
      | None \<Rightarrow> (Err trap, c))"

definition trapM :: "trap \<Rightarrow> u64 \<Rightarrow> 'b machine \<Rightarrow> ('t, trap) result \<times> 'b machine" where
  "trapM trap pc s = (case handle_trap trap pc (fst s) of (r, c) \<Rightarrow> (r, c, snd s))"

subsection \<open>Translation and fetch\<close>

definition translate_addr_for_block ::
  "'b bus_ops \<Rightarrow> u64 \<Rightarrow> access_type \<Rightarrow> 'b machine \<Rightarrow> (u64, trap) result \<times> 'b machine" where
  "translate_addr_for_block ops vaddr access s =
     (case s of (c, b) \<Rightarrow>
      case translate ops (cpu_mode c) (csr c CSR_SATP) (csr c CSR_MSTATUS) vaddr access (cpu_tlb c, b) of
        (r, t, b) \<Rightarrow> (r, c\<lparr> cpu_tlb := t \<rparr>, b))"

definition translate_addr ::
  "'b bus_ops \<Rightarrow> u64 \<Rightarrow> access_type \<Rightarrow> u64 \<Rightarrow> 'b machine \<Rightarrow> (u64, trap) result \<times> 'b machine" where
  "translate_addr ops vaddr access pc s =
     (case s of (c, b) \<Rightarrow>
      case translate ops (cpu_mode c) (csr c CSR_SATP) (csr c CSR_MSTATUS) vaddr access (cpu_tlb c, b) of
        (Ok pa, t, b) \<Rightarrow> (Ok pa, c\<lparr> cpu_tlb := t \<rparr>, b)
      | (Err e, t, b) \<Rightarrow> trapM e pc (c\<lparr> cpu_tlb := t \<rparr>, b)
      | (Panic, t, b) \<Rightarrow> (Panic, c\<lparr> cpu_tlb := t \<rparr>, b))"

text \<open>\<open>match bus.op(..) { Ok(v) => .., Err(e) => return self.handle_trap(e, pc, ..) }\<close>.\<close>

definition busM ::
  "('b \<Rightarrow> ('a, trap) result \<times> 'b) \<Rightarrow> u64 \<Rightarrow> 'b machine \<Rightarrow> ('a, trap) result \<times> 'b machine" where
  "busM f pc s = matchS (on_bus f s) (\<lambda>v s. (Ok v, s)) (\<lambda>e s. trapM e pc s) (\<lambda>s. s)"

definition expandM :: "u16 \<Rightarrow> u64 \<Rightarrow> 'b machine \<Rightarrow> (u32 \<times> u8, trap) result \<times> 'b machine" where
  "expandM half pc s =
     matchS (expand_compressed half, s) (\<lambda>insn32 s. (Ok (insn32, 2), s)) (\<lambda>e s. trapM e pc s) (\<lambda>s. s)"

definition fetch_by_halves :: "'b bus_ops \<Rightarrow> u64 \<Rightarrow> 'b machine \<Rightarrow> (u32 \<times> u8, trap) result \<times> 'b machine" where
  "fetch_by_halves ops pc s =
     bindS (translate_addr ops pc Instruction pc s) (\<lambda>pa_low s.
     bindS (matchS (on_bus (bus_read16 ops pa_low) s) (\<lambda>v s. (Ok v, s))
              (\<lambda>e s. trapM (fetch_fault pc e) pc s) (\<lambda>s. s)) (\<lambda>half s.
       if half AND 0x3 \<noteq> 0x3 then expandM half pc s
       else
         bindS (translate_addr ops (pc + 2) Instruction pc s) (\<lambda>pa_hi s.
         bindS (matchS (on_bus (bus_read16 ops pa_hi) s) (\<lambda>v s. (Ok v, s))
                  (\<lambda>e s. trapM (fetch_fault pc e) pc s) (\<lambda>s. s)) (\<lambda>hi s.
           (Ok (ucast half OR shl (ucast hi) 16, 4), s)))))"

definition fetch_and_expand :: "'b bus_ops \<Rightarrow> 'b machine \<Rightarrow> (u32 \<times> u8, trap) result \<times> 'b machine" where
  "fetch_and_expand ops s =
     (let pc = cpu_pc (fst s) in
      if pc mod 2 \<noteq> 0 then trapM (InstructionAddressMisaligned pc) pc s
      else if pc mod 4 = 0 then
        bindS (translate_addr ops pc Instruction pc s) (\<lambda>pa s.
          matchS (on_bus (bus_read32 ops pa) s)
            (\<lambda>word s. if word AND 0x3 \<noteq> 0x3 then expandM (ucast (word AND 0xFFFF)) pc s else (Ok (word, 4), s))
            (\<lambda>_ s. fetch_by_halves ops pc s)
            (\<lambda>s. s))
      else fetch_by_halves ops pc s)"

subsection \<open>Interrupt selection\<close>

definition check_pending_interrupt :: "cpu \<Rightarrow> trap option" where
  "check_pending_interrupt c =
     (let mstatus = csr c CSR_MSTATUS; mip = csr c CSR_MIP; mie = csr c CSR_MIE; mideleg = csr c CSR_MIDELEG;
          sie = mie AND (shl 1 1 OR shl 1 5 OR shl 1 9);
          m_pending = (mip AND mie) AND NOT mideleg;
          s_pending = (mip AND sie) AND mideleg;
          m_enabled = (case cpu_mode c of Machine \<Rightarrow> shr mstatus 3 AND 1 = 1 | _ \<Rightarrow> True);
          s_enabled = (case cpu_mode c of Machine \<Rightarrow> False | Supervisor \<Rightarrow> shr mstatus 1 AND 1 = 1 | User \<Rightarrow> True)
      in if m_enabled \<and> m_pending AND shl 1 11 \<noteq> 0 then Some MachineExternalInterrupt
         else if m_enabled \<and> m_pending AND shl 1 3 \<noteq> 0 then Some MachineSoftwareInterrupt
         else if m_enabled \<and> m_pending AND shl 1 7 \<noteq> 0 then Some MachineTimerInterrupt
         else if s_enabled \<and> s_pending AND shl 1 9 \<noteq> 0 then Some SupervisorExternalInterrupt
         else if s_enabled \<and> s_pending AND shl 1 1 \<noteq> 0 then Some SupervisorSoftwareInterrupt
         else if s_enabled \<and> s_pending AND shl 1 5 \<noteq> 0 then Some SupervisorTimerInterrupt
         else None)"

end
