(* ===== verification/Rv_Exec.thy ===== *)
theory Rv_Exec
  imports Rv_Cpu
begin

text \<open>
  The interpreter (\<^verbatim>\<open>riscv-vm/src/cpu/execution.rs\<close>).  Every arm of the \<open>match\<close> on the decoded operation is a
  definition that returns the address of the next instruction; \<open>step_single_inner\<close> fetches, decodes
  through the decode cache, executes the arm and sets the program counter.  An arm that traps returns
  the trap with the state after trap entry, as \<open>handle_trap\<close> does.  \<open>spin_loop\<close> hints have no effect.
\<close>

unbundle bit_operations_syntax

subsection \<open>Control transfer\<close>

definition illegal :: "u32 \<Rightarrow> u64 \<Rightarrow> 'b machine \<Rightarrow> ('t, trap) result \<times> 'b machine" where
  "illegal insn_raw pc s = trapM (IllegalInstruction (zext32 insn_raw)) pc s"

definition jump_to :: "u64 \<Rightarrow> u64 \<Rightarrow> 'b machine \<Rightarrow> (u64, trap) result \<times> 'b machine" where
  "jump_to next_pc pc s =
     (if next_pc mod 2 \<noteq> 0 then trapM (InstructionAddressMisaligned next_pc) pc s else (Ok next_pc, s))"

definition exec_jal :: "register \<Rightarrow> i64 \<Rightarrow> u64 \<Rightarrow> u8 \<Rightarrow> 'b machine \<Rightarrow> (u64, trap) result \<times> 'b machine" where
  "exec_jal rd imm pc insn_len s = jump_to (pc + imm) pc (apfst (write_reg rd (pc + ucast insn_len)) s)"

definition exec_jalr :: "register \<Rightarrow> register \<Rightarrow> i64 \<Rightarrow> u64 \<Rightarrow> u8 \<Rightarrow> 'b machine \<Rightarrow> (u64, trap) result \<times> 'b machine" where
  "exec_jalr rd rs1 imm pc insn_len s =
     (let target = (read_reg (fst s) rs1 + imm) AND NOT 1
      in jump_to target pc (apfst (write_reg rd (pc + ucast insn_len)) s))"

definition branch_taken :: "u32 \<Rightarrow> u64 \<Rightarrow> u64 \<Rightarrow> bool option" where
  "branch_taken funct3 val1 val2 =
     (if funct3 = 0 then Some (val1 = val2)
      else if funct3 = 1 then Some (val1 \<noteq> val2)
      else if funct3 = 4 then Some (val1 <s val2)
      else if funct3 = 5 then Some (val2 \<le>s val1)
      else if funct3 = 6 then Some (val1 < val2)
      else if funct3 = 7 then Some (val1 \<ge> val2)
      else None)"

definition exec_branch ::
  "register \<Rightarrow> register \<Rightarrow> i64 \<Rightarrow> u32 \<Rightarrow> u32 \<Rightarrow> u64 \<Rightarrow> u8 \<Rightarrow> 'b machine \<Rightarrow> (u64, trap) result \<times> 'b machine" where
  "exec_branch rs1 rs2 imm funct3 insn_raw pc insn_len s =
     (case branch_taken funct3 (read_reg (fst s) rs1) (read_reg (fst s) rs2) of
        None \<Rightarrow> illegal insn_raw pc s
      | Some taken \<Rightarrow> if taken then jump_to (pc + imm) pc s else (Ok (pc + ucast insn_len), s))"

subsection \<open>Loads and stores\<close>

text \<open>The bus access of a load, with the extension to 64 bits.\<close>

definition load_access :: "'b bus_ops \<Rightarrow> u32 \<Rightarrow> (u64 \<Rightarrow> 'b \<Rightarrow> (u64, trap) result \<times> 'b) option" where
  "load_access ops funct3 =
     (if funct3 = 0 then Some (\<lambda>pa b. apfst (map_result sext8 id) (bus_read8 ops pa b))
      else if funct3 = 1 then Some (\<lambda>pa b. apfst (map_result sext16 id) (bus_read16 ops pa b))
      else if funct3 = 2 then Some (\<lambda>pa b. apfst (map_result sext32 id) (bus_read32 ops pa b))
      else if funct3 = 3 then Some (\<lambda>pa b. bus_read64 ops pa b)
      else if funct3 = 4 then Some (\<lambda>pa b. apfst (map_result zext8 id) (bus_read8 ops pa b))
      else if funct3 = 5 then Some (\<lambda>pa b. apfst (map_result zext16 id) (bus_read16 ops pa b))
      else if funct3 = 6 then Some (\<lambda>pa b. apfst (map_result zext32 id) (bus_read32 ops pa b))
      else None)"

definition exec_load ::
  "'b bus_ops \<Rightarrow> register \<Rightarrow> register \<Rightarrow> i64 \<Rightarrow> u32 \<Rightarrow> u32 \<Rightarrow> u64 \<Rightarrow> u8 \<Rightarrow> 'b machine
     \<Rightarrow> (u64, trap) result \<times> 'b machine" where
  "exec_load ops rd rs1 imm funct3 insn_raw pc insn_len s =
     (let addr = read_reg (fst s) rs1 + imm in
      case load_access ops funct3 of
        None \<Rightarrow> illegal insn_raw pc s
      | Some f \<Rightarrow>
          bindS (translate_addr ops addr LoadAccess pc s) (\<lambda>pa s.
          bindS (busM (f pa) pc s) (\<lambda>v s.
            (Ok (pc + ucast insn_len), apfst (write_reg rd v) s))))"

definition store_access :: "'b bus_ops \<Rightarrow> u32 \<Rightarrow> u64 \<Rightarrow> u64 \<Rightarrow> ('b \<Rightarrow> (unit, trap) result \<times> 'b) option" where
  "store_access ops funct3 pa v =
     (if funct3 = 0 then Some (bus_write8 ops pa (low8 v))
      else if funct3 = 1 then Some (bus_write16 ops pa (low16 v))
      else if funct3 = 2 then Some (bus_write32 ops pa (low32 v))
      else if funct3 = 3 then Some (bus_write64 ops pa v)
      else None)"

definition exec_store ::
  "'b bus_ops \<Rightarrow> register \<Rightarrow> register \<Rightarrow> i64 \<Rightarrow> u32 \<Rightarrow> u32 \<Rightarrow> u64 \<Rightarrow> u8 \<Rightarrow> 'b machine
     \<Rightarrow> (u64, trap) result \<times> 'b machine" where
  "exec_store ops rs1 rs2 imm funct3 insn_raw pc insn_len s =
     (let addr = read_reg (fst s) rs1 + imm in
      bindS (translate_addr ops addr StoreAccess pc s) (\<lambda>pa s.
        (let s = apfst (clear_reservation_if_conflict addr) s; v = read_reg (fst s) rs2 in
         case store_access ops funct3 pa v of
           None \<Rightarrow> illegal insn_raw pc s
         | Some f \<Rightarrow> bindS (busM f pc s) (\<lambda>_ s. (Ok (pc + ucast insn_len), s)))))"

subsection \<open>Arithmetic\<close>

definition alu_imm :: "u32 \<Rightarrow> u32 \<Rightarrow> u64 \<Rightarrow> i64 \<Rightarrow> u64 option" where
  "alu_imm funct3 funct7 val1 imm =
     (let shamt = unat (imm AND 0x3F) in
      if funct3 = 0 then Some (val1 + imm)
      else if funct3 = 2 then Some (if val1 <s imm then 1 else 0)
      else if funct3 = 3 then Some (if val1 < imm then 1 else 0)
      else if funct3 = 4 then Some (val1 XOR imm)
      else if funct3 = 6 then Some (val1 OR imm)
      else if funct3 = 7 then Some (val1 AND imm)
      else if funct3 = 1 then Some (shl val1 shamt)
      else if funct3 = 5 then Some (if funct7 AND 0x20 \<noteq> 0 then sar val1 shamt else shr val1 shamt)
      else None)"

definition I64_MIN :: u64 where "I64_MIN = 0x8000000000000000"

definition mul_wide :: "i128 \<Rightarrow> i128 \<Rightarrow> u64" where
  "mul_wide a b = ucast (a * b)"

definition mul_high :: "i128 \<Rightarrow> i128 \<Rightarrow> u64" where
  "mul_high a b = ucast (sar (a * b) 64)"

definition alu_reg :: "u32 \<Rightarrow> u32 \<Rightarrow> u64 \<Rightarrow> u64 \<Rightarrow> u64 option" where
  "alu_reg funct3 funct7 val1 val2 =
     (let shamt = unat (val2 AND 0x3F) in
      if funct3 = 0 \<and> funct7 = 0 then Some (val1 + val2)
      else if funct3 = 0 \<and> funct7 = 0x20 then Some (val1 - val2)
      else if funct3 = 0 \<and> funct7 = 1 then Some (mul_wide (scast val1) (scast val2))
      else if funct3 = 1 \<and> funct7 = 0 then Some (shl val1 shamt)
      else if funct3 = 1 \<and> funct7 = 1 then Some (mul_high (scast val1) (scast val2))
      else if funct3 = 2 \<and> funct7 = 0 then Some (if val1 <s val2 then 1 else 0)
      else if funct3 = 2 \<and> funct7 = 1 then Some (mul_high (scast val1) (ucast val2))
      else if funct3 = 3 \<and> funct7 = 0 then Some (if val1 < val2 then 1 else 0)
      else if funct3 = 3 \<and> funct7 = 1 then Some (ucast (shr (ucast val1 * ucast val2 :: 128 word) 64))
      else if funct3 = 4 \<and> funct7 = 0 then Some (val1 XOR val2)
      else if funct3 = 4 \<and> funct7 = 1 then
        Some (if val2 = 0 then - 1 else if val1 = I64_MIN \<and> val2 = - 1 then I64_MIN else sdivw val1 val2)
      else if funct3 = 5 \<and> funct7 = 0 then Some (shr val1 shamt)
      else if funct3 = 5 \<and> funct7 = 1 then Some (if val2 = 0 then - 1 else val1 div val2)
      else if funct3 = 5 \<and> funct7 = 0x20 then Some (sar val1 shamt)
      else if funct3 = 6 \<and> funct7 = 0 then Some (val1 OR val2)
      else if funct3 = 6 \<and> funct7 = 1 then
        Some (if val2 = 0 then val1 else if val1 = I64_MIN \<and> val2 = - 1 then 0 else sremw val1 val2)
      else if funct3 = 7 \<and> funct7 = 0 then Some (val1 AND val2)
      else if funct3 = 7 \<and> funct7 = 1 then Some (if val2 = 0 then val1 else val1 mod val2)
      else None)"

definition alu_imm32 :: "u32 \<Rightarrow> u32 \<Rightarrow> u64 \<Rightarrow> i64 \<Rightarrow> u64 option" where
  "alu_imm32 funct3 funct7 val1 imm =
     (let shamt = unat (imm AND 0x1F) in
      if funct3 = 0 then Some (sext32 (low32 (val1 + imm)))
      else if funct3 = 1 then Some (sext32 (shl (low32 val1) shamt))
      else if funct3 = 5 then
        Some (if funct7 AND 0x20 \<noteq> 0 then sext32 (sar (low32 val1) shamt) else sext32 (shr (low32 val1) shamt))
      else None)"

text \<open>The word operations work on the sign- or zero-extended low halves, as 64-bit values.\<close>

definition I32_MIN_64 :: u64 where "I32_MIN_64 = 0xFFFFFFFF80000000"

definition alu_reg32 :: "u32 \<Rightarrow> u32 \<Rightarrow> u64 \<Rightarrow> u64 \<Rightarrow> u64 option" where
  "alu_reg32 funct3 funct7 val1 val2 =
     (let shamt = unat (val2 AND 0x1F);
          a = sext32 (low32 val1); b = sext32 (low32 val2);
          ua = zext32 (low32 val1); ub = zext32 (low32 val2) in
      if funct3 = 0 \<and> funct7 = 0 then Some (sext32 (low32 (val1 + val2)))
      else if funct3 = 0 \<and> funct7 = 0x20 then Some (sext32 (low32 (val1 - val2)))
      else if funct3 = 0 \<and> funct7 = 1 then Some (sext32 (ucast ((scast a :: i128) * scast b)))
      else if funct3 = 1 \<and> funct7 = 0 then Some (sext32 (shl (low32 val1) shamt))
      else if funct3 = 5 \<and> funct7 = 0 then Some (sext32 (shr (low32 val1) shamt))
      else if funct3 = 4 \<and> funct7 = 1 then
        Some (sext32 (low32 (if b = 0 then - 1 else if a = I32_MIN_64 \<and> b = - 1 then I32_MIN_64 else sdivw a b)))
      else if funct3 = 5 \<and> funct7 = 0x20 then Some (sext32 (sar (low32 val1) shamt))
      else if funct3 = 5 \<and> funct7 = 1 then Some (sext32 (low32 (if ub = 0 then - 1 else ua div ub)))
      else if funct3 = 6 \<and> funct7 = 1 then
        Some (sext32 (low32 (if b = 0 then a else if a = I32_MIN_64 \<and> b = - 1 then 0 else sremw a b)))
      else if funct3 = 7 \<and> funct7 = 1 then Some (sext32 (low32 (if ub = 0 then ua else ua mod ub)))
      else None)"

text \<open>An arithmetic arm: an illegal instruction, or a register write and the next instruction.\<close>

definition exec_alu ::
  "register \<Rightarrow> u64 option \<Rightarrow> u32 \<Rightarrow> u64 \<Rightarrow> u8 \<Rightarrow> 'b machine \<Rightarrow> (u64, trap) result \<times> 'b machine" where
  "exec_alu rd res insn_raw pc insn_len s =
     (case res of
        None \<Rightarrow> illegal insn_raw pc s
      | Some v \<Rightarrow> (Ok (pc + ucast insn_len), apfst (write_reg rd v) s))"

subsection \<open>Atomics\<close>

definition exec_lr ::
  "'b bus_ops \<Rightarrow> register \<Rightarrow> u64 \<Rightarrow> u64 \<Rightarrow> bool \<Rightarrow> u64 \<Rightarrow> u8 \<Rightarrow> 'b machine \<Rightarrow> (u64, trap) result \<times> 'b machine" where
  "exec_lr ops rd addr pa is_word pc insn_len s =
     bindS (busM (\<lambda>b. if is_word then apfst (map_result sext32 id) (bus_read32 ops pa b) else bus_read64 ops pa b) pc s)
       (\<lambda>loaded s. (Ok (pc + ucast insn_len),
          apfst (\<lambda>c. (write_reg rd loaded c)\<lparr> reservation := Some (reservation_granule addr) \<rparr>) s))"

definition exec_sc ::
  "'b bus_ops \<Rightarrow> register \<Rightarrow> register \<Rightarrow> u64 \<Rightarrow> u64 \<Rightarrow> bool \<Rightarrow> u64 \<Rightarrow> u8 \<Rightarrow> 'b machine
     \<Rightarrow> (u64, trap) result \<times> 'b machine" where
  "exec_sc ops rd rs2 addr pa is_word pc insn_len s =
     (if is_word \<and> addr mod 4 \<noteq> 0 then trapM (StoreAddressMisaligned addr) pc s
      else if \<not> is_word \<and> addr mod 8 \<noteq> 0 then trapM (StoreAddressMisaligned addr) pc s
      else if reservation (fst s) = Some (reservation_granule addr) then
        (let v = read_reg (fst s) rs2 in
         bindS (busM (\<lambda>b. if is_word then bus_write32 ops pa (low32 v) b else bus_write64 ops pa v b) pc s)
           (\<lambda>_ s. (Ok (pc + ucast insn_len), apfst (\<lambda>c. (write_reg rd 0 c)\<lparr> reservation := None \<rparr>) s)))
      else (Ok (pc + ucast insn_len), apfst (write_reg rd 1) s))"

definition amo_access ::
  "'b bus_ops \<Rightarrow> u32 \<Rightarrow> (u64 \<Rightarrow> u64 \<Rightarrow> bool \<Rightarrow> 'b \<Rightarrow> (u64, trap) result \<times> 'b) option" where
  "amo_access ops funct5 =
     (if funct5 = 1 then Some (atomic_swap ops)
      else if funct5 = 0 then Some (atomic_add ops)
      else if funct5 = 4 then Some (atomic_xor ops)
      else if funct5 = 8 then Some (atomic_or ops)
      else if funct5 = 0xC then Some (atomic_and ops)
      else if funct5 = 0x10 then Some (atomic_min ops)
      else if funct5 = 0x14 then Some (atomic_max ops)
      else if funct5 = 0x18 then Some (atomic_minu ops)
      else if funct5 = 0x1C then Some (atomic_maxu ops)
      else None)"

definition exec_amo ::
  "'b bus_ops \<Rightarrow> register \<Rightarrow> register \<Rightarrow> register \<Rightarrow> u32 \<Rightarrow> u32 \<Rightarrow> u32 \<Rightarrow> u64 \<Rightarrow> u8 \<Rightarrow> 'b machine
     \<Rightarrow> (u64, trap) result \<times> 'b machine" where
  "exec_amo ops rd rs1 rs2 funct3 funct5 insn_raw pc insn_len s =
     (let addr = read_reg (fst s) rs1 in
      bindS (translate_addr ops addr LoadAccess pc s) (\<lambda>pa s.
        if funct3 \<noteq> 2 \<and> funct3 \<noteq> 3 then illegal insn_raw pc s
        else
          (let is_word = (funct3 = 2) in
           if funct5 = 2 then exec_lr ops rd addr pa is_word pc insn_len s
           else if funct5 = 3 then exec_sc ops rd rs2 addr pa is_word pc insn_len s
           else case amo_access ops funct5 of
              None \<Rightarrow> illegal insn_raw pc s
            | Some f \<Rightarrow>
                (let s = apfst (clear_reservation_if_conflict addr) s in
                 bindS (busM (f pa (read_reg (fst s) rs2) is_word) pc s)
                   (\<lambda>old s. (Ok (pc + ucast insn_len), apfst (write_reg rd old) s))))))"

subsection \<open>System instructions\<close>

definition flush_translations :: "cpu \<Rightarrow> cpu" where
  "flush_translations c = invalidate_decode_cache (c\<lparr> cpu_tlb := tlb_flush (cpu_tlb c) \<rparr>)"

fun ecall_trap :: "mode \<Rightarrow> trap" where
  "ecall_trap User = EnvironmentCallFromU"
| "ecall_trap Supervisor = EnvironmentCallFromS"
| "ecall_trap Machine = EnvironmentCallFromM"

definition mret_mstatus :: "u64 \<Rightarrow> u64" where
  "mret_mstatus mstatus =
     (let mpie = shr mstatus 7 AND 1;
          mstatus = (mstatus AND NOT (shl 1 3)) OR shl mpie 3;
          mstatus = mstatus OR shl 1 7
      in mstatus AND NOT (shl 3 11))"

definition sret_mstatus :: "u64 \<Rightarrow> u64" where
  "sret_mstatus mstatus =
     (let spie = shr mstatus 5 AND 1;
          mstatus = (mstatus AND NOT (shl 1 1)) OR shl spie 1;
          mstatus = mstatus OR shl 1 5
      in mstatus AND NOT (shl 1 8))"

definition mret :: "cpu \<Rightarrow> cpu" where
  "mret c =
     (let mstatus = csr c CSR_MSTATUS
      in put_csr CSR_MSTATUS (mret_mstatus mstatus) (c\<lparr> cpu_mode := from_mpp (shr mstatus 11 AND 3) \<rparr>))"

definition sret :: "cpu \<Rightarrow> cpu" where
  "sret c =
     (let mstatus = csr c CSR_MSTATUS
      in put_csr CSR_MSTATUS (sret_mstatus mstatus)
           (c\<lparr> cpu_mode := (if shr mstatus 8 AND 1 = 0 then User else Supervisor) \<rparr>))"

definition exec_priv :: "u32 \<Rightarrow> u64 \<Rightarrow> u8 \<Rightarrow> 'b machine \<Rightarrow> (u64, trap) result \<times> 'b machine" where
  "exec_priv insn_raw pc insn_len s =
     (let c = fst s; next_pc = pc + ucast insn_len in
      if insn_raw AND 0xFE00707F = 0x12000073 then
        (if cpu_mode c = User then illegal insn_raw pc s
         else (Ok next_pc, apfst flush_translations s))
      else if insn_raw = 0x00100073 then trapM Breakpoint pc s
      else if insn_raw = 0x10500073 then (Ok next_pc, s)
      else if insn_raw = 0x00000073 then trapM (ecall_trap (cpu_mode c)) pc s
      else if insn_raw = 0x30200073 then
        (if cpu_mode c \<noteq> Machine then illegal insn_raw pc s else (Ok (csr c CSR_MEPC), apfst mret s))
      else if insn_raw = 0x10200073 then
        (if cpu_mode c \<noteq> Supervisor then illegal insn_raw pc s else (Ok (csr c CSR_SEPC), apfst sret s))
      else illegal insn_raw pc s)"

text \<open>The new value a Zicsr instruction writes, if it writes.\<close>

definition csr_new_value :: "u32 \<Rightarrow> register \<Rightarrow> u64 \<Rightarrow> u64 \<Rightarrow> u64 option" where
  "csr_new_value funct3 rs1 rs1_val old =
     (let zimm = word_of_nat (to_usize rs1) in
      if funct3 = 1 then Some rs1_val
      else if funct3 = 2 then (if rs1 \<noteq> X0 then Some (old OR rs1_val) else None)
      else if funct3 = 3 then (if rs1 \<noteq> X0 then Some (old AND NOT rs1_val) else None)
      else if funct3 = 5 then Some zimm
      else if funct3 = 6 then (if zimm \<noteq> 0 then Some (old OR zimm) else None)
      else if funct3 = 7 then (if zimm \<noteq> 0 then Some (old AND NOT zimm) else None)
      else None)"

definition read_time :: "'b bus_ops \<Rightarrow> 'b machine \<Rightarrow> (u64, trap) result \<times> 'b machine" where
  "read_time ops s =
     matchS (on_bus (bus_read64 ops (CLINT_BASE + MTIME_OFFSET)) s) (\<lambda>v s. (Ok v, s)) (\<lambda>_ s. (Ok 0, s)) (\<lambda>s. s)"

definition exec_csr ::
  "'b bus_ops \<Rightarrow> register \<Rightarrow> register \<Rightarrow> u32 \<Rightarrow> u32 \<Rightarrow> u32 \<Rightarrow> u64 \<Rightarrow> u8 \<Rightarrow> 'b machine
     \<Rightarrow> (u64, trap) result \<times> 'b machine" where
  "exec_csr ops rd rs1 funct3 imm insn_raw pc insn_len s =
     (let csr_addr = ucast (imm AND 0xFFF) in
      bindS (if csr_addr = CSR_TIME then read_time ops s
             else matchS (cpu_read_csr (fst s) csr_addr, s) (\<lambda>v s. (Ok v, s)) (\<lambda>e s. trapM e pc s) (\<lambda>s. s)) (\<lambda>old s.
      bindS (case csr_new_value funct3 rs1 (read_reg (fst s) rs1) old of
               None \<Rightarrow> (Ok (), s)
             | Some new_val \<Rightarrow>
                 (case cpu_write_csr csr_addr new_val (fst s) of (r, c) \<Rightarrow>
                    matchS (r, (c, snd s))
                      (\<lambda>_ s. (Ok (), if csr_addr = CSR_SATP then apfst flush_translations s else s))
                      (\<lambda>e s. trapM e pc s) (\<lambda>s. s))) (\<lambda>_ s.
        (Ok (pc + ucast insn_len), if rd \<noteq> X0 then apfst (write_reg rd old) s else s))))"

definition exec_system ::
  "'b bus_ops \<Rightarrow> register \<Rightarrow> register \<Rightarrow> u32 \<Rightarrow> u32 \<Rightarrow> u32 \<Rightarrow> u64 \<Rightarrow> u8 \<Rightarrow> 'b machine
     \<Rightarrow> (u64, trap) result \<times> 'b machine" where
  "exec_system ops rd rs1 funct3 imm insn_raw pc insn_len s =
     (if funct3 = 0 then exec_priv insn_raw pc insn_len s
      else if funct3 \<in> {1, 2, 3, 5, 6, 7} then exec_csr ops rd rs1 funct3 imm insn_raw pc insn_len s
      else illegal insn_raw pc s)"

subsection \<open>One instruction\<close>

primrec exec_op ::
  "'b bus_ops \<Rightarrow> op \<Rightarrow> u32 \<Rightarrow> u64 \<Rightarrow> u8 \<Rightarrow> 'b machine \<Rightarrow> (u64, trap) result \<times> 'b machine" where
  "exec_op ops (op.Lui rd imm) raw pc len s = (Ok (pc + ucast len), apfst (write_reg rd imm) s)"
| "exec_op ops (op.Auipc rd imm) raw pc len s = (Ok (pc + ucast len), apfst (write_reg rd (pc + imm)) s)"
| "exec_op ops (op.Jal rd imm) raw pc len s = exec_jal rd imm pc len s"
| "exec_op ops (op.Jalr rd rs1 imm) raw pc len s = exec_jalr rd rs1 imm pc len s"
| "exec_op ops (Branch rs1 rs2 imm funct3) raw pc len s = exec_branch rs1 rs2 imm funct3 raw pc len s"
| "exec_op ops (Load rd rs1 imm funct3) raw pc len s = exec_load ops rd rs1 imm funct3 raw pc len s"
| "exec_op ops (Store rs1 rs2 imm funct3) raw pc len s = exec_store ops rs1 rs2 imm funct3 raw pc len s"
| "exec_op ops (OpImm rd rs1 imm funct3 funct7) raw pc len s =
     exec_alu rd (alu_imm funct3 funct7 (read_reg (fst s) rs1) imm) raw pc len s"
| "exec_op ops (Op rd rs1 rs2 funct3 funct7) raw pc len s =
     exec_alu rd (alu_reg funct3 funct7 (read_reg (fst s) rs1) (read_reg (fst s) rs2)) raw pc len s"
| "exec_op ops (OpImm32 rd rs1 imm funct3 funct7) raw pc len s =
     exec_alu rd (alu_imm32 funct3 funct7 (read_reg (fst s) rs1) imm) raw pc len s"
| "exec_op ops (Op32 rd rs1 rs2 funct3 funct7) raw pc len s =
     exec_alu rd (alu_reg32 funct3 funct7 (read_reg (fst s) rs1) (read_reg (fst s) rs2)) raw pc len s"
| "exec_op ops (System rd rs1 funct3 imm) raw pc len s = exec_system ops rd rs1 funct3 imm raw pc len s"
| "exec_op ops (Amo rd rs1 rs2 funct3 funct5 aq rl) raw pc len s = exec_amo ops rd rs1 rs2 funct3 funct5 raw pc len s"
| "exec_op ops op.Fence raw pc len s = (Ok (pc + ucast len), s)"

definition decode_cached :: "u64 \<Rightarrow> u32 \<Rightarrow> 'b machine \<Rightarrow> (op, trap) result \<times> 'b machine" where
  "decode_cached pc raw s =
     (case decode_cache_lookup pc raw (fst s) of
        Some dop \<Rightarrow> (Ok dop, s)
      | None \<Rightarrow>
          matchS (decode raw, s) (\<lambda>dop s. (Ok dop, apfst (decode_cache_insert pc raw dop) s)) (\<lambda>e s. trapM e pc s) (\<lambda>s. s))"

definition step_single_inner :: "'b bus_ops \<Rightarrow> 'b machine \<Rightarrow> (unit, trap) result \<times> 'b machine" where
  "step_single_inner ops s =
     (let pc = cpu_pc (fst s) in
      bindS (fetch_and_expand ops s) (\<lambda>(raw, len) s.
      bindS (decode_cached pc raw s) (\<lambda>dop s.
      bindS (exec_op ops dop raw pc len s) (\<lambda>next_pc s.
        (Ok (), apfst (\<lambda>c. c\<lparr> cpu_pc := next_pc \<rparr>) s)))))"

subsection \<open>Interrupt polling\<close>

text \<open>The poll of the devices into \<open>mip\<close>, done every 256 instructions; the pending interrupt, if any, is
  entered. \<close>

definition poll_interrupts :: "'b bus_ops \<Rightarrow> 'b machine \<Rightarrow> (unit, trap) result \<times> 'b machine" where
  "poll_interrupts ops s =
     (case s of (c, b) \<Rightarrow>
      case bus_poll_interrupts_for_hart ops (unat (csr c CSR_MHARTID)) b of (hw_mip, b) \<Rightarrow>
      let sstc_enabled = (shr (csr c CSR_MENVCFG) 63 AND 1 = 1);
          stimecmp = csr c CSR_STIMECMP
      in bindS (if sstc_enabled \<and> stimecmp \<noteq> 0 then
                  matchS (on_bus (bus_read64 ops (CLINT_BASE + MTIME_OFFSET)) (c, b))
                    (\<lambda>now s. (Ok (if now \<ge> stimecmp then hw_mip OR shl 1 5 else hw_mip), s))
                    (\<lambda>_ s. (Ok hw_mip, s)) (\<lambda>s. s)
                else (Ok hw_mip, (c, b))) (\<lambda>hw_mip (c, b).
           let hw_bits = shl 1 3 OR shl 1 7 OR shl 1 9 OR shl 1 11;
               mask = (if sstc_enabled then hw_bits OR shl 1 5 else hw_bits);
               c = put_csr CSR_MIP ((csr c CSR_MIP AND NOT mask) OR (hw_mip AND mask)) c
           in case check_pending_interrupt c of
                Some trap \<Rightarrow> trapM trap (cpu_pc c) (c, b)
              | None \<Rightarrow> (Ok (), (c, b))))"

definition count_poll :: "'b bus_ops \<Rightarrow> 'b machine \<Rightarrow> (unit, trap) result \<times> 'b machine" where
  "count_poll ops s =
     (let s = apfst (\<lambda>c. c\<lparr> poll_counter := poll_counter c + 1 \<rparr>) s
      in if poll_counter (fst s) = 0 then poll_interrupts ops s else (Ok (), s))"

definition step_single :: "'b bus_ops \<Rightarrow> 'b machine \<Rightarrow> (unit, trap) result \<times> 'b machine" where
  "step_single ops s = bindS (count_poll ops s) (\<lambda>_ s. step_single_inner ops s)"

end
