(* ===== verification/Rv_Block_Exec.thy ===== *)
theory Rv_Block_Exec
  imports Rv_Exec
begin

text \<open>
  The superblock engine of the CPU (\<^verbatim>\<open>execute_block_inner\<close> and \<^verbatim>\<open>handle_block_result\<close> of
  \<^verbatim>\<open>riscv-vm/src/cpu/core.rs\<close>, \<^verbatim>\<open>try_execute_block\<close> and \<^verbatim>\<open>step\<close> of \<^verbatim>\<open>execution.rs\<close>).  A micro-operation either
  goes on to the next one (\<open>None\<close>) or ends the block with a result.  The register numbers of a
  micro-operation come from the decoder and are below 32 (\<open>transcode_regs\<close> in \<open>Rv_Engine_Equiv\<close>), so the
  array accesses stay in range.
\<close>

unbundle bit_operations_syntax

subsection \<open>Micro-operations\<close>

datatype block_exec_result = BlockContinue u64 | BlockTrap trap u64 | BlockExit u64

definition reg_at :: "'b machine \<Rightarrow> u8 \<Rightarrow> u64" where
  "reg_at s r = regs (fst s) (unat r)"

definition set_at :: "u8 \<Rightarrow> u64 \<Rightarrow> cpu \<Rightarrow> cpu" where
  "set_at r v c = (if r \<noteq> 0 then c\<lparr> regs := (regs c)(unat r := v) \<rparr> else c)"

definition alu_step :: "u8 \<Rightarrow> u64 \<Rightarrow> 'b machine \<Rightarrow> (block_exec_result option, trap) result \<times> 'b machine" where
  "alu_step rd v s = (Ok None, apfst (set_at rd v) s)"

definition load_step ::
  "'b bus_ops \<Rightarrow> (u64 \<Rightarrow> 'b \<Rightarrow> (u64, trap) result \<times> 'b) \<Rightarrow> u8 \<Rightarrow> u64 \<Rightarrow> u64 \<Rightarrow> 'b machine
     \<Rightarrow> (block_exec_result option, trap) result \<times> 'b machine" where
  "load_step ops f rd addr pc s =
     matchS (translate_addr_for_block ops addr LoadAccess s)
       (\<lambda>pa s. matchS (on_bus (f pa) s)
          (\<lambda>v s. (Ok None, apfst (set_at rd v) s))
          (\<lambda>e s. (Ok (Some (BlockTrap e pc)), s)) (\<lambda>s. s))
       (\<lambda>e s. (Ok (Some (BlockTrap e pc)), s)) (\<lambda>s. s)"

definition store_step ::
  "'b bus_ops \<Rightarrow> (u64 \<Rightarrow> 'b \<Rightarrow> (unit, trap) result \<times> 'b) \<Rightarrow> u64 \<Rightarrow> u64 \<Rightarrow> 'b machine
     \<Rightarrow> (block_exec_result option, trap) result \<times> 'b machine" where
  "store_step ops f addr pc s =
     matchS (translate_addr_for_block ops addr StoreAccess s)
       (\<lambda>pa s. matchS (on_bus (f pa) s)
          (\<lambda>_ s. (Ok None, apfst (clear_reservation_if_conflict addr) s))
          (\<lambda>e s. (Ok (Some (BlockTrap e pc)), s)) (\<lambda>s. s))
       (\<lambda>e s. (Ok (Some (BlockTrap e pc)), s)) (\<lambda>s. s)"

definition branch_step ::
  "bool \<Rightarrow> i64 \<Rightarrow> u64 \<Rightarrow> u8 \<Rightarrow> 'b machine \<Rightarrow> (block_exec_result option, trap) result \<times> 'b machine" where
  "branch_step taken imm pc len s = (Ok (Some (BlockContinue (if taken then pc + imm else pc + ucast len))), s)"

definition exit_step :: "u64 \<Rightarrow> u16 \<Rightarrow> 'b machine \<Rightarrow> (block_exec_result option, trap) result \<times> 'b machine" where
  "exit_step bpc off s = (Ok (Some (BlockExit (bpc + ucast off))), s)"

text \<open>The values of the multiplication and division arms.\<close>

definition micro_mul :: "u64 \<Rightarrow> u64 \<Rightarrow> u64" where
  "micro_mul a b = (ucast ((scast a :: i128) * scast b))"

definition micro_mulh :: "u64 \<Rightarrow> u64 \<Rightarrow> u64" where
  "micro_mulh a b = (ucast (sar ((scast a :: i128) * scast b) 64))"

definition micro_mulhsu :: "u64 \<Rightarrow> u64 \<Rightarrow> u64" where
  "micro_mulhsu a b = (ucast (sar ((scast a :: i128) * ucast b) 64))"

definition micro_mulhu :: "u64 \<Rightarrow> u64 \<Rightarrow> u64" where
  "micro_mulhu a b = (ucast (shr ((ucast a :: 128 word) * ucast b) 64))"

definition micro_div :: "u64 \<Rightarrow> u64 \<Rightarrow> u64" where
  "micro_div a b = (if b = 0 then - 1 else if a = 0x8000000000000000 \<and> b = - 1 then 0x8000000000000000 else sdivw a b)"

definition micro_divu :: "u64 \<Rightarrow> u64 \<Rightarrow> u64" where
  "micro_divu a b = (if b = 0 then - 1 else a div b)"

definition micro_rem :: "u64 \<Rightarrow> u64 \<Rightarrow> u64" where
  "micro_rem a b = (if b = 0 then a else if a = 0x8000000000000000 \<and> b = - 1 then 0 else sremw a b)"

definition micro_remu :: "u64 \<Rightarrow> u64 \<Rightarrow> u64" where
  "micro_remu a b = (if b = 0 then a else a mod b)"

definition micro_mulw :: "u64 \<Rightarrow> u64 \<Rightarrow> u64" where
  "micro_mulw a b = (sext32 (low32 (sext32 (low32 a) * sext32 (low32 b))))"

definition micro_divw :: "u64 \<Rightarrow> u64 \<Rightarrow> u64" where
  "micro_divw a b = (let a = low32 a; b = low32 b in
       if b = 0 then sext32 (- 1) else if a = 0x80000000 \<and> b = - 1 then sext32 0x80000000 else sext32 (sdivw a b))"

definition micro_divuw :: "u64 \<Rightarrow> u64 \<Rightarrow> u64" where
  "micro_divuw a b = (let a = low32 a; b = low32 b in if b = 0 then sext32 (- 1) else sext32 (a div b))"

definition micro_remw :: "u64 \<Rightarrow> u64 \<Rightarrow> u64" where
  "micro_remw a b = (let a = low32 a; b = low32 b in
       if b = 0 then sext32 a else if a = 0x80000000 \<and> b = - 1 then 0 else sext32 (sremw a b))"

definition micro_remuw :: "u64 \<Rightarrow> u64 \<Rightarrow> u64" where
  "micro_remuw a b = (let a = low32 a; b = low32 b in if b = 0 then sext32 a else sext32 (a mod b))"

primrec exec_micro ::
  "'b bus_ops \<Rightarrow> u64 \<Rightarrow> micro_op \<Rightarrow> 'b machine \<Rightarrow> (block_exec_result option, trap) result \<times> 'b machine" where
  "exec_micro ops bpc (Addi rd rs1 imm) s =
     alu_step rd (reg_at s rs1 + imm) s"
| "exec_micro ops bpc (Add rd rs1 rs2) s =
     alu_step rd (reg_at s rs1 + reg_at s rs2) s"
| "exec_micro ops bpc (Sub rd rs1 rs2) s =
     alu_step rd (reg_at s rs1 - reg_at s rs2) s"
| "exec_micro ops bpc (Xori rd rs1 imm) s =
     alu_step rd (reg_at s rs1 XOR imm) s"
| "exec_micro ops bpc (Ori rd rs1 imm) s =
     alu_step rd (reg_at s rs1 OR imm) s"
| "exec_micro ops bpc (Andi rd rs1 imm) s =
     alu_step rd (reg_at s rs1 AND imm) s"
| "exec_micro ops bpc (Xor rd rs1 rs2) s =
     alu_step rd (reg_at s rs1 XOR reg_at s rs2) s"
| "exec_micro ops bpc (Or rd rs1 rs2) s =
     alu_step rd (reg_at s rs1 OR reg_at s rs2) s"
| "exec_micro ops bpc (And rd rs1 rs2) s =
     alu_step rd (reg_at s rs1 AND reg_at s rs2) s"
| "exec_micro ops bpc (Slli rd rs1 shamt) s =
     alu_step rd (shl (reg_at s rs1) (unat shamt)) s"
| "exec_micro ops bpc (Srli rd rs1 shamt) s =
     alu_step rd (shr (reg_at s rs1) (unat shamt)) s"
| "exec_micro ops bpc (Srai rd rs1 shamt) s =
     alu_step rd (sar (reg_at s rs1) (unat shamt)) s"
| "exec_micro ops bpc (Sll rd rs1 rs2) s =
     alu_step rd (shl (reg_at s rs1) (unat (reg_at s rs2 AND 0x3F))) s"
| "exec_micro ops bpc (Srl rd rs1 rs2) s =
     alu_step rd (shr (reg_at s rs1) (unat (reg_at s rs2 AND 0x3F))) s"
| "exec_micro ops bpc (Sra rd rs1 rs2) s =
     alu_step rd (sar (reg_at s rs1) (unat (reg_at s rs2 AND 0x3F))) s"
| "exec_micro ops bpc (Slti rd rs1 imm) s =
     alu_step rd (if reg_at s rs1 <s imm then 1 else 0) s"
| "exec_micro ops bpc (Sltiu rd rs1 imm) s =
     alu_step rd (if reg_at s rs1 < imm then 1 else 0) s"
| "exec_micro ops bpc (Slt rd rs1 rs2) s =
     alu_step rd (if reg_at s rs1 <s reg_at s rs2 then 1 else 0) s"
| "exec_micro ops bpc (Sltu rd rs1 rs2) s =
     alu_step rd (if reg_at s rs1 < reg_at s rs2 then 1 else 0) s"
| "exec_micro ops bpc (micro_op.Lui rd imm) s =
     alu_step rd (imm) s"
| "exec_micro ops bpc (micro_op.Auipc rd imm off) s =
     alu_step rd (bpc + ucast off + imm) s"
| "exec_micro ops bpc (Addiw rd rs1 imm) s =
     alu_step rd (sext32 (low32 (reg_at s rs1 + scast imm))) s"
| "exec_micro ops bpc (Addw rd rs1 rs2) s =
     alu_step rd (sext32 (low32 (reg_at s rs1 + reg_at s rs2))) s"
| "exec_micro ops bpc (Subw rd rs1 rs2) s =
     alu_step rd (sext32 (low32 (reg_at s rs1 - reg_at s rs2))) s"
| "exec_micro ops bpc (Slliw rd rs1 shamt) s =
     alu_step rd (sext32 (shl (low32 (reg_at s rs1)) (unat shamt))) s"
| "exec_micro ops bpc (Srliw rd rs1 shamt) s =
     alu_step rd (sext32 (shr (low32 (reg_at s rs1)) (unat shamt))) s"
| "exec_micro ops bpc (Sraiw rd rs1 shamt) s =
     alu_step rd (sext32 (sar (low32 (reg_at s rs1)) (unat shamt))) s"
| "exec_micro ops bpc (Sllw rd rs1 rs2) s =
     alu_step rd (sext32 (shl (low32 (reg_at s rs1)) (unat (reg_at s rs2 AND 0x1F)))) s"
| "exec_micro ops bpc (Srlw rd rs1 rs2) s =
     alu_step rd (sext32 (shr (low32 (reg_at s rs1)) (unat (reg_at s rs2 AND 0x1F)))) s"
| "exec_micro ops bpc (Sraw rd rs1 rs2) s =
     alu_step rd (sext32 (sar (low32 (reg_at s rs1)) (unat (reg_at s rs2 AND 0x1F)))) s"
| "exec_micro ops bpc (Mul rd rs1 rs2) s =
     alu_step rd (micro_mul (reg_at s rs1) (reg_at s rs2)) s"
| "exec_micro ops bpc (Mulh rd rs1 rs2) s =
     alu_step rd (micro_mulh (reg_at s rs1) (reg_at s rs2)) s"
| "exec_micro ops bpc (Mulhsu rd rs1 rs2) s =
     alu_step rd (micro_mulhsu (reg_at s rs1) (reg_at s rs2)) s"
| "exec_micro ops bpc (Mulhu rd rs1 rs2) s =
     alu_step rd (micro_mulhu (reg_at s rs1) (reg_at s rs2)) s"
| "exec_micro ops bpc (Div rd rs1 rs2) s =
     alu_step rd (micro_div (reg_at s rs1) (reg_at s rs2)) s"
| "exec_micro ops bpc (Divu rd rs1 rs2) s =
     alu_step rd (micro_divu (reg_at s rs1) (reg_at s rs2)) s"
| "exec_micro ops bpc (Rem rd rs1 rs2) s =
     alu_step rd (micro_rem (reg_at s rs1) (reg_at s rs2)) s"
| "exec_micro ops bpc (Remu rd rs1 rs2) s =
     alu_step rd (micro_remu (reg_at s rs1) (reg_at s rs2)) s"
| "exec_micro ops bpc (Mulw rd rs1 rs2) s =
     alu_step rd (micro_mulw (reg_at s rs1) (reg_at s rs2)) s"
| "exec_micro ops bpc (Divw rd rs1 rs2) s =
     alu_step rd (micro_divw (reg_at s rs1) (reg_at s rs2)) s"
| "exec_micro ops bpc (Divuw rd rs1 rs2) s =
     alu_step rd (micro_divuw (reg_at s rs1) (reg_at s rs2)) s"
| "exec_micro ops bpc (Remw rd rs1 rs2) s =
     alu_step rd (micro_remw (reg_at s rs1) (reg_at s rs2)) s"
| "exec_micro ops bpc (Remuw rd rs1 rs2) s =
     alu_step rd (micro_remuw (reg_at s rs1) (reg_at s rs2)) s"
| "exec_micro ops bpc (Ld rd rs1 imm off) s =
     load_step ops (bus_read64 ops) rd (reg_at s rs1 + imm) (bpc + ucast off) s"
| "exec_micro ops bpc (Lw rd rs1 imm off) s =
     load_step ops (\<lambda>pa b. apfst (map_result sext32 id) (bus_read32 ops pa b)) rd (reg_at s rs1 + imm) (bpc + ucast off) s"
| "exec_micro ops bpc (Lwu rd rs1 imm off) s =
     load_step ops (\<lambda>pa b. apfst (map_result zext32 id) (bus_read32 ops pa b)) rd (reg_at s rs1 + imm) (bpc + ucast off) s"
| "exec_micro ops bpc (Lh rd rs1 imm off) s =
     load_step ops (\<lambda>pa b. apfst (map_result sext16 id) (bus_read16 ops pa b)) rd (reg_at s rs1 + imm) (bpc + ucast off) s"
| "exec_micro ops bpc (Lhu rd rs1 imm off) s =
     load_step ops (\<lambda>pa b. apfst (map_result zext16 id) (bus_read16 ops pa b)) rd (reg_at s rs1 + imm) (bpc + ucast off) s"
| "exec_micro ops bpc (Lb rd rs1 imm off) s =
     load_step ops (\<lambda>pa b. apfst (map_result sext8 id) (bus_read8 ops pa b)) rd (reg_at s rs1 + imm) (bpc + ucast off) s"
| "exec_micro ops bpc (Lbu rd rs1 imm off) s =
     load_step ops (\<lambda>pa b. apfst (map_result zext8 id) (bus_read8 ops pa b)) rd (reg_at s rs1 + imm) (bpc + ucast off) s"
| "exec_micro ops bpc (Sd rs1 rs2 imm off) s =
     store_step ops (\<lambda>pa. bus_write64 ops pa (reg_at s rs2)) (reg_at s rs1 + imm) (bpc + ucast off) s"
| "exec_micro ops bpc (Sw rs1 rs2 imm off) s =
     store_step ops (\<lambda>pa. bus_write32 ops pa (low32 (reg_at s rs2))) (reg_at s rs1 + imm) (bpc + ucast off) s"
| "exec_micro ops bpc (Sh rs1 rs2 imm off) s =
     store_step ops (\<lambda>pa. bus_write16 ops pa (low16 (reg_at s rs2))) (reg_at s rs1 + imm) (bpc + ucast off) s"
| "exec_micro ops bpc (Sb rs1 rs2 imm off) s =
     store_step ops (\<lambda>pa. bus_write8 ops pa (low8 (reg_at s rs2))) (reg_at s rs1 + imm) (bpc + ucast off) s"
| "exec_micro ops bpc (micro_op.Jal rd imm off len) s =
     (let pc = bpc + ucast off in
      (Ok (Some (BlockContinue (pc + imm))), apfst (set_at rd (pc + ucast len)) s))"
| "exec_micro ops bpc (micro_op.Jalr rd rs1 imm off len) s =
     (let pc = bpc + ucast off; target = (reg_at s rs1 + imm) AND NOT 1 in
      (Ok (Some (BlockContinue target)), apfst (set_at rd (pc + ucast len)) s))"
| "exec_micro ops bpc (Beq rs1 rs2 imm off len) s =
     branch_step (reg_at s rs1 = reg_at s rs2) imm (bpc + ucast off) len s"
| "exec_micro ops bpc (Bne rs1 rs2 imm off len) s =
     branch_step (reg_at s rs1 \<noteq> reg_at s rs2) imm (bpc + ucast off) len s"
| "exec_micro ops bpc (Blt rs1 rs2 imm off len) s =
     branch_step (reg_at s rs1 <s reg_at s rs2) imm (bpc + ucast off) len s"
| "exec_micro ops bpc (Bge rs1 rs2 imm off len) s =
     branch_step (reg_at s rs2 \<le>s reg_at s rs1) imm (bpc + ucast off) len s"
| "exec_micro ops bpc (Bltu rs1 rs2 imm off len) s =
     branch_step (reg_at s rs1 < reg_at s rs2) imm (bpc + ucast off) len s"
| "exec_micro ops bpc (Bgeu rs1 rs2 imm off len) s =
     branch_step (reg_at s rs1 \<ge> reg_at s rs2) imm (bpc + ucast off) len s"
| "exec_micro ops bpc (Ecall off) s =
     exit_step bpc off s"
| "exec_micro ops bpc (Ebreak off) s =
     exit_step bpc off s"
| "exec_micro ops bpc (Mret off) s =
     exit_step bpc off s"
| "exec_micro ops bpc (Sret off) s =
     exit_step bpc off s"
| "exec_micro ops bpc (SfenceVma off) s =
     exit_step bpc off s"
| "exec_micro ops bpc (Csrrw rd rs1 csrn off) s =
     exit_step bpc off s"
| "exec_micro ops bpc (Csrrs rd rs1 csrn off) s =
     exit_step bpc off s"
| "exec_micro ops bpc (Csrrc rd rs1 csrn off) s =
     exit_step bpc off s"
| "exec_micro ops bpc (Csrrwi rd zimm csrn off) s =
     exit_step bpc off s"
| "exec_micro ops bpc (Csrrsi rd zimm csrn off) s =
     exit_step bpc off s"
| "exec_micro ops bpc (Csrrci rd zimm csrn off) s =
     exit_step bpc off s"
| "exec_micro ops bpc (LrW rd rs1 off) s =
     exit_step bpc off s"
| "exec_micro ops bpc (LrD rd rs1 off) s =
     exit_step bpc off s"
| "exec_micro ops bpc (ScW rd rs1 rs2 off) s =
     exit_step bpc off s"
| "exec_micro ops bpc (ScD rd rs1 rs2 off) s =
     exit_step bpc off s"
| "exec_micro ops bpc (AmoSwap rd rs1 rs2 w off) s =
     exit_step bpc off s"
| "exec_micro ops bpc (AmoAdd rd rs1 rs2 w off) s =
     exit_step bpc off s"
| "exec_micro ops bpc (AmoXor rd rs1 rs2 w off) s =
     exit_step bpc off s"
| "exec_micro ops bpc (AmoAnd rd rs1 rs2 w off) s =
     exit_step bpc off s"
| "exec_micro ops bpc (AmoOr rd rs1 rs2 w off) s =
     exit_step bpc off s"
| "exec_micro ops bpc (AmoMin rd rs1 rs2 w off) s =
     exit_step bpc off s"
| "exec_micro ops bpc (AmoMax rd rs1 rs2 w off) s =
     exit_step bpc off s"
| "exec_micro ops bpc (AmoMinu rd rs1 rs2 w off) s =
     exit_step bpc off s"
| "exec_micro ops bpc (AmoMaxu rd rs1 rs2 w off) s =
     exit_step bpc off s"
| "exec_micro ops bpc (Wfi off) s =
     (Ok None, s)"
| "exec_micro ops bpc micro_op.Fence s = (Ok None, s)"

subsection \<open>Blocks\<close>

text \<open>The loop over the first \<open>len\<close> slots of the block.\<close>

primrec exec_micros ::
  "'b bus_ops \<Rightarrow> u64 \<Rightarrow> micro_op list \<Rightarrow> 'b machine \<Rightarrow> (block_exec_result option, trap) result \<times> 'b machine" where
  "exec_micros ops bpc [] s = (Ok None, s)"
| "exec_micros ops bpc (m # ms) s =
     bindS (exec_micro ops bpc m s) (\<lambda>r s.
       case r of Some res \<Rightarrow> (Ok (Some res), s) | None \<Rightarrow> exec_micros ops bpc ms s)"

definition execute_block_inner ::
  "'b bus_ops \<Rightarrow> block \<Rightarrow> 'b machine \<Rightarrow> (block_exec_result, trap) result \<times> 'b machine" where
  "execute_block_inner ops blk s =
     bindS (exec_micros ops (start_pc blk) (ops_slice blk) s) (\<lambda>r s.
       (Ok (case r of Some res \<Rightarrow> res | None \<Rightarrow> BlockContinue (start_pc blk + ucast (byte_len blk))), s))"

definition handle_block_result ::
  "'b bus_ops \<Rightarrow> block_exec_result \<Rightarrow> 'b machine \<Rightarrow> (unit, trap) result \<times> 'b machine" where
  "handle_block_result ops res s =
     (case res of
        BlockContinue next_pc \<Rightarrow> (Ok (), apfst (\<lambda>c. c\<lparr> cpu_pc := next_pc \<rparr>) s)
      | BlockTrap trap fault_pc \<Rightarrow> trapM trap fault_pc s
      | BlockExit next_pc \<Rightarrow> step_single ops (apfst (\<lambda>c. c\<lparr> cpu_pc := next_pc \<rparr>) s))"

definition bump_exec_count :: "u64 \<Rightarrow> cpu \<Rightarrow> cpu" where
  "bump_exec_count pc c = c\<lparr> cpu_block_cache := cache_update count_exec pc (cpu_block_cache c) \<rparr>"

text \<open>\<open>Some\<close> when a block was executed or its compilation trapped, \<open>None\<close> to fall back to the interpreter.  The
  result of the step is inside, as in the source.\<close>

definition try_execute_block ::
  "(u64 list \<Rightarrow> u64 list) \<Rightarrow> 'b bus_ops \<Rightarrow> 'b machine \<Rightarrow> (unit, trap) result option \<times> 'b machine" where
  "try_execute_block iter ops s =
     (let c = fst s; pc = cpu_pc c in
      case cache_get pc (cpu_block_cache c) of
        (Some blk, cache) \<Rightarrow>
          apfst Some (bindS (execute_block_inner ops blk (c\<lparr> cpu_block_cache := cache \<rparr>, snd s)) (\<lambda>res s.
            handle_block_result ops res (apfst (bump_exec_count pc) s)))
      | (None, cache) \<Rightarrow>
          (let c = c\<lparr> cpu_block_cache := cache \<rparr> in
           case compile ops (csr c CSR_SATP) (csr c CSR_MSTATUS) (cpu_mode c) pc (cache_generation cache) (cpu_tlb c, snd s) of
             (Ok (CompileOk blk), t, b) \<Rightarrow>
               apfst Some (bindS (execute_block_inner ops blk
                   (c\<lparr> cpu_tlb := t, cpu_block_cache := cache_insert iter blk cache \<rparr>, b)) (\<lambda>res s.
                 handle_block_result ops res s))
           | (Ok (CompileTrap e), t, b) \<Rightarrow> apfst Some (trapM e pc (c\<lparr> cpu_tlb := t \<rparr>, b))
           | (Ok Unsuitable, t, b) \<Rightarrow> (None, c\<lparr> cpu_tlb := t \<rparr>, b)
           | (Err e, t, b) \<Rightarrow> (Some (Err e), c\<lparr> cpu_tlb := t \<rparr>, b)
           | (Panic, t, b) \<Rightarrow> (Some Panic, c\<lparr> cpu_tlb := t \<rparr>, b)))"

definition step :: "(u64 list \<Rightarrow> u64 list) \<Rightarrow> 'b bus_ops \<Rightarrow> 'b machine \<Rightarrow> (unit, trap) result \<times> 'b machine" where
  "step iter ops s =
     bindS (count_poll ops s) (\<lambda>_ s.
       if use_blocks (fst s) then
         (case try_execute_block iter ops s of
            (Some r, s) \<Rightarrow> (r, s)
          | (None, s) \<Rightarrow> step_single_inner ops s)
       else step_single_inner ops s)"

end
