(* ===== verification/Rv_Dram.thy ===== *)
theory Rv_Dram
  imports Rv_Types
begin

text \<open>
  The native DRAM backing store (\<^verbatim>\<open>riscv-vm/src/dram.rs\<close>).  A \<open>usize\<close> is a 64-bit word; the bytes
  are a function on their index.  The accessors go through raw pointers after a bounds check; an
  access beyond the buffer, which the check is meant to exclude, is the outcome \<open>Panic\<close>.  The checks
  add with wrap-around, so excluding it needs the offset not to be within a few bytes of \<open>2\<^sup>6\<^sup>4\<close>.

  The lemmas are the laws of a little-endian byte memory: a load returns the last store to the
  same place, and stores elsewhere do not disturb it.
\<close>

unbundle bit_operations_syntax

subsection \<open>State and byte order\<close>

datatype memory_error = OutOfBounds u64 | InvalidAlignment u64

record dram =
  dram_base :: u64
  dram_size :: u64
  dram_data :: "nat \<Rightarrow> u8"

definition DRAM_BASE :: u64 where "DRAM_BASE = 0x80000000"

primrec le_read :: "nat \<Rightarrow> (nat \<Rightarrow> u8) \<Rightarrow> nat \<Rightarrow> u64" where
  "le_read 0 d i = 0"
| "le_read (Suc n) d i = zext8 (d i) OR shl (le_read n d (Suc i)) 8"

primrec le_write :: "nat \<Rightarrow> u64 \<Rightarrow> (nat \<Rightarrow> u8) \<Rightarrow> nat \<Rightarrow> (nat \<Rightarrow> u8)" where
  "le_write 0 v d i = d"
| "le_write (Suc n) v d i = le_write n (shr v 8) (d(i := low8 v)) (Suc i)"

definition copy_in :: "u8 list \<Rightarrow> (nat \<Rightarrow> u8) \<Rightarrow> nat \<Rightarrow> (nat \<Rightarrow> u8)" where
  "copy_in xs d i = (\<lambda>j. if i \<le> j \<and> j < i + length xs then xs ! (j - i) else d j)"

text \<open>The raw access after a successful check.\<close>

definition raw_read :: "dram \<Rightarrow> nat \<Rightarrow> u64 \<Rightarrow> (u64, memory_error) result" where
  "raw_read m n off =
     (if unat off + n \<le> unat (dram_size m) then Ok (le_read n (dram_data m) (unat off)) else Panic)"

definition raw_write :: "nat \<Rightarrow> u64 \<Rightarrow> u64 \<Rightarrow> dram \<Rightarrow> (unit, memory_error) result \<times> dram" where
  "raw_write n off v m =
     (if unat off + n \<le> unat (dram_size m)
      then (Ok (), m\<lparr> dram_data := le_write n v (dram_data m) (unat off) \<rparr>) else (Panic, m))"

subsection \<open>Operations\<close>

definition dram_new :: "u64 \<Rightarrow> u64 \<Rightarrow> dram" where
  "dram_new b sz = \<lparr> dram_base = b, dram_size = sz, dram_data = (\<lambda>_. 0) \<rparr>"

definition dram_offset :: "dram \<Rightarrow> u64 \<Rightarrow> u64 option" where
  "dram_offset m addr =
     (let off = addr - dram_base m in if off < dram_size m then Some off else None)"

definition load_8 :: "dram \<Rightarrow> u64 \<Rightarrow> (u8, memory_error) result" where
  "load_8 m offset =
     (if offset \<ge> dram_size m then Err (OutOfBounds offset)
      else map_result low8 id (raw_read m 1 offset))"

definition load_16 :: "dram \<Rightarrow> u64 \<Rightarrow> (u16, memory_error) result" where
  "load_16 m offset =
     (if offset mod 2 \<noteq> 0 then Err (InvalidAlignment offset)
      else if offset + 2 > dram_size m then Err (OutOfBounds offset)
      else map_result low16 id (raw_read m 2 offset))"

definition load_32 :: "dram \<Rightarrow> u64 \<Rightarrow> (u32, memory_error) result" where
  "load_32 m offset =
     (if offset mod 4 \<noteq> 0 then Err (InvalidAlignment offset)
      else if offset + 4 > dram_size m then Err (OutOfBounds offset)
      else map_result low32 id (raw_read m 4 offset))"

definition load_64 :: "dram \<Rightarrow> u64 \<Rightarrow> (u64, memory_error) result" where
  "load_64 m offset =
     (if offset mod 8 \<noteq> 0 then Err (InvalidAlignment offset)
      else if offset + 8 > dram_size m then Err (OutOfBounds offset)
      else raw_read m 8 offset)"

definition store_8 :: "u64 \<Rightarrow> u64 \<Rightarrow> dram \<Rightarrow> (unit, memory_error) result \<times> dram" where
  "store_8 offset v m =
     (if offset \<ge> dram_size m then (Err (OutOfBounds offset), m)
      else raw_write 1 offset (v AND 0xFF) m)"

definition store_16 :: "u64 \<Rightarrow> u64 \<Rightarrow> dram \<Rightarrow> (unit, memory_error) result \<times> dram" where
  "store_16 offset v m =
     (if offset mod 2 \<noteq> 0 then (Err (InvalidAlignment offset), m)
      else if offset + 2 > dram_size m then (Err (OutOfBounds offset), m)
      else raw_write 2 offset v m)"

definition store_32 :: "u64 \<Rightarrow> u64 \<Rightarrow> dram \<Rightarrow> (unit, memory_error) result \<times> dram" where
  "store_32 offset v m =
     (if offset mod 4 \<noteq> 0 then (Err (InvalidAlignment offset), m)
      else if offset + 4 > dram_size m then (Err (OutOfBounds offset), m)
      else raw_write 4 offset v m)"

definition store_64 :: "u64 \<Rightarrow> u64 \<Rightarrow> dram \<Rightarrow> (unit, memory_error) result \<times> dram" where
  "store_64 offset v m =
     (if offset mod 8 \<noteq> 0 then (Err (InvalidAlignment offset), m)
      else if offset + 8 > dram_size m then (Err (OutOfBounds offset), m)
      else raw_write 8 offset v m)"

definition write_bytes :: "u64 \<Rightarrow> u8 list \<Rightarrow> dram \<Rightarrow> (unit, memory_error) result \<times> dram" where
  "write_bytes offset xs m =
     (if offset + word_of_nat (length xs) > dram_size m then (Err (OutOfBounds offset), m)
      else if unat offset + length xs \<le> unat (dram_size m)
      then (Ok (), m\<lparr> dram_data := copy_in xs (dram_data m) (unat offset) \<rparr>) else (Panic, m))"

definition dram_load :: "u8 list \<Rightarrow> u64 \<Rightarrow> dram \<Rightarrow> (unit, memory_error) result \<times> dram" where
  "dram_load xs offset m = write_bytes offset xs m"

definition zero_range :: "u64 \<Rightarrow> u64 \<Rightarrow> dram \<Rightarrow> (unit, memory_error) result \<times> dram" where
  "zero_range offset len m =
     (if offset + len > dram_size m then (Err (OutOfBounds offset), m)
      else if unat offset + unat len \<le> unat (dram_size m)
      then (Ok (), m\<lparr> dram_data := copy_in (replicate (unat len) 0) (dram_data m) (unat offset) \<rparr>)
      else (Panic, m))"

definition read_range :: "dram \<Rightarrow> u64 \<Rightarrow> u64 \<Rightarrow> (u8 list, memory_error) result" where
  "read_range m offset len =
     (if offset + len > dram_size m then Err (OutOfBounds offset)
      else if unat offset + unat len \<le> unat (dram_size m)
      then Ok (map (dram_data m) [unat offset..<unat offset + unat len]) else Panic)"

definition get_data :: "dram \<Rightarrow> u8 list" where
  "get_data m = map (dram_data m) [0..<unat (dram_size m)]"

definition set_data :: "u8 list \<Rightarrow> dram \<Rightarrow> (unit, memory_error) result \<times> dram" where
  "set_data xs m =
     (if length xs \<noteq> unat (dram_size m) then (Err (OutOfBounds (word_of_nat (length xs))), m)
      else (Ok (), m\<lparr> dram_data := copy_in xs (dram_data m) 0 \<rparr>))"

subsection \<open>Little-endian memory\<close>

lemma le_write_outside: "j < i \<or> i + n \<le> j \<Longrightarrow> le_write n v d i j = d j"
  by (induction n arbitrary: v d i) auto

lemma le_write_inside:
  "i \<le> j \<Longrightarrow> j < i + n \<Longrightarrow> le_write n v d i j = low8 (shr v (8 * (j - i)))"
proof (induction n arbitrary: v d i)
  case (Suc n)
  show ?case
  proof (cases "j = i")
    case True
    then show ?thesis by (simp add: le_write_outside)
  next
    case False
    then have "8 * (j - i) = 8 + 8 * (j - Suc i)" using Suc.prems by simp
    then show ?thesis using Suc False by (simp add: drop_bit_drop_bit add.commute)
  qed
qed simp

lemma le_write_cong:
  assumes "\<And>k. k < 8 * n \<Longrightarrow> bit v k = bit w k"
  shows "le_write n v d i = le_write n w d i"
proof
  fix j
  show "le_write n v d i j = le_write n w d i j"
  proof (cases "i \<le> j \<and> j < i + n")
    case True
    then have "8 * (j - i) + k < 8 * n" if "k < 8" for k using that by linarith
    then have "low8 (shr v (8 * (j - i))) = low8 (shr w (8 * (j - i)))"
      by (intro bit_word_eqI) (simp add: bitx assms)
    then show ?thesis using True by (simp add: le_write_inside)
  qed (auto simp: le_write_outside)
qed

lemma le_read_cong: "(\<And>j. i \<le> j \<Longrightarrow> j < i + n \<Longrightarrow> d j = d' j) \<Longrightarrow> le_read n d i = le_read n d' i"
  by (induction n arbitrary: i) auto

lemma le_read_write_disjoint:
  "i + n \<le> j \<or> j + k \<le> i \<Longrightarrow> le_read n (le_write k v d j) i = le_read n d i"
  by (rule le_read_cong) (auto intro!: le_write_outside)

lemma bit_le_read:
  "bit (le_read n d i) k \<longleftrightarrow> k < 64 \<and> k < 8 * n \<and> bit (d (i + k div 8)) (k mod 8)"
proof (induction n arbitrary: i k)
  case (Suc n)
  show ?case
  proof (cases "k < 8")
    case True
    then show ?thesis by (auto simp: bitx dest: bit_imp_le_length)
  next
    case False
    then have "(k - 8) div 8 = k div 8 - 1" "(k - 8) mod 8 = k mod 8" "0 < k div 8"
      "k - 8 < 8 * n \<longleftrightarrow> k < 8 * Suc n" "k < 64 \<Longrightarrow> k - 8 < 64"
      by (auto simp: le_mod_geq le_div_geq)
    then show ?thesis using Suc False by (auto simp: bitx dest: bit_imp_le_length)
  qed
qed simp

lemma le_read_write: "n \<le> 8 \<Longrightarrow> le_read n (le_write n v d i) i = take_bit (8 * n) v"
proof (rule bit_word_eqI)
  fix k assume "n \<le> 8" "k < LENGTH(64)"
  then have "k < 8 * n \<Longrightarrow> le_write n v d i (i + k div 8) = low8 (shr v (8 * (k div 8)))"
    by (subst le_write_inside) auto
  then show "bit (le_read n (le_write n v d i) i) k = bit (take_bit (8 * n) v) k"
    using \<open>k < LENGTH(64)\<close> by (auto simp: bit_le_read bit_take_bit_iff bitx)
qed

subsection \<open>Accessors\<close>

text \<open>The four widths share one description: \<open>load_n\<close> and \<open>store_n\<close> on \<open>n\<close> bytes.\<close>

definition load_n :: "nat \<Rightarrow> dram \<Rightarrow> u64 \<Rightarrow> (u64, memory_error) result" where
  "load_n n m offset =
     (if n = 1 then map_result zext8 id (load_8 m offset)
      else if n = 2 then map_result zext16 id (load_16 m offset)
      else if n = 4 then map_result zext32 id (load_32 m offset)
      else load_64 m offset)"

definition store_n :: "nat \<Rightarrow> u64 \<Rightarrow> u64 \<Rightarrow> dram \<Rightarrow> (unit, memory_error) result \<times> dram" where
  "store_n n offset v m =
     (if n = 1 then store_8 offset v m else if n = 2 then store_16 offset v m
      else if n = 4 then store_32 offset v m else store_64 offset v m)"

text \<open>An aligned range inside the buffer, away from the wrap-around of the bounds check.\<close>

definition in_range :: "nat \<Rightarrow> dram \<Rightarrow> u64 \<Rightarrow> bool" where
  "in_range n m offset \<longleftrightarrow> unat offset mod n = 0 \<and> unat offset + n \<le> unat (dram_size m)"

lemma widths_unfold:
  "load_n 1 m off = map_result zext8 id (load_8 m off)" "load_n 2 m off = map_result zext16 id (load_16 m off)"
  "load_n 4 m off = map_result zext32 id (load_32 m off)" "load_n 8 m off = load_64 m off"
  "store_n 1 off v m = store_8 off v m" "store_n 2 off v m = store_16 off v m"
  "store_n 4 off v m = store_32 off v m" "store_n 8 off v m = store_64 off v m"
  by (simp_all add: load_n_def store_n_def)

lemma mod_0_unat:
  fixes w :: u64
  shows "(w mod 2 = 0) = (unat w mod 2 = 0)" "(w mod 4 = 0) = (unat w mod 4 = 0)"
    "(w mod 8 = 0) = (unat w mod 8 = 0)"
proof -
  have "(w mod k = 0) = (unat w mod unat k = 0)" for k
    by (metis unat_eq_zero unat_mod)
  from this [of 2] this [of 4] this [of 8] show "(w mod 2 = 0) = (unat w mod 2 = 0)"
    "(w mod 4 = 0) = (unat w mod 4 = 0)" "(w mod 8 = 0) = (unat w mod 8 = 0)"
    by simp_all
qed

lemma bounds_check:
  fixes off sz :: u64
  assumes "unat off + n \<le> unat sz"
  shows "\<not> off + word_of_nat n > sz"
proof -
  have "unat sz < 2 ^ 64" using unsigned_less [of sz] by simp
  then have "unat (off + word_of_nat n) = unat off + n"
    using assms by (simp add: unat_word_ariths unat_of_nat take_bit_eq_mod)
  then show ?thesis using assms by (simp add: word_less_nat_alt)
qed

lemma le_read_bound: "zext8 (low8 (le_read 1 d i)) = le_read 1 d i"
  "zext16 (low16 (le_read 2 d i)) = le_read 2 d i" "zext32 (low32 (le_read 4 d i)) = le_read 4 d i"
  by (rule bit_word_eqI; auto simp: bitx bit_le_read dest: bit_imp_le_length)+

lemma load_in_range:
  assumes "n \<in> {1, 2, 4, 8}" "in_range n m off"
  shows "load_n n m off = Ok (le_read n (dram_data m) (unat off))"
proof -
  have "\<not> off + word_of_nat n > dram_size m" "\<not> off \<ge> dram_size m"
    using assms bounds_check [of off n "dram_size m"]
    by (auto simp: in_range_def word_le_nat_alt)
  note facts = this assms(2) le_read_bound
  consider "n = 1" | "n = 2" | "n = 4" | "n = 8" using assms(1) by auto
  then show ?thesis
    by cases (use facts in \<open>simp_all add: load_n_def load_8_def load_16_def load_32_def load_64_def
        raw_read_def in_range_def mod_0_unat del: le_read.simps\<close>)
qed

lemma store_in_range:
  assumes "n \<in> {1, 2, 4, 8}" "in_range n m off"
  shows "store_n n off v m = (Ok (), m\<lparr> dram_data := le_write n v (dram_data m) (unat off) \<rparr>)"
proof -
  have "\<not> off + word_of_nat n > dram_size m" "\<not> off \<ge> dram_size m" "low8 (v AND 0xFF) = low8 v"
    using assms bounds_check [of off n "dram_size m"]
    by (auto simp: in_range_def word_le_nat_alt) (auto intro!: bit_word_eqI simp: bitx)
  note facts = this assms(2)
  consider "n = 1" | "n = 2" | "n = 4" | "n = 8" using assms(1) by auto
  then show ?thesis
    by cases (use facts in \<open>simp_all add: store_n_def store_8_def store_16_def store_32_def store_64_def
        raw_write_def in_range_def mod_0_unat\<close>)
qed

lemma in_range_data [simp]: "in_range n (m\<lparr> dram_data := d \<rparr>) off = in_range n m off"
  by (simp add: in_range_def)

subsection \<open>Bounds checks that do not wrap around\<close>

definition same_geometry :: "dram \<Rightarrow> dram \<Rightarrow> bool" where
  "same_geometry m m' \<longleftrightarrow> dram_base m' = dram_base m \<and> dram_size m' = dram_size m"

lemma same_geometry_simps [simp]:
  "same_geometry m m" "same_geometry m (m'\<lparr> dram_data := d \<rparr>) = same_geometry m m'"
  by (simp_all add: same_geometry_def)

lemma same_geometry_trans: "same_geometry a b \<Longrightarrow> same_geometry b c \<Longrightarrow> same_geometry a c"
  by (simp add: same_geometry_def)

definition no_wrap :: "nat \<Rightarrow> u64 \<Rightarrow> bool" where
  "no_wrap k off \<longleftrightarrow> unat off + k < 2 ^ 64"

lemma check_no_wrap:
  fixes off sz :: u64
  assumes "unat off + n < 2 ^ 64"
  shows "off + word_of_nat n > sz \<or> unat off + n \<le> unat sz"
proof -
  have "unat (off + word_of_nat n) = unat off + n"
    using assms by (simp add: unat_word_ariths unat_of_nat)
  then show ?thesis by (auto simp: word_less_nat_alt)
qed

lemma load_no_panic:
  assumes "no_wrap 8 off"
  shows "load_8 m off \<noteq> Panic" "load_16 m off \<noteq> Panic" "load_32 m off \<noteq> Panic" "load_64 m off \<noteq> Panic"
  using check_no_wrap [of off 2 "dram_size m"] check_no_wrap [of off 4 "dram_size m"]
    check_no_wrap [of off 8 "dram_size m"] assms
  by (auto simp: no_wrap_def load_8_def load_16_def load_32_def load_64_def raw_read_def word_le_nat_alt)

lemma store_safe_geometry:
  assumes "no_wrap 8 off"
  shows "safe (same_geometry m) (store_8 off v m)" "safe (same_geometry m) (store_16 off v m)"
    "safe (same_geometry m) (store_32 off v m)" "safe (same_geometry m) (store_64 off v m)"
  using check_no_wrap [of off 2 "dram_size m"] check_no_wrap [of off 4 "dram_size m"]
    check_no_wrap [of off 8 "dram_size m"] assms
  by (auto simp: no_wrap_def store_8_def store_16_def store_32_def store_64_def raw_write_def word_le_nat_alt)

lemma store_safe_from:
  assumes "no_wrap 8 off" "same_geometry m0 m"
  shows "safe (same_geometry m0) (store_8 off v m)" "safe (same_geometry m0) (store_16 off v m)"
    "safe (same_geometry m0) (store_32 off v m)" "safe (same_geometry m0) (store_64 off v m)"
  using store_safe_geometry [OF assms(1), of m v] assms(2)
  by (auto simp: safe_def intro: same_geometry_trans)

text \<open>A load returns the low bytes of the last store to the same aligned place, and is not
  disturbed by a store of any width to a place that does not overlap.\<close>

theorem dram_load_after_store:
  assumes "n \<in> {1, 2, 4, 8}" "k \<in> {1, 2, 4, 8}" "in_range n m off" "in_range k m off'"
    and "store_n n off v m = (r, m')"
  shows "r = Ok () \<and> load_n n m' off = Ok (take_bit (8 * n) v) \<and>
    (unat off + n \<le> unat off' \<or> unat off' + k \<le> unat off \<longrightarrow> load_n k m' off' = load_n k m off')"
proof -
  have m': "r = Ok ()" "m' = m\<lparr> dram_data := le_write n v (dram_data m) (unat off) \<rparr>"
    using store_in_range [OF assms(1,3)] assms(5) by auto
  have "n \<le> 8" using assms(1) by auto
  then show ?thesis
    using m' load_in_range [OF assms(1), of m' off] load_in_range [OF assms(2), of _ off'] assms(3,4)
    by (auto simp: le_read_write le_read_write_disjoint)
qed

theorem dram_load_after_store_witness:
  "load_n 4 (snd (store_n 8 16 0x1122334455667788 (dram_new DRAM_BASE 4096))) 0x40 = Ok 0 \<and>
   load_n 8 (snd (store_n 8 16 0x1122334455667788 (dram_new DRAM_BASE 4096))) 16 = Ok 0x1122334455667788"
proof -
  let ?m = "dram_new DRAM_BASE 4096"
  have r: "in_range 8 ?m 16" "in_range 4 ?m 0x40" by (simp_all add: in_range_def dram_new_def)
  have "load_n 4 ?m 0x40 = Ok 0" by code_simp
  then show ?thesis
    using dram_load_after_store [of 8 4 ?m 16 "0x40" "0x1122334455667788" "fst (store_n 8 16 0x1122334455667788 ?m)"
        "snd (store_n 8 16 0x1122334455667788 ?m)"] r by simp
qed

text \<open>An offset that the bus obtained from \<open>offset\<close> never leads to an access outside the
  buffer, for any width: the bounds checks in front of the raw accesses are sufficient.\<close>

theorem dram_bus_access_in_bounds:
  assumes "dram_offset m addr = Some off" "unat (dram_size m) < 2 ^ 64 - 8" "n \<in> {1, 2, 4, 8}"
  shows "load_n n m off \<noteq> Panic \<and> fst (store_n n off v m) \<noteq> Panic"
proof -
  have "unat off < unat (dram_size m)"
    using assms(1) by (auto simp: dram_offset_def Let_def word_less_nat_alt split: if_splits)
  then have *: "unat off + k \<le> unat (dram_size m) \<longleftrightarrow> \<not> off + word_of_nat k > dram_size m" if "k \<le> 8" for k
    using assms(2) that by (simp add: word_less_nat_alt unat_word_ariths unat_of_nat take_bit_eq_mod not_less)
  consider "n = 1" | "n = 2" | "n = 4" | "n = 8" using assms(3) by auto
  then show ?thesis
  proof cases
    case 1
    then show ?thesis using * [of 1] \<open>unat off < unat (dram_size m)\<close>
      by (simp add: load_n_def store_n_def load_8_def store_8_def raw_read_def raw_write_def)
  next
    case 2
    then show ?thesis using * [of 2]
      by (simp add: widths_unfold load_16_def store_16_def raw_read_def raw_write_def)
  next
    case 3
    then show ?thesis using * [of 4]
      by (simp add: widths_unfold load_32_def store_32_def raw_read_def raw_write_def)
  next
    case 4
    then show ?thesis using * [of 8]
      by (simp add: widths_unfold load_64_def store_64_def raw_read_def raw_write_def)
  qed
qed

theorem dram_bus_access_in_bounds_witness:
  "dram_offset (dram_new DRAM_BASE 4096) 0x80000FFF = Some 0xFFF \<and>
   load_n 8 (dram_new DRAM_BASE 4096) 0xFFF \<noteq> Panic"
proof -
  have *: "dram_offset (dram_new DRAM_BASE 4096) 0x80000FFF = Some 0xFFF" by code_simp
  then show ?thesis
    using dram_bus_access_in_bounds [OF *, of 8] by (simp add: dram_new_def)
qed

end
