(* ===== verification/Rv_Virtio.thy ===== *)
theory Rv_Virtio
  imports Rv_Dram
begin

text \<open>
  The virtio MMIO devices (\<^verbatim>\<open>riscv-vm/src/devices/virtio\<close>): the \<open>VirtioDevice\<close> trait (\<^verbatim>\<open>device.rs\<close>) as a
  record of methods, the entropy source (\<^verbatim>\<open>rng.rs\<close>) and the block device (\<^verbatim>\<open>block.rs\<close>).  The two devices have
  the same registers, which the source writes out twice; they are one extensible record here, to
  which the block device adds its disk.  The \<open>debug\<close> flag, which only guards logging, is left out.
  Serving the queue is a loop that ends when \<open>last_avail_idx\<close> reaches the driver's index.
\<close>

unbundle bit_operations_syntax

subsection \<open>The device interface\<close>

record 'd virtio_ops =
  v_read :: "u64 \<Rightarrow> 'd \<Rightarrow> (u64, memory_error) result \<times> 'd"
  v_write :: "u64 \<Rightarrow> u64 \<Rightarrow> 'd \<times> dram \<Rightarrow> (unit, memory_error) result \<times> 'd \<times> dram"
  v_is_interrupting :: "'d \<Rightarrow> bool"
  v_device_id :: "'d \<Rightarrow> u32"
  v_poll :: "'d \<times> dram \<Rightarrow> (unit, memory_error) result \<times> 'd \<times> dram"

abbreviation QUEUE_SIZE :: u32 where "QUEUE_SIZE \<equiv> 16"
abbreviation VIRTIO_BLK_DEVICE_ID :: u32 where "VIRTIO_BLK_DEVICE_ID \<equiv> 2"
abbreviation VIRTIO_RNG_DEVICE_ID :: u32 where "VIRTIO_RNG_DEVICE_ID \<equiv> 4"
abbreviation VRING_DESC_F_NEXT :: u64 where "VRING_DESC_F_NEXT \<equiv> 1"
abbreviation VRING_DESC_F_WRITE :: u64 where "VRING_DESC_F_WRITE \<equiv> 2"

definition default_poll :: "'d \<times> dram \<Rightarrow> (unit, memory_error) result \<times> 'd \<times> dram" where
  "default_poll s = (Ok (), s)"

subsection \<open>Registers\<close>

record virtio_regs =
  driver_features :: u32
  driver_features_sel :: u32
  device_features_sel :: u32
  page_size :: u32
  queue_sel :: u32
  queue_num :: u32
  queue_desc :: u64
  queue_avail :: u64
  queue_used :: u64
  queue_ready :: bool
  interrupt_status :: u32
  dev_status :: u32
  last_avail_idx :: u16

record virtio_block = virtio_regs +
  disk :: "u8 list"

definition virtio_rng_new :: virtio_regs where
  "virtio_rng_new = \<lparr> driver_features = 0, driver_features_sel = 0, device_features_sel = 0,
     page_size = 4096, queue_sel = 0, queue_num = 0, queue_desc = 0, queue_avail = 0, queue_used = 0,
     queue_ready = False, interrupt_status = 0, dev_status = 0, last_avail_idx = 0 \<rparr>"

definition virtio_block_new :: "u8 list \<Rightarrow> virtio_block" where
  "virtio_block_new disk_image = \<lparr> driver_features = 0, driver_features_sel = 0, device_features_sel = 0,
     page_size = 4096, queue_sel = 0, queue_num = 0, queue_desc = 0, queue_avail = 0, queue_used = 0,
     queue_ready = False, interrupt_status = 0, dev_status = 0, last_avail_idx = 0, disk = disk_image \<rparr>"

definition phys_to_offset :: "u64 \<Rightarrow> (u64, memory_error) result" where
  "phys_to_offset addr = (if addr < DRAM_BASE then Err (OutOfBounds addr) else Ok (addr - DRAM_BASE))"

definition regs_is_interrupting :: "'a virtio_regs_scheme \<Rightarrow> bool" where
  "regs_is_interrupting s \<longleftrightarrow> interrupt_status s \<noteq> 0"

text \<open>The reads common to both devices; \<open>feat\<close> is the device's feature word and \<open>config\<close> its
  configuration space.\<close>

definition regs_read :: "u32 \<Rightarrow> u64 \<Rightarrow> u64 \<Rightarrow> 'a virtio_regs_scheme \<Rightarrow> u64 \<Rightarrow> u64" where
  "regs_read dev_id feat config s offset =
     (if offset = 0x000 then 0x74726976
      else if offset = 0x004 then 2
      else if offset = 0x008 then zext32 dev_id
      else if offset = 0x00c then 0x554d4551
      else if offset = 0x010 then feat
      else if offset = 0x014 then zext32 (device_features_sel s)
      else if offset = 0x020 then zext32 (driver_features s)
      else if offset = 0x024 then zext32 (driver_features_sel s)
      else if offset = 0x028 then zext32 (page_size s)
      else if offset = 0x034 then zext32 QUEUE_SIZE
      else if offset = 0x030 then zext32 (queue_sel s)
      else if offset = 0x038 then zext32 (queue_num s)
      else if offset = 0x044 then (if queue_ready s then 1 else 0)
      else if offset = 0x060 then zext32 (interrupt_status s)
      else if offset = 0x070 then zext32 (dev_status s)
      else if offset = 0x0fc then 0
      else config)"

definition set_low :: "u64 \<Rightarrow> u32 \<Rightarrow> u64" where
  "set_low w v = (w AND 0xFFFFFFFF00000000) OR zext32 v"

definition set_high :: "u64 \<Rightarrow> u32 \<Rightarrow> u64" where
  "set_high w v = (w AND 0x00000000FFFFFFFF) OR shl (zext32 v) 32"

text \<open>The legacy layout: the descriptor table at the page, the available ring after it, and the used
  ring at the next page boundary.\<close>

definition queue_pfn :: "u64 \<Rightarrow> 'a virtio_regs_scheme \<Rightarrow> 'a virtio_regs_scheme" where
  "queue_pfn pfn s =
     (if pfn \<noteq> 0 then
        (let desc = pfn * zext32 (page_size s);
             avail = desc + 16 * zext32 (queue_num s);
             avail_size = 6 + 2 * zext32 (queue_num s);
             used = (avail + avail_size + zext32 (page_size s) - 1) AND NOT (zext32 (page_size s) - 1)
         in s\<lparr> queue_desc := desc, queue_avail := avail, queue_used := used, queue_ready := True \<rparr>)
      else s)"

text \<open>The register writes other than \<open>QUEUE_NOTIFY\<close>, which are the same in both devices.\<close>

definition regs_write :: "u64 \<Rightarrow> u32 \<Rightarrow> 'a virtio_regs_scheme \<Rightarrow> 'a virtio_regs_scheme" where
  "regs_write offset val32 s =
     (if offset = 0x014 then s\<lparr> device_features_sel := val32 \<rparr>
      else if offset = 0x020 then s\<lparr> driver_features := val32 \<rparr>
      else if offset = 0x024 then s\<lparr> driver_features_sel := val32 \<rparr>
      else if offset = 0x030 then s\<lparr> queue_sel := val32 \<rparr>
      else if offset = 0x038 then s\<lparr> queue_num := val32 \<rparr>
      else if offset = 0x028 then s\<lparr> page_size := val32 \<rparr>
      else if offset = 0x040 then queue_pfn (zext32 val32) s
      else if offset = 0x044 then s\<lparr> queue_ready := val32 \<noteq> 0 \<rparr>
      else if offset = 0x064 then s\<lparr> interrupt_status := interrupt_status s AND NOT val32 \<rparr>
      else if offset = 0x070 then
        (if val32 = 0
         then s\<lparr> dev_status := 0, queue_ready := False, interrupt_status := 0, last_avail_idx := 0 \<rparr>
         else s\<lparr> dev_status := val32 \<rparr>)
      else if offset = 0x080 then s\<lparr> queue_desc := set_low (queue_desc s) val32 \<rparr>
      else if offset = 0x084 then s\<lparr> queue_desc := set_high (queue_desc s) val32 \<rparr>
      else if offset = 0x090 then s\<lparr> queue_avail := set_low (queue_avail s) val32 \<rparr>
      else if offset = 0x094 then s\<lparr> queue_avail := set_high (queue_avail s) val32 \<rparr>
      else if offset = 0x0a0 then s\<lparr> queue_used := set_low (queue_used s) val32 \<rparr>
      else if offset = 0x0a4 then s\<lparr> queue_used := set_high (queue_used s) val32 \<rparr>
      else s)"

subsection \<open>Rings in DRAM\<close>

text \<open>A load at a guest-physical address, \<open>dram.load_n(Self::phys_to_offset(addr)?)?\<close>, and the loads and
  stores at an offset, over a state that contains the DRAM.\<close>

definition load16_at :: "u64 \<Rightarrow> dram \<Rightarrow> (u16, memory_error) result \<times> dram" where
  "load16_at addr m = bindS (phys_to_offset addr, m) (\<lambda>off m. (load_16 m off, m))"

text \<open>The completion of a request: the element of the used ring and the used index.\<close>

definition push_used :: "u64 \<Rightarrow> u64 \<Rightarrow> u16 \<Rightarrow> u32 \<Rightarrow> dram \<Rightarrow> (unit, memory_error) result \<times> dram" where
  "push_used used qsz head len m =
     (let used_idx_addr = used + 2 in
      bindS (load16_at used_idx_addr m) (\<lambda>used_idx m.
      let elem_addr = used + 4 + (zext16 used_idx mod qsz) * 8 in
      bindS (phys_to_offset elem_addr, m) (\<lambda>off_elem_addr m.
      bindS (store_32 off_elem_addr (zext16 head) m) (\<lambda>_ m.
      bindS (store_32 (off_elem_addr + 4) (zext32 len) m) (\<lambda>_ m.
      bindS (phys_to_offset used_idx_addr, m) (\<lambda>off m.
        store_16 off (zext16 (used_idx + 1)) m))))))"

subsection \<open>The entropy source\<close>

primrec rng_fill :: "u64 \<Rightarrow> nat list \<Rightarrow> dram \<Rightarrow> (unit, memory_error) result \<times> dram" where
  "rng_fill buffer_addr [] m = (Ok (), m)"
| "rng_fill buffer_addr (i # is) m =
     bindS (phys_to_offset (buffer_addr + word_of_nat i), m) (\<lambda>off m.
     bindS (store_8 off (zext8 (word_of_nat i + 42)) m) (\<lambda>_ m.
       rng_fill buffer_addr is m))"

text \<open>One iteration of the loop of \<open>process_queue\<close>, up to the increment of \<open>last_avail_idx\<close>.\<close>

definition rng_serve :: "virtio_regs \<Rightarrow> dram \<Rightarrow> (unit, memory_error) result \<times> dram" where
  "rng_serve s m =
     (let ring_slot = zext32 (ucast (last_avail_idx s) mod QUEUE_SIZE) in
      bindS (load16_at (queue_avail s + 4 + ring_slot * 2) m) (\<lambda>head_desc_idx m.
      bindS (phys_to_offset (queue_desc s + zext16 head_desc_idx * 16), m) (\<lambda>off m.
      bindS (load_64 m off, m) (\<lambda>buffer_addr m.
      bindS (load_32 m (off + 8), m) (\<lambda>buffer_len m.
      bindS (load_16 m (off + 12), m) (\<lambda>flags m.
      bindS (if zext16 flags AND VRING_DESC_F_WRITE \<noteq> 0 then rng_fill buffer_addr [0..<unat buffer_len] m
             else (Ok (), m)) (\<lambda>_ m.
        push_used (queue_used s) (zext32 QUEUE_SIZE) head_desc_idx buffer_len m)))))))"

function rng_loop :: "u16 \<Rightarrow> virtio_regs \<times> dram \<Rightarrow> (unit, memory_error) result \<times> virtio_regs \<times> dram" where
  "rng_loop avail_idx (s, m) =
     (if last_avail_idx s = avail_idx then (Ok (), s, m)
      else case rng_serve s m of
         (Ok _, m) \<Rightarrow> rng_loop avail_idx (s\<lparr> last_avail_idx := last_avail_idx s + 1 \<rparr>, m)
       | (Err e, m) \<Rightarrow> (Err e, s, m)
       | (Panic, m) \<Rightarrow> (Panic, s, m))"
  by pat_completeness auto

termination rng_loop
proof (relation "measure (\<lambda>(avail_idx, s, m). unat (avail_idx - last_avail_idx s))", goal_cases)
  case 1
  then show ?case by simp
next
  case (2 avail_idx s)
  then show ?case by (simp add: unat_less_step)
qed

definition rng_process_queue :: "virtio_regs \<times> dram \<Rightarrow> (unit, memory_error) result \<times> virtio_regs \<times> dram" where
  "rng_process_queue sm =
     (case sm of (s, m) \<Rightarrow>
      case load16_at (queue_avail s + 2) m of
         (Ok avail_idx, m) \<Rightarrow>
           (let processed_any = last_avail_idx s \<noteq> avail_idx in
            bindS (rng_loop avail_idx (s, m)) (\<lambda>_ (s, m).
              (Ok (), if processed_any then s\<lparr> interrupt_status := interrupt_status s OR 1 \<rparr> else s, m)))
       | (Err e, m) \<Rightarrow> (Err e, s, m)
       | (Panic, m) \<Rightarrow> (Panic, s, m))"

definition rng_read :: "u64 \<Rightarrow> virtio_regs \<Rightarrow> (u64, memory_error) result \<times> virtio_regs" where
  "rng_read offset s = (Ok (regs_read VIRTIO_RNG_DEVICE_ID 0 0 s offset), s)"

definition rng_write :: "u64 \<Rightarrow> u64 \<Rightarrow> virtio_regs \<times> dram \<Rightarrow> (unit, memory_error) result \<times> virtio_regs \<times> dram" where
  "rng_write offset val sm =
     (let val32 = low32 val in
      if offset = 0x050 then (if val32 = 0 then rng_process_queue sm else (Ok (), sm))
      else (Ok (), regs_write offset val32 (fst sm), snd sm))"

definition rng_ops :: "virtio_regs virtio_ops" where
  "rng_ops = \<lparr> v_read = rng_read, v_write = rng_write, v_is_interrupting = regs_is_interrupting,
     v_device_id = (\<lambda>_. VIRTIO_RNG_DEVICE_ID), v_poll = default_poll \<rparr>"

subsection \<open>The block device\<close>

text \<open>The range \<open>start..end\<close> of a slice: indexing panics unless \<open>start \<le> end \<le> len\<close>.\<close>

definition slice :: "u8 list \<Rightarrow> u64 \<Rightarrow> u64 \<Rightarrow> (u8 list, memory_error) result" where
  "slice xs i j =
     (if i \<le> j \<and> unat j \<le> length xs then Ok (take (unat j - unat i) (drop (unat i) xs)) else Panic)"

definition splice :: "u8 list \<Rightarrow> u64 \<Rightarrow> u64 \<Rightarrow> u8 list \<Rightarrow> (u8 list, memory_error) result" where
  "splice xs i j ys =
     (if i \<le> j \<and> unat j \<le> length xs \<and> length ys = unat j - unat i
      then Ok (take (unat i) xs @ ys @ drop (unat j) xs) else Panic)"

text \<open>The transfer of the data descriptor: \<open>blk_type\<close> 0 reads the disk into DRAM, 1 writes it; the value
  is \<open>data_len_done\<close>.\<close>

definition block_transfer ::
  "u32 \<Rightarrow> u64 \<Rightarrow> u64 \<Rightarrow> u32 \<Rightarrow> u8 list \<times> dram \<Rightarrow> (u32, memory_error) result \<times> u8 list \<times> dram" where
  "block_transfer blk_type blk_sector data_addr data_len dm =
     (let offset = blk_sector * 512 in
      if blk_type = 0 then
        if offset + zext32 data_len \<le> word_of_nat (length (fst dm)) then
          bindS (slice (fst dm) offset (offset + zext32 data_len), dm) (\<lambda>bytes (d, m).
          bindS (phys_to_offset data_addr, (d, m)) (\<lambda>dram_off (d, m).
          bindS (apsnd (Pair d) (write_bytes dram_off bytes m)) (\<lambda>_ dm. (Ok data_len, dm))))
        else (Ok 0, dm)
      else if blk_type = 1 then
        if offset + zext32 data_len \<le> word_of_nat (length (fst dm)) then
          bindS (phys_to_offset data_addr, dm) (\<lambda>dram_off (d, m).
          bindS (read_range m dram_off (zext32 data_len), (d, m)) (\<lambda>bytes (d, m).
          bindS (splice d offset (offset + zext32 data_len) bytes, (d, m)) (\<lambda>d' (d, m).
            (Ok data_len, (d', m)))))
        else (Ok 0, dm)
      else (Ok 0, dm))"

text \<open>The rest of the chain: the data descriptor, and the status byte of the third descriptor.\<close>

definition block_chain ::
  "virtio_block \<Rightarrow> u16 \<Rightarrow> u32 \<Rightarrow> u64 \<Rightarrow> u8 list \<times> dram \<Rightarrow> (u32, memory_error) result \<times> u8 list \<times> dram" where
  "block_chain s next_desc_idx blk_type blk_sector dm =
     bindS (phys_to_offset (queue_desc s + zext16 next_desc_idx * 16), dm) (\<lambda>off dm.
     bindS (load_64 (snd dm) off, dm) (\<lambda>data_addr dm.
     bindS (load_32 (snd dm) (off + 8), dm) (\<lambda>data_len dm.
     bindS (load_16 (snd dm) (off + 12), dm) (\<lambda>flags2 dm.
     bindS (load_16 (snd dm) (off + 14), dm) (\<lambda>next_desc_idx dm.
     bindS (block_transfer blk_type blk_sector data_addr data_len dm) (\<lambda>done dm.
       if zext16 flags2 AND VRING_DESC_F_NEXT \<noteq> 0 then
         bindS (phys_to_offset (queue_desc s + zext16 next_desc_idx * 16), dm) (\<lambda>off dm.
         bindS (load_64 (snd dm) off, dm) (\<lambda>status_addr dm.
         bindS (phys_to_offset status_addr, dm) (\<lambda>off (d, m).
         bindS (apsnd (Pair d) (store_8 off 0 m)) (\<lambda>_ dm. (Ok done, dm)))))
       else (Ok done, dm)))))))"

definition block_qsz :: "virtio_block \<Rightarrow> u32" where
  "block_qsz s = (if queue_num s > 0 then queue_num s else QUEUE_SIZE)"

text \<open>One iteration of the loop of \<open>process_queue\<close>, up to the increment of \<open>last_avail_idx\<close>; a header
  shorter than 16 bytes is consumed without an answer.\<close>

definition block_serve :: "virtio_block \<Rightarrow> u8 list \<times> dram \<Rightarrow> (unit, memory_error) result \<times> u8 list \<times> dram" where
  "block_serve s dm =
     (let qsz = block_qsz s; ring_slot = zext32 (ucast (last_avail_idx s) mod qsz) in
      bindS (apsnd (Pair (fst dm)) (load16_at (queue_avail s + 4 + ring_slot * 2) (snd dm))) (\<lambda>head_desc_idx dm.
      bindS (phys_to_offset (queue_desc s + zext16 head_desc_idx * 16), dm) (\<lambda>off dm.
      bindS (load_64 (snd dm) off, dm) (\<lambda>header_addr dm.
      bindS (load_32 (snd dm) (off + 8), dm) (\<lambda>header_len dm.
      bindS (load_16 (snd dm) (off + 12), dm) (\<lambda>header_flags dm.
      bindS (load_16 (snd dm) (off + 14), dm) (\<lambda>next_desc_idx dm.
      if header_len < 16 then (Ok (), dm)
      else
      bindS (phys_to_offset header_addr, dm) (\<lambda>off_header dm.
      bindS (load_32 (snd dm) off_header, dm) (\<lambda>blk_type dm.
      bindS (load_32 (snd dm) (off_header + 4), dm) (\<lambda>blk_reserved dm.
      bindS (load_64 (snd dm) (off_header + 8), dm) (\<lambda>blk_sector dm.
      bindS (if zext16 header_flags AND VRING_DESC_F_NEXT \<noteq> 0
             then block_chain s next_desc_idx blk_type blk_sector dm else (Ok 0, dm)) (\<lambda>done (d, m).
        apsnd (Pair d) (push_used (queue_used s) (zext32 qsz) head_desc_idx done m)))))))))))))"

function block_loop :: "u16 \<Rightarrow> virtio_block \<times> dram \<Rightarrow> (unit, memory_error) result \<times> virtio_block \<times> dram" where
  "block_loop avail_idx (s, m) =
     (if last_avail_idx s = avail_idx then (Ok (), s, m)
      else case block_serve s (disk s, m) of
         (Ok _, d, m) \<Rightarrow> block_loop avail_idx (s\<lparr> disk := d, last_avail_idx := last_avail_idx s + 1 \<rparr>, m)
       | (Err e, d, m) \<Rightarrow> (Err e, s\<lparr> disk := d \<rparr>, m)
       | (Panic, d, m) \<Rightarrow> (Panic, s\<lparr> disk := d \<rparr>, m))"
  by pat_completeness auto

termination block_loop
proof (relation "measure (\<lambda>(avail_idx, s, m). unat (avail_idx - last_avail_idx s))", goal_cases)
  case 1
  then show ?case by simp
next
  case (2 avail_idx s)
  then show ?case by (simp add: unat_less_step)
qed

definition block_process_queue :: "virtio_block \<times> dram \<Rightarrow> (unit, memory_error) result \<times> virtio_block \<times> dram" where
  "block_process_queue sm =
     (case sm of (s, m) \<Rightarrow>
      case load16_at (queue_avail s + 2) m of
         (Ok avail_idx, m) \<Rightarrow>
           (let processed_any = last_avail_idx s \<noteq> avail_idx in
            bindS (block_loop avail_idx (s, m)) (\<lambda>_ (s, m).
              (Ok (), if processed_any then s\<lparr> interrupt_status := interrupt_status s OR 1 \<rparr> else s, m)))
       | (Err e, m) \<Rightarrow> (Err e, s, m)
       | (Panic, m) \<Rightarrow> (Panic, s, m))"

definition block_read :: "u64 \<Rightarrow> virtio_block \<Rightarrow> (u64, memory_error) result \<times> virtio_block" where
  "block_read offset s =
     (let cap = word_of_nat (length (disk s)) div 512 in
      (Ok (regs_read VIRTIO_BLK_DEVICE_ID (if device_features_sel s = 0 then shl 1 9 else 0)
             (if offset = 0x100 then cap AND 0xFFFFFFFF else if offset = 0x104 then shr cap 32 else 0)
             s offset), s))"

definition block_write :: "u64 \<Rightarrow> u64 \<Rightarrow> virtio_block \<times> dram \<Rightarrow> (unit, memory_error) result \<times> virtio_block \<times> dram" where
  "block_write offset val sm =
     (let val32 = low32 val in
      if offset = 0x050 then (if val32 = 0 then block_process_queue sm else (Ok (), sm))
      else (Ok (), regs_write offset val32 (fst sm), snd sm))"

definition block_ops :: "virtio_block virtio_ops" where
  "block_ops = \<lparr> v_read = block_read, v_write = block_write, v_is_interrupting = regs_is_interrupting,
     v_device_id = (\<lambda>_. VIRTIO_BLK_DEVICE_ID), v_poll = default_poll \<rparr>"

subsection \<open>The entropy source does not panic\<close>

declare rng_loop.simps [simp del] block_loop.simps [simp del]

text \<open>An address below \<open>DRAM_BASE\<close> is refused, so an offset is far enough from \<open>2\<^sup>6\<^sup>4\<close> for the bounds checks
  of the DRAM not to wrap around.\<close>

lemma phys_to_offset_cases:
  obtains "phys_to_offset addr = Err (OutOfBounds addr)"
    | off where "phys_to_offset addr = Ok off" "no_wrap 64 off"
proof (cases "addr < DRAM_BASE")
  case False
  then have "unat (addr - DRAM_BASE) = unat addr - unat DRAM_BASE"
    by (simp add: unat_sub)
  moreover have "unat addr < 2 ^ LENGTH(64)" by (rule unsigned_less)
  moreover have "unat DRAM_BASE = 0x80000000" by (simp add: DRAM_BASE_def)
  ultimately have "no_wrap 64 (addr - DRAM_BASE)" by (simp add: no_wrap_def)
  with False that(2) show ?thesis by (simp add: phys_to_offset_def)
qed (simp add: that(1) phys_to_offset_def)

lemma safe_phys:
  assumes "I s" "\<And>off. no_wrap 64 off \<Longrightarrow> safe I (f off s)"
  shows "safe I (bindS (phys_to_offset addr, s) f)"
  by (cases addr rule: phys_to_offset_cases) (simp_all add: assms)

lemma safe_pure:
  assumes "r \<noteq> Panic" "I s" "\<And>a. safe I (f a s)"
  shows "safe I (bindS (r, s) f)"
  using assms by (cases r) simp_all

lemma no_wrap_add:
  assumes "no_wrap 64 off" "k \<le> 16"
  shows "no_wrap 8 (off + word_of_nat k)"
  using assms by (simp add: no_wrap_def unat_word_ariths unat_of_nat)

lemma no_wrap_offsets:
  assumes "no_wrap 64 off"
  shows "no_wrap 8 off" "no_wrap 8 (off + 4)" "no_wrap 8 (off + 8)" "no_wrap 8 (off + 12)"
    "no_wrap 8 (off + 14)"
  using no_wrap_add [OF assms, of 0] no_wrap_add [OF assms, of 4] no_wrap_add [OF assms, of 8]
    no_wrap_add [OF assms, of 12] no_wrap_add [OF assms, of 14] by simp_all

lemmas dma_safe = load_no_panic store_safe_from no_wrap_offsets

lemma load16_at_safe: "same_geometry m0 m \<Longrightarrow> safe (same_geometry m0) (load16_at addr m)"
  unfolding load16_at_def
  by (rule safe_phys) (auto simp: safe_def dma_safe)

lemma push_used_safe: "same_geometry m0 m \<Longrightarrow> safe (same_geometry m0) (push_used used qsz head len m)"
  unfolding push_used_def Let_def
  by (intro safe_bindS safe_phys) (simp_all add: load16_at_safe dma_safe)

lemma rng_fill_safe: "same_geometry m0 m \<Longrightarrow> safe (same_geometry m0) (rng_fill addr is m)"
proof (induction "is" arbitrary: m)
  case (Cons i "is")
  then show ?case
    unfolding rng_fill.simps by (intro safe_bindS safe_phys) (simp_all add: dma_safe)
qed simp

lemma rng_serve_safe: "same_geometry m0 m \<Longrightarrow> safe (same_geometry m0) (rng_serve s m)"
  unfolding rng_serve_def Let_def
  by (rule safe_bindS [OF load16_at_safe], assumption, (rule safe_phys, assumption),
      (rule safe_pure, simp add: dma_safe, assumption)+, rule safe_bindS)
    (simp_all add: rng_fill_safe push_used_safe)

lemma rng_loop_safe:
  "same_geometry m0 (snd sm) \<Longrightarrow> safe (\<lambda>sm. same_geometry m0 (snd sm)) (rng_loop avail_idx sm)"
proof (induction avail_idx sm rule: rng_loop.induct)
  case (1 avail_idx s m)
  then have "safe (same_geometry m0) (rng_serve s m)" by (simp add: rng_serve_safe)
  then show ?case
    by (rule safeE) (use 1 in \<open>simp_all add: rng_loop.simps [of avail_idx s m]\<close>)
qed

lemma rng_process_queue_safe:
  "safe (\<lambda>sm'. same_geometry m (snd sm')) (rng_process_queue (s, m))"
proof -
  have "safe (same_geometry m) (load16_at (queue_avail s + 2) m)" by (simp add: load16_at_safe)
  then show ?thesis
    by (rule safeE)
      (auto simp: rng_process_queue_def Let_def split: prod.splits intro!: safe_bindS rng_loop_safe)
qed

lemma rng_write_safe: "safe (\<lambda>sm'. same_geometry m (snd sm')) (rng_write off v (s, m))"
  unfolding rng_write_def Let_def by (simp add: rng_process_queue_safe)

text \<open>What the bus relies on: no method of a device panics, and none resizes the DRAM.\<close>

locale safe_virtio =
  fixes vops :: "'d virtio_ops" and dinv :: "'d \<Rightarrow> bool"
  assumes v_read_safe: "dinv d \<Longrightarrow> safe dinv (v_read vops off d)"
    and v_write_safe: "dinv d \<Longrightarrow>
      safe (\<lambda>(d', m'). dinv d' \<and> same_geometry m m') (v_write vops off v (d, m))"
    and v_poll_safe: "dinv d \<Longrightarrow> safe (\<lambda>(d', m'). dinv d' \<and> same_geometry m m') (v_poll vops (d, m))"

interpretation rng: safe_virtio rng_ops "\<lambda>_. True"
proof
  show "safe (\<lambda>(d', m'). True \<and> same_geometry m m') (v_write rng_ops off v (d, m))" for off v d m
    using rng_write_safe [of m off v d] by (simp add: rng_ops_def case_prod_beta')
qed (simp_all add: rng_ops_def rng_read_def default_poll_def)

subsection \<open>Transfers of the block device\<close>

text \<open>A transfer lies inside the disk when sector and length, read as numbers, end within it.\<close>

definition on_disk :: "u8 list \<Rightarrow> u64 \<Rightarrow> u32 \<Rightarrow> bool" where
  "on_disk d sector len \<longleftrightarrow> unat sector * 512 + unat len \<le> length d"

text \<open>A buffer in guest-physical memory that the DRAM backs.\<close>

definition in_dram :: "dram \<Rightarrow> u64 \<Rightarrow> u32 \<Rightarrow> bool" where
  "in_dram m addr len \<longleftrightarrow> addr \<ge> DRAM_BASE \<and> unat (addr - DRAM_BASE) + unat len \<le> unat (dram_size m)"

definition buffer :: "dram \<Rightarrow> u64 \<Rightarrow> u32 \<Rightarrow> u8 list" where
  "buffer m addr len = map (\<lambda>i. dram_data m (unat (addr - DRAM_BASE) + i)) [0..<unat len]"

lemma on_disk_unat:
  assumes "on_disk d sector len" "length d < 2 ^ 64"
  shows "unat (sector * 512) = unat sector * 512"
    "unat (sector * 512 + zext32 len) = unat sector * 512 + unat len"
proof -
  have lt: "unat sector * 512 + unat len < 2 ^ 64"
    using assms by (simp add: on_disk_def)
  then show 1: "unat (sector * 512) = unat sector * 512"
    by (simp add: unat_word_ariths)
  from lt 1 show "unat (sector * 512 + zext32 len) = unat sector * 512 + unat len"
    by (simp add: unat_word_ariths unat_zext32)
qed

lemma in_dram_check:
  assumes "in_dram m addr len"
  shows "phys_to_offset addr = Ok (addr - DRAM_BASE)"
    "\<not> (addr - DRAM_BASE) + zext32 len > dram_size m"
    "unat (addr - DRAM_BASE) + unat len \<le> unat (dram_size m)"
  using assms bounds_check [of "addr - DRAM_BASE" "unat len" "dram_size m"]
  by (auto simp: in_dram_def phys_to_offset_def not_less unsigned_ucast_eq)

lemma block_transfer_write:
  assumes "on_disk d sector len" "length d < 2 ^ 64" "in_dram m src len"
  shows "block_transfer 1 sector src len (d, m) =
    (Ok len, take (unat sector * 512) d @ buffer m src len @ drop (unat sector * 512 + unat len) d, m)"
proof -
  note u = on_disk_unat [OF assms(1,2)]
  have le: "sector * 512 + zext32 len \<le> word_of_nat (length d)" "sector * 512 \<le> sector * 512 + zext32 len"
    using assms(1,2) by (simp_all add: word_le_nat_alt u unat_of_nat on_disk_def)
  have "read_range m (src - DRAM_BASE) (zext32 len) = Ok (buffer m src len)"
    using in_dram_check [OF assms(3)]
    by (simp add: read_range_def buffer_def unat_zext32 map_add_upt [symmetric] comp_def add.commute)
  moreover have "splice d (sector * 512) (sector * 512 + zext32 len) (buffer m src len) =
      Ok (take (unat sector * 512) d @ buffer m src len @ drop (unat sector * 512 + unat len) d)"
    using assms(1) le by (simp add: splice_def u on_disk_def buffer_def)
  ultimately show ?thesis
    using in_dram_check(1) [OF assms(3)] le by (simp add: block_transfer_def)
qed

lemma block_transfer_read:
  assumes "on_disk d sector len" "length d < 2 ^ 64" "in_dram m dst len"
  shows "block_transfer 0 sector dst len (d, m) =
    (Ok len, d, m\<lparr> dram_data := copy_in (take (unat len) (drop (unat sector * 512) d)) (dram_data m)
       (unat (dst - DRAM_BASE)) \<rparr>)"
proof -
  note u = on_disk_unat [OF assms(1,2)]
  let ?bytes = "take (unat len) (drop (unat sector * 512) d)"
  have le: "sector * 512 + zext32 len \<le> word_of_nat (length d)" "sector * 512 \<le> sector * 512 + zext32 len"
    using assms(1,2) by (simp_all add: word_le_nat_alt u unat_of_nat on_disk_def)
  then have "slice d (sector * 512) (sector * 512 + zext32 len) = Ok ?bytes"
    using assms(1) by (simp add: slice_def u on_disk_def)
  moreover have "length ?bytes = unat len" using assms(1) by (simp add: on_disk_def)
  then have "write_bytes (dst - DRAM_BASE) ?bytes m =
      (Ok (), m\<lparr> dram_data := copy_in ?bytes (dram_data m) (unat (dst - DRAM_BASE)) \<rparr>)"
    using in_dram_check [OF assms(3)] unfolding write_bytes_def by simp
  ultimately show ?thesis
    using in_dram_check(1) [OF assms(3)] le by (simp add: block_transfer_def)
qed

lemma buffer_copy_in:
  "length xs = unat len \<Longrightarrow>
    buffer (m\<lparr> dram_data := copy_in xs d (unat (addr - DRAM_BASE)) \<rparr>) addr len = xs"
  by (rule nth_equalityI) (simp_all add: buffer_def copy_in_def)

lemma in_dram_geometry: "same_geometry m m' \<Longrightarrow> in_dram m' addr len = in_dram m addr len"
  by (simp add: in_dram_def same_geometry_def)

text \<open>a sector range written through the block device and read back later, into any buffer and
  whatever the memory holds by then, delivers the bytes that were in the source buffer; the
  disk keeps its length and every byte outside the range.\<close>

theorem block_write_then_read:
  assumes "on_disk d sector len" "length d < 2 ^ 64" "in_dram m src len" "in_dram m dst len"
    and "same_geometry m m'"
  shows "\<exists>d' m''. block_transfer 1 sector src len (d, m) = (Ok len, d', m) \<and>
    block_transfer 0 sector dst len (d', m') = (Ok len, d', m'') \<and>
    buffer m'' dst len = buffer m src len \<and> length d' = length d \<and>
    (\<forall>i < length d. i < unat sector * 512 \<or> unat sector * 512 + unat len \<le> i \<longrightarrow> d' ! i = d ! i)"
proof -
  let ?o = "unat sector * 512" and ?n = "unat len"
  let ?d = "take ?o d @ buffer m src len @ drop (?o + ?n) d"
  have n: "length (buffer m src len) = ?n" by (simp add: buffer_def)
  have le: "?o + ?n \<le> length d" using assms(1) by (simp add: on_disk_def)
  then have len: "length ?d = length d" using n by simp
  have slice: "take ?n (drop ?o ?d) = buffer m src len" using n le by simp
  have frame: "?d ! i = d ! i" if "i < length d" "i < ?o \<or> ?o + ?n \<le> i" for i
    using that n le by (auto simp: nth_append)
  have "on_disk ?d sector len" "length ?d < 2 ^ 64" using assms(1,2) len by (simp_all add: on_disk_def)
  moreover have "in_dram m' dst len" using assms(4,5) by (simp add: in_dram_geometry)
  ultimately have "block_transfer 0 sector dst len (?d, m') = (Ok len, ?d,
      m'\<lparr> dram_data := copy_in (buffer m src len) (dram_data m') (unat (dst - DRAM_BASE)) \<rparr>)"
    by (simp only: block_transfer_read slice)
  with block_transfer_write [OF assms(1-3)] len frame show ?thesis
    by (intro exI [of _ ?d] exI [of _ "m'\<lparr> dram_data := copy_in (buffer m src len) (dram_data m')
          (unat (dst - DRAM_BASE)) \<rparr>"] conjI) (simp_all only: buffer_copy_in n, blast)
qed

theorem block_write_then_read_witness:
  "\<exists>d' m''. block_transfer 1 0 0x80000000 3 ([7, 8, 9, 10], dram_new DRAM_BASE 4096) =
       (Ok 3, d', dram_new DRAM_BASE 4096) \<and>
     block_transfer 0 0 0x80000100 3 (d', dram_new DRAM_BASE 4096) = (Ok 3, d', m'') \<and>
     buffer m'' 0x80000100 3 = buffer (dram_new DRAM_BASE 4096) 0x80000000 3 \<and> d' ! 3 = 10"
proof -
  have *: "on_disk [7, 8, 9, 10] 0 3" "length [7, 8, 9, 10 :: u8] < 2 ^ 64"
    "in_dram (dram_new DRAM_BASE 4096) 0x80000000 3" "in_dram (dram_new DRAM_BASE 4096) 0x80000100 3"
    by (simp_all add: on_disk_def in_dram_def dram_new_def DRAM_BASE_def)
  from block_write_then_read [OF * same_geometry_simps(1)] show ?thesis
    by (elim exE conjE) (intro exI conjI, assumption+, simp)
qed

text \<open>the bounds check of a disk read adds with wrap-around.  A request whose end exceeds \<open>2\<^sup>6\<^sup>4\<close> and wraps
  to an offset on the disk passes it, and the slice panics: a guest driver can stop the machine.\<close>

theorem block_read_wrapped_range_panics:
  assumes "unat (sector * 512) + unat len \<ge> 2 ^ 64"
    and "unat (sector * 512) + unat len - 2 ^ 64 \<le> length d" and "length d < 2 ^ 64"
  shows "fst (block_transfer 0 sector addr len (d, m)) = Panic"
proof -
  let ?o = "sector * 512"
  have "unat ?o < 2 ^ LENGTH(64)" "unat len < 2 ^ LENGTH(32)" by (rule unsigned_less)+
  with assms(1) have "unat (?o + zext32 len) = unat ?o + unat len - 2 ^ 64"
    by (simp add: unat_word_ariths unat_zext32 le_mod_geq)
  with assms \<open>unat len < 2 ^ LENGTH(32)\<close> have "?o + zext32 len \<le> word_of_nat (length d)" "\<not> ?o \<le> ?o + zext32 len"
    by (simp_all add: word_le_nat_alt unat_of_nat)
  then show ?thesis by (simp add: block_transfer_def slice_def)
qed

theorem block_read_wrapped_range_panics_witness:
  "fst (block_transfer 0 0x7FFFFFFFFFFFFF 0x80000000 512 ([], dram_new DRAM_BASE 4096)) = Panic"
  by (rule block_read_wrapped_range_panics) simp_all

end
