(* ===== verification/Rv_Plic.thy ===== *)
theory Rv_Plic
  imports Rv_Dram Rv_Clint
begin

text \<open>
  The platform-level interrupt controller (\<^verbatim>\<open>riscv-vm/src/devices/plic.rs\<close>): the state behind the
  mutex and the lock-free caches used for polling.  Each method is one critical section.  The
  \<open>debug\<close> flag and \<open>debug_trace\<close> only select host-side trace output.

  The lemmas show that a claim returns the eligible source of highest priority, that every
  operation keeps the caches equal to the state, and what the lock-free check promises.
\<close>

unbundle bit_operations_syntax

abbreviation PLIC_BASE :: u64 where "PLIC_BASE \<equiv> 0x0C000000"
abbreviation PLIC_SIZE :: u64 where "PLIC_SIZE \<equiv> 0x4000000"
abbreviation (input) UART_IRQ :: u32 where "UART_IRQ \<equiv> 10"
abbreviation (input) VIRTIO0_IRQ :: u32 where "VIRTIO0_IRQ \<equiv> 1"
definition NUM_SOURCES :: nat where "NUM_SOURCES = 32"
definition NUM_CONTEXTS :: nat where "NUM_CONTEXTS = 2 * MAX_HARTS"

record plic_state =
  priority :: "nat \<Rightarrow> u32"
  pending :: u32
  enable :: "nat \<Rightarrow> u32"
  threshold :: "nat \<Rightarrow> u32"
  active :: "nat \<Rightarrow> u32"
  debug :: bool

record plic =
  state :: plic_state
  pending_cache :: u32
  enable_cache :: "nat \<Rightarrow> u32"
  threshold_cache :: "nat \<Rightarrow> u32"
  priority_cache :: "nat \<Rightarrow> u32"

definition m_context :: "nat \<Rightarrow> nat" where "m_context hart = hart * 2"
definition s_context :: "nat \<Rightarrow> nat" where "s_context hart = hart * 2 + 1"

definition plic_new :: plic where
  "plic_new = \<lparr> state = \<lparr> priority = (\<lambda>_. 0), pending = 0, enable = (\<lambda>_. 0), threshold = (\<lambda>_. 0),
       active = (\<lambda>_. 0), debug = False \<rparr>,
     pending_cache = 0, enable_cache = (\<lambda>_. 0), threshold_cache = (\<lambda>_. 0), priority_cache = (\<lambda>_. 0) \<rparr>"

subsection \<open>Caches\<close>

definition sync_caches_from :: "plic_state \<Rightarrow> plic \<Rightarrow> plic" where
  "sync_caches_from s p = p\<lparr> pending_cache := pending s,
     enable_cache := (\<lambda>i. if i < NUM_CONTEXTS then enable s i else enable_cache p i),
     threshold_cache := (\<lambda>i. if i < NUM_CONTEXTS then threshold s i else threshold_cache p i),
     priority_cache := (\<lambda>i. if i < NUM_SOURCES then priority s i else priority_cache p i) \<rparr>"

definition sync_pending_cache :: "plic_state \<Rightarrow> plic \<Rightarrow> plic" where
  "sync_pending_cache s p = p\<lparr> pending_cache := pending s \<rparr>"

definition sync_enable_cache :: "plic_state \<Rightarrow> nat \<Rightarrow> plic \<Rightarrow> plic" where
  "sync_enable_cache s ctx p =
     (if ctx < NUM_CONTEXTS then p\<lparr> enable_cache := (enable_cache p)(ctx := enable s ctx) \<rparr> else p)"

definition sync_threshold_cache :: "plic_state \<Rightarrow> nat \<Rightarrow> plic \<Rightarrow> plic" where
  "sync_threshold_cache s ctx p =
     (if ctx < NUM_CONTEXTS then p\<lparr> threshold_cache := (threshold_cache p)(ctx := threshold s ctx) \<rparr> else p)"

definition sync_priority_cache :: "plic_state \<Rightarrow> nat \<Rightarrow> plic \<Rightarrow> plic" where
  "sync_priority_cache s source p =
     (if source < NUM_SOURCES then p\<lparr> priority_cache := (priority_cache p)(source := priority s source) \<rparr> else p)"

definition sync_caches :: "plic \<Rightarrow> plic" where
  "sync_caches p = sync_caches_from (state p) p"

definition pending_cached :: "plic \<Rightarrow> u32" where
  "pending_cached p = pending_cache p"

definition enable_cached :: "plic \<Rightarrow> nat \<Rightarrow> u32" where
  "enable_cached p ctx = (if ctx < NUM_CONTEXTS then enable_cache p ctx else 0)"

definition threshold_cached :: "plic \<Rightarrow> nat \<Rightarrow> u32" where
  "threshold_cached p ctx = (if ctx < NUM_CONTEXTS then threshold_cache p ctx else 0)"

definition priority_cached :: "plic \<Rightarrow> nat \<Rightarrow> u32" where
  "priority_cached p source = (if source < NUM_SOURCES then priority_cache p source else 0)"

definition is_interrupt_pending_for_fast :: "plic \<Rightarrow> nat \<Rightarrow> bool" where
  "is_interrupt_pending_for_fast p ctx =
     (if ctx \<ge> NUM_CONTEXTS then False
      else let candidates = pending_cache p AND enable_cache p ctx
           in if candidates = 0 then False
              else list_ex (\<lambda>source. candidates AND shl 1 source \<noteq> 0
                      \<and> priority_cache p source > threshold_cache p ctx) [1..<NUM_SOURCES])"

definition has_pending_candidate :: "plic \<Rightarrow> nat \<Rightarrow> bool" where
  "has_pending_candidate p ctx =
     (ctx < NUM_CONTEXTS \<and> pending_cache p AND enable_cache p ctx \<noteq> 0)"

subsection \<open>Source lines\<close>

definition with_state :: "plic_state \<Rightarrow> plic \<Rightarrow> plic" where
  "with_state s p = p\<lparr> state := s \<rparr>"

definition update_pending :: "u32 \<Rightarrow> plic \<Rightarrow> plic" where
  "update_pending source p =
     (if source < 32 then
        (let s = (state p)\<lparr> pending := pending (state p) OR shl 1 (unat source) \<rparr>
         in sync_pending_cache s (with_state s p))
      else p)"

definition set_source_level :: "u32 \<Rightarrow> bool \<Rightarrow> plic \<Rightarrow> plic" where
  "set_source_level source level p =
     (if source \<ge> 32 then p
      else let s = (state p)\<lparr> pending :=
             (if level then pending (state p) OR shl 1 (unat source)
              else pending (state p) AND NOT (shl 1 (unat source))) \<rparr>
           in sync_pending_cache s (with_state s p))"

subsection \<open>Snapshot setters\<close>

text \<open>A setter overwrites a prefix of an array and the matching prefix of its cache.\<close>

definition overwrite :: "u32 list \<Rightarrow> nat \<Rightarrow> (nat \<Rightarrow> u32) \<Rightarrow> (nat \<Rightarrow> u32)" where
  "overwrite vs n f = (\<lambda>i. if i < length vs \<and> i < n then vs ! i else f i)"

definition set_priority :: "u32 list \<Rightarrow> plic \<Rightarrow> plic" where
  "set_priority vs p =
     (let s = (state p)\<lparr> priority := overwrite vs NUM_SOURCES (priority (state p)) \<rparr>
      in (with_state s p)\<lparr> priority_cache :=
           (\<lambda>i. if i < min NUM_SOURCES (length vs) then priority s i else priority_cache p i) \<rparr>)"

definition set_pending :: "u32 \<Rightarrow> plic \<Rightarrow> plic" where
  "set_pending v p = (let s = (state p)\<lparr> pending := v \<rparr> in sync_pending_cache s (with_state s p))"

definition set_enable :: "u32 list \<Rightarrow> plic \<Rightarrow> plic" where
  "set_enable vs p =
     (let s = (state p)\<lparr> enable := overwrite vs NUM_CONTEXTS (enable (state p)) \<rparr>
      in (with_state s p)\<lparr> enable_cache :=
           (\<lambda>i. if i < min NUM_CONTEXTS (length vs) then enable s i else enable_cache p i) \<rparr>)"

definition set_threshold :: "u32 list \<Rightarrow> plic \<Rightarrow> plic" where
  "set_threshold vs p =
     (let s = (state p)\<lparr> threshold := overwrite vs NUM_CONTEXTS (threshold (state p)) \<rparr>
      in (with_state s p)\<lparr> threshold_cache :=
           (\<lambda>i. if i < min NUM_CONTEXTS (length vs) then threshold s i else threshold_cache p i) \<rparr>)"

definition set_active :: "u32 list \<Rightarrow> plic \<Rightarrow> plic" where
  "set_active vs p = with_state ((state p)\<lparr> active := overwrite vs NUM_CONTEXTS (active (state p)) \<rparr>) p"

subsection \<open>Claiming\<close>

definition eligible_for_context :: "plic_state \<Rightarrow> nat \<Rightarrow> nat \<Rightarrow> bool" where
  "eligible_for_context s source ctx \<longleftrightarrow>
     shr (pending s) source AND 1 = 1 \<and> shr (enable s ctx) source AND 1 = 1
     \<and> priority s source > threshold s ctx \<and> shr (active s ctx) source AND 1 = 0"

definition claim_step :: "plic_state \<Rightarrow> nat \<Rightarrow> nat \<Rightarrow> u32 \<times> nat \<Rightarrow> u32 \<times> nat" where
  "claim_step s ctx i best =
     (case best of (max_prio, max_id) \<Rightarrow>
        if eligible_for_context s i ctx \<and> priority s i > max_prio then (priority s i, i)
        else (max_prio, max_id))"

definition claim_interrupt_for_internal :: "nat \<Rightarrow> plic_state \<Rightarrow> u32 \<times> plic_state" where
  "claim_interrupt_for_internal ctx s =
     (case fold (claim_step s ctx) [1..<NUM_SOURCES] (0, 0) of (max_prio, max_id) \<Rightarrow>
        (word_of_nat max_id,
         if max_id \<noteq> 0 then s\<lparr> active := (active s)(ctx := active s ctx OR shl 1 max_id) \<rparr> else s))"

text \<open>Called with a context beyond the arrays, the first look at a source indexes out of range.\<close>

definition claim_interrupt_for :: "nat \<Rightarrow> plic \<Rightarrow> (u32, memory_error) result \<times> plic" where
  "claim_interrupt_for ctx p =
     (if ctx < NUM_CONTEXTS then
        (case claim_interrupt_for_internal ctx (state p) of (irq, s) \<Rightarrow> (Ok irq, with_state s p))
      else (Panic, p))"

definition is_interrupt_pending_for :: "plic \<Rightarrow> nat \<Rightarrow> bool" where
  "is_interrupt_pending_for p ctx =
     (ctx < NUM_CONTEXTS \<and> list_ex (\<lambda>i. eligible_for_context (state p) i ctx) [1..<NUM_SOURCES])"

definition is_interrupt_pending :: "plic \<Rightarrow> bool" where
  "is_interrupt_pending p = is_interrupt_pending_for p (if NUM_CONTEXTS > 1 then 1 else 0)"

subsection \<open>Memory-mapped registers\<close>

definition plic_load :: "u64 \<Rightarrow> u64 \<Rightarrow> plic \<Rightarrow> (u64, memory_error) result \<times> plic" where
  "plic_load off sz p =
     (let s = state p; nctx = word_of_nat NUM_CONTEXTS
      in if sz \<noteq> 4 then (Ok 0, p)
         else if off < 0x1000 \<and> unat (shr off 2) < NUM_SOURCES then (Ok (zext32 (priority s (unat (shr off 2)))), p)
         else if off = 0x1000 then (Ok (zext32 (pending s)), p)
         else if off \<ge> 0x2000 \<and> off < 0x2000 + 0x80 * nctx
             \<and> unat ((off - 0x2000) div 0x80) < NUM_CONTEXTS \<and> (off - 0x2000) mod 0x80 = 0
         then (Ok (zext32 (enable s (unat ((off - 0x2000) div 0x80)))), p)
         else if off \<ge> 0x200000 then
           (let ctx = unat ((off - 0x200000) div 0x1000); b = 0x200000 + 0x1000 * word_of_nat ctx
            in if ctx < NUM_CONTEXTS \<and> off = b then (Ok (zext32 (threshold s ctx)), p)
               else if ctx < NUM_CONTEXTS \<and> off = b + 4 then
                 (case claim_interrupt_for_internal ctx s of (claim, s) \<Rightarrow> (Ok (zext32 claim), with_state s p))
               else (Ok 0, p))
         else (Ok 0, p))"

definition plic_store :: "u64 \<Rightarrow> u64 \<Rightarrow> u64 \<Rightarrow> plic \<Rightarrow> (unit, memory_error) result \<times> plic" where
  "plic_store off sz value p =
     (let s = state p; nctx = word_of_nat NUM_CONTEXTS; v = low32 value
      in if sz \<noteq> 4 then (Ok (), p)
         else if off < 0x1000 then
           (let idx = unat (shr off 2)
            in if idx < NUM_SOURCES then
                 (let s = s\<lparr> priority := (priority s)(idx := v) \<rparr>
                  in (Ok (), sync_priority_cache s idx (with_state s p)))
               else (Ok (), p))
         else if off = 0x1000 then (Ok (), p)
         else if off \<ge> 0x2000 \<and> off < 0x2000 + 0x80 * nctx then
           (let ctx = unat ((off - 0x2000) div 0x80); inner = (off - 0x2000) mod 0x80
            in if ctx < NUM_CONTEXTS \<and> inner = 0 then
                 (let s = s\<lparr> enable := (enable s)(ctx := v) \<rparr>
                  in (Ok (), sync_enable_cache s ctx (with_state s p)))
               else (Ok (), p))
         else if off \<ge> 0x200000 then
           (let ctx = unat ((off - 0x200000) div 0x1000); b = 0x200000 + 0x1000 * word_of_nat ctx
            in if ctx < NUM_CONTEXTS \<and> off = b then
                 (let s = s\<lparr> threshold := (threshold s)(ctx := v) \<rparr>
                  in (Ok (), sync_threshold_cache s ctx (with_state s p)))
               else if ctx < NUM_CONTEXTS \<and> off = b + 4 then
                 (let irq = v AND 0xFFFF
                  in if irq > 0 \<and> unat irq < NUM_SOURCES
                     then (Ok (), with_state (s\<lparr> active := (active s)(ctx := active s ctx AND NOT (shl 1 (unat irq))) \<rparr>) p)
                     else (Ok (), p))
               else (Ok (), p))
         else (Ok (), p))"

subsection \<open>The claim picks the best source\<close>

lemma eligible_bits:
  "eligible_for_context s source ctx \<longleftrightarrow> bit (pending s) source \<and> bit (enable s ctx) source
     \<and> priority s source > threshold s ctx \<and> \<not> bit (active s ctx) source"
  unfolding eligible_for_context_def shr_and_1_iff by simp

lemma eligible_priority: "eligible_for_context s i ctx \<Longrightarrow> 0 < priority s i"
  by (auto simp: eligible_bits word_gt_0)

definition best_source :: "plic_state \<Rightarrow> nat \<Rightarrow> nat set \<Rightarrow> nat \<Rightarrow> bool" where
  "best_source s ctx I i \<longleftrightarrow> i \<in> I \<and> eligible_for_context s i ctx \<and>
     (\<forall>j \<in> I. eligible_for_context s j ctx \<longrightarrow> priority s j \<le> priority s i \<and> (j < i \<longrightarrow> priority s j < priority s i))"

lemma claim_scan:
  assumes "fold (claim_step s ctx) [1..<Suc n] (0, 0) = (mp, mi)"
  shows "(mi = 0 \<and> mp = 0 \<and> (\<forall>j \<in> {1..n}. \<not> eligible_for_context s j ctx)) \<or>
     (best_source s ctx {1..n} mi \<and> mp = priority s mi)"
  using assms
proof (induction n arbitrary: mp mi)
  case (Suc n)
  obtain mp' mi' where f: "fold (claim_step s ctx) [1..<Suc n] (0, 0) = (mp', mi')" by fastforce
  then have step: "claim_step s ctx (Suc n) (mp', mi') = (mp, mi)"
    using Suc.prems by simp
  have set: "{1..Suc n} = insert (Suc n) {1..n}" by auto
  from Suc.IH [OF f] step show ?case
    unfolding set best_source_def claim_step_def
    by (auto split: if_splits dest: eligible_priority simp: not_less)
qed simp

lemma claim_result:
  assumes "claim_interrupt_for_internal ctx s = (irq, s')"
  shows "(irq = 0 \<and> s' = s \<and> (\<forall>j \<in> {1..31}. \<not> eligible_for_context s j ctx)) \<or>
     (best_source s ctx {1..31} (unat irq) \<and>
      s' = s\<lparr> active := (active s)(ctx := active s ctx OR shl 1 (unat irq)) \<rparr>)"
proof -
  obtain mp mi where f: "fold (claim_step s ctx) [1..<Suc 31] (0, 0) = (mp, mi)" by fastforce
  have "[1..<NUM_SOURCES] = [1..<Suc 31]" by (simp add: NUM_SOURCES_def)
  then have r: "irq = word_of_nat mi" "s' = (if mi \<noteq> 0 then s\<lparr> active := (active s)(ctx := active s ctx OR shl 1 mi) \<rparr> else s)"
    using assms f by (auto simp: claim_interrupt_for_internal_def)
  from claim_scan [OF f] show ?thesis
  proof
    assume "best_source s ctx {1..31} mi \<and> mp = priority s mi"
    then have b: "best_source s ctx {1..31} mi" and "mi \<in> {1..31}" by (auto simp: best_source_def)
    then have "unat irq = mi" by (simp add: r(1) unat_of_nat take_bit_eq_mod)
    then show ?thesis using b r \<open>mi \<in> {1..31}\<close> by auto
  qed (use r in auto)
qed

subsection \<open>The caches mirror the state\<close>

definition plic_inv :: "plic \<Rightarrow> bool" where
  "plic_inv p \<longleftrightarrow> pending_cache p = pending (state p) \<and>
     (\<forall>i < NUM_CONTEXTS. enable_cache p i = enable (state p) i \<and> threshold_cache p i = threshold (state p) i) \<and>
     (\<forall>i < NUM_SOURCES. priority_cache p i = priority (state p) i)"

lemmas plic_sync_defs = with_state_def sync_pending_cache_def sync_enable_cache_def
  sync_threshold_cache_def sync_priority_cache_def sync_caches_from_def overwrite_def

lemma claim_keeps:
  assumes "claim_interrupt_for_internal ctx s = (irq, s')"
  shows "pending s' = pending s" "enable s' = enable s" "threshold s' = threshold s" "priority s' = priority s"
  using claim_result [OF assms] by auto

lemma plic_load_inv: "plic_inv p \<Longrightarrow> plic_inv (snd (plic_load off sz p))"
  by (auto simp: plic_load_def plic_inv_def plic_sync_defs Let_def claim_keeps split: prod.splits if_splits)

lemma plic_store_inv: "plic_inv p \<Longrightarrow> plic_inv (snd (plic_store off sz v p))"
  by (auto simp: plic_store_def plic_inv_def plic_sync_defs Let_def)

lemma plic_other_inv:
  "plic_inv plic_new" "plic_inv (sync_caches p)"
  "plic_inv p \<Longrightarrow> plic_inv (update_pending src p)" "plic_inv p \<Longrightarrow> plic_inv (set_source_level src level p)"
  "plic_inv p \<Longrightarrow> plic_inv (set_priority vs p)" "plic_inv p \<Longrightarrow> plic_inv (set_pending v p)"
  "plic_inv p \<Longrightarrow> plic_inv (set_enable vs p)" "plic_inv p \<Longrightarrow> plic_inv (set_threshold vs p)"
  "plic_inv p \<Longrightarrow> plic_inv (set_active vs p)" "plic_inv p \<Longrightarrow> plic_inv (snd (claim_interrupt_for ctx p))"
  by (auto simp: plic_inv_def plic_new_def sync_caches_def update_pending_def set_source_level_def
      set_priority_def set_pending_def set_enable_def set_threshold_def set_active_def
      claim_interrupt_for_def plic_sync_defs Let_def claim_keeps split: prod.splits)

subsection \<open>Properties\<close>

lemma fast_check_eq:
  assumes "plic_inv p" "ctx < NUM_CONTEXTS"
  shows "is_interrupt_pending_for_fast p ctx \<longleftrightarrow>
    (\<exists>i \<in> {1..31}. bit (pending (state p)) i \<and> bit (enable (state p) ctx) i \<and> priority (state p) i > threshold (state p) ctx)"
proof -
  have cand: "pending_cache p AND enable_cache p ctx = pending (state p) AND enable (state p) ctx"
    using assms by (simp add: plic_inv_def)
  have "is_interrupt_pending_for_fast p ctx \<longleftrightarrow>
     (\<exists>i \<in> {1..31}. bit (pending (state p) AND enable (state p) ctx) i \<and> priority (state p) i > threshold (state p) ctx)"
    using assms unfolding is_interrupt_pending_for_fast_def Let_def cand
    by (auto simp: list_ex_iff NUM_SOURCES_def and_2p_iff plic_inv_def)
  then show ?thesis by (simp add: bit_and_iff)
qed

text \<open>A source that a context can claim: pending, enabled for the context, not yet claimed by it, and with a
  priority above its threshold.\<close>

definition claimable :: "plic_state \<Rightarrow> nat \<Rightarrow> nat \<Rightarrow> bool" where
  "claimable s ctx j \<longleftrightarrow> 1 \<le> j \<and> j < 32 \<and> bit (pending s) j \<and> bit (enable s ctx) j \<and> \<not> bit (active s ctx) j \<and>
     unat (threshold s ctx) < unat (priority s j)"

lemma claimable_eq: "claimable s ctx j \<longleftrightarrow> j \<in> {1..31} \<and> eligible_for_context s j ctx"
  by (auto simp: claimable_def eligible_bits word_less_nat_alt)

text \<open>C32: a claim by a context returns the claimable source of highest priority, the lowest-numbered one among equals, or 0 when
  no source is claimable.  It sets the bit of the returned source among the claimed ones of the context; no other bit and no
  other part of the controller changes, and nothing at all when it returns 0.\<close>

theorem plic_claim_best:
  assumes "ctx < NUM_CONTEXTS" "claim_interrupt_for ctx p = (r, p')"
  shows "\<exists>irq. r = Ok irq \<and>
    (if \<exists>j. claimable (state p) ctx j
     then claimable (state p) ctx (unat irq) \<and>
       (\<forall>j. claimable (state p) ctx j \<longrightarrow> unat (priority (state p) j) < unat (priority (state p) (unat irq)) \<or>
          priority (state p) j = priority (state p) (unat irq) \<and> unat irq \<le> j) \<and>
       (\<forall>c k. bit (active (state p') c) k \<longleftrightarrow> bit (active (state p) c) k \<or> c = ctx \<and> k = unat irq) \<and>
       p = p'\<lparr> state := (state p')\<lparr> active := active (state p) \<rparr> \<rparr>
     else irq = 0 \<and> p' = p)"
proof -
  obtain irq s' where c: "claim_interrupt_for_internal ctx (state p) = (irq, s')" by fastforce
  then have r: "r = Ok irq" "p' = with_state s' p"
    using assms by (auto simp: claim_interrupt_for_def)
  have "bit (w OR shl 1 (unat irq)) k \<longleftrightarrow> bit w k \<or> k = unat irq" if "unat irq < 32" for w :: u32 and k
    using that by (auto simp: bit_or_iff bit_simps dest: bit_imp_le_length)
  then show ?thesis
    using claim_result [OF c] r
    by (auto simp: with_state_def claimable_eq best_source_def word_less_nat_alt [symmetric] not_less split: if_splits)
qed

definition example_plic :: plic where
  "example_plic = set_source_level 3 True (set_source_level 5 True
     (snd (plic_store 0x2080 4 0x28 (snd (plic_store 0x14 4 7 (snd (plic_store 0xC 4 2 plic_new)))))))"

theorem plic_claim_best_witness:
  "\<exists>p'. claim_interrupt_for 1 example_plic = (Ok 5, p') \<and> bit (active (state p') 1) 5 \<and> \<not> bit (active (state p') 1) 3"
proof -
  have f: "fst (claim_interrupt_for 1 example_plic) = Ok 5" "claimable (state example_plic) 1 5"
    "\<not> bit (active (state example_plic) 1) 3" by code_simp+
  have "1 < NUM_CONTEXTS" by (simp add: NUM_CONTEXTS_def MAX_HARTS_def)
  from plic_claim_best [OF this surjective_pairing, of example_plic] f show ?thesis
    by (cases "claim_interrupt_for 1 example_plic") (auto split: if_splits)
qed

text \<open>C33: every access to the PLIC, by software or by a device line, keeps the lock-free caches equal to
  the state they mirror.\<close>

theorem plic_caches_mirror:
  assumes "plic_inv p"
  shows "plic_inv (snd (plic_load off sz p)) \<and> plic_inv (snd (plic_store off sz v p)) \<and>
    plic_inv (set_source_level src level p) \<and> plic_inv (update_pending src p) \<and>
    plic_inv (snd (claim_interrupt_for ctx p)) \<and> plic_inv (set_priority vs p) \<and> plic_inv (set_enable vs p) \<and>
    plic_inv (set_threshold vs p) \<and> plic_inv (set_pending w p) \<and> plic_inv (set_active vs p)"
  using assms by (simp add: plic_load_inv plic_store_inv plic_other_inv)

theorem plic_caches_mirror_witness: "plic_inv plic_new \<and> plic_inv (set_source_level 3 True plic_new)"
  using plic_caches_mirror [OF plic_other_inv(1), of 0 0 0 3 True] plic_other_inv(1) by simp

text \<open>with mirrored caches the lock-free check has no false negatives: whenever a source is
  eligible for a context the check reports it; and it reports only eligible sources as long as the
  context has no claimed source.\<close>

theorem plic_fast_check_sound:
  assumes "plic_inv p" "ctx < NUM_CONTEXTS"
  shows "(is_interrupt_pending_for p ctx \<longrightarrow> is_interrupt_pending_for_fast p ctx) \<and>
    (active (state p) ctx = 0 \<longrightarrow> is_interrupt_pending_for_fast p ctx = is_interrupt_pending_for p ctx)"
proof -
  have acc: "is_interrupt_pending_for p ctx \<longleftrightarrow> (\<exists>i \<in> {1..31}. eligible_for_context (state p) i ctx)"
    using assms(2) by (auto simp: is_interrupt_pending_for_def list_ex_iff NUM_SOURCES_def)
  show ?thesis
    unfolding acc fast_check_eq [OF assms] eligible_bits by auto
qed

theorem plic_fast_check_sound_witness:
  "plic_inv example_plic \<and> is_interrupt_pending_for example_plic 1 \<and> is_interrupt_pending_for_fast example_plic 1"
proof -
  have "plic_inv example_plic" unfolding example_plic_def by (intro plic_store_inv plic_other_inv)
  moreover have "is_interrupt_pending_for example_plic 1" by code_simp
  moreover have "1 < NUM_CONTEXTS" by (simp add: NUM_CONTEXTS_def MAX_HARTS_def)
  ultimately show ?thesis using plic_fast_check_sound [of example_plic 1] by simp
qed

text \<open>the lock-free check ignores claims: right after a successful claim it still reports the
  context as having a pending interrupt, although the claimed source is no longer eligible.\<close>

theorem plic_fast_check_after_claim:
  assumes "plic_inv p" "ctx < NUM_CONTEXTS" "claim_interrupt_for ctx p = (Ok irq, p')" "irq \<noteq> 0"
  shows "is_interrupt_pending_for_fast p' ctx \<and> \<not> eligible_for_context (state p') (unat irq) ctx"
proof -
  obtain s' where c: "claim_interrupt_for_internal ctx (state p) = (irq, s')" and p': "p' = with_state s' p"
    using assms(2,3) by (auto simp: claim_interrupt_for_def split: prod.splits)
  then have b: "best_source (state p) ctx {1..31} (unat irq)"
    and s': "s' = (state p)\<lparr> active := (active (state p))(ctx := active (state p) ctx OR shl 1 (unat irq)) \<rparr>"
    using claim_result [OF c] assms(4) by auto
  then have "unat irq \<in> {1..31}" "eligible_for_context (state p) (unat irq) ctx"
    by (auto simp: best_source_def)
  moreover have "plic_inv p'" using plic_other_inv(10) [OF assms(1), of ctx] assms(3) by simp
  ultimately show ?thesis
    using fast_check_eq [OF _ assms(2), of p'] p' s'
    by (auto simp: with_state_def eligible_bits bit_or_iff bit_simps)
qed

theorem plic_fast_check_after_claim_witness:
  "is_interrupt_pending_for_fast (snd (claim_interrupt_for 1 example_plic)) 1"
proof -
  have "plic_inv example_plic" unfolding example_plic_def by (intro plic_store_inv plic_other_inv)
  moreover have "1 < NUM_CONTEXTS" by (simp add: NUM_CONTEXTS_def MAX_HARTS_def)
  moreover have "fst (claim_interrupt_for 1 example_plic) = Ok 5" by code_simp
  ultimately show ?thesis
    using plic_fast_check_after_claim [of example_plic 1 5 "snd (claim_interrupt_for 1 example_plic)"]
    by (simp add: prod_eq_iff)
qed

end
