(* ===== verification/Rv_Uart.thy ===== *)
theory Rv_Uart
  imports Rv_Dram
begin

text \<open>
  The 16550-style UART (\<^verbatim>\<open>riscv-vm/src/devices/uart.rs\<close>).  The three mutex-protected parts are one
  record; each method is one critical section.  A \<open>VecDeque\<close> used as a queue is a list whose head is
  the front.

  The lemmas show the data-ready invariant of the line status register, that the interrupt line is
  the function of the enabled conditions except after the operations that forget to recompute it,
  and that both FIFOs deliver bytes in order.
\<close>

unbundle bit_operations_syntax

abbreviation UART_BASE :: u64 where "UART_BASE \<equiv> 0x10000000"
abbreviation UART_SIZE :: u64 where "UART_SIZE \<equiv> 0x100"

record uart =
  rx_fifo :: "u8 list"
  tx_fifo :: "u8 list"
  thre_ip :: bool
  ier :: u8
  iir :: u8
  fcr :: u8
  lcr :: u8
  mcr :: u8
  lsr :: u8
  msr :: u8
  scr :: u8
  dll :: u8
  dlm :: u8
  interrupting :: bool

subsection \<open>Operations\<close>

definition uart_new :: uart where
  "uart_new = \<lparr> rx_fifo = [], tx_fifo = [], thre_ip = True, ier = 0, iir = 1, fcr = 0, lcr = 0, mcr = 0,
     lsr = 0x60, msr = 0, scr = 0, dll = 0, dlm = 0, interrupting = False \<rparr>"

definition update_interrupts_internal :: "uart \<Rightarrow> uart" where
  "update_interrupts_internal u =
     (let u = u\<lparr> interrupting := False, iir := 0x01 \<rparr>
      in if lsr u AND 0x01 \<noteq> 0 \<and> ier u AND 0x01 \<noteq> 0 then u\<lparr> interrupting := True, iir := 0x04 \<rparr>
         else if thre_ip u \<and> ier u AND 0x02 \<noteq> 0 then u\<lparr> interrupting := True, iir := 0x02 \<rparr>
         else u)"

definition is_interrupting :: "uart \<Rightarrow> bool" where
  "is_interrupting u = interrupting u"

definition get_input :: "uart \<Rightarrow> u8 list" where "get_input u = rx_fifo u"
definition get_output :: "uart \<Rightarrow> u8 list" where "get_output u = tx_fifo u"

definition get_registers :: "uart \<Rightarrow> u8 \<times> u8 \<times> u8 \<times> u8 \<times> u8 \<times> u8 \<times> u8 \<times> u8 \<times> u8 \<times> u8" where
  "get_registers u = (ier u, iir u, fcr u, lcr u, mcr u, lsr u, msr u, scr u, dll u, dlm u)"

definition set_input :: "u8 list \<Rightarrow> uart \<Rightarrow> uart" where
  "set_input vs u =
     u\<lparr> rx_fifo := vs, lsr := (if vs \<noteq> [] then lsr u OR 0x01 else lsr u AND NOT 0x01) \<rparr>"

definition set_output :: "u8 list \<Rightarrow> uart \<Rightarrow> uart" where
  "set_output vs u = u\<lparr> tx_fifo := vs \<rparr>"

definition set_registers ::
  "u8 \<times> u8 \<times> u8 \<times> u8 \<times> u8 \<times> u8 \<times> u8 \<times> u8 \<times> u8 \<times> u8 \<Rightarrow> uart \<Rightarrow> uart" where
  "set_registers regs u =
     (case regs of (a, b, c, d, e, f, g, h, i, j) \<Rightarrow>
        update_interrupts_internal
          (u\<lparr> ier := a, iir := b, fcr := c, lcr := d, mcr := e, lsr := f, msr := g, scr := h, dll := i,
             dlm := j \<rparr>))"

definition uart_load :: "u64 \<Rightarrow> u64 \<Rightarrow> uart \<Rightarrow> (u64, memory_error) result \<times> uart" where
  "uart_load off sz u =
     (if sz \<noteq> 1 then (Ok 0, u)
      else if off = 0 then
        (if lcr u AND 0x80 \<noteq> 0 then (Ok (zext8 (dll u)), u)
         else
           (let byte = (case rx_fifo u of [] \<Rightarrow> 0 | b # _ \<Rightarrow> b);
                u = u\<lparr> rx_fifo := tl (rx_fifo u) \<rparr>;
                u = (if rx_fifo u = [] then u\<lparr> lsr := lsr u AND NOT 0x01 \<rparr> else u)
            in (Ok (zext8 byte), update_interrupts_internal u)))
      else if off = 1 then (Ok (zext8 (if lcr u AND 0x80 \<noteq> 0 then dlm u else ier u)), u)
      else if off = 2 then
        (let v = iir u
         in if v AND 0x0F = 0x02
            then (Ok (zext8 v), update_interrupts_internal (u\<lparr> thre_ip := False \<rparr>))
            else (Ok (zext8 v), u))
      else if off = 3 then (Ok (zext8 (lcr u)), u)
      else if off = 4 then (Ok (zext8 (mcr u)), u)
      else if off = 5 then (Ok (zext8 (lsr u)), u)
      else if off = 6 then (Ok (zext8 (msr u)), u)
      else if off = 7 then (Ok (zext8 (scr u)), u)
      else (Ok 0, u))"

definition uart_store :: "u64 \<Rightarrow> u64 \<Rightarrow> u64 \<Rightarrow> uart \<Rightarrow> (unit, memory_error) result \<times> uart" where
  "uart_store off sz value u =
     (let v = low8 (value AND 0xFF)
      in if sz \<noteq> 1 then (Ok (), u)
         else if off = 0 then
           (if lcr u AND 0x80 \<noteq> 0 then (Ok (), u\<lparr> dll := v \<rparr>)
            else (Ok (), update_interrupts_internal
                    (u\<lparr> tx_fifo := tx_fifo u @ [v], lsr := lsr u OR 0x20, thre_ip := True \<rparr>)))
         else if off = 1 then
           (if lcr u AND 0x80 \<noteq> 0 then (Ok (), u\<lparr> dlm := v \<rparr>)
            else (Ok (), update_interrupts_internal (u\<lparr> ier := v \<rparr>)))
         else if off = 2 then
           (let u = u\<lparr> fcr := v \<rparr>;
                u = (if v AND 0x02 \<noteq> 0 then u\<lparr> rx_fifo := [], lsr := lsr u AND NOT 0x01 \<rparr> else u);
                u = (if v AND 0x04 \<noteq> 0 then u\<lparr> tx_fifo := [], lsr := lsr u OR 0x60 \<rparr> else u)
            in (Ok (), u))
         else if off = 3 then (Ok (), u\<lparr> lcr := v \<rparr>)
         else if off = 4 then (Ok (), u\<lparr> mcr := v \<rparr>)
         else if off = 7 then (Ok (), u\<lparr> scr := v \<rparr>)
         else (Ok (), u))"

definition push_input :: "u8 \<Rightarrow> uart \<Rightarrow> uart" where
  "push_input byte u =
     update_interrupts_internal (u\<lparr> rx_fifo := rx_fifo u @ [byte], lsr := lsr u OR 0x01 \<rparr>)"

definition pop_output :: "uart \<Rightarrow> u8 option \<times> uart" where
  "pop_output u = (case tx_fifo u of [] \<Rightarrow> (None, u) | b # bs \<Rightarrow> (Some b, u\<lparr> tx_fifo := bs \<rparr>))"

definition drain_output :: "uart \<Rightarrow> u8 list \<times> uart" where
  "drain_output u = (tx_fifo u, u\<lparr> tx_fifo := [] \<rparr>)"

definition has_output :: "uart \<Rightarrow> bool" where
  "has_output u = (tx_fifo u \<noteq> [])"

definition push_output :: "u8 \<Rightarrow> uart \<Rightarrow> uart" where
  "push_output byte u = u\<lparr> tx_fifo := tx_fifo u @ [byte] \<rparr>"

definition push_output_str :: "u8 list \<Rightarrow> uart \<Rightarrow> uart" where
  "push_output_str bs u = u\<lparr> tx_fifo := tx_fifo u @ bs \<rparr>"

definition clear_interrupt :: "uart \<Rightarrow> uart" where
  "clear_interrupt u = u\<lparr> interrupting := False \<rparr>"

subsection \<open>Invariants\<close>

text \<open>Data ready is set exactly when a received byte waits.\<close>

definition uart_inv :: "uart \<Rightarrow> bool" where
  "uart_inv u \<longleftrightarrow> (bit (lsr u) 0 \<longleftrightarrow> rx_fifo u \<noteq> [])"

text \<open>The interrupt line that the enabled conditions call for.\<close>

definition irq_line :: "uart \<Rightarrow> bool" where
  "irq_line u \<longleftrightarrow> (bit (lsr u) 0 \<and> bit (ier u) 0) \<or> (thre_ip u \<and> bit (ier u) 1)"

primrec read_bytes :: "nat \<Rightarrow> uart \<Rightarrow> u64 list \<times> uart" where
  "read_bytes 0 u = ([], u)"
| "read_bytes (Suc n) u =
     (case uart_load 0 1 u of (r, u) \<Rightarrow> case read_bytes n u of (bs, u) \<Rightarrow>
        ((case r of Ok b \<Rightarrow> b | _ \<Rightarrow> 0) # bs, u))"

lemma and_2_iff: "(w AND 2 = 0) = (\<not> bit w (Suc 0))" for w :: u8
  using and_2p_iff [of 1 w] by simp

lemma and_1_not0: "(w AND 1 = 0) = (\<not> bit w 0)" for w :: u8
  by (rule and_1_iff)

lemma update_keeps [simp]:
  "rx_fifo (update_interrupts_internal u) = rx_fifo u" "tx_fifo (update_interrupts_internal u) = tx_fifo u"
  "lsr (update_interrupts_internal u) = lsr u" "lcr (update_interrupts_internal u) = lcr u"
  "ier (update_interrupts_internal u) = ier u" "thre_ip (update_interrupts_internal u) = thre_ip u"
  by (simp_all add: update_interrupts_internal_def Let_def)

lemma update_line: "interrupting (update_interrupts_internal u) = irq_line u"
  unfolding update_interrupts_internal_def Let_def irq_line_def and_1_not0 and_2_iff by auto

lemma lsr_bits:
  "bit (w AND NOT 1) 0 = False" "bit (w AND - 2) 0 = False" "bit (w OR 1) 0" "bit (w OR 0x20) 0 = bit w 0" "bit (w OR 0x60) 0 = bit w 0"
  for w :: u8
  by (simp_all add: bit_simps)

lemma uart_inv_load: "uart_inv u \<Longrightarrow> uart_inv (snd (uart_load off sz u))"
  by (auto simp: uart_load_def uart_inv_def Let_def lsr_bits split: list.splits)

lemma uart_inv_store: "uart_inv u \<Longrightarrow> uart_inv (snd (uart_store off sz v u))"
  by (auto simp: uart_store_def uart_inv_def Let_def lsr_bits)

lemma uart_inv_host:
  "uart_inv uart_new" "uart_inv u \<Longrightarrow> uart_inv (push_input b u)" "uart_inv (set_input vs u)"
  by (auto simp: uart_inv_def uart_new_def push_input_def set_input_def lsr_bits)

text \<open>Loads recompute the line or do not touch its inputs; stores do so except through \<open>FCR\<close>.\<close>

definition line_ok :: "uart \<Rightarrow> bool" where
  "line_ok u \<longleftrightarrow> interrupting u = irq_line u"

lemma line_ok_update [simp]: "line_ok (update_interrupts_internal u)"
  by (simp add: line_ok_def update_line) (simp add: irq_line_def)

lemma line_ok_load: "line_ok u \<Longrightarrow> line_ok (snd (uart_load off sz u))"
  by (simp add: uart_load_def Let_def)

lemma line_ok_store: "line_ok u \<Longrightarrow> off \<noteq> 2 \<Longrightarrow> line_ok (snd (uart_store off sz v u))"
  by (auto simp: uart_store_def Let_def) (simp_all add: line_ok_def irq_line_def)

lemma read_byte:
  assumes "lcr u AND 0x80 = 0" "rx_fifo u = b # bs" "uart_load 0 1 u = (r, u')"
  shows "r = Ok (zext8 b) \<and> rx_fifo u' = bs \<and> lcr u' = lcr u"
  using assms by (auto simp: uart_load_def Let_def split: if_splits)

lemma read_bytes_fifo:
  "lcr u AND 0x80 = 0 \<Longrightarrow> rx_fifo u = bs @ rest \<Longrightarrow>
     fst (read_bytes (length bs) u) = map zext8 bs \<and> rx_fifo (snd (read_bytes (length bs) u)) = rest"
proof (induction bs arbitrary: u)
  case (Cons b bs)
  obtain r u' where l: "uart_load 0 1 u = (r, u')" by fastforce
  have "r = Ok (zext8 b)" "rx_fifo u' = bs @ rest" "lcr u' = lcr u"
    using read_byte [OF Cons.prems(1) _ l, of b "bs @ rest"] Cons.prems(2) by auto
  then show ?case using Cons.IH [of u'] Cons.prems l by (auto split: prod.splits)
qed simp

lemma push_input_fifo:
  "rx_fifo (fold push_input bs u) = rx_fifo u @ bs" "lcr (fold push_input bs u) = lcr u"
  by (induction bs arbitrary: u) (simp_all add: push_input_def)

lemma write_byte:
  "lcr u AND 0x80 = 0 \<Longrightarrow> tx_fifo (snd (uart_store 0 1 (zext8 b) u)) = tx_fifo u @ [b] \<and>
     lcr (snd (uart_store 0 1 (zext8 b) u)) = lcr u"
proof -
  have "low8 (zext8 b AND 0xFF) = b"
    by (rule bit_word_eqI) (auto simp: bitx)
  then show "lcr u AND 0x80 = 0 \<Longrightarrow> tx_fifo (snd (uart_store 0 1 (zext8 b) u)) = tx_fifo u @ [b] \<and>
     lcr (snd (uart_store 0 1 (zext8 b) u)) = lcr u"
    by (simp add: uart_store_def Let_def)
qed

subsection \<open>Properties\<close>

text \<open>in every state reached by register accesses and host input, the data-ready bit of the line
  status register is set exactly when a received byte waits in the FIFO.\<close>

theorem uart_data_ready_invariant:
  assumes "uart_inv u"
  shows "uart_inv (snd (uart_load off sz u)) \<and> uart_inv (snd (uart_store off sz v u)) \<and>
    uart_inv (push_input b u) \<and> uart_inv (set_input vs u)"
  using assms by (simp add: uart_inv_load uart_inv_store uart_inv_host)

theorem uart_data_ready_invariant_witness:
  "uart_inv (push_input 65 uart_new) \<and> uart_inv (snd (uart_load 0 1 (push_input 65 uart_new)))"
  using uart_data_ready_invariant [OF uart_inv_host(1), where b = 65]
    uart_data_ready_invariant [OF uart_inv_host(2) [OF uart_inv_host(1), of 65], where off = 0 and sz = 1]
  by simp

text \<open>bytes typed on the host reach the guest in order: after any sequence of input bytes, reading
  the receive register that many times returns the bytes already waiting followed by the new ones,
  first in first out.\<close>

theorem uart_rx_order:
  assumes "lcr u AND 0x80 = 0"
  shows "fst (read_bytes (length (rx_fifo u @ bs)) (fold push_input bs u)) = map zext8 (rx_fifo u @ bs) \<and>
    rx_fifo (snd (read_bytes (length (rx_fifo u @ bs)) (fold push_input bs u))) = []"
  using read_bytes_fifo [of "fold push_input bs u" "rx_fifo u @ bs" "[]"] assms
  by (simp add: push_input_fifo)

theorem uart_rx_order_witness:
  "fst (read_bytes 2 (fold push_input [104, 105] uart_new)) = [104, 105]"
  using uart_rx_order [of uart_new "[104, 105]"]
  by (simp add: uart_new_def del: read_bytes.simps flip: numeral_2_eq_2)

text \<open>bytes the guest writes to the transmit register are drained by the host in order, after
  whatever was already queued.\<close>

theorem uart_tx_order:
  assumes "lcr u AND 0x80 = 0"
  shows "fst (drain_output (fold (\<lambda>b u. snd (uart_store 0 1 (zext8 b) u)) bs u)) = tx_fifo u @ bs"
  using assms
proof (induction bs arbitrary: u)
  case (Cons b bs)
  then show ?case using write_byte [OF Cons.prems, of b] by simp
qed (simp add: drain_output_def)

theorem uart_tx_order_witness:
  "fst (drain_output (fold (\<lambda>b u. snd (uart_store 0 1 (zext8 b) u)) [111, 107] uart_new)) = [111, 107]"
  using uart_tx_order [of uart_new "[111, 107]"] by (simp add: uart_new_def)

text \<open>the interrupt line equals the enabled conditions after every load and after every store that
  does not go to the FIFO control register; clearing the receive FIFO through that register leaves
  the line as it was, so it stays raised with no byte left to read.\<close>

theorem uart_interrupt_line:
  assumes "line_ok u"
  shows "line_ok (snd (uart_load off sz u)) \<and> (off \<noteq> 2 \<longrightarrow> line_ok (snd (uart_store off sz v u))) \<and>
    line_ok (push_input b u) \<and>
    (bit v 1 \<longrightarrow> interrupting (snd (uart_store 2 1 v u)) = interrupting u \<and> rx_fifo (snd (uart_store 2 1 v u)) = [])"
proof -
  have "low8 (v AND 0xFF) AND 2 \<noteq> 0 \<longleftrightarrow> bit v 1"
    unfolding and_2_iff by (simp add: bitx)
  then show ?thesis
    using assms line_ok_load line_ok_store by (auto simp: push_input_def uart_store_def Let_def)
qed

theorem uart_interrupt_line_witness:
  "line_ok (push_input 65 (snd (uart_store 1 1 1 uart_new))) \<and>
   is_interrupting (snd (uart_store 2 1 2 (push_input 65 (snd (uart_store 1 1 1 uart_new))))) \<and>
   \<not> irq_line (snd (uart_store 2 1 2 (push_input 65 (snd (uart_store 1 1 1 uart_new)))))"
proof -
  let ?u = "push_input 65 (snd (uart_store 1 1 1 uart_new))"
  have l: "line_ok ?u" "interrupting ?u" "\<not> irq_line (snd (uart_store 2 1 2 ?u))" by code_simp+
  then show ?thesis
    using uart_interrupt_line [OF l(1), of 0 0 2] by (simp add: is_interrupting_def bit_simps)
qed

end
