(* ===== verification/Rv_Sysinfo.thy ===== *)
theory Rv_Sysinfo
  imports Rv_Types
begin

text \<open>
  The system information device (\<^verbatim>\<open>riscv-vm/src/devices/sysinfo.rs\<close>): six registers the guest
  writes and the host reads.  64-bit registers can be accessed whole or in 32-bit halves.
\<close>

unbundle bit_operations_syntax

abbreviation SYSINFO_BASE :: u64 where "SYSINFO_BASE \<equiv> 0x00110000"
abbreviation SYSINFO_SIZE :: u64 where "SYSINFO_SIZE \<equiv> 0x1000"

record sysinfo =
  heap_used :: u64
  heap_total :: u64
  disk_used :: u64
  disk_total :: u64
  cpu_count :: u32
  uptime_ms :: u64

definition sysinfo_new :: sysinfo where
  "sysinfo_new = \<lparr> heap_used = 0, heap_total = 0, disk_used = 0, disk_total = 0, cpu_count = 1, uptime_ms = 0 \<rparr>"

definition heap_usage :: "sysinfo \<Rightarrow> u64 \<times> u64" where "heap_usage s = (heap_used s, heap_total s)"
definition disk_usage :: "sysinfo \<Rightarrow> u64 \<times> u64" where "disk_usage s = (disk_used s, disk_total s)"

text \<open>The read and update of one half of a 64-bit register.\<close>

definition lo_half :: "u64 \<Rightarrow> u64" where "lo_half v = zext32 (low32 v)"
definition hi_half :: "u64 \<Rightarrow> u64" where "hi_half v = shr v 32"

definition put_lo :: "u64 \<Rightarrow> u64 \<Rightarrow> u64" where
  "put_lo v cur = (cur AND 0xFFFFFFFF00000000) OR (v AND 0xFFFFFFFF)"

definition put_hi :: "u64 \<Rightarrow> u64 \<Rightarrow> u64" where
  "put_hi v cur = (cur AND 0x00000000FFFFFFFF) OR shl (v AND 0xFFFFFFFF) 32"

definition sysinfo_load :: "sysinfo \<Rightarrow> u64 \<Rightarrow> u64 \<Rightarrow> u64" where
  "sysinfo_load s off sz =
     (if off = 0x00 \<and> sz = 4 then lo_half (heap_used s)
      else if off = 0x04 \<and> sz = 4 then hi_half (heap_used s)
      else if off = 0x00 \<and> sz = 8 then heap_used s
      else if off = 0x08 \<and> sz = 4 then lo_half (heap_total s)
      else if off = 0x0C \<and> sz = 4 then hi_half (heap_total s)
      else if off = 0x08 \<and> sz = 8 then heap_total s
      else if off = 0x10 \<and> sz = 4 then lo_half (disk_used s)
      else if off = 0x14 \<and> sz = 4 then hi_half (disk_used s)
      else if off = 0x10 \<and> sz = 8 then disk_used s
      else if off = 0x18 \<and> sz = 4 then lo_half (disk_total s)
      else if off = 0x1C \<and> sz = 4 then hi_half (disk_total s)
      else if off = 0x18 \<and> sz = 8 then disk_total s
      else if off = 0x20 \<and> (sz = 4 \<or> sz = 8) then zext32 (cpu_count s)
      else if off = 0x28 \<and> sz = 4 then lo_half (uptime_ms s)
      else if off = 0x2C \<and> sz = 4 then hi_half (uptime_ms s)
      else if off = 0x28 \<and> sz = 8 then uptime_ms s
      else 0)"

definition sysinfo_store :: "u64 \<Rightarrow> u64 \<Rightarrow> u64 \<Rightarrow> sysinfo \<Rightarrow> sysinfo" where
  "sysinfo_store off sz v s =
     (if off = 0x00 \<and> sz = 4 then s\<lparr> heap_used := put_lo v (heap_used s) \<rparr>
      else if off = 0x04 \<and> sz = 4 then s\<lparr> heap_used := put_hi v (heap_used s) \<rparr>
      else if off = 0x00 \<and> sz = 8 then s\<lparr> heap_used := v \<rparr>
      else if off = 0x08 \<and> sz = 4 then s\<lparr> heap_total := put_lo v (heap_total s) \<rparr>
      else if off = 0x0C \<and> sz = 4 then s\<lparr> heap_total := put_hi v (heap_total s) \<rparr>
      else if off = 0x08 \<and> sz = 8 then s\<lparr> heap_total := v \<rparr>
      else if off = 0x10 \<and> sz = 4 then s\<lparr> disk_used := put_lo v (disk_used s) \<rparr>
      else if off = 0x14 \<and> sz = 4 then s\<lparr> disk_used := put_hi v (disk_used s) \<rparr>
      else if off = 0x10 \<and> sz = 8 then s\<lparr> disk_used := v \<rparr>
      else if off = 0x18 \<and> sz = 4 then s\<lparr> disk_total := put_lo v (disk_total s) \<rparr>
      else if off = 0x1C \<and> sz = 4 then s\<lparr> disk_total := put_hi v (disk_total s) \<rparr>
      else if off = 0x18 \<and> sz = 8 then s\<lparr> disk_total := v \<rparr>
      else if off = 0x20 \<and> (sz = 4 \<or> sz = 8) then s\<lparr> cpu_count := low32 v \<rparr>
      else if off = 0x28 \<and> sz = 4 then s\<lparr> uptime_ms := put_lo v (uptime_ms s) \<rparr>
      else if off = 0x2C \<and> sz = 4 then s\<lparr> uptime_ms := put_hi v (uptime_ms s) \<rparr>
      else if off = 0x28 \<and> sz = 8 then s\<lparr> uptime_ms := v \<rparr>
      else s)"

text \<open>The 64-bit registers.\<close>

definition reg64 :: "u64 \<Rightarrow> bool" where
  "reg64 off \<longleftrightarrow> off \<in> {0x00, 0x08, 0x10, 0x18, 0x28}"

lemma halves:
  "put_hi h (put_lo l c) = shl h 32 OR (l AND 0xFFFFFFFF)" "put_lo l (put_hi h c) = shl h 32 OR (l AND 0xFFFFFFFF)"
  "lo_half v = v AND 0xFFFFFFFF"
  unfolding put_hi_def put_lo_def lo_half_def
  by (rule bit_word_eqI, unfold bitx, auto)+

text \<open>each 64-bit register reads back what was written, whole or assembled from 32-bit halves written
  in either order, and the halves read back the halves; writing one register leaves the others.\<close>

theorem sysinfo_register_roundtrip:
  assumes "reg64 off"
  shows "sysinfo_load (sysinfo_store off 8 v s) off 8 = v
    \<and> sysinfo_load (sysinfo_store off 8 v s) off 4 = v AND 0xFFFFFFFF
    \<and> sysinfo_load (sysinfo_store off 8 v s) (off + 4) 4 = shr v 32
    \<and> sysinfo_store (off + 4) 4 h (sysinfo_store off 4 l s) = sysinfo_store off 8 (shl h 32 OR (l AND 0xFFFFFFFF)) s
    \<and> sysinfo_store off 4 l (sysinfo_store (off + 4) 4 h s) = sysinfo_store off 8 (shl h 32 OR (l AND 0xFFFFFFFF)) s
    \<and> (reg64 off' \<and> off' \<noteq> off \<longrightarrow> sysinfo_load (sysinfo_store off 8 v s) off' 8 = sysinfo_load s off' 8)"
proof -
  consider "off = 0" | "off = 8" | "off = 0x10" | "off = 0x18" | "off = 0x28"
    using assms by (auto simp: reg64_def)
  then show ?thesis
    by cases (auto simp: sysinfo_load_def sysinfo_store_def halves hi_half_def reg64_def)
qed

theorem sysinfo_register_roundtrip_witness:
  "reg64 0x10 \<and> sysinfo_load (sysinfo_store 0x10 8 0x1234567890 sysinfo_new) 0x14 4 = 0x12"
  using sysinfo_register_roundtrip [of "0x10" "0x1234567890" sysinfo_new] by (simp add: reg64_def)

end
