(* ===== verification/Rv_System_Bus.thy ===== *)
theory Rv_System_Bus
  imports Rv_Bus Rv_Dram Rv_Virtio Rv_Clint Rv_Plic Rv_Uart Rv_Sysinfo
begin

text \<open>
  The system bus (\<^verbatim>\<open>riscv-vm/src/bus.rs\<close>, native build): DRAM on the fast path, and the slow path
  that decodes the address of a memory-mapped device.  The virtio devices on the bus are states \<open>'d\<close>
  with the record of their methods as an argument; \<open>write\<close> and \<open>poll\<close> get the DRAM, since a device
  transfers data by DMA.
\<close>

unbundle bit_operations_syntax

subsection \<open>State and address map\<close>

record 'd system_bus =
  sb_dram :: dram
  sb_clint :: clint
  sb_plic :: plic
  sb_uart :: uart
  sb_sysinfo :: sysinfo
  sb_virtio :: "'d list"

abbreviation TEST_FINISHER_BASE :: u64 where "TEST_FINISHER_BASE \<equiv> 0x00100000"
abbreviation TEST_FINISHER_SIZE :: u64 where "TEST_FINISHER_SIZE \<equiv> 0x1000"
abbreviation VIRTIO_BASE :: u64 where "VIRTIO_BASE \<equiv> 0x10001000"
abbreviation VIRTIO_STRIDE :: u64 where "VIRTIO_STRIDE \<equiv> 0x1000"

definition in_region :: "u64 \<Rightarrow> u64 \<Rightarrow> u64 \<Rightarrow> bool" where
  "in_region addr b sz \<longleftrightarrow> addr \<ge> b \<and> addr < b + sz"

definition system_bus_new :: "u64 \<Rightarrow> u64 \<Rightarrow> 'd system_bus" where
  "system_bus_new b sz = \<lparr> sb_dram = dram_new b sz, sb_clint = clint_new, sb_plic = plic_new,
     sb_uart = uart_new, sb_sysinfo = sysinfo_new, sb_virtio = [] \<rparr>"

definition sb_set_num_harts :: "nat \<Rightarrow> 'd system_bus \<Rightarrow> 'd system_bus" where
  "sb_set_num_harts n s = s\<lparr> sb_clint := set_num_harts n (sb_clint s) \<rparr>"

definition get_virtio_device :: "'d system_bus \<Rightarrow> u64 \<Rightarrow> (nat \<times> u64) option" where
  "get_virtio_device s addr =
     (if addr \<ge> VIRTIO_BASE then
        (let off = addr - VIRTIO_BASE; idx = unat (off div VIRTIO_STRIDE)
         in if idx < length (sb_virtio s) then Some (idx, off mod VIRTIO_STRIDE) else None)
      else None)"

definition is_virtio_region :: "u64 \<Rightarrow> u64 option" where
  "is_virtio_region addr =
     (if addr \<ge> VIRTIO_BASE \<and> addr < VIRTIO_BASE + VIRTIO_STRIDE * 8
      then Some ((addr - VIRTIO_BASE) mod VIRTIO_STRIDE) else None)"

subsection \<open>Interrupt lines\<close>

primrec virtio_levels :: "'d virtio_ops \<Rightarrow> nat \<Rightarrow> 'd list \<Rightarrow> plic \<Rightarrow> plic" where
  "virtio_levels vops i [] p = p"
| "virtio_levels vops i (d # ds) p =
     (let irq = VIRTIO0_IRQ + word_of_nat i
      in virtio_levels vops (Suc i) ds
           (if irq < 32 then set_source_level irq (v_is_interrupting vops d) p else p))"

definition sb_check_interrupts_for_hart ::
  "'d virtio_ops \<Rightarrow> nat \<Rightarrow> 'd system_bus \<Rightarrow> u64 \<times> 'd system_bus" where
  "sb_check_interrupts_for_hart vops hart s =
     (let clint = (if hart = 0 then tick (sb_clint s) else sb_clint s);
          plic = set_source_level UART_IRQ (is_interrupting (sb_uart s)) (sb_plic s);
          plic = virtio_levels vops 0 (sb_virtio s) plic;
          (msip, timer) = clint_check_interrupts clint hart;
          mip = 0;
          mip = (if msip then mip OR shl 1 3 else mip);
          mip = (if timer then mip OR shl 1 7 else mip);
          mip = (if is_interrupt_pending_for_fast plic (s_context hart) then mip OR shl 1 9 else mip);
          mip = (if is_interrupt_pending_for_fast plic (m_context hart) then mip OR shl 1 11 else mip)
      in (mip, s\<lparr> sb_clint := clint, sb_plic := plic \<rparr>))"

text \<open>A poll error is logged and ignored; a panic of the device is a panic of the bus.\<close>

primrec poll_devices :: "'d virtio_ops \<Rightarrow> 'd list \<Rightarrow> dram \<Rightarrow> (unit, memory_error) result \<times> 'd list \<times> dram" where
  "poll_devices vops [] m = (Ok (), [], m)"
| "poll_devices vops (d # ds) m =
     (case v_poll vops (d, m) of (r, d, m) \<Rightarrow>
        if r = Panic then (Panic, d # ds, m)
        else (case poll_devices vops ds m of (r, ds, m) \<Rightarrow> (r, d # ds, m)))"

definition poll_virtio :: "'d virtio_ops \<Rightarrow> 'd system_bus \<Rightarrow> (unit, memory_error) result \<times> 'd system_bus" where
  "poll_virtio vops s =
     (case poll_devices vops (sb_virtio s) (sb_dram s) of (r, ds, m) \<Rightarrow>
        (r, s\<lparr> sb_virtio := ds, sb_dram := m \<rparr>))"

subsection \<open>Device accesses\<close>

definition sb_plic_load :: "u64 \<Rightarrow> u64 \<Rightarrow> 'd system_bus \<Rightarrow> (u64, trap) result \<times> 'd system_bus" where
  "sb_plic_load addr sz s =
     (case plic_load (addr - PLIC_BASE) sz (sb_plic s) of (r, p) \<Rightarrow>
        (map_err (\<lambda>_. LoadAccessFault addr) r, s\<lparr> sb_plic := p \<rparr>))"

definition sb_plic_store :: "u64 \<Rightarrow> u64 \<Rightarrow> u64 \<Rightarrow> 'd system_bus \<Rightarrow> (unit, trap) result \<times> 'd system_bus" where
  "sb_plic_store addr sz v s =
     (case plic_store (addr - PLIC_BASE) sz v (sb_plic s) of (r, p) \<Rightarrow>
        (map_err (\<lambda>_. StoreAccessFault addr) r, s\<lparr> sb_plic := p \<rparr>))"

definition sb_uart_load :: "u64 \<Rightarrow> u64 \<Rightarrow> 'd system_bus \<Rightarrow> (u64, trap) result \<times> 'd system_bus" where
  "sb_uart_load addr sz s =
     (case uart_load (addr - UART_BASE) sz (sb_uart s) of (r, u) \<Rightarrow>
        (map_err (\<lambda>_. LoadAccessFault addr) r, s\<lparr> sb_uart := u \<rparr>))"

definition sb_uart_store :: "u64 \<Rightarrow> u64 \<Rightarrow> u64 \<Rightarrow> 'd system_bus \<Rightarrow> (unit, trap) result \<times> 'd system_bus" where
  "sb_uart_store addr sz v s =
     (case uart_store (addr - UART_BASE) sz v (sb_uart s) of (r, u) \<Rightarrow>
        (map_err (\<lambda>_. StoreAccessFault addr) r, s\<lparr> sb_uart := u \<rparr>))"

definition sb_clint_store :: "u64 \<Rightarrow> u64 \<Rightarrow> u64 \<Rightarrow> 'd system_bus \<Rightarrow> (unit, trap) result \<times> 'd system_bus" where
  "sb_clint_store addr sz v s = (Ok (), s\<lparr> sb_clint := clint_store (addr - CLINT_BASE) sz v (sb_clint s) \<rparr>)"

definition sb_sysinfo_store :: "u64 \<Rightarrow> u64 \<Rightarrow> u64 \<Rightarrow> 'd system_bus \<Rightarrow> (unit, trap) result \<times> 'd system_bus" where
  "sb_sysinfo_store addr sz v s =
     (Ok (), s\<lparr> sb_sysinfo := sysinfo_store (addr - SYSINFO_BASE) sz v (sb_sysinfo s) \<rparr>)"

definition virtio_dev_read ::
  "'d virtio_ops \<Rightarrow> nat \<Rightarrow> u64 \<Rightarrow> u64 \<Rightarrow> 'd system_bus \<Rightarrow> (u64, trap) result \<times> 'd system_bus" where
  "virtio_dev_read vops idx off addr s =
     (case v_read vops off (sb_virtio s ! idx) of (r, d) \<Rightarrow>
        (map_err (\<lambda>_. LoadAccessFault addr) r, s\<lparr> sb_virtio := (sb_virtio s)[idx := d] \<rparr>))"

definition virtio_dev_write ::
  "'d virtio_ops \<Rightarrow> nat \<Rightarrow> u64 \<Rightarrow> u64 \<Rightarrow> u64 \<Rightarrow> 'd system_bus \<Rightarrow> (unit, trap) result \<times> 'd system_bus" where
  "virtio_dev_write vops idx off v addr s =
     (case v_write vops off v (sb_virtio s ! idx, sb_dram s) of (r, d, m) \<Rightarrow>
        (map_err (\<lambda>_. StoreAccessFault addr) r, s\<lparr> sb_virtio := (sb_virtio s)[idx := d], sb_dram := m \<rparr>))"

subsection \<open>The slow path\<close>

definition read8_slow :: "'d virtio_ops \<Rightarrow> u64 \<Rightarrow> 'd system_bus \<Rightarrow> (u8, trap) result \<times> 'd system_bus" where
  "read8_slow vops addr s =
     (if in_region addr TEST_FINISHER_BASE TEST_FINISHER_SIZE then (Ok 0, s)
      else if in_region addr SYSINFO_BASE SYSINFO_SIZE then
        (Ok (low8 (sysinfo_load (sb_sysinfo s) (addr - SYSINFO_BASE) 1)), s)
      else if in_region addr CLINT_BASE CLINT_SIZE then
        (Ok (low8 (clint_load (sb_clint s) (addr - CLINT_BASE) 1)), s)
      else if in_region addr PLIC_BASE PLIC_SIZE then (case sb_plic_load addr 1 s of (r, s) \<Rightarrow> (map_result low8 id r, s))
      else if in_region addr UART_BASE UART_SIZE then (case sb_uart_load addr 1 s of (r, s) \<Rightarrow> (map_result low8 id r, s))
      else case get_virtio_device s addr of
         Some (idx, off) \<Rightarrow>
           (case virtio_dev_read vops idx (off AND NOT 3) addr s of (r, s) \<Rightarrow>
              (map_result (\<lambda>word. low8 (shr word (unat ((off AND 3) * 8)) AND 0xFF)) id r, s))
       | None \<Rightarrow>
           (if is_virtio_region addr \<noteq> None then (Ok 0, s) else (Err (LoadAccessFault addr), s)))"

definition read16_slow :: "'d virtio_ops \<Rightarrow> u64 \<Rightarrow> 'd system_bus \<Rightarrow> (u16, trap) result \<times> 'd system_bus" where
  "read16_slow vops addr s =
     (if in_region addr TEST_FINISHER_BASE TEST_FINISHER_SIZE then (Ok 0, s)
      else if in_region addr SYSINFO_BASE SYSINFO_SIZE then
        (Ok (low16 (sysinfo_load (sb_sysinfo s) (addr - SYSINFO_BASE) 2)), s)
      else if in_region addr CLINT_BASE CLINT_SIZE then
        (Ok (low16 (clint_load (sb_clint s) (addr - CLINT_BASE) 2)), s)
      else if in_region addr PLIC_BASE PLIC_SIZE then (case sb_plic_load addr 2 s of (r, s) \<Rightarrow> (map_result low16 id r, s))
      else if in_region addr UART_BASE UART_SIZE then (case sb_uart_load addr 2 s of (r, s) \<Rightarrow> (map_result low16 id r, s))
      else case get_virtio_device s addr of
         Some (idx, off) \<Rightarrow>
           (case virtio_dev_read vops idx (off AND NOT 3) addr s of (r, s) \<Rightarrow>
              (map_result (\<lambda>word. low16 (shr word (unat ((off AND 3) * 8)) AND 0xFFFF)) id r, s))
       | None \<Rightarrow>
           (if is_virtio_region addr \<noteq> None then (Ok 0, s) else (Err (LoadAccessFault addr), s)))"

definition read32_slow :: "'d virtio_ops \<Rightarrow> u64 \<Rightarrow> 'd system_bus \<Rightarrow> (u32, trap) result \<times> 'd system_bus" where
  "read32_slow vops addr s =
     (if in_region addr TEST_FINISHER_BASE TEST_FINISHER_SIZE then (Ok 0, s)
      else if in_region addr SYSINFO_BASE SYSINFO_SIZE then
        (Ok (low32 (sysinfo_load (sb_sysinfo s) (addr - SYSINFO_BASE) 4)), s)
      else if in_region addr CLINT_BASE CLINT_SIZE then
        (Ok (low32 (clint_load (sb_clint s) (addr - CLINT_BASE) 4)), s)
      else if in_region addr PLIC_BASE PLIC_SIZE then (case sb_plic_load addr 4 s of (r, s) \<Rightarrow> (map_result low32 id r, s))
      else if in_region addr UART_BASE UART_SIZE then (case sb_uart_load addr 4 s of (r, s) \<Rightarrow> (map_result low32 id r, s))
      else case get_virtio_device s addr of
         Some (idx, off) \<Rightarrow>
           (case virtio_dev_read vops idx off addr s of (r, s) \<Rightarrow> (map_result low32 id r, s))
       | None \<Rightarrow>
           (if is_virtio_region addr \<noteq> None then (Ok 0, s) else (Err (LoadAccessFault addr), s)))"

definition read64_slow :: "'d virtio_ops \<Rightarrow> u64 \<Rightarrow> 'd system_bus \<Rightarrow> (u64, trap) result \<times> 'd system_bus" where
  "read64_slow vops addr s =
     (if in_region addr TEST_FINISHER_BASE TEST_FINISHER_SIZE then (Ok 0, s)
      else if in_region addr SYSINFO_BASE SYSINFO_SIZE then
        (Ok (sysinfo_load (sb_sysinfo s) (addr - SYSINFO_BASE) 8), s)
      else if in_region addr CLINT_BASE CLINT_SIZE then
        (Ok (clint_load (sb_clint s) (addr - CLINT_BASE) 8), s)
      else if in_region addr PLIC_BASE PLIC_SIZE then sb_plic_load addr 8 s
      else if in_region addr UART_BASE UART_SIZE then sb_uart_load addr 8 s
      else case get_virtio_device s addr of
         Some (idx, off) \<Rightarrow>
           bindS (virtio_dev_read vops idx off addr s) (\<lambda>low s.
           bindS (virtio_dev_read vops idx (off + 4) (addr + 4) s) (\<lambda>high s.
             (Ok (low OR shl high 32), s)))
       | None \<Rightarrow>
           (if is_virtio_region addr \<noteq> None then (Ok 0, s) else (Err (LoadAccessFault addr), s)))"

definition write8_slow :: "'d virtio_ops \<Rightarrow> u64 \<Rightarrow> u8 \<Rightarrow> 'd system_bus \<Rightarrow> (unit, trap) result \<times> 'd system_bus" where
  "write8_slow vops addr v s =
     (if in_region addr TEST_FINISHER_BASE TEST_FINISHER_SIZE then (Err (RequestedTrap (zext8 v)), s)
      else if in_region addr SYSINFO_BASE SYSINFO_SIZE then sb_sysinfo_store addr 1 (zext8 v) s
      else if in_region addr CLINT_BASE CLINT_SIZE then sb_clint_store addr 1 (zext8 v) s
      else if in_region addr PLIC_BASE PLIC_SIZE then sb_plic_store addr 1 (zext8 v) s
      else if in_region addr UART_BASE UART_SIZE then sb_uart_store addr 1 (zext8 v) s
      else case get_virtio_device s addr of
         Some (idx, off) \<Rightarrow> (Ok (), s)
       | None \<Rightarrow> (Err (StoreAccessFault addr), s))"

definition write16_slow :: "'d virtio_ops \<Rightarrow> u64 \<Rightarrow> u16 \<Rightarrow> 'd system_bus \<Rightarrow> (unit, trap) result \<times> 'd system_bus" where
  "write16_slow vops addr v s =
     (if in_region addr TEST_FINISHER_BASE TEST_FINISHER_SIZE then (Err (RequestedTrap (zext16 v)), s)
      else if in_region addr SYSINFO_BASE SYSINFO_SIZE then sb_sysinfo_store addr 2 (zext16 v) s
      else if in_region addr CLINT_BASE CLINT_SIZE then sb_clint_store addr 2 (zext16 v) s
      else if in_region addr PLIC_BASE PLIC_SIZE then sb_plic_store addr 2 (zext16 v) s
      else if in_region addr UART_BASE UART_SIZE then sb_uart_store addr 2 (zext16 v) s
      else case get_virtio_device s addr of
         Some (idx, off) \<Rightarrow> (Ok (), s)
       | None \<Rightarrow> (Err (StoreAccessFault addr), s))"

definition write32_slow :: "'d virtio_ops \<Rightarrow> u64 \<Rightarrow> u32 \<Rightarrow> 'd system_bus \<Rightarrow> (unit, trap) result \<times> 'd system_bus" where
  "write32_slow vops addr v s =
     (if in_region addr TEST_FINISHER_BASE TEST_FINISHER_SIZE then (Err (RequestedTrap (zext32 v)), s)
      else if in_region addr SYSINFO_BASE SYSINFO_SIZE then sb_sysinfo_store addr 4 (zext32 v) s
      else if in_region addr CLINT_BASE CLINT_SIZE then sb_clint_store addr 4 (zext32 v) s
      else if in_region addr PLIC_BASE PLIC_SIZE then sb_plic_store addr 4 (zext32 v) s
      else if in_region addr UART_BASE UART_SIZE then sb_uart_store addr 4 (zext32 v) s
      else case get_virtio_device s addr of
         Some (idx, off) \<Rightarrow> virtio_dev_write vops idx off (zext32 v) addr s
       | None \<Rightarrow> (if is_virtio_region addr \<noteq> None then (Ok (), s) else (Err (StoreAccessFault addr), s)))"

definition write64_slow :: "'d virtio_ops \<Rightarrow> u64 \<Rightarrow> u64 \<Rightarrow> 'd system_bus \<Rightarrow> (unit, trap) result \<times> 'd system_bus" where
  "write64_slow vops addr v s =
     (if in_region addr TEST_FINISHER_BASE TEST_FINISHER_SIZE then (Err (RequestedTrap v), s)
      else if in_region addr SYSINFO_BASE SYSINFO_SIZE then sb_sysinfo_store addr 8 v s
      else if in_region addr CLINT_BASE CLINT_SIZE then sb_clint_store addr 8 v s
      else if in_region addr PLIC_BASE PLIC_SIZE then sb_plic_store addr 8 v s
      else if in_region addr UART_BASE UART_SIZE then sb_uart_store addr 8 v s
      else case get_virtio_device s addr of
         Some (idx, off) \<Rightarrow> (Ok (), s)
       | None \<Rightarrow> (if is_virtio_region addr \<noteq> None then (Ok (), s) else (Err (StoreAccessFault addr), s)))"

subsection \<open>The bus methods\<close>

definition sb_read8 :: "'d virtio_ops \<Rightarrow> u64 \<Rightarrow> 'd system_bus \<Rightarrow> (u8, trap) result \<times> 'd system_bus" where
  "sb_read8 vops addr s =
     (case dram_offset (sb_dram s) addr of
         Some off \<Rightarrow> (map_err (\<lambda>_. LoadAccessFault addr) (load_8 (sb_dram s) off), s)
       | None \<Rightarrow> read8_slow vops addr s)"

definition sb_read16 :: "'d virtio_ops \<Rightarrow> u64 \<Rightarrow> 'd system_bus \<Rightarrow> (u16, trap) result \<times> 'd system_bus" where
  "sb_read16 vops addr s =
     (if addr mod 2 \<noteq> 0 then (Err (LoadAddressMisaligned addr), s)
      else case dram_offset (sb_dram s) addr of
         Some off \<Rightarrow> (map_err (\<lambda>_. LoadAccessFault addr) (load_16 (sb_dram s) off), s)
       | None \<Rightarrow> read16_slow vops addr s)"

definition sb_read32 :: "'d virtio_ops \<Rightarrow> u64 \<Rightarrow> 'd system_bus \<Rightarrow> (u32, trap) result \<times> 'd system_bus" where
  "sb_read32 vops addr s =
     (if addr mod 4 \<noteq> 0 then (Err (LoadAddressMisaligned addr), s)
      else case dram_offset (sb_dram s) addr of
         Some off \<Rightarrow> (map_err (\<lambda>_. LoadAccessFault addr) (load_32 (sb_dram s) off), s)
       | None \<Rightarrow> read32_slow vops addr s)"

definition sb_read64 :: "'d virtio_ops \<Rightarrow> u64 \<Rightarrow> 'd system_bus \<Rightarrow> (u64, trap) result \<times> 'd system_bus" where
  "sb_read64 vops addr s =
     (if addr mod 8 \<noteq> 0 then (Err (LoadAddressMisaligned addr), s)
      else case dram_offset (sb_dram s) addr of
         Some off \<Rightarrow> (map_err (\<lambda>_. LoadAccessFault addr) (load_64 (sb_dram s) off), s)
       | None \<Rightarrow> read64_slow vops addr s)"

definition sb_write8 :: "'d virtio_ops \<Rightarrow> u64 \<Rightarrow> u8 \<Rightarrow> 'd system_bus \<Rightarrow> (unit, trap) result \<times> 'd system_bus" where
  "sb_write8 vops addr v s =
     (case dram_offset (sb_dram s) addr of
         Some off \<Rightarrow> (case store_8 off (zext8 v) (sb_dram s) of (r, m) \<Rightarrow>
           (map_err (\<lambda>_. StoreAccessFault addr) r, s\<lparr> sb_dram := m \<rparr>))
       | None \<Rightarrow> write8_slow vops addr v s)"

definition sb_write16 :: "'d virtio_ops \<Rightarrow> u64 \<Rightarrow> u16 \<Rightarrow> 'd system_bus \<Rightarrow> (unit, trap) result \<times> 'd system_bus" where
  "sb_write16 vops addr v s =
     (if addr mod 2 \<noteq> 0 then (Err (StoreAddressMisaligned addr), s)
      else case dram_offset (sb_dram s) addr of
         Some off \<Rightarrow> (case store_16 off (zext16 v) (sb_dram s) of (r, m) \<Rightarrow>
           (map_err (\<lambda>_. StoreAccessFault addr) r, s\<lparr> sb_dram := m \<rparr>))
       | None \<Rightarrow> write16_slow vops addr v s)"

definition sb_write32 :: "'d virtio_ops \<Rightarrow> u64 \<Rightarrow> u32 \<Rightarrow> 'd system_bus \<Rightarrow> (unit, trap) result \<times> 'd system_bus" where
  "sb_write32 vops addr v s =
     (if addr mod 4 \<noteq> 0 then (Err (StoreAddressMisaligned addr), s)
      else case dram_offset (sb_dram s) addr of
         Some off \<Rightarrow> (case store_32 off (zext32 v) (sb_dram s) of (r, m) \<Rightarrow>
           (map_err (\<lambda>_. StoreAccessFault addr) r, s\<lparr> sb_dram := m \<rparr>))
       | None \<Rightarrow> write32_slow vops addr v s)"

definition sb_write64 :: "'d virtio_ops \<Rightarrow> u64 \<Rightarrow> u64 \<Rightarrow> 'd system_bus \<Rightarrow> (unit, trap) result \<times> 'd system_bus" where
  "sb_write64 vops addr v s =
     (if addr mod 8 \<noteq> 0 then (Err (StoreAddressMisaligned addr), s)
      else case dram_offset (sb_dram s) addr of
         Some off \<Rightarrow> (case store_64 off v (sb_dram s) of (r, m) \<Rightarrow>
           (map_err (\<lambda>_. StoreAccessFault addr) r, s\<lparr> sb_dram := m \<rparr>))
       | None \<Rightarrow> write64_slow vops addr v s)"

definition sys_ops :: "'d virtio_ops \<Rightarrow> 'd system_bus bus_ops" where
  "sys_ops vops = \<lparr> bus_read8 = sb_read8 vops, bus_read16 = sb_read16 vops, bus_read32 = sb_read32 vops,
     bus_read64 = sb_read64 vops, bus_write8 = sb_write8 vops, bus_write16 = sb_write16 vops,
     bus_write32 = sb_write32 vops, bus_write64 = sb_write64 vops,
     bus_poll_interrupts_for_hart = sb_check_interrupts_for_hart vops \<rparr>"

end
