(* ===== verification/Rv_Mmu_Spec.thy ===== *)
theory Rv_Mmu_Spec
  imports Rv_Mmu
begin

text \<open>
  What the MMU promises.

  \<^item> \<open>translation_cache\<close> is the contract of the TLB; the lemmas proved from it say that a property
    of all cached entries survives insertion and flushing.
  \<^item> \<open>pt_memory\<close> is what the walk relies on: an aligned double word of RAM reads back what was last
    written to it.  \<open>leaf_walk\<close> and \<open>translate_spec\<close> are the architecture's translation as a pure
    function of memory, with no TLB and no side effect.
  \<^item> A TLB is \<open>coherent\<close> when every entry it would return agrees with the page tables in memory.
    With a coherent TLB \<open>translate\<close> computes \<open>translate_spec\<close>, and leaves the TLB coherent.
\<close>

unbundle bit_operations_syntax

subsection \<open>The contract of the TLB\<close>

locale translation_cache =
  fixes lookup :: "'t \<Rightarrow> u64 \<Rightarrow> u64 \<Rightarrow> 'e option"
    and insert_e :: "'e \<Rightarrow> 't \<Rightarrow> 't"
    and answers :: "'e \<Rightarrow> u64 \<Rightarrow> u64 \<Rightarrow> bool"
  assumes lookup_answers: "lookup t vpn asid = Some e \<Longrightarrow> answers e vpn asid"
    and lookup_insert_hit: "answers e vpn asid \<Longrightarrow> lookup (insert_e e t) vpn asid = Some e"
    and lookup_insert_miss: "\<not> answers e vpn asid \<Longrightarrow>
      lookup (insert_e e t) vpn asid = None \<or> lookup (insert_e e t) vpn asid = lookup t vpn asid"
begin

definition all_entries :: "(u64 \<Rightarrow> u64 \<Rightarrow> 'e \<Rightarrow> bool) \<Rightarrow> 't \<Rightarrow> bool" where
  "all_entries P t \<longleftrightarrow> (\<forall>vpn asid e. lookup t vpn asid = Some e \<longrightarrow> P vpn asid e)"

lemma all_entries_insert:
  assumes "all_entries P t" "\<And>vpn asid. answers e vpn asid \<Longrightarrow> P vpn asid e"
  shows "all_entries P (insert_e e t)"
  unfolding all_entries_def
proof (intro allI impI)
  fix vpn asid e'
  assume *: "lookup (insert_e e t) vpn asid = Some e'"
  show "P vpn asid e'"
  proof (cases "answers e vpn asid")
    case True
    then show ?thesis using * assms(2) by (simp add: lookup_insert_hit)
  next
    case False
    then show ?thesis using * assms(1) lookup_insert_miss [of e vpn asid t] by (auto simp: all_entries_def)
  qed
qed

lemma all_entries_sub:
  assumes "all_entries P t" "\<And>vpn asid e. lookup t' vpn asid = Some e \<Longrightarrow> lookup t vpn asid = Some e"
  shows "all_entries P t'"
  using assms unfolding all_entries_def by blast

lemma all_entries_mono:
  assumes "all_entries P t" "\<And>vpn asid e. answers e vpn asid \<Longrightarrow> P vpn asid e \<Longrightarrow> Q vpn asid e"
  shows "all_entries Q t"
  using assms lookup_answers unfolding all_entries_def by blast

end

definition entry_answers :: "tlb_entry \<Rightarrow> u64 \<Rightarrow> u64 \<Rightarrow> bool" where
  "entry_answers e vpn asid \<longleftrightarrow> te_valid e \<and> te_vpn e = vpn \<and> (te_global e \<or> te_asid e = low16 asid)"

lemma tlb_lookup_eq:
  "tlb_lookup t vpn asid =
     (if entry_answers (entries t (tlb_idx vpn)) vpn asid then Some (entries t (tlb_idx vpn)) else None)"
  by (simp add: tlb_lookup_def entry_answers_def Let_def)

lemma entries_set_entry [simp]: "entries (set_entry i e t) j = (if i = j then e else entries t j)"
  by (simp add: set_entry_def)

interpretation rv_tlb: translation_cache tlb_lookup tlb_insert entry_answers
  by unfold_locales (auto simp: tlb_lookup_eq tlb_insert_def entry_answers_def split: if_splits)

lemma flush_lookup [simp]: "tlb_lookup (tlb_flush t) vpn asid = None"
  by (simp add: tlb_lookup_eq tlb_flush_def entry_answers_def)

lemma invalidate_sub:
  assumes "\<And>i. entries t' i = (if P i then (entries t i)\<lparr> te_valid := False \<rparr> else entries t i)"
    and "tlb_lookup t' vpn asid = Some e"
  shows "tlb_lookup t vpn asid = Some e"
  using assms(2) unfolding tlb_lookup_eq assms(1)
  by (cases "P (tlb_idx vpn)") (auto simp: entry_answers_def split: if_splits)

lemma flush_sub:
  "tlb_lookup (flush_asid a t) vpn asid = Some e \<Longrightarrow> tlb_lookup t vpn asid = Some e"
  "tlb_lookup (flush_va va t) vpn asid = Some e \<Longrightarrow> tlb_lookup t vpn asid = Some e"
  "tlb_lookup (flush_page p a t) vpn asid = Some e \<Longrightarrow> tlb_lookup t vpn asid = Some e"
proof -
  show "tlb_lookup (flush_asid a t) vpn asid = Some e \<Longrightarrow> tlb_lookup t vpn asid = Some e"
    by (rule invalidate_sub [where P = "\<lambda>i. \<not> te_global (entries t i) \<and> te_asid (entries t i) = low16 a"])
      (simp_all add: flush_asid_def Let_def)
  let ?i = "tlb_idx (shr va 12)"
  show "tlb_lookup (flush_va va t) vpn asid = Some e \<Longrightarrow> tlb_lookup t vpn asid = Some e"
    by (rule invalidate_sub [where P = "\<lambda>i. i = ?i \<and> te_vpn (entries t ?i) = shr va 12"])
      (auto simp: flush_va_def Let_def)
  let ?j = "tlb_idx p"
  show "tlb_lookup (flush_page p a t) vpn asid = Some e \<Longrightarrow> tlb_lookup t vpn asid = Some e"
    by (rule invalidate_sub [where P = "\<lambda>i. i = ?j \<and> entry_answers (entries t ?j) p a"])
      (auto simp: flush_page_def entry_answers_def Let_def)
qed

lemma lookup_variants:
  "lookup_fast t vpn asid = map_option (\<lambda>e. (te_ppn e, te_perm e)) (tlb_lookup t vpn asid)"
  "lookup_with_level t vpn asid = map_option (\<lambda>e. (te_ppn e, te_perm e, te_level e)) (tlb_lookup t vpn asid)"
  by (simp_all add: lookup_fast_def lookup_with_level_def tlb_lookup_def Let_def)

lemma insert_translation_eq:
  "insert_translation vpn ppn perm level asid t =
     tlb_insert \<lparr> te_vpn = vpn, te_ppn = ppn, te_asid = asid, te_perm = perm, te_level = level,
       te_valid = True \<rparr> t"
  by (simp add: insert_translation_def tlb_insert_def)

subsection \<open>The architecture's translation\<close>

datatype walk_result = Outside | Fault | Leaf u64 u64 nat

text \<open>\<open>Leaf pte_addr pte i\<close> is a leaf entry at level \<open>i\<close>; \<open>Outside\<close> is a table entry that is not in RAM.\<close>

primrec leaf_walk :: "(u64 \<Rightarrow> bool) \<Rightarrow> (u64 \<Rightarrow> u64) \<Rightarrow> u64 \<Rightarrow> nat \<Rightarrow> u64 \<Rightarrow> walk_result" where
  "leaf_walk ram m vpn 0 a = Fault"
| "leaf_walk ram m vpn (Suc i) a =
     (let pte_addr = a + (shr vpn (9 * i) AND 0x1FF) * 8; pte = m pte_addr
      in if \<not> ram pte_addr then Outside
         else if \<not> bit pte 0 \<or> (\<not> bit pte 1 \<and> bit pte 2) then Fault
         else if \<not> bit pte 1 \<and> \<not> bit pte 3 then
           (if i = 0 then Fault else leaf_walk ram m vpn i (pte_ppn pte * 4096))
         else Leaf pte_addr pte i)"

definition frame_of :: "u64 \<Rightarrow> nat \<Rightarrow> u64 \<Rightarrow> u64" where
  "frame_of pte i vpn = (pte_ppn pte AND NOT (mask (9 * i))) OR (vpn AND mask (9 * i))"

definition aligned_leaf :: "u64 \<Rightarrow> nat \<Rightarrow> bool" where
  "aligned_leaf pte i \<longleftrightarrow> pte_ppn pte AND mask (9 * i) = 0"

text \<open>Access rights of a leaf: bits R, W, X, U of the entry and \<open>SUM\<close>, \<open>MXR\<close> of \<open>mstatus\<close>.\<close>

definition access_ok :: "mode \<Rightarrow> u64 \<Rightarrow> bool \<Rightarrow> bool \<Rightarrow> bool \<Rightarrow> bool \<Rightarrow> access_type \<Rightarrow> bool" where
  "access_ok mode mstatus r w x u access \<longleftrightarrow>
     (case access of Instruction \<Rightarrow> x | StoreAccess \<Rightarrow> w | LoadAccess \<Rightarrow> r \<or> (bit mstatus 19 \<and> x)) \<and>
     (mode = User \<longrightarrow> u) \<and>
     (mode = Supervisor \<and> u \<longrightarrow> bit mstatus 18 \<and> access \<noteq> Instruction)"

definition canonical :: "nat \<Rightarrow> u64 \<Rightarrow> bool" where
  "canonical va_bits addr \<longleftrightarrow> (\<forall>n \<in> {va_bits..<64}. bit addr n = bit addr (va_bits - 1))"

definition vpn_of :: "nat \<Rightarrow> u64 \<Rightarrow> u64" where
  "vpn_of levels addr = shr addr 12 AND mask (9 * levels)"

definition root_of :: "u64 \<Rightarrow> u64" where
  "root_of satp = (satp AND mask 44) * 4096"

definition translate_spec ::
  "(u64 \<Rightarrow> bool) \<Rightarrow> (u64 \<Rightarrow> u64) \<Rightarrow> mode \<Rightarrow> u64 \<Rightarrow> u64 \<Rightarrow> u64 \<Rightarrow> access_type \<Rightarrow> (u64, trap) result" where
  "translate_spec ram m mode satp mstatus addr access =
     (if mode = Machine then Ok addr
      else case satp_levels satp of
        None \<Rightarrow> Ok addr
      | Some (levels, va_bits) \<Rightarrow>
          if \<not> canonical va_bits addr then Err (page_fault access addr)
          else case leaf_walk ram m (vpn_of levels addr) levels (root_of satp) of
            Leaf pa pte i \<Rightarrow>
              if access_ok mode mstatus (bit pte 1) (bit pte 2) (bit pte 3) (bit pte 4) access
                 \<and> aligned_leaf pte i
              then Ok (shl (frame_of pte i (vpn_of levels addr)) 12 OR (addr AND 0xFFF))
              else Err (page_fault access addr)
          | _ \<Rightarrow> Err (page_fault access addr))"

text \<open>Page tables that differ only in the accessed and dirty bits.\<close>

definition same_tables :: "(u64 \<Rightarrow> bool) \<Rightarrow> (u64 \<Rightarrow> u64) \<Rightarrow> (u64 \<Rightarrow> u64) \<Rightarrow> bool" where
  "same_tables ram m m' \<longleftrightarrow> (\<forall>a n. ram a \<longrightarrow> n \<noteq> 6 \<longrightarrow> n \<noteq> 7 \<longrightarrow> bit (m' a) n = bit (m a) n)"

subsection \<open>Bit-level facts\<close>

lemma shl_1_minus_1: "shl 1 n - 1 = (mask n :: u64)"
  by (simp add: mask_eq_exp_minus_1 push_bit_eq_mult)

lemma bit_mask_u64: "bit (mask k :: u64) n \<longleftrightarrow> n < 64 \<and> n < k"
  by (auto simp: bit_simps)

lemma te_perm_bits:
  "te_r e = bit (te_perm e) 0" "te_w e = bit (te_perm e) 1" "te_x e = bit (te_perm e) 2"
  "te_u e = bit (te_perm e) 3" "te_a e = bit (te_perm e) 4" "te_d e = bit (te_perm e) 5"
  "te_global e = bit (te_perm e) 6"
proof -
  have *: "(w AND shl 1 n \<noteq> 0) = bit w n" if "n < 8" for w :: u8 and n
    using that and_2p_iff [of n w] by simp
  show "te_r e = bit (te_perm e) 0" "te_w e = bit (te_perm e) 1" "te_x e = bit (te_perm e) 2"
    "te_u e = bit (te_perm e) 3" "te_a e = bit (te_perm e) 4" "te_d e = bit (te_perm e) 5"
    "te_global e = bit (te_perm e) 6"
    unfolding te_r_def te_w_def te_x_def te_u_def te_a_def te_d_def te_global_def
    by (rule *, simp)+
qed

lemma bit_pte_perm:
  "bit (pte_perm pte) 0 = bit pte 1" "bit (pte_perm pte) (Suc 0) = bit pte 2" "bit (pte_perm pte) 2 = bit pte 3"
  "bit (pte_perm pte) 3 = bit pte 4" "bit (pte_perm pte) 4 = bit pte 6" "bit (pte_perm pte) 5 = bit pte 7"
  "bit (pte_perm pte) 6 = bit pte 5"
  unfolding pte_perm_def shr_and_1_iff by (simp_all add: bit_simps)

lemma check_permission_eq:
  "check_permission_tlb mode mstatus e access =
     access_ok mode mstatus (te_r e) (te_w e) (te_x e) (te_u e) access"
  unfolding check_permission_tlb_def access_ok_def Let_def shr_and_1_iff
  by (cases mode; cases access; auto)

lemma canonical_check:
  assumes "0 < va_bits" "va_bits < 64"
  shows "(addr AND NOT (mask va_bits) = (if bit addr (va_bits - 1) then NOT (mask va_bits) else 0))
    = canonical va_bits addr"
  unfolding canonical_def by (auto simp: bit_eq_iff bit_simps)

lemma vpn_index:
  assumes "i < levels" "levels \<le> 4"
  shows "shr addr (12 + 9 * i) AND 0x1FF = shr (vpn_of levels addr) (9 * i) AND 0x1FF"
  by (rule bit_word_eqI, unfold vpn_of_def bitx, unfold bit_and_iff bitx bit_mask_u64)
    (use assms in \<open>auto simp: ac_simps\<close>)

lemma vpn_low:
  assumes "i < levels" "levels \<le> 4"
  shows "shr addr 12 AND mask (9 * i) = vpn_of levels addr AND mask (9 * i)"
  by (rule bit_word_eqI, unfold vpn_of_def bitx bit_and_iff bit_mask_u64) (use assms in auto)

lemma pte_ppn_cong:
  assumes "\<And>n. n \<noteq> 6 \<Longrightarrow> n \<noteq> 7 \<Longrightarrow> bit p n = bit q n"
  shows "pte_ppn p = pte_ppn q"
  unfolding pte_ppn_def by (rule bit_word_eqI) (auto simp: bitx assms)

text \<open>The walk does not look at the accessed and dirty bits.\<close>

lemma leaf_walk_cong:
  assumes "same_tables ram m m'"
  shows "case leaf_walk ram m vpn n a of
      Leaf pa pte i \<Rightarrow> leaf_walk ram m' vpn n a = Leaf pa (m' pa) i \<and> ram pa \<and> pte = m pa
    | r \<Rightarrow> leaf_walk ram m' vpn n a = r"
proof (induction n arbitrary: a)
  case (Suc i)
  define pa where "pa = a + (shr vpn (9 * i) AND 0x1FF) * 8"
  show ?case
  proof (cases "ram pa")
    case True
    then have bits: "bit (m' pa) k = bit (m pa) k" if "k \<noteq> 6" "k \<noteq> 7" for k
      using assms that by (auto simp: same_tables_def)
    then have "pte_ppn (m' pa) = pte_ppn (m pa)" by (rule pte_ppn_cong)
    then show ?thesis
      using Suc [of "pte_ppn (m pa) * 4096"] True unfolding leaf_walk.simps pa_def [symmetric] Let_def
      by (cases "leaf_walk ram m vpn i (pte_ppn (m pa) * 4096)") (auto simp: bits)
  qed (simp add: Let_def pa_def)
qed simp

lemma ad_update_entry:
  assumes "ad_update access e pte = (u, pte', e')" "te_perm e = pte_perm pte"
  shows "te_vpn e' = te_vpn e" "te_asid e' = te_asid e" "te_valid e' = te_valid e"
    "te_r e' = bit pte 1" "te_w e' = bit pte 2" "te_x e' = bit pte 3" "te_u e' = bit pte 4"
    "te_global e' = bit pte 5"
  using assms
  by (auto simp: ad_update_def set_a_def set_d_def te_perm_bits bit_pte_perm
      bit_simps Let_def split: if_splits)

lemma bit_ad_masks: "bit (64 :: int) n \<longleftrightarrow> n = 6" "bit (128 :: int) n \<longleftrightarrow> n = 7"
  using bit_exp_iff [of 6 n, where 'a = int] bit_exp_iff [of 7 n, where 'a = int] by auto

lemma ad_update_pte:
  assumes "ad_update access e pte = (u, pte', e')"
  shows "n \<noteq> 6 \<Longrightarrow> n \<noteq> 7 \<Longrightarrow> bit pte' n = bit pte n"
  using assms by (auto simp: ad_update_def bit_or_iff bit_ad_masks Let_def split: if_splits)

lemma satp_levels_cases:
  "satp_levels satp = Some (levels, va) \<Longrightarrow> levels \<le> 4 \<and> 0 < va \<and> va < 64"
  by (auto simp: satp_levels_def Let_def split: if_splits)

subsection \<open>The walk over RAM\<close>

locale pt_memory =
  fixes ops :: "'b bus_ops"
    and ram :: "'b \<Rightarrow> u64 \<Rightarrow> bool"
    and view :: "'b \<Rightarrow> u64 \<Rightarrow> u64"
  assumes read_ram: "ram b a \<Longrightarrow> bus_read64 ops a b = (Ok (view b a), b)"
    and write_ram: "ram b a \<Longrightarrow> bus_write64 ops a v b = (r, b') \<Longrightarrow>
      r = Ok () \<and> ram b' = ram b \<and> (\<forall>a'. ram b a' \<longrightarrow> view b' a' = (if a' = a then v else view b a'))"
begin

lemma load_ram: "ram b a \<Longrightarrow> bus_load ops a 8 b = (Ok (view b a), b)"
  by (simp add: bus_load_def read_ram)

lemma store_ram:
  assumes "ram b a" "bus_store ops a 8 v b = (r, b')"
  shows "r = Ok ()" "ram b' = ram b" "ram b a' \<Longrightarrow> view b' a' = (if a' = a then v else view b a')"
  using write_ram [of b a v r b'] assms by (auto simp: bus_store_def)

lemma walk_eq:
  assumes "\<And>i. i < n \<Longrightarrow> shr addr (12 + 9 * i) AND 0x1FF = shr vpn (9 * i) AND 0x1FF"
    and "leaf_walk (ram b) (view b) vpn n a \<noteq> Outside"
  shows "walk ops mode mstatus addr access vf asid n a (t, b) =
    (case leaf_walk (ram b) (view b) vpn n a of
       Leaf pa pte i \<Rightarrow> walk_leaf ops mode mstatus addr access vf asid pa pte i (t, b)
     | _ \<Rightarrow> (Err (page_fault access addr), t, b))"
  using assms
proof (induction n arbitrary: a)
  case (Suc i)
  define pa where "pa = a + (shr vpn (9 * i) AND 0x1FF) * 8"
  have "ram b pa"
    using Suc.prems(2) unfolding leaf_walk.simps Let_def pa_def by (auto split: if_splits)
  then have load: "bus_load ops pa 8 b = (Ok (view b pa), b)" by (rule load_ram)
  have IH: "walk ops mode mstatus addr access vf asid i (pte_ppn (view b pa) * 4096) (t, b) =
      (case leaf_walk (ram b) (view b) vpn i (pte_ppn (view b pa) * 4096) of
         Leaf pa pte i \<Rightarrow> walk_leaf ops mode mstatus addr access vf asid pa pte i (t, b)
       | _ \<Rightarrow> (Err (page_fault access addr), t, b))"
    if "leaf_walk (ram b) (view b) vpn i (pte_ppn (view b pa) * 4096) \<noteq> Outside"
    using Suc.IH [OF Suc.prems(1) that] by simp
  show ?case
    using Suc.prems(2) IH \<open>ram b pa\<close>
    unfolding walk.simps leaf_walk.simps Let_def Suc.prems(1) [OF lessI] shr_and_1_iff and_1_iff
      pa_def [symmetric] load prod.case result.case
    by (simp add: bit_shr split: if_splits) blast+
qed simp

definition entry_matches_leaf :: "u64 \<Rightarrow> u64 \<Rightarrow> nat \<Rightarrow> tlb_entry \<Rightarrow> bool" where
  "entry_matches_leaf vpn pte i e \<longleftrightarrow> aligned_leaf pte i \<and> te_ppn e = frame_of pte i vpn
     \<and> te_r e = bit pte 1 \<and> te_w e = bit pte 2 \<and> te_x e = bit pte 3 \<and> te_u e = bit pte 4"

definition coherent :: "u64 \<Rightarrow> tlb \<Rightarrow> 'b \<Rightarrow> bool" where
  "coherent satp t b \<longleftrightarrow> (\<forall>levels va. satp_levels satp = Some (levels, va) \<longrightarrow>
     rv_tlb.all_entries (\<lambda>vpn asid e. asid = shr satp 44 AND 0xFFFF \<longrightarrow>
       (\<exists>pa pte i. leaf_walk (ram b) (view b) vpn levels (root_of satp) = Leaf pa pte i
          \<and> entry_matches_leaf vpn pte i e)) t)"

lemma coherent_empty: "coherent satp (tlb_flush t) b"
  by (simp add: coherent_def rv_tlb.all_entries_def)

lemma leaf_level: "leaf_walk r m vpn n a = Leaf pa pte i \<Longrightarrow> i < n"
  by (induction n arbitrary: a) (auto simp: Let_def less_Suc_eq split: if_splits)

lemma leaf_ram: "leaf_walk r m vpn n a = Leaf pa pte i \<Longrightarrow> r pa \<and> pte = m pa"
  by (induction n arbitrary: a) (auto simp: Let_def split: if_splits)

lemma coherent_tables:
  assumes "coherent satp t b" "ram b' = ram b" "same_tables (ram b) (view b) (view b')"
  shows "coherent satp t b'"
  unfolding coherent_def
proof (intro allI impI)
  fix levels va assume sl: "satp_levels satp = Some (levels, va)"
  have step: "\<exists>pa pte i. leaf_walk (ram b') (view b') vpn levels (root_of satp) = Leaf pa pte i \<and> entry_matches_leaf vpn pte i e"
    if "leaf_walk (ram b) (view b) vpn levels (root_of satp) = Leaf pa pte i" "entry_matches_leaf vpn pte i e" for vpn e pa pte i
  proof -
    have lw: "leaf_walk (ram b) (view b') vpn levels (root_of satp) = Leaf pa (view b' pa) i" "ram b pa" "pte = view b pa"
      using leaf_walk_cong [OF assms(3), of vpn levels "root_of satp"] that(1) by auto
    have bits: "bit (view b' pa) n = bit pte n" if "n \<noteq> 6" "n \<noteq> 7" for n
      using assms(3) lw that by (auto simp: same_tables_def)
    then have "pte_ppn (view b' pa) = pte_ppn pte" by (rule pte_ppn_cong)
    then have "entry_matches_leaf vpn (view b' pa) i e"
      using that(2) by (simp add: entry_matches_leaf_def aligned_leaf_def frame_of_def bits)
    then show ?thesis using lw assms(2) by auto
  qed
  have "rv_tlb.all_entries (\<lambda>vpn asid e. asid = shr satp 44 AND 0xFFFF \<longrightarrow>
       (\<exists>pa pte i. leaf_walk (ram b) (view b) vpn levels (root_of satp) = Leaf pa pte i
          \<and> entry_matches_leaf vpn pte i e)) t"
    using assms(1) sl unfolding coherent_def by blast
  then show "rv_tlb.all_entries (\<lambda>vpn asid e. asid = shr satp 44 AND 0xFFFF \<longrightarrow>
       (\<exists>pa pte i. leaf_walk (ram b') (view b') vpn levels (root_of satp) = Leaf pa pte i
          \<and> entry_matches_leaf vpn pte i e)) t"
    by (rule rv_tlb.all_entries_mono) (use step in blast)
qed

text \<open>The leaf step: the result, and the entry and memory it leaves.\<close>

lemma walk_leaf_spec:
  assumes "ram b pa" "pte = view b pa"
    and "walk_leaf ops mode mstatus addr access vpn asid pa pte i (t, b) = (r, t', b')"
  shows "ram b' = ram b \<and> same_tables (ram b) (view b) (view b') \<and>
    r = (if access_ok mode mstatus (bit pte 1) (bit pte 2) (bit pte 3) (bit pte 4) access \<and> aligned_leaf pte i
          then Ok (shl (frame_of pte i (shr addr 12)) 12 OR (addr AND 0xFFF)) else Err (page_fault access addr)) \<and>
    (t' = t \<or> (\<exists>e. t' = tlb_insert e t \<and> te_vpn e = vpn \<and> entry_matches_leaf (shr addr 12) pte i e))"
proof -
  define e where "e = \<lparr> te_vpn = vpn, te_ppn = pte_ppn pte, te_asid = low16 asid,
            te_perm = pte_perm pte, te_level = word_of_nat i, te_valid = True \<rparr>"
  have perms: "te_r e = bit pte 1" "te_w e = bit pte 2" "te_x e = bit pte 3" "te_u e = bit pte 4"
    by (simp_all add: e_def te_perm_bits bit_pte_perm)
  obtain u pte' e' where ad: "ad_update access e pte = (u, pte', e')" by (metis prod_cases3)
  have e': "te_r e' = bit pte 1" "te_w e' = bit pte 2" "te_x e' = bit pte 3" "te_u e' = bit pte 4" "te_vpn e' = vpn"
    using ad_update_entry [OF ad] by (simp_all add: e_def)
  obtain sr b1 where st: "bus_store ops pa 8 pte' b = (sr, b1)" by (cases "bus_store ops pa 8 pte' b")
  note st' = store_ram [OF assms(1) st]
  have tables: "same_tables (ram b) (view b) (view b1)"
    using st'(3) ad_update_pte [OF ad] assms(2) by (auto simp: same_tables_def)
  have refl: "same_tables (ram b) (view b) (view b)" by (simp add: same_tables_def)
  have al: "(i > 0 \<and> pte_ppn pte AND mask (9 * i) \<noteq> 0) = (\<not> aligned_leaf pte i)"
    by (cases i) (auto simp: aligned_leaf_def)
  let ?e = "e'\<lparr> te_ppn := frame_of pte i (shr addr 12) \<rparr>"
  have match: "aligned_leaf pte i \<Longrightarrow> entry_matches_leaf (shr addr 12) pte i ?e"
    using e' by (simp add: entry_matches_leaf_def te_perm_bits)
  have "walk_leaf ops mode mstatus addr access vpn asid pa pte i (t, b) =
     (if \<not> access_ok mode mstatus (bit pte 1) (bit pte 2) (bit pte 3) (bit pte 4) access \<or> \<not> aligned_leaf pte i
      then (Err (page_fault access addr), t, b)
      else (Ok (shl (frame_of pte i (shr addr 12)) 12 OR (addr AND 0xFFF)), tlb_insert ?e t, if u then b1 else b))"
    unfolding walk_leaf_def prod.case Let_def shl_1_minus_1 al
    using ad st st'(1) by (simp add: check_permission_eq e_def [symmetric] perms frame_of_def)
  then show ?thesis
    using assms(3) match st'(2) tables refl e'(5) by (auto split: if_splits)
qed

lemma frame_of_vpn:
  assumes "i < levels" "levels \<le> 4"
  shows "frame_of pte i (shr addr 12) = frame_of pte i (vpn_of levels addr)"
  unfolding frame_of_def using vpn_low [OF assms] by simp

definition walk_in_ram :: "u64 \<Rightarrow> u64 \<Rightarrow> 'b \<Rightarrow> bool" where
  "walk_in_ram satp addr b \<longleftrightarrow> (\<forall>levels va. satp_levels satp = Some (levels, va) \<longrightarrow>
     leaf_walk (ram b) (view b) (vpn_of levels addr) levels (root_of satp) \<noteq> Outside)"

lemma translate_miss:
  assumes sl: "levels \<le> 4" and lw: "leaf_walk (ram b) (view b) vpn levels (root_of satp) \<noteq> Outside"
    and vpn: "vpn = vpn_of levels addr"
    and w: "walk ops mode mstatus addr access vpn asid levels (root_of satp) (t, b) = (r, t', b')"
  shows "ram b' = ram b \<and> same_tables (ram b) (view b) (view b') \<and>
    r = (case leaf_walk (ram b) (view b) vpn levels (root_of satp) of
            Leaf pa pte i \<Rightarrow>
              if access_ok mode mstatus (bit pte 1) (bit pte 2) (bit pte 3) (bit pte 4) access
                 \<and> aligned_leaf pte i
              then Ok (shl (frame_of pte i vpn) 12 OR (addr AND 0xFFF)) else Err (page_fault access addr)
          | _ \<Rightarrow> Err (page_fault access addr)) \<and>
    (t' = t \<or> (\<exists>e pa pte i. t' = tlb_insert e t \<and> te_vpn e = vpn \<and> entry_matches_leaf vpn pte i e \<and>
       leaf_walk (ram b) (view b) vpn levels (root_of satp) = Leaf pa pte i))"
proof (cases "leaf_walk (ram b) (view b) vpn levels (root_of satp)")
  case (Leaf pa pte i)
  have "walk ops mode mstatus addr access vpn asid levels (root_of satp) (t, b)
      = walk_leaf ops mode mstatus addr access vpn asid pa pte i (t, b)"
    using walk_eq [OF _ lw, of addr] vpn_index [of _ levels addr] sl Leaf vpn by simp
  then have wl: "walk_leaf ops mode mstatus addr access vpn asid pa pte i (t, b) = (r, t', b')"
    using w by simp
  have "i < levels" by (rule leaf_level [OF Leaf])
  then have fr: "frame_of pte i (shr addr 12) = frame_of pte i vpn"
    using frame_of_vpn sl vpn by simp
  have lr: "ram b pa" "pte = view b pa" using leaf_ram [OF Leaf] by auto
  show ?thesis
    using walk_leaf_spec [OF lr wl] fr Leaf by (auto simp: entry_matches_leaf_def)
qed (use lw w walk_eq [OF _ lw, of addr] vpn_index [of _ levels addr] sl vpn in
    \<open>auto simp: same_tables_def\<close>)

lemma coherent_insert:
  assumes "coherent satp t b" "satp_levels satp = Some (levels, va)"
    and "entry_matches_leaf (te_vpn e) pte i e"
    and "leaf_walk (ram b) (view b) (te_vpn e) levels (root_of satp) = Leaf pa pte i"
  shows "coherent satp (tlb_insert e t) b"
  unfolding coherent_def
proof (intro allI impI)
  fix levels' va' assume "satp_levels satp = Some (levels', va')"
  then have "levels' = levels" using assms(2) by simp
  then show "rv_tlb.all_entries (\<lambda>vpn asid e. asid = shr satp 44 AND 0xFFFF \<longrightarrow>
       (\<exists>pa pte i. leaf_walk (ram b) (view b) vpn levels' (root_of satp) = Leaf pa pte i
          \<and> entry_matches_leaf vpn pte i e)) (tlb_insert e t)"
    using assms by (intro rv_tlb.all_entries_insert) (auto simp: coherent_def entry_answers_def)
qed

lemma translate_refines:
  assumes coh: "coherent satp t b" and inr: "walk_in_ram satp addr b"
    and tr: "translate ops mode satp mstatus addr access (t, b) = (r, t', b')"
  shows "r = translate_spec (ram b) (view b) mode satp mstatus addr access \<and> coherent satp t' b' \<and>
    ram b' = ram b \<and> same_tables (ram b) (view b) (view b')"
proof (cases "mode = Machine \<or> satp_levels satp = None")
  case True
  then show ?thesis
    using coh tr by (auto simp: translate_def translate_spec_def same_tables_def)
next
  case False
  then obtain levels va where sl: "satp_levels satp = Some (levels, va)" and m: "mode \<noteq> Machine" by auto
  note lv = satp_levels_cases [OF sl]
  define vpn where "vpn = vpn_of levels addr"
  define asid where "asid = shr satp 44 AND 0xFFFF"
  let ?lw = "leaf_walk (ram b) (view b) vpn levels (root_of satp)"
  have tr': "(if \<not> canonical va addr then (Err (page_fault access addr), t, b)
      else case tlb_lookup t vpn asid of
         Some e \<Rightarrow> (if access_ok mode mstatus (te_r e) (te_w e) (te_x e) (te_u e) access
                    then (Ok (shl (te_ppn e) 12 OR (addr AND 0xFFF)), t, b)
                    else (Err (page_fault access addr), t, b))
       | None \<Rightarrow> walk ops mode mstatus addr access vpn asid levels (root_of satp) (t, b)) = (r, t', b')"
    using tr m sl canonical_check [of va addr] lv
    unfolding translate_def check_permission_eq Let_def shr_and_1_iff shl_1_minus_1 fst_conv
      vpn_def vpn_of_def asid_def root_of_def
    by simp
  show ?thesis
  proof (cases "canonical va addr")
    case False
    then show ?thesis using tr' coh m sl by (auto simp: translate_spec_def same_tables_def)
  next
    case can: True
    show ?thesis
    proof (cases "tlb_lookup t vpn asid")
      case (Some e)
      then have "\<exists>pa pte i. ?lw = Leaf pa pte i \<and> entry_matches_leaf vpn pte i e"
        using coh sl unfolding coherent_def rv_tlb.all_entries_def asid_def by blast
      then obtain pa pte i where lf: "?lw = Leaf pa pte i" and em: "entry_matches_leaf vpn pte i e"
        by blast
      then show ?thesis
        using tr' can Some m sl coh
        by (auto simp: translate_spec_def vpn_def entry_matches_leaf_def same_tables_def split: if_splits)
    next
      case None
      have lw: "?lw \<noteq> Outside" using inr sl by (auto simp: walk_in_ram_def vpn_def)
      have w: "walk ops mode mstatus addr access vpn asid levels (root_of satp) (t, b) = (r, t', b')"
        using tr' can None by simp
      note tm = translate_miss [OF conjunct1 [OF lv] lw vpn_def w]
      have "r = translate_spec (ram b) (view b) mode satp mstatus addr access"
        using tm can m sl unfolding translate_spec_def vpn_def by auto
      moreover have "coherent satp t' b"
        using tm coherent_insert [OF coh sl] coh by (auto simp: entry_answers_def)
      ultimately show ?thesis using tm coherent_tables by blast
    qed
  qed
qed

end

subsection \<open>Properties of the translation itself\<close>

text \<open>Every physical page number in the TLB has at most 44 bits.\<close>

definition tlb_wf :: "tlb \<Rightarrow> bool" where
  "tlb_wf t \<longleftrightarrow> rv_tlb.all_entries (\<lambda>_ _ e. te_ppn e < 2 ^ 44) t"

lemma tlb_wf_flushes:
  "tlb_wf tlb_new" "tlb_wf (tlb_flush t)"
  "tlb_wf t \<Longrightarrow> tlb_wf (flush_asid a t)" "tlb_wf t \<Longrightarrow> tlb_wf (flush_va v t)"
  "tlb_wf t \<Longrightarrow> tlb_wf (flush_page p a t)"
proof -
  show "tlb_wf tlb_new" "tlb_wf (tlb_flush t)"
    by (simp_all add: tlb_wf_def rv_tlb.all_entries_def tlb_lookup_eq tlb_new_def tlb_flush_def
        entry_answers_def tlb_entry_EMPTY_def)
qed (auto simp: tlb_wf_def elim!: rv_tlb.all_entries_sub intro: flush_sub)

lemma bit_pte_ppn: "bit (pte_ppn pte) n \<longleftrightarrow> n < 44 \<and> bit pte (10 + n)"
  unfolding pte_ppn_def bitx by simp

lemma frame_of_bound: "i < 4 \<Longrightarrow> frame_of pte i v < 2 ^ 44"
  by (rule less_2p_bits)
    (auto simp: frame_of_def bit_or_iff bit_and_iff bit_pte_ppn bit_mask_u64)

lemma page_address:
  fixes f :: u64
  assumes "f < 2 ^ 44"
  shows "shl f 12 OR (addr AND 0xFFF) < 2 ^ 56"
    "(shl f 12 OR (addr AND 0xFFF)) AND 0xFFF = addr AND 0xFFF"
proof -
  have f: "\<not> bit f n" if "44 \<le> n" for n using bit_less_2p [OF assms _ that] by simp
  show "shl f 12 OR (addr AND 0xFFF) < 2 ^ 56"
    by (rule less_2p_bits) (auto simp: bitx f)
  show "(shl f 12 OR (addr AND 0xFFF)) AND 0xFFF = addr AND 0xFFF"
    by (rule bit_word_eqI, unfold bitx) auto
qed

text \<open>What one translation can return, over any bus: a success cached an entry that grants the access
  and whose frame is the result; a failure is a fault of the access and leaves the TLB alone.\<close>

definition grants :: "mode \<Rightarrow> u64 \<Rightarrow> u64 \<Rightarrow> access_type \<Rightarrow> u64 \<Rightarrow> tlb_entry \<Rightarrow> bool" where
  "grants mode mstatus addr access pa e \<longleftrightarrow> check_permission_tlb mode mstatus e access \<and>
     pa = shl (te_ppn e) 12 OR (addr AND 0xFFF)"

definition walk_post ::
  "mode \<Rightarrow> u64 \<Rightarrow> u64 \<Rightarrow> access_type \<Rightarrow> u64 \<Rightarrow> u64 \<Rightarrow> tlb \<Rightarrow> (u64, trap) result \<Rightarrow> tlb \<Rightarrow> bool" where
  "walk_post mode mstatus addr access vpn asid t r t' \<longleftrightarrow>
     (case r of
        Ok pa \<Rightarrow> \<exists>e. t' = tlb_insert e t \<and> entry_answers e vpn asid \<and> te_vpn e = vpn \<and> te_ppn e < 2 ^ 44
                   \<and> grants mode mstatus addr access pa e
      | Err tr \<Rightarrow> t' = t \<and> tr \<in> {page_fault access addr, access_fault access addr}
      | Panic \<Rightarrow> t' = t)"

lemma walk_leaf_post:
  assumes "i < 4" "walk_leaf ops mode mstatus addr access vpn asid pa pte i (t, b) = (r, t', b')"
  shows "walk_post mode mstatus addr access vpn asid t r t'"
proof -
  define e where "e = \<lparr> te_vpn = vpn, te_ppn = pte_ppn pte, te_asid = low16 asid,
            te_perm = pte_perm pte, te_level = word_of_nat i, te_valid = True \<rparr>"
  obtain u pte' e' where ad: "ad_update access e pte = (u, pte', e')" by (metis prod_cases3)
  have e': "te_vpn e' = vpn" "te_asid e' = low16 asid" "te_valid e'" "te_r e' = te_r e" "te_w e' = te_w e"
    "te_x e' = te_x e" "te_u e' = te_u e"
    using ad_update_entry [OF ad] by (simp_all add: e_def te_perm_bits bit_pte_perm)
  let ?f = "frame_of pte i (shr addr 12)"
  have perms: "te_r (e'\<lparr> te_ppn := ?f \<rparr>) = te_r e" "te_w (e'\<lparr> te_ppn := ?f \<rparr>) = te_w e"
    "te_x (e'\<lparr> te_ppn := ?f \<rparr>) = te_x e" "te_u (e'\<lparr> te_ppn := ?f \<rparr>) = te_u e"
    using e' by (simp_all add: te_perm_bits)
  have ok: "walk_post mode mstatus addr access vpn asid t (Ok (shl ?f 12 OR (addr AND 0xFFF)))
      (tlb_insert (e'\<lparr> te_ppn := ?f \<rparr>) t)" if "check_permission_tlb mode mstatus e access"
    using that e' frame_of_bound [OF assms(1), of pte "shr addr 12"]
    by (auto simp: walk_post_def entry_answers_def grants_def check_permission_eq perms)
  have "walk_leaf ops mode mstatus addr access vpn asid pa pte i (t, b) =
     (if \<not> check_permission_tlb mode mstatus e access \<or> (i > 0 \<and> pte_ppn pte AND mask (9 * i) \<noteq> 0)
      then (Err (page_fault access addr), t, b)
      else let finish = (\<lambda>b. (Ok (shl ?f 12 OR (addr AND 0xFFF)), tlb_insert (e'\<lparr> te_ppn := ?f \<rparr>) t, b))
        in if u then (case bus_store ops pa 8 pte' b of
               (Ok _, b) \<Rightarrow> finish b
             | (Err _, b) \<Rightarrow> (Err (access_fault access addr), t, b)
             | (Panic, b) \<Rightarrow> (Panic, t, b)) else finish b)"
    unfolding walk_leaf_def prod.case Let_def shl_1_minus_1 frame_of_def [symmetric] using ad
    by (simp add: e_def [symmetric])
  then show ?thesis
    using assms(2) ok by (auto simp: walk_post_def [of _ _ _ _ _ _ _ "Err _"]
        walk_post_def [of _ _ _ _ _ _ _ Panic] Let_def split: if_splits prod.splits result.splits)
qed

lemma walk_post:
  "n \<le> 4 \<Longrightarrow> walk ops mode mstatus addr access vpn asid n a (t, b) = (r, t', b') \<Longrightarrow>
     walk_post mode mstatus addr access vpn asid t r t'"
proof (induction n arbitrary: a t b)
  case (Suc i)
  then have "i < 4" by simp
  note leaf = walk_leaf_post [OF this]
  show ?case
    using Suc
    by (auto simp: Let_def walk_post_def [of _ _ _ _ _ _ _ "Err _"]
        walk_post_def [of _ _ _ _ _ _ _ Panic] dest!: leaf split: prod.splits result.splits if_splits)
qed (auto simp: walk_post_def)

lemma translate_cases:
  assumes "mode \<noteq> Machine" "satp_levels satp = Some (levels, va)"
    and "translate ops mode satp mstatus addr access (t, b) = (r, t', b')"
  defines "vpn \<equiv> vpn_of levels addr" and "asid \<equiv> shr satp 44 AND 0xFFFF"
  obtains "\<not> canonical va addr" "r = Err (page_fault access addr)" "t' = t" "b' = b"
  | e where "canonical va addr" "tlb_lookup t vpn asid = Some e" "t' = t" "b' = b"
      "r = (if check_permission_tlb mode mstatus e access
            then Ok (shl (te_ppn e) 12 OR (addr AND 0xFFF)) else Err (page_fault access addr))"
  | "canonical va addr" "tlb_lookup t vpn asid = None"
      "walk ops mode mstatus addr access vpn asid levels (root_of satp) (t, b) = (r, t', b')"
  using assms canonical_check [of va addr] satp_levels_cases [OF assms(2)]
  unfolding translate_def Let_def shr_and_1_iff shl_1_minus_1 fst_conv vpn_of_def root_of_def
  by (cases "tlb_lookup t (shr addr 12 AND mask (9 * levels)) (shr satp 44 AND 0xFFFF)")
    (auto split: if_splits)

subsection \<open>A double-word memory for examples\<close>

definition dword_bus :: "(u64 \<Rightarrow> u64) bus_ops" where
  "dword_bus = \<lparr> bus_read8 = (\<lambda>a m. (Err (LoadAccessFault a), m)),
     bus_read16 = (\<lambda>a m. (Err (LoadAccessFault a), m)),
     bus_read32 = (\<lambda>a m. (Err (LoadAccessFault a), m)), bus_read64 = (\<lambda>a m. (Ok (m a), m)),
     bus_write8 = (\<lambda>a v m. (Err (StoreAccessFault a), m)),
     bus_write16 = (\<lambda>a v m. (Err (StoreAccessFault a), m)),
     bus_write32 = (\<lambda>a v m. (Err (StoreAccessFault a), m)), bus_write64 = (\<lambda>a v m. (Ok (), m(a := v))),
     bus_poll_interrupts_for_hart = (\<lambda>h m. (0, m)) \<rparr>"

text \<open>An Sv39 root table at \<open>0x80000000\<close> with one read-only gigapage that maps \<open>0x80000000\<close> to itself.\<close>

definition example_satp :: u64 where "example_satp = 0x8000000000080000"

definition example_mem :: "u64 \<Rightarrow> u64" where
  "example_mem = (\<lambda>_. 0)(0x80000010 := 0x20000003)"

definition example_run :: "access_type \<Rightarrow> u64 \<Rightarrow> (u64, trap) result \<times> tlb \<times> (u64 \<Rightarrow> u64)" where
  "example_run access addr = translate dword_bus Supervisor example_satp 0 addr access (tlb_new, example_mem)"

lemma example_levels: "satp_levels example_satp = Some (3, 39)"
  by code_simp

lemma example_load: "fst (example_run LoadAccess 0x80000123) = Ok 0x80000123"
  by code_simp

lemma example_store: "fst (example_run StoreAccess 0x80000123) = Err (StorePageFault 0x80000123)"
  by code_simp

subsection \<open>Properties\<close>

text \<open>over any bus, a successful translation keeps the page offset, lands below \<open>2\<^sup>5\<^sup>6\<close> when paging
  is on, and leaves in the TLB an entry for the page that grants this access in this mode and whose
  frame is the one returned; the TLB keeps its 44-bit frame invariant.\<close>

theorem translate_ok_granted:
  assumes "tlb_wf t" "mode \<noteq> Machine" "satp_levels satp = Some (levels, va)"
    and "translate ops mode satp mstatus addr access (t, b) = (Ok pa, t', b')"
  shows "tlb_wf t' \<and> pa < 2 ^ 56 \<and> pa AND 0xFFF = addr AND 0xFFF \<and>
    (\<exists>e. tlb_lookup t' (vpn_of levels addr) (shr satp 44 AND 0xFFFF) = Some e
        \<and> grants mode mstatus addr access pa e)"
  using assms(2-4)
proof (cases rule: translate_cases)
  case (2 e)
  then have "te_ppn e < 2 ^ 44" using assms(1) by (auto simp: tlb_wf_def rv_tlb.all_entries_def)
  then show ?thesis
    using 2 assms(1) page_address [of "te_ppn e" addr] by (auto simp: grants_def split: if_splits)
next
  case 3
  have "levels \<le> 4" using satp_levels_cases [OF assms(3)] by simp
  then obtain e where e: "t' = tlb_insert e t" "te_ppn e < 2 ^ 44" "grants mode mstatus addr access pa e"
      "entry_answers e (vpn_of levels addr) (shr satp 44 AND 0xFFFF)"
    using walk_post [OF _ 3(3)] by (auto simp: walk_post_def)
  have "tlb_wf t'" using assms(1) e unfolding tlb_wf_def by (simp add: rv_tlb.all_entries_insert)
  then show ?thesis
    using e page_address [of "te_ppn e" addr] rv_tlb.lookup_insert_hit by (auto simp: grants_def)
qed simp

theorem translate_ok_granted_witness:
  "\<exists>e. tlb_lookup (fst (snd (example_run LoadAccess 0x80000123))) (vpn_of 3 0x80000123) (shr example_satp 44 AND 0xFFFF)
     = Some e \<and> grants Supervisor 0 0x80000123 LoadAccess 0x80000123 e"
proof -
  obtain t' b' where "example_run LoadAccess 0x80000123 = (Ok 0x80000123, t', b')"
    using example_load by (metis eq_fst_iff surj_pair)
  then show ?thesis
    using translate_ok_granted [OF tlb_wf_flushes(1) _ example_levels, of Supervisor dword_bus 0 "0x80000123"
        LoadAccess example_mem "0x80000123" t' b']
    by (simp add: example_run_def)
qed

text \<open>a failed translation is a page fault or an access fault of the access at hand, carrying the
  faulting virtual address, and does not change the TLB; an address that is not canonical is refused
  without touching the bus.\<close>

theorem translate_err_fault:
  assumes "translate ops mode satp mstatus addr access (t, b) = (Err e, t', b')"
  shows "e \<in> {page_fault access addr, access_fault access addr} \<and> t' = t \<and>
    (\<exists>levels va. satp_levels satp = Some (levels, va) \<and> mode \<noteq> Machine \<and>
       (\<not> canonical va addr \<longrightarrow> e = page_fault access addr \<and> b' = b))"
proof -
  obtain levels va where sl: "satp_levels satp = Some (levels, va)" and m: "mode \<noteq> Machine"
    using assms by (auto simp: translate_def split: if_splits option.splits)
  from m sl assms show ?thesis
  proof (cases rule: translate_cases)
    case 3
    have "levels \<le> 4" using satp_levels_cases [OF sl] by simp
    then show ?thesis using walk_post [OF _ 3(3)] 3(1) sl m by (auto simp: walk_post_def)
  qed (use sl m in \<open>auto split: if_splits\<close>)
qed

theorem translate_err_fault_witness:
  "fst (example_run StoreAccess 0x80000123) = Err (StorePageFault 0x80000123) \<and>
   fst (snd (example_run StoreAccess 0x80000123)) = tlb_new"
proof -
  obtain t' b' where "example_run StoreAccess 0x80000123 = (Err (StorePageFault 0x80000123), t', b')"
    using example_store by (metis eq_fst_iff surj_pair)
  then show ?thesis
    using translate_err_fault [of dword_bus Supervisor example_satp 0 "0x80000123" StoreAccess tlb_new
        example_mem "StorePageFault 0x80000123" t' b']
    by (simp add: example_run_def)
qed

text \<open>\<open>flush_va\<close> on an address of the upper half (bit 63 set) has no effect on any lookup:
  the TLB is filled with virtual page numbers truncated to 27 or 36 bits, while the flush compares
  with the untruncated one.\<close>

theorem flush_va_upper_half_no_effect:
  assumes "bit va 63" "vpn < 2 ^ 36"
  shows "tlb_lookup (flush_va va t) vpn asid = tlb_lookup t vpn asid"
proof -
  have "bit (shr va 12) 51" using assms(1) by (simp add: bit_shr)
  then have "shr va 12 \<noteq> vpn" using bit_less_2p [OF assms(2), of 51] by auto
  then show ?thesis by (auto simp: tlb_lookup_eq flush_va_def entry_answers_def Let_def)
qed

theorem flush_va_upper_half_no_effect_witness:
  "tlb_lookup (flush_va 0xFFFFFFC000000000 (insert_translation 0x4000000 0x80000 0x0F 0 0 tlb_new)) 0x4000000 0
    \<noteq> None \<and> vpn_of 3 0xFFFFFFC000000000 = 0x4000000"
proof -
  have "bit (0xFFFFFFC000000000 :: u64) 63" "(0x4000000 :: u64) < 2 ^ 36" by simp_all
  note * = flush_va_upper_half_no_effect [OF this, of "insert_translation 0x4000000 0x80000 0x0F 0 0 tlb_new" 0]
  have "tlb_lookup (insert_translation 0x4000000 0x80000 0x0F 0 0 tlb_new) 0x4000000 0 \<noteq> None"
    "vpn_of 3 0xFFFFFFC000000000 = 0x4000000" by code_simp+
  then show ?thesis using * by simp
qed

end
