(* ===== verification/Rv_Dma.thy ===== *)
theory Rv_Dma
  imports Rv_Virtio
begin

text \<open>
  Accesses of a device or of a driver to guest memory, seen as a map from offsets to bytes: what a load returns after
  a store (\<open>peek\<close>, \<open>poke\<close>), which bytes an operation may have changed (\<open>changes\<close>), and when an address range is backed by the
  DRAM (\<open>span\<close>).  The proofs about the virtqueues of the block and network devices share these lemmas.
\<close>

unbundle bit_operations_syntax

subsection \<open>Memory accesses\<close>

definition peek :: "nat \<Rightarrow> nat \<Rightarrow> dram \<Rightarrow> u64" where
  "peek n i m = le_read n (dram_data m) i"

definition poke :: "nat \<Rightarrow> nat \<Rightarrow> u64 \<Rightarrow> dram \<Rightarrow> dram" where
  "poke n i v m = m\<lparr> dram_data := le_write n v (dram_data m) i \<rparr>"

definition offs :: "u64 \<Rightarrow> nat" where
  "offs a = unat (a - DRAM_BASE)"

text \<open>\<open>N\<close> bytes at the address \<open>a\<close> are memory.\<close>

definition span :: "dram \<Rightarrow> u64 \<Rightarrow> nat \<Rightarrow> bool" where
  "span m a N \<longleftrightarrow> DRAM_BASE \<le> a \<and> offs a + N \<le> unat (dram_size m) \<and> unat (dram_size m) < 2 ^ 63"

definition changes :: "nat set \<Rightarrow> dram \<Rightarrow> dram \<Rightarrow> bool" where
  "changes S m m' \<longleftrightarrow> same_geometry m m' \<and> (\<forall>j. j \<notin> S \<longrightarrow> dram_data m' j = dram_data m j)"

lemma changes_refl [simp]: "changes S m m"
  by (simp add: changes_def)

lemma changes_trans: "changes S m m' \<Longrightarrow> changes T m' m'' \<Longrightarrow> changes (S \<union> T) m m''"
  by (auto simp: changes_def intro: same_geometry_trans)

lemma changes_mono: "changes S m m' \<Longrightarrow> S \<subseteq> T \<Longrightarrow> changes T m m'"
  by (auto simp: changes_def)

lemma changes_poke [simp]: "changes {i..<i + n} m (poke n i v m)"
  by (auto simp: changes_def poke_def same_geometry_def intro!: le_write_outside)

lemma changes_peek: "changes S m m' \<Longrightarrow> {i..<i + n} \<inter> S = {} \<Longrightarrow> peek n i m' = peek n i m"
  unfolding peek_def changes_def by (rule le_read_cong) (metis IntI atLeastLessThan_iff empty_iff)

lemma peek_poke: "n \<le> 8 \<Longrightarrow> peek n i (poke n i v m) = take_bit (8 * n) v"
  by (simp add: peek_def poke_def le_read_write)

lemma changes_span: "changes S m m' \<Longrightarrow> span m' a N = span m a N"
  by (simp add: changes_def same_geometry_def span_def)

lemma span_poke [simp]: "span (poke n i v m) a N = span m a N"
  by (simp add: span_def poke_def)

lemma span_less: "span m a N \<Longrightarrow> N' \<le> N \<Longrightarrow> span m a N'"
  by (simp add: span_def)

lemma unat_add_small: "unat (x::u64) + unat y < 2 ^ 64 \<Longrightarrow> unat (x + y) = unat x + unat y"
  by (simp add: unat_word_ariths)

lemma span_offset:
  assumes "span m a N" "unat k \<le> N"
  shows "phys_to_offset (a + k) = Ok (a + k - DRAM_BASE)" "offs (a + k) = offs a + unat k"
proof -
  obtain w where w: "a = DRAM_BASE + w" "unat w + unat k < 2 ^ 63" "a - DRAM_BASE = w"
    using assms by (intro that [of "a - DRAM_BASE"]) (simp_all add: span_def offs_def)
  have u: "unat (w + k) = unat w + unat k" using w(2) by (intro unat_add_small) simp
  have "unat (DRAM_BASE + (w + k)) = unat DRAM_BASE + unat (w + k)"
    using w(2) u by (intro unat_add_small) (simp add: DRAM_BASE_def)
  then have "DRAM_BASE \<le> DRAM_BASE + (w + k)" unfolding word_le_nat_alt by linarith
  then show "phys_to_offset (a + k) = Ok (a + k - DRAM_BASE)"
    unfolding phys_to_offset_def w(1) by (simp add: add.assoc)
  have "a + k - DRAM_BASE = w + k" using w(1) by simp
  then show "offs (a + k) = offs a + unat k" using u unfolding offs_def w(3) by (simp only:)
qed

lemma span_in_range:
  assumes "span m a N" "unat k + n \<le> N" "n \<in> {1, 2, 4, 8}" "unat k mod n = 0" "8 dvd offs a \<or> n = 1"
  shows "in_range n m (a + k - DRAM_BASE)" "unat (a + k - DRAM_BASE) = offs a + unat k"
proof -
  show u: "unat (a + k - DRAM_BASE) = offs a + unat k"
    using span_offset(2) [OF assms(1), of k] assms(2) by (simp add: offs_def)
  have "n dvd offs a" using assms(3,5) dvd_trans [of n 8 "offs a"] by auto
  then have "(offs a + unat k) mod n = 0" using assms(4) by (auto simp: mod_0_imp_dvd)
  then show "in_range n m (a + k - DRAM_BASE)"
    using u assms(1,2) by (simp add: in_range_def span_def)
qed

lemma dev_load_span:
  assumes "span m a N" "unat k + n \<le> N" "n \<in> {1, 2, 4, 8}" "unat k mod n = 0" "8 dvd offs a \<or> n = 1"
  shows "n = 2 \<Longrightarrow> load_16 m (a + k - DRAM_BASE) = Ok (low16 (peek 2 (offs a + unat k) m))"
    "n = 4 \<Longrightarrow> load_32 m (a + k - DRAM_BASE) = Ok (low32 (peek 4 (offs a + unat k) m))"
    "n = 8 \<Longrightarrow> load_64 m (a + k - DRAM_BASE) = Ok (peek 8 (offs a + unat k) m)"
proof -
  have z: "map_result (zext16 :: u16 \<Rightarrow> u64) id r = Ok x \<Longrightarrow> r = Ok (low16 x)" for r :: "(u16, memory_error) result" and x
    by (cases r) (auto simp: ucast_up_ucast_id is_up)
  have z': "map_result (zext32 :: u32 \<Rightarrow> u64) id r = Ok x \<Longrightarrow> r = Ok (low32 x)" for r :: "(u32, memory_error) result" and x
    by (cases r) (auto simp: ucast_up_ucast_id is_up)
  have l: "load_n n m (a + k - DRAM_BASE) = Ok (peek n (offs a + unat k) m)"
    using load_in_range [OF assms(3) span_in_range(1) [OF assms]] span_in_range(2) [OF assms] by (simp add: peek_def)
  show "n = 2 \<Longrightarrow> load_16 m (a + k - DRAM_BASE) = Ok (low16 (peek 2 (offs a + unat k) m))"
    using l by (intro z) (simp only: widths_unfold)
  show "n = 4 \<Longrightarrow> load_32 m (a + k - DRAM_BASE) = Ok (low32 (peek 4 (offs a + unat k) m))"
    using l by (intro z') (simp only: widths_unfold)
  show "n = 8 \<Longrightarrow> load_64 m (a + k - DRAM_BASE) = Ok (peek 8 (offs a + unat k) m)"
    using l by (simp only: widths_unfold)
qed

lemma dev_store_span:
  assumes "span m a N" "unat k + n \<le> N" "n \<in> {1, 2, 4, 8}" "unat k mod n = 0" "8 dvd offs a \<or> n = 1"
  shows "store_n n (a + k - DRAM_BASE) v m = (Ok (), poke n (offs a + unat k) v m)"
  using store_in_range [OF assms(3) span_in_range(1) [OF assms]] span_in_range(2) [OF assms]
  by (simp add: poke_def)

lemma load16_span:
  assumes "span m a N" "8 dvd offs a" "unat k + 2 \<le> N" "even (unat k)"
  shows "load16_at (a + k) m = (Ok (low16 (peek 2 (offs a + unat k) m)), m)"
  using dev_load_span(1) [OF assms(1), of k 2] span_offset(1) [OF assms(1), of k] assms(2-4)
  by (simp add: load16_at_def mod2_eq_if)

lemma desc_loads:
  assumes "span m a N" "8 dvd offs a" "unat k + 16 \<le> N" "16 dvd unat k"
  shows "phys_to_offset (a + k) = Ok (a + k - DRAM_BASE)"
    "load_64 m (a + k - DRAM_BASE) = Ok (peek 8 (offs a + unat k) m)"
    "load_32 m (a + k - DRAM_BASE + 8) = Ok (low32 (peek 4 (offs a + unat k + 8) m))"
    "load_16 m (a + k - DRAM_BASE + 12) = Ok (low16 (peek 2 (offs a + unat k + 12) m))"
    "load_16 m (a + k - DRAM_BASE + 14) = Ok (low16 (peek 2 (offs a + unat k + 14) m))"
proof -
  have N: "unat k + 16 < 2 ^ 64" using assms(1,3) by (simp add: span_def)
  have u: "unat (k + 8) = unat k + 8" "unat (k + 12) = unat k + 12" "unat (k + 14) = unat k + 14"
    using N by (simp_all add: unat_word_ariths)
  obtain c where c: "unat k = 16 * c" using assms(4) by (rule dvdE)
  have a: "a + k - DRAM_BASE + j = a + (k + j) - DRAM_BASE" for j by simp
  show "phys_to_offset (a + k) = Ok (a + k - DRAM_BASE)" using span_offset(1) [OF assms(1)] assms(3) by simp
  show "load_64 m (a + k - DRAM_BASE) = Ok (peek 8 (offs a + unat k) m)"
    using dev_load_span(3) [OF assms(1), of k 8] assms(2,3) by (simp add: c)
  show "load_32 m (a + k - DRAM_BASE + 8) = Ok (low32 (peek 4 (offs a + unat k + 8) m))"
    unfolding a using dev_load_span(2) [OF assms(1), of "k + 8" 4] assms(2,3) by (simp add: u c add.assoc)
  show "load_16 m (a + k - DRAM_BASE + 12) = Ok (low16 (peek 2 (offs a + unat k + 12) m))"
    unfolding a using dev_load_span(1) [OF assms(1), of "k + 12" 2] assms(2,3) by (simp add: u c add.assoc)
  show "load_16 m (a + k - DRAM_BASE + 14) = Ok (low16 (peek 2 (offs a + unat k + 14) m))"
    unfolding a using dev_load_span(1) [OF assms(1), of "k + 14" 2] assms(2,3) by (simp add: u c add.assoc)
qed

lemma write_bytes_span:
  assumes "span m a N" "unat k + length xs \<le> N"
  shows "write_bytes (a + k - DRAM_BASE) xs m = (Ok (), m\<lparr> dram_data := copy_in xs (dram_data m) (offs a + unat k) \<rparr>)"
proof -
  have u: "unat (a + k - DRAM_BASE) = offs a + unat k"
    using span_offset(2) [OF assms(1), of k] assms(2) by (simp add: offs_def)
  have le: "offs a + unat k + length xs \<le> unat (dram_size m)" "unat (dram_size m) < 2 ^ 63"
    using assms by (simp_all add: span_def)
  then have "unat (a + k - DRAM_BASE + word_of_nat (length xs)) = offs a + unat k + length xs"
    unfolding unat_word_ariths u by (simp add: unat_of_nat)
  then show ?thesis using le u by (simp add: write_bytes_def word_less_nat_alt)
qed

lemma changes_copy_in: "changes {i..<i + length xs} m (m\<lparr> dram_data := copy_in xs (dram_data m) i \<rparr>)"
  by (auto simp: changes_def copy_in_def)

text \<open>The completion of a request, on a used ring of \<open>qsz\<close> elements: the element gets the head of the chain and the
  length, and the index goes up by one.\<close>

lemma push_used_span:
  assumes "span m used (4 + 8 * unat qsz)" "8 dvd offs used" "0 < qsz" "unat qsz \<le> 2 ^ 16"
  defines "i \<equiv> low16 (peek 2 (offs used + 2) m)"
  defines "e \<equiv> offs used + 4 + 8 * (unat i mod unat qsz)"
  shows "push_used used qsz head len m = (Ok (),
    poke 2 (offs used + 2) (zext16 (i + 1)) (poke 4 (e + 4) (zext32 len) (poke 4 e (zext16 head) m)))"
proof -
  define k where "k = 4 + zext16 i mod qsz * 8"
  have b: "unat i mod unat qsz < unat qsz" using assms(3) by (simp add: word_less_nat_alt)
  have k: "unat k = 4 + 8 * (unat i mod unat qsz)"
  proof -
    have "unat (zext16 i mod qsz :: u64) = unat i mod unat qsz" by (simp add: unat_mod unat_zext16)
    then show ?thesis unfolding k_def unat_word_ariths using b assms(4) by simp
  qed
  have k4: "unat (k + 4) = 8 + 8 * (unat i mod unat qsz)" unfolding unat_word_ariths k using b assms(4) by simp
  have e: "e = offs used + unat k" "e + 4 = offs used + unat (k + 4)" by (simp_all add: e_def k k4)
  have sp: "span m' used (4 + 8 * unat qsz)" if "same_geometry m m'" for m'
    using assms(1) that by (simp add: span_def same_geometry_def)
  have q: "used + 4 + zext16 i mod qsz * 8 = used + k" "used + k - DRAM_BASE + 4 = used + (k + 4) - DRAM_BASE" by (simp_all add: k_def)
  have g: "same_geometry m (poke n j v m')" if "same_geometry m m'" for n j v m'
    using that by (simp add: poke_def)
  have st: "store_32 (used + k - DRAM_BASE) v m' = (Ok (), poke 4 (offs used + unat k) v m')"
    "store_32 (used + (k + 4) - DRAM_BASE) v m' = (Ok (), poke 4 (offs used + unat (k + 4)) v m')"
    "store_16 (used + 2 - DRAM_BASE) v m' = (Ok (), poke 2 (offs used + 2) v m')" if "same_geometry m m'" for v m'
    using dev_store_span [OF sp [OF that], of k 4] dev_store_span [OF sp [OF that], of "k + 4" 4]
      dev_store_span [OF sp [OF that], of 2 2] assms(2,3) k k4 b by (simp_all add: widths_unfold mod_0_imp_dvd)
  have p: "phys_to_offset (used + k) = Ok (used + k - DRAM_BASE)" "phys_to_offset (used + 2) = Ok (used + 2 - DRAM_BASE)"
    using span_offset(1) [OF assms(1), of k] span_offset(1) [OF assms(1), of 2] k b by simp_all
  have l: "load16_at (used + 2) m = (Ok i, m)" using load16_span [OF assms(1,2), of 2] by (simp add: i_def)
  show ?thesis
    unfolding push_used_def Let_def l bindS_simps q p e(2) unfolding e(1) by (simp add: st g)
qed

end
