(* ===== verification/Rv_Net.thy ===== *)
theory Rv_Net
  imports Rv_Dma
begin

text \<open>
  The virtio network device (\<^verbatim>\<open>riscv-vm/src/devices/virtio/net.rs\<close>) and two of the backends that carry its frames
  (\<^verbatim>\<open>riscv-vm/src/net/mod.rs\<close>, \<^verbatim>\<open>external.rs\<close>).  The trait \<open>NetworkBackend\<close> is a record of methods over the backend's state;
  \<open>send\<close> takes \<open>&self\<close> in the source and changes the state behind a mutex.  Messages of errors are only logged.  The
  receive loop asks the backend for frames until it has none left; this may never end, so the loop is an
  option-valued partial function, and a poll that does not return is \<open>Panic\<close>.
\<close>

unbundle bit_operations_syntax

subsection \<open>Backends\<close>

record 'b net_backend =
  nb_init :: "'b \<Rightarrow> (unit, string) result \<times> 'b"
  nb_recv :: "'b \<Rightarrow> (u8 list option, string) result \<times> 'b"
  nb_send :: "u8 list \<Rightarrow> 'b \<Rightarrow> (unit, string) result \<times> 'b"
  nb_mac_address :: "'b \<Rightarrow> u8 list"
  nb_get_assigned_ip :: "'b \<Rightarrow> u8 list option"

record dummy_backend =
  dm_initialized :: bool
  dm_mac :: "u8 list"

definition dummy_with_mac :: "u8 list \<Rightarrow> dummy_backend" where
  "dummy_with_mac mac = \<lparr> dm_initialized = False, dm_mac = mac \<rparr>"

definition dummy_methods :: "dummy_backend net_backend" where
  "dummy_methods = \<lparr> nb_init = (\<lambda>b. (Ok (), b\<lparr> dm_initialized := True \<rparr>)), nb_recv = (\<lambda>b. (Ok None, b)),
     nb_send = (\<lambda>_ b. (Ok (), b)), nb_mac_address = dm_mac, nb_get_assigned_ip = (\<lambda>_. None) \<rparr>"

record external_net =
  ext_rx :: "u8 list list"
  ext_tx :: "u8 list list"
  ext_mac :: "u8 list"
  ext_ip :: "u8 list option"
  ext_connected :: bool

definition external_new :: "u8 list \<Rightarrow> external_net" where
  "external_new mac = \<lparr> ext_rx = [], ext_tx = [], ext_mac = mac, ext_ip = None, ext_connected = False \<rparr>"

definition inject_rx_packet :: "u8 list \<Rightarrow> external_net \<Rightarrow> external_net" where
  "inject_rx_packet packet b = b\<lparr> ext_rx := ext_rx b @ [packet] \<rparr>"

definition extract_tx_packet :: "external_net \<Rightarrow> u8 list option \<times> external_net" where
  "extract_tx_packet b = (case ext_tx b of [] \<Rightarrow> (None, b) | p # ps \<Rightarrow> (Some p, b\<lparr> ext_tx := ps \<rparr>))"

definition extract_all_tx_packets :: "external_net \<Rightarrow> u8 list list \<times> external_net" where
  "extract_all_tx_packets b = (ext_tx b, b\<lparr> ext_tx := [] \<rparr>)"

definition set_assigned_ip :: "u8 list \<Rightarrow> external_net \<Rightarrow> external_net" where
  "set_assigned_ip ip b = b\<lparr> ext_ip := Some ip \<rparr>"

definition set_connected :: "bool \<Rightarrow> external_net \<Rightarrow> external_net" where
  "set_connected connected b = b\<lparr> ext_connected := connected \<rparr>"

definition external_recv :: "external_net \<Rightarrow> (u8 list option, string) result \<times> external_net" where
  "external_recv b = (case ext_rx b of [] \<Rightarrow> (Ok None, b) | p # ps \<Rightarrow> (Ok (Some p), b\<lparr> ext_rx := ps \<rparr>))"

definition external_send :: "u8 list \<Rightarrow> external_net \<Rightarrow> (unit, string) result \<times> external_net" where
  "external_send buf b = (Ok (), b\<lparr> ext_tx := ext_tx b @ [buf] \<rparr>)"

definition external_methods :: "external_net net_backend" where
  "external_methods = \<lparr> nb_init = (\<lambda>b. (Ok (), b\<lparr> ext_connected := True \<rparr>)), nb_recv = external_recv,
     nb_send = external_send, nb_mac_address = ext_mac, nb_get_assigned_ip = ext_ip \<rparr>"

subsection \<open>The state of the device\<close>

record net_queue =
  nq_num :: u32
  nq_desc :: u64
  nq_avail :: u64
  nq_used :: u64
  nq_ready :: bool
  nq_last_avail_idx :: u16

definition net_queue_new :: net_queue where
  "net_queue_new = \<lparr> nq_num = 0, nq_desc = 0, nq_avail = 0, nq_used = 0, nq_ready = False, nq_last_avail_idx = 0 \<rparr>"

record net_stats =
  tx_packets :: u64
  rx_packets :: u64
  tx_errors :: u64
  rx_errors :: u64
  rx_dropped :: u64

record 'b virtio_net =
  n_driver_features :: u32
  n_driver_features_sel :: u32
  n_device_features_sel :: u32
  n_page_size :: u32
  n_queue_sel :: u32
  n_interrupt_status :: u32
  n_status :: u32
  n_mac :: "u8 list"
  backend :: 'b
  rx_queue :: net_queue
  tx_queue :: net_queue
  stats :: net_stats

definition virtio_net_new :: "'b net_backend \<Rightarrow> 'b \<Rightarrow> 'b virtio_net" where
  "virtio_net_new B b = \<lparr> n_driver_features = 0, n_driver_features_sel = 0, n_device_features_sel = 0, n_page_size = 4096,
     n_queue_sel = 0, n_interrupt_status = 0, n_status = 0, n_mac = nb_mac_address B b, backend = snd (nb_init B b),
     rx_queue = net_queue_new, tx_queue = net_queue_new,
     stats = \<lparr> tx_packets = 0, rx_packets = 0, tx_errors = 0, rx_errors = 0, rx_dropped = 0 \<rparr> \<rparr>"

definition current_queue :: "'b virtio_net \<Rightarrow> net_queue" where
  "current_queue s = (if n_queue_sel s = 0 then rx_queue s else if n_queue_sel s = 1 then tx_queue s else rx_queue s)"

definition upd_queue :: "(net_queue \<Rightarrow> net_queue) \<Rightarrow> 'b virtio_net \<Rightarrow> 'b virtio_net" where
  "upd_queue f s =
     (if n_queue_sel s = 0 then s\<lparr> rx_queue := f (rx_queue s) \<rparr>
      else if n_queue_sel s = 1 then s\<lparr> tx_queue := f (tx_queue s) \<rparr>
      else s\<lparr> rx_queue := f (rx_queue s) \<rparr>)"

definition net_qsz :: "net_queue \<Rightarrow> u32" where
  "net_qsz q = (if nq_num q > 0 then nq_num q else QUEUE_SIZE)"

definition ring_head :: "net_queue \<Rightarrow> u16 \<Rightarrow> dram \<Rightarrow> (u16, memory_error) result \<times> dram" where
  "ring_head q last_idx m =
     (let ring_slot = zext32 (ucast last_idx mod net_qsz q) in load16_at (nq_avail q + 4 + ring_slot * 2) m)"

subsection \<open>Receiving\<close>

datatype rx_outcome = NoBuffer | NotWritable | TooLarge | Delivered

text \<open>What the body of the loop does with one frame.\<close>

definition rx_deliver :: "net_queue \<Rightarrow> u8 list \<Rightarrow> dram \<Rightarrow> (rx_outcome, memory_error) result \<times> dram" where
  "rx_deliver q packet m =
     bindS (load16_at (nq_avail q + 2) m) (\<lambda>avail_idx m.
     if nq_last_avail_idx q = avail_idx then (Ok NoBuffer, m)
     else
     bindS (ring_head q (nq_last_avail_idx q) m) (\<lambda>head_desc_idx m.
     bindS (phys_to_offset (nq_desc q + zext16 head_desc_idx * 16), m) (\<lambda>off_desc m.
     bindS (load_64 m off_desc, m) (\<lambda>buffer_addr m.
     bindS (load_32 m (off_desc + 8), m) (\<lambda>buffer_len m.
     bindS (load_16 m (off_desc + 12), m) (\<lambda>flags m.
     let virtio_hdr = replicate 12 0; total_len = length virtio_hdr + length packet in
     if zext16 flags AND VRING_DESC_F_WRITE = 0 then (Ok NotWritable, m)
     else if total_len > unat buffer_len then (Ok TooLarge, m)
     else
     bindS (phys_to_offset buffer_addr, m) (\<lambda>off_buffer m.
     bindS (write_bytes off_buffer virtio_hdr m) (\<lambda>_ m.
     bindS (write_bytes (off_buffer + word_of_nat (length virtio_hdr)) packet m) (\<lambda>_ m.
     bindS (push_used (nq_used q) (zext32 (net_qsz q)) head_desc_idx (word_of_nat total_len) m) (\<lambda>_ m.
       (Ok Delivered, m)))))))))))"

definition rx_account :: "rx_outcome \<Rightarrow> 'b virtio_net \<Rightarrow> 'b virtio_net" where
  "rx_account out s =
     (let advance = (\<lambda>q. q\<lparr> nq_last_avail_idx := nq_last_avail_idx q + 1 \<rparr>) in
      case out of
        NoBuffer \<Rightarrow> s\<lparr> stats := (stats s)\<lparr> rx_dropped := rx_dropped (stats s) + 1 \<rparr> \<rparr>
      | NotWritable \<Rightarrow> s\<lparr> rx_queue := advance (rx_queue s), stats := (stats s)\<lparr> rx_errors := rx_errors (stats s) + 1 \<rparr> \<rparr>
      | TooLarge \<Rightarrow> s\<lparr> rx_queue := advance (rx_queue s), stats := (stats s)\<lparr> rx_dropped := rx_dropped (stats s) + 1 \<rparr> \<rparr>
      | Delivered \<Rightarrow> s\<lparr> rx_queue := advance (rx_queue s), stats := (stats s)\<lparr> rx_packets := rx_packets (stats s) + 1 \<rparr> \<rparr>)"

text \<open>The value of the loop is \<open>packets_delivered\<close>.\<close>

partial_function (option) rx_loop ::
  "'b net_backend \<Rightarrow> nat \<Rightarrow> 'b virtio_net \<Rightarrow> dram \<Rightarrow> ((nat, memory_error) result \<times> 'b virtio_net \<times> dram) option" where
  "rx_loop B packets_delivered s m =
     (case nb_recv B (backend s) of (got, b) \<Rightarrow>
      case got of
        Ok (Some packet) \<Rightarrow>
          (case rx_deliver (rx_queue s) packet m of (out, m) \<Rightarrow>
           case out of
             Ok out \<Rightarrow> rx_loop B (if out = Delivered then packets_delivered + 1 else packets_delivered)
                         (rx_account out (s\<lparr> backend := b \<rparr>)) m
           | Err e \<Rightarrow> Some (Err e, s\<lparr> backend := b \<rparr>, m)
           | Panic \<Rightarrow> Some (Panic, s\<lparr> backend := b \<rparr>, m))
      | Ok None \<Rightarrow> Some (Ok packets_delivered, s\<lparr> backend := b \<rparr>, m)
      | Err e \<Rightarrow> Some (Ok packets_delivered, s\<lparr> backend := b, stats := (stats s)\<lparr> rx_errors := rx_errors (stats s) + 1 \<rparr> \<rparr>, m)
      | Panic \<Rightarrow> Some (Panic, s\<lparr> backend := b \<rparr>, m))"

definition process_rx_queue :: "'b net_backend \<Rightarrow> 'b virtio_net \<times> dram \<Rightarrow> (unit, memory_error) result \<times> 'b virtio_net \<times> dram" where
  "process_rx_queue B sm =
     (case sm of (s, m) \<Rightarrow>
      if \<not> nq_ready (rx_queue s) \<or> nq_desc (rx_queue s) = 0 then (Ok (), s, m)
      else case rx_loop B 0 s m of
        None \<Rightarrow> (Panic, s, m)
      | Some r \<Rightarrow> bindS r (\<lambda>packets_delivered (s, m).
          (Ok (), if packets_delivered > 0 then s\<lparr> n_interrupt_status := n_interrupt_status s OR 1 \<rparr> else s, m)))"

subsection \<open>Transmitting\<close>

primrec load_bytes :: "u64 \<Rightarrow> nat list \<Rightarrow> dram \<Rightarrow> (u8 list, memory_error) result \<times> dram" where
  "load_bytes off [] m = (Ok [], m)"
| "load_bytes off (i # is) m =
     bindS (load_8 m (off + word_of_nat i), m) (\<lambda>byte m. bindS (load_bytes off is m) (\<lambda>bytes m. (Ok (byte # bytes), m)))"

text \<open>The data of a descriptor chain; the first argument is \<open>chain_limit\<close>.\<close>

primrec tx_collect :: "nat \<Rightarrow> u64 \<Rightarrow> u16 \<Rightarrow> dram \<Rightarrow> (u8 list, memory_error) result \<times> dram" where
  "tx_collect 0 desc desc_idx m = (Ok [], m)"
| "tx_collect (Suc chain_limit) desc desc_idx m =
     bindS (phys_to_offset (desc + zext16 desc_idx * 16), m) (\<lambda>off_desc m.
     bindS (load_64 m off_desc, m) (\<lambda>buffer_addr m.
     bindS (load_32 m (off_desc + 8), m) (\<lambda>buffer_len m.
     bindS (load_16 m (off_desc + 12), m) (\<lambda>flags m.
     bindS (load_16 m (off_desc + 14), m) (\<lambda>next_idx m.
     bindS (phys_to_offset buffer_addr, m) (\<lambda>off_buffer m.
     bindS (load_bytes off_buffer [0..<unat buffer_len] m) (\<lambda>data m.
     if zext16 flags AND VRING_DESC_F_NEXT = 0 then (Ok data, m)
     else bindS (tx_collect chain_limit desc next_idx m) (\<lambda>rest m. (Ok (data @ rest), m)))))))))"

definition tx_send :: "'b net_backend \<Rightarrow> u8 list \<Rightarrow> 'b virtio_net \<Rightarrow> (unit, memory_error) result \<times> 'b virtio_net" where
  "tx_send B packet_data s =
     (if length packet_data > 12 then
        (case nb_send B (drop 12 packet_data) (backend s) of (sent, b) \<Rightarrow>
         case sent of
           Err e \<Rightarrow> (Ok (), s\<lparr> backend := b, stats := (stats s)\<lparr> tx_errors := tx_errors (stats s) + 1 \<rparr> \<rparr>)
         | Ok _ \<Rightarrow> (Ok (), s\<lparr> backend := b, stats := (stats s)\<lparr> tx_packets := tx_packets (stats s) + 1 \<rparr> \<rparr>)
         | Panic \<Rightarrow> (Panic, s\<lparr> backend := b \<rparr>))
      else (Ok (), s))"

text \<open>One round of the loop, without the increment of the local \<open>last_idx\<close>.\<close>

definition tx_serve :: "'b net_backend \<Rightarrow> u16 \<Rightarrow> 'b virtio_net \<times> dram \<Rightarrow> (unit, memory_error) result \<times> 'b virtio_net \<times> dram" where
  "tx_serve B last_idx sm =
     (case sm of (s, m) \<Rightarrow>
      let q = tx_queue s in
      bindS (apsnd (Pair s) (ring_head q last_idx m)) (\<lambda>head_desc_idx (s, m).
      bindS (apsnd (Pair s) (tx_collect 16 (nq_desc q) head_desc_idx m)) (\<lambda>packet_data (s, m).
      bindS (apsnd (\<lambda>s. (s, m)) (tx_send B packet_data s)) (\<lambda>_ (s, m).
        apsnd (Pair s) (push_used (nq_used q) (zext32 (net_qsz q)) head_desc_idx (word_of_nat (length packet_data)) m)))))"

function tx_loop ::
  "'b net_backend \<Rightarrow> u16 \<Rightarrow> u16 \<Rightarrow> 'b virtio_net \<times> dram \<Rightarrow> (unit, memory_error) result \<times> 'b virtio_net \<times> dram" where
  "tx_loop B avail_idx last_idx sm =
     (if last_idx = avail_idx then (Ok (), sm)
      else case tx_serve B last_idx sm of
         (Ok _, sm) \<Rightarrow> tx_loop B avail_idx (last_idx + 1) sm
       | (Err e, sm) \<Rightarrow> (Err e, sm)
       | (Panic, sm) \<Rightarrow> (Panic, sm))"
  by pat_completeness auto

termination tx_loop
  by (relation "measure (\<lambda>(B, avail_idx, last_idx, sm). unat (avail_idx - last_idx))") (simp_all add: unat_less_step)

definition process_tx_queue :: "'b net_backend \<Rightarrow> 'b virtio_net \<times> dram \<Rightarrow> (unit, memory_error) result \<times> 'b virtio_net \<times> dram" where
  "process_tx_queue B sm =
     (case sm of (s, m) \<Rightarrow>
      let q = tx_queue s in
      if \<not> nq_ready q \<or> nq_desc q = 0 then (Ok (), s, m)
      else
      bindS (apsnd (Pair s) (load16_at (nq_avail q + 2) m)) (\<lambda>avail_idx (s, m).
      let processed_any = nq_last_avail_idx q \<noteq> avail_idx in
      bindS (tx_loop B avail_idx (nq_last_avail_idx q) (s, m)) (\<lambda>_ (s, m).
        let s = s\<lparr> tx_queue := (tx_queue s)\<lparr> nq_last_avail_idx := avail_idx \<rparr> \<rparr> in
        (Ok (), if processed_any then s\<lparr> n_interrupt_status := n_interrupt_status s OR 1 \<rparr> else s, m))))"

subsection \<open>Registers\<close>

definition net_config :: "'b net_backend \<Rightarrow> 'b virtio_net \<Rightarrow> u64 \<Rightarrow> u64" where
  "net_config B s config_offset =
     (let aligned = config_offset AND NOT 3; mac = (\<lambda>i. zext8 (n_mac s ! i)) in
      if aligned = 0 then mac 0 OR shl (mac 1) 8 OR shl (mac 2) 16 OR shl (mac 3) 24
      else if aligned = 4 then mac 4 OR shl (mac 5) 8 OR shl 1 16
      else if aligned = 8 then
        (case nb_get_assigned_ip B (backend s) of
           Some ip \<Rightarrow> zext8 (ip ! 0) OR shl (zext8 (ip ! 1)) 8 OR shl (zext8 (ip ! 2)) 16 OR shl (zext8 (ip ! 3)) 24
         | None \<Rightarrow> 0)
      else 0)"

definition net_read :: "'b net_backend \<Rightarrow> u64 \<Rightarrow> 'b virtio_net \<Rightarrow> (u64, memory_error) result \<times> 'b virtio_net" where
  "net_read B offset s = (Ok
     (if offset = 0x000 then 0x74726976
      else if offset = 0x004 then 2
      else if offset = 0x008 then 1
      else if offset = 0x00c then 0x554d4551
      else if offset = 0x010 then (if n_device_features_sel s = 0 then shl 1 5 OR shl 1 16 else 0)
      else if offset = 0x014 then zext32 (n_device_features_sel s)
      else if offset = 0x020 then zext32 (n_driver_features s)
      else if offset = 0x024 then zext32 (n_driver_features_sel s)
      else if offset = 0x028 then zext32 (n_page_size s)
      else if offset = 0x034 then zext32 QUEUE_SIZE
      else if offset = 0x030 then zext32 (n_queue_sel s)
      else if offset = 0x038 then zext32 (nq_num (current_queue s))
      else if offset = 0x044 then (if nq_ready (current_queue s) then 1 else 0)
      else if offset = 0x060 then zext32 (n_interrupt_status s)
      else if offset = 0x070 then zext32 (n_status s)
      else if offset = 0x0fc then 0
      else if offset \<ge> 0x100 then net_config B s (offset - 0x100)
      else 0), s)"

definition net_queue_pfn :: "u64 \<Rightarrow> u64 \<Rightarrow> net_queue \<Rightarrow> net_queue" where
  "net_queue_pfn pfn psize q =
     (let desc = pfn * psize;
          avail = desc + 16 * zext32 (nq_num q);
          avail_size = 6 + 2 * zext32 (nq_num q);
          used = (avail + avail_size + psize - 1) AND NOT (psize - 1)
      in q\<lparr> nq_desc := desc, nq_avail := avail, nq_used := used, nq_ready := True \<rparr>)"

definition net_write :: "'b net_backend \<Rightarrow> u64 \<Rightarrow> u64 \<Rightarrow> 'b virtio_net \<times> dram \<Rightarrow> (unit, memory_error) result \<times> 'b virtio_net \<times> dram" where
  "net_write B offset val sm =
     (case sm of (s, m) \<Rightarrow>
      let val32 = low32 val; done = (\<lambda>s. (Ok (), s, m)) in
      if offset = 0x014 then done (s\<lparr> n_device_features_sel := val32 \<rparr>)
      else if offset = 0x020 then done (s\<lparr> n_driver_features := val32 \<rparr>)
      else if offset = 0x024 then done (s\<lparr> n_driver_features_sel := val32 \<rparr>)
      else if offset = 0x030 then done (s\<lparr> n_queue_sel := val32 \<rparr>)
      else if offset = 0x038 then done (upd_queue (\<lambda>q. q\<lparr> nq_num := val32 \<rparr>) s)
      else if offset = 0x028 then done (s\<lparr> n_page_size := val32 \<rparr>)
      else if offset = 0x040 then
        done (if zext32 val32 \<noteq> (0 :: u64) then upd_queue (net_queue_pfn (zext32 val32) (zext32 (n_page_size s))) s else s)
      else if offset = 0x044 then done (upd_queue (\<lambda>q. q\<lparr> nq_ready := (val32 \<noteq> 0) \<rparr>) s)
      else if offset = 0x050 then
        (if val32 = 0 then process_rx_queue B (s, m) else if val32 = 1 then process_tx_queue B (s, m) else done s)
      else if offset = 0x064 then done (s\<lparr> n_interrupt_status := n_interrupt_status s AND NOT val32 \<rparr>)
      else if offset = 0x070 then
        done (if val32 = 0
              then s\<lparr> n_status := 0, rx_queue := net_queue_new, tx_queue := net_queue_new, n_interrupt_status := 0 \<rparr>
              else s\<lparr> n_status := val32 \<rparr>)
      else if offset = 0x080 then done (upd_queue (\<lambda>q. q\<lparr> nq_desc := set_low (nq_desc q) val32 \<rparr>) s)
      else if offset = 0x084 then done (upd_queue (\<lambda>q. q\<lparr> nq_desc := set_high (nq_desc q) val32 \<rparr>) s)
      else if offset = 0x090 then done (upd_queue (\<lambda>q. q\<lparr> nq_avail := set_low (nq_avail q) val32 \<rparr>) s)
      else if offset = 0x094 then done (upd_queue (\<lambda>q. q\<lparr> nq_avail := set_high (nq_avail q) val32 \<rparr>) s)
      else if offset = 0x0a0 then done (upd_queue (\<lambda>q. q\<lparr> nq_used := set_low (nq_used q) val32 \<rparr>) s)
      else if offset = 0x0a4 then done (upd_queue (\<lambda>q. q\<lparr> nq_used := set_high (nq_used q) val32 \<rparr>) s)
      else done s)"

definition net_ops :: "'b net_backend \<Rightarrow> 'b virtio_net virtio_ops" where
  "net_ops B = \<lparr> v_read = net_read B, v_write = net_write B, v_is_interrupting = (\<lambda>s. n_interrupt_status s \<noteq> 0),
     v_device_id = (\<lambda>_. 1), v_poll = process_rx_queue B \<rparr>"

subsection \<open>The device does not panic\<close>

declare tx_loop.simps [simp del]

text \<open>A frame of the backend is shorter than \<open>2\<^sup>3\<^sup>0\<close> bytes; no frame comes near this.\<close>

definition net_ok :: "external_net virtio_net \<Rightarrow> bool" where
  "net_ok s \<longleftrightarrow> (\<forall>p\<in>set (ext_rx (backend s)). length p < 2 ^ 30)"

lemma phys_to_offset_room: "phys_to_offset addr = Ok off \<Longrightarrow> unat off + 2 ^ 31 \<le> 2 ^ 64"
proof -
  assume a: "phys_to_offset addr = Ok off"
  then have "off = addr - DRAM_BASE" "DRAM_BASE \<le> addr" by (auto simp: phys_to_offset_def split: if_splits)
  then have "unat off + 2 ^ 31 = unat addr" by (simp add: unat_sub word_le_nat_alt DRAM_BASE_def)
  moreover have "unat addr < 2 ^ LENGTH(64)" by (rule unsigned_less)
  ultimately show ?thesis by simp
qed

lemma safe_phys_room:
  assumes "I s" "\<And>off. unat off + 2 ^ 31 \<le> 2 ^ 64 \<Longrightarrow> safe I (f off s)"
  shows "safe I (bindS (phys_to_offset addr, s) f)"
  using assms phys_to_offset_room [of addr] by (cases "phys_to_offset addr") (auto simp: phys_to_offset_def split: if_splits)

lemma write_bytes_safe:
  assumes "unat off + length xs < 2 ^ 64" "same_geometry m0 m"
  shows "safe (same_geometry m0) (write_bytes off xs m)"
  using check_no_wrap [OF assms(1), of "dram_size m"] assms(2) by (auto simp: write_bytes_def)

lemma load_8_no_panic: "load_8 m off \<noteq> Panic"
  by (auto simp: load_8_def raw_read_def word_le_nat_alt)

lemma ring_head_safe: "same_geometry m0 m \<Longrightarrow> safe (same_geometry m0) (ring_head q i m)"
  by (simp add: ring_head_def Let_def load16_at_safe)

lemma rx_deliver_safe:
  assumes "length packet < 2 ^ 30" "same_geometry m0 m"
  shows "safe (same_geometry m0) (rx_deliver q packet m)"
proof -
  have 12: "unat (off + 12) = unat off + 12" if "unat off + 2 ^ 31 \<le> 2 ^ 64" for off :: u64
    using that by (simp add: unat_word_ariths)
  have w: "safe (same_geometry m0) (write_bytes off (replicate 12 0) m1)" "safe (same_geometry m0) (write_bytes (off + 12) packet m1)"
    if "unat off + 2 ^ 31 \<le> 2 ^ 64" "same_geometry m0 m1" for off m1
    using that assms(1) 12 [OF that(1)] by (auto intro!: write_bytes_safe)
  show ?thesis
    unfolding rx_deliver_def Let_def
    by (rule safe_bindS [OF load16_at_safe], rule assms(2), simp only: if_distribR split: if_split, intro conjI impI, simp,
        rule safe_bindS [OF ring_head_safe], assumption, (rule safe_phys, assumption),
        (rule safe_pure, simp add: dma_safe, assumption)+)
      (auto intro!: safe_bindS safe_phys_room push_used_safe w)
qed

lemma rx_account_frame [simp]: "backend (rx_account out s) = backend s" "tx_queue (rx_account out s) = tx_queue s"
  by (simp_all add: rx_account_def split: rx_outcome.split)

lemma external_recv_cases:
  "nb_recv external_methods b = (case ext_rx b of [] \<Rightarrow> (Ok None, b) | p # ps \<Rightarrow> (Ok (Some p), b\<lparr> ext_rx := ps \<rparr>))"
  by (simp add: external_methods_def external_recv_def)

text \<open>On the external backend the receive loop returns: every round takes a frame from its queue.\<close>

lemma rx_loop_returns:
  "net_ok s \<Longrightarrow> same_geometry m0 m \<Longrightarrow>
    \<exists>r. rx_loop external_methods n s m = Some r \<and> safe (\<lambda>(s, m). net_ok s \<and> same_geometry m0 m) r"
proof (induction "ext_rx (backend s)" arbitrary: n s m)
  case Nil
  then show ?case by (subst rx_loop.simps) (simp add: external_recv_cases net_ok_def)
next
  case (Cons p ps)
  let ?s = "s\<lparr> backend := (backend s)\<lparr> ext_rx := ps \<rparr> \<rparr>"
  have e: "ext_rx (backend s) = p # ps" using Cons.hyps(2) by (rule sym)
  have ok: "length p < 2 ^ 30" "net_ok ?s" using Cons.prems(1) by (simp_all add: net_ok_def e)
  have "safe (same_geometry m0) (rx_deliver (rx_queue s) p m)" using ok(1) Cons.prems(2) by (rule rx_deliver_safe)
  then show ?case
  proof (rule safeE)
    fix out m1 assume "rx_deliver (rx_queue s) p m = (Ok out, m1)" "same_geometry m0 m1"
    with Cons.hyps(1) [of "rx_account out ?s" m1 "if out = Delivered then n + 1 else n"] ok(2) e
    show ?thesis by (subst rx_loop.simps) (simp add: external_recv_cases net_ok_def)
  next
    fix x m1 assume "rx_deliver (rx_queue s) p m = (Err x, m1)" "same_geometry m0 m1"
    with ok(2) e show ?thesis by (subst rx_loop.simps) (simp add: external_recv_cases)
  qed
qed

lemma process_rx_queue_safe:
  assumes "net_ok s" "same_geometry m0 m"
  shows "safe (\<lambda>(s, m). net_ok s \<and> same_geometry m0 m) (process_rx_queue external_methods (s, m))"
proof -
  from rx_loop_returns [OF assms] obtain r where r: "rx_loop external_methods 0 s m = Some r"
    "safe (\<lambda>(s, m). net_ok s \<and> same_geometry m0 m) r" by blast
  from r(2) have "safe (\<lambda>(s, m). net_ok s \<and> same_geometry m0 m) (bindS r (\<lambda>n (s, m).
      (Ok (), if n > 0 then s\<lparr> n_interrupt_status := n_interrupt_status s OR 1 \<rparr> else s, m)))"
    by (rule safe_bindS) (auto simp: net_ok_def)
  with assms r(1) show ?thesis by (simp add: process_rx_queue_def)
qed

lemma load_bytes_same: "safe ((=) m) (load_bytes off is m)"
proof (induction "is")
  case (Cons i "is")
  then show ?case
    unfolding load_bytes.simps by (intro safe_pure load_8_no_panic refl safe_bindS) auto
qed simp

lemma safe_weaken: "safe I x \<Longrightarrow> (\<And>s. I s \<Longrightarrow> J s) \<Longrightarrow> safe J x"
  by (simp add: safe_def)

lemma tx_collect_same: "safe ((=) m) (tx_collect n desc i m)"
proof (induction n arbitrary: i)
  case (Suc n)
  show ?case
    unfolding tx_collect.simps
    by ((rule safe_phys, rule refl), (rule safe_pure, simp add: dma_safe, rule refl)+, (rule safe_phys, rule refl),
        rule safe_bindS [OF load_bytes_same]) (auto intro!: safe_bindS Suc)
qed simp

lemma tx_send_safe: "net_ok s \<Longrightarrow> safe net_ok (tx_send external_methods data s)"
  by (simp add: tx_send_def external_methods_def external_send_def net_ok_def)

abbreviation net_inv :: "dram \<Rightarrow> external_net virtio_net \<times> dram \<Rightarrow> bool" where
  "net_inv m0 \<equiv> (\<lambda>(s, m). net_ok s \<and> same_geometry m0 m)"

lemma safe_on_mem:
  assumes "safe (same_geometry m0) x" "net_ok s" "\<And>a m. same_geometry m0 m \<Longrightarrow> safe (net_inv m0) (f a (s, m))"
  shows "safe (net_inv m0) (bindS (apsnd (Pair s) x) f)"
  using assms(1) by (rule safeE) (simp_all add: assms(2,3))

lemma safe_on_dev:
  assumes "safe net_ok x" "same_geometry m0 m" "\<And>a s. net_ok s \<Longrightarrow> safe (net_inv m0) (f a (s, m))"
  shows "safe (net_inv m0) (bindS (apsnd (\<lambda>s. (s, m)) x) f)"
  using assms(1) by (rule safeE) (simp_all add: assms(2,3))

lemma tx_serve_safe:
  assumes "net_ok s" "same_geometry m0 m"
  shows "safe (net_inv m0) (tx_serve external_methods i (s, m))"
proof -
  have c: "safe (same_geometry m0) (tx_collect n desc j m1)" if "same_geometry m0 m1" for n desc j m1
    by (rule safe_weaken [OF tx_collect_same]) (use that in auto)
  have p: "safe (net_inv m0) (apsnd (Pair s1) (push_used used qsz h len m1))"
    if "net_ok s1" "same_geometry m0 m1" for s1 used qsz h len m1
    using push_used_safe [OF that(2), of used qsz h len] by (rule safeE) (simp_all add: that(1))
  show ?thesis
    unfolding tx_serve_def Let_def prod.case
    by (rule safe_on_mem [OF ring_head_safe [OF assms(2)] assms(1)], unfold prod.case, rule safe_on_mem [OF c assms(1)], assumption,
        unfold prod.case, rule safe_on_dev [OF tx_send_safe [OF assms(1)]], assumption, unfold prod.case, rule p)
qed

lemma tx_loop_safe: "net_inv m0 sm \<Longrightarrow> safe (net_inv m0) (tx_loop external_methods avail i sm)"
proof (induction "external_methods" avail i sm rule: tx_loop.induct)
  case (1 avail i sm)
  show ?case
  proof (cases "i = avail")
    case False
    have "safe (net_inv m0) (tx_serve external_methods i sm)" using 1(2) by (cases sm) (simp add: tx_serve_safe)
    then show ?thesis
      by (rule safeE) (use 1(1) False in \<open>simp_all add: tx_loop.simps [of external_methods avail i sm]\<close>)
  next
    case True
    with 1(2) show ?thesis by (subst tx_loop.simps) simp
  qed
qed

lemma net_ok_upd [simp]: "net_ok (s\<lparr> tx_queue := q \<rparr>) = net_ok s" "net_ok (s\<lparr> rx_queue := q \<rparr>) = net_ok s"
  "net_ok (s\<lparr> n_interrupt_status := w \<rparr>) = net_ok s" "net_ok (s\<lparr> n_status := w \<rparr>) = net_ok s"
  "net_ok (s\<lparr> n_device_features_sel := w \<rparr>) = net_ok s" "net_ok (s\<lparr> n_driver_features := w \<rparr>) = net_ok s"
  "net_ok (s\<lparr> n_driver_features_sel := w \<rparr>) = net_ok s" "net_ok (s\<lparr> n_queue_sel := w \<rparr>) = net_ok s"
  "net_ok (s\<lparr> n_page_size := w \<rparr>) = net_ok s" "net_ok (upd_queue f s) = net_ok s"
  by (simp_all add: net_ok_def upd_queue_def)

lemma process_tx_queue_safe:
  assumes "net_ok s" "same_geometry m0 m"
  shows "safe (net_inv m0) (process_tx_queue external_methods (s, m))"
proof (cases "\<not> nq_ready (tx_queue s) \<or> nq_desc (tx_queue s) = 0")
  case False
  show ?thesis
    unfolding process_tx_queue_def Let_def prod.case if_not_P [OF False]
    by (rule safe_on_mem [OF load16_at_safe [OF assms(2)] assms(1)], unfold prod.case, rule safe_bindS [OF tx_loop_safe])
      (auto simp: assms)
next
  case True
  show ?thesis unfolding process_tx_queue_def Let_def prod.case if_P [OF True] by (simp add: assms)
qed

lemma safe_ifI: "safe I x \<Longrightarrow> safe I y \<Longrightarrow> safe I (if c then x else y)"
  by simp

lemma net_write_safe: "net_ok s \<Longrightarrow> safe (net_inv m) (net_write external_methods off v (s, m))"
  unfolding net_write_def Let_def prod.case
  by (intro safe_ifI) (simp_all add: process_rx_queue_safe process_tx_queue_safe)

subsection \<open>The devices of a machine\<close>

text \<open>The bus holds its devices as trait objects; the entropy source and the network device on the external backend
  are two of them.\<close>

datatype vdevice = Rng virtio_regs | Net "external_net virtio_net"

primrec dev_read :: "u64 \<Rightarrow> vdevice \<Rightarrow> (u64, memory_error) result \<times> vdevice" where
  "dev_read off (Rng s) = apsnd Rng (rng_read off s)"
| "dev_read off (Net s) = apsnd Net (net_read external_methods off s)"

definition dev_write :: "u64 \<Rightarrow> u64 \<Rightarrow> vdevice \<times> dram \<Rightarrow> (unit, memory_error) result \<times> vdevice \<times> dram" where
  "dev_write off v dm =
     (case fst dm of
        Rng s \<Rightarrow> apsnd (apfst Rng) (rng_write off v (s, snd dm))
      | Net s \<Rightarrow> apsnd (apfst Net) (net_write external_methods off v (s, snd dm)))"

definition dev_poll :: "vdevice \<times> dram \<Rightarrow> (unit, memory_error) result \<times> vdevice \<times> dram" where
  "dev_poll dm =
     (case fst dm of
        Rng s \<Rightarrow> apsnd (apfst Rng) (v_poll rng_ops (s, snd dm))
      | Net s \<Rightarrow> apsnd (apfst Net) (v_poll (net_ops external_methods) (s, snd dm)))"

definition dev_ops :: "vdevice virtio_ops" where
  "dev_ops = \<lparr> v_read = dev_read, v_write = dev_write,
     v_is_interrupting = (\<lambda>d. case d of Rng s \<Rightarrow> v_is_interrupting rng_ops s | Net s \<Rightarrow> v_is_interrupting (net_ops external_methods) s),
     v_device_id = (\<lambda>d. case d of Rng s \<Rightarrow> v_device_id rng_ops s | Net s \<Rightarrow> v_device_id (net_ops external_methods) s),
     v_poll = dev_poll \<rparr>"

definition dev_ok :: "vdevice \<Rightarrow> bool" where
  "dev_ok d = (case d of Rng _ \<Rightarrow> True | Net s \<Rightarrow> net_ok s)"

interpretation net: safe_virtio "net_ops external_methods" net_ok
  by unfold_locales (simp_all add: net_ops_def net_read_def net_write_safe process_rx_queue_safe)

lemma safe_tagged:
  "safe (\<lambda>(s, m). I s \<and> same_geometry m0 m) x \<Longrightarrow> (\<And>s. I s \<Longrightarrow> J (f s)) \<Longrightarrow>
    safe (\<lambda>(d, m). J d \<and> same_geometry m0 m) (apsnd (apfst f) x)"
  by (cases x) (auto simp: safe_def)

interpretation dev: safe_virtio dev_ops dev_ok
proof
  fix d off v m assume d: "dev_ok d"
  show "safe dev_ok (v_read dev_ops off d)"
    using d by (cases d) (simp_all add: dev_ops_def dev_ok_def rng_read_def net_read_def)
  show "safe (\<lambda>(d', m'). dev_ok d' \<and> same_geometry m m') (v_write dev_ops off v (d, m))"
    using d rng.v_write_safe [OF TrueI, of m off v] net.v_write_safe [of _ m off v]
    by (cases d) (auto simp: dev_ops_def dev_write_def dev_ok_def rng_ops_def net_ops_def intro!: safe_tagged)
  show "safe (\<lambda>(d', m'). dev_ok d' \<and> same_geometry m m') (v_poll dev_ops (d, m))"
    using d rng.v_poll_safe [OF TrueI, of m] net.v_poll_safe [of _ m]
    by (cases d) (auto simp: dev_ops_def dev_poll_def dev_ok_def intro!: safe_tagged)
qed

end
