(* ===== verification/Rv_System_Bus_Spec.thy ===== *)
theory Rv_System_Bus_Spec
  imports Rv_System_Bus Rv_Mmu_Spec Rv_Net
begin

text \<open>
  What the system bus guarantees: DRAM behind it is a byte memory, an address that nothing
  decodes faults and changes nothing, the interrupt word has the four bits of the interrupt sources
  and no other, and no access panics when no device does.  The bus is the memory the address
  translation of \<open>Rv_Mmu_Spec\<close> relies on, so translation on the real bus refines its
  specification.
\<close>

unbundle bit_operations_syntax

subsection \<open>The bus does not panic\<close>

definition sb_inv :: "('d \<Rightarrow> bool) \<Rightarrow> 'd system_bus \<Rightarrow> bool" where
  "sb_inv dinv s \<longleftrightarrow> unat (dram_size (sb_dram s)) < 2 ^ 64 - 8 \<and> list_all dinv (sb_virtio s)"

lemma dram_offset_no_wrap:
  assumes "dram_offset m addr = Some off" "unat (dram_size m) < 2 ^ 64 - 8"
  shows "no_wrap 8 off"
  using assms by (auto simp: dram_offset_def no_wrap_def Let_def word_less_nat_alt split: if_splits)

lemma plic_load_ok: "\<exists>v. fst (plic_load off sz p) = Ok v"
  unfolding plic_load_def Let_def by (simp split: prod.split)

lemma plic_store_ok: "fst (plic_store off sz v p) = Ok ()"
  unfolding plic_store_def Let_def by simp

lemma uart_load_ok: "\<exists>v. fst (uart_load off sz u) = Ok v"
  unfolding uart_load_def Let_def by simp

lemma uart_store_ok: "fst (uart_store off sz v u) = Ok ()"
  unfolding uart_store_def Let_def by simp

lemma sb_dev_inv [simp]:
  "sb_inv dinv (s\<lparr> sb_plic := p \<rparr>) = sb_inv dinv s" "sb_inv dinv (s\<lparr> sb_uart := u \<rparr>) = sb_inv dinv s"
  "sb_inv dinv (s\<lparr> sb_clint := c \<rparr>) = sb_inv dinv s" "sb_inv dinv (s\<lparr> sb_sysinfo := i \<rparr>) = sb_inv dinv s"
  by (simp_all add: sb_inv_def)

lemma sb_dev_safe:
  assumes "sb_inv dinv s"
  shows "safe (sb_inv dinv) (sb_plic_load addr sz s)" "safe (sb_inv dinv) (sb_plic_store addr sz v s)"
    "safe (sb_inv dinv) (sb_uart_load addr sz s)" "safe (sb_inv dinv) (sb_uart_store addr sz v s)"
    "safe (sb_inv dinv) (sb_clint_store addr sz v s)" "safe (sb_inv dinv) (sb_sysinfo_store addr sz v s)"
  using assms plic_load_ok [of "addr - PLIC_BASE" sz "sb_plic s"] plic_store_ok [of "addr - PLIC_BASE" sz v "sb_plic s"]
    uart_load_ok [of "addr - UART_BASE" sz "sb_uart s"] uart_store_ok [of "addr - UART_BASE" sz v "sb_uart s"]
  by (auto simp: sb_plic_load_def sb_plic_store_def sb_uart_load_def sb_uart_store_def sb_clint_store_def
      sb_sysinfo_store_def split: prod.splits)

lemma safe_map_err: "r \<noteq> Panic \<Longrightarrow> I s \<Longrightarrow> safe I (map_err f r, s)"
  by (simp add: safe_def)

lemma safe_case_map: "safe I m \<Longrightarrow> safe I (case m of (r, s) \<Rightarrow> (map_result f g r, s))"
  by (cases m; cases "fst m") auto

lemma get_virtio_device_bound: "get_virtio_device s addr = Some (idx, off) \<Longrightarrow> idx < length (sb_virtio s)"
  by (auto simp: get_virtio_device_def Let_def split: if_splits)

context safe_virtio
begin

lemma dev_read_safe:
  assumes "sb_inv dinv s" "idx < length (sb_virtio s)"
  shows "safe (sb_inv dinv) (virtio_dev_read vops idx off addr s)"
proof -
  have "dinv (sb_virtio s ! idx)" using assms by (simp add: sb_inv_def list_all_length)
  from v_read_safe [OF this, of off] show ?thesis
    by (rule safeE) (use assms in \<open>auto simp: virtio_dev_read_def sb_inv_def list_all_length nth_list_update\<close>)
qed

lemma dev_write_safe:
  assumes "sb_inv dinv s" "idx < length (sb_virtio s)"
  shows "safe (sb_inv dinv) (virtio_dev_write vops idx off v addr s)"
proof -
  have "dinv (sb_virtio s ! idx)" using assms by (simp add: sb_inv_def list_all_length)
  from v_write_safe [OF this, of "sb_dram s" off v] show ?thesis
    by (rule safeE)
      (use assms in \<open>auto simp: virtio_dev_write_def sb_inv_def list_all_length nth_list_update same_geometry_def\<close>)
qed

lemmas slow_safe = sb_dev_safe dev_read_safe dev_write_safe get_virtio_device_bound

lemma read_slow_safe:
  assumes "sb_inv dinv s"
  shows "safe (sb_inv dinv) (read8_slow vops addr s)" "safe (sb_inv dinv) (read16_slow vops addr s)"
    "safe (sb_inv dinv) (read32_slow vops addr s)"
  unfolding read8_slow_def read16_slow_def read32_slow_def
  by (simp_all add: assms safe_case_map slow_safe split: option.split)

lemma virtio_dev_read_length:
  "virtio_dev_read vops idx off addr s = (r, s') \<Longrightarrow> length (sb_virtio s') = length (sb_virtio s)"
  by (auto simp: virtio_dev_read_def split: prod.splits)

lemma read64_slow_safe: "sb_inv dinv s \<Longrightarrow> safe (sb_inv dinv) (read64_slow vops addr s)"
  unfolding read64_slow_def
  by (auto simp: slow_safe split: option.split intro!: safe_bindS dev_read_safe
      dest!: virtio_dev_read_length get_virtio_device_bound)

lemma write_slow_safe:
  assumes "sb_inv dinv s"
  shows "safe (sb_inv dinv) (write8_slow vops addr v8 s)" "safe (sb_inv dinv) (write16_slow vops addr v16 s)"
    "safe (sb_inv dinv) (write32_slow vops addr v32 s)" "safe (sb_inv dinv) (write64_slow vops addr v64 s)"
  unfolding write8_slow_def write16_slow_def write32_slow_def write64_slow_def
  by (simp_all add: assms slow_safe split: option.split)

lemma sb_read_safe:
  assumes "sb_inv dinv s"
  shows "safe (sb_inv dinv) (sb_read8 vops addr s)" "safe (sb_inv dinv) (sb_read16 vops addr s)"
    "safe (sb_inv dinv) (sb_read32 vops addr s)" "safe (sb_inv dinv) (sb_read64 vops addr s)"
proof -
  have off: "no_wrap 8 off" if "dram_offset (sb_dram s) addr = Some off" for off
    using dram_offset_no_wrap [OF that] assms by (simp add: sb_inv_def)
  note rules = load_no_panic off read_slow_safe read64_slow_safe safe_map_err assms
  show "safe (sb_inv dinv) (sb_read8 vops addr s)" "safe (sb_inv dinv) (sb_read16 vops addr s)"
    "safe (sb_inv dinv) (sb_read32 vops addr s)" "safe (sb_inv dinv) (sb_read64 vops addr s)"
    unfolding sb_read8_def sb_read16_def sb_read32_def sb_read64_def
    by (simp_all add: rules split: option.split)
qed

lemma dram_store_safe:
  assumes "sb_inv dinv s" "safe (same_geometry (sb_dram s)) m"
  shows "safe (sb_inv dinv) (case m of (r, m) \<Rightarrow> (map_err f r, s\<lparr> sb_dram := m \<rparr>))"
  using assms(2) by (rule safeE) (use assms(1) in \<open>simp_all add: sb_inv_def same_geometry_def\<close>)

lemma sb_write_safe:
  assumes "sb_inv dinv s"
  shows "safe (sb_inv dinv) (sb_write8 vops addr v8 s)" "safe (sb_inv dinv) (sb_write16 vops addr v16 s)"
    "safe (sb_inv dinv) (sb_write32 vops addr v32 s)" "safe (sb_inv dinv) (sb_write64 vops addr v64 s)"
proof -
  have off: "no_wrap 8 off" if "dram_offset (sb_dram s) addr = Some off" for off
    using dram_offset_no_wrap [OF that] assms by (simp add: sb_inv_def)
  note rules = dram_store_safe [OF assms] store_safe_geometry off write_slow_safe assms
  show "safe (sb_inv dinv) (sb_write8 vops addr v8 s)" "safe (sb_inv dinv) (sb_write16 vops addr v16 s)"
    "safe (sb_inv dinv) (sb_write32 vops addr v32 s)" "safe (sb_inv dinv) (sb_write64 vops addr v64 s)"
    unfolding sb_write8_def sb_write16_def sb_write32_def sb_write64_def
    by (simp_all add: rules split: option.split)
qed

end

sublocale safe_virtio \<subseteq> sb: safe_bus "sys_ops vops" "sb_inv dinv"
proof
  show "sb_inv dinv (snd (bus_poll_interrupts_for_hart (sys_ops vops) h b))" if "sb_inv dinv b" for h b
    using that by (simp add: sys_ops_def sb_check_interrupts_for_hart_def Let_def split: prod.split)
qed (simp_all add: sys_ops_def sb_read_safe sb_write_safe)

subsection \<open>DRAM behind the bus\<close>

text \<open>An aligned access of \<open>sz\<close> bytes that the DRAM backs.\<close>

definition on_ram :: "nat \<Rightarrow> 'd system_bus \<Rightarrow> u64 \<Rightarrow> bool" where
  "on_ram sz s addr \<longleftrightarrow> unat addr mod sz = 0 \<and> in_range sz (sb_dram s) (addr - dram_base (sb_dram s))"

lemma on_ram_offset:
  assumes "on_ram sz s addr" "sz > 0"
  shows "dram_offset (sb_dram s) addr = Some (addr - dram_base (sb_dram s))"
  using assms by (simp add: on_ram_def in_range_def dram_offset_def Let_def word_less_nat_alt)

lemma on_ram_aligned:
  "on_ram 2 s addr \<Longrightarrow> addr mod 2 = 0" "on_ram 4 s addr \<Longrightarrow> addr mod 4 = 0" "on_ram 8 s addr \<Longrightarrow> addr mod 8 = 0"
  by (simp_all only: on_ram_def mod_0_unat)

lemma ram_load:
  assumes "sz \<in> {1, 2, 4, 8}" "on_ram sz s addr"
  shows "bus_load (sys_ops vops) addr (word_of_nat sz) s =
    (Ok (le_read sz (dram_data (sb_dram s)) (unat (addr - dram_base (sb_dram s)))), s)"
proof -
  let ?off = "addr - dram_base (sb_dram s)"
  have off: "dram_offset (sb_dram s) addr = Some ?off"
    using assms by (intro on_ram_offset) auto
  have ld: "load_n sz (sb_dram s) ?off = Ok (le_read sz (dram_data (sb_dram s)) (unat ?off))"
    using assms by (intro load_in_range) (simp_all add: on_ram_def)
  have eq: "map_result z id r = Ok v \<Longrightarrow> \<exists>x. r = Ok x \<and> z x = v" for z and r :: "('x, memory_error) result" and v :: u64
    by (cases r) auto
  from assms(1) consider "sz = 1" | "sz = 2" | "sz = 4" | "sz = 8" by auto
  then show ?thesis
    by cases (use assms(2) off ld in \<open>auto simp: bus_load_def sys_ops_def sb_read8_def sb_read16_def
      sb_read32_def sb_read64_def widths_unfold widths_unfold(1) [unfolded One_nat_def] dest: on_ram_aligned dest!: eq\<close>)
qed

lemma ram_store:
  assumes "sz \<in> {1, 2, 4, 8}" "on_ram sz s addr"
  shows "bus_store (sys_ops vops) addr (word_of_nat sz) v s =
    (Ok (), s\<lparr> sb_dram := (sb_dram s)\<lparr> dram_data :=
       le_write sz v (dram_data (sb_dram s)) (unat (addr - dram_base (sb_dram s))) \<rparr> \<rparr>)"
proof -
  let ?off = "addr - dram_base (sb_dram s)"
  have off: "dram_offset (sb_dram s) addr = Some ?off"
    using assms by (intro on_ram_offset) auto
  have st: "store_n sz ?off w (sb_dram s) =
      (Ok (), (sb_dram s)\<lparr> dram_data := le_write sz w (dram_data (sb_dram s)) (unat ?off) \<rparr>)" for w
    using assms by (intro store_in_range) (simp_all add: on_ram_def)
  have tr: "le_write 1 (zext8 (low8 v)) d i = le_write 1 v d i" "le_write 2 (zext16 (low16 v)) d i = le_write 2 v d i"
    "le_write 4 (zext32 (low32 v)) d i = le_write 4 v d i" for d i
    by (rule le_write_cong; simp add: bitx)+
  from assms(1) consider "sz = 1" | "sz = 2" | "sz = 4" | "sz = 8" by auto
  then show ?thesis
    by cases (use assms(2) off st tr in \<open>auto simp: bus_store_def sys_ops_def sb_write8_def sb_write16_def
      sb_write32_def sb_write64_def widths_unfold widths_unfold(5) [unfolded One_nat_def] dest: on_ram_aligned\<close>)
qed

text \<open>C29: the DRAM behind the bus is a memory: an aligned load returns what the last store of its width
  to the address wrote, a store disturbs no load it does not overlap, and neither touches a device.\<close>

theorem sb_load_after_store:
  assumes "sz \<in> {1, 2, 4, 8}" "k \<in> {1, 2, 4, 8}" "on_ram sz s addr" "on_ram k s addr'"
    and "bus_store (sys_ops vops) addr (word_of_nat sz) v s = (r, s')"
  defines "off \<equiv> unat (addr - dram_base (sb_dram s))" and "off' \<equiv> unat (addr' - dram_base (sb_dram s))"
  shows "r = Ok () \<and> bus_load (sys_ops vops) addr (word_of_nat sz) s' = (Ok (take_bit (8 * sz) v), s') \<and>
    (off + sz \<le> off' \<or> off' + k \<le> off \<longrightarrow>
       fst (bus_load (sys_ops vops) addr' (word_of_nat k) s') = fst (bus_load (sys_ops vops) addr' (word_of_nat k) s)) \<and>
    s' = s\<lparr> sb_dram := sb_dram s' \<rparr>"
proof -
  have s': "r = Ok ()" "s' = s\<lparr> sb_dram := (sb_dram s)\<lparr> dram_data := le_write sz v (dram_data (sb_dram s)) off \<rparr> \<rparr>"
    using ram_store [OF assms(1,3), of vops v] assms(5) by (simp_all add: off_def)
  have on: "on_ram sz s' addr" "on_ram k s' addr'" using assms(3,4) s'(2) by (simp_all add: on_ram_def)
  have "sz \<le> 8" using assms(1) by auto
  then have "bus_load (sys_ops vops) addr (word_of_nat sz) s' = (Ok (take_bit (8 * sz) v), s')"
    using ram_load [OF assms(1) on(1), of vops] s'(2) by (simp add: off_def le_read_write)
  moreover have "off + sz \<le> off' \<or> off' + k \<le> off \<longrightarrow>
      fst (bus_load (sys_ops vops) addr' (word_of_nat k) s') = fst (bus_load (sys_ops vops) addr' (word_of_nat k) s)"
    using ram_load [OF assms(2) on(2), of vops] ram_load [OF assms(2,4), of vops] s'(2)
    by (auto simp: off_def off'_def le_read_write_disjoint)
  ultimately show ?thesis using s' by simp
qed

theorem sb_load_after_store_witness:
  "bus_load (sys_ops rng_ops) 0x80000100 8
     (snd (bus_store (sys_ops rng_ops) 0x80000100 8 0x1122334455667788 (system_bus_new DRAM_BASE 4096))) =
   (Ok 0x1122334455667788,
     snd (bus_store (sys_ops rng_ops) 0x80000100 8 0x1122334455667788 (system_bus_new DRAM_BASE 4096)))"
proof -
  have "on_ram 8 (system_bus_new DRAM_BASE 4096 :: virtio_regs system_bus) 0x80000100"
    by (simp add: on_ram_def in_range_def system_bus_new_def dram_new_def DRAM_BASE_def)
  moreover obtain r s' where st: "bus_store (sys_ops rng_ops) 0x80000100 (word_of_nat 8) 0x1122334455667788
      (system_bus_new DRAM_BASE 4096) = (r, s')" by fastforce
  ultimately have "bus_load (sys_ops rng_ops) 0x80000100 (word_of_nat 8) s' = (Ok (take_bit (8 * 8) 0x1122334455667788), s')"
    using sb_load_after_store [OF _ _ _ _ st] by blast
  then show ?thesis using st by simp
qed

subsection \<open>Addresses that nothing decodes\<close>

definition unmapped :: "'d system_bus \<Rightarrow> u64 \<Rightarrow> bool" where
  "unmapped s addr \<longleftrightarrow> dram_offset (sb_dram s) addr = None \<and>
     \<not> in_region addr TEST_FINISHER_BASE TEST_FINISHER_SIZE \<and> \<not> in_region addr SYSINFO_BASE SYSINFO_SIZE \<and>
     \<not> in_region addr CLINT_BASE CLINT_SIZE \<and> \<not> in_region addr PLIC_BASE PLIC_SIZE \<and>
     \<not> in_region addr UART_BASE UART_SIZE \<and> get_virtio_device s addr = None \<and> is_virtio_region addr = None"

lemma unmapped_slow:
  assumes "unmapped s addr"
  shows "read8_slow vops addr s = (Err (LoadAccessFault addr), s)" "read16_slow vops addr s = (Err (LoadAccessFault addr), s)"
    "read32_slow vops addr s = (Err (LoadAccessFault addr), s)" "read64_slow vops addr s = (Err (LoadAccessFault addr), s)"
    "write8_slow vops addr v8 s = (Err (StoreAccessFault addr), s)" "write16_slow vops addr v16 s = (Err (StoreAccessFault addr), s)"
    "write32_slow vops addr v32 s = (Err (StoreAccessFault addr), s)" "write64_slow vops addr v64 s = (Err (StoreAccessFault addr), s)"
  using assms unfolding read8_slow_def read16_slow_def read32_slow_def read64_slow_def
    write8_slow_def write16_slow_def write32_slow_def write64_slow_def unmapped_def by simp_all

text \<open>C30: an access to an address that is neither DRAM nor in a device window fails with a misalignment
  or access fault of its kind, carrying the address, and leaves the whole machine state as it was.\<close>

theorem sb_unmapped_faults:
  assumes "unmapped s addr" "sz \<in> {1, 2, 4, 8}"
  shows "bus_load (sys_ops vops) addr sz s =
      (Err (if addr mod sz = 0 then LoadAccessFault addr else LoadAddressMisaligned addr), s) \<and>
    bus_store (sys_ops vops) addr sz v s =
      (Err (if addr mod sz = 0 then StoreAccessFault addr else StoreAddressMisaligned addr), s)"
proof -
  note slow = unmapped_slow [OF assms(1), of vops]
  have off: "dram_offset (sb_dram s) addr = None" using assms(1) by (simp add: unmapped_def)
  from assms(2) consider "sz = 1" | "sz = 2" | "sz = 4" | "sz = 8" by auto
  then show ?thesis
    by cases (simp_all add: bus_load_def bus_store_def sys_ops_def sb_read8_def sb_read16_def sb_read32_def
        sb_read64_def sb_write8_def sb_write16_def sb_write32_def sb_write64_def slow off)
qed

theorem sb_unmapped_faults_witness:
  "bus_load (sys_ops rng_ops) 0x20000000 4 (system_bus_new DRAM_BASE 4096) =
     (Err (LoadAccessFault 0x20000000), system_bus_new DRAM_BASE 4096)"
proof -
  have "unmapped (system_bus_new DRAM_BASE 4096 :: virtio_regs system_bus) 0x20000000"
    by (simp add: unmapped_def in_region_def get_virtio_device_def is_virtio_region_def
        system_bus_new_def dram_new_def dram_offset_def DRAM_BASE_def)
  from sb_unmapped_faults [OF this, of 4 rng_ops] show ?thesis by simp
qed

subsection \<open>The interrupt word\<close>

text \<open>The level of a source of the PLIC after a poll: a virtio device drives the source of its slot, the
  UART source 10, and every other source keeps its pending bit.\<close>

definition source_line :: "'d virtio_ops \<Rightarrow> 'd system_bus \<Rightarrow> nat \<Rightarrow> bool" where
  "source_line vops s i \<longleftrightarrow>
     (if 1 \<le> i \<and> i \<le> length (sb_virtio s) then v_is_interrupting vops (sb_virtio s ! (i - 1))
      else if i = 10 then is_interrupting (sb_uart s)
      else bit (pending (state (sb_plic s))) i)"

text \<open>A context has an interrupt when a source whose line is up is enabled for it with a priority above
  the threshold.\<close>

definition context_line :: "'d virtio_ops \<Rightarrow> 'd system_bus \<Rightarrow> nat \<Rightarrow> bool" where
  "context_line vops s ctx \<longleftrightarrow>
     (\<exists>i \<in> {1..31}. source_line vops s i \<and> bit (enable (state (sb_plic s)) ctx) i \<and>
        priority (state (sb_plic s)) i > threshold (state (sb_plic s)) ctx)"

lemma set_source_level_keeps:
  "enable (state (set_source_level irq l p)) = enable (state p)"
  "threshold (state (set_source_level irq l p)) = threshold (state p)"
  "priority (state (set_source_level irq l p)) = priority (state p)"
  by (simp_all add: set_source_level_def plic_sync_defs Let_def)

lemma set_source_level_bit:
  "k < 32 \<Longrightarrow> bit (pending (state (set_source_level irq l p))) k \<longleftrightarrow>
    (if k = unat irq then l else bit (pending (state p)) k)"
proof -
  assume "k < 32"
  moreover have "irq \<ge> 32 \<longleftrightarrow> unat irq \<ge> 32" by (simp add: word_le_nat_alt)
  ultimately show ?thesis
    by (auto simp: set_source_level_def plic_sync_defs Let_def bit_simps)
qed

lemma virtio_levels_keeps:
  "enable (state (virtio_levels vops i ds p)) = enable (state p)"
  "threshold (state (virtio_levels vops i ds p)) = threshold (state p)"
  "priority (state (virtio_levels vops i ds p)) = priority (state p)"
  "plic_inv p \<Longrightarrow> plic_inv (virtio_levels vops i ds p)"
  by (induction ds arbitrary: i p) (simp_all add: Let_def set_source_level_keeps plic_other_inv)

lemma virtio_levels_bit:
  assumes "k < 32" "i + length ds < 2 ^ 31"
  shows "bit (pending (state (virtio_levels vops i ds p))) k \<longleftrightarrow>
    (if i < k \<and> k \<le> i + length ds then v_is_interrupting vops (ds ! (k - i - 1)) else bit (pending (state p)) k)"
  using assms(2)
proof (induction ds arbitrary: i p)
  case (Cons d ds)
  have irq: "unat (VIRTIO0_IRQ + word_of_nat i) = Suc i"
    using Cons.prems by (simp add: unat_word_ariths unat_of_nat)
  then have "VIRTIO0_IRQ + word_of_nat i < 32 \<longleftrightarrow> Suc i < 32" by (simp add: word_less_nat_alt)
  then show ?case
    using Cons.IH [of "Suc i"] Cons.prems assms(1) irq
    by (auto simp: Let_def set_source_level_bit nth_Cons' Suc_diff_Suc le_less_Suc_eq)
qed auto

lemma bit_flag: "bit (if b then shl 1 k else 0 :: u64) n \<longleftrightarrow> b \<and> n = k \<and> k < 64"
  by (auto simp: bit_simps)

text \<open>C31: the interrupt word of a hart has exactly the machine software bit (3), the machine timer bit (7),
  the supervisor external bit (9) and the machine external bit (11), each set if and only if its source
  is up; the timer is compared after hart 0's poll has advanced the clock.\<close>

theorem sb_interrupt_word:
  assumes "plic_inv (sb_plic s)" "hart < MAX_HARTS" "length (sb_virtio s) < 2 ^ 31"
    and "sb_check_interrupts_for_hart vops hart s = (mip, s')"
  shows "bit mip n \<longleftrightarrow>
    n = 3 \<and> bit (msip (sb_clint s') hart) 0 \<or>
    n = 7 \<and> mtime (sb_clint s') \<ge> mtimecmp (sb_clint s') hart \<or>
    n = 9 \<and> context_line vops s (2 * hart + 1) \<or>
    n = 11 \<and> context_line vops s (2 * hart)"
proof -
  define p where "p = virtio_levels vops 0 (sb_virtio s) (set_source_level UART_IRQ (is_interrupting (sb_uart s)) (sb_plic s))"
  have inv: "plic_inv p" using assms(1) by (simp add: p_def virtio_levels_keeps plic_other_inv)
  have bits: "bit (pending (state p)) i \<longleftrightarrow> source_line vops s i" if "i \<in> {1..31}" for i
    using that assms(3)
    by (auto simp: p_def virtio_levels_bit set_source_level_bit source_line_def)
  have ctx: "is_interrupt_pending_for_fast p c \<longleftrightarrow> context_line vops s c" if "c < NUM_CONTEXTS" for c
    unfolding fast_check_eq [OF inv that] context_line_def using bits
    by (simp add: p_def virtio_levels_keeps set_source_level_keeps)
  have c: "s_context hart < NUM_CONTEXTS" "m_context hart < NUM_CONTEXTS"
    using assms(2) by (simp_all add: s_context_def m_context_def NUM_CONTEXTS_def)
  define cl where "cl = (if hart = 0 then tick (sb_clint s) else sb_clint s)"
  have "sb_clint s' = cl" and mip: "mip = (if bit (msip cl hart) 0 then shl 1 3 else 0) OR (if mtime cl \<ge> mtimecmp cl hart then shl 1 7 else 0)
      OR (if context_line vops s (s_context hart) then shl 1 9 else 0) OR (if context_line vops s (m_context hart) then shl 1 11 else 0)"
    using assms(2,4) ctx [OF c(1)] ctx [OF c(2)]
    unfolding sb_check_interrupts_for_hart_def Let_def p_def [symmetric] cl_def [symmetric] clint_check_interrupts_def
    by (auto simp: and_1_iff split: if_splits)
  then show ?thesis
    unfolding mip bit_or_iff bit_flag by (auto simp: s_context_def m_context_def mult.commute)
qed

theorem sb_interrupt_word_witness:
  "bit (fst (sb_check_interrupts_for_hart rng_ops 0 (system_bus_new DRAM_BASE 4096\<lparr> sb_plic := example_plic \<rparr>))) 9"
proof -
  let ?s = "(system_bus_new DRAM_BASE 4096 :: virtio_regs system_bus)\<lparr> sb_plic := example_plic \<rparr>"
  have "plic_inv (sb_plic ?s)"
    unfolding example_plic_def by (simp, intro plic_store_inv plic_other_inv)
  moreover have "0 < MAX_HARTS" and len: "length (sb_virtio ?s) = 0"
    by (simp_all add: MAX_HARTS_def system_bus_new_def)
  ultimately have "bit (fst (sb_check_interrupts_for_hart rng_ops 0 ?s)) 9 \<longleftrightarrow> context_line rng_ops ?s 1"
    using sb_interrupt_word [of ?s 0 rng_ops "fst (sb_check_interrupts_for_hart rng_ops 0 ?s)"
        "snd (sb_check_interrupts_for_hart rng_ops 0 ?s)" 9] by simp
  moreover have "bit (pending (state example_plic)) 5" "bit (enable (state example_plic) 1) 5"
    "priority (state example_plic) 5 > threshold (state example_plic) 1" by code_simp+
  then have "context_line rng_ops ?s 1"
    unfolding context_line_def by (intro bexI [of _ 5]) (use len in \<open>simp_all add: source_line_def\<close>)
  ultimately show ?thesis by simp
qed

subsection \<open>Address translation on the system bus\<close>

definition sb_ram :: "'d system_bus \<Rightarrow> u64 \<Rightarrow> bool" where
  "sb_ram s a \<longleftrightarrow> on_ram 8 s a"

definition sb_view :: "'d system_bus \<Rightarrow> u64 \<Rightarrow> u64" where
  "sb_view s a = le_read 8 (dram_data (sb_dram s)) (unat (a - dram_base (sb_dram s)))"

lemma on_ram_disjoint:
  assumes "on_ram 8 s a" "on_ram 8 s a'" "a \<noteq> a'"
  shows "unat (a - dram_base (sb_dram s)) + 8 \<le> unat (a' - dram_base (sb_dram s)) \<or>
    unat (a' - dram_base (sb_dram s)) + 8 \<le> unat (a - dram_base (sb_dram s))"
proof -
  have sep: "x + 8 \<le> y \<or> y + 8 \<le> x" if "x mod 8 = 0" "y mod 8 = 0" "x \<noteq> y" for x y :: nat
    using that by presburger
  have "a - dram_base (sb_dram s) \<noteq> a' - dram_base (sb_dram s)" using assms(3) by simp
  then show ?thesis using assms(1,2) by (intro sep) (simp_all add: on_ram_def in_range_def)
qed

interpretation sb_mem: pt_memory "sys_ops vops" sb_ram sb_view for vops :: "'d virtio_ops"
proof
  fix a v r and b b' :: "'d system_bus"
  assume ram: "sb_ram b a"
  then have on: "on_ram 8 b a" by (simp add: sb_ram_def)
  show "bus_read64 (sys_ops vops) a b = (Ok (sb_view b a), b)"
    using ram_load [OF _ on, of vops] by (simp add: bus_load_def sb_view_def)
  assume "bus_write64 (sys_ops vops) a v b = (r, b')"
  then have b': "r = Ok ()" "b' = b\<lparr> sb_dram := (sb_dram b)\<lparr> dram_data :=
       le_write 8 v (dram_data (sb_dram b)) (unat (a - dram_base (sb_dram b))) \<rparr> \<rparr>"
    using ram_store [OF _ on, of vops v] by (simp_all add: bus_store_def)
  have "sb_ram b' = sb_ram b" by (simp add: b'(2) sb_ram_def on_ram_def fun_eq_iff)
  moreover have "sb_view b' a' = (if a' = a then v else sb_view b a')" if "sb_ram b a'" for a'
    using on_ram_disjoint [OF on, of a'] that
    by (auto simp: b'(2) sb_view_def sb_ram_def le_read_write le_read_write_disjoint take_bit_word_eq_self)
  ultimately show "r = Ok () \<and> sb_ram b' = sb_ram b \<and>
      (\<forall>a'. sb_ram b a' \<longrightarrow> sb_view b' a' = (if a' = a then v else sb_view b a'))"
    using b'(1) by simp
qed

text \<open>C3: translation on the system bus, with its TLB and its updates of the accessed and dirty bits,
  returns what a walk of the page tables alone returns: as long as the tables are in DRAM and the TLB
  holds only leaves of the current tables, the result is that of the specification, and both
  conditions on the state hold again afterwards.\<close>

theorem sb_translate_refines:
  assumes "sb_mem.coherent satp t s" "sb_mem.walk_in_ram satp addr s"
    and "translate (sys_ops vops) mode satp mstatus addr access (t, s) = (r, t', s')"
  shows "r = translate_spec (sb_ram s) (sb_view s) mode satp mstatus addr access \<and>
    sb_mem.coherent satp t' s' \<and> sb_ram s' = sb_ram s \<and> same_tables (sb_ram s) (sb_view s) (sb_view s')"
  by (rule sb_mem.translate_refines [OF assms])

definition example_bus :: "virtio_regs system_bus" where
  "example_bus = (system_bus_new DRAM_BASE 4096)\<lparr> sb_dram := (dram_new DRAM_BASE 4096)\<lparr> dram_data := le_write 8 0x200000CF (\<lambda>_. 0) 0 \<rparr> \<rparr>"

theorem sb_translate_refines_witness:
  "fst (translate (sys_ops rng_ops) Supervisor 0x8000000000080000 0 0x123 LoadAccess (tlb_new, example_bus)) = Ok 0x80000123"
proof -
  have "tlb_flush tlb_new = tlb_new" by (simp add: tlb_flush_def tlb_new_def tlb_entry_EMPTY_def)
  then have coh: "sb_mem.coherent 0x8000000000080000 tlb_new example_bus" by (metis sb_mem.coherent_empty)
  have view: "sb_view example_bus 0x80000000 = 0x200000CF"
    by (simp add: sb_view_def example_bus_def dram_new_def DRAM_BASE_def le_read_write)
  have ram: "sb_ram example_bus 0x80000000"
    by (simp add: sb_ram_def example_bus_def dram_new_def DRAM_BASE_def on_ram_def in_range_def)
  have root: "root_of 0x8000000000080000 = 0x80000000" "vpn_of 3 0x123 = 0" by code_simp+
  have lw: "leaf_walk (sb_ram example_bus) (sb_view example_bus) 0 3 0x80000000 = Leaf 0x80000000 0x200000CF 2"
    using view ram unfolding numeral_3_eq_3 leaf_walk.simps Let_def by simp
  have sl: "satp_levels 0x8000000000080000 = Some (3, 39)" by code_simp
  have wr: "sb_mem.walk_in_ram 0x8000000000080000 0x123 example_bus"
    using sl lw root by (simp add: sb_mem.walk_in_ram_def)
  obtain r t' s' where tr: "translate (sys_ops rng_ops) Supervisor 0x8000000000080000 0 0x123 LoadAccess
      (tlb_new, example_bus) = (r, t', s')" by (rule prod_cases3) (rule that)
  note r = sb_translate_refines [OF coh wr tr, THEN conjunct1]
  have "\<not> bit (0x123 :: u64) n" if "39 \<le> n" for n
    by (rule bit_less_2p [OF _ _ that]) simp_all
  then have "canonical 39 0x123" unfolding canonical_def by simp
  moreover have "access_ok Supervisor 0 True True True False LoadAccess" by (simp add: access_ok_def)
  moreover have "aligned_leaf 0x200000CF 2" by (simp add: aligned_leaf_def pte_ppn_def mask_numeral)
  moreover have "shl (frame_of 0x200000CF 2 0) 12 OR (0x123 AND 0xFFF) = 0x80000123"
    by (simp add: frame_of_def pte_ppn_def mask_eq_exp_minus_1)
  ultimately have "translate_spec (sb_ram example_bus) (sb_view example_bus) Supervisor 0x8000000000080000 0 0x123 LoadAccess =
      Ok 0x80000123"
    using sl root lw by (simp add: translate_spec_def)
  then show ?thesis using tr r by (simp only: fst_conv)
qed

end
