(* ===== verification/Rv_Machine.thy ===== *)
theory Rv_Machine
  imports Rv_Block_Exec Rv_System_Bus_Spec
begin

text \<open>
  The CPU on a bus: the invariant of the machine and that \<open>step\<close> keeps it and never panics.

  \<open>cpu_inv\<close> says that register 0 holds 0, that every entry of the decode cache is what the decoder
  returns, and that the block cache is well formed: its blocks have at most 64 micro-operations, whose
  register numbers are below 32, so that the indexing of the register array is in range.  The lemmas are
  proved on any bus that satisfies the laws of \<open>safe_bus\<close>, and then hold on the system bus with its
  devices.
\<close>

unbundle bit_operations_syntax

subsection \<open>Register numbers of micro-operations\<close>

primrec micro_regs :: "micro_op \<Rightarrow> u8 list" where
  "micro_regs (Addi a b _) = [a, b]"
| "micro_regs (Xori a b _) = [a, b]"
| "micro_regs (Ori a b _) = [a, b]"
| "micro_regs (Andi a b _) = [a, b]"
| "micro_regs (Slti a b _) = [a, b]"
| "micro_regs (Sltiu a b _) = [a, b]"
| "micro_regs (Slli a b _) = [a, b]"
| "micro_regs (Srli a b _) = [a, b]"
| "micro_regs (Srai a b _) = [a, b]"
| "micro_regs (Add a b c) = [a, b, c]"
| "micro_regs (Sub a b c) = [a, b, c]"
| "micro_regs (Xor a b c) = [a, b, c]"
| "micro_regs (Or a b c) = [a, b, c]"
| "micro_regs (And a b c) = [a, b, c]"
| "micro_regs (Sll a b c) = [a, b, c]"
| "micro_regs (Srl a b c) = [a, b, c]"
| "micro_regs (Sra a b c) = [a, b, c]"
| "micro_regs (Slt a b c) = [a, b, c]"
| "micro_regs (Sltu a b c) = [a, b, c]"
| "micro_regs (Addiw a b _) = [a, b]"
| "micro_regs (Slliw a b _) = [a, b]"
| "micro_regs (Srliw a b _) = [a, b]"
| "micro_regs (Sraiw a b _) = [a, b]"
| "micro_regs (Addw a b c) = [a, b, c]"
| "micro_regs (Subw a b c) = [a, b, c]"
| "micro_regs (Sllw a b c) = [a, b, c]"
| "micro_regs (Srlw a b c) = [a, b, c]"
| "micro_regs (Sraw a b c) = [a, b, c]"
| "micro_regs (Mul a b c) = [a, b, c]"
| "micro_regs (Mulh a b c) = [a, b, c]"
| "micro_regs (Mulhsu a b c) = [a, b, c]"
| "micro_regs (Mulhu a b c) = [a, b, c]"
| "micro_regs (Div a b c) = [a, b, c]"
| "micro_regs (Divu a b c) = [a, b, c]"
| "micro_regs (Rem a b c) = [a, b, c]"
| "micro_regs (Remu a b c) = [a, b, c]"
| "micro_regs (Mulw a b c) = [a, b, c]"
| "micro_regs (Divw a b c) = [a, b, c]"
| "micro_regs (Divuw a b c) = [a, b, c]"
| "micro_regs (Remw a b c) = [a, b, c]"
| "micro_regs (Remuw a b c) = [a, b, c]"
| "micro_regs (micro_op.Lui a _) = [a]"
| "micro_regs (micro_op.Auipc a _ _) = [a]"
| "micro_regs (Lb a b _ _) = [a, b]"
| "micro_regs (Lbu a b _ _) = [a, b]"
| "micro_regs (Lh a b _ _) = [a, b]"
| "micro_regs (Lhu a b _ _) = [a, b]"
| "micro_regs (Lw a b _ _) = [a, b]"
| "micro_regs (Lwu a b _ _) = [a, b]"
| "micro_regs (Ld a b _ _) = [a, b]"
| "micro_regs (Sb a b _ _) = [a, b]"
| "micro_regs (Sh a b _ _) = [a, b]"
| "micro_regs (Sw a b _ _) = [a, b]"
| "micro_regs (Sd a b _ _) = [a, b]"
| "micro_regs (micro_op.Jal a _ _ _) = [a]"
| "micro_regs (micro_op.Jalr a b _ _ _) = [a, b]"
| "micro_regs (Beq a b _ _ _) = [a, b]"
| "micro_regs (Bne a b _ _ _) = [a, b]"
| "micro_regs (Blt a b _ _ _) = [a, b]"
| "micro_regs (Bge a b _ _ _) = [a, b]"
| "micro_regs (Bltu a b _ _ _) = [a, b]"
| "micro_regs (Bgeu a b _ _ _) = [a, b]"
| "micro_regs (Ecall _) = []"
| "micro_regs (Ebreak _) = []"
| "micro_regs (Csrrw a b _ _) = [a, b]"
| "micro_regs (Csrrs a b _ _) = [a, b]"
| "micro_regs (Csrrc a b _ _) = [a, b]"
| "micro_regs (Csrrwi a _ _ _) = [a]"
| "micro_regs (Csrrsi a _ _ _) = [a]"
| "micro_regs (Csrrci a _ _ _) = [a]"
| "micro_regs (Mret _) = []"
| "micro_regs (Sret _) = []"
| "micro_regs (Wfi _) = []"
| "micro_regs (SfenceVma _) = []"
| "micro_regs micro_op.Fence = []"
| "micro_regs (LrW a b _) = [a, b]"
| "micro_regs (LrD a b _) = [a, b]"
| "micro_regs (ScW a b c _) = [a, b, c]"
| "micro_regs (ScD a b c _) = [a, b, c]"
| "micro_regs (AmoSwap a b c _ _) = [a, b, c]"
| "micro_regs (AmoAdd a b c _ _) = [a, b, c]"
| "micro_regs (AmoXor a b c _ _) = [a, b, c]"
| "micro_regs (AmoAnd a b c _ _) = [a, b, c]"
| "micro_regs (AmoOr a b c _ _) = [a, b, c]"
| "micro_regs (AmoMin a b c _ _) = [a, b, c]"
| "micro_regs (AmoMax a b c _ _) = [a, b, c]"
| "micro_regs (AmoMinu a b c _ _) = [a, b, c]"
| "micro_regs (AmoMaxu a b c _ _) = [a, b, c]"

definition micro_ok :: "micro_op \<Rightarrow> bool" where
  "micro_ok m \<longleftrightarrow> list_all (\<lambda>r. r < 32) (micro_regs m)"

lemma reg8_bound [simp]: "reg8 r < 32"
  by (cases r) (simp_all add: reg8_def word_less_nat_alt)

lemma transcode_ok: "micro_ok (transcode d off len)"
  by (cases d)
    (simp_all add: micro_ok_def transcode_branch_def transcode_load_def transcode_store_def transcode_op_imm_def
      transcode_op_def transcode_op_imm32_def transcode_op32_def transcode_system_def transcode_amo_def Let_def)

subsection \<open>The invariant\<close>

definition blk_wf :: "block \<Rightarrow> bool" where
  "blk_wf b \<longleftrightarrow> unat (blk_len b) \<le> MAX_BLOCK_SIZE \<and> list_all micro_ok (ops_slice b)"

definition decode_ok :: "(nat \<Rightarrow> (u64 \<times> u32 \<times> op) option) \<Rightarrow> bool" where
  "decode_ok dc \<longleftrightarrow> (\<forall>i pc raw d. dc i = Some (pc, raw, d) \<longrightarrow> decode raw = Ok d)"

definition blocks_ok :: "block_cache \<Rightarrow> bool" where
  "blocks_ok bc \<longleftrightarrow> cache_inv bc \<and> list_all (\<lambda>(_, b). blk_wf b) (blocks bc)"

definition cpu_inv :: "cpu \<Rightarrow> bool" where
  "cpu_inv c \<longleftrightarrow> regs c 0 = 0 \<and> decode_ok (decode_cache c) \<and> blocks_ok (cpu_block_cache c)"

definition machine_inv :: "('b \<Rightarrow> bool) \<Rightarrow> 'b machine \<Rightarrow> bool" where
  "machine_inv binv s \<longleftrightarrow> cpu_inv (fst s) \<and> binv (snd s)"

lemma cpu_inv_simps [simp]:
  "cpu_inv (c\<lparr> cpu_pc := pc \<rparr>) = cpu_inv c" "cpu_inv (c\<lparr> reservation := r \<rparr>) = cpu_inv c"
  "cpu_inv (c\<lparr> csrs := f \<rparr>) = cpu_inv c" "cpu_inv (c\<lparr> cpu_mode := m \<rparr>) = cpu_inv c"
  "cpu_inv (c\<lparr> cpu_tlb := t \<rparr>) = cpu_inv c" "cpu_inv (c\<lparr> poll_counter := n \<rparr>) = cpu_inv c"
  "cpu_inv (put_csr a v c) = cpu_inv c"
  by (simp_all add: cpu_inv_def put_csr_def)

lemma to_usize_0 [simp]: "to_usize r = 0 \<longleftrightarrow> r = X0"
  by (cases r) simp_all

lemma cpu_inv_write_reg [simp]: "cpu_inv c \<Longrightarrow> cpu_inv (write_reg r v c)"
  by (simp add: cpu_inv_def write_reg_def)

lemma cpu_inv_set_at [simp]: "cpu_inv c \<Longrightarrow> cpu_inv (set_at r v c)"
  by (simp add: cpu_inv_def set_at_def unat_eq_0)

lemma cpu_inv_clear_reservation [simp]: "cpu_inv c \<Longrightarrow> cpu_inv (clear_reservation_if_conflict a c)"
  by (simp add: clear_reservation_if_conflict_def split: option.split)

lemma cpu_inv_flush [simp]: "cpu_inv c \<Longrightarrow> cpu_inv (flush_translations c)"
  by (simp add: flush_translations_def invalidate_decode_cache_def cpu_inv_def decode_ok_def)

lemma cpu_inv_decode_insert [simp]:
  "cpu_inv c \<Longrightarrow> decode raw = Ok d \<Longrightarrow> cpu_inv (decode_cache_insert pc raw d c)"
  by (auto simp: decode_cache_insert_def cpu_inv_def decode_ok_def)

lemma cpu_inv_returns [simp]: "cpu_inv c \<Longrightarrow> cpu_inv (mret c)" "cpu_inv c \<Longrightarrow> cpu_inv (sret c)"
  by (simp_all add: mret_def sret_def Let_def)

lemma cpu_inv_new [simp]: "cpu_inv (cpu_new pc h)"
  by (simp add: cpu_new_def Let_def cpu_inv_def decode_ok_def blocks_ok_def) (simp add: block_cache_new_def)

lemma machine_inv_apfst [simp]:
  "machine_inv binv s \<Longrightarrow> (cpu_inv (fst s) \<Longrightarrow> cpu_inv (f (fst s))) \<Longrightarrow> machine_inv binv (apfst f s)"
  by (cases s) (simp add: machine_inv_def)

lemma machine_inv_pair [simp]: "machine_inv binv (c, b) \<longleftrightarrow> cpu_inv c \<and> binv b"
  by (simp add: machine_inv_def)

subsection \<open>The decoder does not panic\<close>

lemma decode_no_panic: "decode raw \<noteq> Panic"
  by (simp add: decode_def Let_def)

lemma no_panic_rules:
  "a \<noteq> Panic \<Longrightarrow> b \<noteq> Panic \<Longrightarrow> (if c then a else b) \<noteq> Panic" "Ok x \<noteq> Panic" "Err e \<noteq> Panic"
  "(\<And>x y. f x y \<noteq> Panic) \<Longrightarrow> case_prod f p \<noteq> Panic"
  by (auto split: prod.split)

lemma expand_no_panic: "expand_compressed h \<noteq> Panic"
  unfolding expand_compressed_def expand_q0_def expand_q1_def expand_q1_alu_def expand_q2_def Let_def
  by (intro no_panic_rules)

subsection \<open>Traps and the bus\<close>

lemma cpu_inv_enter [simp]: "cpu_inv (enter_s i c t p cp) = cpu_inv cp" "cpu_inv (enter_m i c t p cp) = cpu_inv cp"
  by (simp_all add: enter_s_def enter_m_def Let_def)

text \<open>The CPU after trap entry.\<close>

definition enter_trap :: "trap \<Rightarrow> u64 \<Rightarrow> cpu \<Rightarrow> cpu" where
  "enter_trap e pc c =
     (case trap_to_cause_tval e of
        Some (is_interrupt, cause, tval) \<Rightarrow>
          (if deleg_to_s c is_interrupt cause then enter_s is_interrupt cause tval pc c
           else enter_m is_interrupt cause tval pc c)
      | None \<Rightarrow> c)"

lemma handle_trap_eq: "handle_trap e pc c = (Err e, enter_trap e pc c)"
  by (simp add: handle_trap_def enter_trap_def split: option.split)

lemma trapM_eq: "trapM e pc s = (Err e, apfst (enter_trap e pc) s)"
  by (cases s) (simp add: trapM_def handle_trap_eq)

lemma cpu_inv_enter_trap [simp]: "cpu_inv (enter_trap e pc c) = cpu_inv c"
  by (simp add: enter_trap_def split: option.split)

lemma trapM_safe: "machine_inv binv s \<Longrightarrow> safe (machine_inv binv) (trapM e pc s)"
  by (simp add: trapM_eq)

lemma on_bus_safe:
  assumes "machine_inv binv s" "binv (snd s) \<Longrightarrow> safe binv (f (snd s))"
  shows "safe (machine_inv binv) (on_bus f s)"
  using assms by (cases s; cases "f (snd s)") (auto simp: on_bus_def machine_inv_def safe_def)

lemma busM_safe:
  "machine_inv binv s \<Longrightarrow> (binv (snd s) \<Longrightarrow> safe binv (f (snd s))) \<Longrightarrow> safe (machine_inv binv) (busM f pc s)"
  unfolding busM_def by (rule safe_matchS [OF on_bus_safe]) (auto simp: trapM_eq)

lemma safe_apfst_map: "safe I m \<Longrightarrow> safe I (apfst (map_result f g) m)"
  by (erule safeE) simp_all

context safe_bus
begin

lemma walk_leaf_safe:
  "inv b \<Longrightarrow> safe (\<lambda>s. inv (snd s)) (walk_leaf ops m mst a ac v asid pa pte i (t, b))"
  unfolding walk_leaf_def using store_safe [of b pa 8]
  by (auto simp: Let_def safe_def split: prod.splits result.splits if_splits) (metis fst_conv snd_conv)+

lemma walk_safe:
  "inv b \<Longrightarrow> safe (\<lambda>s. inv (snd s)) (walk ops m mst a ac v asid n r (t, b))"
proof (induction n arbitrary: r b)
  case (Suc n)
  define pa where "pa = r + (shr a (12 + 9 * n) AND 0x1FF) * 8"
  from load_safe [OF Suc.prems, of pa 8] show ?case
    by (rule safeE) (use Suc.IH walk_leaf_safe in \<open>auto simp: Let_def pa_def [symmetric]\<close>)
qed simp

lemma translate_safe:
  assumes "inv (snd s)"
  shows "safe (\<lambda>s. inv (snd s)) (translate ops m satp mst a ac s)"
proof -
  have "safe (\<lambda>s. inv (snd s)) (walk ops m mst a ac v asid n r s)" for v asid n r
    using walk_safe [of "snd s" m mst a ac v asid n r "fst s"] assms by simp
  then show ?thesis using assms by (auto simp: translate_def Let_def split: option.split)
qed

lemma translate_addr_safe:
  assumes "machine_inv inv s"
  shows "safe (machine_inv inv) (translate_addr ops a ac pc s)"
    "safe (machine_inv inv) (translate_addr_for_block ops a ac s)"
proof -
  obtain c b where s: "s = (c, b)" by (rule prod.exhaust)
  with assms have "safe (\<lambda>s. inv (snd s))
      (translate ops (cpu_mode c) (csr c CSR_SATP) (csr c CSR_MSTATUS) a ac (cpu_tlb c, b))"
    by (intro translate_safe) simp
  then show "safe (machine_inv inv) (translate_addr ops a ac pc s)"
    "safe (machine_inv inv) (translate_addr_for_block ops a ac s)"
    using assms by (auto simp: s translate_addr_def translate_addr_for_block_def trapM_eq elim!: safeE)
qed

lemma bus_access_safe:
  assumes "machine_inv inv s"
  shows "safe (machine_inv inv) (on_bus (bus_read8 ops a) s)" "safe (machine_inv inv) (on_bus (bus_read16 ops a) s)"
    "safe (machine_inv inv) (on_bus (bus_read32 ops a) s)" "safe (machine_inv inv) (on_bus (bus_read64 ops a) s)"
  using assms by (auto intro!: on_bus_safe access_safe)

lemma fetch_read_safe:
  "machine_inv inv s \<Longrightarrow>
    safe (machine_inv inv) (matchS (on_bus (bus_read16 ops a) s) (\<lambda>v s. (Ok v, s)) (\<lambda>e s. trapM (fetch_fault pc e) pc s) (\<lambda>s. s))"
  by (rule safe_matchS [OF bus_access_safe(2)]) (auto simp: trapM_eq)

lemma expandM_safe: "machine_inv inv s \<Longrightarrow> safe (machine_inv inv) (expandM half pc s)"
  using expand_no_panic [of half] by (cases "expand_compressed half") (simp_all add: expandM_def trapM_eq)

lemma fetch_by_halves_safe:
  "machine_inv inv s \<Longrightarrow> safe (machine_inv inv) (fetch_by_halves ops pc s)"
  unfolding fetch_by_halves_def
  by (intro safe_bindS fetch_read_safe translate_addr_safe) (auto intro!: safe_bindS fetch_read_safe translate_addr_safe expandM_safe)

lemma fetch_and_expand_safe:
  assumes "machine_inv inv s"
  shows "safe (machine_inv inv) (fetch_and_expand ops s)"
proof -
  have "safe (machine_inv inv) (matchS (on_bus (bus_read32 ops pa) s)
      (\<lambda>word s. if word AND 0x3 \<noteq> 0x3 then expandM (ucast (word AND 0xFFFF)) pc s else (Ok (word, 4), s))
      (\<lambda>_ s. fetch_by_halves ops pc s) (\<lambda>s. s))" if "machine_inv inv s" for pa pc s
    by (rule safe_matchS [OF bus_access_safe(3) [OF that]]) (auto simp: expandM_safe fetch_by_halves_safe)
  then show ?thesis
    using assms by (auto simp: fetch_and_expand_def Let_def trapM_eq intro!: safe_bindS translate_addr_safe fetch_by_halves_safe)
qed

lemma load_access_safe: "load_access ops funct3 = Some f \<Longrightarrow> inv b \<Longrightarrow> safe inv (f pa b)"
  by (auto simp: load_access_def access_safe safe_apfst_map split: if_splits)

lemma store_access_safe: "store_access ops funct3 pa v = Some f \<Longrightarrow> inv b \<Longrightarrow> safe inv (f b)"
  by (auto simp: store_access_def access_safe split: if_splits)

lemma amo_access_safe: "amo_access ops funct5 = Some f \<Longrightarrow> inv b \<Longrightarrow> safe inv (f pa v w b)"
  by (auto simp: amo_access_def atomic_safe split: if_splits)

end

subsection \<open>The arms of the interpreter\<close>

lemma jump_to_safe: "machine_inv binv s \<Longrightarrow> safe (machine_inv binv) (jump_to npc pc s)"
  by (simp add: jump_to_def trapM_eq)

lemma illegal_safe: "machine_inv binv s \<Longrightarrow> safe (machine_inv binv) (illegal raw pc s)"
  by (simp add: illegal_def trapM_eq)

lemma control_safe:
  assumes "machine_inv binv s"
  shows "safe (machine_inv binv) (exec_jal rd imm pc len s)" "safe (machine_inv binv) (exec_jalr rd rs1 imm pc len s)"
    "safe (machine_inv binv) (exec_branch rs1 rs2 imm f3 raw pc len s)" "safe (machine_inv binv) (exec_alu rd res raw pc len s)"
  using assms
  by (auto simp: exec_jal_def exec_jalr_def exec_branch_def exec_alu_def Let_def jump_to_safe illegal_safe split: option.split)

lemma cpu_inv_write_csr: "cpu_inv c \<Longrightarrow> cpu_inv (snd (cpu_write_csr a v c))"
  by (simp add: cpu_write_csr_def split: prod.split)

lemma csr_addr_bound: "unat (ucast (imm AND 0xFFF) :: u16) < storage_len" for imm :: u32
proof -
  have "(ucast (imm AND 0xFFF) :: u16) < 2 ^ 12"
    by (rule less_2p_bits) (simp_all add: bitx)
  then show ?thesis by (simp add: word_less_nat_alt)
qed

lemma exec_priv_safe: "machine_inv binv s \<Longrightarrow> safe (machine_inv binv) (exec_priv raw pc len s)"
  by (simp add: exec_priv_def Let_def illegal_safe trapM_eq)

lemma if_safe: "safe I m \<Longrightarrow> safe I n \<Longrightarrow> safe I (if P then m else n)"
  by simp

lemma safe_option: "safe I m \<Longrightarrow> (\<And>x. safe I (f x)) \<Longrightarrow> safe I (case r of None \<Rightarrow> m | Some x \<Rightarrow> f x)"
  by (simp split: option.split)

lemma safe_prod: "machine_inv binv s \<Longrightarrow> (\<And>c b. machine_inv binv (c, b) \<Longrightarrow> safe I (f c b)) \<Longrightarrow> safe I (case s of (c, b) \<Rightarrow> f c b)"
  by (cases s) simp

lemma poll_finish_safe:
  "machine_inv binv (c, b) \<Longrightarrow> safe (machine_inv binv)
    (case check_pending_interrupt (put_csr a v c) of
       Some trap \<Rightarrow> trapM trap (cpu_pc (put_csr a v c)) (put_csr a v c, b) | None \<Rightarrow> (Ok (), (put_csr a v c, b)))"
  by (simp add: trapM_eq split: option.split)

context safe_bus
begin

lemma exec_load_safe: "machine_inv inv s \<Longrightarrow> safe (machine_inv inv) (exec_load ops rd rs1 imm f3 raw pc len s)"
  by (auto simp: exec_load_def Let_def illegal_safe load_access_safe split: option.split
      intro!: safe_bindS translate_addr_safe busM_safe)

lemma exec_store_safe: "machine_inv inv s \<Longrightarrow> safe (machine_inv inv) (exec_store ops rs1 rs2 imm f3 raw pc len s)"
  unfolding exec_store_def Let_def
  by (rule safe_bindS [OF translate_addr_safe(1)])
    (auto simp: illegal_safe store_access_safe split: option.split intro!: safe_bindS busM_safe)

lemma exec_lr_safe: "machine_inv inv s \<Longrightarrow> safe (machine_inv inv) (exec_lr ops rd a pa w pc len s)"
  unfolding exec_lr_def
  by (intro safe_bindS busM_safe) (simp_all add: access_safe safe_apfst_map)

lemma exec_sc_safe: "machine_inv inv s \<Longrightarrow> safe (machine_inv inv) (exec_sc ops rd rs2 a pa w pc len s)"
  by (auto simp: exec_sc_def Let_def trapM_eq access_safe intro!: safe_bindS busM_safe)

lemma exec_amo_safe: "machine_inv inv s \<Longrightarrow> safe (machine_inv inv) (exec_amo ops rd rs1 rs2 f3 f5 raw pc len s)"
  unfolding exec_amo_def Let_def
  by (rule safe_bindS [OF translate_addr_safe(1)])
    (auto simp: illegal_safe exec_lr_safe exec_sc_safe amo_access_safe split: option.split intro!: safe_bindS busM_safe)

lemma read_time_safe: "machine_inv inv s \<Longrightarrow> safe (machine_inv inv) (read_time ops s)"
  unfolding read_time_def by (rule safe_matchS [OF bus_access_safe(4)]) simp_all

lemma exec_csr_safe:
  assumes "machine_inv inv s"
  shows "safe (machine_inv inv) (exec_csr ops rd rs1 f3 imm raw pc len s)"
proof -
  have r: "cpu_read_csr c (ucast (imm AND 0xFFF)) \<noteq> Panic" for c
    by (simp add: cpu_read_csr_def csr_no_panic csr_addr_bound)
  have w: "fst (cpu_write_csr (ucast (imm AND 0xFFF)) v c) \<noteq> Panic" for v c
    using csr_no_panic(2) [OF csr_addr_bound, of imm v "cpu_mode c" "csrs c"]
    by (cases "csr_write (ucast (imm AND 0xFFF)) v (cpu_mode c) (csrs c)") (simp add: cpu_write_csr_def)
  have rd: "safe (machine_inv inv) (if ucast (imm AND 0xFFF) = CSR_TIME then read_time ops s
      else matchS (cpu_read_csr (fst s) (ucast (imm AND 0xFFF)), s) (\<lambda>v s. (Ok v, s)) (\<lambda>e s. trapM e pc s) (\<lambda>s. s))"
    using assms r [of "fst s"] by (cases "cpu_read_csr (fst s) (ucast (imm AND 0xFFF))") (auto simp: read_time_safe trapM_eq)
  have wr: "safe (machine_inv inv) (case cpu_write_csr (ucast (imm AND 0xFFF)) v (fst s) of (r, c) \<Rightarrow>
      matchS (r, (c, snd s)) (\<lambda>_ s. (Ok (), if ucast (imm AND 0xFFF) = CSR_SATP then apfst flush_translations s else s))
        (\<lambda>e s. trapM e pc s) (\<lambda>s. s))" if "machine_inv inv s" for v s
    using that w [of v "fst s"] cpu_inv_write_csr [of "fst s" "ucast (imm AND 0xFFF)" v]
    by (cases "cpu_write_csr (ucast (imm AND 0xFFF)) v (fst s)"; cases "fst (cpu_write_csr (ucast (imm AND 0xFFF)) v (fst s))")
      (auto simp: machine_inv_def trapM_eq)
  show ?thesis
    unfolding exec_csr_def Let_def
    by (rule safe_bindS [OF rd], rule safe_bindS, rule safe_option, simp, erule wr, simp)
qed

lemma exec_op_safe: "machine_inv inv s \<Longrightarrow> safe (machine_inv inv) (exec_op ops d raw pc len s)"
  by (cases d) (simp_all add: control_safe exec_load_safe exec_store_safe exec_amo_safe exec_system_def
      exec_priv_safe exec_csr_safe illegal_safe)

lemma decode_cached_safe: "machine_inv inv s \<Longrightarrow> safe (machine_inv inv) (decode_cached pc raw s)"
  using decode_no_panic [of raw]
  by (cases "decode raw") (simp_all add: decode_cached_def trapM_eq split: option.split)

lemma step_single_inner_safe: "machine_inv inv s \<Longrightarrow> safe (machine_inv inv) (step_single_inner ops s)"
  unfolding step_single_inner_def Let_def
  by (auto split: prod.split intro!: safe_bindS fetch_and_expand_safe decode_cached_safe exec_op_safe)

lemma poll_interrupts_safe:
  assumes "machine_inv inv s"
  shows "safe (machine_inv inv) (poll_interrupts ops s)"
proof -
  obtain c b where s: "s = (c, b)" by (rule prod.exhaust)
  obtain h b1 where p: "bus_poll_interrupts_for_hart ops (unat (csr c CSR_MHARTID)) b = (h, b1)" by (rule prod.exhaust)
  have i: "machine_inv inv (c, b1)" using assms poll_safe [of b "unat (csr c CSR_MHARTID)"] by (simp add: s p)
  have time: "safe (machine_inv inv) (if P then matchS (on_bus (bus_read64 ops a) (c, b1)) (\<lambda>now s. (Ok (f now), s))
      (\<lambda>_ s. (Ok h, s)) (\<lambda>s. s) else (Ok h, (c, b1)))" for P a f
    by (rule if_safe, rule safe_matchS [OF bus_access_safe(4) [OF i]]) (use i in simp_all)
  show ?thesis
    unfolding poll_interrupts_def Let_def s prod.case p
    by (rule safe_bindS [OF time], erule safe_prod, rule poll_finish_safe)
qed

lemma count_poll_safe: "machine_inv inv s \<Longrightarrow> safe (machine_inv inv) (count_poll ops s)"
  by (simp add: count_poll_def Let_def poll_interrupts_safe)

lemma step_single_safe: "machine_inv inv s \<Longrightarrow> safe (machine_inv inv) (step_single ops s)"
  unfolding step_single_def by (auto intro!: safe_bindS count_poll_safe step_single_inner_safe)

end

subsection \<open>Compiled blocks\<close>

lemma ops_slice_push:
  assumes "block_push m n b = (True, b')"
  shows "ops_slice b' = ops_slice b @ [m]" "unat (blk_len b') = Suc (unat (blk_len b))" "unat (blk_len b') \<le> MAX_BLOCK_SIZE"
proof -
  have lt: "unat (blk_len b) < 64" and b': "blk_len b' = blk_len b + 1" "blk_ops b' = (blk_ops b)(unat (blk_len b) := m)"
    using assms by (auto simp: block_push_def MAX_BLOCK_SIZE_def split: if_splits)
  from lt have n: "unat (blk_len b + 1) = Suc (unat (blk_len b))" by (simp add: unat_word_ariths)
  show "ops_slice b' = ops_slice b @ [m]" by (simp add: ops_slice_def b' n)
  show "unat (blk_len b') = Suc (unat (blk_len b))" "unat (blk_len b') \<le> MAX_BLOCK_SIZE"
    using lt by (simp_all add: b' n MAX_BLOCK_SIZE_def)
qed

lemma block_push_keeps:
  "block_push m n b = (r, b') \<Longrightarrow> start_pc b' = start_pc b \<and> generation b' = generation b \<and> start_pa b' = start_pa b"
  by (auto simp: block_push_def split: if_splits)

lemma block_push_wf: "blk_wf b \<Longrightarrow> micro_ok m \<Longrightarrow> block_push m n b = (r, b') \<Longrightarrow> blk_wf b'"
  using ops_slice_push [of m n b b'] by (cases r) (auto simp: blk_wf_def block_push_def split: if_splits)

lemma block_new_wf: "blk_wf (block_new pc pa g)"
  by (simp add: blk_wf_def block_new_def ops_slice_def)

text \<open>The blocks a compilation may return.\<close>

definition compiled_ok :: "u64 \<Rightarrow> u32 \<Rightarrow> compile_result \<Rightarrow> bool" where
  "compiled_ok pc g r \<longleftrightarrow> (case r of CompileOk blk \<Rightarrow> blk_wf blk \<and> start_pc blk = pc \<and> generation blk = g | _ \<Rightarrow> True)"

context safe_bus
begin

lemma tlb_bus_safe:
  "inv (snd s) \<Longrightarrow> (inv (snd s) \<Longrightarrow> safe inv (f (snd s))) \<Longrightarrow> safe (\<lambda>s. inv (snd s)) (on_bus f s)"
  by (cases "f (snd s)") (auto simp: on_bus_def safe_def)

lemma read16_map_safe:
  "inv (snd s) \<Longrightarrow> safe (\<lambda>s. inv (snd s)) (apfst (map_err g) (on_bus (bus_read16 ops a) s))"
  unfolding map_err_def by (intro safe_apfst_map tlb_bus_safe read16_safe)

lemma expand_low_safe: "inv (snd s) \<Longrightarrow> safe (\<lambda>s. inv (snd s)) (expand_low h s)"
  using expand_no_panic [of h] by (cases "expand_compressed h") (simp_all add: expand_low_def)

lemma fetch_halves_safe: "inv (snd s) \<Longrightarrow> safe (\<lambda>s. inv (snd s)) (fetch_halves ops satp mst m pc pa s)"
  unfolding fetch_halves_def
  by (rule safe_bindS [OF read16_map_safe])
    (auto simp: expand_low_safe intro!: safe_bindS read16_map_safe translate_safe)

lemma fetch_insn_safe:
  assumes "inv (snd s)"
  shows "safe (\<lambda>s. inv (snd s)) (fetch_insn ops satp mst m pc s)"
proof -
  have "safe (\<lambda>s. inv (snd s)) (matchS (on_bus (bus_read32 ops pa) s)
      (\<lambda>word s. if word AND 0x3 \<noteq> 0x3 then expand_low (ucast (word AND 0xFFFF)) s else (Ok (word, 4), s))
      (\<lambda>_ s. fetch_halves ops satp mst m pc pa s) (\<lambda>s. s))" if "inv (snd s)" for pa s
    by (rule safe_matchS [OF tlb_bus_safe [OF that read32_safe]]) (auto simp: expand_low_safe fetch_halves_safe)
  then show ?thesis
    using assms by (auto simp: fetch_insn_def fetch_halves_safe intro!: safe_bindS translate_safe)
qed

text \<open>A round of the compiler keeps the block well formed.\<close>

lemma compile_round_safe:
  assumes "inv (snd s)" "blk_wf blk" "start_pc blk = p" "generation blk = g"
    and "compile_round ops satp mst m pc off blk s = (r, s')"
  shows "inv (snd s')"
    and "r \<noteq> Panic \<and> (\<forall>e. r \<noteq> Err e)"
    and "r = Ok (Inl res) \<Longrightarrow> compiled_ok p g res"
    and "r = Ok (Inr (blk', pc', off')) \<Longrightarrow> blk_wf blk' \<and> start_pc blk' = p \<and> generation blk' = g"
proof -
  have give: "compiled_ok p g (give_up blk e)" for e using assms(2-4) by (simp add: give_up_def compiled_ok_def)
  have push: "blk_wf b \<and> start_pc b = p \<and> generation b = g" if "block_push (transcode d off n) n blk = (q, b)" for d n q b
    using block_push_wf [OF assms(2) transcode_ok that] block_push_keeps [OF that] assms(3,4) by simp
  have "inv (snd s') \<and> r \<noteq> Panic \<and> (\<forall>e. r \<noteq> Err e) \<and> (r = Ok (Inl res) \<longrightarrow> compiled_ok p g res)
      \<and> (r = Ok (Inr (blk', pc', off')) \<longrightarrow> blk_wf blk' \<and> start_pc blk' = p \<and> generation blk' = g)"
    using fetch_insn_safe [OF assms(1), of satp mst m pc]
  proof (rule safeE)
    fix a s1 assume f: "fetch_insn ops satp mst m pc s = (Ok a, s1)" "inv (snd s1)"
    obtain raw n where a: "a = (raw, n)" by (rule prod.exhaust)
    show ?thesis
    proof (cases "decode raw")
      case (Ok d)
      obtain q b where pu: "block_push (transcode d off n) n blk = (q, b)" by (rule prod.exhaust)
      from push [OF pu] assms(5) f Ok show ?thesis
        unfolding compile_round_def by (auto simp: a pu Let_def compiled_ok_def split: if_splits)
    qed (use assms(5) f give decode_no_panic [of raw] in \<open>auto simp: compile_round_def a\<close>)
  next
    fix e s1 assume "fetch_insn ops satp mst m pc s = (Err e, s1)" "inv (snd s1)"
    then show ?thesis using assms(5) give by (auto simp: compile_round_def)
  qed
  then show "inv (snd s')" "r \<noteq> Panic \<and> (\<forall>e. r \<noteq> Err e)" "r = Ok (Inl res) \<Longrightarrow> compiled_ok p g res"
    "r = Ok (Inr (blk', pc', off')) \<Longrightarrow> blk_wf blk' \<and> start_pc blk' = p \<and> generation blk' = g"
    by blast+
qed

lemma compile_loop_safe:
  "inv (snd s) \<Longrightarrow> blk_wf blk \<Longrightarrow> start_pc blk = p \<Longrightarrow> generation blk = g \<Longrightarrow>
    \<exists>res s'. compile_loop ops satp mst m pc off blk s = (Ok res, s') \<and> inv (snd s') \<and> compiled_ok p g res"
proof (induction "65 - unat (blk_len blk)" arbitrary: pc off blk s rule: less_induct)
  case less
  obtain r s1 where r: "compile_round ops satp mst m pc off blk s = (r, s1)" by (rule prod.exhaust)
  note post = compile_round_safe [OF less.prems r]
  show ?case
  proof (cases r)
    case (Ok x)
    show ?thesis
    proof (cases x)
      case (Inl res)
      then show ?thesis using post(1,3) Ok r by (subst compile_loop.simps) simp
    next
      case (Inr y)
      obtain blk' pc' off' where y: "y = (blk', pc', off')" by (rule prod_cases3)
      have "65 - unat (blk_len blk') < 65 - unat (blk_len blk)"
        using r Ok Inr y by (intro compile_round_measure) simp
      then show ?thesis
        using less.hyps [of blk' s1 pc' off'] post(1,4) Ok Inr y r by (subst compile_loop.simps) simp
    qed
  qed (use post(2) in auto)
qed

lemma compile_safe:
  assumes "inv (snd s)"
  shows "\<exists>res s'. compile ops satp mst m pc g s = (Ok res, s') \<and> inv (snd s') \<and> compiled_ok pc g res"
  using translate_safe [OF assms, of m satp mst pc Instruction]
proof (rule safeE)
  fix pa s1 assume "translate ops m satp mst pc Instruction s = (Ok pa, s1)" "inv (snd s1)"
  then show ?thesis
    using compile_loop_safe [of s1 "block_new pc pa g" pc g satp mst m pc 0] block_new_wf [of pc pa g]
    by (simp add: compile_def) (simp add: block_new_def)
qed (simp add: compile_def compiled_ok_def)

end

subsection \<open>Blocks and steps\<close>

lemma simple_steps_safe:
  "machine_inv binv s \<Longrightarrow> safe (machine_inv binv) (alu_step rd v s)"
  "machine_inv binv s \<Longrightarrow> safe (machine_inv binv) (branch_step t imm pc len s)"
  "machine_inv binv s \<Longrightarrow> safe (machine_inv binv) (exit_step pc off s)"
  by (simp_all add: alu_step_def branch_step_def exit_step_def)

lemma blocks_ok_get:
  "blocks_ok bc \<Longrightarrow> cache_get pc bc = (r, bc') \<Longrightarrow>
    blocks_ok bc' \<and> (\<forall>b. r = Some b \<longrightarrow> blk_wf b) \<and> cache_generation bc' = cache_generation bc"
  using cache_get_keeps(2) [of pc bc]
  by (auto simp: blocks_ok_def cache_get_def list_all_iff split: option.splits if_splits dest!: map_of_SomeD)

lemma evict_cold_sub: "set (blocks (evict_cold iter bc)) \<subseteq> set (blocks bc)"
  using set_fold_delete [of "cold_keys (blocks bc) (length (blocks bc) div 4) (iter (map fst (blocks bc))) []" "blocks bc"]
  by (auto simp: evict_cold_def Let_def)

lemma blocks_ok_insert:
  assumes "blocks_ok bc" "blk_wf blk" "generation blk = cache_generation bc"
  shows "blocks_ok (cache_insert iter blk bc)"
proof -
  have "set (blocks (make_room iter bc)) \<subseteq> set (blocks bc)" by (simp add: make_room_def evict_cold_sub)
  then have "set (blocks (cache_insert iter blk bc)) \<subseteq> insert (start_pc blk, blk) (set (blocks bc))"
    using set_update_sub [of "start_pc blk" blk "blocks (make_room iter bc)"] by (auto simp: cache_insert_alt)
  then show ?thesis using assms cache_insert_inv by (auto simp: blocks_ok_def list_all_iff)
qed

lemma blk_wf_count [simp]: "blk_wf (count_exec b) = blk_wf b"
  by (simp add: blk_wf_def ops_slice_def)

lemma blocks_ok_count:
  assumes "blocks_ok bc"
  shows "blocks_ok (cache_update count_exec pc bc)"
proof (cases "map_of (blocks bc) pc")
  case (Some b)
  then have "blk_wf b" using assms by (auto simp: blocks_ok_def list_all_iff dest!: map_of_SomeD)
  then show ?thesis
    using assms Some set_update_sub [of pc "count_exec b" "blocks bc"] cache_update_inv(1) [of bc count_exec pc]
    by (auto simp: blocks_ok_def list_all_iff cache_update_def)
qed (use assms in \<open>simp add: cache_update_def\<close>)

text \<open>The outcome of \<open>try_execute_block\<close>.\<close>

definition try_safe :: "('s \<Rightarrow> bool) \<Rightarrow> ('a, 'e) result option \<times> 's \<Rightarrow> bool" where
  "try_safe I m \<longleftrightarrow> I (snd m) \<and> fst m \<noteq> Some Panic"

lemma try_safe_Some [simp]: "try_safe I (apfst Some m) = safe I m" "try_safe I (None, s) = I s"
  by (auto simp: try_safe_def safe_def)

lemma cpu_inv_bump [simp]: "cpu_inv c \<Longrightarrow> cpu_inv (bump_exec_count pc c)"
  by (simp add: cpu_inv_def bump_exec_count_def blocks_ok_count)

context safe_bus
begin

lemma load_step_safe:
  assumes "machine_inv inv s" "\<And>pa b. inv b \<Longrightarrow> safe inv (f pa b)"
  shows "safe (machine_inv inv) (load_step ops f rd a pc s)"
  unfolding load_step_def
  by (rule safe_matchS [OF translate_addr_safe(2) [OF assms(1)]], rule safe_matchS [OF on_bus_safe]) (auto simp: assms(2))

lemma store_step_safe:
  assumes "machine_inv inv s" "\<And>pa b. inv b \<Longrightarrow> safe inv (f pa b)"
  shows "safe (machine_inv inv) (store_step ops f a pc s)"
  unfolding store_step_def
  by (rule safe_matchS [OF translate_addr_safe(2) [OF assms(1)]], rule safe_matchS [OF on_bus_safe]) (auto simp: assms(2))

lemma exec_micro_safe: "machine_inv inv s \<Longrightarrow> safe (machine_inv inv) (exec_micro ops bpc m s)"
  by (cases m) (simp_all add: simple_steps_safe load_step_safe store_step_safe access_safe safe_apfst_map Let_def)

lemma exec_micros_safe: "machine_inv inv s \<Longrightarrow> safe (machine_inv inv) (exec_micros ops bpc ms s)"
proof (induction ms arbitrary: s)
  case (Cons m ms)
  show ?case
    unfolding exec_micros.simps
    by (rule safe_bindS [OF exec_micro_safe [OF Cons.prems]]) (auto simp: Cons.IH split: option.split)
qed simp

lemma execute_block_safe: "machine_inv inv s \<Longrightarrow> safe (machine_inv inv) (execute_block_inner ops blk s)"
  unfolding execute_block_inner_def by (rule safe_bindS [OF exec_micros_safe]) simp_all

lemma handle_block_result_safe: "machine_inv inv s \<Longrightarrow> safe (machine_inv inv) (handle_block_result ops res s)"
  by (cases res) (simp_all add: handle_block_result_def trapM_eq step_single_safe)

lemma run_block_safe:
  assumes "machine_inv inv s" "\<And>c. cpu_inv c \<Longrightarrow> cpu_inv (f c)"
  shows "safe (machine_inv inv) (bindS (execute_block_inner ops blk s) (\<lambda>res s. handle_block_result ops res (apfst f s)))"
  by (rule safe_bindS [OF execute_block_safe [OF assms(1)]]) (simp add: handle_block_result_safe assms(2))

lemma try_execute_block_safe:
  assumes "machine_inv inv s"
  shows "try_safe (machine_inv inv) (try_execute_block iter ops s)"
proof -
  obtain c b where s: "s = (c, b)" by (rule prod.exhaust)
  obtain r bc where g: "cache_get (cpu_pc c) (cpu_block_cache c) = (r, bc)" by (rule prod.exhaust)
  have ok: "blocks_ok (cpu_block_cache c)" using assms by (simp add: s cpu_inv_def)
  note got = blocks_ok_get [OF ok g]
  then have c1: "cpu_inv (c\<lparr> cpu_block_cache := bc \<rparr>)" using assms by (simp add: s cpu_inv_def)
  show ?thesis
  proof (cases r)
    case (Some blk)
    then show ?thesis
      using run_block_safe [of "(c\<lparr> cpu_block_cache := bc \<rparr>, b)" "bump_exec_count (cpu_pc c)" blk] c1 assms
      by (simp add: try_execute_block_def Let_def s g)
  next
    case None
    have "inv (snd (cpu_tlb c, b))" using assms by (simp add: s)
    from compile_safe [OF this, of "csr c CSR_SATP" "csr c CSR_MSTATUS" "cpu_mode c" "cpu_pc c" "cache_generation bc"]
    obtain res t b' where comp: "compile ops (csr c CSR_SATP) (csr c CSR_MSTATUS) (cpu_mode c) (cpu_pc c) (cache_generation bc) (cpu_tlb c, b)
        = (Ok res, t, b')" "inv b'" "compiled_ok (cpu_pc c) (cache_generation bc) res" by auto
    let ?c = "c\<lparr> cpu_block_cache := bc, cpu_tlb := t \<rparr>"
    have csr: "csr (c\<lparr> cpu_block_cache := bc \<rparr>) a = csr c a" for a by (simp add: csr_def)
    show ?thesis
    proof (cases res)
      case (CompileOk blk)
      then have "cpu_inv (c\<lparr> cpu_tlb := t, cpu_block_cache := cache_insert iter blk bc \<rparr>)"
        using assms comp(3) got by (simp add: s cpu_inv_def compiled_ok_def blocks_ok_insert)
      then show ?thesis
        using run_block_safe [of "(c\<lparr> cpu_tlb := t, cpu_block_cache := cache_insert iter blk bc \<rparr>, b')" id blk] comp(1,2) None CompileOk
        by (simp add: try_execute_block_def Let_def s g csr)
    qed (use comp c1 None in \<open>simp_all add: try_execute_block_def Let_def s g csr trapM_safe\<close>)
  qed
qed

lemma step_safe:
  assumes "machine_inv inv s"
  shows "safe (machine_inv inv) (step iter ops s)"
  unfolding step_def
proof (rule safe_bindS [OF count_poll_safe [OF assms]])
  fix u s1 assume i: "machine_inv inv s1"
  obtain r s2 where t: "try_execute_block iter ops s1 = (r, s2)" by (rule prod.exhaust)
  with try_execute_block_safe [OF i, of iter]
  show "safe (machine_inv inv) (if use_blocks (fst s1) then
      (case try_execute_block iter ops s1 of (Some r, s) \<Rightarrow> (r, s) | (None, s) \<Rightarrow> step_single_inner ops s)
      else step_single_inner ops s1)"
    using i step_single_inner_safe by (cases r) (auto simp: try_safe_def safe_def)
qed

end

subsection \<open>Reachable states\<close>

text \<open>The states of a machine with entropy and network devices: from reset, by steps of the hart, by console input and
  frames pushed by the host, by polls of the devices, and by the host switching the block engine on or off.\<close>

inductive reachable :: "(u64 list \<Rightarrow> u64 list) \<Rightarrow> vdevice system_bus machine \<Rightarrow> bool" for iter where
  reset: "unat sz < 2 ^ 64 - 8 \<Longrightarrow> list_all dev_ok devices \<Longrightarrow>
    reachable iter (cpu_new pc hart, (system_bus_new base sz)\<lparr> sb_virtio := devices \<rparr>)"
| stepped: "reachable iter s \<Longrightarrow> reachable iter (snd (step iter (sys_ops dev_ops) s))"
| input: "reachable iter (c, b) \<Longrightarrow> reachable iter (c, b\<lparr> sb_uart := push_input x (sb_uart b) \<rparr>)"
| frame: "reachable iter (c, b) \<Longrightarrow> i < length (sb_virtio b) \<Longrightarrow> sb_virtio b ! i = Net s \<Longrightarrow> length p < 2 ^ 30 \<Longrightarrow>
    reachable iter (c, b\<lparr> sb_virtio := (sb_virtio b)[i := Net (s\<lparr> backend := inject_rx_packet p (backend s) \<rparr>)] \<rparr>)"
| polled: "reachable iter (c, b) \<Longrightarrow> reachable iter (c, snd (poll_virtio dev_ops b))"
| engine: "reachable iter (c, b) \<Longrightarrow> reachable iter (c\<lparr> use_blocks := on \<rparr>, b)"

context safe_virtio
begin

lemma poll_devices_safe:
  "list_all dinv ds \<Longrightarrow> poll_devices vops ds m = (r, ds', m') \<Longrightarrow> r \<noteq> Panic \<and> list_all dinv ds' \<and> same_geometry m m'"
proof (induction ds arbitrary: m r ds' m')
  case (Cons d ds)
  obtain q d1 m1 where p: "v_poll vops (d, m) = (q, d1, m1)" by (rule prod_cases3)
  obtain q2 ds2 m2 where rest: "poll_devices vops ds m1 = (q2, ds2, m2)" by (rule prod_cases3)
  have "q \<noteq> Panic" "dinv d1" "same_geometry m m1" using v_poll_safe [of d m] Cons.prems(1) p by (auto simp: safe_def)
  then show ?case using Cons.IH [OF _ rest] Cons.prems p rest by (auto simp: same_geometry_def)
qed (simp add: same_geometry_def)

lemma poll_virtio_safe: "sb_inv dinv b \<Longrightarrow> safe (sb_inv dinv) (poll_virtio vops b)"
  using poll_devices_safe [of "sb_virtio b" "sb_dram b"]
  by (cases "poll_devices vops (sb_virtio b) (sb_dram b)") (auto simp: poll_virtio_def sb_inv_def safe_def same_geometry_def)

end

lemma cpu_inv_use_blocks [simp]: "cpu_inv (c\<lparr> use_blocks := on \<rparr>) = cpu_inv c"
  by (simp add: cpu_inv_def)

lemma reachable_inv: "reachable iter s \<Longrightarrow> machine_inv (sb_inv dev_ok) s"
proof (induction rule: reachable.induct)
  case (reset sz pc hart base devices)
  then show ?case by (simp add: sb_inv_def system_bus_new_def dram_new_def)
next
  case (frame c b i s p)
  then have "dev_ok (Net s)" by (auto simp: sb_inv_def list_all_length)
  then have "dev_ok (Net (s\<lparr> backend := inject_rx_packet p (backend s) \<rparr>))"
    using frame.hyps(4) by (auto simp: dev_ok_def net_ok_def inject_rx_packet_def)
  with frame show ?case by (simp add: sb_inv_def list_all_length nth_list_update)
next
  case (stepped s)
  then show ?case using dev.sb.step_safe [of s iter] by (simp add: safe_def)
next
  case (polled c b)
  then show ?case using dev.poll_virtio_safe [of b] by (simp add: safe_def)
qed simp_all

text \<open>C2: A machine with entropy and network devices never panics: in every state reachable from reset by steps, console
  input, injected frames, device polls and switching of the block engine, a step (interpreted or from a compiled block)
  and a poll end without a panic, register x0 holds 0, every cached decoding is what the decoder returns,
  and every cached block has at most 64 micro-operations with register numbers below 32.\<close>

theorem machine_never_panics:
  assumes "reachable iter s"
  shows "fst (step iter (sys_ops dev_ops) s) \<noteq> Panic \<and> fst (poll_virtio dev_ops (snd s)) \<noteq> Panic \<and> cpu_inv (fst s)"
  using reachable_inv [OF assms] dev.sb.step_safe [of s iter] dev.poll_virtio_safe [of "snd s"]
  by (auto simp: safe_def machine_inv_def)

theorem machine_never_panics_witness:
  "fst (step id (sys_ops dev_ops) (cpu_new 0x80000000 0, (system_bus_new DRAM_BASE 0x1000)\<lparr> sb_virtio := [Rng virtio_rng_new, Net (virtio_net_new external_methods (external_new [2, 0, 0, 0, 0, 1]))] \<rparr>)) \<noteq> Panic"
  by (rule machine_never_panics [THEN conjunct1], rule reachable.reset)
    (simp_all add: dev_ok_def net_ok_def virtio_net_new_def external_methods_def external_new_def)

text \<open>The decode cache is transparent: in every reachable state, decoding through the cache has the outcome of
  the decoder, and on success changes nothing but the cache.\<close>

theorem decode_cache_transparent:
  assumes "reachable iter s"
  shows "fst (decode_cached pc raw s) = decode raw \<and>
    (is_ok (decode raw) \<longrightarrow>
       (\<exists>dc. snd (decode_cached pc raw s) = apfst (\<lambda>c. c\<lparr> decode_cache := dc \<rparr>) s))"
proof (cases "decode_cache_lookup pc raw (fst s)")
  case (Some d)
  moreover have "decode_ok (decode_cache (fst s))"
    using reachable_inv [OF assms] by (auto simp: machine_inv_def cpu_inv_def)
  ultimately have "decode raw = Ok d"
    by (auto simp: decode_cache_lookup_def decode_ok_def split: option.splits if_splits)
  with Some show ?thesis by (cases s) (auto simp: decode_cached_def intro!: exI [of _ "decode_cache (fst s)"])
next
  case None
  show ?thesis
  proof (cases "decode raw")
    case (Ok d)
    then show ?thesis
      using None by (cases s) (simp only: decode_cached_def decode_cache_insert_def option.case matchS_simps fst_conv snd_conv apfst_conv is_ok_simps, blast)
  qed (use None decode_no_panic [of raw] in \<open>simp_all add: decode_cached_def trapM_eq\<close>)
qed

theorem decode_cache_transparent_witness:
  "fst (decode_cached 0x80000000 0x13 (cpu_new 0x80000000 0, (system_bus_new DRAM_BASE 0x1000)\<lparr> sb_virtio := [Rng virtio_rng_new, Net (virtio_net_new external_methods (external_new [2, 0, 0, 0, 0, 1]))] \<rparr>)) = decode 0x13"
  by (rule decode_cache_transparent [where iter = id, THEN conjunct1], rule reachable.reset)
    (simp_all add: dev_ok_def net_ok_def virtio_net_new_def external_methods_def external_new_def)

end
