(* ===== verification/Rv_Arith_Spec.thy ===== *)
theory Rv_Arith_Spec
  imports Rv_Exec
begin

text \<open>
  The multiplication and division instructions against integer arithmetic.
\<close>

unbundle bit_operations_syntax

subsection \<open>Products\<close>

text \<open>A 128-bit word is its high and low half.\<close>

lemma uint_low: "uint (ucast (x :: 128 word) :: u64) = uint x mod 2 ^ 64" "uint (ucast x :: u64) = sint x mod 2 ^ 64"
proof -
  show low: "uint (ucast x :: u64) = uint x mod 2 ^ 64" unfolding unsigned_ucast_eq by (simp add: take_bit_eq_mod)
  have "uint x = sint x mod 2 ^ 128" unfolding uint_sint take_bit_eq_mod by simp
  moreover have "sint x mod 2 ^ 128 mod 2 ^ 64 = sint x mod 2 ^ 64" by (rule mod_mod_cancel) (rule le_imp_power_dvd, simp)
  ultimately show "uint (ucast x :: u64) = sint x mod 2 ^ 64" unfolding low by (simp only:)
qed

lemma halves_signed: "sint x = sint (ucast (sar x 64) :: u64) * 2 ^ 64 + uint (ucast x :: u64)" for x :: i128
proof -
  define k where "k = sint x div 2 ^ 64"
  have "- (2 ^ 127) \<le> sint x" "sint x < 2 ^ 127" using sint_greater_eq [of x] sint_less [of x] by simp_all
  then have k: "- (2 ^ 63) \<le> k" "k < 2 ^ 63" unfolding k_def by simp_all
  have "sint (sar x 64) = k" by (simp add: sint_signed_drop_bit_eq drop_bit_eq_div k_def)
  then have "sint (ucast (sar x 64) :: u64) = signed_take_bit 63 (take_bit 128 k)"
    unfolding signed_ucast_eq uint_sint by simp
  also have "\<dots> = signed_take_bit 63 k" by (simp add: signed_take_bit_take_bit)
  also have "\<dots> = k" by (rule signed_take_bit_int_eq_self) (use k in simp_all)
  finally show ?thesis unfolding uint_low(2) k_def by simp
qed

lemma halves_unsigned: "uint x = uint (ucast (shr x 64) :: u64) * 2 ^ 64 + uint (ucast x :: u64)" for x :: "128 word"
proof -
  have "uint (shr x 64) = drop_bit 64 (uint x)" by transfer (simp add: drop_bit_take_bit)
  then have "uint (shr x 64) = uint x div 2 ^ 64" unfolding drop_bit_eq_div [of 64 "uint x"] .
  moreover have "uint x < 2 ^ 128" using uint_bounded [of x] by simp
  then have "uint x div 2 ^ 64 < 2 ^ 64" by simp
  ultimately have "uint (ucast (shr x 64) :: u64) = uint x div 2 ^ 64"
    unfolding uint_low(1) by (simp add: pos_imp_zdiv_nonneg_iff mod_pos_pos_trivial)
  then show ?thesis unfolding uint_low(1) by simp
qed

lemma sint_mult_wide:
  fixes a b :: i128
  assumes "\<bar>sint a * sint b\<bar> < 2 ^ 127"
  shows "sint (a * b) = sint a * sint b"
proof -
  have "sint (a * b) = signed_take_bit 127 (sint a * sint b)" by (simp add: sint_word_ariths)
  also have "\<dots> = sint a * sint b" by (rule signed_take_bit_int_eq_self) (use assms in \<open>simp_all add: abs_if split: if_splits\<close>)
  finally show ?thesis .
qed

lemma sint_wide [simp]: "sint (scast (a :: u64) :: i128) = sint a" "sint (ucast (a :: u64) :: i128) = uint a"
proof -
  have "- (2 ^ 63) \<le> sint a" "sint a < 2 ^ 63" using sint_greater_eq [of a] sint_less [of a] by simp_all
  then show "sint (scast a :: i128) = sint a"
    unfolding signed_scast_eq by (intro signed_take_bit_int_eq_self) simp_all
  have "uint a < 2 ^ 64" using uint_bounded [of a] by simp
  then show "sint (ucast a :: i128) = uint a"
    unfolding signed_ucast_eq by (intro signed_take_bit_int_eq_self) (simp_all add: order_trans [OF _ uint_ge_0])
qed

lemma uint_wide [simp]: "uint (ucast (a :: u64) :: 128 word) = uint a"
  using uint_bounded [of a] by (simp add: unsigned_ucast_eq take_bit_int_eq_self)

lemma abs_bounds: "\<bar>sint (a :: u64)\<bar> \<le> 2 ^ 63" "\<bar>uint (a :: u64)\<bar> \<le> 2 ^ 64 - 1"
  using sint_greater_eq [of a] sint_less [of a] uint_bounded [of a] uint_ge_0 [of a] by (simp_all add: abs_if)

lemma prod_bounds:
  fixes a b :: u64
  shows "\<bar>sint a * sint b\<bar> < 2 ^ 127" "\<bar>sint a * uint b\<bar> < 2 ^ 127" "uint a * uint b < 2 ^ 128"
proof -
  have "\<bar>sint a\<bar> * \<bar>sint b\<bar> \<le> 2 ^ 63 * 2 ^ 63" by (intro mult_mono abs_bounds) simp_all
  then show "\<bar>sint a * sint b\<bar> < 2 ^ 127" by (simp add: abs_mult)
  have "\<bar>sint a\<bar> * \<bar>uint b\<bar> \<le> 2 ^ 63 * (2 ^ 64 - 1)" by (intro mult_mono abs_bounds) simp_all
  then show "\<bar>sint a * uint b\<bar> < 2 ^ 127" by (simp add: abs_mult)
  have "\<bar>uint a\<bar> * \<bar>uint b\<bar> \<le> (2 ^ 64 - 1) * (2 ^ 64 - 1)" by (intro mult_mono abs_bounds) simp_all
  then show "uint a * uint b < 2 ^ 128" by simp
qed

lemma mul_low: "(ucast ((scast a :: i128) * ucast b) :: u64) = ucast ((scast a :: i128) * scast b)"
    "(ucast ((ucast a :: i128) * ucast b) :: u64) = ucast ((scast a :: i128) * scast b)" for a b :: u64
proof -
  have "(ucast (scast x :: i128) :: u64) = x" for x :: u64
    by (rule word_eq_bits, unfold bitx, simp add: positions)
  moreover have "(ucast (ucast x :: i128) :: u64) = x" for x :: u64
    by (rule bit_word_eqI, unfold bitx, auto)
  ultimately show "(ucast ((scast a :: i128) * ucast b) :: u64) = ucast ((scast a :: i128) * scast b)"
    "(ucast ((ucast a :: i128) * ucast b) :: u64) = ucast ((scast a :: i128) * scast b)"
    by (simp_all add: ucast_mult_down)
qed

text \<open>C25: The multiplication instructions compute the exact product: the result of MULH, MULHSU or MULHU as the
  high half and that of MUL as the low half give the 128-bit product of the operands, read as signed,
  signed times unsigned, and unsigned numbers.\<close>

theorem mul_full_product:
  "\<exists>lo hi hi_su hi_u. alu_reg 0 1 a b = Some lo \<and> alu_reg 1 1 a b = Some hi \<and> alu_reg 2 1 a b = Some hi_su \<and> alu_reg 3 1 a b = Some hi_u \<and>
     sint hi * 2 ^ 64 + uint lo = sint a * sint b \<and>
     sint hi_su * 2 ^ 64 + uint lo = sint a * uint b \<and>
     uint hi_u * 2 ^ 64 + uint lo = uint a * uint b"
proof -
  let ?ss = "(scast a :: i128) * scast b" and ?su = "(scast a :: i128) * ucast b" and ?uu = "(ucast a :: 128 word) * ucast b"
  have "sint ?ss = sint a * sint b" "sint ?su = sint a * uint b" "uint ?uu = uint a * uint b"
    using prod_bounds [of a b] by (simp_all add: sint_mult_wide uint_word_ariths)
  then show ?thesis
    using halves_signed [of ?ss] halves_signed [of ?su] halves_unsigned [of ?uu] mul_low [of a b]
    by (simp add: alu_reg_def mul_wide_def mul_high_def Let_def)
qed

subsection \<open>Quotients and remainders\<close>

lemma word_of_int_sint: "word_of_int (sint a) = a"
  by (simp flip: scast_eq)

text \<open>The results that the manual gives for the division instructions, on the integers that the operands stand for: a
  quotient rounded towards zero and a remainder with the sign of the dividend, all ones and the dividend for a zero divisor, and
  the dividend and zero for the signed overflow.\<close>

definition signed_division :: "'a::len word \<Rightarrow> 'a word \<Rightarrow> 'a word \<Rightarrow> 'a word \<Rightarrow> bool" where
  "signed_division a b q r \<longleftrightarrow>
     (if sint b = 0 then sint q = - 1 \<and> r = a
      else if sint a = - (2 ^ (LENGTH('a) - 1)) \<and> sint b = - 1 then sint q = sint a \<and> sint r = 0
      else sint q = sgn (sint a) * sgn (sint b) * (\<bar>sint a\<bar> div \<bar>sint b\<bar>) \<and> sint r = sgn (sint a) * (\<bar>sint a\<bar> mod \<bar>sint b\<bar>))"

definition unsigned_division :: "'a::len word \<Rightarrow> 'a word \<Rightarrow> 'a word \<Rightarrow> 'a word \<Rightarrow> bool" where
  "unsigned_division a b q r \<longleftrightarrow>
     (if uint b = 0 then uint q = 2 ^ LENGTH('a) - 1 \<and> r = a
      else uint q = uint a div uint b \<and> uint r = uint a mod uint b)"

lemma sint_eq_0 [simp]: "sint b = 0 \<longleftrightarrow> b = 0" for b :: "'a::len word"
  by (metis sint_0 signed_word_eqI)

lemma sint_range: "- (2 ^ (LENGTH('a) - 1)) \<le> sint (a :: 'a::len word)" "sint (a :: 'a::len word) < 2 ^ (LENGTH('a) - 1)"
  using sint_greater_eq [of a] sint_less [of a] by simp_all

lemma sint_sremw:
  fixes a b :: "'a::len word"
  assumes "b \<noteq> 0"
  shows "sint (sremw a b) = sgn (sint a) * (\<bar>sint a\<bar> mod \<bar>sint b\<bar>)"
proof -
  have "sint b \<noteq> 0" using assms by simp
  then have "\<bar>sint a smod sint b\<bar> < \<bar>sint b\<bar>" using smod_int_range [of "sint b" "sint a"] by (auto simp: abs_if split: if_splits)
  moreover have "\<bar>sint b\<bar> \<le> 2 ^ (LENGTH('a) - 1)" using sint_range [of b] by (simp add: abs_if)
  ultimately have "signed_take_bit (LENGTH('a) - 1) (sint a smod sint b) = sint a smod sint b"
    by (intro signed_take_bit_int_eq_self) (simp_all add: abs_if split: if_splits)
  then show ?thesis unfolding sremw_def sint_sbintrunc' by (simp add: smod_int_alt_def)
qed

lemma quotient_range:
  fixes a b :: "'a::len word"
  assumes "b \<noteq> 0" "\<not> (sint a = - (2 ^ (LENGTH('a) - 1)) \<and> sint b = - 1)"
  shows "- (2 ^ (LENGTH('a) - 1)) \<le> sint a sdiv sint b \<and> sint a sdiv sint b < 2 ^ (LENGTH('a) - 1)"
proof (cases "\<bar>sint b\<bar> = 1")
  case True
  then have "sint b = 1 \<or> sint b = - 1" by (auto simp: abs_if split: if_splits)
  then show ?thesis using assms(2) sint_range [of a] by auto
next
  case False
  let ?M = "2 ^ (LENGTH('a) - 1) :: int"
  have "sint b \<noteq> 0" using assms(1) by simp
  with False have b: "2 \<le> \<bar>sint b\<bar>" by linarith
  have "\<bar>sint a\<bar> \<le> ?M" using sint_range [of a] by (simp add: abs_if)
  then have "\<bar>sint a\<bar> div \<bar>sint b\<bar> \<le> ?M div \<bar>sint b\<bar>" using b assms(1) by (intro zdiv_mono1) simp_all
  also have "\<dots> \<le> ?M div 2" using b assms(1) by (intro zdiv_mono2) simp_all
  also have "\<dots> < ?M" by (rule int_div_less_self) simp_all
  finally have "\<bar>sint a\<bar> div \<bar>sint b\<bar> < ?M" "0 \<le> \<bar>sint a\<bar> div \<bar>sint b\<bar>" using b assms(1) by (simp_all add: pos_imp_zdiv_nonneg_iff)
  then show ?thesis by (auto simp: signed_divide_int_def sgn_if)
qed

lemma sint_sdivw:
  fixes a b :: "'a::len word"
  assumes "b \<noteq> 0" "\<not> (sint a = - (2 ^ (LENGTH('a) - 1)) \<and> sint b = - 1)"
  shows "sint (sdivw a b) = sgn (sint a) * sgn (sint b) * (\<bar>sint a\<bar> div \<bar>sint b\<bar>)"
proof -
  have "signed_take_bit (LENGTH('a) - 1) (sint a sdiv sint b) = sint a sdiv sint b"
    using quotient_range [OF assms] by (intro signed_take_bit_int_eq_self) simp_all
  then show ?thesis unfolding sdivw_def sint_sbintrunc' by (simp add: signed_divide_int_def)
qed

lemma signed_divisionI:
  assumes "sint lo = - (2 ^ (LENGTH('a) - 1))"
  shows "signed_division a b (if b = 0 then - 1 else if a = lo \<and> b = - 1 then lo else sdivw a b)
    (if b = 0 then a else if a = lo \<and> b = - 1 then 0 else sremw a (b :: 'a::len word))"
proof -
  have "sint a = - (2 ^ (LENGTH('a) - 1)) \<longleftrightarrow> a = lo" "sint b = - 1 \<longleftrightarrow> b = - 1"
    using assms by (metis signed_word_eqI, metis sint_n1 signed_word_eqI)
  then show ?thesis using sint_sdivw [of b a] sint_sremw [of b a] assms by (simp add: signed_division_def)
qed

lemma unsigned_divisionI:
  "unsigned_division a b (if b = 0 then - 1 else a div b) (if b = 0 then a else a mod (b :: 'a::len word))"
  by (simp add: unsigned_division_def uint_div uint_mod uint_0_iff unsigned_minus_1_eq_mask mask_eq_exp_minus_1)

text \<open>Low halves and their extensions.\<close>

lemma low32_sext32 [simp]: "low32 (sext32 a) = a"
  by (rule word_eq_bits, unfold bitx, simp add: positions)

lemma ucast32_scast128 [simp]: "(ucast (scast (a :: u64) :: i128) :: u32) = low32 a"
  by (rule bit_word_eqI) (unfold bitx, auto simp: min_def)

lemma sext32_inj [simp]: "sext32 a = sext32 b \<longleftrightarrow> a = b"
  by (metis low32_sext32)

lemma sext32_consts: "sext32 0 = 0" "sext32 (- 1) = - 1" "sext32 0x80000000 = I32_MIN_64"
  by (simp_all add: I32_MIN_64_def) 

lemma sext32_eq_consts:
  "sext32 b = 0 \<longleftrightarrow> b = 0" "sext32 b = - 1 \<longleftrightarrow> b = - 1" "sext32 a = I32_MIN_64 \<longleftrightarrow> a = 0x80000000"
  by (metis sext32_consts sext32_inj)+

lemma sint_sext32: "sint (sext32 a) = sint a"
  using sint_lt [of a] sint_ge [of a]
  by (subst signed_scast_eq, intro signed_take_bit_int_eq_self) simp_all

lemma low32_word_of_int: "low32 (word_of_int k) = word_of_int k"
  by transfer simp

lemma low32_sdivw: "low32 (sdivw (sext32 a) (sext32 b)) = sdivw a b" "low32 (sremw (sext32 a) (sext32 b)) = sremw a b"
  by (simp_all add: sdivw_def sremw_def sint_sext32 low32_word_of_int)

lemma low32_udiv: "low32 (zext32 a div zext32 b) = a div b" "low32 (zext32 a mod zext32 b) = a mod b"
proof -
  have "unat a < 2 ^ LENGTH(32)" by (rule unsigned_less)
  then have "unat a div unat b < 2 ^ 32" "unat a mod unat b < 2 ^ 32"
    using le_less_trans [OF div_le_dividend] le_less_trans [OF mod_less_eq_dividend] by simp_all
  then show "low32 (zext32 a div zext32 b) = a div b" "low32 (zext32 a mod zext32 b) = a mod b"
    by (simp_all add: word_unat_eq_iff unat_div unat_mod unat_ucast_up unsigned_ucast_eq [where 'b = 64] take_bit_nat_eq_self
        del: unat_inj_iff)
qed

lemma low32_minus_1: "low32 (- 1) = - 1"
  by (rule bit_word_eqI) (unfold bitx, simp)

lemma low32_min: "low32 I32_MIN_64 = 0x80000000"
  by (metis low32_sext32 sext32_consts(3))

lemma zext32_0: "zext32 a = 0 \<longleftrightarrow> a = 0"
  by (simp add: word_unat_eq_iff unat_ucast_up del: unat_inj_iff)

lemma low32_zext32 [simp]: "low32 (zext32 a) = a"
  by (rule bit_word_eqI) (unfold bitx, auto)

text \<open>C26: The division instructions compute the results of the manual for all operands.  DIV and REM give the integer
  quotient, rounded towards zero, and the remainder, with the sign of the dividend, of the operands read as signed numbers; DIVU and REMU those of the operands read as
  unsigned numbers; a zero divisor yields all ones and the dividend, and the signed overflow the dividend and zero.  DIVW, REMW,
  DIVUW and REMUW do the same with the low 32 bits of the operands, and sign-extend the results.\<close>

theorem div_rem_identity:
  "(\<exists>q r qu ru. alu_reg 4 1 a b = Some q \<and> alu_reg 6 1 a b = Some r \<and> alu_reg 5 1 a b = Some qu \<and> alu_reg 7 1 a b = Some ru \<and>
     signed_division a b q r \<and> unsigned_division a b qu ru) \<and>
   (\<exists>q r qu ru. alu_reg32 4 1 a b = Some (sext32 q) \<and> alu_reg32 6 1 a b = Some (sext32 r) \<and>
     alu_reg32 5 1 a b = Some (sext32 qu) \<and> alu_reg32 7 1 a b = Some (sext32 ru) \<and>
     signed_division (low32 a) (low32 b) q r \<and> unsigned_division (low32 a) (low32 b) qu ru)"
proof (intro conjI exI)
  have lo: "sint I64_MIN = - (2 ^ (LENGTH(64) - 1))" "sint (0x80000000 :: u32) = - (2 ^ (LENGTH(32) - 1))" by (simp_all add: I64_MIN_def)
  show "signed_division a b (if b = 0 then - 1 else if a = I64_MIN \<and> b = - 1 then I64_MIN else sdivw a b)
      (if b = 0 then a else if a = I64_MIN \<and> b = - 1 then 0 else sremw a b)" by (rule signed_divisionI [OF lo(1)])
  show "unsigned_division a b (if b = 0 then - 1 else a div b) (if b = 0 then a else a mod b)" by (rule unsigned_divisionI)
  let ?a = "low32 a" and ?b = "low32 b"
  show "signed_division ?a ?b (if ?b = 0 then - 1 else if ?a = 0x80000000 \<and> ?b = - 1 then 0x80000000 else sdivw ?a ?b)
      (if ?b = 0 then ?a else if ?a = 0x80000000 \<and> ?b = - 1 then 0 else sremw ?a ?b)" by (rule signed_divisionI [OF lo(2)])
  show "unsigned_division ?a ?b (if ?b = 0 then - 1 else ?a div ?b) (if ?b = 0 then ?a else ?a mod ?b)" by (rule unsigned_divisionI)
qed (auto simp: alu_reg_def alu_reg32_def Let_def sext32_eq_consts zext32_0 low32_sdivw low32_udiv low32_minus_1 low32_min)
end
