(* ===== verification/Rv_Engine_Spec.thy ===== *)
theory Rv_Engine_Spec
  imports Rv_Machine Rv_Decoder_Spec Rv_Arith_Spec
begin

text \<open>
  The superblock engine against the interpreter.

  \<open>exec_micro_equiv\<close> shows, operation by operation, that a transcoded micro-operation has the effect of the
  interpreter's arm; \<open>compiled_block_equiv\<close> lifts this to the block that \<open>compile\<close> builds from memory.  The
  engine differs from the interpreter in one detail, which the statements show: a store that faults on the
  bus leaves the reservation alone, where the interpreter has already cleared it.
\<close>

unbundle bit_operations_syntax

subsection \<open>Registers\<close>

lemma unat_reg8 [simp]: "unat (reg8 r) = to_usize r"
  by (cases r) (simp_all add: reg8_def)

lemma reg8_0 [simp]: "reg8 r = 0 \<longleftrightarrow> r = X0"
  by (metis to_usize_0 unat_0 unat_eq_0 unat_reg8)

lemma set_at_reg8 [simp]: "set_at (reg8 r) v = write_reg r v"
  by (simp add: fun_eq_iff set_at_def write_reg_def)

lemma reg_at_reg8 [simp]: "regs (fst s) 0 = 0 \<Longrightarrow> reg_at s (reg8 r) = read_reg (fst s) r"
  by (simp add: reg_at_def read_reg_def)

subsection \<open>Word arithmetic\<close>

text \<open>The 32-bit arithmetic of the engine works at 32 bits, that of the interpreter at 64.\<close>

lemma micro_mulw_eq: "micro_mulw a b = sext32 (ucast ((scast (sext32 (low32 a)) :: i128) * scast (sext32 (low32 b))))"
  by (simp add: micro_mulw_def ucast_mult_down)

lemma micro_divw_eq:
  "micro_divw a b = (let a = sext32 (low32 a); b = sext32 (low32 b) in
     sext32 (low32 (if b = 0 then - 1 else if a = I32_MIN_64 \<and> b = - 1 then I32_MIN_64 else sdivw a b)))"
  by (simp add: micro_divw_def Let_def sext32_eq_consts low32_sdivw low32_minus_1 low32_min)

lemma micro_remw_eq:
  "micro_remw a b = (let a = sext32 (low32 a); b = sext32 (low32 b) in
     sext32 (low32 (if b = 0 then a else if a = I32_MIN_64 \<and> b = - 1 then 0 else sremw a b)))"
  by (simp add: micro_remw_def Let_def sext32_eq_consts low32_sdivw)

lemma micro_divuw_eq:
  "micro_divuw a b = (let a = zext32 (low32 a); b = zext32 (low32 b) in sext32 (low32 (if b = 0 then - 1 else a div b)))"
  by (simp add: micro_divuw_def Let_def zext32_0 low32_udiv low32_minus_1)

lemma micro_remuw_eq:
  "micro_remuw a b = (let a = zext32 (low32 a); b = zext32 (low32 b) in sext32 (low32 (if b = 0 then a else a mod b)))"
  by (simp add: micro_remuw_def Let_def zext32_0 low32_udiv)

lemmas micro_arith = micro_mul_def micro_mulh_def micro_mulhsu_def micro_mulhu_def micro_div_def micro_divu_def micro_rem_def
  micro_remu_def micro_mulw_eq micro_divw_eq micro_divuw_eq micro_remw_eq micro_remuw_eq mul_wide_def mul_high_def I64_MIN_def

subsection \<open>One operation\<close>

text \<open>Operations the engine executes itself: every well-formed one but the system instructions other than WFI and the atomic
  instructions, which leave the block.  The encodings that the interpreter refuses are excluded (\<open>excluded_never_completes\<close>): the
  engine turns them into a fence (\<open>transcode_illegal\<close>) or, when only the register fields of WFI are wrong, into WFI.\<close>

primrec in_block :: "op \<Rightarrow> bool" where
  "in_block (op.Lui rd imm) = True"
| "in_block (op.Auipc rd imm) = True"
| "in_block (op.Jal rd imm) = True"
| "in_block (op.Jalr rd rs1 imm) = True"
| "in_block (Branch rs1 rs2 imm f3) = (branch_taken f3 0 0 \<noteq> None)"
| "in_block (Load rd rs1 imm f3) = (f3 < 7)"
| "in_block (Store rs1 rs2 imm f3) = (f3 < 4)"
| "in_block (OpImm rd rs1 imm f3 f7) = (alu_imm f3 f7 0 0 \<noteq> None)"
| "in_block (Op rd rs1 rs2 f3 f7) = (alu_reg f3 f7 0 0 \<noteq> None)"
| "in_block (OpImm32 rd rs1 imm f3 f7) = (alu_imm32 f3 f7 0 0 \<noteq> None)"
| "in_block (Op32 rd rs1 rs2 f3 f7) = (alu_reg32 f3 f7 0 0 \<noteq> None)"
| "in_block (System rd rs1 f3 imm) = (f3 = 0 \<and> imm = 0x105 \<and> rd = X0 \<and> rs1 = X0)"
| "in_block (Amo rd rs1 rs2 f3 f5 aq rl) = False"
| "in_block op.Fence = True"

text \<open>The result of a micro-operation as the interpreter would report it.\<close>

definition finish_micro ::
  "u64 \<Rightarrow> u8 \<Rightarrow> (block_exec_result option, trap) result \<times> 'b machine \<Rightarrow> (u64, trap) result \<times> 'b machine" where
  "finish_micro pc len m =
     bindS m (\<lambda>r s. case r of
        None \<Rightarrow> (Ok (pc + ucast len), s)
      | Some (BlockContinue n) \<Rightarrow> (Ok n, s)
      | Some (BlockTrap e fault_pc) \<Rightarrow> trapM e fault_pc s
      | Some (BlockExit n) \<Rightarrow> (Ok n, s))"

text \<open>Equal outcomes, with equal states on success and states that agree up to the reservation otherwise.\<close>

definition no_reservation :: "'b machine \<Rightarrow> 'b machine" where
  "no_reservation s = apfst (\<lambda>c. c\<lparr> reservation := None \<rparr>) s"

definition same_outcome :: "('a, 'e) result \<times> 'b machine \<Rightarrow> ('a, 'e) result \<times> 'b machine \<Rightarrow> bool" where
  "same_outcome m n \<longleftrightarrow> fst m = fst n \<and> no_reservation (snd m) = no_reservation (snd n) \<and> (is_ok (fst n) \<longrightarrow> m = n)"

lemma same_outcome_refl [simp]: "same_outcome m m"
  by (simp add: same_outcome_def)

lemma same_outcome_eqI: "m = n \<Longrightarrow> same_outcome m n"
  by simp

lemma same_outcome_Ok: "same_outcome (Ok a, s) n \<Longrightarrow> n = (Ok a, s)"
  by (cases n) (auto simp: same_outcome_def)

lemma same_outcome_Err: "same_outcome (Err e, s) n \<Longrightarrow> \<exists>s2. n = (Err e, s2) \<and> no_reservation s = no_reservation s2"
  by (cases n) (auto simp: same_outcome_def)

lemma same_outcome_Panic: "same_outcome (Panic, s) n \<Longrightarrow> \<exists>s2. n = (Panic, s2) \<and> no_reservation s = no_reservation s2"
  by (cases n) (auto simp: same_outcome_def)

lemma finish_alu [simp]: "finish_micro pc len (alu_step rd v s) = (Ok (pc + ucast len), apfst (set_at rd v) s)"
  by (simp add: finish_micro_def alu_step_def)

lemma finish_None [simp]: "finish_micro pc len (Ok None, s) = (Ok (pc + ucast len), s)"
  by (simp add: finish_micro_def)

lemma finish_branch: "finish_micro pc len (branch_step t imm pc len s) = (Ok (if t then pc + imm else pc + ucast len), s)"
  by (simp add: finish_micro_def branch_step_def)

lemma even_jump:
  "\<not> bit pc 0 \<Longrightarrow> \<not> bit imm 0 \<Longrightarrow> jump_to (pc + imm) pc' s = (Ok (pc + imm), s)" for pc imm :: u64
proof -
  assume "\<not> bit pc 0" "\<not> bit imm 0"
  then have "even (pc + imm)" by (simp add: bit_0)
  then have "(pc + imm) mod 2 = 0" by (simp add: even_iff_mod_2_eq_zero)
  then show ?thesis by (simp add: jump_to_def)
qed

lemma aligned_jump: "jump_to (x AND - 2) pc s = (Ok (x AND - 2), s)"
proof -
  have "\<not> bit (x AND NOT 1) 0" by (simp add: bit_and_iff bit_not_iff del: not_one_eq)
  then have "even (x AND - 2)" by (simp add: bit_0)
  then have "(x AND - 2) mod 2 = 0" by (simp add: even_iff_mod_2_eq_zero)
  then show ?thesis by (simp add: jump_to_def)
qed

lemma sext_fits12:
  assumes "fits 12 imm"
  shows "sext32 (low32 imm) = imm"
proof -
  have "sint (word_of_int (sint imm) :: u32) = sint imm"
    unfolding sint_sbintrunc' by (rule signed_take_bit_int_eq_self) (use assms in \<open>simp_all add: fits_def\<close>)
  moreover have "low32 imm = word_of_int (sint imm)"
    using low32_word_of_int [of "sint imm"] by (simp flip: scast_eq)
  moreover have "imm = word_of_int (sint imm)" by (simp flip: scast_eq)
  ultimately show ?thesis by (metis scast_eq)
qed

lemma shamt_unat: "unat (low8 (imm AND 0x3F)) = unat (imm AND 0x3F)" "unat (low8 (imm AND 0x1F)) = unat (imm AND 0x1F)"
proof -
  have lt: "imm AND 0x3F < 2 ^ 6" "imm AND 0x1F < 2 ^ 5" by (rule less_2p_bits; simp add: bitx)+
  show "unat (low8 (imm AND 0x3F)) = unat (imm AND 0x3F)" "unat (low8 (imm AND 0x1F)) = unat (imm AND 0x1F)"
    unfolding unsigned_ucast_eq
    by (rule take_bit_nat_eq_self, use lt in \<open>simp add: word_less_nat_alt\<close>)+
qed

lemma alu_reg_cases:
  "alu_reg f3 f7 a b \<noteq> None \<Longrightarrow>
    f7 = 0 \<and> f3 \<in> {0, 1, 2, 3, 4, 5, 6, 7} \<or> f7 = 1 \<and> f3 \<in> {0, 1, 2, 3, 4, 5, 6, 7} \<or> f7 = 0x20 \<and> f3 \<in> {0, 5}"
  by (auto simp: alu_reg_def Let_def split: if_splits)

lemma alu_reg32_cases:
  "alu_reg32 f3 f7 a b \<noteq> None \<Longrightarrow>
    f7 = 0 \<and> f3 \<in> {0, 1, 5} \<or> f7 = 1 \<and> f3 \<in> {0, 4, 5, 6, 7} \<or> f7 = 0x20 \<and> f3 \<in> {0, 5}"
  by (auto simp: alu_reg32_def Let_def split: if_splits)

lemma alu_equiv:
  assumes "regs (fst s) 0 = 0" "in_block (Op rd rs1 rs2 f3 f7)"
  shows "finish_micro pc len (exec_micro ops bpc (transcode_op rd rs1 rs2 f3 f7) s) = exec_op ops (Op rd rs1 rs2 f3 f7) raw pc len s"
proof -
  have "f7 = 0 \<and> f3 \<in> {0, 1, 2, 3, 4, 5, 6, 7} \<or> f7 = 1 \<and> f3 \<in> {0, 1, 2, 3, 4, 5, 6, 7} \<or> f7 = 0x20 \<and> f3 \<in> {0, 5}"
    using assms(2) by (intro alu_reg_cases) simp
  then show ?thesis
    using assms(1)
    by (elim disjE conjE insertE emptyE)
      (simp_all add: transcode_op_def alu_reg_def exec_alu_def micro_arith Let_def)
qed

lemma alu32_equiv:
  assumes "regs (fst s) 0 = 0" "in_block (Op32 rd rs1 rs2 f3 f7)"
  shows "finish_micro pc len (exec_micro ops bpc (transcode_op32 rd rs1 rs2 f3 f7) s) = exec_op ops (Op32 rd rs1 rs2 f3 f7) raw pc len s"
proof -
  have "f7 = 0 \<and> f3 \<in> {0, 1, 5} \<or> f7 = 1 \<and> f3 \<in> {0, 4, 5, 6, 7} \<or> f7 = 0x20 \<and> f3 \<in> {0, 5}"
    using assms(2) by (intro alu_reg32_cases) simp
  then show ?thesis
    using assms(1)
    by (elim disjE conjE insertE emptyE)
      (simp_all add: transcode_op32_def alu_reg32_def exec_alu_def micro_arith Let_def)
qed

lemma alu_imm_equiv:
  assumes "regs (fst s) 0 = 0" "in_block (OpImm rd rs1 imm f3 f7)"
  shows "finish_micro pc len (exec_micro ops bpc (transcode_op_imm rd rs1 imm f3 f7) s) = exec_op ops (OpImm rd rs1 imm f3 f7) raw pc len s"
proof -
  have "f3 \<in> {0, 1, 2, 3, 4, 5, 6, 7}"
    using assms(2) by (auto simp: alu_imm_def Let_def split: if_splits)
  then show ?thesis
    using assms(1)
    by (elim insertE emptyE) (simp_all add: transcode_op_imm_def alu_imm_def exec_alu_def shamt_unat Let_def)
qed

lemma alu_imm32_equiv:
  assumes "regs (fst s) 0 = 0" "in_block (OpImm32 rd rs1 imm f3 f7)" "fits 12 imm"
  shows "finish_micro pc len (exec_micro ops bpc (transcode_op_imm32 rd rs1 imm f3 f7) s) = exec_op ops (OpImm32 rd rs1 imm f3 f7) raw pc len s"
proof -
  have "f3 \<in> {0, 1, 5}"
    using assms(2) by (auto simp: alu_imm32_def Let_def split: if_splits)
  then show ?thesis
    using assms(1,3)
    by (elim insertE emptyE) (simp_all add: transcode_op_imm32_def alu_imm32_def exec_alu_def shamt_unat sext_fits12 Let_def)
qed

lemma branch_equiv:
  assumes "regs (fst s) 0 = 0" "in_block (Branch rs1 rs2 imm f3)" "\<not> bit imm 0" "\<not> bit pc 0" "pc = bpc + ucast off"
  shows "finish_micro pc len (exec_micro ops bpc (transcode_branch rs1 rs2 imm f3 off len) s) = exec_op ops (Branch rs1 rs2 imm f3) raw pc len s"
proof -
  have "f3 \<in> {0, 1, 4, 5, 6, 7}"
    using assms(2) by (auto simp: branch_taken_def split: if_splits)
  moreover have "jump_to (bpc + ucast off + imm) pc s = (Ok (pc + imm), s)" using even_jump [OF assms(4,3)] assms(5) by simp
  ultimately show ?thesis
    using assms(1) unfolding assms(5)
    by (elim insertE emptyE)
      (simp_all add: transcode_branch_def branch_taken_def exec_branch_def finish_branch)
qed

text \<open>Memory accesses: the two translations differ only in who enters the trap.\<close>

lemma translate_addr_eq:
  "translate_addr ops a ac pc s = matchS (translate_addr_for_block ops a ac s) (\<lambda>pa s. (Ok pa, s)) (\<lambda>e s. trapM e pc s) (\<lambda>s. s)"
  by (cases s) (auto simp: translate_addr_def translate_addr_for_block_def split: prod.splits result.splits)

lemma load_equiv:
  assumes "load_access ops f3 = Some f"
  shows "finish_micro pc len (load_step ops f (reg8 rd) (read_reg (fst s) rs1 + imm) pc s) = exec_load ops rd rs1 imm f3 raw pc len s"
proof -
  obtain r s1 where t: "translate_addr_for_block ops (read_reg (fst s) rs1 + imm) LoadAccess s = (r, s1)" by (rule prod.exhaust)
  show ?thesis
  proof (cases r)
    case (Ok pa)
    obtain q s2 where b: "on_bus (f pa) s1 = (q, s2)" by (rule prod.exhaust)
    show ?thesis
      using Ok t b assms
      by (cases q) (simp_all add: finish_micro_def load_step_def exec_load_def Let_def translate_addr_eq busM_def trapM_eq)
  qed (use t assms in \<open>simp_all add: finish_micro_def load_step_def exec_load_def Let_def translate_addr_eq trapM_eq\<close>)
qed

lemma clear_reservation_keeps [simp]:
  "read_reg (clear_reservation_if_conflict a c) r = read_reg c r"
  "(clear_reservation_if_conflict a c)\<lparr> reservation := None \<rparr> = c\<lparr> reservation := None \<rparr>"
  by (simp_all add: clear_reservation_if_conflict_def read_reg_def split: option.split)

lemma enter_trap_reservation:
  "(enter_trap e pc c)\<lparr> reservation := x \<rparr> = enter_trap e pc (c\<lparr> reservation := x \<rparr>)"
  by (simp add: enter_trap_def enter_s_def enter_m_def put_csr_def csr_def deleg_to_s_def Let_def split: option.split)

lemma enter_trap_clear:
  "(enter_trap e pc (clear_reservation_if_conflict a c))\<lparr> reservation := None \<rparr> = (enter_trap e pc c)\<lparr> reservation := None \<rparr>"
  by (simp add: enter_trap_reservation)

lemma store_equiv:
  assumes "\<And>pa v. store_access ops f3 pa v = Some (f v pa)"
  shows "same_outcome (finish_micro pc len (store_step ops (f (read_reg (fst s) rs2)) (read_reg (fst s) rs1 + imm) pc s))
    (exec_store ops rs1 rs2 imm f3 raw pc len s)"
proof -
  define a where "a = read_reg (fst s) rs1 + imm"
  obtain r s1 where t: "translate_addr_for_block ops a StoreAccess s = (r, s1)" by (rule prod.exhaust)
  have reg: "read_reg (fst s1) rs2 = read_reg (fst s) rs2"
    using t by (cases s) (auto simp: translate_addr_for_block_def read_reg_def split: prod.splits)
  show ?thesis
  proof (cases r)
    case (Ok pa)
    obtain c b where s1: "s1 = (c, b)" by (rule prod.exhaust)
    obtain q b2 where w: "f (read_reg (fst s) rs2) pa b = (q, b2)" by (rule prod.exhaust)
    show ?thesis
      using Ok t w assms reg s1 unfolding a_def [symmetric]
      by (cases q) (simp_all add: finish_micro_def store_step_def exec_store_def Let_def translate_addr_eq busM_def trapM_eq
          on_bus_def same_outcome_def no_reservation_def enter_trap_clear a_def [symmetric])
  qed (use t assms in \<open>simp_all add: finish_micro_def store_step_def exec_store_def Let_def translate_addr_eq trapM_eq a_def [symmetric]\<close>)
qed

lemma less_7_cases: "f3 < 7 \<Longrightarrow> f3 \<in> {0, 1, 2, 3, 4, 5, 6}" for f3 :: u32
  by (simp add: word_less_nat_alt word_unat_eq_iff del: unat_inj_iff) linarith

lemma less_4_cases: "f3 < 4 \<Longrightarrow> f3 \<in> {0, 1, 2, 3}" for f3 :: u32
  by (simp add: word_less_nat_alt word_unat_eq_iff del: unat_inj_iff) linarith

lemma load_op_equiv:
  assumes "regs (fst s) 0 = 0" "f3 < 7" "pc = bpc + ucast off"
  shows "finish_micro pc len (exec_micro ops bpc (transcode_load rd rs1 imm f3 off) s) = exec_load ops rd rs1 imm f3 raw pc len s"
  using less_7_cases [OF assms(2)] assms(1)
  by (elim insertE emptyE)
    (simp_all add: transcode_load_def assms(3) [symmetric], (rule load_equiv, simp add: load_access_def fun_eq_iff)+)

lemma store_op_equiv:
  assumes "regs (fst s) 0 = 0" "f3 < 4" "pc = bpc + ucast off"
  shows "same_outcome (finish_micro pc len (exec_micro ops bpc (transcode_store rs1 rs2 imm f3 off) s))
    (exec_store ops rs1 rs2 imm f3 raw pc len s)"
  using less_4_cases [OF assms(2)] assms(1)
  by (elim insertE emptyE)
    (simp_all add: transcode_store_def assms(3) [symmetric], (rule store_equiv, simp add: store_access_def)+)

text \<open>A system instruction is determined by its fields.\<close>

lemma system_fields:
  assumes "decode raw = Ok (System rd rs1 f3 imm)"
  shows "raw AND 0x7F = 0x73" "from_u32 (shr raw 7 AND 0x1F) = rd" "shr raw 12 AND 7 = f3" "from_u32 (shr raw 15 AND 0x1F) = rs1"
    "shr raw 20 AND 0xFFF = imm"
  using assms by (auto simp: decode_def Let_def split: if_splits)

lemma from_u32_X0:
  assumes "from_u32 (w AND 0x1F) = X0"
  shows "w AND 0x1F = 0"
proof -
  have "w AND 0x1F < 2 ^ 5" by (rule less_2p_bits; simp add: bitx)
  then have "unat (w AND 0x1F) < length register_table" by (simp add: word_less_nat_alt register_table_def)
  moreover have "register_table ! unat (w AND 0x1F) = register_table ! 0" "distinct register_table" "0 < length register_table"
    using assms by (simp_all add: from_u32_def register_table_def and.assoc)
  ultimately have "unat (w AND 0x1F) = 0" by (simp only: nth_eq_iff_index_eq)
  then show ?thesis by (simp only: unat_eq_zero)
qed

lemma decode_wfi: "decode raw = Ok (System X0 X0 0 0x105) \<Longrightarrow> raw = 0x10500073"
proof -
  assume "decode raw = Ok (System X0 X0 0 0x105)"
  note f = system_fields [OF this]
  have z: "shr raw 7 AND 0x1F = 0" "shr raw 15 AND 0x1F = 0" by (rule from_u32_X0, fact f)+
  have "raw = (raw AND 0x7F) OR shl (shr raw 7 AND 0x1F) 7 OR shl (shr raw 12 AND 7) 12 OR shl (shr raw 15 AND 0x1F) 15 OR
      shl (shr raw 20 AND 0xFFF) 20"
    by (rule word_eq_bits, unfold bitx, simp add: positions)
  also have "\<dots> = 0x10500073" unfolding f(1,3,5) z by simp
  finally show ?thesis .
qed

lemma wfi_equiv: "decode raw = Ok (System X0 X0 0 0x105) \<Longrightarrow>
    finish_micro pc len (exec_micro ops bpc (transcode (System X0 X0 0 0x105) off len) s) = exec_op ops (System X0 X0 0 0x105) raw pc len s"
  by (drule decode_wfi) (simp add: transcode_system_def exec_system_def exec_priv_def Let_def)

lemma exec_micro_equiv:
  assumes "in_block d" "decode raw = Ok d" "op_wf d" "regs (fst s) 0 = 0" "\<not> bit pc 0" "pc = bpc + ucast off"
  shows "same_outcome (finish_micro pc len (exec_micro ops bpc (transcode d off len) s)) (exec_op ops d raw pc len s)"
proof (cases d)
  case (Jal rd imm)
  then show ?thesis
    using assms(3,5,6) even_jump [of pc imm pc "apfst (write_reg rd (pc + ucast len)) s"]
    by (simp add: finish_micro_def exec_jal_def Let_def)
next
  case (Jalr rd rs1 imm)
  then show ?thesis
    using assms(4,6) by (simp add: finish_micro_def exec_jalr_def Let_def aligned_jump)
next
  case (Branch rs1 rs2 imm f3)
  show ?thesis
    unfolding Branch transcode.simps
    by (rule same_outcome_eqI, rule branch_equiv) (use assms Branch in simp_all)
next
  case (OpImm rd rs1 imm f3 f7)
  show ?thesis
    unfolding OpImm transcode.simps
    by (rule same_outcome_eqI, rule alu_imm_equiv) (use assms OpImm in simp_all)
next
  case (Op rd rs1 rs2 f3 f7)
  show ?thesis
    unfolding Op transcode.simps
    by (rule same_outcome_eqI, rule alu_equiv) (use assms Op in simp_all)
next
  case (OpImm32 rd rs1 imm f3 f7)
  show ?thesis
    unfolding OpImm32 transcode.simps
    by (rule same_outcome_eqI, rule alu_imm32_equiv) (use assms OpImm32 in simp_all)
next
  case (Op32 rd rs1 rs2 f3 f7)
  show ?thesis
    unfolding Op32 transcode.simps
    by (rule same_outcome_eqI, rule alu32_equiv) (use assms Op32 in simp_all)
next
  case (System rd rs1 f3 imm)
  then show ?thesis using assms(1,2) by (auto intro!: same_outcome_eqI wfi_equiv simp del: transcode.simps exec_op.simps)
next
  case (Load rd rs1 imm f3)
  show ?thesis
    unfolding Load transcode.simps exec_op.simps
    by (rule same_outcome_eqI, rule load_op_equiv) (use assms Load in simp_all)
qed (use assms in \<open>simp_all add: store_op_equiv\<close>)

subsection \<open>Blocks\<close>

text \<open>An instruction of a block: its decoding, its (expanded) encoding and its length.  \<open>micro_list\<close> is what the
  compiler stores for a sequence of instructions, \<open>interp_block\<close> what the interpreter does with it: an operation
  that leaves the block is executed by \<open>step_single\<close>, and a jump or branch ends it.\<close>

type_synonym insn = "op \<times> u32 \<times> u8"

primrec micro_list :: "u16 \<Rightarrow> insn list \<Rightarrow> micro_op list" where
  "micro_list off [] = []"
| "micro_list off (x # xs) = (case x of (d, raw, len) \<Rightarrow> transcode d off len # micro_list (off + ucast len) xs)"

definition ends_block :: "op \<Rightarrow> bool" where
  "ends_block d \<longleftrightarrow> is_terminator (transcode d 0 0)"

definition leaves_block :: "op \<Rightarrow> bool" where
  "leaves_block d \<longleftrightarrow> ends_block d \<and> \<not> in_block d"

definition bytes :: "insn list \<Rightarrow> nat" where
  "bytes xs = sum_list (map (\<lambda>(d, raw, len). unat len) xs)"

primrec interp_block :: "'b bus_ops \<Rightarrow> u64 \<Rightarrow> insn list \<Rightarrow> 'b machine \<Rightarrow> (unit, trap) result \<times> 'b machine" where
  "interp_block ops pc [] s = (Ok (), apfst (\<lambda>c. c\<lparr> cpu_pc := pc \<rparr>) s)"
| "interp_block ops pc (x # xs) s =
     (case x of (d, raw, len) \<Rightarrow>
        if leaves_block d then step_single ops (apfst (\<lambda>c. c\<lparr> cpu_pc := pc \<rparr>) s)
        else bindS (exec_op ops d raw pc len s) (\<lambda>next_pc s.
               if ends_block d then (Ok (), apfst (\<lambda>c. c\<lparr> cpu_pc := next_pc \<rparr>) s)
               else interp_block ops next_pc xs s))"

lemmas transcode_defs = transcode_branch_def transcode_load_def transcode_store_def transcode_op_imm_def
  transcode_op_def transcode_op_imm32_def transcode_op32_def transcode_system_def transcode_amo_def

lemma ends_block_eq: "is_terminator (transcode d off len) = ends_block d"
  unfolding ends_block_def by (cases d) (simp_all add: transcode_defs Let_def)

lemma leaves_block_exits:
  assumes "leaves_block d"
  shows "exec_micro ops bpc (transcode d off len) s = (Ok (Some (BlockExit (bpc + ucast off))), s)"
  using assms
  by (cases d) (auto simp: leaves_block_def ends_block_def transcode_defs branch_taken_def Let_def exit_step_def split: if_splits)

text \<open>What is neither in a block nor leaves one, the interpreter never completes.\<close>

lemma arith_None:
  "branch_taken f3 0 0 = None \<Longrightarrow> branch_taken f3 a b = None" "alu_imm f3 f7 0 0 = None \<Longrightarrow> alu_imm f3 f7 a b = None"
  "alu_reg f3 f7 0 0 = None \<Longrightarrow> alu_reg f3 f7 a b = None" "alu_imm32 f3 f7 0 0 = None \<Longrightarrow> alu_imm32 f3 f7 a b = None"
  "alu_reg32 f3 f7 0 0 = None \<Longrightarrow> alu_reg32 f3 f7 a b = None"
  by (simp_all add: branch_taken_def alu_imm_def alu_reg_def alu_imm32_def alu_reg32_def Let_def split: if_splits)

lemma not_ok_simps: "\<not> is_ok (fst (illegal raw pc s))" "\<not> is_ok (fst (trapM e pc s))"
  by (simp_all add: illegal_def trapM_eq is_ok_def)

lemma is_ok_bindS: "(\<And>a s. \<not> is_ok (fst (f a s))) \<Longrightarrow> \<not> is_ok (fst (bindS m f))"
  by (cases m; cases "fst m") simp_all

lemma sfence_imm: "raw AND 0xFE00707F = 0x12000073 \<Longrightarrow> shr (shr raw 20 AND 0xFFF) 5 AND 0x7F = (9 :: u32)"
proof -
  assume "raw AND 0xFE00707F = 0x12000073"
  moreover have "shr (shr raw 20 AND 0xFFF) 5 AND 0x7F = shr (raw AND 0xFE00707F) 25"
    by (rule word_eq_bits, unfold bitx, simp add: positions bit_and_iff)
  ultimately show ?thesis by simp
qed

lemma priv_words: "decode 0x00100073 = Ok (System X0 X0 0 1)" "decode 0x10500073 = Ok (System X0 X0 0 0x105)"
  "decode 0x00000073 = Ok (System X0 X0 0 0)" "decode 0x30200073 = Ok (System X0 X0 0 0x302)" "decode 0x10200073 = Ok (System X0 X0 0 0x102)"
  by code_simp+

lemma priv_illegal:
  assumes "decode raw = Ok (System rd rs1 0 imm)" "\<not> in_block (System rd rs1 0 imm)" "\<not> leaves_block (System rd rs1 0 imm)"
  shows "exec_priv raw pc len s = illegal raw pc s"
proof -
  have imm: "imm \<notin> {0, 1, 0x302, 0x102}" "shr imm 5 AND 0x7F \<noteq> 9 \<or> imm = 0x105" "imm = 0x105 \<longrightarrow> rd \<noteq> X0 \<or> rs1 \<noteq> X0"
    using assms(2,3) by (auto simp: leaves_block_def ends_block_def transcode_system_def Let_def split: if_splits)
  have "raw AND 0xFE00707F \<noteq> 0x12000073" using sfence_imm [of raw] system_fields(5) [OF assms(1)] imm(2) by auto
  moreover have "raw \<noteq> 0x00100073" "raw \<noteq> 0x10500073" "raw \<noteq> 0x00000073" "raw \<noteq> 0x30200073" "raw \<noteq> 0x10200073"
    using assms(1) imm priv_words by auto
  ultimately show ?thesis by (simp add: exec_priv_def Let_def)
qed

lemma excluded_never_completes:
  assumes "decode raw = Ok d" "\<not> in_block d" "\<not> leaves_block d"
  shows "\<not> is_ok (fst (exec_op ops d raw pc len s))"
proof (cases d)
  case (Store rs1 rs2 imm f3)
  then have "store_access ops f3 = (\<lambda>pa v. None)"
    using assms(2) by (auto simp: store_access_def fun_eq_iff word_less_nat_alt)
  then show ?thesis by (simp add: Store exec_store_def Let_def is_ok_bindS not_ok_simps)
next
  case (System rd rs1 f3 imm)
  show ?thesis
  proof (cases "f3 = 0")
    case True
    with assms System have "exec_priv raw pc len s = illegal raw pc s" by (intro priv_illegal) auto
    with True show ?thesis by (simp add: System exec_system_def not_ok_simps)
  next
    case False
    then have "f3 \<notin> {1, 2, 3, 5, 6, 7}" using assms(2,3) System
      by (auto simp: leaves_block_def ends_block_def transcode_system_def Let_def)
    with False show ?thesis by (simp add: System exec_system_def not_ok_simps)
  qed
next
  case (Amo rd rs1 rs2 f3 f5 aq rl)
  then have "f5 \<notin> {2, 3}" "amo_access ops f5 = None"
    using assms(2,3) by (auto simp: leaves_block_def ends_block_def transcode_amo_def Let_def amo_access_def split: if_splits)
  then show ?thesis by (simp add: Amo exec_amo_def Let_def is_ok_bindS not_ok_simps)
next
  case (Load rd rs1 imm f3)
  then have "load_access ops f3 = None"
    using assms(2) by (auto simp: load_access_def word_less_nat_alt)
  then show ?thesis by (simp add: Load exec_load_def Let_def not_ok_simps)
qed (use assms(2) in \<open>simp_all add: exec_branch_def exec_alu_def not_ok_simps arith_None\<close>)

lemma load_step_shape:
  "load_step ops f rd a pc s = (Ok r, s') \<Longrightarrow> r = None \<or> (\<exists>e p. r = Some (BlockTrap e p))"
  by (auto simp: load_step_def matchS_def split: prod.splits result.splits)

lemma store_step_shape:
  "store_step ops f a pc s = (Ok r, s') \<Longrightarrow> r = None \<or> (\<exists>e p. r = Some (BlockTrap e p))"
  by (auto simp: store_step_def matchS_def split: prod.splits result.splits)

lemma exec_micro_shape:
  assumes "exec_micro ops bpc m s = (Ok r, s')"
  shows "if is_terminator m then (\<exists>n. r = Some (BlockContinue n)) \<or> (\<exists>n. r = Some (BlockExit n))
    else r = None \<or> (\<exists>e p. r = Some (BlockTrap e p))"
  using assms
  by (cases m) (auto simp: alu_step_def branch_step_def exit_step_def Let_def dest: load_step_shape store_step_shape)

subsection \<open>Register 0 inside a block\<close>

lemma translate_block_x0: "translate_addr_for_block ops a ac s = (r, s') \<Longrightarrow> regs (fst s') = regs (fst s)"
  by (cases s) (auto simp: translate_addr_for_block_def split: prod.splits)

lemma set_at_x0: "regs (set_at r v c) 0 = regs c 0"
  by (simp add: set_at_def unat_eq_0)

lemma on_bus_fst: "on_bus f s = (r, s') \<Longrightarrow> fst s' = fst s"
  by (auto simp: on_bus_def split: prod.splits)

lemma clear_reservation_regs [simp]: "regs (clear_reservation_if_conflict a c) = regs c"
  by (simp add: clear_reservation_if_conflict_def split: option.split)

lemma mem_step_x0:
  "load_step ops f rd a pc s = (r, s') \<Longrightarrow> regs (fst s') 0 = regs (fst s) 0"
  "store_step ops g a pc s = (r, s') \<Longrightarrow> regs (fst s') 0 = regs (fst s) 0"
  by (auto simp: load_step_def store_step_def matchS_def set_at_x0 split: prod.splits result.splits
      dest!: translate_block_x0 on_bus_fst)

lemma exec_micro_x0:
  assumes "exec_micro ops bpc m s = (r, s')"
  shows "regs (fst s') 0 = regs (fst s) 0"
  using assms
  by (cases m) (auto simp: alu_step_def branch_step_def exit_step_def Let_def set_at_x0 dest: mem_step_x0)

subsection \<open>A block and its instructions\<close>

definition run_micros ::
  "'b bus_ops \<Rightarrow> u64 \<Rightarrow> micro_op list \<Rightarrow> u64 \<Rightarrow> 'b machine \<Rightarrow> (unit, trap) result \<times> 'b machine" where
  "run_micros ops bpc ms end_pc s = bindS (exec_micros ops bpc ms s) (\<lambda>r s.
     handle_block_result ops (case r of Some res \<Rightarrow> res | None \<Rightarrow> BlockContinue end_pc) s)"

lemma run_micros_Cons:
  "run_micros ops bpc (m # ms) end_pc s = bindS (exec_micro ops bpc m s) (\<lambda>r s.
     case r of Some res \<Rightarrow> handle_block_result ops res s | None \<Rightarrow> run_micros ops bpc ms end_pc s)"
  by (cases "exec_micro ops bpc m s"; cases "fst (exec_micro ops bpc m s)")
    (auto simp: run_micros_def split: option.split)

definition faithful :: "insn \<Rightarrow> bool" where
  "faithful x \<longleftrightarrow> (case x of (d, raw, len) \<Rightarrow> (in_block d \<or> leaves_block d) \<and> decode raw = Ok d \<and> op_wf d \<and> len \<in> {2, 4})"

lemma ucast_off:
  assumes "unat off + unat len < 2 ^ 16"
  shows "(ucast (off + ucast (len :: u8) :: u16) :: u64) = ucast off + ucast len"
proof -
  have "unat (ucast len :: u16) = unat len" by (simp add: unat_ucast_up)
  moreover have "unat (ucast off + ucast len :: u64) = unat off + unat len"
    using assms by (simp add: unat_word_ariths unat_ucast_up)
  ultimately show ?thesis
    using assms by (simp add: word_unat_eq_iff unat_ucast_up unat_word_ariths del: unat_inj_iff)
qed

lemma in_block_no_exit:
  assumes "in_block d"
  shows "exec_micro ops bpc (transcode d off len) s \<noteq> (Ok (Some (BlockExit n)), s')"
proof
  assume *: "exec_micro ops bpc (transcode d off len) s = (Ok (Some (BlockExit n)), s')"
  from exec_micro_shape [OF this] have "ends_block d" by (auto simp: ends_block_eq split: if_splits)
  with assms * show False
    by (cases d) (auto simp: ends_block_def transcode_defs Let_def branch_step_def split: if_splits)
qed

lemma block_equiv:
  assumes "list_all faithful xs" "unat off + bytes xs < 2 ^ 16" "regs (fst s) 0 = 0" "\<not> bit (bpc + ucast off) 0"
  shows "same_outcome (run_micros ops bpc (micro_list off xs) (bpc + ucast off + word_of_nat (bytes xs)) s)
    (interp_block ops (bpc + ucast off) xs s)"
  using assms
proof (induction xs arbitrary: off s)
  case Nil
  then show ?case by (simp add: run_micros_def bytes_def handle_block_result_def)
next
  case (Cons x xs)
  obtain d raw len where x: "x = (d, raw, len)" by (rule prod_cases3)
  define pc where "pc = bpc + ucast off"
  have wf: "op_wf d" "len \<in> {2, 4}" "decode raw = Ok d" and ok: "in_block d \<or> leaves_block d"
    using Cons.prems(1) by (simp_all add: x faithful_def)
  have bytes: "bytes (x # xs) = unat len + bytes xs" by (simp add: bytes_def x)
  show ?case
  proof (cases "leaves_block d")
    case True
    then show ?thesis
      by (simp add: x run_micros_Cons leaves_block_exits handle_block_result_def pc_def [symmetric])
  next
    case False
    with ok have "in_block d" by simp
    obtain r s1 where m: "exec_micro ops bpc (transcode d off len) s = (r, s1)" by (rule prod.exhaust)
    have eq: "same_outcome (finish_micro pc len (r, s1)) (exec_op ops d raw pc len s)"
      using exec_micro_equiv [OF \<open>in_block d\<close> wf(3,1) Cons.prems(3,4) refl, of len ops] m by (simp add: pc_def)
    have step: ?thesis if "r = Ok None"
    proof -
      have e: "exec_op ops d raw pc len s = (Ok (pc + ucast len), s1)"
        using eq that by (intro same_outcome_Ok) simp
      have ne: "\<not> ends_block d"
        using exec_micro_shape [OF m [unfolded that]] by (auto simp: ends_block_eq split: if_splits)
      have off: "(ucast (off + ucast len) :: u64) = ucast off + ucast len"
        using Cons.prems(2) by (intro ucast_off) (simp add: bytes)
      have uoff: "unat (off + ucast len) = unat off + unat len"
        using Cons.prems(2) by (simp add: bytes unat_word_ariths unat_ucast_up)
      have even: "\<not> bit (bpc + ucast (off + ucast len)) 0"
        using Cons.prems(4) wf(2) by (auto simp: off bit_0 add.assoc [symmetric])
      have x0: "regs (fst s1) 0 = 0" using exec_micro_x0 [OF m] Cons.prems(3) by simp
      let ?E = "bpc + ucast off + word_of_nat (bytes (x # xs))"
      have "run_micros ops bpc (micro_list off (x # xs)) ?E s = run_micros ops bpc (micro_list (off + ucast len) xs) ?E s1"
        by (simp add: x run_micros_Cons m that)
      moreover have "interp_block ops (bpc + ucast off) (x # xs) s = interp_block ops (bpc + ucast (off + ucast len)) xs s1"
        using e False ne by (simp add: x off pc_def add.assoc)
      moreover have "?E = bpc + ucast (off + ucast len) + word_of_nat (bytes xs)" by (simp add: bytes off add.assoc)
      moreover have "same_outcome (run_micros ops bpc (micro_list (off + ucast len) xs)
          (bpc + ucast (off + ucast len) + word_of_nat (bytes xs)) s1)
        (interp_block ops (bpc + ucast (off + ucast len)) xs s1)"
        using Cons.prems(1,2) even x0 by (intro Cons.IH) (simp_all add: uoff bytes)
      ultimately show ?thesis by (simp only:)
    qed
    show ?thesis
    proof (cases r)
      case (Ok o')
      show ?thesis
      proof (cases o')
        case None
        with Ok step show ?thesis by simp
      next
        case (Some res)
        note m' = m [unfolded Ok Some]
        show ?thesis
        proof (cases res)
          case (BlockContinue n)
          then have "exec_op ops d raw pc len s = (Ok n, s1)"
            using eq Ok Some by (intro same_outcome_Ok) (simp add: finish_micro_def)
          moreover have "ends_block d"
            using exec_micro_shape [OF m'] BlockContinue by (auto simp: ends_block_eq split: if_splits)
          ultimately show ?thesis
            using m' BlockContinue False by (simp add: x run_micros_Cons handle_block_result_def pc_def)
        next
          case (BlockTrap e p)
          then obtain s2 where s2: "exec_op ops d raw pc len s = (Err e, s2)"
            "no_reservation (apfst (enter_trap e p) s1) = no_reservation s2"
            using eq Ok Some by (auto simp: finish_micro_def trapM_eq dest!: same_outcome_Err)
          then show ?thesis
            using m' BlockTrap False
            by (simp add: x run_micros_Cons handle_block_result_def pc_def trapM_eq same_outcome_def)
        next
          case (BlockExit n)
          then show ?thesis using in_block_no_exit [OF \<open>in_block d\<close>] m' by blast
        qed
      qed
    next
      case (Err e)
      then obtain s2 where "exec_op ops d raw pc len s = (Err e, s2)" "no_reservation s1 = no_reservation s2"
        using eq by (auto simp: finish_micro_def dest!: same_outcome_Err)
      then show ?thesis using m Err False by (simp add: x run_micros_Cons pc_def same_outcome_def)
    next
      case Panic
      then obtain s2 where "exec_op ops d raw pc len s = (Panic, s2)" "no_reservation s1 = no_reservation s2"
        using eq by (auto simp: finish_micro_def dest!: same_outcome_Panic)
      then show ?thesis using m Panic False by (simp add: x run_micros_Cons pc_def same_outcome_def)
    qed
  qed
qed

subsection \<open>What the compiler puts into a block\<close>

text \<open>The instructions that \<open>fetch_insn\<close> delivers from an address on, with their decodings.\<close>

primrec fetched ::
  "'b bus_ops \<Rightarrow> u64 \<Rightarrow> u64 \<Rightarrow> mode \<Rightarrow> u64 \<Rightarrow> insn list \<Rightarrow> tlb \<times> 'b \<Rightarrow> (tlb \<times> 'b) option" where
  "fetched ops satp mst m pc [] s = Some s"
| "fetched ops satp mst m pc (x # xs) s =
     (case x of (d, raw, len) \<Rightarrow>
        case fetch_insn ops satp mst m pc s of
          (Ok f, s) \<Rightarrow> if f = (raw, len) \<and> decode raw = Ok d then fetched ops satp mst m (pc + ucast len) xs s else None
        | (Err e, s) \<Rightarrow> None
        | (Panic, s) \<Rightarrow> None)"

lemma bytes_simps [simp]: "bytes [] = 0" "bytes ((d, raw, len) # xs) = unat len + bytes xs" "bytes (xs @ ys) = bytes xs + bytes ys"
  by (simp_all add: bytes_def)

lemma fetched_snoc:
  "fetched ops satp mst m pc xs s = Some s1 \<Longrightarrow>
    fetch_insn ops satp mst m (pc + word_of_nat (bytes xs)) s1 = (Ok (raw, len), s2) \<Longrightarrow> decode raw = Ok d \<Longrightarrow>
    fetched ops satp mst m pc (xs @ [(d, raw, len)]) s = Some s2"
proof (induction xs arbitrary: pc s)
  case (Cons x xs)
  obtain d' raw' len' where x: "x = (d', raw', len')" by (rule prod_cases3)
  obtain r s' where f: "fetch_insn ops satp mst m pc s = (r, s')" by (rule prod.exhaust)
  then have r: "r = Ok (raw', len')" "decode raw' = Ok d'" and rest: "fetched ops satp mst m (pc + ucast len') xs s' = Some s1"
    using Cons.prems(1) by (cases r; simp add: x split: if_splits)+
  have "fetch_insn ops satp mst m (pc + ucast len' + word_of_nat (bytes xs)) s1 = (Ok (raw, len), s2)"
    using Cons.prems(2) by (simp add: x add.assoc)
  from Cons.IH [OF rest this Cons.prems(3)] show ?case using f r by (simp add: x)
qed simp

lemma micro_list_append:
  "micro_list off (xs @ ys) = micro_list off xs @ micro_list (off + word_of_nat (bytes xs)) ys"
proof (induction xs arbitrary: off)
  case (Cons x xs)
  obtain d raw len where x: "x = (d, raw, len)" by (rule prod_cases3)
  have "(word_of_nat (unat len) :: u16) = ucast len" by simp
  then show ?case by (simp add: x Cons.IH add.assoc)
qed simp

lemma fetch_insn_len: "fetch_insn ops satp mst m pc s = (Ok (raw, len), s') \<Longrightarrow> len \<in> {2, 4}"
  by (auto simp: fetch_insn_def fetch_halves_def expand_low_def bindS_def matchS_def
      split: if_splits prod.splits result.splits)

lemma fetched_even: "fetched ops satp mst m pc (x # xs) s = Some s' \<Longrightarrow> pc mod 2 = 0"
proof (rule ccontr)
  assume f: "fetched ops satp mst m pc (x # xs) s = Some s'" and "pc mod 2 \<noteq> 0"
  then have "fetch_insn ops satp mst m pc s = (Err (InstructionAddressMisaligned pc), s)" by (simp add: fetch_insn_def)
  with f show False by (cases x) simp
qed

text \<open>\<open>holds blk xs\<close>: the block is the transcoding of the instructions \<open>xs\<close>.\<close>

definition holds :: "block \<Rightarrow> insn list \<Rightarrow> bool" where
  "holds blk xs \<longleftrightarrow> ops_slice blk = micro_list 0 xs \<and> unat (byte_len blk) = bytes xs \<and> length xs = unat (blk_len blk)
     \<and> length xs \<le> MAX_BLOCK_SIZE \<and> list_all (\<lambda>(d, raw, len). decode raw = Ok d \<and> len \<in> {2, 4}) xs"

lemma bytes_bound: "list_all (\<lambda>(d, raw, len). decode raw = Ok d \<and> len \<in> {2, 4}) xs \<Longrightarrow> bytes xs \<le> 4 * length xs"
  by (induction xs) auto

lemma holds_new: "holds (block_new pc pa g) []"
  by (simp add: holds_def block_new_def ops_slice_def)

lemma holds_push:
  assumes "holds blk xs" "block_push (transcode d (word_of_nat (bytes xs)) len) len blk = (True, blk')"
    and "decode raw = Ok d" "len \<in> {2, 4}"
  shows "holds blk' (xs @ [(d, raw, len)])"
proof -
  have "length xs < 64" "byte_len blk' = byte_len blk + ucast len"
    using assms(1,2) by (auto simp: block_push_def holds_def MAX_BLOCK_SIZE_def split: if_splits)
  moreover have "bytes xs \<le> 256" "unat len \<le> 4"
    using assms(1,4) bytes_bound [of xs] by (auto simp: holds_def MAX_BLOCK_SIZE_def)
  ultimately have "unat (byte_len blk') = bytes xs + unat len"
    using assms(1) by (simp add: holds_def unat_word_ariths unat_ucast_up)
  then show ?thesis
    using assms ops_slice_push [OF assms(2)] by (simp add: holds_def micro_list_append)
qed

lemma compile_loop_holds:
  assumes "holds blk xs" "fetched ops satp mst m (start_pc blk) xs s0 = Some s" "pc = start_pc blk + word_of_nat (bytes xs)"
    and "off = word_of_nat (bytes xs)" "compile_loop ops satp mst m pc off blk s = (Ok (CompileOk res), s')"
  shows "\<exists>ys. ys \<noteq> [] \<and> holds res ys \<and> (\<exists>s1. fetched ops satp mst m (start_pc blk) ys s0 = Some s1) \<and> start_pc res = start_pc blk"
  using assms
proof (induction "65 - unat (blk_len blk)" arbitrary: pc off blk s xs rule: less_induct)
  case less
  obtain r s1 where r: "compile_round ops satp mst m pc off blk s = (r, s1)" by (rule prod.exhaust)
  obtain f s2 where f: "fetch_insn ops satp mst m pc s = (f, s2)" by (rule prod.exhaust)
  have keep: ?case if "res = blk" "xs \<noteq> []" using that less.prems(1,2) by auto
  have ne: "xs \<noteq> []" if "blk_len blk > 0" using that less.prems(1) by (auto simp: holds_def word_less_nat_alt)
  have loop: "compile_loop ops satp mst m pc off blk s = (case (r, s1) of (Ok (Inl res), s) \<Rightarrow> (Ok res, s)
      | (Ok (Inr (blk, pc, off)), s) \<Rightarrow> compile_loop ops satp mst m pc off blk s | (Err e, s) \<Rightarrow> (Err e, s) | (Panic, s) \<Rightarrow> (Panic, s))"
    by (subst compile_loop.simps) (simp add: r)
  have stop: ?case if "r = Ok (Inl (give_up blk e))" for e
    using that loop less.prems(5) keep ne by (auto simp: give_up_def split: if_splits)
  show ?case
  proof (cases f)
    case (Ok fl)
    obtain raw len where fl: "fl = (raw, len)" by (rule prod.exhaust)
    show ?thesis
    proof (cases "decode raw")
      case d: (Ok d)
      obtain q b where pu: "block_push (transcode d off len) len blk = (q, b)" by (rule prod.exhaust)
      show ?thesis
      proof (cases q)
        case False
        then have "b = blk" "blk_len blk > 0"
          using pu by (auto simp: block_push_def MAX_BLOCK_SIZE_def word_less_nat_alt split: if_splits)
        moreover have "r = Ok (Inl (CompileOk b))"
          using r f Ok fl d pu False by (simp add: compile_round_def)
        ultimately show ?thesis using loop less.prems(5) keep ne by auto
      next
        case True
        have len: "len \<in> {2, 4}" using f Ok fl fetch_insn_len by blast
        have h: "holds b (xs @ [(d, raw, len)])"
          using holds_push [OF less.prems(1) _ d len] pu True less.prems(4) by simp
        have fe: "fetched ops satp mst m (start_pc blk) (xs @ [(d, raw, len)]) s0 = Some s2"
          using fetched_snoc [OF less.prems(2) _ d] f Ok fl less.prems(3) by simp
        have sp: "start_pc b = start_pc blk" using block_push_keeps [OF pu] by simp
        have lt: "65 - unat (blk_len b) < 65 - unat (blk_len blk)"
          using ops_slice_push(2,3) [of "transcode d off len" len blk b] pu True by (simp add: MAX_BLOCK_SIZE_def)
        have r': "r = Ok (Inl (CompileOk b)) \<or> r = Ok (Inr (b, pc + ucast len, off + ucast len))" "s1 = s2"
          using r f Ok fl d pu True by (auto simp: compile_round_def Let_def split: if_splits)
        from r'(1) show ?thesis
        proof
          assume "r = Ok (Inl (CompileOk b))"
          then show ?thesis using loop less.prems(5) h fe sp by auto
        next
          assume "r = Ok (Inr (b, pc + ucast len, off + ucast len))"
          then have "compile_loop ops satp mst m (pc + ucast len) (off + ucast len) b s2 = (Ok (CompileOk res), s')"
            using loop less.prems(5) r'(2) by simp
          from less.hyps [OF lt h _ _ _ this] fe sp less.prems(3,4) show ?thesis by (simp add: add.assoc)
        qed
      qed
    qed (use r f Ok fl stop loop less.prems(5) in \<open>auto simp: compile_round_def\<close>)
  qed (use r f stop loop less.prems(5) in \<open>auto simp: compile_round_def\<close>)
qed

lemma run_block_eq:
  "bindS (execute_block_inner ops blk s) (handle_block_result ops)
    = run_micros ops (start_pc blk) (ops_slice blk) (start_pc blk + ucast (byte_len blk)) s"
  unfolding execute_block_inner_def run_micros_def
  by (cases "exec_micros ops (start_pc blk) (ops_slice blk) s"; cases "fst (exec_micros ops (start_pc blk) (ops_slice blk) s)") auto

text \<open>C1: The superblock engine agrees with the interpreter.  Whatever block the compiler returns for an address,
  it was built from a non-empty sequence of at most 64 instructions that the fetch unit delivered from
  that address on.  Unless one of them is an instruction that the engine neither executes itself nor leaves to the
  interpreter, executing the block has, in every machine state with x0 = 0, the outcome of interpreting these instructions one
  after the other: the same result, the same state on success, and on a trap a state that can differ
  only in the reservation.  The instructions excluded in this way are encodings that the interpreter refuses: it never
  completes one, in any state.\<close>

theorem compiled_block_equiv:
  assumes "compile ops satp mst m pc g t = (Ok (CompileOk blk), t')" "regs (fst s) 0 = 0"
  shows "\<exists>pa t1 t2 xs. translate ops m satp mst pc Instruction t = (Ok pa, t1) \<and> fetched ops satp mst m pc xs t1 = Some t2 \<and>
    xs \<noteq> [] \<and> length xs \<le> MAX_BLOCK_SIZE \<and>
    list_all (\<lambda>(d, raw, len). in_block d \<or> leaves_block d \<or> (\<forall>pc' s'. \<not> is_ok (fst (exec_op ops d raw pc' len s')))) xs \<and>
    (list_all (\<lambda>(d, raw, len). in_block d \<or> leaves_block d) xs \<longrightarrow>
      same_outcome (bindS (execute_block_inner ops blk s) (handle_block_result ops)) (interp_block ops pc xs s))"
proof -
  obtain pa t1 where tr: "translate ops m satp mst pc Instruction t = (Ok pa, t1)"
    and loop: "compile_loop ops satp mst m pc 0 (block_new pc pa g) t1 = (Ok (CompileOk blk), t')"
    using assms(1) by (auto simp: compile_def matchS_def split: prod.splits result.splits)
  have sp: "start_pc (block_new pc pa g) = pc" by (simp add: block_new_def)
  obtain ys t2 where ys: "ys \<noteq> []" "holds blk ys" "fetched ops satp mst m pc ys t1 = Some t2" "start_pc blk = pc"
    using compile_loop_holds [OF holds_new [of pc pa g] _ _ _ loop] by (auto simp: sp)
  have "same_outcome (bindS (execute_block_inner ops blk s) (handle_block_result ops)) (interp_block ops pc ys s)"
    if "list_all (\<lambda>(d, raw, len). in_block d \<or> leaves_block d) ys"
  proof -
    have faith: "list_all faithful ys"
      using that ys(2) unfolding list_all_iff faithful_def holds_def by (auto intro: decode_op_wf)
    have "bytes ys \<le> 256" using ys(2) bytes_bound [of ys] by (simp add: holds_def MAX_BLOCK_SIZE_def)
    moreover obtain x zs where "ys = x # zs" using ys(1) by (cases ys) auto
    with ys(3) have "pc mod 2 = 0" by (simp only: fetched_even)
    then have "\<not> bit pc 0" by (simp add: bit_0 even_iff_mod_2_eq_zero)
    ultimately have "same_outcome (run_micros ops pc (micro_list 0 ys) (pc + ucast (0 :: u16) + word_of_nat (bytes ys)) s)
        (interp_block ops (pc + ucast (0 :: u16)) ys s)"
      using faith assms(2) by (intro block_equiv) simp_all
    moreover have "(ucast (byte_len blk) :: u64) = word_of_nat (bytes ys)"
      using ys(2) unfolding holds_def by (metis of_nat_unat)
    ultimately show ?thesis
      using ys(2,4) by (simp add: run_block_eq holds_def)
  qed
  moreover have "list_all (\<lambda>(d, raw, len). in_block d \<or> leaves_block d \<or> (\<forall>pc' s'. \<not> is_ok (fst (exec_op ops d raw pc' len s')))) ys"
    using ys(2) excluded_never_completes unfolding holds_def list_all_iff by fast
  moreover have "length ys \<le> MAX_BLOCK_SIZE" using ys(2) by (simp add: holds_def)
  ultimately show ?thesis using tr ys(1,3) by blast
qed

text \<open>A memory that holds \<open>addi x1, x0, 5\<close> at \<open>0x80000000\<close> and \<open>jal x0, 0\<close> everywhere else.\<close>

definition demo_bus :: "unit bus_ops" where
  "demo_bus = \<lparr> bus_read8 = (\<lambda>a m. (Err (LoadAccessFault a), m)), bus_read16 = (\<lambda>a m. (Err (LoadAccessFault a), m)),
     bus_read32 = (\<lambda>a m. (Ok (if a = 0x80000000 then 0x00500093 else 0x0000006F), m)),
     bus_read64 = (\<lambda>a m. (Err (LoadAccessFault a), m)), bus_write8 = (\<lambda>a v m. (Err (StoreAccessFault a), m)),
     bus_write16 = (\<lambda>a v m. (Err (StoreAccessFault a), m)), bus_write32 = (\<lambda>a v m. (Err (StoreAccessFault a), m)),
     bus_write64 = (\<lambda>a v m. (Err (StoreAccessFault a), m)), bus_poll_interrupts_for_hart = (\<lambda>h m. (0, m)) \<rparr>"

definition demo_block :: block where
  "demo_block = snd (block_push (transcode (op.Jal X0 0) 4 4) 4
     (snd (block_push (transcode (OpImm X1 X0 5 0 0) 0 4) 4 (block_new 0x80000000 0x80000000 0))))"

lemma demo_decode: "decode 0x00500093 = Ok (OpImm X1 X0 5 0 0)" "decode 0x0000006F = Ok (op.Jal X0 0)"
  by code_simp+

lemma demo_fetch:
  "pc mod 4 = 0 \<Longrightarrow> fetch_insn demo_bus 0 0 Machine pc s = (Ok (if pc = 0x80000000 then 0x00500093 else 0x0000006F, 4), s)"
proof -
  assume *: "pc mod 4 = 0"
  then have "unat (pc mod 4) = 0" by simp
  then have "unat pc mod 4 = 0" by (simp add: unat_mod)
  then have "unat pc mod 2 = 0" by presburger
  then have "pc mod 2 = 0" by (simp add: word_unat_eq_iff unat_mod del: unat_inj_iff)
  then show ?thesis using *
    by (cases s) (simp add: fetch_insn_def translate_def on_bus_def demo_bus_def)
qed

lemma demo_compile: "compile demo_bus 0 0 Machine 0x80000000 0 (tlb_new, ()) = (Ok (CompileOk demo_block), (tlb_new, ()))"
proof -
  define b1 where "b1 = snd (block_push (transcode (OpImm X1 X0 5 0 0) 0 4) 4 (block_new 0x80000000 0x80000000 0))"
  have p1: "block_push (transcode (OpImm X1 X0 5 0 0) 0 4) 4 (block_new 0x80000000 0x80000000 0) = (True, b1)"
    by (simp add: b1_def block_push_def block_new_def MAX_BLOCK_SIZE_def)
  have p2: "block_push (transcode (op.Jal X0 0) 4 4) 4 b1 = (True, demo_block)" "start_pc b1 = 0x80000000"
    by (simp_all add: b1_def demo_block_def block_push_def block_new_def MAX_BLOCK_SIZE_def)
  have "compile_round demo_bus 0 0 Machine 0x80000000 0 (block_new 0x80000000 0x80000000 0) (tlb_new, ())
      = (Ok (Inr (b1, 0x80000004, 4)), (tlb_new, ()))"
    unfolding compile_round_def using p1 p2(2)
    by (simp add: demo_fetch demo_decode Let_def transcode_op_imm_def)
  moreover have "compile_round demo_bus 0 0 Machine 0x80000004 4 b1 (tlb_new, ()) = (Ok (Inl (CompileOk demo_block)), (tlb_new, ()))"
    unfolding compile_round_def using p2 by (simp add: demo_fetch demo_decode Let_def)
  ultimately show ?thesis
    by (simp add: compile_def translate_def compile_loop.simps)
qed

lemma demo_fetch_any: "fetch_insn demo_bus 0 0 Machine pc s = (Ok (raw, len), s') \<Longrightarrow> raw \<in> {0x00500093, 0x0000006F}"
  by (cases s) (auto simp: fetch_insn_def fetch_halves_def translate_def on_bus_def demo_bus_def split: if_splits)

lemma demo_fetched:
  "fetched demo_bus 0 0 Machine pc xs s = Some s' \<Longrightarrow> list_all (\<lambda>(d, raw, len). in_block d \<or> leaves_block d) xs"
proof (induction xs arbitrary: pc s)
  case (Cons x xs)
  obtain d raw len where x: "x = (d, raw, len)" by (rule prod_cases3)
  obtain r s1 where f: "fetch_insn demo_bus 0 0 Machine pc s = (r, s1)" by (rule prod.exhaust)
  then have r: "r = Ok (raw, len)" "decode raw = Ok d" and rest: "fetched demo_bus 0 0 Machine (pc + ucast len) xs s1 = Some s'"
    using Cons.prems by (cases r; simp add: x split: if_splits)+
  have "raw \<in> {0x00500093, 0x0000006F}" using f r(1) by (intro demo_fetch_any) simp
  then have "in_block d" using r(2) demo_decode by (auto simp: alu_imm_def)
  then show ?case using Cons.IH [OF rest] by (simp add: x)
qed simp

theorem compiled_block_equiv_witness:
  "\<exists>xs. xs \<noteq> [] \<and> same_outcome
     (bindS (execute_block_inner demo_bus demo_block (cpu_new 0x80000000 0, ())) (handle_block_result demo_bus))
     (interp_block demo_bus 0x80000000 xs (cpu_new 0x80000000 0, ()))"
proof -
  have "regs (fst (cpu_new 0x80000000 0, ())) 0 = 0" by (simp add: cpu_new_def Let_def)
  from compiled_block_equiv [OF demo_compile this] show ?thesis using demo_fetched by blast
qed

text \<open>An encoding that is illegal to the interpreter is transcoded to a fence, which the engine executes as a
  no-operation where the interpreter traps: here a load with \<open>funct3 = 7\<close>.\<close>

lemma transcode_illegal:
  "transcode (Load rd rs1 imm 7) off len = micro_op.Fence \<and>
   fst (exec_op ops (Load rd rs1 imm 7) raw pc len s) = Err (IllegalInstruction (zext32 raw))"
  by (simp add: transcode_load_def exec_load_def load_access_def illegal_def trapM_eq)

end
