(* ===== verification/Rv_Trap_Spec.thy ===== *)
theory Rv_Trap_Spec
  imports Rv_Machine
begin

text \<open>
  Traps, interrupts, privilege and reservations: what trap entry saves and the return instructions
  restore, which pending interrupt is taken, that user code stays within its privilege, and when a
  store-conditional succeeds.
\<close>

unbundle bit_operations_syntax

subsection \<open>Bits of \<open>mstatus\<close>\<close>

lemma csr_put_csr [simp]: "csr (put_csr a v c) b = (if a = b then v else csr c b)"
  by (simp add: csr_def put_csr_def)

lemma csr_upd [simp]:
  "csr (c\<lparr> cpu_mode := m \<rparr>) a = csr c a" "csr (c\<lparr> cpu_pc := pc \<rparr>) a = csr c a"
  "csr (c\<lparr> cpu_tlb := t \<rparr>) a = csr c a" "csr (c\<lparr> reservation := r \<rparr>) a = csr c a"
  "csr (c\<lparr> regs := g \<rparr>) a = csr c a" "csr (c\<lparr> decode_cache := d \<rparr>) a = csr c a"
  by (simp_all add: csr_def)

lemma put_csr_upd [simp]: "cpu_mode (put_csr a v c) = cpu_mode c" "cpu_pc (put_csr a v c) = cpu_pc c" "regs (put_csr a v c) = regs c"
  by (simp_all add: put_csr_def)

lemma bit_num: "bit (1 :: u64) n \<longleftrightarrow> n = 0" "bit (3 :: u64) n \<longleftrightarrow> n = 0 \<or> n = 1"
proof -
  show "bit (1 :: u64) n \<longleftrightarrow> n = 0" by (auto simp: bit_1_iff)
  have "(3 :: u64) = mask 2" by (simp add: mask_eq_exp_minus_1)
  then have "bit (3 :: u64) n \<longleftrightarrow> n < 2" by (simp only: bit_mask_iff) auto
  then show "bit (3 :: u64) n \<longleftrightarrow> n = 0 \<or> n = 1" by auto
qed

lemma and_shl_1: "n < 64 \<Longrightarrow> (x AND shl 1 n \<noteq> 0) = bit x n" for x :: u64
  using and_2p_iff [of n x] by (simp add: push_bit_of_1)

lemma to_mpp_bits: "bit (to_mpp m) n \<Longrightarrow> n = 0 \<or> n = 1"
  by (cases m) (auto simp only: to_mpp.simps bit_num bit_0_eq bot_apply bot_bool_def)

lemma bit_mret: "bit (mret_mstatus st) n \<longleftrightarrow> n = 7 \<or> n = 3 \<and> bit st 7 \<or> n \<notin> {3, 7, 11, 12} \<and> bit st n"
  unfolding mret_mstatus_def Let_def bitx bit_and_iff bit_not_iff bit_num
  by (auto simp: bit_num dest: bit_imp_le_length)

lemma bit_sret: "bit (sret_mstatus st) n \<longleftrightarrow> n = 5 \<or> n = 1 \<and> bit st 5 \<or> n \<notin> {1, 5, 8} \<and> bit st n"
  unfolding sret_mstatus_def Let_def bitx bit_and_iff bit_not_iff bit_num
  by (auto simp: bit_num dest: bit_imp_le_length)

lemma bit_m_entry:
  "bit (m_entry_mstatus m st) n \<longleftrightarrow>
    n = 7 \<and> bit st 3 \<or> n \<in> {11, 12} \<and> bit (to_mpp m) (n - 11) \<or> n \<notin> {3, 7, 11, 12} \<and> bit st n"
  unfolding m_entry_mstatus_def Let_def bitx bit_and_iff bit_not_iff bit_num
  by (auto simp: bit_num dest: bit_imp_le_length to_mpp_bits)

lemma bit_s_entry:
  "bit (s_entry_mstatus m st) n \<longleftrightarrow>
    n = 5 \<and> bit st 1 \<or> n = 8 \<and> m = Supervisor \<or> n \<notin> {1, 5, 8} \<and> bit st n"
  unfolding s_entry_mstatus_def Let_def bitx bit_and_iff bit_not_iff bit_num
  by (auto simp: bit_num dest: bit_imp_le_length)

lemma mpp_m_entry: "shr (m_entry_mstatus m st) 11 AND 3 = to_mpp m"
proof (rule bit_word_eqI)
  fix n assume "n < LENGTH(64)"
  show "bit (shr (m_entry_mstatus m st) 11 AND 3) n = bit (to_mpp m) n"
    unfolding bitx bit_m_entry by (auto dest: to_mpp_bits simp: less_Suc_eq numeral_2_eq_2)
qed

subsection \<open>Trap entry and return\<close>

lemma csr_addr_neq [simp]:
  "CSR_SEPC \<noteq> CSR_STVAL" "CSR_SEPC \<noteq> CSR_SCAUSE" "CSR_SEPC \<noteq> CSR_MSTATUS" "CSR_STVAL \<noteq> CSR_SCAUSE" "CSR_STVAL \<noteq> CSR_MSTATUS"
  "CSR_SCAUSE \<noteq> CSR_MSTATUS" "CSR_MEPC \<noteq> CSR_MTVAL" "CSR_MEPC \<noteq> CSR_MCAUSE" "CSR_MEPC \<noteq> CSR_MSTATUS"
  "CSR_MTVAL \<noteq> CSR_MCAUSE" "CSR_MTVAL \<noteq> CSR_MSTATUS" "CSR_MCAUSE \<noteq> CSR_MSTATUS"
  "CSR_MSTATUS \<noteq> CSR_SEPC" "CSR_MSTATUS \<noteq> CSR_STVAL" "CSR_MSTATUS \<noteq> CSR_SCAUSE" "CSR_MSTATUS \<noteq> CSR_MEPC"
  "CSR_MSTATUS \<noteq> CSR_MTVAL" "CSR_MSTATUS \<noteq> CSR_MCAUSE" "CSR_STVAL \<noteq> CSR_SEPC" "CSR_SCAUSE \<noteq> CSR_SEPC" "CSR_SCAUSE \<noteq> CSR_STVAL"
  "CSR_MTVAL \<noteq> CSR_MEPC" "CSR_MCAUSE \<noteq> CSR_MEPC" "CSR_MCAUSE \<noteq> CSR_MTVAL"
  by simp_all

lemma enter_m_state:
  "cpu_mode (enter_m i cause tval pc c) = Machine"
  "csr (enter_m i cause tval pc c) CSR_MEPC = pc" "csr (enter_m i cause tval pc c) CSR_MCAUSE = cause_value i cause"
  "csr (enter_m i cause tval pc c) CSR_MTVAL = tval"
  "csr (enter_m i cause tval pc c) CSR_MSTATUS = m_entry_mstatus (cpu_mode c) (csr c CSR_MSTATUS)"
  by (simp_all add: enter_m_def Let_def)

lemma enter_s_state:
  "cpu_mode (enter_s i cause tval pc c) = Supervisor"
  "csr (enter_s i cause tval pc c) CSR_SEPC = pc" "csr (enter_s i cause tval pc c) CSR_SCAUSE = cause_value i cause"
  "csr (enter_s i cause tval pc c) CSR_STVAL = tval"
  "csr (enter_s i cause tval pc c) CSR_MSTATUS = s_entry_mstatus (cpu_mode c) (csr c CSR_MSTATUS)"
  by (simp_all add: enter_s_def Let_def)

lemma mret_state:
  "cpu_mode (mret c) = from_mpp (shr (csr c CSR_MSTATUS) 11 AND 3)" "csr (mret c) CSR_MSTATUS = mret_mstatus (csr c CSR_MSTATUS)"
  "regs (mret c) = regs c"
  by (simp_all add: mret_def Let_def)

lemma sret_state:
  "cpu_mode (sret c) = (if bit (csr c CSR_MSTATUS) 8 then Supervisor else User)"
  "csr (sret c) CSR_MSTATUS = sret_mstatus (csr c CSR_MSTATUS)" "regs (sret c) = regs c"
  by (simp_all add: sret_def Let_def shr_and_1_iff)

lemma deleg_mode: "deleg_to_s c i cause \<Longrightarrow> cpu_mode c \<noteq> Machine"
  by (auto simp: deleg_to_s_def split: if_splits)

text \<open>The causes of the privileged architecture: whether a trap is an interrupt, its exception code, and its trap value.\<close>

primrec arch_cause :: "trap \<Rightarrow> (bool \<times> nat \<times> u64) option" where
  "arch_cause (InstructionAddressMisaligned addr) = Some (False, 0, addr)"
| "arch_cause (InstructionAccessFault addr) = Some (False, 1, addr)"
| "arch_cause (IllegalInstruction bits) = Some (False, 2, bits)"
| "arch_cause Breakpoint = Some (False, 3, 0)"
| "arch_cause (LoadAddressMisaligned addr) = Some (False, 4, addr)"
| "arch_cause (LoadAccessFault addr) = Some (False, 5, addr)"
| "arch_cause (StoreAddressMisaligned addr) = Some (False, 6, addr)"
| "arch_cause (StoreAccessFault addr) = Some (False, 7, addr)"
| "arch_cause EnvironmentCallFromU = Some (False, 8, 0)"
| "arch_cause EnvironmentCallFromS = Some (False, 9, 0)"
| "arch_cause EnvironmentCallFromM = Some (False, 11, 0)"
| "arch_cause (InstructionPageFault addr) = Some (False, 12, addr)"
| "arch_cause (LoadPageFault addr) = Some (False, 13, addr)"
| "arch_cause (StorePageFault addr) = Some (False, 15, addr)"
| "arch_cause SupervisorSoftwareInterrupt = Some (True, 1, 0)"
| "arch_cause MachineSoftwareInterrupt = Some (True, 3, 0)"
| "arch_cause SupervisorTimerInterrupt = Some (True, 5, 0)"
| "arch_cause MachineTimerInterrupt = Some (True, 7, 0)"
| "arch_cause SupervisorExternalInterrupt = Some (True, 9, 0)"
| "arch_cause MachineExternalInterrupt = Some (True, 11, 0)"
| "arch_cause (RequestedTrap x) = None"
| "arch_cause (Fatal x) = None"

lemma arch_cause_eq: "arch_cause e = Some (i, n, tval) \<Longrightarrow> trap_to_cause_tval e = Some (i, word_of_nat n, tval) \<and> n < 16"
  by (cases e) auto

text \<open>Where a handler starts: at the base of the trap vector, and in vectored mode at the entry of an interrupt.\<close>

definition handler_address :: "u64 \<Rightarrow> bool \<Rightarrow> nat \<Rightarrow> u64" where
  "handler_address tvec i n = tvec div 4 * 4 + (if i \<and> tvec mod 4 = 1 then 4 * word_of_nat n else 0)"

lemma and_not_low_mask: "x AND NOT (mask k) = push_bit k (drop_bit k x)" for x :: u64
  by (rule bit_word_eqI) (auto simp: bit_and_iff bit_not_iff bit_mask_iff bit_push_bit_iff bit_drop_bit_eq)

lemma trap_vector_eq: "trap_vector tvec i (word_of_nat n) = handler_address tvec i n"
proof -
  have "tvec AND 3 = take_bit 2 tvec" by (simp add: take_bit_eq_mask mask_eq_exp_minus_1)
  then have m: "tvec AND 3 = tvec mod 4" by (simp add: take_bit_eq_mod)
  have "tvec AND NOT 3 = tvec div 4 * 4"
    using and_not_low_mask [of tvec 2] by (simp add: mask_eq_exp_minus_1 push_bit_eq_mult drop_bit_eq_div)
  with m show ?thesis by (simp add: trap_vector_def handler_address_def Let_def)
qed

lemma entry_pc:
  "cpu_pc (enter_s i (word_of_nat n) tval pc c) = handler_address (csr c CSR_STVEC) i n"
  "cpu_pc (enter_m i (word_of_nat n) tval pc c) = handler_address (csr c CSR_MTVEC) i n"
  by (simp_all add: enter_s_def enter_m_def Let_def trap_vector_eq)

lemma cause_value_eq:
  assumes "n < 16"
  shows "cause_value i (word_of_nat n) = (if i then 2 ^ 63 else 0) + word_of_nat n"
proof -
  have "list_all (\<lambda>k. cause_value True (word_of_nat k) = 2 ^ 63 + word_of_nat k \<and> cause_value False (word_of_nat k) = word_of_nat k) [0..<16]"
    by code_simp
  then show ?thesis using assms by (simp add: list_all_iff)
qed

text \<open>The return instruction \<open>word\<close> undoes the trap that led from \<open>c\<close> to \<open>h\<close>: executed by a handler that still has the mode, the saved
  address \<open>epc\<close> and the \<open>mstatus\<close> of \<open>h\<close>, whatever else it changed, it continues at \<open>pc\<close> in the mode of \<open>c\<close>, with
  \<open>mstatus\<close> restored but for the given bits.\<close>

definition returns_to :: "'b bus_ops \<Rightarrow> u32 \<Rightarrow> u16 \<Rightarrow> nat set \<Rightarrow> u64 \<Rightarrow> cpu \<Rightarrow> cpu \<Rightarrow> bool" where
  "returns_to ops word epc fs pc c h \<longleftrightarrow> (\<forall>g b hpc len.
     cpu_mode g = cpu_mode h \<and> csr g epc = csr h epc \<and> csr g CSR_MSTATUS = csr h CSR_MSTATUS \<longrightarrow>
     (\<exists>d g'. decode word = Ok d \<and> exec_op ops d word hpc len (g, b) = (Ok pc, g', b) \<and> cpu_mode g' = cpu_mode c \<and> regs g' = regs g \<and>
       (\<forall>k. k \<notin> fs \<longrightarrow> bit (csr g' CSR_MSTATUS) k = bit (csr c CSR_MSTATUS) k)))"

lemma returns_toD:
  assumes "returns_to ops w epc fs pc c h" "decode w = Ok d"
  shows "\<exists>g'. exec_op ops d w hpc len (h, b) = (Ok pc, g', b) \<and> cpu_mode g' = cpu_mode c"
proof -
  have "\<exists>d g'. decode w = Ok d \<and> exec_op ops d w hpc len (h, b) = (Ok pc, g', b) \<and> cpu_mode g' = cpu_mode c"
    using assms(1) unfolding returns_to_def by blast
  then show ?thesis using assms(2) by auto
qed

lemma decode_returns: "decode 0x10200073 = Ok (System X0 X0 0 0x102)" "decode 0x30200073 = Ok (System X0 X0 0 0x302)"
  by code_simp+

lemma sret_returns:
  assumes "cpu_mode c \<noteq> Machine"
  shows "returns_to ops 0x10200073 CSR_SEPC {5, 8} pc c (enter_s i cause tval pc c)"
proof -
  have "cpu_mode c = (if cpu_mode c = Supervisor then Supervisor else User)" using assms by (cases "cpu_mode c") auto
  then show ?thesis
    by (auto simp: returns_to_def decode_returns exec_system_def exec_priv_def Let_def enter_s_state sret_state bit_s_entry bit_sret)
qed

lemma mret_returns: "returns_to ops 0x30200073 CSR_MEPC {7, 11, 12} pc c (enter_m i cause tval pc c)"
  by (auto simp: returns_to_def decode_returns exec_system_def exec_priv_def Let_def enter_m_state mret_state mpp_m_entry bit_m_entry bit_mret)

lemma deleg_to_s_iff:
  assumes "n < 64"
  shows "deleg_to_s c i (word_of_nat n) \<longleftrightarrow> cpu_mode c \<noteq> Machine \<and> bit (csr c (if i then CSR_MIDELEG else CSR_MEDELEG)) n"
proof -
  have "unat (word_of_nat n :: u64) = n" using assms by (simp add: unat_of_nat)
  then show ?thesis using and_shl_1 [OF assms] by (simp add: deleg_to_s_def)
qed

text \<open>C6: Trap entry and the return instructions are inverse.  An architectural trap never lowers the privilege;
  it is taken in supervisor mode when it comes from below machine mode and its bit of the delegation register is set, and in
  machine mode otherwise.  Execution continues at the address that the trap vector of the target mode gives; the address of the
  trap, its architectural cause (with the interrupt bit on top) and its value are in the registers of that mode, and its
  interrupts are masked.  From then on the instruction SRET (respectively MRET), executed by a handler that has not changed the
  mode, the saved address and \<open>mstatus\<close>, continues at the saved address, in the mode and with the interrupt-enable bit of the
  interrupted code; the rest of \<open>mstatus\<close> is restored except the previous-state fields.\<close>

theorem trap_return_roundtrip:
  assumes "arch_cause e = Some (i, n, tval)" "handle_trap e pc c = (r, h)"
  shows "r = Err e \<and> cpu_mode c \<le> cpu_mode h \<and>
    (if cpu_mode c \<noteq> Machine \<and> bit (csr c (if i then CSR_MIDELEG else CSR_MEDELEG)) n then
       cpu_mode h = Supervisor \<and> cpu_pc h = handler_address (csr c CSR_STVEC) i n \<and>
       csr h CSR_SEPC = pc \<and> csr h CSR_SCAUSE = (if i then 2 ^ 63 else 0) + word_of_nat n \<and> csr h CSR_STVAL = tval \<and>
       \<not> bit (csr h CSR_MSTATUS) 1 \<and> returns_to ops 0x10200073 CSR_SEPC {5, 8} pc c h
     else
       cpu_mode h = Machine \<and> cpu_pc h = handler_address (csr c CSR_MTVEC) i n \<and>
       csr h CSR_MEPC = pc \<and> csr h CSR_MCAUSE = (if i then 2 ^ 63 else 0) + word_of_nat n \<and> csr h CSR_MTVAL = tval \<and>
       \<not> bit (csr h CSR_MSTATUS) 3 \<and> returns_to ops 0x30200073 CSR_MEPC {7, 11, 12} pc c h)"
proof -
  let ?cause = "word_of_nat n :: u64"
  have cause: "trap_to_cause_tval e = Some (i, ?cause, tval)" "n < 16" using arch_cause_eq [OF assms(1)] by simp_all
  then have n: "n < 64" by simp
  have h: "h = (if deleg_to_s c i ?cause then enter_s i ?cause tval pc c else enter_m i ?cause tval pc c)" "r = Err e"
    using assms(2) cause(1) by (simp_all add: handle_trap_def)
  show ?thesis
  proof (cases "deleg_to_s c i ?cause")
    case True
    then have "cpu_mode c \<le> Supervisor" using deleg_mode [OF True] by (cases "cpu_mode c") auto
    with True show ?thesis
      using sret_returns [OF deleg_mode [OF True]] unfolding deleg_to_s_iff [OF n] h
      by (auto simp: enter_s_state bit_s_entry entry_pc cause_value_eq [OF cause(2)])
  next
    case False
    then show ?thesis
      using mret_returns [of ops pc c] unfolding deleg_to_s_iff [OF n] h
      by (auto simp: enter_m_state bit_m_entry entry_pc cause_value_eq [OF cause(2)])
  qed
qed

theorem trap_return_roundtrip_witness:
  "\<exists>h g'. handle_trap EnvironmentCallFromU 0x80000100 (put_csr CSR_STVEC 0x80002000 (put_csr CSR_MEDELEG 0x100 ((cpu_new 0 0)\<lparr> cpu_mode := User \<rparr>)))
      = (Err EnvironmentCallFromU :: (unit, trap) result, h) \<and> cpu_pc h = 0x80002000 \<and> csr h CSR_SCAUSE = 8 \<and>
    exec_op dword_bus (System X0 X0 0 0x102) 0x10200073 0x80002040 4 (h, example_mem) = (Ok 0x80000100, g', example_mem) \<and> cpu_mode g' = User"
proof -
  let ?c = "put_csr CSR_STVEC 0x80002000 (put_csr CSR_MEDELEG 0x100 ((cpu_new 0 0)\<lparr> cpu_mode := User \<rparr>))"
  obtain r h where t: "(handle_trap EnvironmentCallFromU 0x80000100 ?c :: (unit, trap) result \<times> cpu) = (r, h)" by (rule prod.exhaust)
  have "bit (csr ?c CSR_MEDELEG) 8" "handler_address (csr ?c CSR_STVEC) False 8 = 0x80002000" by (simp_all add: handler_address_def)
  with trap_return_roundtrip [of EnvironmentCallFromU False 8 0 "0x80000100" ?c r h dword_bus] t
  have "r = Err EnvironmentCallFromU" "cpu_pc h = 0x80002000" "csr h CSR_SCAUSE = 8"
    and ret: "returns_to dword_bus 0x10200073 CSR_SEPC {5, 8} 0x80000100 ?c h" by simp_all
  with t returns_toD [OF ret decode_returns(1), of "0x80002040" 4 example_mem] show ?thesis by simp
qed

subsection \<open>Interrupts\<close>

text \<open>The interrupts in the order of priority, each with its bit, the mode it is taken in and its trap.  It is
  taken when it is pending and enabled, its delegation fits the mode, and the hart is in a lower mode, or
  in that mode with its global enable set.\<close>

definition int_priority :: "(nat \<times> mode \<times> trap) list" where
  "int_priority = [(11, Machine, MachineExternalInterrupt), (3, Machine, MachineSoftwareInterrupt),
     (7, Machine, MachineTimerInterrupt), (9, Supervisor, SupervisorExternalInterrupt),
     (1, Supervisor, SupervisorSoftwareInterrupt), (5, Supervisor, SupervisorTimerInterrupt)]"

definition takeable :: "cpu \<Rightarrow> nat \<times> mode \<times> trap \<Rightarrow> bool" where
  "takeable c x \<longleftrightarrow> (case x of (n, target, _) \<Rightarrow>
     bit (csr c CSR_MIP) n \<and> bit (csr c CSR_MIE) n \<and> bit (csr c CSR_MIDELEG) n = (target = Supervisor) \<and>
     (cpu_mode c < target \<or> cpu_mode c = target \<and> bit (csr c CSR_MSTATUS) (if target = Machine then 3 else 1)))"

lemma mode_less [simp]: "User < Supervisor" "User < Machine" "Supervisor < Machine" "\<not> Machine < m" "\<not> Supervisor < Supervisor"
  by (cases m; simp add: less_mode_def)+

lemma bit_sie: "bit (shl 1 1 OR shl 1 5 OR shl 1 9 :: u64) n \<longleftrightarrow> n \<in> {1, 5, 9}"
  unfolding bitx bit_num by auto

lemma and_shl_ints:
  fixes x :: u64
  shows "(x AND shl 1 11 \<noteq> 0) = bit x 11" "(x AND shl 1 3 \<noteq> 0) = bit x 3" "(x AND shl 1 7 \<noteq> 0) = bit x 7"
    "(x AND shl 1 9 \<noteq> 0) = bit x 9" "(x AND shl 1 1 \<noteq> 0) = bit x 1" "(x AND shl 1 5 \<noteq> 0) = bit x 5"
  by (rule and_shl_1; simp)+

lemma pending_eq: "check_pending_interrupt c = map_option (snd \<circ> snd) (find (takeable c) int_priority)"
  unfolding check_pending_interrupt_def Let_def and_shl_ints bit_and_iff bit_not_iff bit_sie shr_and_1_iff
  by (cases "cpu_mode c") (simp_all add: int_priority_def takeable_def)

lemma takeable_masked:
  assumes "(n, t, e) \<in> set int_priority" "takeable c (n, t, e)"
  shows "cpu_mode (enter_trap e pc c) = t" "\<not> takeable (enter_trap e pc c) (n, t, e)"
proof -
  have tv: "trap_to_cause_tval e = Some (True, word_of_nat n, 0)" "n < 64"
    using assms(1) by (auto simp: int_priority_def)
  have "deleg_to_s c True (word_of_nat n) \<longleftrightarrow> cpu_mode c \<noteq> Machine \<and> bit (csr c CSR_MIDELEG) n"
    using deleg_to_s_iff [OF tv(2), of c True] by simp
  then have d: "deleg_to_s c True (word_of_nat n) = (t = Supervisor)"
    using assms by (auto simp: takeable_def int_priority_def)
  show "cpu_mode (enter_trap e pc c) = t"
    using tv(1) d assms(1) by (auto simp: enter_trap_def enter_s_state enter_m_state int_priority_def)
  then show "\<not> takeable (enter_trap e pc c) (n, t, e)"
    using tv(1) d assms(1)
    by (auto simp: takeable_def enter_trap_def enter_s_state enter_m_state int_priority_def bit_s_entry bit_m_entry)
qed

text \<open>C8: The interrupt taken is the first in the order of priority (machine external, software, timer, then
  supervisor external, software, timer) that is pending, enabled and not masked for the mode it targets;
  none is taken when there is no such one.  Entering it switches to its target mode and masks it.\<close>

theorem interrupt_selection:
  "check_pending_interrupt c = map_option (snd \<circ> snd) (find (takeable c) int_priority) \<and>
   (\<forall>e. check_pending_interrupt c = Some e \<longrightarrow>
     (\<exists>n t. (n, t, e) \<in> set int_priority \<and> takeable c (n, t, e) \<and>
        cpu_mode (snd (handle_trap e pc c :: (unit, trap) result \<times> cpu)) = t \<and>
        \<not> takeable (snd (handle_trap e pc c :: (unit, trap) result \<times> cpu)) (n, t, e)))"
proof (rule conjI [OF pending_eq], intro allI impI)
  fix e assume "check_pending_interrupt c = Some e"
  then obtain n t where f: "find (takeable c) int_priority = Some (n, t, e)" by (auto simp: pending_eq)
  then have "(n, t, e) \<in> set int_priority" "takeable c (n, t, e)"
    by (auto simp: find_Some_iff in_set_conv_nth)
  with takeable_masked [OF this] show "\<exists>n t. (n, t, e) \<in> set int_priority \<and> takeable c (n, t, e) \<and>
      cpu_mode (snd (handle_trap e pc c :: (unit, trap) result \<times> cpu)) = t \<and>
      \<not> takeable (snd (handle_trap e pc c :: (unit, trap) result \<times> cpu)) (n, t, e)"
    by (auto simp: handle_trap_eq)
qed

definition demo_pending :: cpu where
  "demo_pending = put_csr CSR_MIP 0x888 (put_csr CSR_MIE 0x888 ((cpu_new 0 0)\<lparr> cpu_mode := User \<rparr>))"

theorem interrupt_selection_witness:
  "check_pending_interrupt demo_pending = Some MachineExternalInterrupt"
proof -
  have "takeable demo_pending (11, Machine, MachineExternalInterrupt)"
    by (simp add: takeable_def demo_pending_def cpu_new_def Let_def csr_def put_csr_def csr_new_def get_csr_def set_csr_def)
  then show ?thesis
    using interrupt_selection [of demo_pending 0, THEN conjunct1] by (simp add: int_priority_def)
qed

subsection \<open>User code stays within its privilege\<close>

definition privileged :: "u16 \<Rightarrow> bool" where
  "privileged a \<longleftrightarrow> shr a 8 AND 3 \<noteq> 0"

definition confined :: "cpu \<Rightarrow> cpu \<Rightarrow> bool" where
  "confined c c' \<longleftrightarrow> (cpu_mode c = User \<longrightarrow> cpu_mode c' = User \<and> (\<forall>a. privileged a \<longrightarrow> csr c' a = csr c a))"

lemma confined_refl [simp]: "confined c c"
  by (simp add: confined_def)

lemma confined_trans: "confined c d \<Longrightarrow> confined d e \<Longrightarrow> confined c e"
  by (simp add: confined_def)

lemma confined_upd [simp]:
  "confined c (d\<lparr> cpu_tlb := t \<rparr>) = confined c d" "confined c (d\<lparr> reservation := r \<rparr>) = confined c d"
  "confined c (write_reg x v d) = confined c d" "confined c (clear_reservation_if_conflict y d) = confined c d"
  by (simp_all add: confined_def write_reg_def clear_reservation_if_conflict_def split: option.split)

lemma matchS_Ok_trap:
  "matchS m (\<lambda>v s. (Ok v, s)) (\<lambda>e s. trapM (g e) pc s) h = (Ok v, s') \<longleftrightarrow> m = (Ok v, s')"
  by (cases m; cases "fst m") (auto simp: matchS_def trapM_eq)

lemma trapM_not_Ok [simp]: "trapM e pc s = (Ok v, s') \<longleftrightarrow> False" "illegal raw pc s = (Ok v, s') \<longleftrightarrow> False"
  by (simp_all add: trapM_eq illegal_def)

lemma on_bus_keeps: "on_bus f s = (r, s') \<Longrightarrow> fst s' = fst s"
  by (auto simp: on_bus_def split: prod.splits)

lemma busM_Ok: "busM f pc s = (Ok v, s') \<Longrightarrow> fst s' = fst s"
  unfolding busM_def matchS_Ok_trap by (rule on_bus_keeps)

lemma translate_addr_Ok: "translate_addr ops a ac pc s = (Ok pa, s') \<Longrightarrow> \<exists>t. fst s' = (fst s)\<lparr> cpu_tlb := t \<rparr>"
  by (cases s) (auto simp: translate_addr_def split: prod.splits result.splits)

lemma jump_to_Ok: "jump_to n pc s = (Ok v, s') \<Longrightarrow> s' = s"
  by (auto simp: jump_to_def split: if_splits)

lemma csr_write_user:
  assumes "csr_write a v User f = (r, f')" "privileged b"
  shows "get_csr f' b = get_csr f b"
  using assms
  by (auto simp: csr_write_def Let_def privileged_def word_less_nat_alt unat_eq_0 split: if_splits)

lemma cpu_write_csr_confined: "cpu_write_csr a v c = (r, c') \<Longrightarrow> confined c c'"
  by (auto simp: cpu_write_csr_def confined_def csr_def dest: csr_write_user split: prod.splits)

lemma flush_confined [simp]: "confined c (flush_translations d) = confined c d"
  by (simp add: flush_translations_def invalidate_decode_cache_def confined_def)

lemma exec_csr_confined:
  assumes "exec_csr ops rd rs1 f3 imm raw pc len s = (Ok v, s')"
  shows "confined (fst s) (fst s')"
proof -
  define a :: u16 where "a = ucast (imm AND 0xFFF)"
  obtain old s1 where rd: "(if a = CSR_TIME then read_time ops s
      else matchS (cpu_read_csr (fst s) a, s) (\<lambda>v s. (Ok v, s)) (\<lambda>e s. trapM e pc s) (\<lambda>s. s)) = (Ok old, s1)"
    and rest: "bindS (case csr_new_value f3 rs1 (read_reg (fst s1) rs1) old of
               None \<Rightarrow> (Ok (), s1)
             | Some new_val \<Rightarrow>
                 (case cpu_write_csr a new_val (fst s1) of (r, c) \<Rightarrow>
                    matchS (r, (c, snd s1))
                      (\<lambda>_ s. (Ok (), if a = CSR_SATP then apfst flush_translations s else s))
                      (\<lambda>e s. trapM e pc s) (\<lambda>s. s))) (\<lambda>_ s.
        (Ok (pc + ucast len), if rd \<noteq> X0 then apfst (write_reg rd old) s else s)) = (Ok v, s')"
    using assms unfolding exec_csr_def Let_def a_def [symmetric] bindS_Ok [of "if a = CSR_TIME then _ else _"] by blast
  have s1: "fst s1 = fst s"
    using rd by (auto simp: read_time_def matchS_def dest: on_bus_keeps split: if_splits prod.splits result.splits)
  from rest obtain s2 where wr: "(case csr_new_value f3 rs1 (read_reg (fst s1) rs1) old of
               None \<Rightarrow> (Ok (), s1)
             | Some new_val \<Rightarrow>
                 (case cpu_write_csr a new_val (fst s1) of (r, c) \<Rightarrow>
                    matchS (r, (c, snd s1))
                      (\<lambda>_ s. (Ok (), if a = CSR_SATP then apfst flush_translations s else s))
                      (\<lambda>e s. trapM e pc s) (\<lambda>s. s))) = (Ok (), s2)"
    and s': "s' = (if rd \<noteq> X0 then apfst (write_reg rd old) s2 else s2)"
    unfolding bindS_Ok by auto
  have "confined (fst s) (fst s2)"
    using wr s1 by (auto simp: matchS_def trapM_eq dest: cpu_write_csr_confined split: option.splits prod.splits result.splits if_splits)
  then show ?thesis using s' by (auto split: if_splits)
qed

lemma exec_mem_confined:
  "exec_load ops rd rs1 imm f3 raw pc len s = (Ok v, s') \<Longrightarrow> confined (fst s) (fst s')"
  "exec_store ops rs1 rs2 imm f3 raw pc len s = (Ok v, s') \<Longrightarrow> confined (fst s) (fst s')"
  by (auto simp: exec_load_def exec_store_def Let_def bindS_Ok split: option.splits dest!: translate_addr_Ok busM_Ok)

lemma exec_amo_confined:
  "exec_amo ops rd rs1 rs2 f3 f5 raw pc len s = (Ok v, s') \<Longrightarrow> confined (fst s) (fst s')"
  by (auto simp: exec_amo_def exec_lr_def exec_sc_def Let_def bindS_Ok split: option.splits if_splits
      dest!: translate_addr_Ok busM_Ok)

lemma exec_priv_confined: "exec_priv raw pc len s = (Ok v, s') \<Longrightarrow> confined (fst s) (fst s')"
  by (auto simp: exec_priv_def Let_def confined_def split: if_splits)

text \<open>C9: User code is confined: an instruction that completes in user mode leaves the hart in user mode and every
  control and status register above user privilege unchanged.  The only way up is a trap.\<close>

theorem user_instruction_confined:
  assumes "exec_op ops d raw pc len s = (Ok next_pc, s')" "cpu_mode (fst s) = User" "privileged a"
  shows "cpu_mode (fst s') = User \<and> csr (fst s') a = csr (fst s) a"
proof -
  have "confined (fst s) (fst s')"
    using assms(1)
    by (cases d) (auto simp: exec_jal_def exec_jalr_def exec_branch_def exec_alu_def exec_system_def Let_def split: option.splits if_splits
        dest: jump_to_Ok exec_mem_confined exec_amo_confined exec_priv_confined exec_csr_confined)
  then show ?thesis using assms(2,3) by (simp add: confined_def)
qed

theorem user_instruction_confined_witness:
  "cpu_mode (fst (snd (exec_op dword_bus (OpImm X1 X0 5 0 0) 0x00500093 0 4 ((cpu_new 0 0)\<lparr> cpu_mode := User \<rparr>, example_mem)))) = User"
proof -
  have "privileged CSR_SATP" by (simp add: privileged_def)
  moreover have "exec_op dword_bus (OpImm X1 X0 5 0 0) 0x00500093 0 4 ((cpu_new 0 0)\<lparr> cpu_mode := User \<rparr>, example_mem)
      = (Ok 4, write_reg X1 5 ((cpu_new 0 0)\<lparr> cpu_mode := User \<rparr>), example_mem)"
    by (simp add: exec_alu_def alu_imm_def Let_def read_reg_def)
  ultimately show ?thesis
    using user_instruction_confined [of dword_bus "OpImm X1 X0 5 0 0" "0x00500093" 0 4
        "((cpu_new 0 0)\<lparr> cpu_mode := User \<rparr>, example_mem)" 4 _ CSR_SATP] by simp
qed

subsection \<open>Reservations\<close>

lemma granule_idem [simp]: "reservation_granule (reservation_granule a) = reservation_granule a"
  by (simp add: reservation_granule_def and.assoc)

lemma read_write_reg [simp]: "read_reg (write_reg r v c) q = (if q = r \<and> r \<noteq> X0 then v else read_reg c q)"
proof -
  have "to_usize q = to_usize r \<Longrightarrow> q = r" by (cases q; cases r; simp)
  then show ?thesis by (auto simp: read_reg_def write_reg_def)
qed

lemma write_reg_reservation [simp]: "reservation (write_reg r v c) = reservation c"
  by (simp add: write_reg_def)

lemma read_reg_upd [simp]: "read_reg (c\<lparr> reservation := x \<rparr>) r = read_reg c r" "read_reg (c\<lparr> cpu_tlb := t \<rparr>) r = read_reg c r"
  by (simp_all add: read_reg_def)

lemma clear_reservation_eq:
  "reservation (clear_reservation_if_conflict a c) =
    (case reservation c of Some g \<Rightarrow> if reservation_granule g = reservation_granule a then None else Some g | None \<Rightarrow> None)"
  by (simp add: clear_reservation_if_conflict_def split: option.split)

lemma exec_lr_reserves:
  "exec_lr ops rd addr pa w pc len s = (Ok n, s') \<Longrightarrow> reservation (fst s') = Some (reservation_granule addr)"
  by (auto simp: exec_lr_def bindS_Ok)

lemma exec_store_reservation:
  "exec_store ops rs1 rs2 imm f3 raw pc len s = (Ok n, s') \<Longrightarrow>
    reservation (fst s') = reservation (clear_reservation_if_conflict (read_reg (fst s) rs1 + imm) (fst s))"
  by (auto simp: exec_store_def Let_def bindS_Ok clear_reservation_eq split: option.splits dest!: translate_addr_Ok busM_Ok)

text \<open>The address that a store or a read-modify-write instruction is about to write, and the instructions that set or use the
  reservation.\<close>

fun written_address :: "op \<Rightarrow> cpu \<Rightarrow> u64 option" where
  "written_address (Store rs1 rs2 imm f3) c = Some (read_reg c rs1 + imm)"
| "written_address (Amo rd rs1 rs2 f3 f5 aq rl) c = (if f5 = 2 \<or> f5 = 3 then None else Some (read_reg c rs1))"
| "written_address d c = None"

fun lr_or_sc :: "op \<Rightarrow> bool" where
  "lr_or_sc (Amo rd rs1 rs2 f3 f5 aq rl) = (f5 = 2 \<or> f5 = 3)"
| "lr_or_sc d = False"

text \<open>A sequence of instructions, each with its encoding, address and length, all of which complete (nothing otherwise), with
  the addresses they write.\<close>

fun run_completed :: "'b bus_ops \<Rightarrow> (op \<times> u32 \<times> u64 \<times> u8) list \<Rightarrow> 'b machine \<Rightarrow> (u64 list \<times> 'b machine) option" where
  "run_completed ops [] s = Some ([], s)"
| "run_completed ops ((d, raw, pc, len) # xs) s =
     (case exec_op ops d raw pc len s of
        (Ok n, s') \<Rightarrow> map_option (apfst (append (case written_address d (fst s) of Some a \<Rightarrow> [a] | None \<Rightarrow> []))) (run_completed ops xs s')
      | _ \<Rightarrow> None)"

lemma granule_iff: "reservation_granule a = reservation_granule b \<longleftrightarrow> unat a div 64 = unat b div 64"
proof -
  have g: "reservation_granule a = push_bit 6 (drop_bit 6 a)" for a
    using and_not_low_mask [of a 6] by (simp add: reservation_granule_def mask_eq_exp_minus_1)
  have "drop_bit k (push_bit k (drop_bit k a)) = drop_bit k a" for a :: u64 and k
    by (rule bit_word_eqI) (auto simp: bit_push_bit_iff bit_drop_bit_eq dest: bit_imp_le_length)
  then have "reservation_granule a = reservation_granule b \<longleftrightarrow> drop_bit 6 a = drop_bit 6 b" unfolding g by metis
  also have "\<dots> \<longleftrightarrow> unat a div 64 = unat b div 64" by (simp add: drop_bit_eq_div word_unat_eq_iff unat_div del: unat_inj_iff)
  finally show ?thesis .
qed

lemma granule_div [simp]: "unat (reservation_granule a) div 64 = unat a div 64"
  using granule_iff [of "reservation_granule a" a] by simp

lemma cpu_write_csr_reservation: "cpu_write_csr a v c = (r, c') \<Longrightarrow> reservation c' = reservation c"
  by (auto simp: cpu_write_csr_def split: prod.splits)

lemma exec_csr_reservation:
  "exec_csr ops rd rs1 f3 imm raw pc len s = (Ok v, s') \<Longrightarrow> reservation (fst s') = reservation (fst s)"
  by (auto simp: exec_csr_def Let_def bindS_Ok read_time_def matchS_def trapM_eq flush_translations_def invalidate_decode_cache_def
      dest!: on_bus_keeps cpu_write_csr_reservation split: if_splits option.splits prod.splits result.splits)

lemma exec_amo_reservation:
  "exec_amo ops rd rs1 rs2 f3 f5 raw pc len s = (Ok n, s') \<Longrightarrow> f5 \<noteq> 2 \<Longrightarrow> f5 \<noteq> 3 \<Longrightarrow>
    reservation (fst s') = reservation (clear_reservation_if_conflict (read_reg (fst s) rs1) (fst s))"
  by (auto simp: exec_amo_def Let_def bindS_Ok clear_reservation_eq split: option.splits if_splits dest!: translate_addr_Ok busM_Ok)

lemma exec_load_reservation:
  "exec_load ops rd rs1 imm f3 raw pc len s = (Ok n, s') \<Longrightarrow> reservation (fst s') = reservation (fst s)"
  by (auto simp: exec_load_def Let_def bindS_Ok split: option.splits dest!: translate_addr_Ok busM_Ok)

lemma exec_op_reservation:
  assumes "exec_op ops d raw pc len s = (Ok n, s')" "\<not> lr_or_sc d"
  shows "reservation (fst s') = (case written_address d (fst s) of
    Some a \<Rightarrow> reservation (clear_reservation_if_conflict a (fst s)) | None \<Rightarrow> reservation (fst s))"
proof (cases d)
  case (System rd rs1 f3 imm)
  then show ?thesis using assms(1)
    by (auto simp: exec_system_def exec_priv_def Let_def flush_translations_def invalidate_decode_cache_def mret_def sret_def put_csr_def
        dest: exec_csr_reservation split: if_splits)
qed (use assms in \<open>auto simp: exec_jal_def exec_jalr_def exec_branch_def exec_alu_def Let_def split: option.splits if_splits
      dest: exec_load_reservation exec_store_reservation exec_amo_reservation dest!: jump_to_Ok\<close>)

lemma run_reservation:
  assumes "run_completed ops xs s1 = Some (ws, s2)" "list_all (\<lambda>(d, _). \<not> lr_or_sc d) xs"
    and "reservation (fst s1) = Some (reservation_granule addr) \<or> reservation (fst s1) = None"
  shows "reservation (fst s2) = (if \<exists>a\<in>set ws. unat a div 64 = unat addr div 64 then None else reservation (fst s1))"
  using assms
proof (induction xs arbitrary: s1 ws)
  case (Cons x xs)
  obtain d raw pc len where x: "x = (d, raw, pc, len)" by (rule prod_cases4)
  obtain n s' where e: "exec_op ops d raw pc len s1 = (Ok n, s')"
    using Cons.prems(1) by (auto simp: x split: prod.splits result.splits)
  with Cons.prems(1) obtain ws' where r: "run_completed ops xs s' = Some (ws', s2)"
    "ws = (case written_address d (fst s1) of Some a \<Rightarrow> [a] | None \<Rightarrow> []) @ ws'" by (auto simp: x)
  have res: "reservation (fst s') = (case written_address d (fst s1) of
      Some a \<Rightarrow> reservation (clear_reservation_if_conflict a (fst s1)) | None \<Rightarrow> reservation (fst s1))"
    using exec_op_reservation [OF e] Cons.prems(2) by (simp add: x)
  then have "reservation (fst s') = Some (reservation_granule addr) \<or> reservation (fst s') = None"
    using Cons.prems(3) by (auto simp: clear_reservation_eq split: option.splits)
  from Cons.IH [OF r(1) _ this] Cons.prems(2,3) res r(2) show ?case
    by (auto simp: x clear_reservation_eq granule_iff split: option.splits if_splits)
qed simp

text \<open>C10: A load-reserved, any sequence of other instructions, all of them completed, and a store-conditional: the
  store-conditional succeeds exactly when its address lies in the 64-byte granule of the reserved address and no store or
  read-modify-write instruction in between has written to that granule.  It then writes the register to memory, reports 0 and drops the
  reservation; otherwise it reports 1 and, once the address is translated, does not touch the bus.\<close>

theorem lr_store_sc:
  assumes "exec_op ops (Amo rd1 ra rb fa 2 aq1 rl1) raw1 pc1 len1 s = (Ok n1, s1)"
    and "run_completed ops xs s1 = Some (ws, s2)" "list_all (\<lambda>(d, _). \<not> lr_or_sc d) xs"
    and "exec_op ops (Amo rd rs1 rs2 f3 3 aq2 rl2) raw2 pc2 len2 s2 = (Ok n2, s3)" "rd \<noteq> X0"
  shows "\<exists>pa s2'. translate_addr ops (read_reg (fst s2) rs1) LoadAccess pc2 s2 = (Ok pa, s2') \<and>
    (if unat (read_reg (fst s2) rs1) div 64 = unat (read_reg (fst s) ra) div 64 \<and>
        (\<forall>a\<in>set ws. unat a div 64 \<noteq> unat (read_reg (fst s) ra) div 64)
     then read_reg (fst s3) rd = 0 \<and> reservation (fst s3) = None \<and>
       (Ok (), snd s3) = (if f3 = 2 then bus_write32 ops pa (low32 (read_reg (fst s2) rs2)) (snd s2')
                          else bus_write64 ops pa (read_reg (fst s2) rs2) (snd s2'))
     else read_reg (fst s3) rd = 1 \<and> snd s3 = snd s2')"
proof -
  let ?a = "read_reg (fst s) ra" and ?b = "read_reg (fst s2) rs1"
  have "reservation (fst s1) = Some (reservation_granule ?a)"
    using assms(1) by (auto simp: exec_amo_def Let_def bindS_Ok split: if_splits dest!: exec_lr_reserves)
  then have r: "reservation (fst s2) = (if \<exists>a\<in>set ws. unat a div 64 = unat ?a div 64 then None else Some (reservation_granule ?a))"
    using run_reservation [OF assms(2,3), of ?a] by simp
  from assms(4) obtain pa s2' where tr: "translate_addr ops ?b LoadAccess pc2 s2 = (Ok pa, s2')"
    and sc: "exec_sc ops rd rs2 ?b pa (f3 = 2) pc2 len2 s2' = (Ok n2, s3)"
    by (auto simp: exec_amo_def Let_def bindS_Ok split: if_splits)
  obtain t where t: "fst s2' = (fst s2)\<lparr> cpu_tlb := t \<rparr>" using translate_addr_Ok [OF tr] by blast
  then have keep: "reservation (fst s2') = reservation (fst s2)" by simp
  have "(if \<exists>a\<in>set ws. P a then None else Some x) = Some y \<longleftrightarrow> y = x \<and> (\<forall>a\<in>set ws. \<not> P a)" for P and x y :: u64 by auto
  note res = this [of "\<lambda>a. unat a div 64 = unat ?a div 64"]
  have iff: "reservation (fst s2') = Some (reservation_granule ?b) \<longleftrightarrow>
      unat ?b div 64 = unat ?a div 64 \<and> (\<forall>a\<in>set ws. unat a div 64 \<noteq> unat ?a div 64)"
    using res [of "reservation_granule ?a" "reservation_granule ?b", folded r, unfolded granule_iff] keep by (simp only:)
  show ?thesis
  proof (cases "reservation (fst s2') = Some (reservation_granule ?b)")
    case False
    note neg = this [unfolded iff]
    have "s3 = apfst (write_reg rd 1) s2'" using False sc by (auto simp: exec_sc_def split: if_splits)
    then show ?thesis unfolding if_not_P [OF neg] using tr assms(5) by simp
  next
    case True
    note ok = this [unfolded iff]
    obtain s4 where b: "busM (\<lambda>b. if f3 = 2 then bus_write32 ops pa (low32 (read_reg (fst s2') rs2)) b
          else bus_write64 ops pa (read_reg (fst s2') rs2) b) pc2 s2' = (Ok (), s4)"
      and s3: "s3 = apfst (\<lambda>c. (write_reg rd 0 c)\<lparr> reservation := None \<rparr>) s4"
      using True sc by (auto simp: exec_sc_def Let_def bindS_Ok split: if_splits)
    have "(if f3 = 2 then bus_write32 ops pa (low32 (read_reg (fst s2) rs2)) (snd s2')
        else bus_write64 ops pa (read_reg (fst s2) rs2) (snd s2')) = (Ok (), snd s4)"
      using b t unfolding busM_def matchS_Ok_trap by (auto simp: on_bus_def split: prod.splits)
    then show ?thesis unfolding if_P [OF ok] using s3 tr assms(5) by (cases s4) simp
  qed
qed

theorem lr_store_sc_witness:
  "\<exists>s1 s2 s3. exec_op dword_bus (Amo X1 X0 X0 3 2 False False) 0 0 4 (cpu_new 0 0, example_mem) = (Ok 4, s1) \<and>
    exec_op dword_bus (Store X0 X0 0x2000 3) 0 4 4 s1 = (Ok 8, s2) \<and>
    exec_op dword_bus (Amo X3 X0 X0 3 3 False False) 0 8 4 s2 = (Ok 12, s3) \<and> read_reg (fst s3) X3 = 0"
proof -
  define s1 where "s1 = snd (exec_op dword_bus (Amo X1 X0 X0 3 2 False False) 0 0 4 (cpu_new 0 0, example_mem))"
  define s2 where "s2 = snd (exec_op dword_bus (Store X0 X0 0x2000 3) 0 4 4 s1)"
  define s3 where "s3 = snd (exec_op dword_bus (Amo X3 X0 X0 3 3 False False) 0 8 4 s2)"
  note simps = exec_amo_def exec_lr_def exec_sc_def exec_store_def translate_addr_def translate_def store_access_def busM_def on_bus_def
    dword_bus_def Let_def read_reg_def
  have m: "cpu_mode (cpu_new 0 0) = Machine" by (simp add: cpu_new_def Let_def)
  have lr: "exec_op dword_bus (Amo X1 X0 X0 3 2 False False) 0 0 4 (cpu_new 0 0, example_mem) = (Ok 4, s1)"
    unfolding s1_def using m by (simp add: simps)
  have m1: "cpu_mode (fst s1) = Machine" unfolding s1_def using m by (simp add: simps write_reg_def)
  have st: "exec_op dword_bus (Store X0 X0 0x2000 3) 0 4 4 s1 = (Ok 8, s2)"
    unfolding s2_def using m1 by (cases s1) (simp add: simps)
  have m2: "cpu_mode (fst s2) = Machine" unfolding s2_def using m1
    by (cases s1) (simp add: simps clear_reservation_if_conflict_def split: option.split)
  have sc: "exec_op dword_bus (Amo X3 X0 X0 3 3 False False) 0 8 4 s2 = (Ok 12, s3)"
    unfolding s3_def using m2 by (cases s2) (simp add: simps)
  have run: "run_completed dword_bus [(Store X0 X0 0x2000 3, 0, 4, 4)] s1 = Some ([0x2000], s2)"
    using st by (simp add: read_reg_def)
  from lr_store_sc [OF lr run _ sc] have "read_reg (fst s3) X3 = 0" by (auto simp: read_reg_def)
  with lr st sc show ?thesis by blast
qed

end
