(* ===== verification/Kn_Bytes.thy ===== *)
theory Kn_Bytes
  imports Rv_Prelude
begin

text \<open>
  Byte buffers of the kernel and the disk tools: little-endian fields, copying into a bytes_at,
  UTF-8 validation of the standard library, and ordered maps (\<open>BTreeMap\<close>).  A Rust string is the
  list of its UTF-8 bytes.  A \<open>BTreeMap\<close> is the list of its entries in ascending order of their keys, which is
  the order in which the library iterates over it.
\<close>

unbundle bit_operations_syntax

type_synonym str = "u8 list"

subsection \<open>Outcomes\<close>

text \<open>\<open>yields m r Q\<close>: the method returns \<open>r\<close> in a state that satisfies \<open>Q\<close>; \<open>outcome\<close> is the case of an \<open>Ok\<close>.\<close>

definition yields :: "('a, 'e) result \<times> 's \<Rightarrow> ('a, 'e) result \<Rightarrow> ('s \<Rightarrow> bool) \<Rightarrow> bool" where
  "yields m r Q \<longleftrightarrow> fst m = r \<and> Q (snd m)"

definition outcome :: "('a, 'e) result \<times> 's \<Rightarrow> 'a \<Rightarrow> ('s \<Rightarrow> bool) \<Rightarrow> bool" where
  "outcome m r Q \<longleftrightarrow> fst m = Ok r \<and> Q (snd m)"

lemma yields_pair [simp]: "yields (a, s) r Q \<longleftrightarrow> a = r \<and> Q s"
  by (auto simp: yields_def)

lemma yields_Ok: "yields m (Ok r) Q \<longleftrightarrow> outcome m r Q"
  by (simp add: yields_def outcome_def)

lemma yieldsE:
  assumes "yields m r Q"
  obtains s where "m = (r, s)" "Q s"
  using assms by (cases m) (auto simp: yields_def)

lemma yields_mono: "yields m r Q \<Longrightarrow> (\<And>s. Q s \<Longrightarrow> Q' s) \<Longrightarrow> yields m r Q'"
  by (auto simp: yields_def)

lemma yields_bindS:
  assumes "outcome m r Q" "\<And>s. Q s \<Longrightarrow> yields (f r s) r' Q'"
  shows "yields (bindS m f) r' Q'"
  using assms by (cases m) (auto simp: outcome_def)

lemma outcome_Ok [simp]: "outcome (Ok a, s) r Q \<longleftrightarrow> a = r \<and> Q s"
  by (auto simp: outcome_def)

lemma outcomeE:
  assumes "outcome m r Q"
  obtains s where "m = (Ok r, s)" "Q s"
  using assms by (cases m) (auto simp: outcome_def)

lemma outcome_bindS:
  assumes "outcome m r Q" "\<And>s. Q s \<Longrightarrow> outcome (f r s) r' Q'"
  shows "outcome (bindS m f) r' Q'"
  using assms(1) by (rule outcomeE) (simp add: assms(2))

lemma outcome_mono: "outcome m r Q \<Longrightarrow> (\<And>s. Q s \<Longrightarrow> Q' s) \<Longrightarrow> outcome m r Q'"
  by (auto simp: outcome_def)

subsection \<open>Slices\<close>

text \<open>\<open>buf[i .. i + xs.len()].copy_from_slice(xs)\<close>; the callers stay inside the buffer.\<close>

definition overlay :: "nat \<Rightarrow> 'a list \<Rightarrow> 'a list \<Rightarrow> 'a list" where
  "overlay i xs buf = take i buf @ xs @ drop (i + length xs) buf"

text \<open>\<open>&buf[i .. i + n]\<close>\<close>

definition bytes_at :: "nat \<Rightarrow> nat \<Rightarrow> 'a list \<Rightarrow> 'a list" where
  "bytes_at i n buf = take n (drop i buf)"

lemma length_overlay [simp]:
  "i + length xs \<le> length buf \<Longrightarrow> length (overlay i xs buf) = length buf"
  by (simp add: overlay_def)

lemma length_bytes_at [simp]: "length (bytes_at i n buf) = min n (length buf - i)"
  by (simp add: bytes_at_def min.commute)

lemma nth_overlay:
  "i + length xs \<le> length buf \<Longrightarrow> k < length buf \<Longrightarrow>
    overlay i xs buf ! k = (if i \<le> k \<and> k < i + length xs then xs ! (k - i) else buf ! k)"
  by (auto simp: overlay_def nth_append min_def)

lemma nth_bytes_at [simp]: "k < n \<Longrightarrow> i + k < length buf \<Longrightarrow> bytes_at i n buf ! k = buf ! (i + k)"
  by (simp add: bytes_at_def)

lemma bytes_at_overlay_same [simp]:
  "i + length xs \<le> length buf \<Longrightarrow> n = length xs \<Longrightarrow> bytes_at i n (overlay i xs buf) = xs"
  by (simp add: bytes_at_def overlay_def)

lemma bytes_at_overlay_other:
  assumes "i + length xs \<le> length buf" "j + n \<le> i \<or> i + length xs \<le> j" "j + n \<le> length buf"
  shows "bytes_at j n (overlay i xs buf) = bytes_at j n buf"
  by (rule nth_equalityI) (use assms in \<open>auto simp: nth_overlay\<close>)

lemma bytes_at_bytes_at: "j + m \<le> n \<Longrightarrow> bytes_at j m (bytes_at i n buf) = bytes_at (i + j) m buf"
  by (simp add: bytes_at_def drop_take add.commute min_def)

lemma bytes_at_append_left:
  "i + n \<le> length xs \<Longrightarrow> bytes_at i n (xs @ ys) = bytes_at i n xs"
  by (simp add: bytes_at_def)

lemma bytes_at_append_right:
  "length xs \<le> i \<Longrightarrow> bytes_at i n (xs @ ys) = bytes_at (i - length xs) n ys"
  by (simp add: bytes_at_def)

subsection \<open>Little-endian numbers\<close>

primrec le_bytes :: "nat \<Rightarrow> u64 \<Rightarrow> u8 list" where
  "le_bytes 0 v = []"
| "le_bytes (Suc n) v = low8 v # le_bytes n (shr v 8)"

primrec le_val :: "u8 list \<Rightarrow> u64" where
  "le_val [] = 0"
| "le_val (b # bs) = zext8 b OR shl (le_val bs) 8"

lemma length_le_bytes [simp]: "length (le_bytes n v) = n"
  by (induction n arbitrary: v) simp_all

lemma bit_le_val_le_bytes: "bit (le_val (le_bytes n v)) k \<longleftrightarrow> k < 8 * n \<and> bit v k"
proof (induction n arbitrary: v k)
  case (Suc n)
  show ?case
  proof (cases "k < 8")
    case False
    then have "k - 8 < 8 * n \<longleftrightarrow> k < 8 * Suc n" "8 + (k - 8) = k" by auto
    then show ?thesis using Suc False by (auto simp: bitx dest: bit_imp_le_length)
  qed (auto simp: bitx)
qed simp

definition count_ones :: "u8 \<Rightarrow> nat" where
  "count_ones b = length (filter (bit b) [0..<8])"

text \<open>\<open>u32::from_le_bytes\<close> and \<open>to_le_bytes\<close>.\<close>

definition le32 :: "u32 \<Rightarrow> u8 list" where
  "le32 v = le_bytes 4 (zext32 v)"

definition of_le32 :: "u8 list \<Rightarrow> u32" where
  "of_le32 bs = low32 (le_val bs)"

lemma length_le32 [simp]: "length (le32 v) = 4"
  by (simp add: le32_def)

lemma of_le32_le32 [simp]: "of_le32 (le32 v) = v"
  unfolding of_le32_def le32_def
  by (rule bit_word_eqI) (simp add: bitx bit_le_val_le_bytes)

lemma le32_0 [simp]: "le32 0 = [0, 0, 0, 0]"
  by (simp add: le32_def eval_nat_numeral)

text \<open>Big-endian 16-bit fields, the order of network packets.\<close>

definition be16 :: "u8 \<Rightarrow> u8 \<Rightarrow> u16" where
  "be16 a b = shl (ucast a) 8 OR ucast b"

definition be16_bytes :: "u16 \<Rightarrow> u8 list" where
  "be16_bytes v = [ucast (shr v 8), ucast v]"

lemma unat_be16: "unat (be16 a b) = 256 * unat a + unat b"
proof -
  have "(shl (ucast a) 8 :: u16) AND ucast b = 0"
    by (rule bit_word_eqI) (auto simp: bit_simps dest: bit_imp_le_length)
  then have "be16 a b = shl (ucast a) 8 + ucast b" by (simp add: be16_def disjunctive_add_eq_or)
  moreover have "unat a < 2 ^ LENGTH(8)" "unat b < 2 ^ LENGTH(8)" by (rule unsigned_less)+
  ultimately show ?thesis by (simp add: push_bit_eq_mult unat_word_ariths unat_ucast_up)
qed

lemma be16_halves [simp]: "be16 (ucast (shr v 8)) (ucast (v AND 0xFF)) = v" "be16 (ucast (shr v 8)) (ucast v) = v"
  unfolding be16_def by (rule bit_word_eqI, auto simp: bitx dest: bit_imp_le_length)+

subsection \<open>UTF-8\<close>

text \<open>The well-formed byte sequences of the Unicode standard, which \<open>core::str::from_utf8\<close> accepts.\<close>

definition cont :: "u8 \<Rightarrow> bool" where
  "cont b \<longleftrightarrow> 0x80 \<le> b \<and> b \<le> 0xBF"

fun utf8 :: "u8 list \<Rightarrow> bool" where
  "utf8 [] = True"
| "utf8 (a # bs) =
     (if a < 0x80 then utf8 bs
      else if 0xC2 \<le> a \<and> a \<le> 0xDF then
        (case bs of b # cs \<Rightarrow> cont b \<and> utf8 cs | _ \<Rightarrow> False)
      else if 0xE0 \<le> a \<and> a \<le> 0xEF then
        (case bs of b # c # ds \<Rightarrow>
           cont b \<and> cont c \<and> (a = 0xE0 \<longrightarrow> 0xA0 \<le> b) \<and> (a = 0xED \<longrightarrow> b \<le> 0x9F) \<and> utf8 ds
         | _ \<Rightarrow> False)
      else if 0xF0 \<le> a \<and> a \<le> 0xF4 then
        (case bs of b # c # d # es \<Rightarrow>
           cont b \<and> cont c \<and> cont d \<and> (a = 0xF0 \<longrightarrow> 0x90 \<le> b) \<and> (a = 0xF4 \<longrightarrow> b \<le> 0x8F) \<and> utf8 es
         | _ \<Rightarrow> False)
      else False)"

text \<open>\<open>from_utf8(bs).unwrap_or(dflt)\<close>\<close>

definition from_utf8_or :: "str \<Rightarrow> u8 list \<Rightarrow> str" where
  "from_utf8_or dflt bs = (if utf8 bs then bs else dflt)"

text \<open>String literals.\<close>

definition lit :: "string \<Rightarrow> str" where
  "lit s = map (\<lambda>c. word_of_nat (of_char c)) s"

definition ends_with :: "str \<Rightarrow> str \<Rightarrow> bool" where
  "ends_with s suf \<longleftrightarrow> length suf \<le> length s \<and> drop (length s - length suf) s = suf"

definition starts_with :: "'a list \<Rightarrow> 'a list \<Rightarrow> bool" where
  "starts_with s pre \<longleftrightarrow> take (length pre) s = pre"

text \<open>\<open>iter().position(p)\<close>\<close>

primrec position :: "('a \<Rightarrow> bool) \<Rightarrow> 'a list \<Rightarrow> nat option" where
  "position P [] = None"
| "position P (x # xs) = (if P x then Some 0 else map_option Suc (position P xs))"

definition unwrap_or :: "'a option \<Rightarrow> 'a \<Rightarrow> 'a" where
  "unwrap_or x d = (case x of Some a \<Rightarrow> a | None \<Rightarrow> d)"

lemma unwrap_or_simps [simp]: "unwrap_or (Some a) d = a" "unwrap_or None d = d"
  by (simp_all add: unwrap_or_def)

lemma position_None: "position P xs = None \<longleftrightarrow> (\<forall>x\<in>set xs. \<not> P x)"
  by (induction xs) auto

lemma position_append_hit:
  "\<forall>x\<in>set xs. \<not> P x \<Longrightarrow> P y \<Longrightarrow> position P (xs @ y # ys) = Some (length xs)"
  by (induction xs) auto

subsection \<open>Ordered maps\<close>

type_synonym ('k, 'v) btree = "('k \<times> 'v) list"

primrec bt_insert :: "'k::linorder \<Rightarrow> 'v \<Rightarrow> ('k, 'v) btree \<Rightarrow> ('k, 'v) btree" where
  "bt_insert k v [] = [(k, v)]"
| "bt_insert k v (p # ps) =
     (if k < fst p then (k, v) # p # ps else if k = fst p then (k, v) # ps else p # bt_insert k v ps)"

definition bt_remove :: "'k \<Rightarrow> ('k, 'v) btree \<Rightarrow> ('k, 'v) btree" where
  "bt_remove k m = filter (\<lambda>p. fst p \<noteq> k) m"

definition bt_contains :: "'k \<Rightarrow> ('k, 'v) btree \<Rightarrow> bool" where
  "bt_contains k m \<longleftrightarrow> map_of m k \<noteq> None"

text \<open>\<open>get_mut\<close> with an update of the value.\<close>

definition bt_update :: "'k \<Rightarrow> ('v \<Rightarrow> 'v) \<Rightarrow> ('k, 'v) btree \<Rightarrow> ('k, 'v) btree" where
  "bt_update k f m = map (\<lambda>p. if fst p = k then (fst p, f (snd p)) else p) m"

abbreviation bt_keys :: "('k, 'v) btree \<Rightarrow> 'k list" where
  "bt_keys m \<equiv> map fst m"

definition bt_wf :: "('k::linorder, 'v) btree \<Rightarrow> bool" where
  "bt_wf m \<longleftrightarrow> sorted_wrt (<) (bt_keys m)"

lemma bt_wf_distinct: "bt_wf m \<Longrightarrow> distinct (bt_keys m)"
  unfolding bt_wf_def by (induction m) auto

lemma bt_keys_insert [simp]: "set (bt_keys (bt_insert k v m)) = insert k (set (bt_keys m))"
  by (induction m) auto

lemma bt_wf_empty [simp]: "bt_wf []"
  by (simp add: bt_wf_def)

lemma bt_wf_insert [simp]: "bt_wf m \<Longrightarrow> bt_wf (bt_insert k v m)"
  unfolding bt_wf_def
proof (induction m)
  case (Cons p ps)
  then show ?case
    using bt_keys_insert [of k v ps]
    by auto
qed simp

lemma map_of_insert [simp]: "bt_wf m \<Longrightarrow> map_of (bt_insert k v m) = (map_of m)(k \<mapsto> v)"
proof (induction m)
  case (Cons p ps)
  then have "map_of ps k = None" if "k < fst p"
    using that by (auto simp: bt_wf_def map_of_eq_None_iff)
  then show ?case using Cons by (auto simp: bt_wf_def fun_eq_iff)
qed simp

lemma bt_wf_remove [simp]: "bt_wf m \<Longrightarrow> bt_wf (bt_remove k m)"
  unfolding bt_wf_def bt_remove_def by (induction m) auto

lemma map_of_remove [simp]: "map_of (bt_remove k m) = (map_of m)(k := None)"
  unfolding bt_remove_def by (induction m) auto

lemma bt_keys_update [simp]: "bt_keys (bt_update k f m) = bt_keys m"
  by (simp add: bt_update_def)

lemma length_bt_update [simp]: "length (bt_update k f m) = length m"
  by (simp add: bt_update_def)

lemma bt_wf_update [simp]: "bt_wf (bt_update k f m) \<longleftrightarrow> bt_wf m"
  by (simp add: bt_wf_def)

lemma map_of_update [simp]:
  "map_of (bt_update k f m) = (\<lambda>j. if j = k then map_option f (map_of m k) else map_of m j)"
  unfolding bt_update_def by (induction m) auto

lemma map_of_mem_iff: "bt_wf m \<Longrightarrow> map_of m k = Some v \<longleftrightarrow> (k, v) \<in> set m"
  by (metis bt_wf_distinct map_of_eq_Some_iff)

end
