(* ===== verification/Kn_Disk.thy ===== *)
theory Kn_Disk
  imports Kn_Bytes
begin

text \<open>
  The block device as the kernel sees it and the write-back buffer cache in front of it
  (\<^verbatim>\<open>kernel/src/fs.rs\<close>, \<open>BufferCache\<close>).  The device is a record of the two methods of
  \<open>VirtioBlock\<close> the kernel calls; \<open>read_sector\<close> takes the caller's buffer and returns its new contents.
  Errors are the source's message strings.  A method that returns an \<open>Option\<close> has \<open>Err ()\<close> for \<open>None\<close>.

  The global access counter \<open>CACHE_ACCESS_COUNTER\<close> is a field of the cache, its only user.  A method that
  returns a mutable reference into the cache returns the referenced bytes; the caller's
  assignment through the reference is \<open>cache_assign\<close>.

  The invariant \<open>cache_ok\<close> says that a clean entry holds what the device holds.  Under it the cache is transparent: the
  contents seen through it (\<open>view\<close>) change by \<open>write\<close> alone, and \<open>sync\<close> makes the device equal to them.
\<close>

unbundle bit_operations_syntax

subsection \<open>The device\<close>

type_synonym error = string
type_synonym 'a opt = "('a, unit) result"

record 'd blk_ops =
  read_sector :: "u64 \<Rightarrow> u8 list \<Rightarrow> 'd \<Rightarrow> (u8 list, error) result \<times> 'd"
  write_sector :: "u64 \<Rightarrow> u8 list \<Rightarrow> 'd \<Rightarrow> (unit, error) result \<times> 'd"

abbreviation zero_sector :: "u8 list" where
  "zero_sector \<equiv> replicate 512 0"

subsection \<open>The buffer cache\<close>

abbreviation (input) CACHE_MAX_BLOCKS :: nat where "CACHE_MAX_BLOCKS \<equiv> 64"

record cache_entry =
  ce_data :: "u8 list"
  ce_dirty :: bool
  ce_last_access :: u64

record buffer_cache =
  blocks :: "(u64, cache_entry) btree"
  hits :: u64
  misses :: u64
  writebacks :: u64
  access_counter :: u64

type_synonym 'd cached = "buffer_cache \<times> 'd"

definition buffer_cache_new :: buffer_cache where
  "buffer_cache_new = \<lparr> blocks = [], hits = 0, misses = 0, writebacks = 0, access_counter = 0 \<rparr>"

definition entry_new :: "u8 list \<Rightarrow> buffer_cache \<Rightarrow> cache_entry \<times> buffer_cache" where
  "entry_new data c =
     (\<lparr> ce_data = data, ce_dirty = False, ce_last_access = access_counter c \<rparr>,
      c\<lparr> access_counter := access_counter c + 1 \<rparr>)"

definition touch :: "u64 \<Rightarrow> buffer_cache \<Rightarrow> buffer_cache" where
  "touch sector c =
     c\<lparr> blocks := bt_update sector (\<lambda>e. e\<lparr> ce_last_access := access_counter c \<rparr>) (blocks c),
       access_counter := access_counter c + 1 \<rparr>"

text \<open>The first entry, in key order, with the least access time.\<close>

fun lru_entry :: "(u64 \<times> cache_entry) list \<Rightarrow> (u64 \<times> cache_entry) option" where
  "lru_entry [] = None"
| "lru_entry (p # ps) =
     (case lru_entry ps of
        None \<Rightarrow> Some p
      | Some q \<Rightarrow> if ce_last_access (snd q) < ce_last_access (snd p) then Some q else Some p)"

definition evict_lru :: "'d blk_ops \<Rightarrow> 'd cached \<Rightarrow> (unit, error) result \<times> 'd cached" where
  "evict_lru dev cd =
     (case cd of (c, d) \<Rightarrow>
      case lru_entry (blocks c) of
        None \<Rightarrow> (Ok (), c, d)
      | Some (sector, e) \<Rightarrow>
          (if ce_dirty e then
             (case write_sector dev sector (ce_data e) d of
                (Ok _, d) \<Rightarrow>
                  (Ok (), c\<lparr> writebacks := writebacks c + 1, blocks := bt_remove sector (blocks c) \<rparr>, d)
              | (Err x, d) \<Rightarrow> (Err x, c, d)
              | (Panic, d) \<Rightarrow> (Panic, c, d))
           else (Ok (), c\<lparr> blocks := bt_remove sector (blocks c) \<rparr>, d)))"

text \<open>A device access on the pair of cache and device.\<close>

definition on_dev :: "('d \<Rightarrow> ('a, error) result \<times> 'd) \<Rightarrow> 'd cached \<Rightarrow> ('a, error) result \<times> 'd cached" where
  "on_dev f cd = (case f (snd cd) of (r, d) \<Rightarrow> (r, fst cd, d))"

definition evict_if_full :: "'d blk_ops \<Rightarrow> 'd cached \<Rightarrow> (unit, error) result \<times> 'd cached" where
  "evict_if_full dev cd =
     (if length (blocks (fst cd)) \<ge> CACHE_MAX_BLOCKS then evict_lru dev cd else (Ok (), cd))"

text \<open>The common part of a miss: fetch the sector, make room, insert a clean entry.\<close>

definition cache_fill :: "'d blk_ops \<Rightarrow> u64 \<Rightarrow> 'd cached \<Rightarrow> (u8 list, error) result \<times> 'd cached" where
  "cache_fill dev sector cd =
     bindS (on_dev (read_sector dev sector zero_sector) (apfst (\<lambda>c. c\<lparr> misses := misses c + 1 \<rparr>) cd)) (\<lambda>data cd.
     bindS (evict_if_full dev cd) (\<lambda>_ (c, d).
       (case entry_new data c of (e, c) \<Rightarrow>
          (Ok data, c\<lparr> blocks := bt_insert sector e (blocks c) \<rparr>, d))))"

definition cache_read :: "'d blk_ops \<Rightarrow> u64 \<Rightarrow> 'd cached \<Rightarrow> (u8 list, error) result \<times> 'd cached" where
  "cache_read dev sector cd =
     (case map_of (blocks (fst cd)) sector of
        Some e \<Rightarrow> (Ok (ce_data e), apfst (\<lambda>c. touch sector (c\<lparr> hits := hits c + 1 \<rparr>)) cd)
      | None \<Rightarrow> cache_fill dev sector cd)"

definition cache_read_mut :: "'d blk_ops \<Rightarrow> u64 \<Rightarrow> 'd cached \<Rightarrow> (u8 list, error) result \<times> 'd cached" where
  "cache_read_mut dev sector cd =
     bindS (case map_of (blocks (fst cd)) sector of
              Some e \<Rightarrow> (Ok (ce_data e), apfst (\<lambda>c. c\<lparr> hits := hits c + 1 \<rparr>) cd)
            | None \<Rightarrow> cache_fill dev sector cd) (\<lambda>data cd.
       (Ok data, apfst (touch sector) cd))"

definition cache_assign :: "u64 \<Rightarrow> u8 list \<Rightarrow> buffer_cache \<Rightarrow> buffer_cache" where
  "cache_assign sector data c =
     c\<lparr> blocks := bt_update sector (\<lambda>e. e\<lparr> ce_data := data \<rparr>) (blocks c) \<rparr>"

definition mark_dirty :: "u64 \<Rightarrow> buffer_cache \<Rightarrow> buffer_cache" where
  "mark_dirty sector c =
     c\<lparr> blocks := bt_update sector (\<lambda>e. e\<lparr> ce_dirty := True \<rparr>) (blocks c) \<rparr>"

definition cache_write :: "'d blk_ops \<Rightarrow> u64 \<Rightarrow> u8 list \<Rightarrow> 'd cached \<Rightarrow> (unit, error) result \<times> 'd cached" where
  "cache_write dev sector data cd =
     bindS (if bt_contains sector (blocks (fst cd)) then (Ok (), cd) else evict_if_full dev cd) (\<lambda>_ (c, d).
       (if bt_contains sector (blocks c) then
          (Ok (), touch sector (mark_dirty sector (cache_assign sector data c)), d)
        else
          (case entry_new data c of (e, c) \<Rightarrow>
             (Ok (), c\<lparr> blocks := bt_insert sector (e\<lparr> ce_dirty := True \<rparr>) (blocks c) \<rparr>, d))))"

fun sync_loop :: "'d blk_ops \<Rightarrow> u64 list \<Rightarrow> u64 \<Rightarrow> 'd cached \<Rightarrow> (u64, error) result \<times> 'd cached" where
  "sync_loop dev [] count cd = (Ok count, cd)"
| "sync_loop dev (sector # rest) count cd =
     (case map_of (blocks (fst cd)) sector of
        None \<Rightarrow> sync_loop dev rest count cd
      | Some e \<Rightarrow>
          (if ce_dirty e then
             bindS (on_dev (write_sector dev sector (ce_data e)) cd) (\<lambda>_ (c, d).
               sync_loop dev rest (count + 1)
                 (c\<lparr> blocks := bt_update sector (\<lambda>e. e\<lparr> ce_dirty := False \<rparr>) (blocks c),
                    writebacks := writebacks c + 1 \<rparr>, d))
           else sync_loop dev rest count cd))"

definition cache_sync :: "'d blk_ops \<Rightarrow> 'd cached \<Rightarrow> (u64, error) result \<times> 'd cached" where
  "cache_sync dev cd = sync_loop dev (bt_keys (blocks (fst cd))) 0 cd"

definition sync_block :: "'d blk_ops \<Rightarrow> u64 \<Rightarrow> 'd cached \<Rightarrow> (bool, error) result \<times> 'd cached" where
  "sync_block dev sector cd =
     (case map_of (blocks (fst cd)) sector of
        None \<Rightarrow> (Ok False, cd)
      | Some e \<Rightarrow>
          (if ce_dirty e then
             bindS (on_dev (write_sector dev sector (ce_data e)) cd) (\<lambda>_ (c, d).
               (Ok True, c\<lparr> blocks := bt_update sector (\<lambda>e. e\<lparr> ce_dirty := False \<rparr>) (blocks c),
                           writebacks := writebacks c + 1 \<rparr>, d))
           else (Ok False, cd)))"

definition cache_invalidate :: "u64 \<Rightarrow> buffer_cache \<Rightarrow> buffer_cache" where
  "cache_invalidate sector c = c\<lparr> blocks := bt_remove sector (blocks c) \<rparr>"

definition cache_clear :: "'d blk_ops \<Rightarrow> 'd cached \<Rightarrow> (unit, error) result \<times> 'd cached" where
  "cache_clear dev cd = bindS (cache_sync dev cd) (\<lambda>_ (c, d). (Ok (), c\<lparr> blocks := [] \<rparr>, d))"

definition cache_stats :: "buffer_cache \<Rightarrow> u64 \<times> u64 \<times> u64 \<times> u64" where
  "cache_stats c = (hits c, misses c, writebacks c, word_of_nat (length (blocks c)))"

definition dirty_count :: "buffer_cache \<Rightarrow> u64" where
  "dirty_count c = word_of_nat (length (filter (\<lambda>p. ce_dirty (snd p)) (blocks c)))"

subsection \<open>The contents seen through the cache\<close>

definition view :: "('d \<Rightarrow> u64 \<Rightarrow> u8 list) \<Rightarrow> 'd cached \<Rightarrow> u64 \<Rightarrow> u8 list" where
  "view sec cd s = (case map_of (blocks (fst cd)) s of Some e \<Rightarrow> ce_data e | None \<Rightarrow> sec (snd cd) s)"

text \<open>The invariant for a cache that only ever holds sectors from \<open>K\<close>.\<close>

definition cache_ok :: "('d \<Rightarrow> bool) \<Rightarrow> ('d \<Rightarrow> u64 \<Rightarrow> u8 list) \<Rightarrow> u64 set \<Rightarrow> 'd cached \<Rightarrow> bool" where
  "cache_ok good sec K cd \<longleftrightarrow>
     good (snd cd) \<and> bt_wf (blocks (fst cd)) \<and> length (blocks (fst cd)) \<le> CACHE_MAX_BLOCKS \<and>
     (\<forall>s e. map_of (blocks (fst cd)) s = Some e \<longrightarrow>
        s \<in> K \<and> length (ce_data e) = 512 \<and> (\<not> ce_dirty e \<longrightarrow> ce_data e = sec (snd cd) s))"

lemma view_pair:
  "view sec (c, d) s = (case map_of (blocks c) s of Some e \<Rightarrow> ce_data e | None \<Rightarrow> sec d s)"
  by (simp add: view_def split: option.splits)

text \<open>A clean cache: every entry holds what the device holds.\<close>

definition cache_clean :: "buffer_cache \<Rightarrow> bool" where
  "cache_clean c \<longleftrightarrow> (\<forall>s e. map_of (blocks c) s = Some e \<longrightarrow> \<not> ce_dirty e)"

definition dirty_at :: "buffer_cache \<Rightarrow> u64 \<Rightarrow> bool" where
  "dirty_at c s \<longleftrightarrow> (case map_of (blocks c) s of Some e \<Rightarrow> ce_dirty e | None \<Rightarrow> False)"

lemma lru_entry_mem: "lru_entry ps = Some p \<Longrightarrow> p \<in> set ps"
  by (induction ps arbitrary: p) (auto split: option.splits if_splits)

lemma lru_entry_None [simp]: "lru_entry ps = None \<longleftrightarrow> ps = []"
  by (cases ps) (auto split: option.splits)

lemma length_bt_remove: "k \<in> set (bt_keys m) \<Longrightarrow> length (bt_remove k m) < length m"
  unfolding bt_remove_def by (induction m) (auto simp: le_imp_less_Suc)

lemma length_bt_insert: "length (bt_insert k v m) \<le> Suc (length m)"
  by (induction m) auto

locale block_dev =
  fixes dev :: "'d blk_ops"
    and good :: "'d \<Rightarrow> bool"
    and sec :: "'d \<Rightarrow> u64 \<Rightarrow> u8 list"
    and cap :: u64
  assumes dev_read: "good d \<Longrightarrow> s < cap \<Longrightarrow> length buf = 512 \<Longrightarrow>
      outcome (read_sector dev s buf d) (sec d s) (\<lambda>d'. good d' \<and> sec d' = sec d)"
    and dev_write: "good d \<Longrightarrow> s < cap \<Longrightarrow> length b = 512 \<Longrightarrow>
      outcome (write_sector dev s b d) () (\<lambda>d'. good d' \<and> sec d' = (sec d)(s := b))"
    and sector_length: "good d \<Longrightarrow> s < cap \<Longrightarrow> length (sec d s) = 512"

locale cached_dev = block_dev dev good sec cap
  for dev :: "'d blk_ops" and good sec cap +
  fixes K :: "u64 set"
  assumes K_cap: "s \<in> K \<Longrightarrow> s < cap"
begin

abbreviation ok :: "'d cached \<Rightarrow> bool" where
  "ok \<equiv> cache_ok good sec K"

abbreviation vw :: "'d cached \<Rightarrow> u64 \<Rightarrow> u8 list" where
  "vw \<equiv> view sec"

lemma view_length:
  assumes "ok cd" "s < cap"
  shows "length (vw cd s) = 512"
  using assms sector_length [of "snd cd" s] by (auto simp: cache_ok_def view_def split: option.splits)

lemma okI:
  assumes "good d" "bt_wf (blocks c)" "length (blocks c) \<le> CACHE_MAX_BLOCKS"
    "\<And>s e. map_of (blocks c) s = Some e \<Longrightarrow>
        s \<in> K \<and> length (ce_data e) = 512 \<and> (\<not> ce_dirty e \<longrightarrow> ce_data e = sec d s)"
  shows "ok (c, d)"
  using assms by (simp add: cache_ok_def)

lemma evict_lru_outcome:
  assumes ok: "ok cd" and ne: "blocks (fst cd) \<noteq> []"
  shows "outcome (evict_lru dev cd) ()
    (\<lambda>cd'. ok cd' \<and> vw cd' = vw cd \<and> length (blocks (fst cd')) < CACHE_MAX_BLOCKS \<and>
      (\<forall>s. map_of (blocks (fst cd)) s = None \<longrightarrow> map_of (blocks (fst cd')) s = None))"
proof -
  obtain c d where cd: "cd = (c, d)" by (rule prod.exhaust)
  obtain sector e where lru: "lru_entry (blocks c) = Some (sector, e)"
    using ne cd by (cases "lru_entry (blocks c)") auto
  then have mem: "(sector, e) \<in> set (blocks c)" by (rule lru_entry_mem)
  have wf: "bt_wf (blocks c)" "good d" "length (blocks c) \<le> CACHE_MAX_BLOCKS"
    using ok by (simp_all add: cd cache_ok_def)
  have e: "map_of (blocks c) sector = Some e" using wf mem by (simp add: map_of_mem_iff)
  then have sec: "sector \<in> K" "length (ce_data e) = 512" "\<not> ce_dirty e \<Longrightarrow> ce_data e = sec d sector"
    using ok by (auto simp: cd cache_ok_def)
  have len: "length (bt_remove sector (blocks c)) < CACHE_MAX_BLOCKS"
    using length_bt_remove [of sector "blocks c"] mem wf(3) by force
  show ?thesis
  proof (cases "ce_dirty e")
    case True
    from dev_write [OF wf(2) K_cap [OF sec(1)] sec(2)] obtain d' where
      "write_sector dev sector (ce_data e) d = (Ok (), d')" "good d'" "sec d' = (sec d)(sector := ce_data e)"
      by (elim outcomeE) auto
    then show ?thesis
      using True ok wf len e lru
      by (auto simp: cd evict_lru_def view_def fun_eq_iff cache_ok_def split: option.splits)
  next
    case False
    then show ?thesis
      using ok wf len e lru sec(3)
      by (auto simp: cd evict_lru_def view_def fun_eq_iff cache_ok_def split: option.splits)
  qed
qed

lemma evict_if_full_outcome:
  assumes "ok cd"
  shows "outcome (evict_if_full dev cd) ()
    (\<lambda>cd'. ok cd' \<and> vw cd' = vw cd \<and> length (blocks (fst cd')) < CACHE_MAX_BLOCKS \<and>
      (\<forall>s. map_of (blocks (fst cd)) s = None \<longrightarrow> map_of (blocks (fst cd')) s = None))"
proof (cases "length (blocks (fst cd)) \<ge> CACHE_MAX_BLOCKS")
  case True
  then have "blocks (fst cd) \<noteq> []" by auto
  from evict_lru_outcome [OF assms this] show ?thesis using True by (simp add: evict_if_full_def)
qed (use assms in \<open>simp add: evict_if_full_def\<close>)

text \<open>The invariant and the view depend on the entries alone.\<close>

lemma ok_insert:
  assumes "ok (c, d)" "length (blocks c) < CACHE_MAX_BLOCKS" "s \<in> K" "length (ce_data e) = 512"
    "\<not> ce_dirty e \<Longrightarrow> ce_data e = sec d s" "blocks c' = bt_insert s e (blocks c)"
  shows "ok (c', d)" "vw (c', d) = (vw (c, d))(s := ce_data e)"
proof -
  show "ok (c', d)"
  proof (rule okI)
    show "length (blocks c') \<le> CACHE_MAX_BLOCKS"
      using assms(2,6) length_bt_insert [of s e "blocks c"] by simp
  qed (use assms in \<open>auto simp: cache_ok_def split: if_splits\<close>)
  show "vw (c', d) = (vw (c, d))(s := ce_data e)"
    using assms(1,6) by (auto simp: view_pair cache_ok_def fun_eq_iff)
qed

lemma ok_update:
  assumes "ok (c, d)" "\<And>e. length (ce_data (f e)) = 512 \<longleftrightarrow> length (ce_data e) = 512"
    "\<And>e. map_of (blocks c) s = Some e \<Longrightarrow> \<not> ce_dirty (f e) \<Longrightarrow> ce_data (f e) = sec d s"
    "blocks c' = bt_update s f (blocks c)"
  shows "ok (c', d)"
proof (rule okI)
  show "length (blocks c') \<le> CACHE_MAX_BLOCKS"
    using assms(1,4) by (simp add: cache_ok_def bt_update_def)
qed (use assms in \<open>auto simp: cache_ok_def split: if_splits\<close>)

lemma ok_stats [simp]:
  "ok (c\<lparr> hits := n \<rparr>, d) = ok (c, d)" "vw (c\<lparr> hits := n \<rparr>, d) = vw (c, d)"
  "ok (c\<lparr> misses := n \<rparr>, d) = ok (c, d)" "vw (c\<lparr> misses := n \<rparr>, d) = vw (c, d)"
  "ok (c\<lparr> writebacks := n \<rparr>, d) = ok (c, d)" "vw (c\<lparr> writebacks := n \<rparr>, d) = vw (c, d)"
  by (simp_all add: cache_ok_def view_pair fun_eq_iff)

lemma touch_ok: "ok (c, d) \<Longrightarrow> ok (touch s c, d)"
  by (rule ok_update [where f = "\<lambda>e. e\<lparr> ce_last_access := access_counter c \<rparr>" and s = s])
    (auto simp: touch_def cache_ok_def)

lemma touch_view: "vw (touch s c, d) = vw (c, d)"
  by (auto simp: touch_def view_def fun_eq_iff split: option.splits)

lemma cache_fill_outcome:
  assumes ok: "ok cd" and s: "s \<in> K" and miss: "map_of (blocks (fst cd)) s = None"
  shows "outcome (cache_fill dev s cd) (vw cd s)
    (\<lambda>cd'. ok cd' \<and> vw cd' = vw cd \<and> map_of (blocks (fst cd')) s \<noteq> None)"
proof -
  obtain c d where cd: "cd = (c, d)" by (rule prod.exhaust)
  have good: "good d" using ok by (simp add: cd cache_ok_def)
  have "outcome (read_sector dev s zero_sector d) (sec d s) (\<lambda>d'. good d' \<and> sec d' = sec d)"
    by (rule dev_read [OF good K_cap [OF s]]) simp
  then obtain d' where
    d': "read_sector dev s zero_sector d = (Ok (sec d s), d')" "good d'" "sec d' = sec d"
    by (auto elim: outcomeE)
  let ?cd = "(c\<lparr> misses := misses c + 1 \<rparr>, d')"
  have ok1: "ok ?cd" and vw1: "vw ?cd = vw cd"
    using ok d' by (auto simp: cd cache_ok_def view_pair fun_eq_iff split: option.splits)
  have data: "sec d s = vw cd s" using miss by (simp add: cd view_pair)
  from evict_if_full_outcome [OF ok1] obtain c2 d2 where
    e: "evict_if_full dev ?cd = (Ok (), c2, d2)" "ok (c2, d2)" "vw (c2, d2) = vw cd"
      "length (blocks c2) < CACHE_MAX_BLOCKS" "map_of (blocks c2) s = None"
    using miss vw1 by (elim outcomeE) (auto simp: cd)
  then have "sec d2 s = vw cd s" by (metis (mono_tags, lifting) option.simps(4) view_pair)
  moreover have "length (vw cd s) = 512" using ok K_cap [OF s] by (rule view_length)
  moreover define e0 where "e0 = \<lparr> ce_data = vw cd s, ce_dirty = False, ce_last_access = access_counter c2 \<rparr>"
  moreover define c3 where
    "c3 = c2\<lparr> access_counter := access_counter c2 + 1, blocks := bt_insert s e0 (blocks c2) \<rparr>"
  ultimately have "ok (c3, d2)" "vw (c3, d2) = vw cd"
    using ok_insert [OF e(2,4) s, of e0 c3] e(3) by simp_all
  moreover have "cache_fill dev s cd = (Ok (vw cd s), c3, d2)"
    using d' e(1) data by (simp add: cd cache_fill_def on_dev_def entry_new_def e0_def c3_def)
  moreover have "map_of (blocks c3) s \<noteq> None" using e(2) by (simp add: c3_def cache_ok_def)
  ultimately show ?thesis by simp
qed

lemma cache_read_outcome:
  assumes ok: "ok cd" and s: "s \<in> K"
  shows "outcome (cache_read dev s cd) (vw cd s) (\<lambda>cd'. ok cd' \<and> vw cd' = vw cd)"
proof (cases "map_of (blocks (fst cd)) s")
  case None
  then show ?thesis
    by (auto simp: cache_read_def intro: outcome_mono [OF cache_fill_outcome [OF ok s None]])
next
  case (Some e)
  then show ?thesis
    using ok by (cases cd) (auto simp: cache_read_def touch_view view_pair intro!: touch_ok)
qed

lemma cache_read_mut_outcome:
  assumes ok: "ok cd" and s: "s \<in> K"
  shows "outcome (cache_read_mut dev s cd) (vw cd s)
    (\<lambda>cd'. ok cd' \<and> vw cd' = vw cd \<and> map_of (blocks (fst cd')) s \<noteq> None)"
proof -
  have "outcome (case map_of (blocks (fst cd)) s of
          Some e \<Rightarrow> (Ok (ce_data e), apfst (\<lambda>c. c\<lparr> hits := hits c + 1 \<rparr>) cd)
        | None \<Rightarrow> cache_fill dev s cd) (vw cd s)
      (\<lambda>cd'. ok cd' \<and> vw cd' = vw cd \<and> map_of (blocks (fst cd')) s \<noteq> None)"
  proof (cases "map_of (blocks (fst cd)) s")
    case None
    then show ?thesis using cache_fill_outcome [OF ok s None] by simp
  next
    case (Some e)
    then show ?thesis
      using ok by (cases cd) (auto simp: view_pair)
  qed
  then show ?thesis
    unfolding cache_read_mut_def
    by (rule outcome_bindS) (auto simp: touch_view touch_ok touch_def [THEN arg_cong, of blocks])
qed

lemma cache_modify:
  assumes "ok (c, d)" "map_of (blocks c) s \<noteq> None" "length data = 512"
  shows "ok (mark_dirty s (cache_assign s data c), d)"
    "vw (mark_dirty s (cache_assign s data c), d) = (vw (c, d))(s := data)"
proof -
  let ?c = "mark_dirty s (cache_assign s data c)"
  have m: "map_of (blocks ?c) =
      (map_of (blocks c))(s := map_option (\<lambda>e. e\<lparr> ce_data := data, ce_dirty := True \<rparr>) (map_of (blocks c) s))"
    by (auto simp: mark_dirty_def cache_assign_def fun_eq_iff option.map_comp comp_def)
  have b: "bt_wf (blocks ?c) = bt_wf (blocks c)" "length (blocks ?c) = length (blocks c)"
    by (simp_all add: mark_dirty_def cache_assign_def)
  show "ok (?c, d)"
    by (rule okI) (use assms in \<open>auto simp: b m cache_ok_def split: if_splits\<close>)
  show "vw (?c, d) = (vw (c, d))(s := data)"
    using assms(2) by (auto simp: view_pair fun_eq_iff m)
qed

lemma cache_write_outcome:
  assumes ok: "ok cd" and s: "s \<in> K" and len: "length data = 512"
  shows "outcome (cache_write dev s data cd) () (\<lambda>cd'. ok cd' \<and> vw cd' = (vw cd)(s := data))"
proof (cases "bt_contains s (blocks (fst cd))")
  case True
  obtain c d where cd: "cd = (c, d)" by (rule prod.exhaust)
  with True have m: "map_of (blocks c) s \<noteq> None" by (simp add: bt_contains_def)
  show ?thesis
    using True cache_modify [OF ok [unfolded cd] m len]
    by (simp add: cd cache_write_def touch_ok touch_view)
next
  case False
  then have miss: "map_of (blocks (fst cd)) s = None" by (simp add: bt_contains_def)
  from evict_if_full_outcome [OF ok] obtain c2 d2 where
    e: "evict_if_full dev cd = (Ok (), c2, d2)" "ok (c2, d2)" "vw (c2, d2) = vw cd"
      "length (blocks c2) < CACHE_MAX_BLOCKS" "map_of (blocks c2) s = None"
    using miss by (elim outcomeE) auto
  define e0 where "e0 = \<lparr> ce_data = data, ce_dirty = True, ce_last_access = access_counter c2 \<rparr>"
  define c3 where
    "c3 = c2\<lparr> access_counter := access_counter c2 + 1, blocks := bt_insert s e0 (blocks c2) \<rparr>"
  have "ok (c3, d2)" "vw (c3, d2) = (vw cd)(s := data)"
    using ok_insert [OF e(2,4) s, of e0 c3] e(3) len by (simp_all add: e0_def c3_def)
  moreover have "cache_write dev s data cd = (Ok (), c3, d2)"
    using False e(1,5) by (simp add: cache_write_def entry_new_def bt_contains_def e0_def c3_def)
  ultimately show ?thesis by simp
qed

text \<open>One write-back: the device gets the entry's bytes and the entry becomes clean.\<close>

lemma write_back:
  assumes ok: "ok (c, d)" and e: "map_of (blocks c) s = Some e"
    and c': "blocks c' = bt_update s (\<lambda>e. e\<lparr> ce_dirty := False \<rparr>) (blocks c)"
  shows "outcome (write_sector dev s (ce_data e) d) () (\<lambda>d'. ok (c', d') \<and> vw (c', d') = vw (c, d))"
proof -
  have good: "good d" and s: "s \<in> K" "length (ce_data e) = 512"
    using ok e by (auto simp: cache_ok_def)
  have m: "map_of (blocks c') = (map_of (blocks c))(s \<mapsto> e\<lparr> ce_dirty := False \<rparr>)"
    using e by (auto simp: c' fun_eq_iff)
  have "ok (c', d') \<and> vw (c', d') = vw (c, d)" if "good d'" "sec d' = (sec d)(s := ce_data e)" for d'
  proof
    show "ok (c', d')"
    proof (rule okI)
      fix t x assume "map_of (blocks c') t = Some x"
      then show "t \<in> K \<and> length (ce_data x) = 512 \<and> (\<not> ce_dirty x \<longrightarrow> ce_data x = sec d' t)"
        using ok s that(2) by (cases "t = s") (auto simp: m cache_ok_def)
    qed (use ok that(1) in \<open>simp_all add: c' cache_ok_def\<close>)
    show "vw (c', d') = vw (c, d)"
    proof
      fix t show "vw (c', d') t = vw (c, d) t"
        using e that(2) by (cases "t = s") (simp_all add: view_pair m split: option.splits)
    qed
  qed
  then show ?thesis by (intro outcome_mono [OF dev_write [OF good K_cap [OF s(1)] s(2)]]) blast
qed

lemma sync_loop_outcome:
  assumes "ok cd" "distinct ks"
  shows "outcome (sync_loop dev ks n cd)
      (n + word_of_nat (length (filter (dirty_at (fst cd)) ks)))
      (\<lambda>cd'. ok cd' \<and> vw cd' = vw cd \<and>
        (\<forall>s. dirty_at (fst cd') s \<longleftrightarrow> dirty_at (fst cd) s \<and> s \<notin> set ks))"
  using assms
proof (induction ks arbitrary: n cd)
  case (Cons s ks)
  obtain c d where cd: "cd = (c, d)" by (rule prod.exhaust)
  show ?case
  proof (cases "dirty_at c s")
    case False
    then have eq: "sync_loop dev (s # ks) n cd = sync_loop dev ks n cd"
        "filter (dirty_at (fst cd)) (s # ks) = filter (dirty_at (fst cd)) ks"
      by (auto simp: cd dirty_at_def split: option.splits)
    have "outcome (sync_loop dev ks n cd) (n + word_of_nat (length (filter (dirty_at (fst cd)) ks)))
      (\<lambda>cd'. ok cd' \<and> vw cd' = vw cd \<and>
        (\<forall>s. dirty_at (fst cd') s \<longleftrightarrow> dirty_at (fst cd) s \<and> s \<notin> set ks))"
      using Cons.prems by (intro Cons.IH) simp_all
    then show ?thesis unfolding eq by (rule outcome_mono) (use False in \<open>auto simp: cd\<close>)
  next
    case True
    then obtain e where e: "map_of (blocks c) s = Some e" "ce_dirty e"
      by (auto simp: dirty_at_def split: option.splits)
    let ?c = "c\<lparr> blocks := bt_update s (\<lambda>e. e\<lparr> ce_dirty := False \<rparr>) (blocks c), writebacks := writebacks c + 1 \<rparr>"
    obtain d' where d': "write_sector dev s (ce_data e) d = (Ok (), d')" "ok (?c, d')" "vw (?c, d') = vw cd"
      using write_back [OF Cons.prems(1) [unfolded cd] e(1), of ?c] by (auto simp: cd elim: outcomeE)
    have dirty: "dirty_at ?c t \<longleftrightarrow> dirty_at c t \<and> t \<noteq> s" for t
      by (auto simp: dirty_at_def split: option.splits)
    have filter: "filter (dirty_at ?c) ks = filter (dirty_at c) ks"
      using Cons.prems(2) by (auto simp: dirty intro: filter_cong)
    have "outcome (sync_loop dev ks (n + 1) (?c, d'))
        (n + 1 + word_of_nat (length (filter (dirty_at ?c) ks)))
        (\<lambda>cd'. ok cd' \<and> vw cd' = vw (?c, d') \<and> (\<forall>t. dirty_at (fst cd') t \<longleftrightarrow> dirty_at ?c t \<and> t \<notin> set ks))"
      using Cons.IH [of "(?c, d')" "n + 1"] d'(2) Cons.prems(2) by simp
    moreover have eq: "sync_loop dev (s # ks) n cd = sync_loop dev ks (n + 1) (?c, d')"
        "n + word_of_nat (length (filter (dirty_at (fst cd)) (s # ks))) =
          n + 1 + word_of_nat (length (filter (dirty_at ?c) ks))"
      using e True d'(1) by (simp_all add: cd on_dev_def filter)
    ultimately show ?thesis
      unfolding eq by (elim outcome_mono) (use d'(3) in \<open>auto simp: cd dirty\<close>)
  qed
qed simp

lemma clean_device_is_view:
  assumes "ok cd" "cache_clean (fst cd)"
  shows "sec (snd cd) = vw cd"
  using assms by (cases cd) (auto simp: fun_eq_iff view_pair cache_ok_def cache_clean_def split: option.splits)

lemma cache_sync_outcome:
  assumes "ok cd"
  shows "outcome (cache_sync dev cd) (dirty_count (fst cd))
    (\<lambda>cd'. ok cd' \<and> vw cd' = vw cd \<and> cache_clean (fst cd') \<and> sec (snd cd') = vw cd)"
proof -
  let ?m = "blocks (fst cd)"
  have wf: "bt_wf ?m" using assms by (simp add: cache_ok_def)
  have "dirty_at (fst cd) (fst p) = ce_dirty (snd p)" if "p \<in> set ?m" for p
  proof -
    have "map_of ?m (fst p) = Some (snd p)" using that wf by (simp add: map_of_mem_iff)
    then show ?thesis by (simp add: dirty_at_def)
  qed
  then have "filter (dirty_at (fst cd) \<circ> fst) ?m = filter (\<lambda>p. ce_dirty (snd p)) ?m"
    by (intro filter_cong) simp_all
  then have count: "word_of_nat (length (filter (dirty_at (fst cd)) (bt_keys ?m))) = dirty_count (fst cd)"
    by (simp add: filter_map dirty_count_def)
  have clean: "cache_clean c" if "\<forall>s. dirty_at c s \<longleftrightarrow> dirty_at (fst cd) s \<and> s \<notin> set (bt_keys ?m)" for c
  proof -
    have "\<not> dirty_at c s" for s
      using that by (cases "map_of ?m s") (auto simp: dirty_at_def dest!: map_of_SomeD intro: rev_image_eqI)
    then show ?thesis unfolding cache_clean_def dirty_at_def by (metis option.simps(5))
  qed
  show ?thesis
    using sync_loop_outcome [OF assms bt_wf_distinct [OF wf], of 0]
    unfolding cache_sync_def add_0 count
    by (rule outcome_mono) (use clean clean_device_is_view in \<open>metis (no_types, lifting)\<close>)
qed

end

end
