(* ===== verification/Kn_Uart.thy ===== *)
theory Kn_Uart
  imports Kn_Bytes Rv_Uart
begin

text \<open>
  The kernel's console driver (\<^verbatim>\<open>kernel/src/uart.rs\<close>) on the UART device of the emulator: a volatile access to
  \<open>UART_BASE + off\<close> is a one-byte load or store of the device's register \<open>off\<close>.  Waiting for the transmitter is a
  loop that ends when the status register shows it idle; it is a partial function, so that a
  transmitter that never becomes idle is the outcome \<open>None\<close>.

  The lemmas show that on the emulator's device the wait always ends, that a string reaches the transmit
  queue byte by byte, and that the number printers emit the positional representation.
\<close>

unbundle bit_operations_syntax

subsection \<open>Register access\<close>

abbreviation (input) LSR_RX_READY :: u8 where "LSR_RX_READY \<equiv> 0x01"
abbreviation (input) LSR_TX_IDLE :: u8 where "LSR_TX_IDLE \<equiv> 0x20"

definition read_reg8 :: "u64 \<Rightarrow> uart \<Rightarrow> u8 \<times> uart" where
  "read_reg8 off u = (case uart_load off 1 u of (r, u) \<Rightarrow> ((case r of Ok v \<Rightarrow> low8 v | _ \<Rightarrow> 0), u))"

definition write_reg8 :: "u64 \<Rightarrow> u8 \<Rightarrow> uart \<Rightarrow> uart" where
  "write_reg8 off b u = snd (uart_store off 1 (zext8 b) u)"

definition console_init :: "uart \<Rightarrow> uart" where
  "console_init u =
     write_reg8 2 0xC7 (write_reg8 3 0x03 (write_reg8 1 0x00 (write_reg8 0 0x01
       (write_reg8 3 0x80 (write_reg8 1 0x00 u)))))"

subsection \<open>Bytes and strings\<close>

partial_function (option) wait_for_tx_ready :: "uart \<Rightarrow> uart option" where
  "wait_for_tx_ready u =
     (case read_reg8 5 u of (s, u) \<Rightarrow> if s AND LSR_TX_IDLE = 0 then wait_for_tx_ready u else Some u)"

definition console_write_byte :: "u8 \<Rightarrow> uart \<Rightarrow> uart option" where
  "console_write_byte b u = map_option (write_reg8 0 b) (wait_for_tx_ready u)"

definition console_read_byte :: "uart \<Rightarrow> u8 \<times> uart" where
  "console_read_byte u =
     (case read_reg8 5 u of (s, u) \<Rightarrow> if s AND LSR_RX_READY \<noteq> 0 then read_reg8 0 u else (0, u))"

fun console_write_bytes :: "u8 list \<Rightarrow> uart \<Rightarrow> uart option" where
  "console_write_bytes [] u = Some u"
| "console_write_bytes (b # bs) u =
     (case console_write_byte b u of None \<Rightarrow> None | Some u \<Rightarrow> console_write_bytes bs u)"

definition write_line :: "str \<Rightarrow> uart \<Rightarrow> uart option" where
  "write_line s u =
     (case console_write_bytes s u of None \<Rightarrow> None | Some u \<Rightarrow> console_write_bytes [10] u)"

subsection \<open>Numbers\<close>

text \<open>The loops fill a buffer of \<open>n\<close> bytes with the digits, least significant first.\<close>

primrec dec_digits :: "nat \<Rightarrow> u64 \<Rightarrow> u8 list" where
  "dec_digits 0 v = []"
| "dec_digits (Suc i) v = (if v > 0 then (48 + low8 (v mod 10)) # dec_digits i (v div 10) else [])"

definition hex_digit :: "u64 \<Rightarrow> u8" where
  "hex_digit d = (if d < 10 then 48 + low8 d else 87 + low8 d)"

primrec hex_digits :: "nat \<Rightarrow> u64 \<Rightarrow> u8 list" where
  "hex_digits 0 v = []"
| "hex_digits (Suc i) v = (if v > 0 then hex_digit (v AND 0xF) # hex_digits i (shr v 4) else [])"

definition write_u64 :: "u64 \<Rightarrow> uart \<Rightarrow> uart option" where
  "write_u64 n u =
     (if n = 0 then console_write_byte 48 u else console_write_bytes (rev (dec_digits 20 n)) u)"

definition write_hex :: "u64 \<Rightarrow> uart \<Rightarrow> uart option" where
  "write_hex n u =
     (if n = 0 then console_write_byte 48 u else console_write_bytes (rev (hex_digits 16 n)) u)"

definition write_hex_byte :: "u8 \<Rightarrow> uart \<Rightarrow> uart option" where
  "write_hex_byte b u =
     console_write_bytes [hex_digit (zext8 (shr b 4)), hex_digit (zext8 (b AND 0xF))] u"

subsection \<open>Transmission\<close>

text \<open>The state in which the device transmits: idle transmitter, divisor latch closed.\<close>

definition tx_ready :: "uart \<Rightarrow> bool" where
  "tx_ready u \<longleftrightarrow> bit (lsr u) 5 \<and> \<not> bit (lcr u) 7"

lemma and_bit5: "(w AND LSR_TX_IDLE = 0) \<longleftrightarrow> \<not> bit w 5" for w :: u8
  using and_2p_iff [of 5 w] by simp

lemma and_bit7: "(w AND 0x80 = 0) \<longleftrightarrow> \<not> bit w 7" for w :: u8
  using and_2p_iff [of 7 w] by simp

lemma low8_zext8 [simp]: "low8 (zext8 b) = b" "low8 (zext8 b AND 0xFF) = b"
  by (rule bit_word_eqI, simp add: bitx)+

lemma wait_ready: "tx_ready u \<Longrightarrow> wait_for_tx_ready u = Some u"
  by (subst wait_for_tx_ready.simps) (simp add: read_reg8_def uart_load_def tx_ready_def and_bit5)

lemma write_byte_ready:
  assumes "tx_ready u"
  shows "\<exists>u'. console_write_byte b u = Some u' \<and> tx_ready u' \<and> tx_fifo u' = tx_fifo u @ [b]"
  using assms
  by (simp add: console_write_byte_def wait_ready write_reg8_def uart_store_def Let_def)
    (simp add: tx_ready_def and_bit7 bit_simps)

lemma write_bytes_ready:
  "tx_ready u \<Longrightarrow> \<exists>u'. console_write_bytes bs u = Some u' \<and> tx_ready u' \<and> tx_fifo u' = tx_fifo u @ bs"
proof (induction bs arbitrary: u)
  case (Cons b bs)
  from write_byte_ready [OF Cons.prems, of b] obtain u1 where
    u1: "console_write_byte b u = Some u1" "tx_ready u1" "tx_fifo u1 = tx_fifo u @ [b]" by blast
  from Cons.IH [OF u1(2)] u1 show ?case by auto
qed simp

lemma console_init_ready: "tx_ready (console_init u)"
  by (simp add: console_init_def write_reg8_def uart_store_def Let_def tx_ready_def bit_simps)

subsection \<open>Positional representation\<close>

text \<open>The value of a string of decimal digits.\<close>

definition dec_val :: "u8 list \<Rightarrow> nat" where
  "dec_val bs = foldl (\<lambda>n b. 10 * n + (unat b - 48)) 0 bs"

lemma digit_val: "unat (48 + low8 (v mod 10)) = 48 + unat v mod 10" for v :: u64
proof -
  have "unat v mod 10 < 10" by simp
  then have "unat (low8 (v mod 10)) = unat v mod 10"
    by (simp add: unat_mod unsigned_ucast_eq take_bit_nat_eq_self)
  then show ?thesis by (simp add: unat_word_ariths)
qed

lemma foldr_dec_digits:
  "unat v < 10 ^ i \<Longrightarrow> foldr (\<lambda>b n. 10 * n + (unat b - 48)) (dec_digits i v) 0 = unat v"
proof (induction i arbitrary: v)
  case (Suc i)
  then have "unat (v div 10) < 10 ^ i" by (simp add: unat_div less_mult_imp_div_less)
  from Suc.IH [OF this] show ?case by (auto simp: digit_val unat_div word_gt_0_no word_greater_zero_iff)
qed (simp add: unat_eq_0 [THEN iffD2])

lemma dec_val_digits: "dec_val (rev (dec_digits 20 v)) = unat v"
proof -
  have "unat v < 2 ^ LENGTH(64)" by (rule unsigned_less)
  then have "unat v < 10 ^ 20" by simp
  then show ?thesis by (simp add: dec_val_def foldl_conv_foldr foldr_dec_digits)
qed

text \<open>The decimal numeral of a number: one digit, or the numeral of a tenth of it followed by the last digit.\<close>

fun decimal :: "nat \<Rightarrow> u8 list" where
  "decimal n = (if n < 10 then [48 + word_of_nat n] else decimal (n div 10) @ [48 + word_of_nat (n mod 10)])"

declare decimal.simps [simp del]

lemma digit_eq: "48 + low8 (v mod 10) = 48 + word_of_nat (unat v mod 10)" for v :: u64
proof -
  have "unat v mod 10 < 10" by simp
  then have "unat (48 + word_of_nat (unat v mod 10) :: u8) = 48 + unat v mod 10" by (simp add: unat_word_ariths unat_of_nat)
  with digit_val [of v] show ?thesis by (simp only: word_unat_eq_iff)
qed

lemma dec_digits_decimal: "0 < v \<Longrightarrow> unat v < 10 ^ i \<Longrightarrow> rev (dec_digits i v) = decimal (unat v)"
proof (induction i arbitrary: v)
  case (Suc i)
  have d: "unat (v div 10) = unat v div 10" by (simp add: unat_div)
  show ?case
  proof (cases "unat v < 10")
    case True
    then have "v div 10 = 0" using d by (simp add: word_unat_eq_iff del: unat_inj_iff)
    then have "dec_digits i (v div 10) = []" by (cases i) simp_all
    with Suc.prems(1) True show ?thesis using digit_eq [of v] by (subst decimal.simps) simp
  next
    case False
    then have "0 < v div 10" using d by (simp add: word_less_nat_alt div_greater_zero_iff)
    moreover have "unat (v div 10) < 10 ^ i" using Suc.prems(2) by (simp add: d less_mult_imp_div_less)
    ultimately have "rev (dec_digits i (v div 10)) = decimal (unat v div 10)" using Suc.IH d by simp
    with Suc.prems(1) False show ?thesis using digit_eq [of v] by (subst decimal.simps) simp
  qed
qed (simp add: word_less_nat_alt)

lemma written_decimal: "n \<noteq> 0 \<Longrightarrow> rev (dec_digits 20 n) = decimal (unat n)"
  using unsigned_less [of n, where ?'a = nat] by (intro dec_digits_decimal) (simp_all add: word_greater_zero_iff)

text \<open>C24: Printing a number through the kernel's console on the emulated UART always finishes, the
  device stays ready, and what is appended to the transmit queue is the decimal numeral of the number, without leading zeros, whose
  value as a string of digits is the number.\<close>

theorem write_u64_transmits:
  assumes "tx_ready u"
  shows "\<exists>u'. write_u64 n u = Some u' \<and> tx_ready u' \<and> tx_fifo u' = tx_fifo u @ decimal (unat n) \<and>
    dec_val (decimal (unat n)) = unat n"
proof (cases "n = 0")
  case True
  then have "decimal (unat n) = [48]" by (simp add: decimal.simps)
  with True write_byte_ready [OF assms, of 48] show ?thesis by (auto simp: write_u64_def dec_val_def)
next
  case False
  with write_bytes_ready [OF assms, of "rev (dec_digits 20 n)"] dec_val_digits [of n] show ?thesis
    by (auto simp: write_u64_def written_decimal)
qed

theorem write_u64_transmits_witness:
  "tx_ready (console_init uart_new) \<and>
   (\<exists>u'. write_u64 1024 (console_init uart_new) = Some u' \<and> tx_fifo u' = [49, 48, 50, 52])"
proof
  show "tx_ready (console_init uart_new)" by (rule console_init_ready)
  have "decimal 1024 = [49, 48, 50, 52]" by (simp add: decimal.simps)
  with write_u64_transmits [OF console_init_ready, of 1024 uart_new]
  show "\<exists>u'. write_u64 1024 (console_init uart_new) = Some u' \<and> tx_fifo u' = [49, 48, 50, 52]"
    by (auto simp: console_init_def write_reg8_def uart_store_def Let_def uart_new_def)
qed

end
