(* ===== verification/Kn_Fs.thy ===== *)
theory Kn_Fs
  imports Kn_Disk Kn_Uart
begin

text \<open>
  The kernel's file system (\<^verbatim>\<open>kernel/src/fs.rs\<close>, \<open>FileSystem\<close>): a superblock, a block bitmap of which the first sector is
  kept in memory, a directory of 64 sectors with sixteen 32-byte entries each, and files as chains
  of sectors whose first four bytes point to the next one.  Names and contents are byte lists.

  The methods that take \<open>&self\<close> read the device directly; those that write go through the buffer
  cache.  The loops over the directory are recursions over the list of its sectors; the loop that
  reads a file ends because every round adds a byte, the one that writes it because every round
  consumes one.
\<close>

unbundle bit_operations_syntax

subsection \<open>Layout\<close>

abbreviation (input) MAGIC :: u32 where "MAGIC \<equiv> 0x53465331"
definition SEC_SUPER :: u64 where "SEC_SUPER = 0"
definition SEC_MAP_START :: u64 where "SEC_MAP_START = 1"
definition SEC_DIR_START :: u64 where "SEC_DIR_START = 65"
definition SEC_DIR_COUNT :: nat where "SEC_DIR_COUNT = 64"

record dir_entry =
  de_name :: "u8 list"
  de_size :: u32
  de_head :: u32

record file_info =
  fi_name :: str
  fi_size :: u32
  fi_is_dir :: bool

record file_system =
  bitmap_cache :: "u8 list"
  bitmap_dirty :: bool
  fs_cache :: buffer_cache

type_synonym 'd fsd = "file_system \<times> 'd"

text \<open>The packed struct at index \<open>j\<close> of a directory sector.\<close>

definition entry_at :: "u8 list \<Rightarrow> nat \<Rightarrow> dir_entry" where
  "entry_at buf j =
     \<lparr> de_name = bytes_at (32 * j) 24 buf, de_size = of_le32 (bytes_at (32 * j + 24) 4 buf),
       de_head = of_le32 (bytes_at (32 * j + 28) 4 buf) \<rparr>"

definition entry_bytes :: "dir_entry \<Rightarrow> u8 list" where
  "entry_bytes e = de_name e @ le32 (de_size e) @ le32 (de_head e)"

definition decode_name :: "str \<Rightarrow> u8 list \<Rightarrow> str" where
  "decode_name dflt name =
     (let name_len = unwrap_or (position (\<lambda>c. c = 0) name) 24 in from_utf8_or dflt (take name_len name))"

definition dir_sectors :: "u64 list" where
  "dir_sectors = map (\<lambda>i. SEC_DIR_START + word_of_nat i) [0..<SEC_DIR_COUNT]"

definition on_cache ::
  "('d cached \<Rightarrow> ('a, error) result \<times> 'd cached) \<Rightarrow> 'd fsd \<Rightarrow> ('a, error) result \<times> 'd fsd" where
  "on_cache f s =
     (case f (fs_cache (fst s), snd s) of (r, c, d) \<Rightarrow> (r, (fst s)\<lparr> fs_cache := c \<rparr>, d))"

text \<open>\<open>.ok()?\<close> in a function that returns an \<open>Option\<close>, and \<open>.ok_or(msg)\<close>.\<close>

definition ok_opt :: "('a, error) result \<times> 's \<Rightarrow> 'a opt \<times> 's" where
  "ok_opt m = (map_err (\<lambda>_. ()) (fst m), snd m)"

definition ok_or :: "error \<Rightarrow> 'a opt \<times> 's \<Rightarrow> ('a, error) result \<times> 's" where
  "ok_or msg m = (map_err (\<lambda>_. msg) (fst m), snd m)"

subsection \<open>Mounting and statistics\<close>

definition fs_init :: "'d blk_ops \<Rightarrow> 'd \<Rightarrow> file_system opt \<times> 'd" where
  "fs_init dev d =
     bindS (ok_opt (read_sector dev SEC_SUPER zero_sector d)) (\<lambda>buf d.
       if of_le32 (bytes_at 0 4 buf) \<noteq> MAGIC then (Err (), d)
       else bindS (ok_opt (read_sector dev SEC_MAP_START buf d)) (\<lambda>buf d.
         (Ok \<lparr> bitmap_cache = buf, bitmap_dirty = False, fs_cache = buffer_cache_new \<rparr>, d)))"

definition fs_sync :: "'d blk_ops \<Rightarrow> 'd fsd \<Rightarrow> (u64, error) result \<times> 'd fsd" where
  "fs_sync dev s =
     bindS (if bitmap_dirty (fst s) then
              (case write_sector dev SEC_MAP_START (bitmap_cache (fst s)) (snd s) of
                 (Ok _, d) \<Rightarrow> (Ok (), (fst s)\<lparr> bitmap_dirty := False \<rparr>, d)
               | (Err e, d) \<Rightarrow> (Err e, fst s, d)
               | (Panic, d) \<Rightarrow> (Panic, fst s, d))
            else (Ok (), s)) (\<lambda>_ s.
       on_cache (cache_sync dev) s)"

definition dirty_blocks :: "file_system \<Rightarrow> u64" where
  "dirty_blocks f = dirty_count (fs_cache f) + (if bitmap_dirty f then 1 else 0)"

definition disk_stats :: "file_system \<Rightarrow> u64 \<times> u64" where
  "disk_stats f =
     (foldl (\<lambda>used byte. used + word_of_nat (count_ones byte)) 0 (bitmap_cache f),
      word_of_nat (length (bitmap_cache f) * 8))"

definition disk_usage_bytes :: "file_system \<Rightarrow> u64 \<times> u64" where
  "disk_usage_bytes f = (case disk_stats f of (used, all) \<Rightarrow> (used * 512, all * 512))"

subsection \<open>Directory\<close>

definition find_in_sector :: "str \<Rightarrow> u8 list \<Rightarrow> nat option" where
  "find_in_sector name buf =
     List.find (\<lambda>j. buf ! (32 * j) \<noteq> 0 \<and> decode_name [] (de_name (entry_at buf j)) = name) [0..<16]"

fun find_pos_loop :: "'d blk_ops \<Rightarrow> str \<Rightarrow> u64 list \<Rightarrow> u8 list \<Rightarrow> 'd \<Rightarrow> (u64 \<times> nat) opt \<times> 'd" where
  "find_pos_loop dev name [] buf d = (Err (), d)"
| "find_pos_loop dev name (sector # rest) buf d =
     bindS (ok_opt (read_sector dev sector buf d)) (\<lambda>buf d.
       case find_in_sector name buf of
         Some j \<Rightarrow> (Ok (sector, j), d)
       | None \<Rightarrow> find_pos_loop dev name rest buf d)"

definition find_entry_pos :: "'d blk_ops \<Rightarrow> str \<Rightarrow> 'd \<Rightarrow> (u64 \<times> nat) opt \<times> 'd" where
  "find_entry_pos dev name d = find_pos_loop dev name dir_sectors zero_sector d"

definition find_entry :: "'d blk_ops \<Rightarrow> str \<Rightarrow> 'd \<Rightarrow> dir_entry opt \<times> 'd" where
  "find_entry dev name d =
     bindS (find_entry_pos dev name d) (\<lambda>(sec, idx) d.
     bindS (ok_opt (read_sector dev sec zero_sector d)) (\<lambda>buf d.
       (Ok (entry_at buf idx), d)))"

fun find_free_loop :: "'d blk_ops \<Rightarrow> u64 list \<Rightarrow> u8 list \<Rightarrow> 'd \<Rightarrow> (u64 \<times> nat) opt \<times> 'd" where
  "find_free_loop dev [] buf d = (Err (), d)"
| "find_free_loop dev (sector # rest) buf d =
     bindS (ok_opt (read_sector dev sector buf d)) (\<lambda>buf d.
       case List.find (\<lambda>j. buf ! (32 * j) = 0) [0..<16] of
         Some j \<Rightarrow> (Ok (sector, j), d)
       | None \<Rightarrow> find_free_loop dev rest buf d)"

definition find_free_dir_entry :: "'d blk_ops \<Rightarrow> 'd \<Rightarrow> (u64 \<times> nat) opt \<times> 'd" where
  "find_free_dir_entry dev d = find_free_loop dev dir_sectors zero_sector d"

text \<open>The occupied slots of a sector.\<close>

definition sector_entries :: "u8 list \<Rightarrow> dir_entry list" where
  "sector_entries buf = map (entry_at buf) (filter (\<lambda>j. buf ! (32 * j) \<noteq> 0) [0..<16])"

fun list_loop ::
  "'d blk_ops \<Rightarrow> u64 list \<Rightarrow> nat \<Rightarrow> dir_entry list \<Rightarrow> 'd fsd \<Rightarrow> (dir_entry list, error) result \<times> 'd fsd" where
  "list_loop dev [] empties entries s = (Ok entries, s)"
| "list_loop dev (sector # rest) empties entries s =
     matchS (on_cache (cache_read_mut dev sector) s)
       (\<lambda>buf s.
          (let found = sector_entries buf; entries = entries @ found;
               empties = (if found = [] then empties + 1 else 0)
           in if empties \<ge> 2 then (Ok entries, s) else list_loop dev rest empties entries s))
       (\<lambda>_ s. (Ok entries, s)) id"

definition list_dir :: "'d blk_ops \<Rightarrow> str \<Rightarrow> 'd fsd \<Rightarrow> (file_info list, error) result \<times> 'd fsd" where
  "list_dir dev path s =
     bindS (list_loop dev dir_sectors 0 [] s) (\<lambda>es s.
       (Ok (map (\<lambda>e. \<lparr> fi_name = decode_name (lit ''???'') (de_name e), fi_size = de_size e,
                      fi_is_dir = False \<rparr>) es), s))"

definition ls_line :: "dir_entry \<Rightarrow> uart \<Rightarrow> uart option" where
  "ls_line e u =
     (let pad = (if de_size e < 10 then replicate 9 32 else if de_size e < 100 then replicate 8 32
                 else replicate 7 32)
      in case write_u64 (zext32 (de_size e)) u of
           None \<Rightarrow> None
         | Some u \<Rightarrow> (case console_write_bytes pad u of
             None \<Rightarrow> None
           | Some u \<Rightarrow> write_line (decode_name (lit ''???'') (de_name e)) u))"

fun ls_lines :: "dir_entry list \<Rightarrow> uart \<Rightarrow> uart option" where
  "ls_lines [] u = Some u"
| "ls_lines (e # es) u = (case ls_line e u of None \<Rightarrow> None | Some u \<Rightarrow> ls_lines es u)"

text \<open>The printed lines do not depend on what is printed before them, so the directory is read first.\<close>

definition ls :: "'d blk_ops \<Rightarrow> 'd fsd \<Rightarrow> uart \<Rightarrow> (uart option, error) result \<times> 'd fsd" where
  "ls dev s u =
     bindS (list_loop dev dir_sectors 0 [] s) (\<lambda>es s.
       (Ok (case write_line (lit ''SIZE        NAME'') u of
              None \<Rightarrow> None
            | Some u \<Rightarrow> (case write_line (lit ''----------  --------------------'') u of
                None \<Rightarrow> None
              | Some u \<Rightarrow> ls_lines es u)), s))"

subsection \<open>Reading a file\<close>

function read_loop ::
  "'d blk_ops \<Rightarrow> nat \<Rightarrow> u32 \<Rightarrow> u8 list \<Rightarrow> u8 list \<Rightarrow> 'd \<Rightarrow> (u8 list) opt \<times> 'd" where
  "read_loop dev sz next data buf d =
     (if next \<noteq> 0 \<and> length data < sz then
        (case ok_opt (read_sector dev (zext32 next) buf d) of
           (Ok buf, d) \<Rightarrow>
             (let next_ptr = of_le32 (bytes_at 0 4 buf); remaining = sz - length data;
                  chunk = min remaining 508
              in if length buf < 4 + chunk then (Panic, d)
                 else read_loop dev sz next_ptr (data @ bytes_at 4 chunk buf) buf d)
         | (Err _, d) \<Rightarrow> (Err (), d)
         | (Panic, d) \<Rightarrow> (Panic, d))
      else (Ok data, d))"
  by pat_completeness auto
termination
  by (relation "measure (\<lambda>(dev, sz, next, data, buf, d). sz - length data)") auto

definition read_file :: "'d blk_ops \<Rightarrow> str \<Rightarrow> 'd \<Rightarrow> (u8 list) opt \<times> 'd" where
  "read_file dev filename d =
     bindS (find_entry dev filename d) (\<lambda>entry d.
       read_loop dev (unat (de_size entry)) (de_head entry) [] zero_sector d)"

subsection \<open>Writing a file\<close>

definition free_bit :: "u8 \<Rightarrow> nat option" where
  "free_bit byte = List.find (\<lambda>b. byte AND shl 1 b = 0) [0..<8]"

text \<open>The first clear bit of a bitmap: index of the byte and of the bit.\<close>

fun first_free :: "u8 list \<Rightarrow> (nat \<times> nat) option" where
  "first_free [] = None"
| "first_free (byte # bs) =
     (case (if byte \<noteq> 0xFF then free_bit byte else None) of
        Some b \<Rightarrow> Some (0, b)
      | None \<Rightarrow> map_option (\<lambda>(i, b). (Suc i, b)) (first_free bs))"

definition alloc_block :: "file_system \<Rightarrow> u32 option \<times> file_system" where
  "alloc_block f =
     (case first_free (bitmap_cache f) of
        None \<Rightarrow> (None, f)
      | Some (i, b) \<Rightarrow>
          (Some (word_of_nat (i * 8 + b)),
           f\<lparr> bitmap_cache := (bitmap_cache f)[i := (bitmap_cache f ! i) OR shl 1 b], bitmap_dirty := True \<rparr>))"

definition alloc_or :: "'d fsd \<Rightarrow> (u32, error) result \<times> 'd fsd" where
  "alloc_or s =
     (case alloc_block (fst s) of
        (None, f) \<Rightarrow> (Err ''Disk full'', f, snd s)
      | (Some b, f) \<Rightarrow> (Ok b, f, snd s))"

text \<open>Assign through the reference that \<open>read_mut\<close> returned, then mark the sector dirty.\<close>

definition fs_modify :: "'d blk_ops \<Rightarrow> u64 \<Rightarrow> (u8 list \<Rightarrow> u8 list) \<Rightarrow> 'd fsd \<Rightarrow> (unit, error) result \<times> 'd fsd" where
  "fs_modify dev sector f s =
     bindS (on_cache (cache_read_mut dev sector) s) (\<lambda>buf (fs, d).
       (Ok (), fs\<lparr> fs_cache := mark_dirty sector (cache_assign sector (f buf) (fs_cache fs)) \<rparr>, d))"

definition link_block_cached :: "'d blk_ops \<Rightarrow> u32 \<Rightarrow> u32 \<Rightarrow> 'd fsd \<Rightarrow> (unit, error) result \<times> 'd fsd" where
  "link_block_cached dev prev next s = fs_modify dev (zext32 prev) (overlay 0 (le32 next)) s"

function write_loop ::
  "'d blk_ops \<Rightarrow> u8 list \<Rightarrow> u32 \<Rightarrow> u32 \<Rightarrow> 'd fsd \<Rightarrow> (u32, error) result \<times> 'd fsd" where
  "write_loop dev remaining head prev s =
     (if remaining = [] then (Ok head, s)
      else bindS (alloc_or s) (\<lambda>current s.
           bindS (if prev \<noteq> 0 then link_block_cached dev prev current s else (Ok (), s)) (\<lambda>_ s.
             let len = min (length remaining) 508;
                 buf = overlay 4 (take len remaining) zero_sector
             in bindS (on_cache (cache_write dev (zext32 current) buf) s) (\<lambda>_ s.
                  write_loop dev (drop len remaining) (if head = 0 then current else head) current s))))"
  by pat_completeness auto
termination
  by (relation "measure (\<lambda>(dev, remaining, head, prev, s). length remaining)") auto

definition name_field :: "str \<Rightarrow> u8 list" where
  "name_field filename =
     (let len = min (length filename) 24 in overlay 0 (take len filename) (replicate 24 0))"

definition on_dev_fs :: "('d \<Rightarrow> 'a opt \<times> 'd) \<Rightarrow> 'd fsd \<Rightarrow> 'a opt \<times> 'd fsd" where
  "on_dev_fs g s = (case g (snd s) of (r, d) \<Rightarrow> (r, fst s, d))"

definition write_file :: "'d blk_ops \<Rightarrow> str \<Rightarrow> u8 list \<Rightarrow> 'd fsd \<Rightarrow> (unit, error) result \<times> 'd fsd" where
  "write_file dev filename data s =
     bindS (case on_dev_fs (find_entry_pos dev filename) s of
              (Ok pos, s) \<Rightarrow> (Ok pos, s)
            | (Err _, s) \<Rightarrow> ok_or ''Root dir full'' (on_dev_fs (find_free_dir_entry dev) s)
            | (Panic, s) \<Rightarrow> (Panic, s)) (\<lambda>(sector, index) s.
     bindS (write_loop dev data 0 0 s) (\<lambda>head s.
       let entry = \<lparr> de_name = name_field filename, de_size = word_of_nat (length data), de_head = head \<rparr>
       in fs_modify dev sector (overlay (32 * index) (entry_bytes entry)) s))"

definition link_block :: "'d blk_ops \<Rightarrow> u32 \<Rightarrow> u32 \<Rightarrow> 'd \<Rightarrow> (unit, error) result \<times> 'd" where
  "link_block dev prev next d =
     bindS (read_sector dev (zext32 prev) zero_sector d) (\<lambda>buf d.
       write_sector dev (zext32 prev) (overlay 0 (le32 next) buf) d)"

declare read_loop.simps [simp del] write_loop.simps [simp del]

subsection \<open>Directories and removal\<close>

definition dir_path_of :: "str \<Rightarrow> str" where
  "dir_path_of path = (if ends_with path (lit ''/'') then path else path @ lit ''/'')"

definition mkdir :: "'d blk_ops \<Rightarrow> str \<Rightarrow> 'd fsd \<Rightarrow> (unit, error) result \<times> 'd fsd" where
  "mkdir dev path s =
     (let dir_path = dir_path_of path in
      case on_dev_fs (find_entry_pos dev dir_path) s of
        (Ok _, s) \<Rightarrow> (Err ''Directory already exists'', s)
      | (Err _, s) \<Rightarrow> write_file dev dir_path (lit ''DIR'') s
      | (Panic, s) \<Rightarrow> (Panic, s))"

definition remove :: "'d blk_ops \<Rightarrow> str \<Rightarrow> 'd fsd \<Rightarrow> (unit, error) result \<times> 'd fsd" where
  "remove dev path s =
     bindS (ok_or ''File not found'' (on_dev_fs (find_entry_pos dev path) s)) (\<lambda>(sector, index) s.
     bindS (if ends_with path (lit ''/'') then
              bindS (list_dir dev path s) (\<lambda>files s.
                if files \<noteq> [] then (Err ''Directory not empty'', s) else (Ok (), s))
            else (Ok (), s)) (\<lambda>_ s.
     bindS (fs_modify dev sector (overlay (32 * index) (replicate 32 0)) s) (\<lambda>_ s.
     bindS (on_cache (cache_sync dev) s) (\<lambda>_ s. (Ok (), s)))))"

definition fs_exists :: "'d blk_ops \<Rightarrow> str \<Rightarrow> 'd \<Rightarrow> (bool, error) result \<times> 'd" where
  "fs_exists dev path d =
     (case find_entry_pos dev path d of
        (Ok _, d) \<Rightarrow> (Ok True, d) | (Err _, d) \<Rightarrow> (Ok False, d) | (Panic, d) \<Rightarrow> (Panic, d))"

definition is_dir :: "'d blk_ops \<Rightarrow> str \<Rightarrow> 'd fsd \<Rightarrow> (bool, error) result \<times> 'd fsd" where
  "is_dir dev path s =
     (if ends_with path (lit ''/'') then
        (case fs_exists dev path (snd s) of (r, d) \<Rightarrow> (r, fst s, d))
      else
        bindS (list_dir dev (lit ''/'') s) (\<lambda>files s.
          (Ok (\<exists>f\<in>set files. starts_with (fi_name f) (path @ lit ''/'')), s)))"

end
