(* ===== verification/Kn_Fs_Spec.thy ===== *)
theory Kn_Fs_Spec
  imports Kn_Fs
begin

text \<open>
  The file system as a map from names to contents.  The abstraction \<open>file_of\<close> reads the map off the contents of
  the disk's sectors; \<open>wf_dir\<close> is the invariant: the bitmap reserves the system sectors, and every
  chain of an occupied directory slot stays in allocated data sectors.  \<open>write_file\<close> then updates the map at the
  name and leaves every other file alone, also when it fails because the disk is full.
\<close>

unbundle bit_operations_syntax

subsection \<open>The directory\<close>

fun lookup_slot :: "(u64 \<Rightarrow> u8 list) \<Rightarrow> str \<Rightarrow> u64 list \<Rightarrow> (u64 \<times> nat) option" where
  "lookup_slot g name [] = None"
| "lookup_slot g name (s # ss) =
     (case find_in_sector name (g s) of Some j \<Rightarrow> Some (s, j) | None \<Rightarrow> lookup_slot g name ss)"

fun free_slot :: "(u64 \<Rightarrow> u8 list) \<Rightarrow> u64 list \<Rightarrow> (u64 \<times> nat) option" where
  "free_slot g [] = None"
| "free_slot g (s # ss) =
     (case List.find (\<lambda>j. g s ! (32 * j) = 0) [0..<16] of Some j \<Rightarrow> Some (s, j) | None \<Rightarrow> free_slot g ss)"

abbreviation slot_used :: "(u64 \<Rightarrow> u8 list) \<Rightarrow> u64 \<times> nat \<Rightarrow> bool" where
  "slot_used g p \<equiv> g (fst p) ! (32 * snd p) \<noteq> 0"

abbreviation slot_entry :: "(u64 \<Rightarrow> u8 list) \<Rightarrow> u64 \<times> nat \<Rightarrow> dir_entry" where
  "slot_entry g p \<equiv> entry_at (g (fst p)) (snd p)"

definition slots :: "(u64 \<times> nat) set" where
  "slots = set dir_sectors \<times> {..<16}"

text \<open>A slot holds a name.\<close>

definition slot_named :: "(u64 \<Rightarrow> u8 list) \<Rightarrow> str \<Rightarrow> u64 \<times> nat \<Rightarrow> bool" where
  "slot_named g name p \<longleftrightarrow> slot_used g p \<and> decode_name [] (de_name (slot_entry g p)) = name"

lemma find_Some_iff_mem: "List.find P xs = Some x \<Longrightarrow> x \<in> set xs \<and> P x"
  by (induction xs) (auto split: if_splits)

lemma find_None_mem: "List.find P xs = None \<longleftrightarrow> (\<forall>x\<in>set xs. \<not> P x)"
  by (induction xs) auto

lemma lookup_slot_Some:
  "lookup_slot g name ss = Some p \<Longrightarrow> fst p \<in> set ss \<and> snd p < 16 \<and> slot_named g name p"
  by (induction ss) (auto simp: find_in_sector_def slot_named_def dest!: find_Some_iff_mem split: option.splits)

lemma lookup_slot_None:
  "lookup_slot g name ss = None \<longleftrightarrow> (\<forall>s\<in>set ss. \<forall>j<16. \<not> slot_named g name (s, j))"
  by (induction ss)
    (auto simp: find_in_sector_def slot_named_def find_None_mem dest!: find_Some_iff_mem split: option.splits)

lemma lookup_slots:
  "lookup_slot g name dir_sectors = Some p \<Longrightarrow> p \<in> slots \<and> slot_named g name p"
  "lookup_slot g name dir_sectors = None \<longleftrightarrow> (\<forall>q\<in>slots. \<not> slot_named g name q)"
  using lookup_slot_Some [of g name dir_sectors p]
  by (auto simp: lookup_slot_None slots_def mem_Times_iff)

text \<open>The first matching slot depends on which slots match only.\<close>

lemma lookup_slot_cong:
  "(\<And>s j. s \<in> set ss \<Longrightarrow> j < 16 \<Longrightarrow> slot_named g name (s, j) = slot_named g' name (s, j)) \<Longrightarrow>
    lookup_slot g name ss = lookup_slot g' name ss"
proof (induction ss)
  case (Cons s ss)
  then have "find_in_sector name (g s) = find_in_sector name (g' s)"
    unfolding find_in_sector_def by (intro find_cong) (auto simp: slot_named_def)
  then show ?case using Cons by (auto split: option.splits)
qed simp

lemma free_slot_Some:
  "free_slot g ss = Some p \<Longrightarrow> fst p \<in> set ss \<and> snd p < 16 \<and> \<not> slot_used g p"
  by (induction ss) (auto dest!: find_Some_iff_mem split: option.splits)

lemma free_slot_cong: "(\<And>s. s \<in> set ss \<Longrightarrow> g' s = g s) \<Longrightarrow> free_slot g' ss = free_slot g ss"
  by (induction ss) (auto split: option.splits)

lemma dir_sectors_range: "s \<in> set dir_sectors \<Longrightarrow> 65 \<le> s \<and> s < 129"
  by (auto simp: dir_sectors_def SEC_DIR_START_def SEC_DIR_COUNT_def word_le_nat_alt word_less_nat_alt
      unat_word_ariths unat_of_nat)

subsection \<open>Chains\<close>

function chain_data :: "(u64 \<Rightarrow> u8 list) \<Rightarrow> u32 \<Rightarrow> nat \<Rightarrow> u8 list" where
  "chain_data g nx n =
     (if nx \<noteq> 0 \<and> 0 < n then
        bytes_at 4 (min n 508) (g (zext32 nx)) @
        chain_data g (of_le32 (bytes_at 0 4 (g (zext32 nx)))) (n - min n 508)
      else [])"
  by pat_completeness auto
termination
  by (relation "measure (\<lambda>(g, nx, n). n)") auto

function chain_secs :: "(u64 \<Rightarrow> u8 list) \<Rightarrow> u32 \<Rightarrow> nat \<Rightarrow> u32 list" where
  "chain_secs g nx n =
     (if nx \<noteq> 0 \<and> 0 < n then nx # chain_secs g (of_le32 (bytes_at 0 4 (g (zext32 nx)))) (n - min n 508)
      else [])"
  by pat_completeness auto
termination
  by (relation "measure (\<lambda>(g, nx, n). n)") auto

declare chain_data.simps [simp del] chain_secs.simps [simp del]

lemma chain_cong:
  assumes "\<And>x. x \<in> set (chain_secs g nx n) \<Longrightarrow> g' (zext32 x) = g (zext32 x)"
  shows "chain_data g' nx n = chain_data g nx n \<and> chain_secs g' nx n = chain_secs g nx n"
  using assms
proof (induction g nx n rule: chain_data.induct)
  case (1 g nx n)
  show ?case
  proof (cases "nx \<noteq> 0 \<and> 0 < n")
    case True
    let ?nx = "of_le32 (bytes_at 0 4 (g (zext32 nx)))" and ?n = "n - min n 508"
    have secs: "chain_secs g nx n = nx # chain_secs g ?nx ?n"
      using True by (simp add: chain_secs.simps [of g nx])
    then have same: "g' (zext32 nx) = g (zext32 nx)" using "1.prems" by simp
    have "chain_data g' ?nx ?n = chain_data g ?nx ?n \<and> chain_secs g' ?nx ?n = chain_secs g ?nx ?n"
      using True secs by (intro "1.IH") (auto intro: "1.prems")
    then show ?thesis
      using True by (simp add: same chain_data.simps [of g' nx n] chain_data.simps [of g nx n]
          chain_secs.simps [of g' nx n] chain_secs.simps [of g nx n])
  next
    case False
    then show ?thesis by (auto simp: chain_data.simps [of _ nx] chain_secs.simps [of _ nx])
  qed
qed

text \<open>A sector with a link to \<open>y\<close> and a chunk of data extends the chain that starts at \<open>y\<close>.\<close>

lemma chain_cons:
  assumes "x \<noteq> 0" "0 < n" "length chunk = min n 508"
    "g (zext32 x) = overlay 0 (le32 y) (overlay 4 chunk zero_sector)"
  shows "chain_data g x n = chunk @ chain_data g y (n - length chunk)"
    "chain_secs g x n = x # chain_secs g y (n - length chunk)"
proof -
  have "bytes_at 4 (length chunk) (g (zext32 x)) = bytes_at 4 (length chunk) (overlay 4 chunk zero_sector)"
    unfolding assms(4) using assms(3) by (intro bytes_at_overlay_other) simp_all
  also have "\<dots> = chunk" using assms(3) by simp
  finally have data: "bytes_at 4 (min n 508) (g (zext32 x)) = chunk" using assms(3) by simp
  have link: "of_le32 (bytes_at 0 4 (g (zext32 x))) = y" using assms(3) by (simp add: assms(4))
  show "chain_data g x n = chunk @ chain_data g y (n - length chunk)"
    "chain_secs g x n = x # chain_secs g y (n - length chunk)"
    using assms(1,2) by (simp_all add: chain_data.simps [of g x] chain_secs.simps [of g x] data link assms(3))
qed

lemma chain_0 [simp]: "chain_data g 0 n = []" "chain_secs g 0 n = []"
  by (simp_all add: chain_data.simps [of g 0] chain_secs.simps [of g 0])

lemma unlinked_sector:
  "length chunk \<le> 508 \<Longrightarrow> overlay 0 (le32 0) (overlay 4 chunk zero_sector) = overlay 4 chunk zero_sector"
proof -
  have "replicate 4 (0 :: u8) = [0, 0, 0, 0]" by (simp add: eval_nat_numeral)
  then show ?thesis by (simp add: overlay_def)
qed

definition file_of :: "(u64 \<Rightarrow> u8 list) \<Rightarrow> str \<Rightarrow> u8 list option" where
  "file_of g name =
     map_option (\<lambda>p. chain_data g (de_head (slot_entry g p)) (unat (de_size (slot_entry g p))))
       (lookup_slot g name dir_sectors)"

subsection \<open>The bitmap\<close>

definition used :: "u8 list \<Rightarrow> nat \<Rightarrow> bool" where
  "used bm x \<longleftrightarrow> 8 * length bm \<le> x \<or> bit (bm ! (x div 8)) (x mod 8)"

lemma and_shl1: "b < 8 \<Longrightarrow> (w AND 2 ^ b = 0) \<longleftrightarrow> \<not> bit w b" for w :: u8
  by (rule and_2p_iff) simp

lemma free_bit_Some: "free_bit w = Some b \<Longrightarrow> b < 8 \<and> \<not> bit w b"
  unfolding free_bit_def by (drule find_Some_iff_mem) (auto simp: and_shl1)

lemma free_bit_None: "free_bit w = None \<Longrightarrow> b < 8 \<Longrightarrow> bit w b"
  unfolding free_bit_def find_None_mem by (auto simp: and_shl1)

lemma first_free_Some:
  "first_free bm = Some (i, b) \<Longrightarrow> i < length bm \<and> b < 8 \<and> \<not> bit (bm ! i) b"
  by (induction bm arbitrary: i) (auto dest!: free_bit_Some split: option.splits if_splits)

lemma first_free_None:
  "first_free bm = None \<Longrightarrow> x < 8 * length bm \<Longrightarrow> used bm x"
proof (induction bm arbitrary: x)
  case (Cons w bm)
  show ?case
  proof (cases "x < 8")
    case True
    have "bit w x"
    proof (cases "w = 0xFF")
      case True
      moreover have "(0xFF :: u8) = mask 8" by (simp add: mask_eq_exp_minus_1)
      ultimately have "bit w x = bit (mask 8 :: u8) x" by simp
      then show ?thesis using \<open>x < 8\<close> by (simp only: bit_mask_iff) simp
    next
      case False
      then show ?thesis using Cons.prems(1) \<open>x < 8\<close> by (auto intro: free_bit_None split: option.splits)
    qed
    with True show ?thesis by (simp add: used_def)
  next
    case False
    then have "used bm (x - 8)"
      using Cons by (auto split: option.splits if_splits)
    moreover have "(x - 8) div 8 = x div 8 - 1" "(x - 8) mod 8 = x mod 8" "0 < x div 8"
      using False by (auto simp: le_div_geq le_mod_geq)
    ultimately show ?thesis using Cons.prems(2) by (auto simp: used_def)
  qed
qed simp

lemma bit_2_pow: "b < 8 \<Longrightarrow> bit (2 ^ b :: u8) k \<longleftrightarrow> k = b"
  by (auto simp: bit_exp_iff)

lemma used_set:
  assumes "i < length bm" "b < 8"
  shows "used (bm[i := (bm ! i) OR shl 1 b]) x \<longleftrightarrow> used bm x \<or> x = i * 8 + b"
proof (cases "x < 8 * length bm \<and> x div 8 = i")
  case True
  then have "x = i * 8 + x mod 8" by presburger
  then have "x = i * 8 + b \<longleftrightarrow> x mod 8 = b" by auto
  then show ?thesis
    using True assms by (auto simp: used_def bit_or_iff bit_2_pow)
next
  case False
  then show ?thesis using assms by (auto simp: used_def)
qed

lemma alloc_block_Some:
  assumes "alloc_block f = (Some x, f')" "length (bitmap_cache f) = 512"
  shows "unat x < 4096" "\<not> used (bitmap_cache f) (unat x)"
    "used (bitmap_cache f') y \<longleftrightarrow> used (bitmap_cache f) y \<or> y = unat x"
    "length (bitmap_cache f') = 512" "fs_cache f' = fs_cache f"
proof -
  from assms(1) obtain i b where ib: "first_free (bitmap_cache f) = Some (i, b)"
    "x = word_of_nat (i * 8 + b)"
    "f' = f\<lparr> bitmap_cache := (bitmap_cache f)[i := (bitmap_cache f ! i) OR shl 1 b], bitmap_dirty := True \<rparr>"
    by (auto simp: alloc_block_def split: option.splits)
  from first_free_Some [OF ib(1)] have lt: "i < 512" "b < 8" "\<not> bit (bitmap_cache f ! i) b"
    using assms(2) by auto
  then have x: "unat x = i * 8 + b"
    unfolding ib(2) unat_of_nat by (intro mod_less) simp
  with lt show "unat x < 4096" by linarith
  show "\<not> used (bitmap_cache f) (unat x)" using lt assms(2) by (simp add: x used_def)
  show "used (bitmap_cache f') y \<longleftrightarrow> used (bitmap_cache f) y \<or> y = unat x"
    using used_set [of i "bitmap_cache f" b y] lt assms(2) by (simp add: ib(3) x)
qed (use assms in \<open>auto simp: alloc_block_def split: option.splits\<close>)

text \<open>The blocks that can still be allocated.\<close>

definition free_blocks :: "u8 list \<Rightarrow> nat set" where
  "free_blocks bm = {x. x < 8 * length bm \<and> \<not> used bm x}"

definition blocks_needed :: "nat \<Rightarrow> nat" where
  "blocks_needed n = (n + 507) div 508"

lemma alloc_block_None: "alloc_block f = (None, f') \<Longrightarrow> free_blocks (bitmap_cache f) = {} \<and> f' = f"
  using first_free_None [of "bitmap_cache f"]
  by (auto simp: alloc_block_def free_blocks_def split: option.splits)

lemma card_free_alloc:
  assumes "alloc_block f = (Some x, f')" "length (bitmap_cache f) = 512"
  shows "card (free_blocks (bitmap_cache f)) = Suc (card (free_blocks (bitmap_cache f')))"
proof -
  note a = alloc_block_Some [OF assms]
  have "free_blocks (bitmap_cache f') = free_blocks (bitmap_cache f) - {unat x}"
    using assms(2) a(3,4) by (auto simp: free_blocks_def)
  moreover have "unat x \<in> free_blocks (bitmap_cache f)" using assms(2) a(1,2) by (simp add: free_blocks_def)
  moreover have "finite (free_blocks (bitmap_cache f))" by (simp add: free_blocks_def)
  ultimately show ?thesis by (metis card_Suc_Diff1)
qed

lemma blocks_needed_step: "508 < n \<Longrightarrow> blocks_needed n = Suc (blocks_needed (n - 508))"
  by (simp add: blocks_needed_def div_eq_dividend_iff le_div_geq)

subsection \<open>Writing a directory entry\<close>

text \<open>A name the directory can hold.\<close>

definition name_ok :: "str \<Rightarrow> bool" where
  "name_ok name \<longleftrightarrow> name \<noteq> [] \<and> length name \<le> 24 \<and> 0 \<notin> set name \<and> utf8 name"

lemma name_field_eq: "length name \<le> 24 \<Longrightarrow> name_field name = name @ replicate (24 - length name) 0"
  by (simp add: name_field_def overlay_def min_def)

lemma decode_name_field:
  assumes "name_ok name"
  shows "decode_name [] (name_field name) = name"
proof -
  have len: "length name \<le> 24" using assms by (simp add: name_ok_def)
  have z: "\<forall>c\<in>set name. c \<noteq> 0" using assms by (auto simp: name_ok_def)
  have "unwrap_or (position (\<lambda>c. c = 0) (name_field name)) 24 = length name"
  proof (cases "length name = 24")
    case True
    then have "position (\<lambda>c. c = 0) (name_field name) = None"
      using z by (simp add: name_field_eq position_None)
    with True show ?thesis by simp
  next
    case False
    then obtain m where "24 - length name = Suc m" using len by (cases "24 - length name") auto
    then have "name_field name = name @ 0 # replicate m 0" using len by (simp add: name_field_eq)
    then show ?thesis using z by (simp add: position_append_hit)
  qed
  then show ?thesis
    using assms len by (simp add: decode_name_def name_field_eq from_utf8_or_def name_ok_def)
qed

lemma length_name_field [simp]: "length (name_field name) = 24"
  by (simp add: name_field_def)

lemma name_field_0: "name_ok name \<Longrightarrow> name_field name ! 0 \<noteq> 0"
  by (cases name) (auto simp: name_field_eq name_ok_def)

lemma length_entry_bytes [simp]: "length (entry_bytes e) = length (de_name e) + 8"
  by (simp add: entry_bytes_def)

lemma entry_at_overlay_same:
  assumes "length buf = 512" "j < 16" "length (de_name e) = 24"
  shows "entry_at (overlay (32 * j) (entry_bytes e) buf) j = e"
proof -
  let ?b = "overlay (32 * j) (entry_bytes e) buf"
  have "bytes_at (32 * j) 32 ?b = entry_bytes e" using assms by (intro bytes_at_overlay_same) simp_all
  moreover have "bytes_at (32 * j + k) m ?b = bytes_at k m (bytes_at (32 * j) 32 ?b)" if "k + m \<le> 32" for k m
    using that by (rule bytes_at_bytes_at [symmetric])
  ultimately have part: "bytes_at (32 * j + k) m ?b = bytes_at k m (entry_bytes e)" if "k + m \<le> 32" for k m
    using that by simp
  show ?thesis
    using part [of 0 24] part [of 24 4] part [of 28 4] assms(3)
    by (simp add: entry_at_def entry_bytes_def bytes_at_append_left bytes_at_append_right) (simp add: bytes_at_def)
qed

lemma entry_at_overlay_other:
  assumes "length buf = 512" "j < 16" "k < 16" "k \<noteq> j" "length xs = 32"
  shows "entry_at (overlay (32 * j) xs buf) k = entry_at buf k"
    "overlay (32 * j) xs buf ! (32 * k) = buf ! (32 * k)"
proof -
  have disj: "32 * k + 32 \<le> 32 * j \<or> 32 * j + 32 \<le> 32 * k" using assms(4) by linarith
  show "entry_at (overlay (32 * j) xs buf) k = entry_at buf k"
    unfolding entry_at_def using assms disj by (auto simp: bytes_at_overlay_other)
  show "overlay (32 * j) xs buf ! (32 * k) = buf ! (32 * k)"
    using assms disj by (auto simp: nth_overlay)
qed

lemma overlay_first:
  "length buf = 512 \<Longrightarrow> j < 16 \<Longrightarrow> length xs = 32 \<Longrightarrow> overlay (32 * j) xs buf ! (32 * j) = xs ! 0"
  by (simp add: nth_overlay)

lemma slot_overlay:
  assumes len: "length (g (fst p)) = 512" and p: "snd p < 16" "snd q < 16" and xs: "length xs = 32"
    and g': "g' = g(fst p := overlay (32 * snd p) xs (g (fst p)))"
  shows "q \<noteq> p \<Longrightarrow> slot_entry g' q = slot_entry g q"
    "slot_used g' q = (if q = p then xs ! 0 \<noteq> 0 else slot_used g q)"
proof -
  show "slot_entry g' q = slot_entry g q" if "q \<noteq> p"
    using assms that by (cases "fst q = fst p") (auto simp: entry_at_overlay_other prod_eq_iff)
  show "slot_used g' q = (if q = p then xs ! 0 \<noteq> 0 else slot_used g q)"
    using assms by (cases "fst q = fst p") (auto simp: overlay_first entry_at_overlay_other prod_eq_iff)
qed

lemma slot_after_write:
  assumes len: "length (g (fst p)) = 512" and p: "snd p < 16" "snd q < 16" and e: "length (de_name e) = 24"
    and g': "g' = g(fst p := overlay (32 * snd p) (entry_bytes e) (g (fst p)))"
  shows "slot_entry g' q = (if q = p then e else slot_entry g q)"
    "slot_used g' q = (if q = p then de_name e ! 0 \<noteq> 0 else slot_used g q)"
proof -
  have "entry_bytes e ! 0 = de_name e ! 0" using e by (simp add: entry_bytes_def nth_append)
  then show "slot_used g' q = (if q = p then de_name e ! 0 \<noteq> 0 else slot_used g q)"
    using slot_overlay(2) [OF len p _ g'] e by simp
  show "slot_entry g' q = (if q = p then e else slot_entry g q)"
    using slot_overlay(1) [OF len p _ g'] assms by (auto simp: entry_at_overlay_same)
qed

subsection \<open>The invariant\<close>

text \<open>Sectors a chain may use: data sectors of the device that the bitmap marks as allocated.\<close>

definition chain_ok :: "u64 \<Rightarrow> u8 list \<Rightarrow> u32 list \<Rightarrow> bool" where
  "chain_ok cap bm xs \<longleftrightarrow> (\<forall>x\<in>set xs. 129 \<le> unat x \<and> used bm (unat x) \<and> zext32 x < cap)"

abbreviation slot_chain :: "(u64 \<Rightarrow> u8 list) \<Rightarrow> u64 \<times> nat \<Rightarrow> u32 list" where
  "slot_chain g p \<equiv> chain_secs g (de_head (slot_entry g p)) (unat (de_size (slot_entry g p)))"

definition wf_dir :: "u64 \<Rightarrow> (u64 \<Rightarrow> u8 list) \<Rightarrow> u8 list \<Rightarrow> bool" where
  "wf_dir cap g bm \<longleftrightarrow>
     (\<forall>s<cap. length (g s) = 512) \<and> (\<forall>x<129. used bm x) \<and>
     (\<forall>p\<in>slots. slot_used g p \<longrightarrow> chain_ok cap bm (slot_chain g p)) \<and>
     (\<forall>p\<in>slots. \<forall>q\<in>slots. \<forall>name. slot_named g name p \<and> slot_named g name q \<longrightarrow> p = q)"

text \<open>What is stored in allocated sectors, from the directory on, determines the files.\<close>

definition same_used :: "u8 list \<Rightarrow> (u64 \<Rightarrow> u8 list) \<Rightarrow> (u64 \<Rightarrow> u8 list) \<Rightarrow> bool" where
  "same_used bm g g' \<longleftrightarrow> (\<forall>s. used bm (unat s) \<and> 65 \<le> unat s \<longrightarrow> g' s = g s)"

declare unat_zext32 [simp]

lemma dir_sector_used:
  assumes "wf_dir cap g bm" "s \<in> set dir_sectors"
  shows "used bm (unat s)"
  using assms dir_sectors_range [of s] by (simp add: wf_dir_def word_less_nat_alt)

lemma chain_ok_same:
  assumes "same_used bm g g'" "chain_ok cap bm (chain_secs g h n)"
  shows "chain_data g' h n = chain_data g h n" "chain_secs g' h n = chain_secs g h n"
proof -
  have "chain_data g' h n = chain_data g h n \<and> chain_secs g' h n = chain_secs g h n"
    by (rule chain_cong) (use assms in \<open>force simp: same_used_def chain_ok_def\<close>)
  then show "chain_data g' h n = chain_data g h n" "chain_secs g' h n = chain_secs g h n" by simp_all
qed

lemma files_frame:
  assumes wf: "wf_dir cap g bm" and same: "same_used bm g g'"
  shows "file_of g' = file_of g"
    "p \<in> slots \<Longrightarrow> slot_entry g' p = slot_entry g p \<and> slot_used g' p = slot_used g p"
    "p \<in> slots \<Longrightarrow> slot_used g p \<Longrightarrow> slot_chain g' p = slot_chain g p"
    "lookup_slot g' name dir_sectors = lookup_slot g name dir_sectors"
    "free_slot g' dir_sectors = free_slot g dir_sectors"
proof -
  have dir: "g' s = g s" if "s \<in> set dir_sectors" for s
    using same dir_sector_used [OF wf that] dir_sectors_range [OF that]
    by (simp add: same_used_def word_le_nat_alt)
  show slot: "slot_entry g' p = slot_entry g p \<and> slot_used g' p = slot_used g p" if "p \<in> slots" for p
    using that dir by (auto simp: slots_def)
  show look: "lookup_slot g' name dir_sectors = lookup_slot g name dir_sectors" for name
    by (rule lookup_slot_cong) (simp add: slot_named_def dir)
  show "free_slot g' dir_sectors = free_slot g dir_sectors" by (rule free_slot_cong) (rule dir)
  have ok: "chain_ok cap bm (slot_chain g p)" if "p \<in> slots" "slot_used g p" for p
    using wf that by (simp add: wf_dir_def)
  show "slot_chain g' p = slot_chain g p" if "p \<in> slots" "slot_used g p" for p
    using slot [OF that(1)] chain_ok_same(2) [OF same ok [OF that]] by simp
  have "chain_data g' (de_head (slot_entry g' p)) (unat (de_size (slot_entry g' p))) =
      chain_data g (de_head (slot_entry g p)) (unat (de_size (slot_entry g p)))"
    if "lookup_slot g name dir_sectors = Some p" for name p
  proof -
    have "p \<in> slots" "slot_used g p"
      using lookup_slot_Some [OF that] by (auto simp: slots_def slot_named_def mem_Times_iff)
    then show ?thesis using slot [of p] chain_ok_same(1) [OF same ok [of p]] by simp
  qed
  then show "file_of g' = file_of g"
    by (auto simp: file_of_def fun_eq_iff look intro!: option.map_cong)
qed

lemma wf_dir_frame:
  assumes "wf_dir cap g bm" "same_used bm g g'" "\<And>s. s < cap \<Longrightarrow> length (g' s) = 512"
    "\<And>x. used bm x \<Longrightarrow> used bm' x"
  shows "wf_dir cap g' bm'"
proof -
  have "slot_named g' name p = slot_named g name p" if "p \<in> slots" for name p
    using files_frame(2) [OF assms(1,2) that] by (simp add: slot_named_def)
  then show ?thesis
    using assms files_frame(2,3) [OF assms(1,2)] by (auto simp: wf_dir_def chain_ok_def)
qed

text \<open>Naming one slot: lookups of the name find it, the others find what they found.\<close>

lemma lookup_after_write:
  assumes named: "\<And>nm q. q \<in> slots \<Longrightarrow> slot_named g' nm q = (if q = p then nm = name else slot_named g nm q)"
    and pos: "lookup_slot g name dir_sectors = Some p \<or>
      lookup_slot g name dir_sectors = None \<and> p \<in> slots \<and> \<not> slot_used g p"
    and p: "p \<in> slots"
  shows "lookup_slot g' nm dir_sectors = (if nm = name then Some p else lookup_slot g nm dir_sectors)"
proof (cases "nm = name")
  case False
  have "lookup_slot g' nm dir_sectors = lookup_slot g nm dir_sectors"
  proof (rule lookup_slot_cong)
    fix s j assume "s \<in> set dir_sectors" "j < (16::nat)"
    moreover have "\<not> slot_named g nm p"
      using pos False lookup_slot_Some [of g name dir_sectors p] by (auto simp: slot_named_def)
    ultimately show "slot_named g' nm (s, j) = slot_named g nm (s, j)"
      using named [of "(s, j)" nm] False by (auto simp: slots_def)
  qed
  with False show ?thesis by simp
next
  case True
  have "lookup_slot g' name dir_sectors = Some p"
  proof (cases "lookup_slot g name dir_sectors")
    case None
    then have none: "\<not> slot_named g name q" if "q \<in> slots" for q
      using that by (auto simp: lookup_slot_None slots_def)
    have "lookup_slot g' name dir_sectors \<noteq> None"
      using named [OF p, of name] p unfolding lookup_slot_None slots_def mem_Times_iff
      by (metis lessThan_iff prod.collapse)
    then obtain q where q: "lookup_slot g' name dir_sectors = Some q" by blast
    then have "q \<in> slots" "slot_named g' name q"
      using lookup_slot_Some [OF q] by (auto simp: slots_def mem_Times_iff)
    then show ?thesis using q named [of q name] none by (auto split: if_splits)
  next
    case (Some q)
    then have "q = p" "slot_named g name p" using pos lookup_slot_Some [OF Some] by auto
    moreover have "lookup_slot g' name dir_sectors = lookup_slot g name dir_sectors"
      by (rule lookup_slot_cong) (use named calculation in \<open>auto simp: slots_def\<close>)
    ultimately show ?thesis using Some by simp
  qed
  with True show ?thesis by simp
qed

text \<open>A change of a system sector keeps the chains, and a file whose slot it does not concern.\<close>

lemma dir_write_keeps:
  assumes "g' = g(s := b)" "unat s < 129" "chain_ok cap bm (chain_secs g k n)"
  shows "chain_data g' k n = chain_data g k n \<and> chain_secs g' k n = chain_secs g k n"
proof (rule chain_cong)
  fix x assume "x \<in> set (chain_secs g k n)"
  then have "unat (zext32 x) \<noteq> unat s" using assms(2,3) by (auto simp: chain_ok_def)
  then show "g' (zext32 x) = g (zext32 x)" by (auto simp: assms(1) simp del: unat_zext32)
qed

lemma file_of_other:
  assumes "wf_dir cap g bm" "g' = g(s := b)" "unat s < 129"
    "lookup_slot g' name dir_sectors = lookup_slot g name dir_sectors"
    "\<And>q. lookup_slot g name dir_sectors = Some q \<Longrightarrow> slot_entry g' q = slot_entry g q"
  shows "file_of g' name = file_of g name"
proof (cases "lookup_slot g name dir_sectors")
  case (Some q)
  then have "chain_ok cap bm (slot_chain g q)"
    using assms(1) lookup_slots(1) [OF Some] by (auto simp: wf_dir_def slot_named_def)
  then show ?thesis
    using Some assms(4,5) dir_write_keeps [OF assms(2,3)] by (simp add: file_of_def)
qed (simp add: file_of_def assms(4))

text \<open>Entering a stored chain under a name: at the slot that holds the name, or at a free slot if none does.\<close>

lemma write_entry:
  assumes wf: "wf_dir cap g bm" and cap: "129 \<le> cap" and name: "name_ok name"
    and pos: "lookup_slot g name dir_sectors = Some p \<or>
      lookup_slot g name dir_sectors = None \<and> p \<in> slots \<and> \<not> slot_used g p"
    and len: "length data < 2 ^ 32" and data: "chain_data g h (length data) = data"
    and chain: "chain_ok cap bm (chain_secs g h (length data))"
    and e: "e = \<lparr> de_name = name_field name, de_size = word_of_nat (length data), de_head = h \<rparr>"
    and g': "g' = g(fst p := overlay (32 * snd p) (entry_bytes e) (g (fst p)))"
  shows "file_of g' = (file_of g)(name \<mapsto> data)" "wf_dir cap g' bm"
proof -
  have p: "fst p \<in> set dir_sectors" "snd p < 16"
    using pos lookup_slot_Some [of g name dir_sectors p] by (auto simp: slots_def)
  then have fp: "fst p < cap" "unat (fst p) < 129" and plen: "length (g (fst p)) = 512"
    using dir_sectors_range [of "fst p"] cap wf by (auto simp: wf_dir_def word_less_nat_alt word_le_nat_alt)
  have size: "unat (de_size e) = length data"
    using len by (simp add: e unat_of_nat)
  note after = slot_after_write [OF plen p(2) _ _ g', of _]
  have ent: "slot_entry g' q = (if q = p then e else slot_entry g q)"
    "slot_used g' q = (if q = p then True else slot_used g q)" if "q \<in> slots" for q
    using after [of q] that name_field_0 [OF name] by (auto simp: e slots_def mem_Times_iff)
  have named: "slot_named g' nm q = (if q = p then nm = name else slot_named g nm q)" if "q \<in> slots" for nm q
    using ent [OF that] decode_name_field [OF name] by (auto simp: slot_named_def e)
  note keep = dir_write_keeps [OF g' fp(2)]
  show "wf_dir cap g' bm"
    unfolding wf_dir_def
  proof (intro conjI)
    show "\<forall>q\<in>slots. slot_used g' q \<longrightarrow> chain_ok cap bm (slot_chain g' q)"
    proof (intro ballI impI)
      fix q assume q: "q \<in> slots" "slot_used g' q"
      show "chain_ok cap bm (slot_chain g' q)"
      proof (cases "q = p")
        case True
        then show ?thesis using q ent [OF q(1)] chain keep [OF chain] by (simp add: size) (simp add: e)
      next
        case False
        then show ?thesis using q ent [OF q(1)] wf keep by (auto simp: wf_dir_def)
      qed
    qed
  next
    have "slot_named g name q \<longrightarrow> q = p" if "q \<in> slots" for q
      using pos that wf lookup_slots [of g name] unfolding wf_dir_def by metis
    then show "\<forall>p\<in>slots. \<forall>q\<in>slots. \<forall>name. slot_named g' name p \<and> slot_named g' name q \<longrightarrow> p = q"
      using named wf unfolding wf_dir_def by metis
  qed (use wf plen p(2) in \<open>auto simp: wf_dir_def g' e\<close>)
  have look: "lookup_slot g' nm dir_sectors = (if nm = name then Some p else lookup_slot g nm dir_sectors)" for nm
    using named pos p by (intro lookup_after_write) (auto simp: slots_def mem_Times_iff)
  show "file_of g' = (file_of g)(name \<mapsto> data)"
  proof
    fix nm
    show "file_of g' nm = ((file_of g)(name \<mapsto> data)) nm"
    proof (cases "nm = name")
      case True
      have "p \<in> slots" using p by (simp add: slots_def mem_Times_iff)
      then show ?thesis
        using True look ent [of p] keep [OF chain] data by (simp add: file_of_def size) (simp add: e)
    next
      case False
      then show ?thesis
        using look [of nm] ent(1) named lookup_slots(1) [of g' nm] lookup_slots(1) [of g nm]
        by (simp, intro file_of_other [OF wf g' fp(2)]) auto
    qed
  qed
qed

text \<open>Clearing the slot of a name.\<close>

lemma clear_entry:
  assumes wf: "wf_dir cap g bm" and p: "lookup_slot g name dir_sectors = Some p"
    and len: "length (g (fst p)) = 512" and cap: "129 \<le> cap"
    and g': "g' = g(fst p := overlay (32 * snd p) (replicate 32 0) (g (fst p)))"
  shows "file_of g' = (file_of g)(name := None)" "wf_dir cap g' bm"
proof -
  have sp: "fst p \<in> set dir_sectors" "snd p < 16" "p \<in> slots" "slot_named g name p"
    using lookup_slot_Some [OF p] lookup_slots(1) [OF p] by auto
  have unat: "unat (fst p) < 129" using dir_sectors_range [OF sp(1)] by (simp add: word_less_nat_alt)
  have ent: "q \<noteq> p \<Longrightarrow> slot_entry g' q = slot_entry g q" "slot_used g' q = (q \<noteq> p \<and> slot_used g q)"
    if "q \<in> slots" for q
    using slot_overlay [OF len sp(2) _ _ g', of q] that by (auto simp: slots_def mem_Times_iff)
  have named: "slot_named g' nm q = (q \<noteq> p \<and> slot_named g nm q)" if "q \<in> slots" for nm q
    using ent [OF that] by (auto simp: slot_named_def)
  note keep = dir_write_keeps [OF g' unat]
  show "wf_dir cap g' bm"
    unfolding wf_dir_def
  proof (intro conjI)
    show "\<forall>q\<in>slots. slot_used g' q \<longrightarrow> chain_ok cap bm (slot_chain g' q)"
    proof (intro ballI impI)
      fix q assume q: "q \<in> slots" "slot_used g' q"
      then have "chain_ok cap bm (slot_chain g q)" using wf ent(2) [OF q(1)] by (auto simp: wf_dir_def)
      then show "chain_ok cap bm (slot_chain g' q)" using ent [OF q(1)] q(2) keep by simp
    qed
    show "\<forall>p\<in>slots. \<forall>q\<in>slots. \<forall>name. slot_named g' name p \<and> slot_named g' name q \<longrightarrow> p = q"
      using named wf unfolding wf_dir_def by metis
  qed (use wf len sp(2) in \<open>auto simp: wf_dir_def g'\<close>)
  have none: "lookup_slot g' name dir_sectors = None"
    using named wf sp(3,4) unfolding lookup_slots(2) wf_dir_def by metis
  have other: "lookup_slot g' nm dir_sectors = lookup_slot g nm dir_sectors" if "nm \<noteq> name" for nm
  proof (rule lookup_slot_cong)
    fix s j assume "s \<in> set dir_sectors" "j < (16::nat)"
    then have "(s, j) \<in> slots" by (simp add: slots_def)
    moreover have "\<not> slot_named g nm p" using sp(4) that by (simp add: slot_named_def)
    ultimately show "slot_named g' nm (s, j) = slot_named g nm (s, j)" using named by auto
  qed
  show "file_of g' = (file_of g)(name := None)"
  proof
    fix nm
    show "file_of g' nm = ((file_of g)(name := None)) nm"
    proof (cases "nm = name")
      case True
      then show ?thesis using none by (simp add: file_of_def)
    next
      case False
      have "q \<noteq> p" if "lookup_slot g nm dir_sectors = Some q" for q
        using lookup_slots(1) [OF that] sp(4) False by (auto simp: slot_named_def)
      then have "file_of g' nm = file_of g nm"
        using ent(1) lookup_slots(1) [of g nm] other [OF False]
        by (intro file_of_other [OF wf g' unat]) auto
      with False show ?thesis by simp
    qed
  qed
qed

subsection \<open>The mounted disk\<close>

text \<open>The kernel keeps one sector of the bitmap.\<close>

definition wf_fs :: "u64 \<Rightarrow> (u64 \<Rightarrow> u8 list) \<Rightarrow> u8 list \<Rightarrow> bool" where
  "wf_fs cap g bm \<longleftrightarrow> length bm = 512 \<and> wf_dir cap g bm"

lemma wf_fs_dir: "wf_fs cap g bm \<Longrightarrow> wf_dir cap g bm"
  by (simp add: wf_fs_def)

lemma wf_fs_frame:
  assumes "wf_fs cap g bm" "same_used bm g g'" "\<And>s. s < cap \<Longrightarrow> length (g' s) = 512"
    "length bm' = 512" "\<And>x. used bm x \<Longrightarrow> used bm' x"
  shows "wf_fs cap g' bm'"
  using assms wf_dir_frame [of cap g bm g' bm'] by (simp add: wf_fs_def)

end
