(* ===== verification/Kn_Fs_Refine.thy ===== *)
theory Kn_Fs_Refine
  imports Kn_Fs_Spec
begin

text \<open>
  The operations of the file system refine the map of files.  The locale \<open>fs_dev\<close> is the interface to a block device of at
  least 4096 sectors; in it, \<open>read_file\<close> returns the file of the map, \<open>write_file\<close> updates the map at one name or,
  when it fails, not at all, \<open>sync\<close> makes the device hold what the cache shows, and mounting recovers the map.
\<close>

unbundle bit_operations_syntax

subsection \<open>Operations on a device\<close>

definition fs_view :: "('d \<Rightarrow> u64 \<Rightarrow> u8 list) \<Rightarrow> 'd fsd \<Rightarrow> u64 \<Rightarrow> u8 list" where
  "fs_view sec s = view sec (fs_cache (fst s), snd s)"

text \<open>The sectors the file system accesses through its cache; the superblock and the bitmap are not
  among them.\<close>

definition fs_sectors :: "u64 \<Rightarrow> u64 set" where
  "fs_sectors cap = {65..<cap}"

definition fs_ok :: "('d \<Rightarrow> bool) \<Rightarrow> ('d \<Rightarrow> u64 \<Rightarrow> u8 list) \<Rightarrow> u64 \<Rightarrow> 'd fsd \<Rightarrow> bool" where
  "fs_ok good sec cap s \<longleftrightarrow>
     cache_ok good sec (fs_sectors cap) (fs_cache (fst s), snd s) \<and>
     wf_fs cap (fs_view sec s) (bitmap_cache (fst s)) \<and>
     of_le32 (bytes_at 0 4 (fs_view sec s SEC_SUPER)) = MAGIC \<and>
     (\<not> bitmap_dirty (fst s) \<longrightarrow> fs_view sec s SEC_MAP_START = bitmap_cache (fst s))"

text \<open>The slot in which a file of this name is entered.\<close>

definition target_slot :: "(u64 \<Rightarrow> u8 list) \<Rightarrow> str \<Rightarrow> (u64 \<times> nat) option" where
  "target_slot g name =
     (case lookup_slot g name dir_sectors of Some p \<Rightarrow> Some p | None \<Rightarrow> free_slot g dir_sectors)"

locale fs_dev = cached_dev dev good sec cap "fs_sectors cap"
  for dev :: "'d blk_ops" and good sec cap +
  assumes cap: "4096 \<le> cap"
begin

lemma in_sectors: "s \<in> fs_sectors cap \<longleftrightarrow> 65 \<le> s \<and> s < cap"
  by (auto simp: fs_sectors_def)

lemma sys_sectors: "SEC_SUPER \<notin> fs_sectors cap" "SEC_MAP_START \<notin> fs_sectors cap"
  by (simp_all add: fs_sectors_def SEC_SUPER_def SEC_MAP_START_def word_le_nat_alt)

lemma find_pos_loop_yields:
  assumes "good d" "\<forall>s\<in>set ss. s < cap" "length buf = 512"
  shows "yields (find_pos_loop dev name ss buf d)
    (case lookup_slot (sec d) name ss of Some p \<Rightarrow> Ok p | None \<Rightarrow> Err ()) (\<lambda>d'. good d' \<and> sec d' = sec d)"
  using assms
proof (induction ss arbitrary: buf d)
  case (Cons s ss)
  then obtain d1 where d1: "read_sector dev s buf d = (Ok (sec d s), d1)" "good d1" "sec d1 = sec d"
    using dev_read [of d s buf] by (auto elim: outcomeE)
  have "length (sec d s) = 512" using Cons.prems by (simp add: sector_length)
  from Cons.IH [OF d1(2) _ this] show ?case
    using Cons.prems d1 by (auto simp: ok_opt_def split: option.splits)
qed simp

lemma find_free_loop_yields:
  assumes "good d" "\<forall>s\<in>set ss. s < cap" "length buf = 512"
  shows "yields (find_free_loop dev ss buf d)
    (case free_slot (sec d) ss of Some p \<Rightarrow> Ok p | None \<Rightarrow> Err ()) (\<lambda>d'. good d' \<and> sec d' = sec d)"
  using assms
proof (induction ss arbitrary: buf d)
  case (Cons s ss)
  then obtain d1 where d1: "read_sector dev s buf d = (Ok (sec d s), d1)" "good d1" "sec d1 = sec d"
    using dev_read [of d s buf] by (auto elim: outcomeE)
  have "length (sec d s) = 512" using Cons.prems by (simp add: sector_length)
  from Cons.IH [OF d1(2) _ this] show ?case
    using Cons.prems d1 by (auto simp: ok_opt_def split: option.splits)
qed simp

lemma cap_129: "129 \<le> cap"
  by (rule order_trans [OF _ cap]) simp

lemma dir_sectors_cap: "\<forall>s\<in>set dir_sectors. s < cap"
  using dir_sectors_range less_le_trans [OF _ cap_129] by blast

lemma find_entry_pos_yields:
  "good d \<Longrightarrow> yields (find_entry_pos dev name d)
    (case lookup_slot (sec d) name dir_sectors of Some p \<Rightarrow> Ok p | None \<Rightarrow> Err ()) (\<lambda>d'. good d' \<and> sec d' = sec d)"
  unfolding find_entry_pos_def by (rule find_pos_loop_yields [OF _ dir_sectors_cap]) simp_all

lemma find_free_dir_entry_yields:
  "good d \<Longrightarrow> yields (find_free_dir_entry dev d)
    (case free_slot (sec d) dir_sectors of Some p \<Rightarrow> Ok p | None \<Rightarrow> Err ()) (\<lambda>d'. good d' \<and> sec d' = sec d)"
  unfolding find_free_dir_entry_def by (rule find_free_loop_yields [OF _ dir_sectors_cap]) simp_all

lemma read_loop_outcome:
  assumes "good d" "length buf = 512"
    "\<forall>x\<in>set (chain_secs (sec d) nx (sz - length data)). zext32 x < cap"
  shows "outcome (read_loop dev sz nx data buf d) (data @ chain_data (sec d) nx (sz - length data))
    (\<lambda>d'. good d' \<and> sec d' = sec d)"
  using assms
proof (induction "sz - length data" arbitrary: nx data buf d rule: less_induct)
  case less
  show ?case
  proof (cases "nx \<noteq> 0 \<and> length data < sz")
    case False
    then show ?thesis
      unfolding read_loop.simps [of dev sz nx data buf d] chain_data.simps [of "sec d" nx]
      using less.prems(1) by (cases "nx = 0") simp_all
  next
    case True
    define b where "b = sec d (zext32 nx)"
    define m where "m = min (sz - length data) 508"
    define nx' where "nx' = of_le32 (bytes_at 0 4 b)"
    define data' where "data' = data @ bytes_at 4 m b"
    have m: "0 < m" "m \<le> sz - length data" "m \<le> 508" using True by (auto simp: m_def)
    have nx: "zext32 nx < cap" and
      rest: "\<forall>x\<in>set (chain_secs (sec d) nx' (sz - length data - m)). zext32 x < cap"
      using less.prems(3) True by (simp_all add: chain_secs.simps [of _ nx] b_def m_def nx'_def)
    then obtain d1 where d1: "read_sector dev (zext32 nx) buf d = (Ok b, d1)" "good d1" "sec d1 = sec d"
      using dev_read [OF less.prems(1) nx less.prems(2)] unfolding b_def by (auto elim: outcomeE)
    have b: "length b = 512" using less.prems(1) nx unfolding b_def by (rule sector_length)
    then have len: "sz - length data' = sz - length data - m"
      using m(3) by (simp add: data'_def)
    have "outcome (read_loop dev sz nx' data' b d1) (data' @ chain_data (sec d1) nx' (sz - length data'))
        (\<lambda>d'. good d' \<and> sec d' = sec d1)"
    proof (rule less.hyps)
      show "sz - length data' < sz - length data" using len m by linarith
      show "\<forall>x\<in>set (chain_secs (sec d1) nx' (sz - length data')). zext32 x < cap"
        using rest by (simp only: len d1(3))
    qed (rule d1(2) b)+
    moreover have "read_loop dev sz nx data buf d = read_loop dev sz nx' data' b d1"
      unfolding read_loop.simps [of dev sz nx data buf d] ok_opt_def Let_def d1(1) m_def [symmetric]
      using True b m(3) by (simp add: nx'_def data'_def)
    moreover have "data' @ chain_data (sec d1) nx' (sz - length data') = data @ chain_data (sec d) nx (sz - length data)"
      unfolding len d1(3) chain_data.simps [of "sec d" nx] m_def [symmetric] b_def [symmetric]
      using True by (simp add: nx'_def data'_def)
    ultimately show ?thesis using d1(3) by simp
  qed
qed

lemma read_file_yields:
  assumes good: "good d" and wf: "wf_fs cap (sec d) bm"
  shows "yields (read_file dev name d) (case file_of (sec d) name of Some x \<Rightarrow> Ok x | None \<Rightarrow> Err ())
    (\<lambda>d'. good d' \<and> sec d' = sec d)"
proof (cases "lookup_slot (sec d) name dir_sectors")
  case None
  then show ?thesis
    using find_entry_pos_yields [OF good, of name]
    by (auto simp: read_file_def find_entry_def file_of_def elim: yieldsE)
next
  case (Some p)
  from find_entry_pos_yields [OF good, of name] Some obtain d1 where
    d1: "find_entry_pos dev name d = (Ok p, d1)" "good d1" "sec d1 = sec d" by (auto elim: yieldsE)
  have p: "p \<in> slots" "slot_used (sec d) p"
    using lookup_slot_Some [OF Some] by (auto simp: slots_def slot_named_def mem_Times_iff)
  then have "fst p < cap" using dir_sectors_cap by (auto simp: slots_def)
  then obtain d2 where d2: "read_sector dev (fst p) zero_sector d1 = (Ok (sec d (fst p)), d2)" "good d2" "sec d2 = sec d"
    using dev_read [OF d1(2), of "fst p" zero_sector] d1(3) by (auto elim: outcomeE)
  have entry: "find_entry dev name d = (Ok (slot_entry (sec d) p), d2)"
    using d1(1) d2(1) by (cases p) (simp add: find_entry_def ok_opt_def)
  have "\<forall>x\<in>set (slot_chain (sec d) p). zext32 x < cap"
    using wf p by (auto simp: wf_fs_def wf_dir_def chain_ok_def)
  from read_loop_outcome [OF d2(2), of zero_sector "de_head (slot_entry (sec d) p)"
      "unat (de_size (slot_entry (sec d) p))" "[]"] this
  show ?thesis
    using entry Some by (simp add: read_file_def file_of_def d2(3) yields_Ok)
qed

abbreviation C :: "'d fsd \<Rightarrow> bool" where "C s \<equiv> ok (fs_cache (fst s), snd s)"
abbreviation V :: "'d fsd \<Rightarrow> u64 \<Rightarrow> u8 list" where "V s \<equiv> fs_view sec s"
abbreviation B :: "'d fsd \<Rightarrow> u8 list" where "B s \<equiv> bitmap_cache (fst s)"

lemma on_cache_outcome:
  assumes "outcome (f (fs_cache (fst s), snd s)) r Q"
  shows "outcome (on_cache f s) r
    (\<lambda>s'. Q (fs_cache (fst s'), snd s') \<and> B s' = B s \<and> bitmap_dirty (fst s') = bitmap_dirty (fst s))"
  using assms by (auto simp: on_cache_def outcome_def split: prod.splits)

lemma fs_modify_outcome:
  assumes "C s" "t \<in> fs_sectors cap" "length (h (V s t)) = 512"
  shows "outcome (fs_modify dev t h s) ()
    (\<lambda>s'. C s' \<and> V s' = (V s)(t := h (V s t)) \<and> B s' = B s \<and> bitmap_dirty (fst s') = bitmap_dirty (fst s))"
  unfolding fs_modify_def
proof (rule outcome_bindS [OF on_cache_outcome [OF cache_read_mut_outcome]])
  fix s' assume *: "(ok (fs_cache (fst s'), snd s') \<and> vw (fs_cache (fst s'), snd s') = vw (fs_cache (fst s), snd s) \<and>
      map_of (blocks (fst (fs_cache (fst s'), snd s'))) t \<noteq> None) \<and> B s' = B s \<and>
      bitmap_dirty (fst s') = bitmap_dirty (fst s)"
  then show "outcome (case s' of (fs, d) \<Rightarrow>
      (Ok (), fs\<lparr> fs_cache := mark_dirty t (cache_assign t (h (vw (fs_cache (fst s), snd s) t)) (fs_cache fs)) \<rparr>, d)) ()
      (\<lambda>s'. C s' \<and> V s' = (V s)(t := h (V s t)) \<and> B s' = B s \<and> bitmap_dirty (fst s') = bitmap_dirty (fst s))"
    using cache_modify [of "fs_cache (fst s')" "snd s'" t "h (V s t)"] assms(3)
    by (cases s') (simp add: fs_view_def)
qed (use assms in simp_all)

text \<open>What \<open>write_loop\<close> leaves behind: on success a chain with the data in fresh sectors, linked to \<open>prev\<close>; on
  failure the disk was too full.  Allocated sectors other than \<open>prev\<close> keep their contents.\<close>

definition loop_result :: "u8 list \<Rightarrow> u32 \<Rightarrow> u32 \<Rightarrow> 'd fsd \<Rightarrow> (u32, error) result \<Rightarrow> 'd fsd \<Rightarrow> bool" where
  "loop_result remaining head prev s r s' \<longleftrightarrow>
     (case r of
        Ok h \<Rightarrow>
          (if remaining = [] then V s' = V s \<and> h = head
           else \<exists>x. h = (if head = 0 then x else head) \<and> x \<noteq> 0 \<and>
             chain_data (V s') x (length remaining) = remaining \<and>
             chain_ok cap (B s') (chain_secs (V s') x (length remaining)) \<and>
             (prev \<noteq> 0 \<longrightarrow> V s' (zext32 prev) = overlay 0 (le32 x) (V s (zext32 prev))))
      | Err e \<Rightarrow> e = ''Disk full'' \<and> card (free_blocks (B s)) < blocks_needed (length remaining)
      | Panic \<Rightarrow> False)"

definition loop_frame :: "u32 \<Rightarrow> 'd fsd \<Rightarrow> 'd fsd \<Rightarrow> bool" where
  "loop_frame prev s s' \<longleftrightarrow>
     C s' \<and> length (B s') = 512 \<and> (\<not> bitmap_dirty (fst s') \<longrightarrow> \<not> bitmap_dirty (fst s) \<and> B s' = B s) \<and>
     (\<forall>x. used (B s) x \<longrightarrow> used (B s') x) \<and>
     (\<forall>t. used (B s) (unat t) \<and> (prev \<noteq> 0 \<longrightarrow> t \<noteq> zext32 prev) \<longrightarrow> V s' t = V s t)"

lemma zext32_less_cap: "unat x < 4096 \<Longrightarrow> zext32 x < cap"
  using cap by (simp add: word_less_nat_alt word_le_nat_alt)

lemma zext32_eq_iff: "zext32 x = zext32 y \<longleftrightarrow> x = y"
  by (metis unat_inj_iff unat_zext32)

text \<open>One round: allocate, link, store the chunk.\<close>

lemma write_round:
  assumes "C s" "length (B s) = 512" "alloc_block (fst s) = (Some x, f)"
    and prev: "prev \<noteq> 0 \<Longrightarrow> used (B s) (unat prev) \<and> zext32 prev \<in> fs_sectors cap"
    and x: "zext32 x \<in> fs_sectors cap" and chunk: "length chunk \<le> 508"
  obtains s1 s2 where
    "(if prev \<noteq> 0 then link_block_cached dev prev x (f, snd s) else (Ok (), f, snd s)) = (Ok (), s1)"
    "on_cache (cache_write dev (zext32 x) (overlay 4 chunk zero_sector)) s1 = (Ok (), s2)"
    "C s2" "B s2 = bitmap_cache f" "bitmap_dirty (fst s2)"
    "V s2 = (if prev \<noteq> 0 then (V s)(zext32 prev := overlay 0 (le32 x) (V s (zext32 prev))) else V s)
       (zext32 x := overlay 4 chunk zero_sector)"
proof -
  note a = alloc_block_Some [OF assms(3,2)]
  have f: "C (f, snd s)" "V (f, snd s) = V s" "bitmap_dirty f"
    using assms(1,3) a(5) by (auto simp: fs_view_def alloc_block_def split: option.splits)
  have len: "length (overlay 0 (le32 x) (V s (zext32 prev))) = 512" if "prev \<noteq> 0"
    using view_length [OF assms(1), of "zext32 prev"] prev [OF that] by (simp add: fs_view_def in_sectors)
  obtain s1 where s1:
    "(if prev \<noteq> 0 then link_block_cached dev prev x (f, snd s) else (Ok (), f, snd s)) = (Ok (), s1)"
    "C s1" "B s1 = bitmap_cache f" "bitmap_dirty (fst s1)"
    "V s1 = (if prev \<noteq> 0 then (V s)(zext32 prev := overlay 0 (le32 x) (V s (zext32 prev))) else V s)"
  proof (cases "prev = 0")
    case True
    then show ?thesis using that [of "(f, snd s)"] f by simp
  next
    case False
    have "outcome (fs_modify dev (zext32 prev) (overlay 0 (le32 x)) (f, snd s)) ()
      (\<lambda>s'. C s' \<and> V s' = (V (f, snd s))(zext32 prev := overlay 0 (le32 x) (V (f, snd s) (zext32 prev))) \<and>
        B s' = B (f, snd s) \<and> bitmap_dirty (fst s') = bitmap_dirty (fst (f, snd s)))"
      by (rule fs_modify_outcome [OF f(1)]) (use prev [OF False] len [OF False] f(2) in simp_all)
    then show ?thesis
      using False f(2,3) that by (auto simp: link_block_cached_def elim!: outcomeE)
  qed
  have "outcome (cache_write dev (zext32 x) (overlay 4 chunk zero_sector) (fs_cache (fst s1), snd s1)) ()
      (\<lambda>cd. ok cd \<and> vw cd = (vw (fs_cache (fst s1), snd s1))(zext32 x := overlay 4 chunk zero_sector))"
    by (rule cache_write_outcome [OF s1(2) x]) (use chunk in simp)
  from on_cache_outcome [of "cache_write dev (zext32 x) (overlay 4 chunk zero_sector)" s1, OF this] show ?thesis
    using that [OF s1(1)] s1(3,4,5) by (auto simp: fs_view_def elim!: outcomeE)
qed

lemma fresh_block:
  assumes "\<forall>x<129. used bm x" "\<not> used bm (unat x)"
  shows "x \<noteq> (0 :: u32)" "129 \<le> unat x"
proof -
  show "129 \<le> unat x" using assms not_le by blast
  then show "x \<noteq> 0" by auto
qed

lemma write_round_combine:
  assumes len: "length (B s) = 512" and prev: "prev \<noteq> 0 \<Longrightarrow> used (B s) (unat prev) \<and> zext32 prev \<in> fs_sectors cap"
    and alloc: "alloc_block (fst s) = (Some x, f)" and x: "x \<noteq> 0" "129 \<le> unat x" "zext32 x < cap"
    and s2: "C s2" "B s2 = bitmap_cache f" "bitmap_dirty (fst s2)"
      "V s2 = (if prev \<noteq> 0 then (V s)(zext32 prev := overlay 0 (le32 x) (V s (zext32 prev))) else V s)
         (zext32 x := overlay 4 (take m remaining) zero_sector)"
    and m: "m = min (length remaining) 508" and ne: "remaining \<noteq> []"
    and head': "head' = (if head = 0 then x else head)"
    and rec: "loop_result (drop m remaining) head' x s2 r s'" "loop_frame x s2 s'"
  shows "loop_result remaining head prev s r s'" "loop_frame prev s s'"
proof -
  note a = alloc_block_Some [OF alloc len]
  have x_unused: "zext32 x \<noteq> t" if "used (B s) (unat t)" for t
    using a(2) that by auto
  have keep: "V s' t = V s2 t" if "used (B s) (unat t)" for t
    using rec(2) that x_unused [OF that] x(1) a(3) s2(2) by (auto simp: loop_frame_def)
  have prev': "V s' (zext32 prev) = overlay 0 (le32 x) (V s (zext32 prev))" if "prev \<noteq> 0"
    using keep [of "zext32 prev"] prev [OF that] x_unused [of "zext32 prev"] that by (simp add: s2(4))
  show "loop_frame prev s s'"
    using rec(2) keep x_unused a(2,3) s2(2,3) by (auto simp: loop_frame_def s2(4))
  have chunk: "length (take m remaining) = m" "0 < m" "m \<le> 508" using ne by (auto simp: m)
  have chain: "chain_data (V s') x (length remaining) = take m remaining @ chain_data (V s') y (length remaining - m)"
    "chain_secs (V s') x (length remaining) = x # chain_secs (V s') y (length remaining - m)"
    if "V s' (zext32 x) = overlay 0 (le32 y) (V s2 (zext32 x))" for y
    using chain_cons [OF x(1), of "length remaining" "take m remaining" "V s'" y] that chunk(1) ne m
    by (simp_all add: s2(4))
  have x_ok: "used (B s') (unat x)" using rec(2) a(3) s2(2) by (simp add: loop_frame_def)
  show "loop_result remaining head prev s r s'"
  proof (cases r)
    case (Ok h)
    show ?thesis
    proof (cases "drop m remaining = []")
      case True
      then have "V s' (zext32 x) = overlay 0 (le32 0) (V s2 (zext32 x))" "h = head'" "m = length remaining"
        using rec(2) rec(1) Ok unlinked_sector [of "take m remaining"] chunk by (auto simp: loop_result_def s2(4))
      with chain(1,2) [of 0] show ?thesis
        using Ok ne prev' x x_ok head' by (auto simp: loop_result_def chain_ok_def intro!: exI [of _ x])
    next
      case False
      with rec(1) Ok obtain y where y: "V s' (zext32 x) = overlay 0 (le32 y) (V s2 (zext32 x))" "h = head'"
        "chain_data (V s') y (length remaining - m) = drop m remaining"
        "chain_ok cap (B s') (chain_secs (V s') y (length remaining - m))"
        using x(1) head' by (auto simp: loop_result_def split: if_splits)
      with chain [OF y(1)] show ?thesis
        using Ok ne prev' x x_ok head' by (auto simp: loop_result_def chain_ok_def intro!: exI [of _ x])
    qed
  next
    case (Err e)
    with rec(1) have e: "e = ''Disk full''" "card (free_blocks (B s2)) < blocks_needed (length remaining - m)"
      by (auto simp: loop_result_def)
    then have "508 < length remaining" "m = 508" by (auto simp: m blocks_needed_def min_def split: if_splits)
    with e show ?thesis
      using Err card_free_alloc [OF alloc len] s2(2) by (simp add: loop_result_def blocks_needed_step)
  next
    case Panic
    with rec(1) show ?thesis by (simp add: loop_result_def)
  qed
qed

lemma write_loop_spec:
  assumes "C s" "length (B s) = 512" "\<forall>x<129. used (B s) x"
    "prev \<noteq> 0 \<Longrightarrow> used (B s) (unat prev) \<and> zext32 prev \<in> fs_sectors cap"
  shows "\<exists>r s'. write_loop dev remaining head prev s = (r, s') \<and> loop_result remaining head prev s r s' \<and>
    loop_frame prev s s'"
  using assms
proof (induction "length remaining" arbitrary: remaining head prev s rule: less_induct)
  case less
  show ?case
  proof (cases "remaining = []")
    case True
    then show ?thesis
      using less.prems by (simp add: write_loop.simps [of _ "[]"] loop_result_def loop_frame_def)
  next
    case False
    define m where "m = min (length remaining) 508"
    have m: "0 < m" "m \<le> length remaining" "m \<le> 508" using False by (auto simp: m_def)
    obtain a f where alloc: "alloc_block (fst s) = (a, f)" by (rule prod.exhaust)
    show ?thesis
    proof (cases a)
      case None
      then have "free_blocks (B s) = {}" "f = fst s" using alloc_block_None alloc by auto
      then have "write_loop dev remaining head prev s = (Err ''Disk full'', s)"
        using False alloc None by (simp add: write_loop.simps [of _ remaining] alloc_or_def)
      then show ?thesis
        using less.prems(1,2) \<open>free_blocks (B s) = {}\<close> m
        by (simp add: loop_result_def loop_frame_def blocks_needed_def)
    next
      case (Some x)
      note alloc = alloc [unfolded Some] and a = alloc_block_Some [OF alloc [unfolded Some] less.prems(2)]
      define head' where "head' = (if head = 0 then x else head)"
      have x: "x \<noteq> 0" "129 \<le> unat x" "zext32 x < cap" "zext32 x \<in> fs_sectors cap"
        using fresh_block [OF less.prems(3) a(2)] zext32_less_cap [OF a(1)]
        by (simp_all add: in_sectors word_le_nat_alt)
      obtain s1 s2 where round:
        "(if prev \<noteq> 0 then link_block_cached dev prev x (f, snd s) else (Ok (), f, snd s)) = (Ok (), s1)"
        "on_cache (cache_write dev (zext32 x) (overlay 4 (take m remaining) zero_sector)) s1 = (Ok (), s2)"
        "C s2" "B s2 = bitmap_cache f" "bitmap_dirty (fst s2)"
        "V s2 = (if prev \<noteq> 0 then (V s)(zext32 prev := overlay 0 (le32 x) (V s (zext32 prev))) else V s)
           (zext32 x := overlay 4 (take m remaining) zero_sector)"
        using less.prems(4) m x(4)
        by (rule_tac write_round [OF less.prems(1,2) alloc, of prev "take m remaining"]) auto
      have step: "write_loop dev remaining head prev s = write_loop dev (drop m remaining) head' x s2"
        using False round(1,2) alloc
        unfolding write_loop.simps [of dev remaining] alloc_or_def m_def [symmetric] head'_def Let_def by simp
      obtain r s' where rec: "write_loop dev (drop m remaining) head' x s2 = (r, s')"
        "loop_result (drop m remaining) head' x s2 r s'" "loop_frame x s2 s'"
        using less.hyps [of "drop m remaining" s2 x head'] m(1,2) round(3,4) a(3,4) less.prems(3) x(4) False
        by (auto simp: length_greater_0_conv [symmetric] simp del: length_greater_0_conv)
      have "loop_result remaining head prev s r s'" "loop_frame prev s s'"
        using write_round_combine [OF less.prems(2,4) alloc x(1,2,3) round(3,4,5,6) m_def False _ rec(2,3)]
        by (simp_all add: head'_def)
      then show ?thesis using step rec(1) by auto
    qed
  qed
qed

text \<open>Where the entry goes: decided on the device, so the caches must have been written back.\<close>

lemma synced_sec:
  assumes "C s" "cache_clean (fs_cache (fst s))"
  shows "sec (snd s) = V s"
  using clean_device_is_view [of "(fs_cache (fst s), snd s)"] assms by (simp add: fs_view_def)

lemma same_dev:
  assumes "C s" "good d" "sec d = sec (snd s)"
  shows "C (fst s, d) \<and> V (fst s, d) = V s"
  using assms by (auto simp: cache_ok_def fs_view_def view_pair fun_eq_iff split: option.splits)

lemma find_slot_fs:
  assumes "C s"
  shows "yields (on_dev_fs (find_entry_pos dev name) s)
    (case lookup_slot (sec (snd s)) name dir_sectors of Some p \<Rightarrow> Ok p | None \<Rightarrow> Err ())
    (\<lambda>s'. fst s' = fst s \<and> C s' \<and> V s' = V s \<and> sec (snd s') = sec (snd s))"
proof -
  have good: "good (snd s)" using assms by (simp add: cache_ok_def)
  from find_entry_pos_yields [OF good, of name] show ?thesis
    using same_dev [OF assms] by (auto simp: on_dev_fs_def elim!: yieldsE)
qed

lemma target_pos_yields:
  assumes "C s"
  shows "yields (case on_dev_fs (find_entry_pos dev name) s of
        (Ok pos, s) \<Rightarrow> (Ok pos, s)
      | (Err _, s) \<Rightarrow> ok_or ''Root dir full'' (on_dev_fs (find_free_dir_entry dev) s)
      | (Panic, s) \<Rightarrow> (Panic, s))
    (case target_slot (sec (snd s)) name of Some p \<Rightarrow> Ok p | None \<Rightarrow> Err ''Root dir full'')
    (\<lambda>s'. fst s' = fst s \<and> C s' \<and> V s' = V s)"
proof -
  from find_slot_fs [OF assms, of name] obtain s1 where
    s1: "on_dev_fs (find_entry_pos dev name) s =
      ((case lookup_slot (sec (snd s)) name dir_sectors of Some p \<Rightarrow> Ok p | None \<Rightarrow> Err ()), s1)"
      "fst s1 = fst s" "C s1" "V s1 = V s" "sec (snd s1) = sec (snd s)"
    by (auto elim: yieldsE)
  have good: "good (snd s1)" using s1(3) by (simp add: cache_ok_def)
  from find_free_dir_entry_yields [OF good] obtain d2 where
    d2: "find_free_dir_entry dev (snd s1) =
      ((case free_slot (sec (snd s)) dir_sectors of Some p \<Rightarrow> Ok p | None \<Rightarrow> Err ()), d2)"
      "good d2" "sec d2 = sec (snd s1)"
    unfolding s1(5) by (auto elim: yieldsE)
  show ?thesis
    using s1 d2 same_dev [OF s1(3) d2(2,3)]
    by (auto simp: on_dev_fs_def ok_or_def target_slot_def split: option.splits)
qed

abbreviation I :: "'d fsd \<Rightarrow> bool" where "I s \<equiv> fs_ok good sec cap s"

lemma inv_after:
  assumes "I s" "C s'" "wf_fs cap (V s') (B s')"
    "V s' SEC_SUPER = V s SEC_SUPER" "V s' SEC_MAP_START = V s SEC_MAP_START"
    "\<not> bitmap_dirty (fst s') \<Longrightarrow> \<not> bitmap_dirty (fst s) \<and> B s' = B s"
  shows "I s'"
  using assms by (auto simp: fs_ok_def)

text \<open>The steps of \<open>write_file\<close> before the directory entry is written.\<close>

lemma write_file_steps:
  assumes inv: "I s" and target: "target_slot (sec (snd s)) name = Some p"
  obtains r s2 where
    "write_file dev name data s = bindS (r, s2) (\<lambda>head s.
        fs_modify dev (fst p) (overlay (32 * snd p) (entry_bytes \<lparr> de_name = name_field name,
          de_size = word_of_nat (length data), de_head = head \<rparr>)) s)"
    "loop_result data 0 0 s r s2" "I s2" "same_used (B s) (V s) (V s2)"
proof -
  have C: "C s" and wf: "wf_fs cap (V s) (B s)" using inv by (simp_all add: fs_ok_def)
  from target_pos_yields [OF C, of name] obtain s1 where
    s1: "(case on_dev_fs (find_entry_pos dev name) s of
        (Ok pos, s) \<Rightarrow> (Ok pos, s)
      | (Err _, s) \<Rightarrow> ok_or ''Root dir full'' (on_dev_fs (find_free_dir_entry dev) s)
      | (Panic, s) \<Rightarrow> (Panic, s)) = (Ok p, s1)"
    "fst s1 = fst s" "C s1" "V s1 = V s" using target by (auto elim: yieldsE)
  obtain r s2 where loop: "write_loop dev data 0 0 s1 = (r, s2)" "loop_result data 0 0 s1 r s2" "loop_frame 0 s1 s2"
    using write_loop_spec [of s1 0 data 0] s1 wf by (auto simp: wf_fs_def wf_dir_def)
  have same: "same_used (B s) (V s) (V s2)"
    using loop(3) s1(2,4) by (auto simp: loop_frame_def same_used_def)
  have C2: "C s2" using loop(3) by (simp add: loop_frame_def)
  have wf2: "wf_fs cap (V s2) (B s2)"
  proof (rule wf_fs_frame [OF wf same])
    show "length (V s2 t) = 512" if "t < cap" for t
      using view_length [OF C2 that] by (simp add: fs_view_def)
  qed (use loop(3) s1(2) in \<open>auto simp: loop_frame_def\<close>)
  have "V s2 SEC_SUPER = V s SEC_SUPER" "V s2 SEC_MAP_START = V s SEC_MAP_START"
    using loop(3) s1(2,4) wf by (auto simp: loop_frame_def wf_fs_def wf_dir_def SEC_SUPER_def SEC_MAP_START_def)
  then have "I s2"
    using loop(3) s1(2) by (intro inv_after [OF inv C2 wf2]) (auto simp: loop_frame_def)
  moreover have "loop_result data 0 0 s r s2" using loop(2) by (simp only: loop_result_def s1(2,4))
  moreover have "write_file dev name data s = bindS (r, s2) (\<lambda>head s.
        fs_modify dev (fst p) (overlay (32 * snd p) (entry_bytes \<lparr> de_name = name_field name,
          de_size = word_of_nat (length data), de_head = head \<rparr>)) s)"
    unfolding write_file_def s1(1) Let_def using loop(1) by (simp add: case_prod_unfold)
  ultimately show ?thesis using that same by blast
qed

text \<open>Writing an entry into a slot of the directory.\<close>

lemma put_entry:
  assumes "I s" "p \<in> slots" "length (de_name e) = 24"
  obtains s' where "fs_modify dev (fst p) (overlay (32 * snd p) (entry_bytes e)) s = (Ok (), s')" "C s'"
    "V s' = (V s)(fst p := overlay (32 * snd p) (entry_bytes e) (V s (fst p)))" "B s' = B s"
    "length (V s (fst p)) = 512" "wf_fs cap (V s') (B s') \<Longrightarrow> I s'"
proof -
  have p: "fst p \<in> set dir_sectors" "snd p < 16" using assms(2) by (auto simp: slots_def)
  have C: "C s" and wf: "wf_fs cap (V s) (B s)" using assms(1) by (simp_all add: fs_ok_def)
  have sp: "fst p \<in> fs_sectors cap" "length (V s (fst p)) = 512"
    using dir_sectors_range [OF p(1)] dir_sectors_cap p(1) wf by (auto simp: in_sectors wf_fs_def wf_dir_def)
  obtain s' where s': "fs_modify dev (fst p) (overlay (32 * snd p) (entry_bytes e)) s = (Ok (), s')" "C s'"
    "V s' = (V s)(fst p := overlay (32 * snd p) (entry_bytes e) (V s (fst p)))" "B s' = B s"
    "bitmap_dirty (fst s') = bitmap_dirty (fst s)"
    using fs_modify_outcome [OF C sp(1), of "overlay (32 * snd p) (entry_bytes e)"] sp(2) p(2) assms(3)
    by (auto elim: outcomeE)
  have "fst p \<noteq> SEC_SUPER" "fst p \<noteq> SEC_MAP_START" using sp(1) sys_sectors by auto
  then show ?thesis using s' sp(2) by (intro that [OF s'(1-4) sp(2)] inv_after [OF assms(1)]) auto
qed

lemma write_file_spec:
  assumes inv: "I s" and clean: "cache_clean (fs_cache (fst s))"
    and name: "name_ok name" and len: "length data < 2 ^ 32"
  shows "\<exists>r s'. write_file dev name data s = (r, s') \<and> I s' \<and>
    (case r of
       Ok _ \<Rightarrow> file_of (V s') = (file_of (V s))(name \<mapsto> data)
     | Err e \<Rightarrow> file_of (V s') = file_of (V s) \<and>
         (target_slot (V s) name = None \<or> card (free_blocks (B s)) < blocks_needed (length data))
     | Panic \<Rightarrow> False)"
proof -
  have C: "C s" and wf: "wf_fs cap (V s) (B s)" using inv by (simp_all add: fs_ok_def)
  note sec = synced_sec [OF C clean]
  show ?thesis
  proof (cases "target_slot (V s) name")
    case None
    from target_pos_yields [OF C, of name] None obtain s1 where
      s1: "write_file dev name data s = (Err ''Root dir full'', s1)" "fst s1 = fst s" "C s1" "V s1 = V s"
      unfolding sec write_file_def by (auto elim!: yieldsE)
    then show ?thesis using None wf inv_after [OF inv, of s1] by simp
  next
    case (Some p)
    obtain r s2 where s2: "write_file dev name data s = bindS (r, s2) (\<lambda>head s.
        fs_modify dev (fst p) (overlay (32 * snd p) (entry_bytes \<lparr> de_name = name_field name,
          de_size = word_of_nat (length data), de_head = head \<rparr>)) s)"
      "loop_result data 0 0 s r s2" "I s2" "same_used (B s) (V s) (V s2)"
      using write_file_steps [OF inv, of name p data] Some sec by metis
    note frame = files_frame [OF wf_fs_dir [OF wf] s2(4)]
    show ?thesis
    proof (cases r)
      case (Ok h)
      define e where "e = \<lparr> de_name = name_field name, de_size = word_of_nat (length data), de_head = h \<rparr>"
      have pos: "lookup_slot (V s2) name dir_sectors = Some p \<or>
          lookup_slot (V s2) name dir_sectors = None \<and> free_slot (V s2) dir_sectors = Some p"
        using Some frame(4,5) by (auto simp: target_slot_def split: option.splits)
      then have p: "p \<in> slots"
        using lookup_slot_Some [of "V s2" name dir_sectors p] free_slot_Some [of "V s2" dir_sectors p]
        by (auto simp: slots_def mem_Times_iff)
      have elen: "length (de_name e) = 24" by (simp add: e_def)
      obtain s3 where s3: "fs_modify dev (fst p) (overlay (32 * snd p) (entry_bytes e)) s2 = (Ok (), s3)"
        "V s3 = (V s2)(fst p := overlay (32 * snd p) (entry_bytes e) (V s2 (fst p)))" "B s3 = B s2"
        "wf_fs cap (V s3) (B s3) \<Longrightarrow> I s3"
        using put_entry [OF s2(3) p elen] by blast
      have data: "chain_data (V s2) h (length data) = data"
        "chain_ok cap (B s2) (chain_secs (V s2) h (length data))"
        using s2(2) Ok by (auto simp: loop_result_def chain_ok_def split: if_splits)
      have wf2: "wf_fs cap (V s2) (B s2)" using s2(3) by (simp add: fs_ok_def)
      have pos': "lookup_slot (V s2) name dir_sectors = Some p \<or>
          lookup_slot (V s2) name dir_sectors = None \<and> p \<in> slots \<and> \<not> slot_used (V s2) p"
        using pos free_slot_Some [of "V s2" dir_sectors p] by (auto simp: slots_def mem_Times_iff)
      note we = write_entry [OF wf_fs_dir [OF wf2] cap_129 name pos' len data e_def s3(2)]
      show ?thesis using s2(1) Ok s3(1,3,4) we wf2 frame(1) by (simp add: e_def wf_fs_def)
    next
      case (Err x)
      then show ?thesis using s2 frame(1) by (simp add: loop_result_def)
    next
      case Panic
      then show ?thesis using s2(2) by (simp add: loop_result_def)
    qed
  qed
qed

lemma fs_sync_outcome:
  assumes inv: "I s" 
  shows "\<exists>n. outcome (fs_sync dev s) n
    (\<lambda>s'. I s' \<and> file_of (V s') = file_of (V s) \<and> B s' = B s \<and> cache_clean (fs_cache (fst s')) \<and>
      \<not> bitmap_dirty (fst s') \<and> sec (snd s') = V s')"
proof -
  have C: "C s" and wf: "wf_fs cap (V s) (B s)" using inv by (simp_all add: fs_ok_def)
  have len: "length (B s) = 512" and good: "good (snd s)"
    using wf C by (simp_all add: wf_fs_def wf_dir_def cache_ok_def)
  have map: "SEC_MAP_START < cap" by (rule less_le_trans [OF _ cap]) (simp add: SEC_MAP_START_def)
  have SEC: "SEC_MAP_START \<notin> fs_sectors cap" "SEC_MAP_START \<noteq> SEC_SUPER"
    using sys_sectors by (simp_all add: SEC_MAP_START_def SEC_SUPER_def)
  obtain s1 where s1: "(if bitmap_dirty (fst s) then
        (case write_sector dev SEC_MAP_START (bitmap_cache (fst s)) (snd s) of
           (Ok _, d) \<Rightarrow> (Ok (), (fst s)\<lparr> bitmap_dirty := False \<rparr>, d)
         | (Err e, d) \<Rightarrow> (Err e, fst s, d)
         | (Panic, d) \<Rightarrow> (Panic, fst s, d))
      else (Ok (), s)) = (Ok (), s1)"
    "C s1" "B s1 = B s" "V s1 = (V s)(SEC_MAP_START := B s)" "\<not> bitmap_dirty (fst s1)"
  proof (cases "bitmap_dirty (fst s)")
    case True
    obtain d where d: "write_sector dev SEC_MAP_START (B s) (snd s) = (Ok (), d)" "good d"
      "sec d = (sec (snd s))(SEC_MAP_START := B s)"
      using dev_write [OF good map len] by (auto elim: outcomeE)
    have none: "map_of (blocks (fs_cache (fst s))) SEC_MAP_START = None"
      using C SEC(1) by (cases "map_of (blocks (fs_cache (fst s))) SEC_MAP_START") (auto simp: cache_ok_def)
    have "C ((fst s)\<lparr> bitmap_dirty := False \<rparr>, d)"
      using C d SEC(1) by (auto simp: cache_ok_def)
    moreover have "V ((fst s)\<lparr> bitmap_dirty := False \<rparr>, d) = (V s)(SEC_MAP_START := B s)"
      using none by (auto simp: fs_view_def view_pair d(3) fun_eq_iff split: option.splits)
    ultimately show ?thesis using True d(1) that by simp
  next
    case False
    then show ?thesis using that [of s] C inv by (auto simp: fs_ok_def fun_upd_idem)
  qed
  have same: "same_used (B s) (V s) (V s1)"
    by (auto simp: same_used_def s1(4) SEC_MAP_START_def)
  have wf1: "wf_fs cap (V s1) (B s1)"
    by (rule wf_fs_frame [OF wf same]) (use wf s1(3,4) in \<open>auto simp: wf_fs_def wf_dir_def\<close>)
  have inv1: "I s1" using inv s1(2,3,4) SEC(2) wf1 by (auto simp: fs_ok_def)
  have "outcome (on_cache (cache_sync dev) s1) (dirty_count (fs_cache (fst s1)))
      (\<lambda>s'. I s' \<and> file_of (V s') = file_of (V s) \<and> B s' = B s \<and> cache_clean (fs_cache (fst s')) \<and>
        \<not> bitmap_dirty (fst s') \<and> sec (snd s') = V s')"
    by (rule outcome_mono [OF on_cache_outcome [of "cache_sync dev" s1,
            OF cache_sync_outcome [OF s1(2), unfolded fst_conv]]])
      (use inv1 files_frame(1) [OF wf_fs_dir [OF wf] same] s1(3,5) in \<open>auto simp: fs_view_def fs_ok_def\<close>)
  then show ?thesis using s1(1) by (auto simp: fs_sync_def)
qed

lemma fs_init_outcome:
  assumes good: "good d" and wf: "wf_fs cap (sec d) (sec d SEC_MAP_START)"
    and magic: "of_le32 (bytes_at 0 4 (sec d SEC_SUPER)) = MAGIC"
  shows "outcome (fs_init dev d) \<lparr> bitmap_cache = sec d SEC_MAP_START, bitmap_dirty = False, fs_cache = buffer_cache_new \<rparr>
    (\<lambda>d'. good d' \<and> sec d' = sec d)"
proof -
  have sys: "SEC_SUPER < cap" "SEC_MAP_START < cap"
    by (rule less_le_trans [OF _ cap], simp add: SEC_SUPER_def SEC_MAP_START_def)+
  obtain d1 where d1: "read_sector dev SEC_SUPER zero_sector d = (Ok (sec d SEC_SUPER), d1)" "good d1" "sec d1 = sec d"
    using dev_read [OF good sys(1), of zero_sector] by (auto elim: outcomeE)
  have "length (sec d SEC_SUPER) = 512" using good sys(1) by (rule sector_length)
  then obtain d2 where d2: "read_sector dev SEC_MAP_START (sec d SEC_SUPER) d1 = (Ok (sec d SEC_MAP_START), d2)"
    "good d2" "sec d2 = sec d"
    using dev_read [OF d1(2) sys(2), of "sec d SEC_SUPER"] d1(3) by (auto elim: outcomeE)
  show ?thesis using d1 d2 magic by (simp add: fs_init_def ok_opt_def)
qed

abbreviation mounted :: "'d \<Rightarrow> file_system" where
  "mounted d \<equiv> \<lparr> bitmap_cache = sec d SEC_MAP_START, bitmap_dirty = False, fs_cache = buffer_cache_new \<rparr>"

lemma blocks_new: "blocks buffer_cache_new = []"
  by (simp add: buffer_cache_new_def)

lemma mounted_view: "V (mounted d, d) = sec d"
  by (simp add: fs_view_def blocks_new view_pair fun_eq_iff)

lemma mounted_inv:
  assumes "good d" "wf_fs cap (sec d) (sec d SEC_MAP_START)" "of_le32 (bytes_at 0 4 (sec d SEC_SUPER)) = MAGIC"
  shows "I (mounted d, d)" "cache_clean (fs_cache (mounted d))"
  using assms by (simp_all add: fs_ok_def mounted_view cache_ok_def blocks_new cache_clean_def)

lemma synced_mount:
  assumes "I s" "cache_clean (fs_cache (fst s))" "\<not> bitmap_dirty (fst s)"
  shows "good (snd s)" "wf_fs cap (sec (snd s)) (sec (snd s) SEC_MAP_START)"
    "of_le32 (bytes_at 0 4 (sec (snd s) SEC_SUPER)) = MAGIC"
  using assms synced_sec [of s] by (auto simp: fs_ok_def cache_ok_def)

text \<open>What the file system holds survives \<open>sync\<close> and a remount; so a written file does, and every other file.\<close>

lemma sync_persists:
  assumes I: "I s1"
  shows "\<exists>n s2 f d. fs_sync dev s1 = (Ok n, s2) \<and> fs_init dev (snd s2) = (Ok f, d) \<and> I (f, d) \<and> cache_clean (fs_cache f) \<and>
    (\<forall>nm. fst (read_file dev nm d) = (case file_of (V s1) nm of Some x \<Rightarrow> Ok x | None \<Rightarrow> Err ()))"
proof -
  from fs_sync_outcome [OF I] obtain n s2 where s2: "fs_sync dev s1 = (Ok n, s2)" "I s2"
    "file_of (V s2) = file_of (V s1)" "cache_clean (fs_cache (fst s2))" "\<not> bitmap_dirty (fst s2)"
    "sec (snd s2) = V s2" by (auto elim: outcomeE)
  note m = synced_mount [OF s2(2,4,5)]
  from fs_init_outcome [OF m] obtain d where d: "fs_init dev (snd s2) = (Ok (mounted (snd s2)), d)" "good d"
    "sec d = sec (snd s2)" by (auto elim: outcomeE)
  have m': "wf_fs cap (sec d) (sec d SEC_MAP_START)" "of_le32 (bytes_at 0 4 (sec d SEC_SUPER)) = MAGIC"
    "mounted (snd s2) = mounted d"
    using m d(3) by simp_all
  have "fst (read_file dev nm d) = (case file_of (V s1) nm of Some x \<Rightarrow> Ok x | None \<Rightarrow> Err ())" for nm
    using read_file_yields [OF d(2) m'(1), of nm] d(3) s2(3,6) by (simp add: yields_def)
  then show ?thesis using s2(1) d(1) mounted_inv [OF d(2) m'(1,2)] m'(3) by auto
qed

lemma write_persists:
  assumes I: "I s" and clean: "cache_clean (fs_cache (fst s))" and name: "name_ok name"
    and len: "length data < 2 ^ 32" and ok: "write_file dev name data s = (Ok (), s1)"
  shows "\<exists>n s2 f d. fs_sync dev s1 = (Ok n, s2) \<and> fs_init dev (snd s2) = (Ok f, d) \<and>
    I (f, d) \<and> cache_clean (fs_cache f) \<and>
    (\<forall>nm. fst (read_file dev nm d) =
      (case ((file_of (V s))(name \<mapsto> data)) nm of Some x \<Rightarrow> Ok x | None \<Rightarrow> Err ()))"
proof -
  have s1: "I s1" "file_of (V s1) = (file_of (V s))(name \<mapsto> data)"
    using write_file_spec [OF I clean name len] ok by auto
  from sync_persists [OF s1(1)] show ?thesis unfolding s1(2) .
qed

text \<open>Removing a file.\<close>

lemma remove_spec:
  assumes I: "I s" and clean: "cache_clean (fs_cache (fst s))" and no_dir: "\<not> ends_with name (lit ''/'')"
    and found: "file_of (V s) name \<noteq> None"
  shows "outcome (remove dev name s) ()
    (\<lambda>s'. I s' \<and> cache_clean (fs_cache (fst s')) \<and> file_of (V s') = (file_of (V s))(name := None))"
proof -
  have C: "C s" and wf: "wf_fs cap (V s) (B s)" using I by (simp_all add: fs_ok_def)
  obtain p where p: "lookup_slot (V s) name dir_sectors = Some p"
    using found by (auto simp: file_of_def)
  from find_slot_fs [OF C, of name] p obtain s1 where s1: "on_dev_fs (find_entry_pos dev name) s = (Ok p, s1)"
    "fst s1 = fst s" "C s1" "V s1 = V s" unfolding synced_sec [OF C clean] by (auto elim: yieldsE)
  have sp: "fst p \<in> set dir_sectors" "snd p < 16" "fst p \<in> fs_sectors cap" "length (V s (fst p)) = 512"
    using lookup_slot_Some [OF p] dir_sectors_range [of "fst p"] dir_sectors_cap wf by (auto simp: in_sectors wf_fs_def wf_dir_def)
  obtain s2 where s2: "fs_modify dev (fst p) (overlay (32 * snd p) (replicate 32 0)) s1 = (Ok (), s2)" "C s2"
    "V s2 = (V s)(fst p := overlay (32 * snd p) (replicate 32 0) (V s (fst p)))" "B s2 = B s"
    "bitmap_dirty (fst s2) = bitmap_dirty (fst s)"
    using fs_modify_outcome [OF s1(3) sp(3), of "overlay (32 * snd p) (replicate 32 0)"] sp(2,4) s1(2,4)
    by (auto elim: outcomeE)
  note ce = clear_entry [OF wf_fs_dir [OF wf] p sp(4) cap_129 s2(3)]
  have "fst p \<noteq> SEC_SUPER" "fst p \<noteq> SEC_MAP_START" using sp(3) sys_sectors by auto
  then have I2: "I s2" using s2 ce(2) wf by (intro inv_after [OF I]) (auto simp: wf_fs_def)
  have "outcome (on_cache (cache_sync dev) s2) (dirty_count (fs_cache (fst s2)))
      (\<lambda>s'. I s' \<and> cache_clean (fs_cache (fst s')) \<and> file_of (V s') = (file_of (V s))(name := None))"
    by (rule outcome_mono [OF on_cache_outcome [of "cache_sync dev" s2,
            OF cache_sync_outcome [OF s2(2), unfolded fst_conv]]])
      (use I2 ce(1) in \<open>auto simp: fs_view_def fs_ok_def\<close>)
  then show ?thesis
    using s1(1) s2(1) no_dir by (cases p) (auto simp: remove_def ok_or_def outcome_def bindS_def split: prod.splits result.splits)
qed

text \<open>The directory slot of a new file is chosen on the device.  If another file was created before and not yet
  written back, it is the slot of that file, whose entry is lost.\<close>

lemma create_before_sync:
  assumes I: "I s" and target: "target_slot (sec (snd s)) name = Some p"
    and pending: "slot_named (V s) other p" and names: "other \<noteq> name" "name_ok name"
    and ok: "write_file dev name data s = (Ok (), s')"
  shows "file_of (V s') other = None"
proof -
  have p: "p \<in> slots"
    using target lookup_slot_Some [of "sec (snd s)" name dir_sectors p] free_slot_Some [of "sec (snd s)" dir_sectors p]
    by (auto simp: target_slot_def slots_def mem_Times_iff split: option.splits)
  have wf: "wf_fs cap (V s) (B s)" using I by (simp add: fs_ok_def)
  obtain r s2 where s2: "write_file dev name data s = bindS (r, s2) (\<lambda>head s.
        fs_modify dev (fst p) (overlay (32 * snd p) (entry_bytes \<lparr> de_name = name_field name,
          de_size = word_of_nat (length data), de_head = head \<rparr>)) s)"
      "I s2" "same_used (B s) (V s) (V s2)"
    using write_file_steps [OF I target, of data] by metis
  obtain h where h: "r = Ok h" using s2(1) ok by (cases r) auto
  define e where "e = \<lparr> de_name = name_field name, de_size = word_of_nat (length data), de_head = h \<rparr>"
  have elen: "length (de_name e) = 24" by (simp add: e_def)
  obtain s3 where s3: "fs_modify dev (fst p) (overlay (32 * snd p) (entry_bytes e)) s2 = (Ok (), s3)"
    "V s3 = (V s2)(fst p := overlay (32 * snd p) (entry_bytes e) (V s2 (fst p)))" "length (V s2 (fst p)) = 512"
    using put_entry [OF s2(2) p elen] by blast
  have "s' = s3" using s2(1) ok h s3(1) by (simp add: e_def)
  with s3 have V': "V s' = (V s2)(fst p := overlay (32 * snd p) (entry_bytes e) (V s2 (fst p)))" by simp
  have lt: "snd q < 16" if "q \<in> slots" for q using that by (auto simp: slots_def)
  have "\<not> slot_named (V s') other q" if q: "q \<in> slots" for q
  proof (cases "q = p")
    case True
    then show ?thesis
      using slot_after_write(1) [OF s3(3) lt [OF p] lt [OF p] elen V'] names decode_name_field [OF names(2)]
      by (simp add: slot_named_def e_def)
  next
    case False
    have "\<not> slot_named (V s) other q" using wf pending p q False unfolding wf_fs_def wf_dir_def by metis
    then have "\<not> slot_named (V s2) other q" using files_frame(2) [OF wf_fs_dir [OF wf] s2(3) q] by (simp add: slot_named_def)
    then show ?thesis
      using slot_after_write [OF s3(3) lt [OF p] lt [OF q] elen V'] False by (simp add: slot_named_def)
  qed
  then have "lookup_slot (V s') other dir_sectors = None" by (simp add: lookup_slots(2))
  then show ?thesis by (simp add: file_of_def)
qed

text \<open>The check for an empty directory lists the whole root, which holds the directory itself.\<close>

lemma list_loop_nonempty:
  assumes "C s" "\<forall>t\<in>set ss. t \<in> fs_sectors cap" "entries \<noteq> []"
  shows "\<exists>es. outcome (list_loop dev ss n entries s) es (\<lambda>s'. C s' \<and> es \<noteq> [])"
  using assms
proof (induction ss arbitrary: n entries s)
  case (Cons t ss)
  have "outcome (cache_read_mut dev t (fs_cache (fst s), snd s)) (V s t)
      (\<lambda>cd'. ok cd' \<and> vw cd' = vw (fs_cache (fst s), snd s) \<and> map_of (blocks (fst cd')) t \<noteq> None)"
    unfolding fs_view_def using Cons.prems by (intro cache_read_mut_outcome) simp_all
  from on_cache_outcome [of "cache_read_mut dev t" s, OF this] obtain s1 where
    s1: "on_cache (cache_read_mut dev t) s = (Ok (V s t), s1)" "C s1" by (auto elim: outcomeE)
  have eq: "list_loop dev (t # ss) n entries s =
      (let found = sector_entries (V s t); entries = entries @ found; n = (if found = [] then n + 1 else 0)
       in if n \<ge> 2 then (Ok entries, s1) else list_loop dev ss n entries s1)"
    using s1(1) by simp
  show ?case
    unfolding eq Let_def using Cons.IH [OF s1(2), of "entries @ sector_entries (V s t)"] Cons.prems(2,3) s1(2)
    by (auto simp: outcome_def)
qed auto

lemma remove_dir_fails:
  assumes I: "I s" and clean: "cache_clean (fs_cache (fst s))" and dir: "ends_with path (lit ''/'')"
    and found: "lookup_slot (V s) path dir_sectors = Some p"
    and first: "j < 16" "slot_used (V s) (SEC_DIR_START, j)"
  shows "fst (remove dev path s) = Err ''Directory not empty''"
proof -
  have C: "C s" and wf: "wf_fs cap (V s) (B s)" using I by (simp_all add: fs_ok_def)
  from find_slot_fs [OF C, of path] found obtain s1 where s1: "on_dev_fs (find_entry_pos dev path) s = (Ok p, s1)"
    "C s1" "V s1 = V s" unfolding synced_sec [OF C clean] by (auto elim: yieldsE)
  define ss where "ss = map (\<lambda>i. SEC_DIR_START + word_of_nat i) [1..<SEC_DIR_COUNT]"
  have ss: "dir_sectors = SEC_DIR_START # ss"
    by (simp add: dir_sectors_def ss_def SEC_DIR_COUNT_def upt_conv_Cons)
  have secs: "\<forall>t\<in>set dir_sectors. t \<in> fs_sectors cap"
    using dir_sectors_range dir_sectors_cap by (auto simp: in_sectors)
  then have first_sec: "SEC_DIR_START \<in> fs_sectors cap" by (simp add: ss)
  have "outcome (cache_read_mut dev SEC_DIR_START (fs_cache (fst s1), snd s1)) (V s1 SEC_DIR_START)
      (\<lambda>cd'. ok cd' \<and> vw cd' = vw (fs_cache (fst s1), snd s1) \<and> map_of (blocks (fst cd')) SEC_DIR_START \<noteq> None)"
    unfolding fs_view_def by (rule cache_read_mut_outcome [OF s1(2) first_sec])
  from on_cache_outcome [of "cache_read_mut dev SEC_DIR_START" s1, OF this] obtain s2 where
    s2: "on_cache (cache_read_mut dev SEC_DIR_START) s1 = (Ok (V s SEC_DIR_START), s2)" "C s2"
    using s1(3) by (auto elim: outcomeE)
  have "j \<in> set (filter (\<lambda>j. V s SEC_DIR_START ! (32 * j) \<noteq> 0) [0..<16])" using first by simp
  then have ne: "sector_entries (V s SEC_DIR_START) \<noteq> []"
    unfolding sector_entries_def by (metis empty_iff list.set(1) map_is_Nil_conv)
  obtain es s3 where es: "list_loop dev ss 0 (sector_entries (V s SEC_DIR_START)) s2 = (Ok es, s3)" "es \<noteq> []"
    using list_loop_nonempty [OF s2(2) _ ne, of ss 0] secs unfolding ss by (auto elim: outcomeE)
  then have "list_loop dev dir_sectors 0 [] s1 = (Ok es, s3)"
    using s2(1) ne by (simp add: ss)
  then show ?thesis
    using s1(1) dir es(2) by (cases p) (simp add: remove_def ok_or_def list_dir_def)
qed

end

end
