(* ===== verification/Kn_Blk.thy ===== *)
theory Kn_Blk
  imports Kn_Disk Rv_Virtio
begin

text \<open>
  The kernel's virtio block driver (\<^verbatim>\<open>kernel/src/virtio_blk.rs\<close>) on the split virtqueue of \<^verbatim>\<open>kernel/src/virtio_net.rs\<close>,
  connected to the model of the device it drives (\<open>Rv_Virtio\<close>) through the guest memory and the device registers.

  The state is the driver's own fields, the device and the memory they share.  The descriptor table and the rings are
  references into \<open>BLK_QUEUE_MEM\<close> in the source and addresses here; \<open>blk_layout\<close> holds the addresses the linker and the
  stack give to the statics and to the caller's buffer.  A memory or register access that the machine answers with a
  fault does not return to the driver: its outcome is \<open>Panic\<close>.  The loop that polls the used ring is a
  \<open>partial_function\<close>; not returning is \<open>None\<close>, which the driver propagates as \<open>Panic\<close> too.
\<close>

unbundle bit_operations_syntax

subsection \<open>State\<close>

record virt_queue =
  vq_desc :: u64
  vq_avail :: u64
  vq_used :: u64
  free_head :: u16
  num_free :: u16
  last_used_idx :: u16
  queue_idx :: u16

record blk_driver =
  vb_base :: u64
  vb_queue :: virt_queue
  vb_capacity :: u64

record blk_sys =
  bs_drv :: blk_driver
  bs_dev :: virtio_block
  bs_mem :: dram

record blk_layout =
  BLK_QUEUE_MEM :: u64
  REQ_HDR :: u64
  REQ_STATUS :: u64
  BUF :: u64

abbreviation queue :: "blk_sys \<Rightarrow> virt_queue" where
  "queue s \<equiv> vb_queue (bs_drv s)"

definition upd_queue :: "(virt_queue \<Rightarrow> virt_queue) \<Rightarrow> blk_sys \<Rightarrow> blk_sys" where
  "upd_queue f s = s\<lparr> bs_drv := (bs_drv s)\<lparr> vb_queue := f (queue s) \<rparr> \<rparr>"

subsection \<open>Memory and registers\<close>

definition mem_load :: "nat \<Rightarrow> u64 \<Rightarrow> blk_sys \<Rightarrow> (u64, error) result \<times> blk_sys" where
  "mem_load n addr s =
     (case phys_to_offset addr of
        Ok off \<Rightarrow> (case load_n n (bs_mem s) off of Ok v \<Rightarrow> (Ok v, s) | _ \<Rightarrow> (Panic, s))
      | _ \<Rightarrow> (Panic, s))"

definition mem_store :: "nat \<Rightarrow> u64 \<Rightarrow> u64 \<Rightarrow> blk_sys \<Rightarrow> (unit, error) result \<times> blk_sys" where
  "mem_store n addr v s =
     (case phys_to_offset addr of
        Ok off \<Rightarrow> (case store_n n off v (bs_mem s) of
                     (Ok _, m) \<Rightarrow> (Ok (), s\<lparr> bs_mem := m \<rparr>) | _ \<Rightarrow> (Panic, s))
      | _ \<Rightarrow> (Panic, s))"

definition read32 :: "u64 \<Rightarrow> blk_sys \<Rightarrow> (u32, error) result \<times> blk_sys" where
  "read32 offset s =
     (case block_read offset (bs_dev s) of
        (Ok v, d) \<Rightarrow> (Ok (low32 v), s\<lparr> bs_dev := d \<rparr>) | (_, d) \<Rightarrow> (Panic, s\<lparr> bs_dev := d \<rparr>))"

definition write32 :: "u64 \<Rightarrow> u32 \<Rightarrow> blk_sys \<Rightarrow> (unit, error) result \<times> blk_sys" where
  "write32 offset val s =
     (case block_write offset (zext32 val) (bs_dev s, bs_mem s) of
        (Ok _, d, m) \<Rightarrow> (Ok (), s\<lparr> bs_dev := d, bs_mem := m \<rparr>)
      | (_, d, m) \<Rightarrow> (Panic, s\<lparr> bs_dev := d, bs_mem := m \<rparr>))"

subsection \<open>The virtqueue\<close>

text \<open>The fields of a descriptor, \<open>self.desc[i]\<close>; indexing the table of 16 panics outside it.\<close>

definition desc_field :: "u16 \<Rightarrow> u64 \<Rightarrow> blk_sys \<Rightarrow> u64" where
  "desc_field i k s = vq_desc (queue s) + zext16 i * 16 + k"

definition store_desc :: "nat \<Rightarrow> u16 \<Rightarrow> u64 \<Rightarrow> u64 \<Rightarrow> blk_sys \<Rightarrow> (unit, error) result \<times> blk_sys" where
  "store_desc n i k v s = (if i < 16 then mem_store n (desc_field i k s) v s else (Panic, s))"

primrec init_free_list :: "nat list \<Rightarrow> blk_sys \<Rightarrow> (unit, error) result \<times> blk_sys" where
  "init_free_list [] s = (Ok (), s)"
| "init_free_list (i # is) s =
     bindS (store_desc 2 (word_of_nat i) 14 (word_of_nat i + 1) s) (\<lambda>_ s. init_free_list is s)"

definition virt_queue_new :: "u64 \<Rightarrow> u16 \<Rightarrow> blk_sys \<Rightarrow> (unit, error) result \<times> blk_sys" where
  "virt_queue_new mem qi s =
     (let avail_end = mem + (16 * 16 + 6 + 2 * 16);
          used_start = (avail_end + 4096 - 1) AND NOT (4096 - 1)
      in init_free_list [0..<16] (upd_queue (\<lambda>_. \<lparr> vq_desc = mem, vq_avail = mem + 16 * 16, vq_used = used_start,
           free_head = 0, num_free = 16, last_used_idx = 0, queue_idx = qi \<rparr>) s))"

definition alloc_desc :: "blk_sys \<Rightarrow> (u16, unit) result \<times> blk_sys" where
  "alloc_desc s =
     (if num_free (queue s) = 0 then (Err (), s)
      else
        let idx = free_head (queue s) in
        if idx < 16 then
          matchS (mem_load 2 (desc_field idx 14 s) s)
            (\<lambda>nxt s. (Ok idx, upd_queue (\<lambda>q. q\<lparr> free_head := low16 nxt, num_free := num_free q - 1 \<rparr>) s))
            (\<lambda>_ s. (Panic, s)) id
        else (Panic, s))"

definition free_desc :: "u16 \<Rightarrow> blk_sys \<Rightarrow> (unit, error) result \<times> blk_sys" where
  "free_desc idx s =
     bindS (store_desc 2 idx 14 (zext16 (free_head (queue s))) s) (\<lambda>_ s.
       (Ok (), upd_queue (\<lambda>q. q\<lparr> free_head := idx, num_free := num_free q + 1 \<rparr>) s))"

definition push_avail :: "u16 \<Rightarrow> blk_sys \<Rightarrow> (unit, error) result \<times> blk_sys" where
  "push_avail desc_idx s =
     bindS (mem_load 2 (vq_avail (queue s) + 2) s) (\<lambda>avail_idx s.
     bindS (mem_store 2 (vq_avail (queue s) + 4 + (avail_idx mod 16) * 2) (zext16 desc_idx) s) (\<lambda>_ s.
       mem_store 2 (vq_avail (queue s) + 2) (zext16 (low16 avail_idx + 1)) s))"

definition has_used :: "blk_sys \<Rightarrow> (bool, error) result \<times> blk_sys" where
  "has_used s =
     bindS (mem_load 2 (vq_used (queue s) + 2) s) (\<lambda>used_idx s. (Ok (last_used_idx (queue s) \<noteq> low16 used_idx), s))"

definition pop_used :: "blk_sys \<Rightarrow> ((u16 \<times> u32) option, error) result \<times> blk_sys" where
  "pop_used s =
     bindS (mem_load 2 (vq_used (queue s) + 2) s) (\<lambda>used_idx s.
       if last_used_idx (queue s) = low16 used_idx then (Ok None, s)
       else
         let elem = vq_used (queue s) + 4 + (zext16 (last_used_idx (queue s)) mod 16) * 8 in
         bindS (mem_load 4 elem s) (\<lambda>ident s.
         bindS (mem_load 4 (elem + 4) s) (\<lambda>len s.
           (Ok (Some (low16 ident, low32 len)),
            upd_queue (\<lambda>q. q\<lparr> last_used_idx := last_used_idx q + 1 \<rparr>) s))))"

subsection \<open>The driver\<close>

text \<open>\<open>probe\<close> looks for the device in the eight slots; \<open>rd\<close> is the 32-bit read of a device register.\<close>

abbreviation VIRTIO_BASE :: u64 where "VIRTIO_BASE \<equiv> 0x10001000"
abbreviation VIRTIO_STRIDE :: u64 where "VIRTIO_STRIDE \<equiv> 0x1000"

definition blk_init :: "blk_layout \<Rightarrow> blk_sys \<Rightarrow> (unit, error) result \<times> blk_sys" where
  "blk_init lay s =
     bindS (write32 0x070 0 s) (\<lambda>_ s.
     bindS (write32 0x070 (1 OR 2) s) (\<lambda>_ s.
     bindS (read32 0x100 s) (\<lambda>cap_low s.
     bindS (read32 0x104 s) (\<lambda>cap_high s.
     let s = s\<lparr> bs_drv := (bs_drv s)\<lparr> vb_capacity := zext32 cap_low OR shl (zext32 cap_high) 32 \<rparr> \<rparr> in
     bindS (write32 0x028 4096 s) (\<lambda>_ s.
     bindS (write32 0x030 0 s) (\<lambda>_ s.
     bindS (write32 0x038 16 s) (\<lambda>_ s.
     bindS (write32 0x040 (low32 (BLK_QUEUE_MEM lay div 4096)) s) (\<lambda>_ s.
       write32 0x070 (1 OR 2 OR 4 OR 8) s))))))))"

definition blk_new :: "blk_layout \<Rightarrow> u64 \<Rightarrow> blk_sys \<Rightarrow> (unit, error) result \<times> blk_sys" where
  "blk_new lay base s =
     bindS (virt_queue_new (BLK_QUEUE_MEM lay) 0
       (s\<lparr> bs_drv := (bs_drv s)\<lparr> vb_base := base, vb_capacity := 0 \<rparr> \<rparr>)) (\<lambda>_ s. blk_init lay s)"

primrec probe_slots :: "(u64 \<Rightarrow> u32) \<Rightarrow> nat list \<Rightarrow> u64 option" where
  "probe_slots rd [] = None"
| "probe_slots rd (i # is) =
     (let addr = VIRTIO_BASE + word_of_nat i * VIRTIO_STRIDE in
      if rd (addr + 0x00) = 0x74726976 \<and> rd (addr + 0x08) = VIRTIO_BLK_DEVICE_ID then Some addr
      else probe_slots rd is)"

definition probe :: "blk_layout \<Rightarrow> (u64 \<Rightarrow> u32) \<Rightarrow> blk_sys \<Rightarrow> (bool, error) result \<times> blk_sys" where
  "probe lay rd s =
     (case probe_slots rd [0..<8] of
        None \<Rightarrow> (Ok False, s)
      | Some base \<Rightarrow> bindS (blk_new lay base s) (\<lambda>_ s. (Ok True, s)))"

partial_function (option) poll_used :: "blk_sys \<Rightarrow> ((unit, error) result \<times> blk_sys) option" where
  "poll_used s =
     (case has_used s of
        (Ok b, s) \<Rightarrow> if b then Some (Ok (), s) else poll_used s
      | (Err e, s) \<Rightarrow> Some (Err e, s)
      | (Panic, s) \<Rightarrow> Some (Panic, s))"

definition wait_used :: "blk_sys \<Rightarrow> (unit, error) result \<times> blk_sys" where
  "wait_used s = (case poll_used s of Some r \<Rightarrow> r | None \<Rightarrow> (Panic, s))"

definition alloc_or_no_desc :: "blk_sys \<Rightarrow> (u16, error) result \<times> blk_sys" where
  "alloc_or_no_desc s = matchS (alloc_desc s) (\<lambda>i s. (Ok i, s)) (\<lambda>_ s. (Err ''No desc'', s)) id"

definition fill_header :: "blk_layout \<Rightarrow> u64 \<Rightarrow> bool \<Rightarrow> blk_sys \<Rightarrow> (unit, error) result \<times> blk_sys" where
  "fill_header lay sector is_write s =
     bindS (mem_store 4 (REQ_HDR lay) (if is_write then 1 else 0) s) (\<lambda>_ s.
     bindS (mem_store 4 (REQ_HDR lay + 4) 0 s) (\<lambda>_ s.
       mem_store 8 (REQ_HDR lay + 8) sector s))"

definition fill_desc :: "u16 \<Rightarrow> u64 \<Rightarrow> u64 \<Rightarrow> u64 \<Rightarrow> blk_sys \<Rightarrow> (unit, error) result \<times> blk_sys" where
  "fill_desc i addr len flags s =
     bindS (store_desc 8 i 0 addr s) (\<lambda>_ s.
     bindS (store_desc 4 i 8 len s) (\<lambda>_ s.
       store_desc 2 i 12 flags s))"

definition op_sector :: "blk_layout \<Rightarrow> u64 \<Rightarrow> nat \<Rightarrow> bool \<Rightarrow> blk_sys \<Rightarrow> (unit, error) result \<times> blk_sys" where
  "op_sector lay sector buf_len is_write s =
     (if buf_len \<noteq> 512 then (Err ''Buffer must be 512 bytes'', s)
      else
        bindS (alloc_or_no_desc s) (\<lambda>head_idx s.
        bindS (alloc_or_no_desc s) (\<lambda>data_idx s.
        bindS (alloc_or_no_desc s) (\<lambda>status_idx s.
        bindS (fill_header lay sector is_write s) (\<lambda>_ s.
        bindS (fill_desc head_idx (REQ_HDR lay) 16 1 s) (\<lambda>_ s.
        bindS (store_desc 2 head_idx 14 (zext16 data_idx) s) (\<lambda>_ s.
        bindS (fill_desc data_idx (BUF lay) 512 (1 OR (if is_write then 0 else 2)) s) (\<lambda>_ s.
        bindS (store_desc 2 data_idx 14 (zext16 status_idx) s) (\<lambda>_ s.
        bindS (fill_desc status_idx (REQ_STATUS lay) 1 2 s) (\<lambda>_ s.
        bindS (push_avail head_idx s) (\<lambda>_ s.
        bindS (write32 0x050 0 s) (\<lambda>_ s.
        bindS (wait_used s) (\<lambda>_ s.
        bindS (pop_used s) (\<lambda>_ s.
        bindS (free_desc head_idx s) (\<lambda>_ s.
        bindS (free_desc data_idx s) (\<lambda>_ s.
        bindS (free_desc status_idx s) (\<lambda>_ s.
        bindS (mem_load 1 (REQ_STATUS lay) s) (\<lambda>status s.
          (if status = 0 then Ok () else Err ''IO Error'', s)))))))))))))))))))"

text \<open>The two methods the kernel calls.  The caller's buffer is the memory at \<open>BUF\<close>: its contents are placed there before the
  call, and what it holds afterwards is the result of a read.\<close>

definition place :: "u64 \<Rightarrow> u8 list \<Rightarrow> blk_sys \<Rightarrow> (unit, error) result \<times> blk_sys" where
  "place addr bs s =
     (case phys_to_offset addr of
        Ok off \<Rightarrow> (case write_bytes off bs (bs_mem s) of
                     (Ok _, m) \<Rightarrow> (Ok (), s\<lparr> bs_mem := m \<rparr>) | _ \<Rightarrow> (Panic, s))
      | _ \<Rightarrow> (Panic, s))"

definition blk_read_sector :: "blk_layout \<Rightarrow> u64 \<Rightarrow> u8 list \<Rightarrow> blk_sys \<Rightarrow> (u8 list, error) result \<times> blk_sys" where
  "blk_read_sector lay sector buf s =
     bindS (place (BUF lay) buf s) (\<lambda>_ s.
     bindS (op_sector lay sector (length buf) False s) (\<lambda>_ s.
       (Ok (buffer (bs_mem s) (BUF lay) (word_of_nat (length buf))), s)))"

definition blk_write_sector :: "blk_layout \<Rightarrow> u64 \<Rightarrow> u8 list \<Rightarrow> blk_sys \<Rightarrow> (unit, error) result \<times> blk_sys" where
  "blk_write_sector lay sector buf s =
     bindS (place (BUF lay) buf s) (\<lambda>_ s. op_sector lay sector 512 True s)"

definition virtio_blk :: "blk_layout \<Rightarrow> blk_sys blk_ops" where
  "virtio_blk lay = \<lparr> read_sector = blk_read_sector lay, write_sector = blk_write_sector lay \<rparr>"

end
