(* ===== verification/Kn_Blk_Spec.thy ===== *)
theory Kn_Blk_Spec
  imports Kn_Blk Rv_Dma
begin

text \<open>
  The virtio block driver together with the device is a block device: a sector read returns the bytes of the disk
  image, a sector write replaces them, the polling loop ends after the notification, and the three descriptors return to the free list.

  The invariant \<open>blk_good\<close> says that driver and device agree on the place of the rings (\<open>wired\<close>), that the statics and the
  caller's buffer are disjoint pieces of memory (\<open>lay_ok\<close>), that at least three descriptors are free, and that each side has seen
  everything the other has put into the rings.  \<open>new\<close> establishes it and \<open>op_sector\<close> keeps it.  The interpretation \<open>virtio\<close>
  discharges the laws of \<open>block_dev\<close> for the driver on the device.
\<close>

unbundle bit_operations_syntax

subsection \<open>Accesses of the driver\<close>

lemma mem_load_span:
  assumes "span (bs_mem s) a N" "unat k + n \<le> N" "n \<in> {1, 2, 4, 8}" "unat k mod n = 0" "8 dvd offs a \<or> n = 1"
  shows "mem_load n (a + k) s = (Ok (peek n (offs a + unat k) (bs_mem s)), s)"
  using load_in_range [OF assms(3) span_in_range(1) [OF assms]] span_offset(1) [OF assms(1), of k] assms(2)
    span_in_range(2) [OF assms]
  by (simp add: mem_load_def peek_def)

lemma mem_store_span:
  assumes "span (bs_mem s) a N" "unat k + n \<le> N" "n \<in> {1, 2, 4, 8}" "unat k mod n = 0" "8 dvd offs a \<or> n = 1"
  shows "mem_store n (a + k) v s = (Ok (), s\<lparr> bs_mem := poke n (offs a + unat k) v (bs_mem s) \<rparr>)"
  using store_in_range [OF assms(3) span_in_range(1) [OF assms]] span_offset(1) [OF assms(1), of k] assms(2)
    span_in_range(2) [OF assms]
  by (simp add: mem_store_def poke_def)

subsection \<open>The layout\<close>

abbreviation q0 :: "blk_layout \<Rightarrow> nat" where "q0 lay \<equiv> offs (BLK_QUEUE_MEM lay)"

definition queue_region :: "blk_layout \<Rightarrow> nat set" where
  "queue_region lay = {q0 lay..<q0 lay + 8192}"

definition hdr_region :: "blk_layout \<Rightarrow> nat set" where
  "hdr_region lay = {offs (REQ_HDR lay)..<offs (REQ_HDR lay) + 16}"

definition status_region :: "blk_layout \<Rightarrow> nat set" where
  "status_region lay = {offs (REQ_STATUS lay)..<offs (REQ_STATUS lay) + 1}"

definition buf_region :: "blk_layout \<Rightarrow> nat set" where
  "buf_region lay = {offs (BUF lay)..<offs (BUF lay) + 512}"

lemmas region_defs = queue_region_def hdr_region_def status_region_def buf_region_def

text \<open>The statics and the buffer are disjoint pieces of memory with the alignment of their types.\<close>

definition lay_ok :: "blk_layout \<Rightarrow> dram \<Rightarrow> bool" where
  "lay_ok lay m \<longleftrightarrow>
     span m (BLK_QUEUE_MEM lay) 8192 \<and> 4096 dvd q0 lay \<and>
     span m (REQ_HDR lay) 16 \<and> 8 dvd offs (REQ_HDR lay) \<and>
     span m (REQ_STATUS lay) 1 \<and> span m (BUF lay) 512 \<and>
     queue_region lay \<inter> hdr_region lay = {} \<and> queue_region lay \<inter> status_region lay = {} \<and>
     queue_region lay \<inter> buf_region lay = {} \<and> hdr_region lay \<inter> status_region lay = {} \<and>
     hdr_region lay \<inter> buf_region lay = {} \<and> status_region lay \<inter> buf_region lay = {}"

lemma lay_ok_changes: "changes S m m' \<Longrightarrow> lay_ok lay m' = lay_ok lay m"
  by (simp add: lay_ok_def changes_span)

text \<open>The driver, the device and the layout agree on where the rings are.\<close>

definition wired :: "blk_layout \<Rightarrow> blk_sys \<Rightarrow> bool" where
  "wired lay s \<longleftrightarrow> lay_ok lay (bs_mem s) \<and>
     vq_desc (queue s) = BLK_QUEUE_MEM lay \<and> vq_avail (queue s) = BLK_QUEUE_MEM lay + 256 \<and>
     vq_used (queue s) = BLK_QUEUE_MEM lay + 4096 \<and>
     queue_num (bs_dev s) = 16 \<and> queue_desc (bs_dev s) = BLK_QUEUE_MEM lay \<and>
     queue_avail (bs_dev s) = BLK_QUEUE_MEM lay + 256 \<and> queue_used (bs_dev s) = BLK_QUEUE_MEM lay + 4096"

lemma wired_mem: "wired lay s \<Longrightarrow> changes S (bs_mem s) m \<Longrightarrow> wired lay (s\<lparr> bs_mem := m \<rparr>)"
  by (simp add: wired_def lay_ok_changes)

lemma queue_access_at:
  assumes "lay_ok lay (bs_mem s)" "unat k + n \<le> 8192" "n \<in> {1, 2, 4, 8}" "unat k mod n = 0"
  shows "mem_load n (BLK_QUEUE_MEM lay + k) s = (Ok (peek n (q0 lay + unat k) (bs_mem s)), s)"
    "mem_store n (BLK_QUEUE_MEM lay + k) v s = (Ok (), s\<lparr> bs_mem := poke n (q0 lay + unat k) v (bs_mem s) \<rparr>)"
proof -
  have "8 dvd q0 lay" using assms(1) dvd_trans [of 8 4096 "q0 lay"] by (simp add: lay_ok_def)
  then show "mem_load n (BLK_QUEUE_MEM lay + k) s = (Ok (peek n (q0 lay + unat k) (bs_mem s)), s)"
    "mem_store n (BLK_QUEUE_MEM lay + k) v s = (Ok (), s\<lparr> bs_mem := poke n (q0 lay + unat k) v (bs_mem s) \<rparr>)"
    using assms mem_load_span [of s "BLK_QUEUE_MEM lay" 8192 k n] mem_store_span [of s "BLK_QUEUE_MEM lay" 8192 k n]
    by (simp_all add: lay_ok_def)
qed

lemma wired_lay: "wired lay s \<Longrightarrow> lay_ok lay (bs_mem s)" "wired lay s \<Longrightarrow> vq_desc (queue s) = BLK_QUEUE_MEM lay"
  by (simp_all add: wired_def)

lemmas queue_access = queue_access_at [OF wired_lay(1)]

subsection \<open>Descriptors\<close>

lemma unat_small_mult: "unat x < 2 ^ 16 \<Longrightarrow> unat (x * 16) = 16 * unat x" "unat x < 2 ^ 16 \<Longrightarrow> unat (x * 8) = 8 * unat x"
  "unat x < 2 ^ 16 \<Longrightarrow> unat (x * 2) = 2 * unat x" for x :: u64
  by (simp_all add: unat_word_ariths)

definition dpos :: "blk_layout \<Rightarrow> u16 \<Rightarrow> nat \<Rightarrow> nat" where
  "dpos lay i k = q0 lay + (16 * unat i + k)"

definition desc_region :: "blk_layout \<Rightarrow> u16 \<Rightarrow> nat set" where
  "desc_region lay i = {dpos lay i 0..<dpos lay i 16}"

definition next_of :: "blk_layout \<Rightarrow> dram \<Rightarrow> u16 \<Rightarrow> u16" where
  "next_of lay m i = low16 (peek 2 (dpos lay i 14) m)"

definition desc_is :: "blk_layout \<Rightarrow> dram \<Rightarrow> u16 \<Rightarrow> u64 \<Rightarrow> u64 \<Rightarrow> u64 \<Rightarrow> bool" where
  "desc_is lay m i addr len flags \<longleftrightarrow> peek 8 (dpos lay i 0) m = addr \<and> peek 4 (dpos lay i 8) m = len \<and>
     peek 2 (dpos lay i 12) m = flags"

lemma desc_index:
  assumes "i < (16 :: u16)" "unat k < 16"
  shows "unat (zext16 i * 16 + k) = 16 * unat i + unat k"
proof -
  have "unat i < 16" using assms(1) by (simp add: word_less_nat_alt)
  then show ?thesis using assms(2) by (simp add: unat_small_mult unat_zext16 unat_add_small)
qed

lemma desc_access_at:
  assumes "lay_ok lay (bs_mem s)" "vq_desc (queue s) = BLK_QUEUE_MEM lay" "i < 16" "unat k + n \<le> 16" "n \<in> {2, 4, 8}" "unat k mod n = 0"
  shows "mem_load n (desc_field i k s) s = (Ok (peek n (dpos lay i (unat k)) (bs_mem s)), s)"
    "store_desc n i k v s = (Ok (), s\<lparr> bs_mem := poke n (dpos lay i (unat k)) v (bs_mem s) \<rparr>)"
proof -
  have i: "unat i < 16" using assms(3) by (simp add: word_less_nat_alt)
  have k: "unat (zext16 i * 16 + k) = 16 * unat i + unat k" using assms by (intro desc_index) auto
  have d: "desc_field i k s = BLK_QUEUE_MEM lay + (zext16 i * 16 + k)"
    using assms(2) by (simp add: desc_field_def add.assoc)
  have "(16 * unat i + unat k) mod n = 0" using assms(5,6) by (auto simp: mod_0_imp_dvd intro!: dvd_add)
  then show "mem_load n (desc_field i k s) s = (Ok (peek n (dpos lay i (unat k)) (bs_mem s)), s)"
    "store_desc n i k v s = (Ok (), s\<lparr> bs_mem := poke n (dpos lay i (unat k)) v (bs_mem s) \<rparr>)"
    using queue_access_at [OF assms(1), of "zext16 i * 16 + k" n] k i assms(3-5)
    unfolding d store_desc_def dpos_def by auto
qed

lemma desc_access:
  assumes "wired lay s" "i < 16" "unat k + n \<le> 16" "n \<in> {2, 4, 8}" "unat k mod n = 0"
  shows "mem_load n (desc_field i k s) s = (Ok (peek n (dpos lay i (unat k)) (bs_mem s)), s)"
    "store_desc n i k v s = (Ok (), s\<lparr> bs_mem := poke n (dpos lay i (unat k)) v (bs_mem s) \<rparr>)"
  using desc_access_at [OF wired_lay [OF assms(1)] assms(2-)] by blast+

lemma peek_poke_other: "{i..<i + n} \<inter> {j..<j + k} = {} \<Longrightarrow> peek n i (poke k j v m) = peek n i m"
  by (rule changes_peek [OF changes_poke])

lemma take_bit_small [simp]:
  "take_bit 64 (v :: u64) = v" "(v :: u64) < 2 ^ 32 \<Longrightarrow> take_bit 32 v = v" "(v :: u64) < 2 ^ 16 \<Longrightarrow> take_bit 16 v = v"
proof -
  have "take_bit LENGTH(64) v = v" by (rule take_bit_length_eq)
  then show "take_bit 64 v = v" by simp
  show "v < 2 ^ 32 \<Longrightarrow> take_bit 32 v = v" "v < 2 ^ 16 \<Longrightarrow> take_bit 16 v = v"
    by (simp_all add: take_bit_eq_mod word_unat_eq_iff unat_mod word_less_nat_alt)
qed

lemma fill_desc_spec:
  assumes "wired lay s" "i < 16" "len < 2 ^ 32" "flags < 2 ^ 16"
  shows "\<exists>m. fill_desc i addr len flags s = (Ok (), s\<lparr> bs_mem := m \<rparr>) \<and> desc_is lay m i addr len flags \<and>
    changes {dpos lay i 0..<dpos lay i 14} (bs_mem s) m"
proof -
  let ?m1 = "poke 8 (dpos lay i 0) addr (bs_mem s)"
  let ?m2 = "poke 4 (dpos lay i 8) len ?m1"
  let ?m3 = "poke 2 (dpos lay i 12) flags ?m2"
  note w = assms(1) wired_mem [OF assms(1), of "{dpos lay i 0..<dpos lay i 0 + 8}" ?m1]
  have w2: "wired lay (s\<lparr> bs_mem := ?m2 \<rparr>)"
    using w(2) wired_mem [of lay "s\<lparr> bs_mem := ?m1 \<rparr>" "{dpos lay i 8..<dpos lay i 8 + 4}" ?m2] by simp
  have "fill_desc i addr len flags s = (Ok (), s\<lparr> bs_mem := ?m3 \<rparr>)"
    unfolding fill_desc_def
    using desc_access(2) [OF w(1) assms(2), of 0 8 addr] desc_access(2) [OF w(2) assms(2), of 8 4 len]
      desc_access(2) [OF w2 assms(2), of 12 2 flags] by simp
  moreover have "desc_is lay ?m3 i addr len flags"
    using assms(3,4) by (simp add: desc_is_def peek_poke_other peek_poke dpos_def take_bit_small)
  moreover have "changes {dpos lay i 0..<dpos lay i 14} (bs_mem s) ?m3"
    by (rule changes_mono [OF changes_trans [OF changes_trans [OF changes_poke changes_poke] changes_poke]])
      (auto simp: dpos_def)
  ultimately show ?thesis by blast
qed

definition hdr_is :: "blk_layout \<Rightarrow> dram \<Rightarrow> bool \<Rightarrow> u64 \<Rightarrow> bool" where
  "hdr_is lay m is_write sector \<longleftrightarrow> (let h = offs (REQ_HDR lay) in
     peek 4 h m = (if is_write then 1 else 0) \<and> peek 4 (h + 4) m = 0 \<and> peek 8 (h + 8) m = sector)"

lemma fill_header_spec:
  assumes "wired lay s"
  shows "\<exists>m. fill_header lay sector is_write s = (Ok (), s\<lparr> bs_mem := m \<rparr>) \<and> hdr_is lay m is_write sector \<and>
    changes (hdr_region lay) (bs_mem s) m"
proof -
  let ?h = "offs (REQ_HDR lay)"
  let ?m1 = "poke 4 ?h (if is_write then 1 else 0) (bs_mem s)"
  let ?m2 = "poke 4 (?h + 4) 0 ?m1"
  let ?m3 = "poke 8 (?h + 8) sector ?m2"
  have sp: "span (bs_mem s) (REQ_HDR lay) 16" "8 dvd ?h" using assms by (simp_all add: wired_def lay_ok_def)
  have "fill_header lay sector is_write s = (Ok (), s\<lparr> bs_mem := ?m3 \<rparr>)"
    using mem_store_span [of s "REQ_HDR lay" 16 0 4] mem_store_span [of "s\<lparr> bs_mem := ?m1 \<rparr>" "REQ_HDR lay" 16 4 4]
      mem_store_span [of "s\<lparr> bs_mem := ?m2 \<rparr>" "REQ_HDR lay" 16 8 8] sp
    by (simp add: fill_header_def)
  moreover have "hdr_is lay ?m3 is_write sector"
    by (simp add: hdr_is_def Let_def peek_poke_other peek_poke take_bit_small)
  moreover have "changes (hdr_region lay) (bs_mem s) ?m3"
    by (rule changes_mono [OF changes_trans [OF changes_trans [OF changes_poke changes_poke] changes_poke]])
      (auto simp: hdr_region_def)
  ultimately show ?thesis by blast
qed

primrec free_chain :: "(u16 \<Rightarrow> u16) \<Rightarrow> u16 \<Rightarrow> u16 list \<Rightarrow> bool" where
  "free_chain nxt h [] = True"
| "free_chain nxt h (x # xs) = (h = x \<and> free_chain nxt (nxt x) xs)"

lemma free_chain_cong: "(\<And>x. x \<in> set xs \<Longrightarrow> nxt x = nxt' x) \<Longrightarrow> free_chain nxt h xs = free_chain nxt' h xs"
  by (induction xs arbitrary: h) auto

definition take_free :: "u16 \<Rightarrow> virt_queue \<Rightarrow> virt_queue" where
  "take_free nxt q = q\<lparr> free_head := nxt, num_free := num_free q - 1 \<rparr>"

lemma alloc_desc_spec:
  assumes "wired lay s" "i < 16" "free_head (queue s) = i" "num_free (queue s) \<noteq> 0"
  shows "alloc_desc s = (Ok i, upd_queue (take_free (next_of lay (bs_mem s) i)) s)"
  using assms desc_access(1) [OF assms(1,2), of 14 2]
  by (simp add: alloc_desc_def alloc_or_no_desc_def next_of_def upd_queue_def take_free_def)

lemma wired_upd_queue [simp]: "wired lay (upd_queue (take_free n) s) = wired lay s"
  by (simp add: wired_def upd_queue_def take_free_def)

subsection \<open>Rings\<close>

definition avail_idx :: "blk_layout \<Rightarrow> dram \<Rightarrow> u16" where
  "avail_idx lay m = low16 (peek 2 (q0 lay + 258) m)"

definition avail_slot :: "blk_layout \<Rightarrow> dram \<Rightarrow> u16 \<Rightarrow> u16" where
  "avail_slot lay m i = low16 (peek 2 (q0 lay + (260 + 2 * (unat i mod 16))) m)"

definition used_idx :: "blk_layout \<Rightarrow> dram \<Rightarrow> u16" where
  "used_idx lay m = low16 (peek 2 (q0 lay + 4098) m)"

lemma peek_zext: "peek 2 i m = zext16 (low16 (peek 2 i m))" "peek 4 i m = zext32 (low32 (peek 4 i m))"
  by (simp_all only: peek_def le_read_bound)

lemma low16_zext16 [simp]: "low16 (zext16 i) = i" "take_bit 16 (zext16 i) = zext16 i"
  by (rule bit_word_eqI; simp add: bitx bit_take_bit_iff; auto dest: bit_imp_le_length)+

lemma unat_mod16: "unat (zext16 i mod 16) = unat i mod 16" "unat (zext16 i mod 16 * 2) = 2 * (unat i mod 16)"
  "unat (zext16 i mod 16 * 8) = 8 * (unat i mod 16)"
proof -
  show 1: "unat (zext16 i mod 16) = unat i mod 16" by (simp add: unat_mod unat_zext16)
  have "unat i mod 16 < 16" by simp
  with 1 show "unat (zext16 i mod 16 * 2) = 2 * (unat i mod 16)" "unat (zext16 i mod 16 * 8) = 8 * (unat i mod 16)"
    using unat_small_mult(2,3) [of "zext16 i mod 16"] by simp_all
qed

lemma unat_const_add: "unat (k :: u64) + unat x < 2 ^ 32 \<Longrightarrow> unat (k + x) = unat k + unat x"
  by (simp add: unat_add_small)

lemma ring_pos: "unat (260 + zext16 i mod 16 * 2) = 260 + 2 * (unat i mod 16)"
  "unat (4100 + zext16 i mod 16 * 8) = 4100 + 8 * (unat i mod 16)"
proof -
  have "unat i mod 16 < 16" by simp
  then show "unat (260 + zext16 i mod 16 * 2) = 260 + 2 * (unat i mod 16)"
    "unat (4100 + zext16 i mod 16 * 8) = 4100 + 8 * (unat i mod 16)"
    using unat_const_add [of 260 "zext16 i mod 16 * 2"] unat_const_add [of 4100 "zext16 i mod 16 * 8"]
    by (simp_all add: unat_mod16)
qed

lemma push_avail_spec:
  assumes "wired lay s"
  defines "i \<equiv> avail_idx lay (bs_mem s)"
  shows "\<exists>m. push_avail head s = (Ok (), s\<lparr> bs_mem := m \<rparr>) \<and> avail_idx lay m = i + 1 \<and> avail_slot lay m i = head \<and>
    changes {q0 lay + 256..<q0 lay + 294} (bs_mem s) m"
proof -
  let ?p = "q0 lay + (260 + 2 * (unat i mod 16))"
  let ?m1 = "poke 2 ?p (zext16 head) (bs_mem s)"
  let ?m2 = "poke 2 (q0 lay + 258) (zext16 (i + 1)) ?m1"
  have b: "unat i mod 16 < 16" by simp
  have q: "vq_avail (queue s) + 2 = BLK_QUEUE_MEM lay + 258"
    "vq_avail (queue s) + 4 + x = BLK_QUEUE_MEM lay + (260 + x)" for x
    using assms(1) by (simp_all add: wired_def)
  have i: "peek 2 (q0 lay + 258) (bs_mem s) = zext16 i"
    by (subst peek_zext) (simp add: i_def avail_idx_def)
  have w1: "wired lay (s\<lparr> bs_mem := ?m1 \<rparr>)" using wired_mem [OF assms(1) changes_poke] .
  have "unat (260 + zext16 i mod 16 * 2) + 2 \<le> 8192" "unat (260 + zext16 i mod 16 * 2) mod 2 = 0"
    using b by (simp_all add: ring_pos)
  then have "push_avail head s = (Ok (), s\<lparr> bs_mem := ?m2 \<rparr>)"
    unfolding push_avail_def
    using queue_access(1) [OF assms(1), of 258 2] queue_access(2) [OF assms(1), of "260 + zext16 i mod 16 * 2" 2]
      queue_access(2) [OF w1, of 258 2]
    by (simp add: q i ring_pos)
  moreover have "avail_idx lay ?m2 = i + 1" by (simp add: avail_idx_def peek_poke)
  moreover have "avail_slot lay ?m2 i = head" by (simp add: avail_slot_def peek_poke peek_poke_other)
  moreover have "changes {q0 lay + 256..<q0 lay + 294} (bs_mem s) ?m2"
    by (rule changes_mono [OF changes_trans [OF changes_poke changes_poke]]) (use b in auto)
  ultimately show ?thesis by blast
qed

lemma has_used_spec:
  assumes "wired lay s" "last_used_idx (queue s) \<noteq> used_idx lay (bs_mem s)"
  shows "wait_used s = (Ok (), s)"
    "\<exists>r. pop_used s = (Ok r, upd_queue (\<lambda>q. q\<lparr> last_used_idx := last_used_idx q + 1 \<rparr>) s)"
proof -
  let ?i = "last_used_idx (queue s)"
  have b: "unat ?i mod 16 < 16" by simp
  have q: "vq_used (queue s) + 2 = BLK_QUEUE_MEM lay + 4098"
    "vq_used (queue s) + 4 + x = BLK_QUEUE_MEM lay + (4100 + x)"
    "BLK_QUEUE_MEM lay + (4100 + x) + 4 = BLK_QUEUE_MEM lay + (4104 + x)" for x
    using assms(1) by (simp_all add: wired_def)
  have l: "mem_load 2 (BLK_QUEUE_MEM lay + 4098) s = (Ok (peek 2 (q0 lay + 4098) (bs_mem s)), s)"
    using queue_access(1) [OF assms(1), of 4098 2] by simp
  then have "has_used s = (Ok True, s)"
    using assms(2) by (simp add: has_used_def q used_idx_def)
  then show "wait_used s = (Ok (), s)" by (subst wait_used_def, subst poll_used.simps) simp
  have u: "unat (4104 + zext16 ?i mod 16 * 8) = 4104 + 8 * (unat ?i mod 16)"
    using b unat_const_add [of 4104 "zext16 ?i mod 16 * 8"] by (simp add: unat_mod16)
  have "unat (4100 + zext16 ?i mod 16 * 8) + 4 \<le> 8192" "unat (4100 + zext16 ?i mod 16 * 8) mod 4 = 0"
    "unat (4104 + zext16 ?i mod 16 * 8) + 4 \<le> 8192" "unat (4104 + zext16 ?i mod 16 * 8) mod 4 = 0"
    using b u by (simp_all add: ring_pos mod_0_imp_dvd)
  then show "\<exists>r. pop_used s = (Ok r, upd_queue (\<lambda>q. q\<lparr> last_used_idx := last_used_idx q + 1 \<rparr>) s)"
    unfolding pop_used_def q(1) l bindS_simps
    using assms(2) queue_access(1) [OF assms(1), of "4100 + zext16 ?i mod 16 * 8" 4]
      queue_access(1) [OF assms(1), of "4104 + zext16 ?i mod 16 * 8" 4]
    by (simp add: q(2,3) used_idx_def Let_def)
qed

subsection \<open>The device serves a request\<close>

lemma dev_load_at:
  assumes "span m a N" "8 dvd offs a" "unat k + n \<le> N" "unat k mod n = 0" "b = a + k"
  shows "n = 2 \<Longrightarrow> load_16 m (b - DRAM_BASE) = Ok (low16 (peek 2 (offs a + unat k) m))"
    "n = 4 \<Longrightarrow> load_32 m (b - DRAM_BASE) = Ok (low32 (peek 4 (offs a + unat k) m))"
    "n = 8 \<Longrightarrow> load_64 m (b - DRAM_BASE) = Ok (peek 8 (offs a + unat k) m)"
  using dev_load_span [OF assms(1,3) _ assms(4)] assms(2,5) by auto

lemma lay_ok_aligned: "lay_ok lay m \<Longrightarrow> 8 dvd q0 lay"
  using dvd_trans [of 8 4096 "q0 lay"] by (simp add: lay_ok_def)

lemma dev_desc:
  assumes "lay_ok lay m" "i < 16"
  defines "off \<equiv> BLK_QUEUE_MEM lay + zext16 i * 16 - DRAM_BASE"
  shows "phys_to_offset (BLK_QUEUE_MEM lay + zext16 i * 16) = Ok off"
    "load_64 m off = Ok (peek 8 (dpos lay i 0) m)"
    "load_32 m (off + 8) = Ok (low32 (peek 4 (dpos lay i 8) m))"
    "load_16 m (off + 12) = Ok (low16 (peek 2 (dpos lay i 12) m))"
    "load_16 m (off + 14) = Ok (next_of lay m i)"
proof -
  have i: "unat i < 16" using assms(2) by (simp add: word_less_nat_alt)
  have k: "unat (zext16 i * 16 + k) = 16 * unat i + unat k" if "unat k < 16" for k
    using desc_index [OF assms(2) that] .
  have sp: "span m (BLK_QUEUE_MEM lay) 8192" using assms(1) by (simp add: lay_ok_def)
  note a = dev_load_at [OF sp lay_ok_aligned [OF assms(1)], of "zext16 i * 16 + _", OF _ _ refl]
  have o: "off + k = BLK_QUEUE_MEM lay + (zext16 i * 16 + k) - DRAM_BASE" for k by (simp add: off_def)
  show "phys_to_offset (BLK_QUEUE_MEM lay + zext16 i * 16) = Ok off"
    using span_offset(1) [OF sp, of "zext16 i * 16"] k [of 0] i by (simp add: off_def)
  show "load_64 m off = Ok (peek 8 (dpos lay i 0) m)"
    using a(3) [of 0 8] k [of 0] i o [of 0] by (simp add: dpos_def mod_0_imp_dvd)
  show "load_32 m (off + 8) = Ok (low32 (peek 4 (dpos lay i 8) m))"
    unfolding o using a(2) [of 8 4] k [of 8] i by (simp add: dpos_def mod_0_imp_dvd)
  show "load_16 m (off + 12) = Ok (low16 (peek 2 (dpos lay i 12) m))"
    unfolding o using a(1) [of 12 2] k [of 12] i by (simp add: dpos_def mod_0_imp_dvd)
  show "load_16 m (off + 14) = Ok (next_of lay m i)"
    unfolding o using a(1) [of 14 2] k [of 14] i by (simp add: dpos_def next_of_def mod_0_imp_dvd)
qed

lemma push_used_spec:
  assumes "lay_ok lay m" "queue_used d = BLK_QUEUE_MEM lay + 4096"
  shows "\<exists>m'. push_used (queue_used d) 16 head len m = (Ok (), m') \<and> used_idx lay m' = used_idx lay m + 1 \<and>
    changes {q0 lay + 4096..<q0 lay + 8192} m m'"
proof -
  let ?u = "BLK_QUEUE_MEM lay + 4096"
  have sp: "span m (BLK_QUEUE_MEM lay) 8192" using assms(1) by (simp add: lay_ok_def)
  have o: "offs ?u = q0 lay + 4096" using span_offset(2) [OF sp, of 4096] by simp
  have "DRAM_BASE \<le> ?u" using span_offset(1) [OF sp, of 4096] by (auto simp: phys_to_offset_def not_less split: if_splits)
  then have u: "span m ?u (4 + 8 * unat (16 :: u64))" using sp by (simp add: span_def o)
  have al: "8 dvd offs ?u" using lay_ok_aligned [OF assms(1)] by (simp add: o)
  define i where "i = used_idx lay m"
  have i: "low16 (peek 2 (offs ?u + 2) m) = i" by (simp add: i_def used_idx_def o add.commute)
  let ?e = "offs ?u + 4 + 8 * (unat i mod unat (16 :: u64))"
  let ?m = "poke 2 (offs ?u + 2) (zext16 (i + 1)) (poke 4 (?e + 4) (zext32 len) (poke 4 ?e (zext16 head) m))"
  have "push_used (queue_used d) 16 head len m = (Ok (), ?m)"
    unfolding assms(2) using push_used_span [OF u al, of head len, unfolded i] by simp
  moreover have "used_idx lay ?m = used_idx lay m + 1" by (simp add: used_idx_def o peek_poke i_def add.commute)
  moreover have "changes {q0 lay + 4096..<q0 lay + 8192} m ?m"
    by (rule changes_mono [OF changes_trans [OF changes_trans [OF changes_poke changes_poke] changes_poke]]) (auto simp: o)
  ultimately show ?thesis by blast
qed

definition sector_of :: "u8 list \<Rightarrow> u64 \<Rightarrow> u8 list" where
  "sector_of d sector = take 512 (drop (unat sector * 512) d)"

definition put_sector :: "u8 list \<Rightarrow> u64 \<Rightarrow> u8 list \<Rightarrow> u8 list" where
  "put_sector d sector b = take (unat sector * 512) d @ b @ drop (unat sector * 512 + 512) d"

definition transferred :: "blk_layout \<Rightarrow> bool \<Rightarrow> u64 \<Rightarrow> u8 list \<Rightarrow> dram \<Rightarrow> u8 list" where
  "transferred lay is_write sector d m = (if is_write then put_sector d sector (buffer m (BUF lay) 512) else d)"

definition delivered :: "blk_layout \<Rightarrow> bool \<Rightarrow> u64 \<Rightarrow> u8 list \<Rightarrow> dram \<Rightarrow> bool" where
  "delivered lay is_write sector d m \<longleftrightarrow> is_write \<or> buffer m (BUF lay) 512 = sector_of d sector"

lemma span_in_dram: "span m a (unat len) \<Longrightarrow> in_dram m a len"
  by (simp add: span_def in_dram_def offs_def)

lemma buffer_changes:
  assumes "changes S m m'" "S \<inter> buf_region lay = {}"
  shows "buffer m' (BUF lay) 512 = buffer m (BUF lay) 512"
proof -
  have "dram_data m' j = dram_data m j" if "j \<in> buf_region lay" for j
    using assms that by (auto simp: changes_def)
  then show ?thesis by (auto simp: buffer_def buf_region_def offs_def)
qed

lemma transfer_spec:
  assumes "lay_ok lay m" "on_disk d sector 512" "length d < 2 ^ 64"
  shows "\<exists>m'. block_transfer (if is_write then 1 else 0) sector (BUF lay) 512 (d, m) =
      (Ok 512, transferred lay is_write sector d m, m') \<and>
    changes (buf_region lay) m m' \<and> delivered lay is_write sector d m'"
proof -
  have b: "in_dram m (BUF lay) 512" using assms(1) by (intro span_in_dram) (simp add: lay_ok_def)
  show ?thesis
  proof (cases is_write)
    case True
    then show ?thesis
      using block_transfer_write [OF assms(2,3) b] by (simp add: transferred_def delivered_def put_sector_def)
  next
    case False
    let ?bs = "take 512 (drop (unat sector * 512) d)"
    let ?m = "m\<lparr> dram_data := copy_in ?bs (dram_data m) (offs (BUF lay)) \<rparr>"
    have l: "length ?bs = 512" using assms(2) by (simp add: on_disk_def)
    have "changes (buf_region lay) m ?m"
      using l by (auto simp: changes_def copy_in_def buf_region_def)
    moreover have "buffer ?m (BUF lay) 512 = ?bs"
      using buffer_copy_in [of ?bs 512 "dram_data m" "BUF lay" m] l by (simp add: offs_def)
    ultimately show ?thesis using False block_transfer_read [OF assms(2,3) b]
      by (auto simp: transferred_def delivered_def sector_of_def offs_def)
  qed
qed

text \<open>The chain of three descriptors that \<open>op_sector\<close> builds.\<close>

definition request :: "blk_layout \<Rightarrow> dram \<Rightarrow> bool \<Rightarrow> u64 \<Rightarrow> u16 \<Rightarrow> u16 \<Rightarrow> u16 \<Rightarrow> bool" where
  "request lay m is_write sector hi da st \<longleftrightarrow>
     hi < 16 \<and> da < 16 \<and> st < 16 \<and> hdr_is lay m is_write sector \<and>
     desc_is lay m hi (REQ_HDR lay) 16 1 \<and> next_of lay m hi = da \<and>
     desc_is lay m da (BUF lay) 512 (1 OR (if is_write then 0 else 2)) \<and> next_of lay m da = st \<and>
     desc_is lay m st (REQ_STATUS lay) 1 2"

lemma desc_pos_queue: "i < 16 \<Longrightarrow> k + n \<le> 16 \<Longrightarrow> {dpos lay i k..<dpos lay i k + n} \<subseteq> queue_region lay"
  by (auto simp: dpos_def queue_region_def word_less_nat_alt)

lemma peek_desc_changes:
  assumes "changes S m m'" "queue_region lay \<inter> S = {}" "i < 16" "k + n \<le> 16"
  shows "peek n (dpos lay i k) m' = peek n (dpos lay i k) m"
  using desc_pos_queue [OF assms(3,4)] assms(2) by (intro changes_peek [OF assms(1)]) blast

lemma block_chain_spec:
  assumes "lay_ok lay m" "request lay m is_write sector hi da st" "queue_desc s = BLK_QUEUE_MEM lay"
    and "on_disk d sector 512" "length d < 2 ^ 64"
  shows "\<exists>m'. block_chain s da (if is_write then 1 else 0) sector (d, m) =
      (Ok 512, transferred lay is_write sector d m, m') \<and>
    changes (buf_region lay \<union> status_region lay) m m' \<and> delivered lay is_write sector d m' \<and>
    peek 1 (offs (REQ_STATUS lay)) m' = 0"
proof -
  note r = assms(2) [unfolded request_def desc_is_def]
  obtain m1 where m1: "block_transfer (if is_write then 1 else 0) sector (BUF lay) 512 (d, m) =
      (Ok 512, transferred lay is_write sector d m, m1)" "changes (buf_region lay) m m1" "delivered lay is_write sector d m1"
    using transfer_spec [OF assms(1,4,5), of is_write] by blast
  let ?m2 = "poke 1 (offs (REQ_STATUS lay)) 0 m1"
  have l1: "lay_ok lay m1" using lay_ok_changes [OF m1(2)] assms(1) by simp
  then have s: "span m1 (REQ_STATUS lay) 1" "queue_region lay \<inter> buf_region lay = {}"
    "status_region lay \<inter> buf_region lay = {}" by (auto simp: lay_ok_def)
  have st: "store_8 (REQ_STATUS lay - DRAM_BASE) 0 m1 = (Ok (), ?m2)" "phys_to_offset (REQ_STATUS lay) = Ok (REQ_STATUS lay - DRAM_BASE)"
    using dev_store_span [OF s(1), of 0 1 0] span_offset(1) [OF s(1), of 0] by (simp_all add: store_n_def)
  have d3: "load_64 m1 (BLK_QUEUE_MEM lay + zext16 st * 16 - DRAM_BASE) = Ok (REQ_STATUS lay)"
    using dev_desc(2) [OF l1, of st] r peek_desc_changes [OF m1(2) s(2), of st 0 8] by simp
  have f: "zext16 (low16 (1 OR (if is_write then 0 else 2))) AND VRING_DESC_F_NEXT \<noteq> 0"
    by simp
  have "block_chain s da (if is_write then 1 else 0) sector (d, m) = (Ok 512, transferred lay is_write sector d m, ?m2)"
    unfolding block_chain_def assms(3) using r f dev_desc [OF assms(1), of da] dev_desc(1) [OF assms(1), of st] m1(1) d3 st
    by simp
  moreover have "changes (buf_region lay \<union> status_region lay) m ?m2"
    unfolding status_region_def by (rule changes_trans [OF m1(2) changes_poke])
  moreover have "delivered lay is_write sector d ?m2"
    using m1(3) s(3) buffer_changes [OF changes_poke, of "offs (REQ_STATUS lay)" 1 lay]
    by (simp add: delivered_def status_region_def)
  moreover have "peek 1 (offs (REQ_STATUS lay)) ?m2 = 0" by (simp add: peek_poke)
  ultimately show ?thesis by blast
qed

definition io_region :: "blk_layout \<Rightarrow> nat set" where
  "io_region lay = buf_region lay \<union> status_region lay \<union> {q0 lay + 4096..<q0 lay + 8192}"

lemma hdr_loads:
  assumes "lay_ok lay m" "hdr_is lay m is_write sector"
  shows "phys_to_offset (REQ_HDR lay) = Ok (REQ_HDR lay - DRAM_BASE)"
    "load_32 m (REQ_HDR lay - DRAM_BASE) = Ok (if is_write then 1 else 0)"
    "load_32 m (REQ_HDR lay - DRAM_BASE + 4) = Ok 0"
    "load_64 m (REQ_HDR lay - DRAM_BASE + 8) = Ok sector"
proof -
  have sp: "span m (REQ_HDR lay) 16" "8 dvd offs (REQ_HDR lay)" using assms(1) by (simp_all add: lay_ok_def)
  have o: "REQ_HDR lay - DRAM_BASE + k = REQ_HDR lay + k - DRAM_BASE" for k by simp
  note l = dev_load_at [OF sp, OF _ _ refl]
  show "phys_to_offset (REQ_HDR lay) = Ok (REQ_HDR lay - DRAM_BASE)" using span_offset(1) [OF sp(1), of 0] by simp
  show "load_32 m (REQ_HDR lay - DRAM_BASE) = Ok (if is_write then 1 else 0)"
    using l(2) [of 0 4] assms(2) by (simp add: hdr_is_def Let_def)
  show "load_32 m (REQ_HDR lay - DRAM_BASE + 4) = Ok 0" "load_64 m (REQ_HDR lay - DRAM_BASE + 8) = Ok sector"
    unfolding o using l(2) [of 4 4] l(3) [of 8 8] assms(2) by (simp_all add: hdr_is_def Let_def)
qed

lemma avail_slot_load:
  assumes "lay_ok lay m"
  shows "load16_at (BLK_QUEUE_MEM lay + 256 + 4 + zext32 (ucast i mod 16) * 2) m = (Ok (avail_slot lay m i), m)"
    "load16_at (BLK_QUEUE_MEM lay + 256 + 2) m = (Ok (avail_idx lay m), m)"
proof -
  have sp: "span m (BLK_QUEUE_MEM lay) 8192" using assms by (simp add: lay_ok_def)
  note al = lay_ok_aligned [OF assms]
  have b: "unat i mod 16 < 16" by simp
  have "unat i < 2 ^ LENGTH(16)" by (rule unsigned_less)
  then have unat_u32: "unat (ucast i :: u32) = unat i"
    by (simp add: unsigned_ucast_eq take_bit_nat_eq_self)
  have "zext32 (ucast i mod 16) = zext16 i mod 16"
    by (simp add: word_unat_eq_iff unat_zext32 unat_mod unat_zext16 unat_u32)
  then have q: "BLK_QUEUE_MEM lay + 256 + 4 + zext32 (ucast i mod 16) * 2 = BLK_QUEUE_MEM lay + (260 + zext16 i mod 16 * 2)"
    "BLK_QUEUE_MEM lay + 256 + 2 = BLK_QUEUE_MEM lay + 258" by simp_all
  show "load16_at (BLK_QUEUE_MEM lay + 256 + 4 + zext32 (ucast i mod 16) * 2) m = (Ok (avail_slot lay m i), m)"
    unfolding q load16_at_def
    using span_offset(1) [OF sp, of "260 + zext16 i mod 16 * 2"] dev_load_at(1) [OF sp al, of "260 + zext16 i mod 16 * 2" 2] b
    by (simp add: ring_pos avail_slot_def)
  show "load16_at (BLK_QUEUE_MEM lay + 256 + 2) m = (Ok (avail_idx lay m), m)"
    unfolding q load16_at_def using span_offset(1) [OF sp, of 258] dev_load_at(1) [OF sp al, of 258 2]
    by (simp add: avail_idx_def)
qed

lemma peek_queue_changes:
  assumes "changes S m m'" "queue_region lay \<inter> S = {}" "k + n \<le> 8192"
  shows "peek n (q0 lay + k) m' = peek n (q0 lay + k) m"
proof (rule changes_peek [OF assms(1)])
  have "{q0 lay + k..<q0 lay + k + n} \<subseteq> queue_region lay" using assms(3) by (auto simp: queue_region_def)
  then show "{q0 lay + k..<q0 lay + k + n} \<inter> S = {}" using assms(2) by blast
qed

lemma used_region: "{q0 lay + 4096..<q0 lay + 8192} \<subseteq> queue_region lay"
  by (auto simp: queue_region_def)

lemma block_serve_spec:
  assumes "lay_ok lay m" "request lay m is_write sector hi da st" "avail_slot lay m (last_avail_idx s) = hi"
    and regs: "queue_num s = 16" "queue_desc s = BLK_QUEUE_MEM lay" "queue_avail s = BLK_QUEUE_MEM lay + 256"
      "queue_used s = BLK_QUEUE_MEM lay + 4096"
    and "on_disk d sector 512" "length d < 2 ^ 64"
  shows "\<exists>m'. block_serve s (d, m) = (Ok (), transferred lay is_write sector d m, m') \<and>
    changes (io_region lay) m m' \<and> delivered lay is_write sector d m' \<and>
    peek 1 (offs (REQ_STATUS lay)) m' = 0 \<and> used_idx lay m' = used_idx lay m + 1"
proof -
  note r = assms(2) [unfolded request_def desc_is_def]
  obtain m1 where m1: "block_chain s da (if is_write then 1 else 0) sector (d, m) = (Ok 512, transferred lay is_write sector d m, m1)"
    "changes (buf_region lay \<union> status_region lay) m m1" "delivered lay is_write sector d m1"
    "peek 1 (offs (REQ_STATUS lay)) m1 = 0"
    using block_chain_spec [OF assms(1,2) regs(2) assms(8,9)] by blast
  have l1: "lay_ok lay m1" using lay_ok_changes [OF m1(2)] assms(1) by simp
  obtain m2 where m2: "push_used (queue_used s) 16 hi 512 m1 = (Ok (), m2)" "used_idx lay m2 = used_idx lay m1 + 1"
    "changes {q0 lay + 4096..<q0 lay + 8192} m1 m2"
    using push_used_spec [OF l1 regs(4)] by blast
  have dj: "queue_region lay \<inter> status_region lay = {}" "queue_region lay \<inter> buf_region lay = {}"
    using l1 by (simp_all add: lay_ok_def)
  have dj2: "status_region lay \<inter> {q0 lay + 4096..<q0 lay + 8192} = {}" "{q0 lay + 4096..<q0 lay + 8192} \<inter> buf_region lay = {}"
    using dj used_region [of lay] by blast+
  have u: "used_idx lay m1 = used_idx lay m"
    using peek_queue_changes [OF m1(2), of lay 4098 2] dj by (simp add: used_idx_def Int_Un_distrib)
  have "block_serve s (d, m) = (Ok (), transferred lay is_write sector d m, m2)"
    unfolding block_serve_def Let_def block_qsz_def regs
    using r dev_desc [OF assms(1), of hi] hdr_loads [OF assms(1), of is_write sector] avail_slot_load(1) [OF assms(1), of "last_avail_idx s"]
      assms(3) m1(1) m2(1) [unfolded regs(4)]
    by simp
  moreover have "changes (io_region lay) m m2"
    unfolding io_region_def by (rule changes_trans [OF m1(2) m2(3)])
  moreover have "delivered lay is_write sector d m2"
    using m1(3) buffer_changes [OF m2(3) dj2(2)] unfolding delivered_def by simp
  moreover have "peek 1 (offs (REQ_STATUS lay)) m2 = 0"
    using m1(4) changes_peek [OF m2(3) dj2(1) [unfolded status_region_def]] by simp
  ultimately show ?thesis using m2(2) u by auto
qed

text \<open>The notification runs the device, which answers the one request in the ring.\<close>

lemma notify_spec:
  assumes "wired lay s" "request lay (bs_mem s) is_write sector hi da st"
    and "avail_slot lay (bs_mem s) (last_avail_idx (bs_dev s)) = hi"
    and "avail_idx lay (bs_mem s) = last_avail_idx (bs_dev s) + 1"
    and "on_disk (disk (bs_dev s)) sector 512" "length (disk (bs_dev s)) < 2 ^ 64"
  shows "\<exists>m is. write32 0x050 0 s = (Ok (), s\<lparr> bs_dev := (bs_dev s)\<lparr>
        disk := transferred lay is_write sector (disk (bs_dev s)) (bs_mem s),
        last_avail_idx := last_avail_idx (bs_dev s) + 1, interrupt_status := is \<rparr>, bs_mem := m \<rparr>) \<and>
    changes (io_region lay) (bs_mem s) m \<and> delivered lay is_write sector (disk (bs_dev s)) m \<and>
    peek 1 (offs (REQ_STATUS lay)) m = 0 \<and> used_idx lay m = used_idx lay (bs_mem s) + 1"
proof -
  let ?d = "bs_dev s"
  let ?d' = "?d\<lparr> disk := transferred lay is_write sector (disk ?d) (bs_mem s), last_avail_idx := last_avail_idx ?d + 1 \<rparr>"
  have w: "lay_ok lay (bs_mem s)" "queue_num ?d = 16" "queue_desc ?d = BLK_QUEUE_MEM lay"
    "queue_avail ?d = BLK_QUEUE_MEM lay + 256" "queue_used ?d = BLK_QUEUE_MEM lay + 4096"
    using assms(1) by (simp_all add: wired_def)
  obtain m where m: "block_serve ?d (disk ?d, bs_mem s) = (Ok (), transferred lay is_write sector (disk ?d) (bs_mem s), m)"
    "changes (io_region lay) (bs_mem s) m" "delivered lay is_write sector (disk ?d) m"
    "peek 1 (offs (REQ_STATUS lay)) m = 0" "used_idx lay m = used_idx lay (bs_mem s) + 1"
    using block_serve_spec [OF w(1) assms(2,3) w(2-5) assms(5,6)] by blast
  have ne: "last_avail_idx ?d \<noteq> last_avail_idx ?d + 1" by simp
  have "block_loop (last_avail_idx ?d + 1) (?d', m) = (Ok (), ?d', m)"
    by (subst block_loop.simps) simp
  then have "block_loop (last_avail_idx ?d + 1) (?d, bs_mem s) = (Ok (), ?d', m)"
    by (subst block_loop.simps) (simp add: m(1))
  then have "block_process_queue (?d, bs_mem s) =
      (Ok (), ?d'\<lparr> interrupt_status := interrupt_status ?d OR 1 \<rparr>, m)"
    using avail_slot_load(2) [OF w(1)] by (simp add: block_process_queue_def w(4) assms(4))
  then show ?thesis using m(2-) by (auto simp: write32_def block_write_def)
qed

subsection \<open>The driver submits a request\<close>

lemma desc_region_disjoint: "i \<noteq> j \<Longrightarrow> desc_region lay i \<inter> desc_region lay j = {}"
proof -
  assume "i \<noteq> j"
  then have ne: "unat i \<noteq> unat j" by simp
  have "(x - q0 lay) div 16 = unat i" if "x \<in> desc_region lay i" for x i
    using that by (auto simp: desc_region_def dpos_def)
  with ne show ?thesis by (metis disjoint_iff)
qed

lemma desc_region_queue: "i < 16 \<Longrightarrow> desc_region lay i \<subseteq> {q0 lay..<q0 lay + 256}"
  by (auto simp: desc_region_def dpos_def word_less_nat_alt)

lemma peek_desc:
  assumes "changes S m m'" "desc_region lay i \<inter> S = {}" "k + n \<le> 16"
  shows "peek n (dpos lay i k) m' = peek n (dpos lay i k) m"
proof (rule changes_peek [OF assms(1)])
  have "{dpos lay i k..<dpos lay i k + n} \<subseteq> desc_region lay i" using assms(3) by (auto simp: desc_region_def dpos_def)
  then show "{dpos lay i k..<dpos lay i k + n} \<inter> S = {}" using assms(2) by blast
qed

lemma desc_keeps:
  assumes "changes S m m'" "desc_region lay i \<inter> S = {}"
  shows "desc_is lay m' i a l f = desc_is lay m i a l f" "next_of lay m' i = next_of lay m i"
  using peek_desc [OF assms] by (simp_all add: desc_is_def next_of_def)

lemma hdr_keeps:
  assumes "changes S m m'" "hdr_region lay \<inter> S = {}"
  shows "hdr_is lay m' w sector = hdr_is lay m w sector"
proof -
  have "peek n (offs (REQ_HDR lay) + k) m' = peek n (offs (REQ_HDR lay) + k) m" if "k + n \<le> 16" for k n
  proof (rule changes_peek [OF assms(1)])
    have "{offs (REQ_HDR lay) + k..<offs (REQ_HDR lay) + k + n} \<subseteq> hdr_region lay" using that by (auto simp: hdr_region_def)
    then show "{offs (REQ_HDR lay) + k..<offs (REQ_HDR lay) + k + n} \<inter> S = {}" using assms(2) by blast
  qed
  from this [of 0 4] this [of 4 4] this [of 8 8] show ?thesis by (simp add: hdr_is_def Let_def)
qed

lemma fill_linked_spec:
  assumes "wired lay s" "i < 16" "len < 2 ^ 32" "flags < 2 ^ 16"
  shows "\<exists>m m'. fill_desc i addr len flags s = (Ok (), s\<lparr> bs_mem := m \<rparr>) \<and>
    store_desc 2 i 14 (zext16 nx) (s\<lparr> bs_mem := m \<rparr>) = (Ok (), s\<lparr> bs_mem := m' \<rparr>) \<and>
    desc_is lay m' i addr len flags \<and> next_of lay m' i = nx \<and> changes (desc_region lay i) (bs_mem s) m'"
proof -
  obtain m where m: "fill_desc i addr len flags s = (Ok (), s\<lparr> bs_mem := m \<rparr>)" "desc_is lay m i addr len flags"
    "changes {dpos lay i 0..<dpos lay i 14} (bs_mem s) m"
    using fill_desc_spec [OF assms] by blast
  let ?m = "poke 2 (dpos lay i 14) (zext16 nx) m"
  have "wired lay (s\<lparr> bs_mem := m \<rparr>)" using wired_mem [OF assms(1) m(3)] .
  then have "store_desc 2 i 14 (zext16 nx) (s\<lparr> bs_mem := m \<rparr>) = (Ok (), s\<lparr> bs_mem := ?m \<rparr>)"
    using desc_access(2) [of lay "s\<lparr> bs_mem := m \<rparr>" i 14 2] assms(2) by simp
  moreover have "desc_is lay ?m i addr len flags"
    using m(2) by (simp add: desc_is_def peek_poke_other dpos_def)
  moreover have "next_of lay ?m i = nx" by (simp add: next_of_def peek_poke)
  moreover have "changes (desc_region lay i) (bs_mem s) ?m"
    by (rule changes_mono [OF changes_trans [OF m(3) changes_poke]]) (auto simp: desc_region_def dpos_def)
  ultimately show ?thesis using m(1) by blast
qed

definition submit_region :: "blk_layout \<Rightarrow> u16 \<Rightarrow> u16 \<Rightarrow> u16 \<Rightarrow> nat set" where
  "submit_region lay a b c = hdr_region lay \<union> desc_region lay a \<union> desc_region lay b \<union> desc_region lay c \<union>
     {q0 lay + 256..<q0 lay + 294}"

definition submit :: "blk_layout \<Rightarrow> u64 \<Rightarrow> bool \<Rightarrow> u16 \<Rightarrow> u16 \<Rightarrow> u16 \<Rightarrow> blk_sys \<Rightarrow> (unit, error) result \<times> blk_sys" where
  "submit lay sector is_write a b c s =
     bindS (fill_header lay sector is_write s) (\<lambda>_ s.
     bindS (fill_desc a (REQ_HDR lay) 16 1 s) (\<lambda>_ s.
     bindS (store_desc 2 a 14 (zext16 b) s) (\<lambda>_ s.
     bindS (fill_desc b (BUF lay) 512 (1 OR (if is_write then 0 else 2)) s) (\<lambda>_ s.
     bindS (store_desc 2 b 14 (zext16 c) s) (\<lambda>_ s.
     bindS (fill_desc c (REQ_STATUS lay) 1 2 s) (\<lambda>_ s. push_avail a s))))))"

lemma ring_disjoint: "i < 16 \<Longrightarrow> desc_region lay i \<inter> {q0 lay + 256..<q0 lay + 294} = {}"
  using desc_region_queue [of i lay] by fastforce

lemma hdr_disjoint:
  assumes "lay_ok lay m"
  shows "i < 16 \<Longrightarrow> hdr_region lay \<inter> desc_region lay i = {}"
    "hdr_region lay \<inter> {q0 lay + 256..<q0 lay + 294} = {}"
proof -
  have "queue_region lay \<inter> hdr_region lay = {}" using assms by (simp add: lay_ok_def)
  moreover have "{q0 lay..<q0 lay + 256} \<subseteq> queue_region lay" "{q0 lay + 256..<q0 lay + 294} \<subseteq> queue_region lay"
    by (auto simp: queue_region_def)
  ultimately show "i < 16 \<Longrightarrow> hdr_region lay \<inter> desc_region lay i = {}"
    "hdr_region lay \<inter> {q0 lay + 256..<q0 lay + 294} = {}"
    using desc_region_queue [of i lay] by blast+
qed

lemma submit_spec:
  assumes w: "wired lay s" and lt: "a < 16" "b < 16" "c < 16" and ne: "a \<noteq> b" "a \<noteq> c" "b \<noteq> c"
  defines "i \<equiv> avail_idx lay (bs_mem s)"
  shows "\<exists>m. submit lay sector is_write a b c s = (Ok (), s\<lparr> bs_mem := m \<rparr>) \<and>
    request lay m is_write sector a b c \<and> avail_idx lay m = i + 1 \<and> avail_slot lay m i = a \<and>
    changes (submit_region lay a b c) (bs_mem s) m"
proof -
  have lay: "lay_ok lay (bs_mem s)" using w by (simp add: wired_def)
  obtain m1 where m1: "fill_header lay sector is_write s = (Ok (), s\<lparr> bs_mem := m1 \<rparr>)"
    "hdr_is lay m1 is_write sector" "changes (hdr_region lay) (bs_mem s) m1"
    using fill_header_spec [OF w] by blast
  note w1 = wired_mem [OF w m1(3)]
  obtain m2 m3 where m3: "fill_desc a (REQ_HDR lay) 16 1 (s\<lparr> bs_mem := m1 \<rparr>) = (Ok (), s\<lparr> bs_mem := m2 \<rparr>)"
    "store_desc 2 a 14 (zext16 b) (s\<lparr> bs_mem := m2 \<rparr>) = (Ok (), s\<lparr> bs_mem := m3 \<rparr>)"
    "desc_is lay m3 a (REQ_HDR lay) 16 1" "next_of lay m3 a = b" "changes (desc_region lay a) m1 m3"
    using fill_linked_spec [OF w1 lt(1), of 16 1 "REQ_HDR lay" b] by auto
  have w3: "wired lay (s\<lparr> bs_mem := m3 \<rparr>)" using wired_mem [OF w1, of _ m3] m3(5) by simp
  let ?f = "1 OR (if is_write then 0 else 2) :: u64"
  have "?f < 2 ^ 16" by simp
  then obtain m4 m5 where m5: "fill_desc b (BUF lay) 512 ?f (s\<lparr> bs_mem := m3 \<rparr>) = (Ok (), s\<lparr> bs_mem := m4 \<rparr>)"
    "store_desc 2 b 14 (zext16 c) (s\<lparr> bs_mem := m4 \<rparr>) = (Ok (), s\<lparr> bs_mem := m5 \<rparr>)"
    "desc_is lay m5 b (BUF lay) 512 ?f" "next_of lay m5 b = c" "changes (desc_region lay b) m3 m5"
    using fill_linked_spec [OF w3 lt(2), of 512 ?f "BUF lay" c] by auto
  have w5: "wired lay (s\<lparr> bs_mem := m5 \<rparr>)" using wired_mem [OF w3, of _ m5] m5(5) by simp
  obtain m6 where m6: "fill_desc c (REQ_STATUS lay) 1 2 (s\<lparr> bs_mem := m5 \<rparr>) = (Ok (), s\<lparr> bs_mem := m6 \<rparr>)"
    "desc_is lay m6 c (REQ_STATUS lay) 1 2" "changes {dpos lay c 0..<dpos lay c 14} m5 m6"
    using fill_desc_spec [OF w5 lt(3), of 1 2 "REQ_STATUS lay"] by auto
  have c6: "changes (desc_region lay c) m5 m6"
    by (rule changes_mono [OF m6(3)]) (auto simp: desc_region_def dpos_def)
  have w6: "wired lay (s\<lparr> bs_mem := m6 \<rparr>)" using wired_mem [OF w5, of _ m6] c6 by simp
  obtain m7 where m7: "push_avail a (s\<lparr> bs_mem := m6 \<rparr>) = (Ok (), s\<lparr> bs_mem := m7 \<rparr>)"
    "avail_idx lay m7 = avail_idx lay m6 + 1" "avail_slot lay m7 (avail_idx lay m6) = a"
    "changes {q0 lay + 256..<q0 lay + 294} m6 m7"
    using push_avail_spec [OF w6, of a] by auto
  have all: "changes (submit_region lay a b c) (bs_mem s) m7"
    unfolding submit_region_def
    by (rule changes_trans [OF changes_trans [OF changes_trans [OF changes_trans [OF m1(3) m3(5)] m5(5)] c6] m7(4)])
  have "changes (hdr_region lay \<union> desc_region lay a \<union> desc_region lay b \<union> desc_region lay c) (bs_mem s) m6"
    by (rule changes_trans [OF changes_trans [OF changes_trans [OF m1(3) m3(5)] m5(5)] c6])
  then have "avail_idx lay m6 = i"
    unfolding i_def avail_idx_def using hdr_disjoint(2) [OF lay] ring_disjoint [OF lt(1), of lay]
      ring_disjoint [OF lt(2), of lay] ring_disjoint [OF lt(3), of lay]
    by (subst changes_peek) (assumption, fastforce, rule refl)
  moreover have "request lay m7 is_write sector a b c"
    using m1(2) m3(3,4) m5(3,4) m6(2) lt desc_keeps [OF m7(4) ring_disjoint] desc_keeps [OF c6 desc_region_disjoint]
      desc_keeps [OF m5(5) desc_region_disjoint] ne
      hdr_keeps [OF m7(4) hdr_disjoint(2) [OF lay]] hdr_keeps [OF c6 hdr_disjoint(1) [OF lay]]
      hdr_keeps [OF m5(5) hdr_disjoint(1) [OF lay]] hdr_keeps [OF m3(5) hdr_disjoint(1) [OF lay]]
    unfolding request_def by auto
  ultimately show ?thesis
    unfolding submit_def using m1(1) m3(1,2) m5(1,2) m6(1) m7(1-3) all by auto
qed

subsection \<open>The free list\<close>

definition free_list :: "blk_layout \<Rightarrow> blk_sys \<Rightarrow> u16 list \<Rightarrow> bool" where
  "free_list lay s xs \<longleftrightarrow> distinct xs \<and> (\<forall>x\<in>set xs. x < 16) \<and> length xs = unat (num_free (queue s)) \<and>
     free_chain (next_of lay (bs_mem s)) (free_head (queue s)) xs"

lemma alloc_free:
  assumes "wired lay s" "free_list lay s (x # xs)"
  shows "\<exists>n. alloc_or_no_desc s = (Ok x, upd_queue (take_free n) s) \<and> free_list lay (upd_queue (take_free n) s) xs"
proof -
  have x: "x < 16" "free_head (queue s) = x" "Suc (length xs) = unat (num_free (queue s))"
    using assms(2) by (auto simp: free_list_def)
  then have nz: "num_free (queue s) \<noteq> 0" by auto
  let ?s = "upd_queue (take_free (next_of lay (bs_mem s) x)) s"
  have "unat (num_free (queue s) - 1) = length xs" using x(3) nz by (simp add: unat_minus_one)
  then have "free_list lay ?s xs"
    using assms(2) by (simp add: free_list_def upd_queue_def take_free_def)
  then show ?thesis
    using alloc_desc_spec [OF assms(1) x(1,2) nz] by (auto simp: alloc_or_no_desc_def)
qed

lemma length_indices:
  assumes "distinct xs" "\<forall>x\<in>set xs. x < (16 :: u16)"
  shows "length xs \<le> 16"
proof -
  have "distinct (map unat xs)" using assms(1) by (simp add: distinct_map inj_on_def)
  moreover have "set (map unat xs) \<subseteq> {..<16}" using assms(2) by (auto simp: word_less_nat_alt)
  ultimately have "length (map unat xs) \<le> card {..<16 :: nat}"
    by (metis card_mono distinct_card finite_lessThan)
  then show ?thesis by simp
qed

lemma free_desc_free:
  assumes "wired lay s" "free_list lay s xs" "x < 16" "x \<notin> set xs"
  shows "\<exists>m. free_desc x s = (Ok (), upd_queue (\<lambda>q. q\<lparr> free_head := x, num_free := num_free q + 1 \<rparr>) (s\<lparr> bs_mem := m \<rparr>)) \<and>
    free_list lay (upd_queue (\<lambda>q. q\<lparr> free_head := x, num_free := num_free q + 1 \<rparr>) (s\<lparr> bs_mem := m \<rparr>)) (x # xs) \<and>
    changes (desc_region lay x) (bs_mem s) m"
proof -
  let ?m = "poke 2 (dpos lay x 14) (zext16 (free_head (queue s))) (bs_mem s)"
  have fl: "distinct xs" "\<forall>x\<in>set xs. x < 16" "length xs = unat (num_free (queue s))"
    "free_chain (next_of lay (bs_mem s)) (free_head (queue s)) xs" using assms(2) by (simp_all add: free_list_def)
  have ch: "changes (desc_region lay x) (bs_mem s) ?m"
    by (rule changes_mono [OF changes_poke]) (auto simp: desc_region_def dpos_def)
  have "next_of lay ?m y = next_of lay (bs_mem s) y" if "y \<in> set xs" for y
    by (rule desc_keeps(2) [OF ch desc_region_disjoint]) (use that assms(4) in auto)
  then have chain: "free_chain (next_of lay ?m) (free_head (queue s)) xs"
    using free_chain_cong [of xs "next_of lay ?m" "next_of lay (bs_mem s)"] fl(4) by auto
  have n: "unat (num_free (queue s) + 1) = Suc (length xs)"
    using length_indices [OF fl(1,2)] fl(3) by (simp add: unat_word_ariths)
  have "next_of lay ?m x = free_head (queue s)" by (simp add: next_of_def peek_poke)
  then have "free_list lay (upd_queue (\<lambda>q. q\<lparr> free_head := x, num_free := num_free q + 1 \<rparr>) (s\<lparr> bs_mem := ?m \<rparr>)) (x # xs)"
    using fl assms(3,4) chain n by (simp add: free_list_def upd_queue_def)
  then show ?thesis
    using desc_access(2) [OF assms(1,3), of 14 2] ch by (auto simp: free_desc_def upd_queue_def)
qed

subsection \<open>The driver performs a request\<close>

definition blk_good :: "blk_layout \<Rightarrow> u64 \<Rightarrow> blk_sys \<Rightarrow> bool" where
  "blk_good lay cap s \<longleftrightarrow> wired lay s \<and> (\<exists>xs. free_list lay s xs \<and> 3 \<le> length xs) \<and>
     avail_idx lay (bs_mem s) = last_avail_idx (bs_dev s) \<and> used_idx lay (bs_mem s) = last_used_idx (queue s) \<and>
     unat cap * 512 \<le> length (disk (bs_dev s)) \<and> length (disk (bs_dev s)) < 2 ^ 64"

definition release :: "blk_layout \<Rightarrow> u16 \<Rightarrow> u16 \<Rightarrow> u16 \<Rightarrow> blk_sys \<Rightarrow> (unit, error) result \<times> blk_sys" where
  "release lay a b c s =
     bindS (free_desc a s) (\<lambda>_ s.
     bindS (free_desc b s) (\<lambda>_ s.
     bindS (free_desc c s) (\<lambda>_ s.
     bindS (mem_load 1 (REQ_STATUS lay) s) (\<lambda>status s.
       (if status = 0 then Ok () else Err ''IO Error'', s)))))"

lemma bindS_assoc: "bindS (bindS m f) g = bindS m (\<lambda>a s. bindS (f a s) g)"
  by (cases m; cases "fst m") (auto simp: bindS_def)

lemma op_sector_steps:
  "op_sector lay sector 512 is_write s =
     bindS (alloc_or_no_desc s) (\<lambda>a s. bindS (alloc_or_no_desc s) (\<lambda>b s. bindS (alloc_or_no_desc s) (\<lambda>c s.
     bindS (submit lay sector is_write a b c s) (\<lambda>_ s.
     bindS (write32 0x050 0 s) (\<lambda>_ s. bindS (wait_used s) (\<lambda>_ s. bindS (pop_used s) (\<lambda>_ s. release lay a b c s)))))))"
  by (simp add: op_sector_def submit_def release_def bindS_assoc)

lemma wired_eq: "wired lay s \<Longrightarrow> changes S (bs_mem s) (bs_mem s') \<Longrightarrow> bs_dev s' = bs_dev s \<Longrightarrow>
    vq_desc (queue s') = vq_desc (queue s) \<Longrightarrow> vq_avail (queue s') = vq_avail (queue s) \<Longrightarrow>
    vq_used (queue s') = vq_used (queue s) \<Longrightarrow> wired lay s'"
  by (simp add: wired_def lay_ok_changes)

lemma release_spec:
  assumes w: "wired lay s" and fl: "free_list lay s xs" and lt: "a < 16" "b < 16" "c < 16"
    and ne: "distinct (c # b # a # xs)" and st: "peek 1 (offs (REQ_STATUS lay)) (bs_mem s) = 0"
  shows "\<exists>s'. release lay a b c s = (Ok (), s') \<and> free_list lay s' (c # b # a # xs) \<and> wired lay s' \<and>
    bs_dev s' = bs_dev s \<and> last_used_idx (queue s') = last_used_idx (queue s) \<and>
    changes {q0 lay..<q0 lay + 256} (bs_mem s) (bs_mem s')"
proof -
  define put where "put x m s = upd_queue (\<lambda>q. q\<lparr> free_head := x, num_free := num_free q + 1 \<rparr>) (s\<lparr> bs_mem := m \<rparr>)" for x m s
  have p: "bs_mem (put x m s) = m" "bs_dev (put x m s) = bs_dev s" "last_used_idx (queue (put x m s)) = last_used_idx (queue s)"
    "vq_desc (queue (put x m s)) = vq_desc (queue s)" "vq_avail (queue (put x m s)) = vq_avail (queue s)"
    "vq_used (queue (put x m s)) = vq_used (queue s)" for x m s
    by (simp_all add: put_def upd_queue_def)
  note f = free_desc_free [folded put_def]
  obtain m1 where m1: "free_desc a s = (Ok (), put a m1 s)" "free_list lay (put a m1 s) (a # xs)"
    "changes (desc_region lay a) (bs_mem s) m1"
    using f [OF w fl lt(1)] ne by auto
  have w1: "wired lay (put a m1 s)" using wired_eq [OF w, of _ "put a m1 s"] m1(3) by (simp add: p)
  obtain m2 where m2: "free_desc b (put a m1 s) = (Ok (), put b m2 (put a m1 s))"
    "free_list lay (put b m2 (put a m1 s)) (b # a # xs)" "changes (desc_region lay b) m1 m2"
    using f [OF w1 m1(2) lt(2)] ne by (auto simp: p)
  have w2: "wired lay (put b m2 (put a m1 s))" using wired_eq [OF w1, of _ "put b m2 (put a m1 s)"] m2(3) by (simp add: p)
  let ?s3 = "\<lambda>m3. put c m3 (put b m2 (put a m1 s))"
  obtain m3 where m3: "free_desc c (put b m2 (put a m1 s)) = (Ok (), ?s3 m3)"
    "free_list lay (?s3 m3) (c # b # a # xs)" "changes (desc_region lay c) m2 m3"
    using f [OF w2 m2(2) lt(3)] ne by (auto simp: p)
  have w3: "wired lay (?s3 m3)" using wired_eq [OF w2, of _ "?s3 m3"] m3(3) by (simp add: p)
  have ch: "changes {q0 lay..<q0 lay + 256} (bs_mem s) m3"
    by (rule changes_mono [OF changes_trans [OF changes_trans [OF m1(3) m2(3)] m3(3)]])
      (use desc_region_queue [OF lt(1), of lay] desc_region_queue [OF lt(2), of lay] desc_region_queue [OF lt(3), of lay] in blast)
  have lay: "span m3 (REQ_STATUS lay) 1" "queue_region lay \<inter> status_region lay = {}"
    using w3 by (simp_all add: wired_def lay_ok_def p)
  moreover have "{q0 lay..<q0 lay + 256} \<subseteq> queue_region lay" by (auto simp: queue_region_def)
  ultimately have "status_region lay \<inter> {q0 lay..<q0 lay + 256} = {}" by blast
  then have "peek 1 (offs (REQ_STATUS lay)) m3 = 0"
    using changes_peek [OF ch, of "offs (REQ_STATUS lay)" 1] st by (simp add: status_region_def)
  then have "mem_load 1 (REQ_STATUS lay) (?s3 m3) = (Ok 0, ?s3 m3)"
    using mem_load_span [of "?s3 m3" "REQ_STATUS lay" 1 0 1] lay(1) by (simp add: p)
  then show ?thesis
    using m1(1) m2(1) m3(1,2) w3 ch by (auto simp: release_def p)
qed

lemma free_list_keeps:
  assumes "free_list lay s xs" "changes S (bs_mem s) (bs_mem s')" "\<And>x. x \<in> set xs \<Longrightarrow> desc_region lay x \<inter> S = {}"
    and "free_head (queue s') = free_head (queue s)" "num_free (queue s') = num_free (queue s)"
  shows "free_list lay s' xs"
proof -
  have "next_of lay (bs_mem s') x = next_of lay (bs_mem s) x" if "x \<in> set xs" for x
    using desc_keeps(2) [OF assms(2) assms(3) [OF that]] .
  then show ?thesis
    using assms(1,4,5) free_chain_cong [of xs "next_of lay (bs_mem s')" "next_of lay (bs_mem s)"] by (auto simp: free_list_def)
qed

lemma io_disjoint:
  assumes "lay_ok lay m"
  shows "x < 16 \<Longrightarrow> desc_region lay x \<inter> io_region lay = {}" "{q0 lay..<q0 lay + 4096} \<inter> io_region lay = {}"
proof -
  show 1: "{q0 lay..<q0 lay + 4096} \<inter> io_region lay = {}"
  proof -
    have "queue_region lay \<inter> status_region lay = {}" "queue_region lay \<inter> buf_region lay = {}"
      using assms by (simp_all add: lay_ok_def)
    moreover have "{q0 lay..<q0 lay + 4096} \<subseteq> queue_region lay" by (auto simp: queue_region_def)
    ultimately show ?thesis unfolding io_region_def by fastforce
  qed
  have "{q0 lay..<q0 lay + 256} \<subseteq> {q0 lay..<q0 lay + 4096}" by auto
  then show "x < 16 \<Longrightarrow> desc_region lay x \<inter> io_region lay = {}"
    using 1 desc_region_queue [of x lay] by blast
qed

lemma submit_disjoint:
  assumes "lay_ok lay m" "a < 16" "b < 16" "c < 16"
  shows "x < 16 \<Longrightarrow> x \<notin> {a, b, c} \<Longrightarrow> desc_region lay x \<inter> submit_region lay a b c = {}"
    "{q0 lay + 4096..<q0 lay + 8192} \<inter> submit_region lay a b c = {}"
    "submit_region lay a b c \<inter> buf_region lay = {}"
proof -
  have dj: "queue_region lay \<inter> hdr_region lay = {}" "hdr_region lay \<inter> buf_region lay = {}" "queue_region lay \<inter> buf_region lay = {}"
    using assms(1) by (simp_all add: lay_ok_def)
  have sub: "{q0 lay + 256..<q0 lay + 294} \<subseteq> queue_region lay" "{q0 lay..<q0 lay + 256} \<subseteq> queue_region lay"
    by (auto simp: queue_region_def)
  note d = desc_region_queue [OF assms(2), of lay] desc_region_queue [OF assms(3), of lay] desc_region_queue [OF assms(4), of lay]
  show "x < 16 \<Longrightarrow> x \<notin> {a, b, c} \<Longrightarrow> desc_region lay x \<inter> submit_region lay a b c = {}"
    using desc_region_disjoint [of x a lay] desc_region_disjoint [of x b lay] desc_region_disjoint [of x c lay]
      ring_disjoint [of x lay] hdr_disjoint(1) [OF assms(1), of x] unfolding submit_region_def by blast
  have "{q0 lay + 4096..<q0 lay + 8192} \<inter> {q0 lay..<q0 lay + 256} = {}"
    "{q0 lay + 4096..<q0 lay + 8192} \<inter> {q0 lay + 256..<q0 lay + 294} = {}" by auto
  then show "{q0 lay + 4096..<q0 lay + 8192} \<inter> submit_region lay a b c = {}"
    using d dj(1) used_region [of lay] unfolding submit_region_def by blast
  show "submit_region lay a b c \<inter> buf_region lay = {}"
    using d dj sub unfolding submit_region_def by blast
qed

lemma interval_disjoint: "{a..<b} \<inter> S = {} \<Longrightarrow> a \<le> c \<Longrightarrow> d \<le> b \<Longrightarrow> {c..<d} \<inter> S = {}" for a :: nat
  by (auto simp: disjoint_iff)

lemma used_idx_keeps: "changes S m m' \<Longrightarrow> {q0 lay + 4096..<q0 lay + 8192} \<inter> S = {} \<Longrightarrow> used_idx lay m' = used_idx lay m"
  unfolding used_idx_def by (rule arg_cong [where f = low16], rule changes_peek, assumption, erule interval_disjoint) simp_all

lemma avail_idx_keeps: "changes S m m' \<Longrightarrow> {q0 lay + 256..<q0 lay + 294} \<inter> S = {} \<Longrightarrow> avail_idx lay m' = avail_idx lay m"
  unfolding avail_idx_def by (rule arg_cong [where f = low16], rule changes_peek, assumption, erule interval_disjoint) simp_all

text \<open>Three descriptors are taken from the free list and the request is submitted.\<close>

lemma op_submit:
  assumes good: "blk_good lay cap s"
  shows "\<exists>a b c ys s4. op_sector lay sector 512 is_write s =
      bindS (write32 0x050 0 s4) (\<lambda>_ s. bindS (wait_used s) (\<lambda>_ s. bindS (pop_used s) (\<lambda>_ s. release lay a b c s))) \<and>
    a < 16 \<and> b < 16 \<and> c < 16 \<and> distinct (c # b # a # ys) \<and> wired lay s4 \<and> free_list lay s4 ys \<and>
    request lay (bs_mem s4) is_write sector a b c \<and> avail_slot lay (bs_mem s4) (last_avail_idx (bs_dev s4)) = a \<and>
    avail_idx lay (bs_mem s4) = last_avail_idx (bs_dev s4) + 1 \<and> used_idx lay (bs_mem s4) = last_used_idx (queue s4) \<and>
    bs_dev s4 = bs_dev s \<and> buffer (bs_mem s4) (BUF lay) 512 = buffer (bs_mem s) (BUF lay) 512"
proof -
  have w: "wired lay s" and ai: "avail_idx lay (bs_mem s) = last_avail_idx (bs_dev s)"
    and ui: "used_idx lay (bs_mem s) = last_used_idx (queue s)" using good by (simp_all add: blk_good_def)
  obtain xs where "free_list lay s xs" "3 \<le> length xs" using good by (auto simp: blk_good_def)
  moreover from this obtain a b c ys where xs: "xs = a # b # c # ys" by (auto simp: numeral_3_eq_3 Suc_le_length_iff)
  ultimately have fl: "free_list lay s (a # b # c # ys)" by simp
  then have lt: "a < 16" "b < 16" "c < 16" and ne: "distinct (a # b # c # ys)" and ys: "\<forall>y\<in>set ys. y < 16"
    by (simp_all add: free_list_def)
  obtain n1 where n1: "alloc_or_no_desc s = (Ok a, upd_queue (take_free n1) s)"
    "free_list lay (upd_queue (take_free n1) s) (b # c # ys)" using alloc_free [OF w fl] by blast
  obtain n2 where n2: "alloc_or_no_desc (upd_queue (take_free n1) s) = (Ok b, upd_queue (take_free n2) (upd_queue (take_free n1) s))"
    "free_list lay (upd_queue (take_free n2) (upd_queue (take_free n1) s)) (c # ys)" using alloc_free [OF _ n1(2)] w by auto
  let ?s2 = "upd_queue (take_free n2) (upd_queue (take_free n1) s)"
  obtain n3 where n3: "alloc_or_no_desc ?s2 = (Ok c, upd_queue (take_free n3) ?s2)"
    "free_list lay (upd_queue (take_free n3) ?s2) ys" using alloc_free [OF _ n2(2)] w by auto
  define s3 where "s3 = upd_queue (take_free n3) ?s2"
  have s3: "wired lay s3" "bs_mem s3 = bs_mem s" "bs_dev s3 = bs_dev s" "last_used_idx (queue s3) = last_used_idx (queue s)"
    "free_list lay s3 ys" using w n3(2) by (simp_all add: s3_def) (simp_all add: upd_queue_def take_free_def)
  obtain m where m: "submit lay sector is_write a b c s3 = (Ok (), s3\<lparr> bs_mem := m \<rparr>)" "request lay m is_write sector a b c"
    "avail_idx lay m = avail_idx lay (bs_mem s) + 1" "avail_slot lay m (avail_idx lay (bs_mem s)) = a"
    "changes (submit_region lay a b c) (bs_mem s) m"
    using submit_spec [OF s3(1) lt, of sector is_write] ne s3(2) by auto
  have lay: "lay_ok lay (bs_mem s)" using w by (simp add: wired_def)
  note dj = submit_disjoint [OF lay lt]
  have "free_list lay (s3\<lparr> bs_mem := m \<rparr>) ys"
    by (rule free_list_keeps [OF s3(5), of "submit_region lay a b c"]) (use m(5) s3(2) dj(1) ne ys in auto)
  moreover have "used_idx lay m = last_used_idx (queue s)"
    using used_idx_keeps [OF m(5) dj(2)] ui by simp
  moreover have "buffer m (BUF lay) 512 = buffer (bs_mem s) (BUF lay) 512"
    using buffer_changes [OF m(5) dj(3)] .
  moreover have "wired lay (s3\<lparr> bs_mem := m \<rparr>)" using wired_mem [OF s3(1)] m(5) s3(2) by simp
  ultimately show ?thesis
    using n1(1) n2(1) n3(1) m(1-4) lt ne s3(3,4) ai unfolding op_sector_steps
    by (intro exI [of _ a] exI [of _ b] exI [of _ c] exI [of _ ys] exI [of _ "s3\<lparr> bs_mem := m \<rparr>"]) (auto simp: s3_def)
qed

text \<open>The device answers, the driver takes the completion from the used ring and releases the descriptors.\<close>

lemma op_complete:
  assumes w: "wired lay s" and fl: "free_list lay s ys" and lt: "a < 16" "b < 16" "c < 16" and ne: "distinct (c # b # a # ys)"
    and req: "request lay (bs_mem s) is_write sector a b c" "avail_slot lay (bs_mem s) (last_avail_idx (bs_dev s)) = a"
      "avail_idx lay (bs_mem s) = last_avail_idx (bs_dev s) + 1"
    and ui: "used_idx lay (bs_mem s) = last_used_idx (queue s)"
    and on: "on_disk (disk (bs_dev s)) sector 512" and len: "length (disk (bs_dev s)) < 2 ^ 64"
  shows "\<exists>s'. bindS (write32 0x050 0 s) (\<lambda>_ s. bindS (wait_used s) (\<lambda>_ s. bindS (pop_used s) (\<lambda>_ s. release lay a b c s))) = (Ok (), s') \<and>
    wired lay s' \<and> free_list lay s' (c # b # a # ys) \<and> avail_idx lay (bs_mem s') = last_avail_idx (bs_dev s') \<and>
    used_idx lay (bs_mem s') = last_used_idx (queue s') \<and>
    disk (bs_dev s') = transferred lay is_write sector (disk (bs_dev s)) (bs_mem s) \<and>
    delivered lay is_write sector (disk (bs_dev s)) (bs_mem s')"
proof -
  let ?D = "transferred lay is_write sector (disk (bs_dev s)) (bs_mem s)"
  obtain m i where m: "write32 0x050 0 s = (Ok (), s\<lparr> bs_dev := (bs_dev s)\<lparr> disk := ?D,
        last_avail_idx := last_avail_idx (bs_dev s) + 1, interrupt_status := i \<rparr>, bs_mem := m \<rparr>)"
    "changes (io_region lay) (bs_mem s) m" "delivered lay is_write sector (disk (bs_dev s)) m"
    "peek 1 (offs (REQ_STATUS lay)) m = 0" "used_idx lay m = used_idx lay (bs_mem s) + 1"
    using notify_spec [OF w req on len] by blast
  define s5 where "s5 = s\<lparr> bs_dev := (bs_dev s)\<lparr> disk := ?D,
        last_avail_idx := last_avail_idx (bs_dev s) + 1, interrupt_status := i \<rparr>, bs_mem := m \<rparr>"
  define s6 where "s6 = upd_queue (\<lambda>q. q\<lparr> last_used_idx := last_used_idx q + 1 \<rparr>) s5"
  have lay: "lay_ok lay (bs_mem s)" using w by (simp add: wired_def)
  have w5: "wired lay s5" using w lay_ok_changes [OF m(2)] by (simp add: wired_def s5_def)
  have nu: "last_used_idx (queue s5) \<noteq> used_idx lay (bs_mem s5)" using ui m(5) by (simp add: s5_def)
  have w6: "wired lay s6" using w5 by (simp add: wired_def s6_def upd_queue_def)
  have m6: "bs_mem s6 = m" "bs_dev s6 = bs_dev s5" "last_used_idx (queue s6) = last_used_idx (queue s) + 1"
    by (simp_all add: s6_def s5_def upd_queue_def)
  have "free_list lay s6 ys"
    by (rule free_list_keeps [OF fl, of "io_region lay"])
      (use m(2) io_disjoint(1) [OF lay] fl in \<open>auto simp: s6_def s5_def upd_queue_def free_list_def\<close>)
  moreover have "peek 1 (offs (REQ_STATUS lay)) (bs_mem s6) = 0" using m(4) m6(1) by simp
  ultimately obtain s7 where s7: "release lay a b c s6 = (Ok (), s7)" "free_list lay s7 (c # b # a # ys)" "wired lay s7"
    "bs_dev s7 = bs_dev s6" "last_used_idx (queue s7) = last_used_idx (queue s6)"
    "changes {q0 lay..<q0 lay + 256} (bs_mem s6) (bs_mem s7)"
    using release_spec [OF w6 _ lt ne] by blast
  have ai: "avail_idx lay (bs_mem s7) = last_avail_idx (bs_dev s7)"
    using avail_idx_keeps [OF s7(6)] avail_idx_keeps [OF m(2), of lay] io_disjoint(2) [OF lay] req(3) s7(4)
    by (auto simp: m6 s5_def interval_disjoint)
  have "used_idx lay (bs_mem s7) = last_used_idx (queue s7)"
    using used_idx_keeps [OF s7(6), of lay] m(5) ui s7(5) by (auto simp: m6)
  moreover have "queue_region lay \<inter> buf_region lay = {}" using lay by (simp add: lay_ok_def)
  then have "buffer (bs_mem s7) (BUF lay) 512 = buffer m (BUF lay) 512"
    using buffer_changes [OF s7(6), of lay] m6(1) by (auto simp: queue_region_def interval_disjoint)
  then have "delivered lay is_write sector (disk (bs_dev s)) (bs_mem s7)" using m(3) by (simp add: delivered_def)
  ultimately show ?thesis
    using m(1) has_used_spec [OF w5 nu] s7(1-4) ai m6(2) by (auto simp: s5_def s6_def)
qed

lemma op_sector_spec:
  assumes good: "blk_good lay cap s" and sector: "sector < cap"
  shows "\<exists>s'. op_sector lay sector 512 is_write s = (Ok (), s') \<and> blk_good lay cap s' \<and>
    disk (bs_dev s') = transferred lay is_write sector (disk (bs_dev s)) (bs_mem s) \<and>
    delivered lay is_write sector (disk (bs_dev s)) (bs_mem s')"
proof -
  obtain a b c ys s4 where s4: "op_sector lay sector 512 is_write s =
      bindS (write32 0x050 0 s4) (\<lambda>_ s. bindS (wait_used s) (\<lambda>_ s. bindS (pop_used s) (\<lambda>_ s. release lay a b c s)))"
    and lt: "a < 16" "b < 16" "c < 16" and ne: "distinct (c # b # a # ys)" and w4: "wired lay s4" and fl4: "free_list lay s4 ys"
    and req: "request lay (bs_mem s4) is_write sector a b c" "avail_slot lay (bs_mem s4) (last_avail_idx (bs_dev s4)) = a"
      "avail_idx lay (bs_mem s4) = last_avail_idx (bs_dev s4) + 1"
    and u4: "used_idx lay (bs_mem s4) = last_used_idx (queue s4)" and d4: "bs_dev s4 = bs_dev s"
    and b4: "buffer (bs_mem s4) (BUF lay) 512 = buffer (bs_mem s) (BUF lay) 512"
    using op_submit [OF good, of sector is_write] by blast
  let ?D = "transferred lay is_write sector (disk (bs_dev s)) (bs_mem s)"
  have cap: "unat cap * 512 \<le> length (disk (bs_dev s))" "length (disk (bs_dev s)) < 2 ^ 64"
    using good by (simp_all add: blk_good_def)
  have on: "on_disk (disk (bs_dev s)) sector 512"
    using sector cap(1) by (simp add: on_disk_def word_less_nat_alt)
  have t: "transferred lay is_write sector (disk (bs_dev s)) (bs_mem s4) = ?D" using b4 by (simp add: transferred_def)
  obtain s7 where s7: "op_sector lay sector 512 is_write s = (Ok (), s7)" "wired lay s7" "free_list lay s7 (c # b # a # ys)"
    "avail_idx lay (bs_mem s7) = last_avail_idx (bs_dev s7)" "used_idx lay (bs_mem s7) = last_used_idx (queue s7)"
    "disk (bs_dev s7) = ?D" "delivered lay is_write sector (disk (bs_dev s)) (bs_mem s7)"
    using op_complete [OF w4 fl4 lt ne req u4] on cap(2) unfolding d4 t s4 by blast
  have "length ?D = length (disk (bs_dev s))" using on by (simp add: transferred_def put_sector_def buffer_def on_disk_def)
  then have "blk_good lay cap s7" using s7(2-6) cap by (auto simp: blk_good_def intro!: exI [of _ "c # b # a # ys"])
  with s7 show ?thesis by blast
qed

subsection \<open>The driver is a block device\<close>

lemma place_spec:
  assumes good: "blk_good lay cap s" and len: "length bs = 512"
  shows "\<exists>m. place (BUF lay) bs s = (Ok (), s\<lparr> bs_mem := m \<rparr>) \<and> buffer m (BUF lay) 512 = bs \<and>
    blk_good lay cap (s\<lparr> bs_mem := m \<rparr>)"
proof -
  let ?m = "(bs_mem s)\<lparr> dram_data := copy_in bs (dram_data (bs_mem s)) (offs (BUF lay)) \<rparr>"
  have w: "wired lay s" and lay: "lay_ok lay (bs_mem s)" and sp: "span (bs_mem s) (BUF lay) 512"
    using good by (simp_all add: blk_good_def wired_def lay_ok_def)
  have "in_dram (bs_mem s) (BUF lay) 512" using sp by (intro span_in_dram) simp
  from in_dram_check [OF this] have "place (BUF lay) bs s = (Ok (), s\<lparr> bs_mem := ?m \<rparr>)"
    using len by (simp add: place_def write_bytes_def offs_def)
  moreover have "buffer ?m (BUF lay) 512 = bs"
    using buffer_copy_in [of bs 512 "dram_data (bs_mem s)" "BUF lay" "bs_mem s"] len by (simp add: offs_def)
  moreover have ch: "changes (buf_region lay) (bs_mem s) ?m"
    using len by (auto simp: changes_def copy_in_def buf_region_def)
  have dj: "queue_region lay \<inter> buf_region lay = {}" using lay by (simp add: lay_ok_def)
  have sub: "{q0 lay..<q0 lay + 256} \<subseteq> queue_region lay" by (auto simp: queue_region_def)
  obtain xs where xs: "free_list lay s xs" "3 \<le> length xs" using good by (auto simp: blk_good_def)
  have "free_list lay (s\<lparr> bs_mem := ?m \<rparr>) xs"
  proof (rule free_list_keeps [OF xs(1), of "buf_region lay"])
    fix x assume "x \<in> set xs"
    then have "x < 16" using xs(1) by (auto simp: free_list_def)
    then show "desc_region lay x \<inter> buf_region lay = {}" using desc_region_queue [of x lay] dj sub by blast
  qed (use ch in simp_all)
  moreover have "used_idx lay ?m = used_idx lay (bs_mem s)" "avail_idx lay ?m = avail_idx lay (bs_mem s)"
    using used_idx_keeps [OF ch, of lay] avail_idx_keeps [OF ch, of lay] dj
    by (auto simp: queue_region_def interval_disjoint)
  ultimately show ?thesis
    using good xs(2) wired_mem [OF w ch] by (intro exI [of _ ?m]) (auto simp: blk_good_def)
qed

definition blk_sec :: "blk_sys \<Rightarrow> u64 \<Rightarrow> u8 list" where
  "blk_sec s = sector_of (disk (bs_dev s))"

lemma sector_of_put:
  assumes "on_disk d sector 512" "length b = 512"
  shows "sector_of (put_sector d sector b) = (sector_of d)(sector := b)"
proof
  fix t
  have le: "unat sector * 512 + 512 \<le> length d" using assms(1) by (simp add: on_disk_def)
  show "sector_of (put_sector d sector b) t = ((sector_of d)(sector := b)) t"
  proof (cases "t = sector")
    case True
    then show ?thesis using le assms(2) by (simp add: sector_of_def put_sector_def)
  next
    case False
    then have "unat t < unat sector \<or> unat sector < unat t" using linorder_less_linear unsigned_word_eqI by blast
    then have "unat t * 512 + 512 \<le> unat sector * 512 \<or> unat sector * 512 + 512 \<le> unat t * 512" by arith
    then show ?thesis
      using False le assms(2) by (auto simp: sector_of_def put_sector_def drop_take min_def intro!: nth_equalityI simp: nth_append)
  qed
qed

interpretation virtio: block_dev "virtio_blk lay" "blk_good lay cap" blk_sec cap for lay cap
proof
  fix d :: blk_sys and s and buf :: "u8 list"
  assume d: "blk_good lay cap d" "s < cap" "length buf = 512"
  obtain m where m: "place (BUF lay) buf d = (Ok (), d\<lparr> bs_mem := m \<rparr>)" "buffer m (BUF lay) 512 = buf"
    "blk_good lay cap (d\<lparr> bs_mem := m \<rparr>)" using place_spec [OF d(1,3)] by blast
  show "outcome (read_sector (virtio_blk lay) s buf d) (blk_sec d s) (\<lambda>d'. blk_good lay cap d' \<and> blk_sec d' = blk_sec d)"
    using op_sector_spec [OF m(3) d(2), of False] m(1) d(3)
    by (auto simp: virtio_blk_def blk_read_sector_def transferred_def delivered_def blk_sec_def)
  have "on_disk (disk (bs_dev d)) s 512"
    using d by (auto simp: blk_good_def on_disk_def word_less_nat_alt)
  then show "outcome (write_sector (virtio_blk lay) s buf d) () (\<lambda>d'. blk_good lay cap d' \<and> blk_sec d' = (blk_sec d)(s := buf))"
    using op_sector_spec [OF m(3) d(2), of True] m(1,2) d(3)
    by (auto simp: virtio_blk_def blk_write_sector_def transferred_def blk_sec_def sector_of_put)
next
  fix d :: blk_sys and s
  assume "blk_good lay cap d" "s < cap"
  then show "length (blk_sec d s) = 512"
    by (auto simp: blk_sec_def sector_of_def blk_good_def word_less_nat_alt)
qed

subsection \<open>Initialisation\<close>

lemma and_not_mask: "x AND NOT 4095 = x - x mod 4096" for x :: u64
proof -
  have m: "(4095 :: u64) = mask 12" by (simp add: mask_eq_exp_minus_1)
  have 1: "x AND NOT 4095 = push_bit 12 (drop_bit 12 x)"
    unfolding m by (rule bit_word_eqI) (auto simp: bit_and_iff bit_not_iff bit_mask_iff bit_push_bit_iff bit_drop_bit_eq)
  have 2: "push_bit 12 (drop_bit 12 x) + take_bit 12 x = x" by (rule bits_ident)
  have 3: "take_bit 12 x = x mod 4096" by (simp add: take_bit_eq_mod)
  have "push_bit 12 (drop_bit 12 x) = x - x mod 4096" unfolding 3 [symmetric] using 2 by (simp only: eq_diff_eq)
  with 1 show ?thesis by (simp only:)
qed

lemma page_mod:
  assumes "4096 dvd unat (a :: u64)" "unat a + k < 2 ^ 64" "k < 8192" "4096 \<le> k"
  shows "(a + word_of_nat k) - (a + word_of_nat k) mod 4096 = a + 4096"
proof -
  obtain p where p: "unat a = 4096 * p" using assms(1) by (elim dvdE)
  have k: "unat (word_of_nat k :: u64) = k" using assms(3) by (simp add: unat_of_nat)
  have u: "unat (a + word_of_nat k) = unat a + k"
    using assms(2) unat_add_small [of a "word_of_nat k"] unfolding k by simp
  have "(4096 * p + k) mod 4096 = k - 4096" using assms(3,4) by (simp add: le_mod_geq)
  then have m: "unat ((a + word_of_nat k) mod 4096) = k - 4096" using u p by (simp add: unat_mod)
  have "(a + word_of_nat k) mod 4096 = word_of_nat (unat ((a + word_of_nat k) mod 4096))" by simp
  then have "(a + word_of_nat k) mod 4096 = word_of_nat k - 4096" unfolding m using assms(4) by (simp add: of_nat_diff)
  then show ?thesis by (simp only: add_diff_eq) simp
qed

lemma used_ring_page:
  assumes "4096 dvd unat (a :: u64)" "unat a + 8192 \<le> 2 ^ 64"
  shows "(a + (16 * 16 + 6 + 2 * 16) + 4096 - 1) AND NOT (4096 - 1) = a + 4096"
proof -
  have e: "a + (16 * 16 + 6 + 2 * 16) + 4096 - 1 = a + word_of_nat 4389" "(4096 - 1 :: u64) = 4095" by simp_all
  show ?thesis unfolding e and_not_mask by (rule page_mod [OF assms(1)]) (use assms(2) in simp_all)
qed

lemma init_free_list_spec:
  assumes "lay_ok lay (bs_mem s)" "vq_desc (queue s) = BLK_QUEUE_MEM lay" "\<forall>i\<in>set is. i < 16" "distinct is"
  shows "\<exists>m. init_free_list is s = (Ok (), s\<lparr> bs_mem := m \<rparr>) \<and>
    (\<forall>i\<in>set is. next_of lay m (word_of_nat i) = word_of_nat i + 1) \<and>
    changes (\<Union>i\<in>set is. desc_region lay (word_of_nat i)) (bs_mem s) m"
  using assms
proof (induction "is" arbitrary: s)
  case Nil
  then show ?case by (intro exI [of _ "bs_mem s"]) simp
next
  case (Cons i "is")
  let ?i = "word_of_nat i :: u16"
  let ?m = "poke 2 (dpos lay ?i 14) (word_of_nat i + 1) (bs_mem s)"
  have i: "i < 16" "?i < 16" using Cons.prems(3) by (simp_all add: word_less_nat_alt unat_of_nat)
  have c1: "changes (desc_region lay ?i) (bs_mem s) ?m"
    by (rule changes_mono [OF changes_poke]) (auto simp: desc_region_def dpos_def)
  have st: "store_desc 2 ?i 14 (word_of_nat i + 1) s = (Ok (), s\<lparr> bs_mem := ?m \<rparr>)"
    using desc_access_at(2) [OF Cons.prems(1,2) i(2), of 14 2] by simp
  have "lay_ok lay (bs_mem (s\<lparr> bs_mem := ?m \<rparr>))" using lay_ok_changes [OF c1] Cons.prems(1) by simp
  then obtain m where m: "init_free_list is (s\<lparr> bs_mem := ?m \<rparr>) = (Ok (), s\<lparr> bs_mem := m \<rparr>)"
    "\<forall>i\<in>set is. next_of lay m (word_of_nat i) = word_of_nat i + 1"
    "changes (\<Union>i\<in>set is. desc_region lay (word_of_nat i)) ?m m"
    using Cons.IH [of "s\<lparr> bs_mem := ?m \<rparr>"] Cons.prems by auto
  have "desc_region lay ?i \<inter> desc_region lay (word_of_nat j) = {}" if "j \<in> set is" for j
  proof (rule desc_region_disjoint)
    have "j \<noteq> i" "j < 16" using that Cons.prems by auto
    then show "?i \<noteq> word_of_nat j" using i(1) by (simp add: word_of_nat_eq_iff take_bit_nat_eq_self)
  qed
  then have "next_of lay m ?i = next_of lay ?m ?i" using desc_keeps(2) [OF m(3), of lay ?i] by blast
  also have "low16 (take_bit 16 (word_of_nat i + 1)) = word_of_nat i + 1"
    using i(1) by (simp add: word_unat_eq_iff unsigned_ucast_eq unat_of_nat take_bit_nat_eq_self take_bit_eq_mod unat_word_ariths unat_mod)
  then have "next_of lay ?m ?i = word_of_nat i + 1" by (simp add: next_of_def peek_poke)
  finally have "next_of lay m ?i = word_of_nat i + 1" .
  then show ?case
    using st m(1,2) changes_trans [OF c1 m(3)] by (intro exI [of _ m]) simp
qed

lemma span_unat:
  assumes "span m a N"
  shows "unat a = unat DRAM_BASE + offs a"
  using assms by (simp add: span_def offs_def unat_sub word_le_nat_alt)

text \<open>The registers after \<open>init\<close>.\<close>

lemma blk_init_spec:
  assumes "span m (BLK_QUEUE_MEM lay) 8192" "4096 dvd q0 lay" "unat (BLK_QUEUE_MEM lay) < 2 ^ 44"
  shows "\<exists>d. blk_init lay s = (Ok (), s\<lparr> bs_drv := (bs_drv s)\<lparr> vb_capacity := word_of_nat (length (disk (bs_dev s))) div 512 \<rparr>, bs_dev := d \<rparr>) \<and>
    queue_num d = 16 \<and> queue_desc d = BLK_QUEUE_MEM lay \<and> queue_avail d = BLK_QUEUE_MEM lay + 256 \<and>
    queue_used d = BLK_QUEUE_MEM lay + 4096 \<and> last_avail_idx d = 0 \<and> disk d = disk (bs_dev s)"
proof -
  let ?Q = "BLK_QUEUE_MEM lay" and ?cap = "word_of_nat (length (disk (bs_dev s))) div 512 :: u64"
  have u: "unat ?Q = 4096 * 0x80000 + q0 lay" using span_unat [OF assms(1)] by (simp add: DRAM_BASE_def)
  then have dv: "4096 dvd unat ?Q" using assms(2) by simp
  have pfn: "zext32 (low32 (?Q div 4096)) = ?Q div 4096"
  proof -
    have "unat (?Q div 4096) < 2 ^ 32" using assms(3) by (simp add: unat_div)
    then have "take_bit 32 (?Q div 4096) = ?Q div 4096" by (simp add: word_less_nat_alt)
    moreover have "zext32 (low32 x) = take_bit 32 x" for x :: u64
      by (rule bit_word_eqI) (auto simp: bitx bit_take_bit_iff)
    ultimately show ?thesis by simp
  qed
  have nz: "?Q div 4096 \<noteq> 0" using u by (simp add: word_unat_eq_iff unat_div)
  have mul: "?Q div 4096 * 4096 = ?Q"
    using dv assms(3) by (simp add: word_unat_eq_iff unat_div unat_word_ariths)
  have cap: "zext32 (low32 (?cap AND 0xFFFFFFFF)) OR shl (zext32 (low32 (shr ?cap 32))) 32 = ?cap"
    by (rule bit_word_eqI) (auto simp: bitx)
  have used: "(?Q + 16 * 16 + (6 + 2 * 16) + 4096 - 1) AND NOT (4096 - 1) = ?Q + 4096"
    using used_ring_page [OF dv] assms(3) by (simp add: add.assoc)
  show ?thesis
    using pfn nz mul cap used
    by (simp add: blk_init_def write32_def read32_def block_write_def block_read_def regs_write_def regs_read_def
          queue_pfn_def Let_def)
      (intro exI conjI, rule refl, simp_all)
qed

definition zeroed :: "blk_layout \<Rightarrow> dram \<Rightarrow> bool" where
  "zeroed lay m \<longleftrightarrow> (\<forall>j\<in>queue_region lay. dram_data m j = 0)"

lemma zeroed_peek: "zeroed lay m \<Longrightarrow> k + 2 \<le> 8192 \<Longrightarrow> peek 2 (q0 lay + k) m = 0"
  by (simp add: peek_def zeroed_def queue_region_def numeral_2_eq_2)

definition all_descs :: "u16 list" where
  "all_descs = map word_of_nat [0..<16]"

lemma all_descs_chain:
  assumes "\<forall>i\<in>set [0..<16]. nxt (word_of_nat i) = word_of_nat i + 1"
  shows "free_chain nxt 0 all_descs"
  using assms by (simp add: all_descs_def upt_rec)

lemma blk_new_spec:
  assumes lay: "lay_ok lay (bs_mem s)" and zero: "zeroed lay (bs_mem s)" and pfn: "unat (BLK_QUEUE_MEM lay) < 2 ^ 44"
    and cap: "unat cap * 512 \<le> length (disk (bs_dev s))" "length (disk (bs_dev s)) < 2 ^ 64"
  shows "outcome (blk_new lay base s) () (\<lambda>s'. blk_good lay cap s' \<and> blk_sec s' = blk_sec s \<and>
    vb_capacity (bs_drv s') = word_of_nat (length (disk (bs_dev s))) div 512)"
proof -
  let ?Q = "BLK_QUEUE_MEM lay"
  have sp: "span (bs_mem s) ?Q 8192" "4096 dvd q0 lay" using lay by (simp_all add: lay_ok_def)
  have dv: "4096 dvd unat ?Q" using span_unat [OF sp(1)] sp(2) by (simp add: DRAM_BASE_def)
  define q where "q = \<lparr> vq_desc = ?Q, vq_avail = ?Q + 256, vq_used = ?Q + 4096, free_head = 0, num_free = 16,
      last_used_idx = 0, queue_idx = 0 \<rparr>"
  define s1 where "s1 = upd_queue (\<lambda>_. q) (s\<lparr> bs_drv := (bs_drv s)\<lparr> vb_base := base, vb_capacity := 0 \<rparr> \<rparr>)"
  have s1: "bs_mem s1 = bs_mem s" "queue s1 = q" "bs_dev s1 = bs_dev s" by (simp_all add: s1_def upd_queue_def)
  obtain m where m: "init_free_list [0..<16] s1 = (Ok (), s1\<lparr> bs_mem := m \<rparr>)"
    "\<forall>i\<in>set [0..<16]. next_of lay m (word_of_nat i) = word_of_nat i + 1"
    "changes (\<Union>i\<in>set [0..<16]. desc_region lay (word_of_nat i)) (bs_mem s) m"
    using init_free_list_spec [of lay s1 "[0..<16]"] lay by (auto simp: s1 q_def)
  have ch: "changes {q0 lay..<q0 lay + 256} (bs_mem s) m"
  proof (rule changes_mono [OF m(3)])
    have "desc_region lay (word_of_nat i) \<subseteq> {q0 lay..<q0 lay + 256}" if "i < 16" for i
      by (rule desc_region_queue) (use that in \<open>simp add: word_less_nat_alt unat_of_nat\<close>)
    then show "(\<Union>i\<in>set [0..<16]. desc_region lay (word_of_nat i)) \<subseteq> {q0 lay..<q0 lay + 256}" by (intro UN_least) simp
  qed
  have new: "virt_queue_new ?Q 0 (s\<lparr> bs_drv := (bs_drv s)\<lparr> vb_base := base, vb_capacity := 0 \<rparr> \<rparr>) = (Ok (), s1\<lparr> bs_mem := m \<rparr>)"
    using used_ring_page [OF dv] pfn m(1) by (simp add: virt_queue_new_def s1_def q_def)
  obtain d where d: "blk_init lay (s1\<lparr> bs_mem := m \<rparr>) = (Ok (), s1\<lparr> bs_mem := m,
        bs_drv := (bs_drv s1)\<lparr> vb_capacity := word_of_nat (length (disk (bs_dev s))) div 512 \<rparr>, bs_dev := d \<rparr>)"
    "queue_num d = 16" "queue_desc d = ?Q" "queue_avail d = ?Q + 256" "queue_used d = ?Q + 4096"
    "last_avail_idx d = 0" "disk d = disk (bs_dev s)"
    using blk_init_spec [OF sp pfn, of "s1\<lparr> bs_mem := m \<rparr>"] s1(3) by auto
  let ?s = "s1\<lparr> bs_mem := m, bs_drv := (bs_drv s1)\<lparr> vb_capacity := word_of_nat (length (disk (bs_dev s))) div 512 \<rparr>, bs_dev := d \<rparr>"
  have "distinct all_descs \<and> (\<forall>x\<in>set all_descs. x < 16) \<and> length all_descs = 16"
    by (simp add: all_descs_def distinct_map inj_on_def word_of_nat_eq_iff take_bit_nat_eq_self word_less_nat_alt unat_of_nat)
  then have "free_list lay ?s all_descs"
    using all_descs_chain [OF m(2)] s1(2) by (simp add: free_list_def q_def)
  moreover have "used_idx lay m = 0" "avail_idx lay m = 0"
    using used_idx_keeps [OF ch, of lay] avail_idx_keeps [OF ch, of lay] zeroed_peek [OF zero, of 4098] zeroed_peek [OF zero, of 258]
    by (auto simp: used_idx_def avail_idx_def)
  moreover have "wired lay ?s" using lay lay_ok_changes [OF ch] d(2-5) s1(2) by (simp add: wired_def q_def)
  ultimately have "blk_good lay cap ?s"
    using cap d(6,7) s1(2) by (auto simp: blk_good_def q_def all_descs_def intro!: exI [of _ all_descs])
  then show ?thesis unfolding blk_new_def new bindS_simps d(1) using d(7) by (simp add: blk_sec_def)
qed

end
