(* ===== verification/Mk_Image_Spec.thy ===== *)
theory Mk_Image_Spec
  imports Mk_Image
begin

text \<open>
  What the image builder produces: a file system in the sense of the kernel (\<open>wf_fs\<close>) whose map of files is the list of
  the accepted host files.  The builder fails only by a panic, when the files do not fit into the sectors of the
  bitmap or a name is not Unicode; a file that fits the bitmap but not the image would make the image longer.  Names must be distinct and at most 1024 files fit, which the program does not check.
\<close>

unbundle bit_operations_syntax

subsection \<open>Sectors of the image\<close>

text \<open>The sectors the bitmap of the builder covers.\<close>

definition MAP_SECTORS :: nat where "MAP_SECTORS = 64 * 512 * 8"

definition sized :: "nat \<Rightarrow> image \<times> u8 list \<Rightarrow> bool" where
  "sized n s \<longleftrightarrow> length (fst s) = n * 512 \<and> 4096 \<le> n \<and> n < 2 ^ 32 \<and> length (snd s) = 32768"

text \<open>The free sectors of the bitmap that the image has.\<close>

definition avail :: "nat \<Rightarrow> u8 list \<Rightarrow> nat set" where
  "avail n bm = {x \<in> free_blocks bm. x < n}"

lemma write_at_inside: "off + length bs \<le> length img \<Longrightarrow> write_at off bs img = overlay off bs img"
  by (simp add: write_at_def)

lemma sector_length: "length img = n * 512 \<Longrightarrow> unat x < n \<Longrightarrow> length (sector_of img x) = 512"
  by (simp add: sector_of_def)

lemma on_disk_sector: "length img = n * 512 \<Longrightarrow> unat x < n \<Longrightarrow> on_disk img x 512"
  by (simp add: on_disk_def)

lemma sector_write:
  assumes "length img = n * 512" "unat x < n" "length bs = 512"
  shows "sector_of (write_at (unat x * 512) bs img) = (sector_of img)(x := bs)"
proof -
  have "unat x * 512 + 512 \<le> length img" using assms by simp
  then have "write_at (unat x * 512) bs img = put_sector img x bs"
    using assms(3) by (simp add: write_at_inside overlay_def put_sector_def)
  then show ?thesis using sector_of_put [OF on_disk_sector [OF assms(1,2)] assms(3)] by simp
qed

text \<open>A write inside one sector.\<close>

lemma sector_write_part:
  assumes "length img = n * 512" "unat x < n" "k + length bs \<le> 512"
  shows "sector_of (write_at (unat x * 512 + k) bs img) = (sector_of img)(x := overlay k bs (sector_of img x))"
proof -
  let ?o = "unat x * 512"
  have le: "?o + 512 \<le> length img" using assms by simp
  have len: "length (sector_of img x) = 512" using sector_length [OF assms(1,2)] .
  have "write_at (?o + k) bs img = overlay (?o + k) bs img" using le assms(3) by (simp add: write_at_inside)
  also have "\<dots> = overlay ?o (overlay k bs (sector_of img x)) img"
    by (rule nth_equalityI)
      (use le len assms(3) in \<open>auto simp: nth_overlay sector_of_def less_diff_conv2\<close>)
  also have "\<dots> = put_sector img x (overlay k bs (sector_of img x))"
    using len assms(3) by (simp add: overlay_def put_sector_def)
  finally show ?thesis
    using sector_of_put [OF on_disk_sector [OF assms(1,2)], of "overlay k bs (sector_of img x)"] len assms(3) by simp
qed

lemma length_write_at: "off + length bs \<le> length img \<Longrightarrow> length (write_at off bs img) = length img"
  by (simp add: write_at_inside)

subsection \<open>Allocation\<close>

lemma used_Cons: "used (w # bm) y \<longleftrightarrow> (if y < 8 then bit w y else used bm (y - 8))"
proof (cases "y < 8")
  case False
  then obtain z where "y = z + 8" by (metis le_add_diff_inverse2 not_less)
  moreover have "(z + 8) div 8 = Suc (z div 8)" by simp
  ultimately show ?thesis by (simp add: used_def del: div_add_self2)
qed (simp add: used_def)

lemma free_bit_least: "free_bit w = Some b \<Longrightarrow> y < b \<Longrightarrow> bit w y"
  unfolding free_bit_def by (auto simp: find_Some_iff and_shl1)

lemma full_byte: "(if w \<noteq> 0xFF then free_bit w else None) = None \<Longrightarrow> y < 8 \<Longrightarrow> bit w y"
  using first_free_None [of "[w]" y] by (simp add: used_Cons)

lemma first_free_least: "first_free bm = Some (i, b) \<Longrightarrow> y < i * 8 + b \<Longrightarrow> used bm y"
proof (induction bm arbitrary: i y)
  case (Cons w bm)
  show ?case
  proof (cases "if w \<noteq> 0xFF then free_bit w else None")
    case None
    then obtain i' where "first_free bm = Some (i', b)" "i = Suc i'" using Cons.prems(1) by auto
    then show ?thesis using Cons.IH [of i' "y - 8"] Cons.prems(2) full_byte [OF None, of y] by (auto simp: used_Cons)
  next
    case (Some c)
    then have c: "i = 0" "b = c" "free_bit w = Some c" using Cons.prems(1) by (auto split: if_splits)
    then show ?thesis using free_bit_least [of w c y] free_bit_Some [of w c] Cons.prems(2) by (simp add: used_Cons)
  qed
qed simp

lemma find_free_Some:
  assumes "find_free_sector bm = (Some x, bm')" "length bm = 32768"
  shows "unat x < MAP_SECTORS" "\<not> used bm (unat x)" "used bm' y \<longleftrightarrow> used bm y \<or> y = unat x" "length bm' = 32768"
    "z < unat x \<Longrightarrow> used bm z"
proof -
  from assms(1) obtain i b where ib: "first_free bm = Some (i, b)" "x = word_of_nat (i * 8 + b)"
    "bm' = bm[i := bm ! i OR shl 1 b]" by (auto simp: find_free_sector_def split: option.splits)
  from first_free_Some [OF ib(1)] have lt: "i < 32768" "b < 8" "\<not> bit (bm ! i) b" using assms(2) by auto
  then have x: "unat x = i * 8 + b" unfolding ib(2) unat_of_nat by (intro mod_less) simp
  with lt show "unat x < MAP_SECTORS" unfolding MAP_SECTORS_def by linarith
  show "\<not> used bm (unat x)" using lt assms(2) by (simp add: x used_def)
  show "used bm' y \<longleftrightarrow> used bm y \<or> y = unat x"
    using used_set [of i bm b y] lt assms(2) by (simp add: ib(3) x)
  show "length bm' = 32768" using assms(2) ib(3) by simp
  show "z < unat x \<Longrightarrow> used bm z" unfolding x by (rule first_free_least [OF ib(1)])
qed

lemma find_or_full_Ok:
  assumes "sized n s" "0 < card (avail n (snd s))"
  shows "\<exists>x bm. find_or_full s = (Ok x, fst s, bm) \<and> unat x < n \<and> \<not> used (snd s) (unat x) \<and>
    (\<forall>y. used bm y \<longleftrightarrow> used (snd s) y \<or> y = unat x) \<and> sized n (fst s, bm) \<and>
    card (avail n (snd s)) = Suc (card (avail n bm))"
proof -
  obtain r bm where r: "find_free_sector (snd s) = (r, bm)" by (cases "find_free_sector (snd s)")
  obtain y where y: "y \<in> free_blocks (snd s)" "y < n" using assms(2) by (auto simp: avail_def card_gt_0_iff)
  then obtain x where x: "r = Some x"
    using r first_free_None [of "snd s" y] by (auto simp: find_free_sector_def free_blocks_def split: option.splits)
  have len: "length (snd s) = 32768" using assms(1) by (simp add: sized_def)
  note f = find_free_Some [OF r [unfolded x] len]
  have "\<not> y < unat x" using f(5) [of y] y(1) by (auto simp: free_blocks_def)
  then have lt: "unat x < n" using y(2) by simp
  have "avail n bm = avail n (snd s) - {unat x}" using f(3,4) len by (auto simp: avail_def free_blocks_def)
  moreover have "unat x \<in> avail n (snd s)" using f(1,2) lt len by (simp add: avail_def free_blocks_def MAP_SECTORS_def)
  moreover have "finite (avail n (snd s))" by (simp add: avail_def)
  ultimately have "card (avail n (snd s)) = Suc (card (avail n bm))" by (metis card_Suc_Diff1)
  then show ?thesis
    using assms(1) r x f lt by (simp add: find_or_full_def sized_def)
qed

subsection \<open>The chain of a file\<close>

text \<open>The loop stores \<open>remaining\<close> in a chain from \<open>c\<close> on; it touches \<open>c\<close> and sectors that were free only.\<close>

definition stored :: "nat \<Rightarrow> u32 \<Rightarrow> u8 list \<Rightarrow> image \<times> u8 list \<Rightarrow> image \<times> u8 list \<Rightarrow> bool" where
  "stored n c data s s' \<longleftrightarrow> (let g' = sector_of (fst s') in
     chain_data g' c (length data) = data \<and>
     (\<forall>x\<in>set (chain_secs g' c (length data)). unat x < n \<and> (x = c \<or> \<not> used (snd s) (unat x)) \<and> used (snd s') (unat x)) \<and>
     (\<forall>x. x \<noteq> zext32 c \<and> used (snd s) (unat x) \<longrightarrow> g' x = sector_of (fst s) x) \<and>
     (\<forall>y. used (snd s) y \<longrightarrow> used (snd s') y))"

lemma sector_bytes:
  "length chunk \<le> 508 \<Longrightarrow> le32 y @ chunk @ (if length chunk < 508 then replicate (508 - length chunk) 0 else []) =
    overlay 0 (le32 y) (overlay 4 chunk zero_sector)"
  by (auto simp: overlay_def)

lemma write_data_loop_spec:
  assumes "sized n s" "data \<noteq> []" "c \<noteq> 0" "unat c < n" "used (snd s) (unat c)" "used (snd s) 0"
    and "blocks_needed (length data) \<le> Suc (card (avail n (snd s)))"
  shows "\<exists>s'. write_data_loop c data s = (Ok (), s') \<and> sized n s' \<and> stored n c data s s' \<and>
    card (avail n (snd s)) + 1 = card (avail n (snd s')) + blocks_needed (length data)"
  using assms
proof (induction "length data" arbitrary: c data s rule: less_induct)
  case less
  let ?k = "min (length data) 508" and ?n = "length data"
  let ?chunk = "take ?k data" and ?rest = "drop ?k data"
  let ?bytes = "\<lambda>y. overlay 0 (le32 y) (overlay 4 ?chunk zero_sector)"
  have img: "length (fst s) = n * 512" "unat c < n" "unat (zext32 c) < n"
    using less.prems(1,4) by (auto simp: sized_def)
  have bl: "length (?bytes y) = 512" for y by simp
  define put where "put y bm = (write_at (unat c * 512) (?bytes y) (fst s), bm)" for y and bm :: "u8 list"
  have put: "sector_of (fst (put y bm)) = (sector_of (fst s))(zext32 c := ?bytes y)" "length (fst (put y bm)) = n * 512" for y bm
    using sector_write [OF img(1,3) bl, of y] img by (simp_all add: put_def length_write_at)
  have lk: "length ?chunk = ?k" by simp
  have sb: "le32 y @ ?chunk @ (if ?k < 508 then replicate (508 - ?k) 0 else []) = ?bytes y" for y
    using sector_bytes [of ?chunk y, unfolded lk] min.cobounded2 by blast
  have step: "write_data_loop c data s =
      bindS (if ?rest = [] then (Ok 0, s) else find_or_full s) (\<lambda>y s'. write_data_loop y ?rest
        (write_at (unat c * 512) (?bytes y) (fst s'), snd s'))"
    by (subst write_data_loop.simps) (simp only: Let_def less.prems(2) if_False sb)
  have cons: "chain_data g c ?n = ?chunk @ chain_data g y (?n - ?k)" "chain_secs g c ?n = c # chain_secs g y (?n - ?k)"
    if "g (zext32 c) = ?bytes y" for g y
    using chain_cons [of c ?n ?chunk g y] less.prems(2,3) that by simp_all
  show ?case
  proof (cases "?rest = []")
    case True
    then have k: "?n \<le> 508" by simp
    have "write_data_loop c data s = (Ok (), put 0 (snd s))"
      using step True by (simp add: put_def write_data_loop.simps [of 0 "[]"])
    moreover have "sized n (put 0 (snd s))" using less.prems(1) put(2) [of 0 "snd s"] by (simp add: sized_def put_def)
    moreover have "stored n c data s (put 0 (snd s))"
      using cons [of "sector_of (fst (put 0 (snd s)))" 0] put(1) [of 0 "snd s"] less.prems(4,5) k
      by (auto simp: stored_def Let_def put_def)
    moreover have "blocks_needed ?n = 1" using k less.prems(2) by (cases data) (auto simp: blocks_needed_def)
    ultimately show ?thesis by (auto simp: put_def)
  next
    case False
    then have big: "508 < ?n" by auto
    have bn: "blocks_needed ?n = Suc (blocks_needed (?n - 508))" by (rule blocks_needed_step [OF big])
    moreover have "0 < blocks_needed (?n - 508)" using big by (simp add: blocks_needed_def)
    ultimately have "0 < card (avail n (snd s))" using less.prems(7) by linarith
    from find_or_full_Ok [OF less.prems(1) this] obtain y bm where y: "find_or_full s = (Ok y, fst s, bm)"
      "unat y < n" "\<not> used (snd s) (unat y)" "\<forall>z. used bm z \<longleftrightarrow> used (snd s) z \<or> z = unat y" "sized n (fst s, bm)"
      "card (avail n (snd s)) = Suc (card (avail n bm))" by blast
    have ne: "y \<noteq> 0" "y \<noteq> c" using y(3) less.prems(5,6) by auto
    let ?s1 = "put y bm"
    have sm: "length ?rest < ?n" using big by simp
    have s1: "sized n ?s1" using y(5) put(2) by (simp add: sized_def put_def)
    obtain s' where s': "write_data_loop y ?rest ?s1 = (Ok (), s')" "sized n s'" "stored n y ?rest ?s1 s'"
      "card (avail n (snd ?s1)) + 1 = card (avail n (snd s')) + blocks_needed (length ?rest)"
      using less.hyps [of ?rest ?s1 y, OF sm] s1 False ne(1) y(2,4,6) less.prems(6,7) big bn by (auto simp: put_def)
    have run: "write_data_loop c data s = (Ok (), s')" using step False y(1) s'(1) by (simp add: put_def)
    note st = s'(3) [unfolded stored_def Let_def]
    have zc: "zext32 c \<noteq> zext32 y" using ne(2) by (metis unat_zext32 unsigned_word_eqI)
    have at_c: "sector_of (fst s') (zext32 c) = ?bytes y"
      using st zc put(1) [of y bm] y(4) less.prems(5) by (simp add: put_def)
    have "stored n c data s s'"
      unfolding stored_def Let_def cons [of "sector_of (fst s')", OF at_c]
      using st y(3,4) less.prems(4,5) put(1) [of y bm] big by (auto simp: put_def) (metis unat_zext32)
    moreover have "card (avail n (snd s)) + 1 = card (avail n (snd s')) + blocks_needed ?n"
      using s'(4) y(6) bn big by (simp add: put_def)
    ultimately show ?thesis using run s'(2) by blast
  qed
qed

lemma write_data_spec:
  assumes sz: "sized n s" and res: "\<forall>x<129. used (snd s) x"
    and room: "blocks_needed (length data) \<le> card (avail n (snd s))"
  shows "\<exists>h s'. write_data data s = (Ok h, s') \<and> sized n s' \<and> chain_data (sector_of (fst s')) h (length data) = data \<and>
    chain_ok (word_of_nat n) (snd s') (chain_secs (sector_of (fst s')) h (length data)) \<and>
    (\<forall>x. used (snd s) (unat x) \<longrightarrow> sector_of (fst s') x = sector_of (fst s) x) \<and>
    (\<forall>y. used (snd s) y \<longrightarrow> used (snd s') y) \<and>
    card (avail n (snd s)) = card (avail n (snd s')) + blocks_needed (length data)"
proof (cases "data = []")
  case True
  then show ?thesis using sz by (simp add: write_data_def blocks_needed_def chain_ok_def)
next
  case False
  then have "0 < blocks_needed (length data)" by (cases data) (auto simp: blocks_needed_def)
  then have "0 < card (avail n (snd s))" using room by linarith
  from find_or_full_Ok [OF sz this] obtain h bm where h: "find_or_full s = (Ok h, fst s, bm)" "unat h < n"
    "\<not> used (snd s) (unat h)" "\<forall>y. used bm y \<longleftrightarrow> used (snd s) y \<or> y = unat h" "sized n (fst s, bm)"
    "card (avail n (snd s)) = Suc (card (avail n bm))" by blast
  have h0: "h \<noteq> 0" using h(3) res by auto
  obtain s' where s': "write_data_loop h data (fst s, bm) = (Ok (), s')" "sized n s'" "stored n h data (fst s, bm) s'"
    "card (avail n bm) + 1 = card (avail n (snd s')) + blocks_needed (length data)"
    using write_data_loop_spec [OF h(5) False h0 h(2)] h(4,6) res room by auto
  note st = s'(3) [unfolded stored_def Let_def fst_conv snd_conv]
  have "zext32 x < (word_of_nat n :: u64)" if "unat x < n" for x :: u32
    using that sz by (simp add: sized_def word_less_nat_alt unat_of_nat)
  moreover have "129 \<le> unat x" if "\<not> used (snd s) (unat x)" for x :: u32
    using that res not_le by blast
  ultimately have "chain_ok (word_of_nat n) (snd s') (chain_secs (sector_of (fst s')) h (length data))"
    using st h(3,4) unfolding chain_ok_def by metis
  moreover have "sector_of (fst s') x = sector_of (fst s) x" if "used (snd s) (unat x)" for x
    using st that h(3,4) by (metis unat_zext32)
  ultimately show ?thesis
    using False h(1,4,6) s'(1,2,4) st by (auto simp: write_data_def)
qed

subsection \<open>The directory\<close>

definition slot_no :: "u64 \<times> nat \<Rightarrow> nat" where
  "slot_no p = 16 * (unat (fst p) - 65) + snd p"

definition nth_slot :: "nat \<Rightarrow> u64 \<times> nat" where
  "nth_slot k = (65 + word_of_nat (k div 16), k mod 16)"

lemma unat_slot: "k < 1024 \<Longrightarrow> unat (fst (nth_slot k)) = 65 + k div 16"
  by (simp add: nth_slot_def unat_word_ariths unat_of_nat)

lemma nth_slot_in: "k < 1024 \<Longrightarrow> nth_slot k \<in> slots"
  by (auto simp: slots_def nth_slot_def dir_sectors_def SEC_DIR_START_def SEC_DIR_COUNT_def)

lemma slot_no_nth: "k < 1024 \<Longrightarrow> slot_no (nth_slot k) = k"
  using unat_slot [of k] by (simp add: slot_no_def) (simp add: nth_slot_def)

lemma slot_no_inj:
  assumes "p \<in> slots" "q \<in> slots" "slot_no p = slot_no q"
  shows "p = q"
proof -
  have r: "65 \<le> unat (fst p)" "65 \<le> unat (fst q)" "snd p < 16" "snd q < 16"
    using assms(1,2) dir_sectors_range [of "fst p"] dir_sectors_range [of "fst q"]
    by (auto simp: slots_def word_le_nat_alt)
  have "slot_no p div 16 = unat (fst p) - 65" "slot_no p mod 16 = snd p" "slot_no q div 16 = unat (fst q) - 65"
    "slot_no q mod 16 = snd q" using r by (simp_all add: slot_no_def)
  then have "unat (fst p) - 65 = unat (fst q) - 65" "snd p = snd q" using assms(3) by simp_all
  then have "unat (fst p) = unat (fst q)" "snd p = snd q" using r by linarith+
  then show ?thesis by (simp add: prod_eq_iff)
qed

lemma write_dir_entry_spec:
  assumes sz: "sized n s" and k: "k < 1024" and name: "length name \<le> 24"
    and e: "e = \<lparr> de_name = name_field name, de_size = sz', de_head = h \<rparr>"
  shows "\<exists>img. write_dir_entry (word_of_nat k) name sz' h s = (Ok (), img, snd s) \<and> length img = length (fst s) \<and>
    sector_of img = (sector_of (fst s))(fst (nth_slot k) :=
      overlay (32 * snd (nth_slot k)) (entry_bytes e) (sector_of (fst s) (fst (nth_slot k))))"
proof -
  let ?p = "nth_slot k"
  let ?b = "overlay 0 name (replicate 24 0) @ le32 sz' @ le32 h"
  have b: "?b = entry_bytes e" using e name by (simp add: entry_bytes_def name_field_def min_def)
  have d: "k div 16 < 64" using k by (simp add: div_less_iff_less_mult)
  have n: "length (fst s) = n * 512" "unat (fst ?p) < n"
    using sz unat_slot [OF k] d by (simp_all add: sized_def MAP_SECTORS_def)
  have "unat (word_of_nat k * 32 :: u64) = k * 32" using k by (simp add: unat_word_ariths unat_of_nat)
  then have "unat (SEC_DIR_START * 512 + word_of_nat k * 32) = 65 * 512 + k * 32"
    using k by (simp add: SEC_DIR_START_def unat_word_ariths)
  moreover have "k * 32 = k div 16 * 512 + 32 * (k mod 16)" using div_mult_mod_eq [of k 16] by linarith
  ultimately have off: "unat (SEC_DIR_START * 512 + word_of_nat k * 32) = unat (fst ?p) * 512 + 32 * snd ?p"
    using unat_slot [OF k] by (simp add: nth_slot_def)
  have len: "32 * snd ?p + length (entry_bytes e) \<le> 512" using e name by (simp add: nth_slot_def)
  let ?img = "write_at (unat (fst ?p) * 512 + 32 * snd ?p) (entry_bytes e) (fst s)"
  have "unat (fst ?p) * 512 + 512 \<le> length (fst s)" using n by simp
  then have "length ?img = length (fst s)" using len by (intro length_write_at) linarith
  moreover have "write_dir_entry (word_of_nat k) name sz' h s = (Ok (), ?img, snd s)"
    using name by (simp add: write_dir_entry_def Let_def off b)
  ultimately show ?thesis using sector_write_part [OF n len] by blast
qed

subsection \<open>Importing files\<close>

definition mk_inv :: "nat \<Rightarrow> (str \<times> u8 list) list \<Rightarrow> image \<times> u8 list \<Rightarrow> bool" where
  "mk_inv n fs s \<longleftrightarrow> (let g = sector_of (fst s) in
     sized n s \<and> wf_dir (word_of_nat n) g (snd s) \<and> file_of g = map_of fs \<and> length fs \<le> 1024 \<and>
     (\<forall>p\<in>slots. slot_used g p \<longleftrightarrow> slot_no p < length fs) \<and> of_le32 (bytes_at 0 4 (g SEC_SUPER)) = MAGIC)"

lemma import_file_spec:
  assumes inv: "mk_inv n fs s" and name: "name_ok name" "name \<notin> fst ` set fs" and len: "length data < 2 ^ 32"
    and k: "length fs < 1024" and room: "blocks_needed (length data) \<le> card (avail n (snd s))"
  shows "\<exists>s'. import_file name data (word_of_nat (length fs)) s = (Ok (word_of_nat (Suc (length fs))), s') \<and>
    mk_inv n ((name, data) # fs) s' \<and>
    card (avail n (snd s)) = card (avail n (snd s')) + blocks_needed (length data)"
proof -
  let ?g = "sector_of (fst s)" and ?p = "nth_slot (length fs)" and ?cap = "word_of_nat n :: u64"
  have i: "sized n s" "wf_dir ?cap ?g (snd s)" "file_of ?g = map_of fs" "of_le32 (bytes_at 0 4 (?g SEC_SUPER)) = MAGIC"
    and slot: "\<And>p. p \<in> slots \<Longrightarrow> slot_used ?g p \<longleftrightarrow> slot_no p < length fs"
    using inv by (simp_all add: mk_inv_def Let_def)
  have cap: "129 \<le> ?cap" and unat_cap: "unat ?cap = n"
    using i(1) by (simp_all add: sized_def MAP_SECTORS_def word_le_nat_alt unat_of_nat)
  have res: "\<forall>x<129. used (snd s) x" using i(2) by (simp add: wf_dir_def)
  obtain h s1 where s1: "write_data data s = (Ok h, s1)" "sized n s1" "chain_data (sector_of (fst s1)) h (length data) = data"
    "chain_ok ?cap (snd s1) (chain_secs (sector_of (fst s1)) h (length data))"
    "\<forall>x. used (snd s) (unat x) \<longrightarrow> sector_of (fst s1) x = ?g x" "\<forall>y. used (snd s) y \<longrightarrow> used (snd s1) y"
    "card (avail n (snd s)) = card (avail n (snd s1)) + blocks_needed (length data)"
    using write_data_spec [OF i(1) res room] by blast
  let ?g1 = "sector_of (fst s1)"
  have same: "same_used (snd s) ?g ?g1" using s1(5) by (simp add: same_used_def)
  have wf1: "wf_dir ?cap ?g1 (snd s1)"
    using s1(2,6) unat_cap by (intro wf_dir_frame [OF i(2) same]) (auto simp: sized_def sector_length word_less_nat_alt)
  note frame = files_frame [OF i(2) same]
  define e where "e = \<lparr> de_name = name_field name, de_size = word_of_nat (length data), de_head = h \<rparr>"
  have nl: "length name \<le> 24" using name(1) by (simp add: name_ok_def)
  obtain img where img: "write_dir_entry (word_of_nat (length fs)) name (word_of_nat (length data)) h s1 = (Ok (), img, snd s1)"
    "length img = length (fst s1)" "sector_of img = ?g1(fst ?p := overlay (32 * snd ?p) (entry_bytes e) (?g1 (fst ?p)))"
    using write_dir_entry_spec [OF s1(2) k nl e_def] by blast
  have p: "?p \<in> slots" "slot_no ?p = length fs" by (rule nth_slot_in [OF k], rule slot_no_nth [OF k])
  have "file_of ?g name = None" using i(3) name(2) by (metis map_of_eq_None_iff)
  then have "lookup_slot ?g1 name dir_sectors = None" using frame(4) by (simp add: file_of_def)
  then have pos: "lookup_slot ?g1 name dir_sectors = Some ?p \<or>
      lookup_slot ?g1 name dir_sectors = None \<and> ?p \<in> slots \<and> \<not> slot_used ?g1 ?p"
    using p frame(2) [OF p(1)] slot [OF p(1)] by simp
  note we = write_entry [OF wf1 cap name(1) pos len s1(3,4) e_def img(3)]
  have pl: "length (?g1 (fst ?p)) = 512" "snd ?p < 16"
    using wf1 cap p(1) dir_sectors_range [of "fst ?p"] by (auto simp: wf_dir_def slots_def dest: less_le_trans)
  have used: "slot_used (sector_of img) q \<longleftrightarrow> slot_no q < Suc (length fs)" if "q \<in> slots" for q
  proof -
    have "snd q < 16" using that by (auto simp: slots_def)
    from slot_after_write(2) [OF pl this _ img(3)] have "slot_used (sector_of img) q = (q = ?p \<or> slot_used ?g1 q)"
      using name_field_0 [OF name(1)] by (simp add: e_def)
    then show ?thesis using frame(2) [OF that] slot [OF that] slot_no_inj [OF that p(1)] p(2) by (auto simp: less_Suc_eq)
  qed
  have "?g1 SEC_SUPER = ?g SEC_SUPER" using s1(5) res by (simp add: SEC_SUPER_def)
  moreover have "fst ?p \<noteq> SEC_SUPER" using unat_slot [OF k] by (auto simp: SEC_SUPER_def)
  ultimately have "mk_inv n ((name, data) # fs) (img, snd s1)"
    using s1(2) img(2,3) we frame(1) i(3,4) k used by (simp add: mk_inv_def Let_def sized_def)
  then show ?thesis using s1(1,7) img(1) by (auto simp: import_file_def add.commute)
qed

primrec import_all :: "(str \<times> u8 list) list \<Rightarrow> u64 \<Rightarrow> image \<times> u8 list \<Rightarrow> u64 built" where
  "import_all [] idx s = (Ok idx, s)"
| "import_all (f # fs) idx s = bindS (import_file (fst f) (snd f) idx s) (\<lambda>idx s. import_all fs idx s)"

definition importable :: "(str \<times> u8 list) list \<Rightarrow> bool" where
  "importable fs \<longleftrightarrow> distinct (map fst fs) \<and> (\<forall>f\<in>set fs. name_ok (fst f) \<and> length (snd f) < 2 ^ 32) \<and> length fs \<le> 1024"

definition blocks_of :: "(str \<times> u8 list) list \<Rightarrow> nat" where
  "blocks_of fs = sum_list (map (\<lambda>f. blocks_needed (length (snd f))) fs)"

lemma import_all_spec:
  assumes "mk_inv n old s" "importable (rev old @ fs)" "blocks_of fs \<le> card (avail n (snd s))"
  shows "\<exists>s'. import_all fs (word_of_nat (length old)) s = (Ok (word_of_nat (length old + length fs)), s') \<and>
    mk_inv n (rev fs @ old) s' \<and> card (avail n (snd s)) = card (avail n (snd s')) + blocks_of fs"
  using assms
proof (induction fs arbitrary: old s)
  case (Cons f fs)
  have imp: "name_ok (fst f)" "fst f \<notin> fst ` set old" "length (snd f) < 2 ^ 32" "length old < 1024"
    using Cons.prems(2) by (auto simp: importable_def)
  have room: "blocks_needed (length (snd f)) \<le> card (avail n (snd s))" using Cons.prems(3) by (simp add: blocks_of_def)
  obtain s1 where s1: "import_file (fst f) (snd f) (word_of_nat (length old)) s = (Ok (word_of_nat (Suc (length old))), s1)"
    "mk_inv n ((fst f, snd f) # old) s1"
    "card (avail n (snd s)) = card (avail n (snd s1)) + blocks_needed (length (snd f))"
    using import_file_spec [OF Cons.prems(1) imp room] by blast
  have "\<exists>s'. import_all fs (word_of_nat (length (f # old))) s1 = (Ok (word_of_nat (length (f # old) + length fs)), s') \<and>
      mk_inv n (rev fs @ f # old) s' \<and> card (avail n (snd s1)) = card (avail n (snd s')) + blocks_of fs"
    using s1 Cons.prems(2,3) by (intro Cons.IH) (simp_all add: blocks_of_def)
  then show ?case using s1(1,3) by (auto simp: blocks_of_def)
qed (simp add: blocks_of_def)

subsection \<open>The accepted files\<close>

definition dir_name :: "str \<Rightarrow> host_entry \<Rightarrow> str" where
  "dir_name prefix e = (case he_file_name e of Some b \<Rightarrow> prefix @ b | None \<Rightarrow> [])"

definition dir_accepts :: "str \<Rightarrow> host_entry \<Rightarrow> bool" where
  "dir_accepts prefix e \<longleftrightarrow> \<not> he_is_dir e \<and> he_is_file e \<and> length (dir_name prefix e) \<le> 23"

definition dir_files :: "str \<Rightarrow> host_entry list option \<Rightarrow> (str \<times> u8 list) list" where
  "dir_files prefix d = (case d of None \<Rightarrow> [] | Some es \<Rightarrow> map (\<lambda>e. (dir_name prefix e, he_data e)) (filter (dir_accepts prefix) es))"

definition wasm_name :: "host_entry \<Rightarrow> str" where
  "wasm_name e = lit ''/usr/bin/'' @ unwrap_or (he_stem e) []"

definition wasm_accepts :: "host_entry \<Rightarrow> bool" where
  "wasm_accepts e \<longleftrightarrow> he_is_file e \<and> he_extension e = Some (lit ''wasm'') \<and>
     (let b = unwrap_or (he_stem e) [] in
      b \<noteq> [] \<and> \<not> starts_with b (lit ''lib'') \<and> 45 \<notin> set b \<and> b \<noteq> lit ''mkfs'' \<and> b \<noteq> lit ''riscv_vm'') \<and>
     length (wasm_name e) \<le> 23"

definition wasm_files :: "host_entry list option \<Rightarrow> (str \<times> u8 list) list" where
  "wasm_files d = (case d of None \<Rightarrow> [] | Some es \<Rightarrow> map (\<lambda>e. (wasm_name e, he_data e)) (filter wasm_accepts es))"

definition unicode_names :: "host_entry list option \<Rightarrow> bool" where
  "unicode_names d \<longleftrightarrow> (case d of None \<Rightarrow> True | Some es \<Rightarrow> (\<forall>e\<in>set es. he_is_dir e \<or> \<not> he_is_file e \<or> he_file_name e \<noteq> None))"

lemma import_all_append:
  "import_all (fs @ fs') idx s = bindS (import_all fs idx s) (\<lambda>idx s. import_all fs' idx s)"
  by (induction fs arbitrary: idx s) (simp_all add: bindS_assoc)

lemma import_directory_all:
  "unicode_names (Some es) \<Longrightarrow> import_directory es prefix = import_all (dir_files prefix (Some es))"
proof (induction es)
  case (Cons e es)
  then have IH: "import_directory es prefix = import_all (dir_files prefix (Some es))" by (simp add: unicode_names_def)
  show ?case
    using Cons.prems by (intro ext, cases "he_file_name e")
      (simp_all add: IH dir_files_def dir_accepts_def dir_name_def unicode_names_def Let_def)
qed (simp add: dir_files_def fun_eq_iff)

lemma import_if_all:
  "unicode_names d \<Longrightarrow> import_if d prefix idx s = import_all (dir_files prefix d) idx s"
  by (cases d) (simp_all add: import_if_def import_directory_all dir_files_def [of prefix None])

lemma import_wasm_all: "import_wasm_binaries es = import_all (wasm_files (Some es))"
proof (induction es)
  case (Cons e es)
  show ?case
    by (intro ext) (simp add: Cons.IH wasm_files_def wasm_accepts_def wasm_name_def Let_def)
qed (simp add: wasm_files_def fun_eq_iff)

text \<open>The files of the image, in the order in which they are imported.\<close>

definition tree_files :: "host_tree \<Rightarrow> (str \<times> u8 list) list" where
  "tree_files t = dir_files [] (src_dir t) @ dir_files (lit ''/usr/bin/'') (usr_bin_dir t) @
     dir_files (lit ''/home/'') (home_dir t) @ dir_files (lit ''/var/log/'') (var_log_dir t) @
     dir_files (lit ''/etc/init.d/'') (etc_init_dir t) @ wasm_files (first_existing (wasm_dirs t))"

definition unicode_tree :: "host_tree \<Rightarrow> bool" where
  "unicode_tree t \<longleftrightarrow> unicode_names (src_dir t) \<and> unicode_names (usr_bin_dir t) \<and> unicode_names (home_dir t) \<and>
     unicode_names (var_log_dir t) \<and> unicode_names (etc_init_dir t)"

lemma mkfs_main_all:
  assumes "unicode_tree t"
  shows "mkfs_main mb t =
    bindS (import_all (tree_files t) 0 (new_image mb, reserve (replicate (SEC_MAP_COUNT * 512) 0)))
      (\<lambda>idx s. (Ok idx, write_at (unat (SEC_MAP_START * 512)) (snd s) (fst s), snd s))"
proof -
  have w: "(case first_existing (wasm_dirs t) of None \<Rightarrow> (Ok idx, s) | Some es \<Rightarrow> import_wasm_binaries es idx s) =
      import_all (wasm_files (first_existing (wasm_dirs t))) idx s" for idx s
    by (cases "first_existing (wasm_dirs t)") (simp_all add: import_wasm_all wasm_files_def [of None])
  show ?thesis
    using assms by (simp add: mkfs_main_def unicode_tree_def import_if_all w tree_files_def import_all_append bindS_assoc)
qed

subsection \<open>The empty image\<close>

lemma used_zero: "used (replicate m 0) x \<longleftrightarrow> 8 * m \<le> x"
proof (cases "8 * m \<le> x")
  case False
  then have "x div 8 < m" by linarith
  then show ?thesis using False by (simp add: used_def)
qed (simp add: used_def)

lemma reserve_used:
  assumes "k \<le> 8 * length bm"
  defines "r \<equiv> foldl (\<lambda>bm i. if i div 8 < length bm then bm[i div 8 := bm ! (i div 8) OR shl 1 (i mod 8)] else bm) bm [0..<k]"
  shows "length r = length bm \<and> (\<forall>x. used r x \<longleftrightarrow> used bm x \<or> x < k)"
  using assms(1) unfolding r_def
proof (induction k)
  case (Suc k)
  let ?f = "\<lambda>bm i. if i div 8 < length bm then bm[i div 8 := bm ! (i div 8) OR shl 1 (i mod 8)] else bm :: u8 list"
  let ?r = "foldl ?f bm [0..<k]"
  have IH: "length ?r = length bm" "\<And>x. used ?r x \<longleftrightarrow> used bm x \<or> x < k" using Suc by simp_all
  have k: "k div 8 < length ?r" using Suc.prems IH(1) by linarith
  have "foldl ?f bm [0..<Suc k] = ?r[k div 8 := ?r ! (k div 8) OR shl 1 (k mod 8)]" using k by simp
  moreover have "k div 8 * 8 + k mod 8 = k" by simp
  ultimately show ?case using used_set [OF k, of "k mod 8"] IH by auto
qed simp

lemma reserve_spec: "length (reserve (replicate 32768 0)) = 32768"
  "used (reserve (replicate 32768 0)) x \<longleftrightarrow> x < 129 \<or> MAP_SECTORS \<le> x"
  using reserve_used [of SEC_DATA_START "replicate 32768 (0::u8)"]
  by (auto simp: reserve_def MAP_SECTORS_def used_zero)

lemma reserve_free: "card (avail n (reserve (replicate 32768 0))) = min MAP_SECTORS n - 129"
proof -
  have "avail n (reserve (replicate 32768 0)) = {129..<min MAP_SECTORS n}"
    by (auto simp: avail_def free_blocks_def reserve_spec MAP_SECTORS_def)
  then show ?thesis by simp
qed

lemma sector_zero: "sector_of (replicate m 0) x = replicate (min 512 (m - unat x * 512)) 0"
  by (simp add: sector_of_def min.commute)

lemma new_image_sectors:
  assumes "2 \<le> mb" "mb < 2 ^ 20"
  defines "n \<equiv> mb * 2048"
  shows "length (new_image mb) = n * 512" "unat x < n \<Longrightarrow> x \<noteq> 0 \<Longrightarrow> sector_of (new_image mb) x = zero_sector"
    "of_le32 (bytes_at 0 4 (sector_of (new_image mb) SEC_SUPER)) = MAGIC" "\<And>y. unat y < n \<Longrightarrow> length (sector_of (new_image mb) y) = 512"
proof -
  let ?z = "replicate (mb * 1024 * 1024) (0 :: u8)" and ?b = "le32 MAGIC @ le32 (word_of_nat (mb * 1024 * 1024 div 512))"
  have z: "length ?z = n * 512" "unat (0 :: u64) < n" "0 + length ?b \<le> 512" using assms(1) by (simp_all add: n_def)
  have img: "new_image mb = write_at (unat (0 :: u64) * 512 + 0) ?b ?z" by (simp add: new_image_def Let_def)
  have g: "sector_of (new_image mb) = (sector_of ?z)(0 := overlay 0 ?b (sector_of ?z 0))"
    unfolding img by (rule sector_write_part [OF z])
  show len: "length (new_image mb) = n * 512" unfolding img using z assms(1) by (subst length_write_at) (simp_all add: n_def)
  have s0: "length (sector_of ?z 0) = 512" by (rule sector_length [OF z(1,2)])
  show "sector_of (new_image mb) x = zero_sector" if "unat x < n" "x \<noteq> 0"
    using that by (simp add: g sector_zero n_def min_def)
  have "bytes_at 0 4 (overlay 0 ?b (sector_of ?z 0)) = le32 MAGIC"
    using s0 by (simp add: overlay_def bytes_at_def)
  then show "of_le32 (bytes_at 0 4 (sector_of (new_image mb) SEC_SUPER)) = MAGIC" by (simp add: g SEC_SUPER_def)
  show "length (sector_of (new_image mb) y) = 512" if "unat y < n" for y using sector_length [OF len that] .
qed

lemma mk_inv_new:
  assumes "2 \<le> mb" "mb < 2 ^ 20"
  shows "mk_inv (mb * 2048) [] (new_image mb, reserve (replicate 32768 0))"
proof -
  note ni = new_image_sectors [OF assms]
  let ?g = "sector_of (new_image mb)"
  have un: "\<not> slot_used ?g p" if "p \<in> slots" for p
  proof -
    have p: "65 \<le> unat (fst p)" "unat (fst p) < 129" "snd p < 16"
      using that dir_sectors_range [of "fst p"] by (auto simp: slots_def word_le_nat_alt word_less_nat_alt)
    then have "fst p \<noteq> 0" by auto
    then have "?g (fst p) = zero_sector" using ni(2) [of "fst p"] p assms(1) by simp
    then show ?thesis using p(3) by simp
  qed
  then have "lookup_slot ?g name dir_sectors = None" for name
    unfolding lookup_slots(2) by (auto simp: slot_named_def)
  then have "file_of ?g = map_of []" by (simp add: file_of_def fun_eq_iff)
  moreover have "unat (word_of_nat m :: u64) = m" if "m < 2 ^ 64" for m using that by (simp add: unat_of_nat)
  from this [of "mb * 2048"] have "unat (word_of_nat (mb * 2048) :: u64) = mb * 2048" using assms(2) by simp
  moreover have "wf_dir (word_of_nat (mb * 2048)) ?g (reserve (replicate 32768 0))"
    using un ni(4) calculation by (auto simp: wf_dir_def reserve_spec slot_named_def word_less_nat_alt)
  ultimately show ?thesis
    using ni(1,3) un assms reserve_spec(1) by (simp add: mk_inv_def Let_def sized_def MAP_SECTORS_def)
qed

subsection \<open>The finished image\<close>

text \<open>Writing the bitmap concerns the sectors 1 to 64 only.\<close>

lemma bitmap_write:
  assumes "length img = n * 512" "4096 \<le> n" "length bm = 32768"
  defines "img' \<equiv> write_at (unat (SEC_MAP_START * 512)) bm img"
  shows "length img' = n * 512" "sector_of img' SEC_MAP_START = take 512 bm"
    "x = 0 \<or> 65 \<le> unat x \<Longrightarrow> sector_of img' x = sector_of img x"
proof -
  have le: "512 + length bm \<le> length img" using assms by (simp add: MAP_SECTORS_def)
  then have img': "img' = take 512 img @ bm @ drop 33280 img"
    using assms(3) by (simp add: img'_def SEC_MAP_START_def write_at_inside overlay_def)
  show "length img' = n * 512" using assms(1,3) le by (simp add: img')
  have l: "length (take 512 img) = 512" using le by simp
  show "sector_of img' SEC_MAP_START = take 512 bm"
    using l assms(3) by (simp add: img' sector_of_def SEC_MAP_START_def)
  show "sector_of img' x = sector_of img x" if "x = 0 \<or> 65 \<le> unat x"
    using that
  proof
    assume "x = 0"
    then show ?thesis using l by (simp add: img' sector_of_def)
  next
    assume x: "65 \<le> unat x"
    then have "33280 \<le> unat x * 512" by simp
    then have "drop (unat x * 512) img' = drop (unat x * 512) img"
      unfolding img' using l assms(3) by (simp add: drop_append)
    then show ?thesis by (simp add: sector_of_def)
  qed
qed

lemma finished_image:
  assumes inv: "mk_inv n fs s"
  defines "img \<equiv> write_at (unat (SEC_MAP_START * 512)) (snd s) (fst s)"
  shows "length img = n * 512" "sector_of img SEC_MAP_START = take 512 (snd s)" "length (snd s) = 32768"
    "wf_fs (word_of_nat n) (sector_of img) (sector_of img SEC_MAP_START)"
    "of_le32 (bytes_at 0 4 (sector_of img SEC_SUPER)) = MAGIC" "file_of (sector_of img) = map_of fs"
proof -
  have i: "length (fst s) = n * 512" "4096 \<le> n" "n < 2 ^ 32" "length (snd s) = 32768"
    "wf_dir (word_of_nat n) (sector_of (fst s)) (snd s)" "file_of (sector_of (fst s)) = map_of fs"
    "of_le32 (bytes_at 0 4 (sector_of (fst s) SEC_SUPER)) = MAGIC"
    using inv by (simp_all add: mk_inv_def Let_def sized_def)
  note bw = bitmap_write [OF i(1,2,4), folded img_def]
  show "length img = n * 512" "sector_of img SEC_MAP_START = take 512 (snd s)" "length (snd s) = 32768"
    by (rule bw(1), rule bw(2), rule i(4))
  have same: "same_used (snd s) (sector_of (fst s)) (sector_of img)"
    using bw(3) by (simp add: same_used_def)
  show "file_of (sector_of img) = map_of fs" using files_frame(1) [OF i(5) same] i(6) by simp
  show "of_le32 (bytes_at 0 4 (sector_of img SEC_SUPER)) = MAGIC" using bw(3) [of 0] i(7) by (simp add: SEC_SUPER_def)
  have cap: "unat (word_of_nat n :: u64) = n" using i(3) by (simp add: unat_of_nat)
  have "used (take 512 (snd s)) x" if "used (snd s) x" for x
    using that i(4) by (cases "4096 \<le> x") (auto simp: used_def)
  then have "wf_dir (word_of_nat n) (sector_of img) (take 512 (snd s))"
    using bw(1) cap by (intro wf_dir_frame [OF i(5) same]) (auto simp: sector_length word_less_nat_alt)
  then show "wf_fs (word_of_nat n) (sector_of img) (sector_of img SEC_MAP_START)"
    using bw(2) i(4) by (simp add: wf_fs_def)
qed

lemma mkfs_spec:
  assumes size: "2 \<le> mb" "mb < 2 ^ 20" and uni: "unicode_tree t" and imp: "importable (tree_files t)"
    and room: "blocks_of (tree_files t) \<le> min MAP_SECTORS (mb * 2048) - 129"
  shows "\<exists>img bm. mkfs_main mb t = (Ok (word_of_nat (length (tree_files t))), img, bm) \<and> length img = mb * 1024 * 1024 \<and>
    wf_fs (word_of_nat (mb * 2048)) (sector_of img) (sector_of img SEC_MAP_START) \<and>
    of_le32 (bytes_at 0 4 (sector_of img SEC_SUPER)) = MAGIC \<and> file_of (sector_of img) = map_of (tree_files t) \<and>
    sector_of img SEC_MAP_START = take 512 bm \<and> length bm = 32768 \<and>
    min MAP_SECTORS (mb * 2048) - 129 = card (avail (mb * 2048) bm) + blocks_of (tree_files t)"
proof -
  let ?s = "(new_image mb, reserve (replicate 32768 0))"
  obtain s where s: "import_all (tree_files t) (word_of_nat (length ([] :: (str \<times> u8 list) list))) ?s =
      (Ok (word_of_nat (length ([] :: (str \<times> u8 list) list) + length (tree_files t))), s)"
    "mk_inv (mb * 2048) (rev (tree_files t) @ []) s" "min MAP_SECTORS (mb * 2048) - 129 = card (avail (mb * 2048) (snd s)) + blocks_of (tree_files t)"
    using import_all_spec [OF mk_inv_new [OF size], of "tree_files t"] imp room reserve_free by auto
  have "map_of (rev (tree_files t)) = map_of (tree_files t)" 
    using imp by (subst map_of_inject_set) (simp_all add: importable_def rev_map [symmetric])
  then show ?thesis
    unfolding mkfs_main_all [OF uni] using s(1,3) finished_image [OF s(2)] by simp
qed

text \<open>How many blocks the kernel can still allocate: it sees the first 4096 only.\<close>

lemma kernel_free_blocks:
  assumes "length bm = 32768"
  shows "card (avail n bm) \<le> card (free_blocks (take 512 bm)) + (min MAP_SECTORS n - 4096)"
proof -
  let ?M = "min MAP_SECTORS n"
  have "avail n bm \<subseteq> free_blocks (take 512 bm) \<union> {4096..<?M}"
    using assms by (auto simp: avail_def free_blocks_def used_def MAP_SECTORS_def)
  moreover have "finite (free_blocks (take 512 bm) \<union> {4096..<?M})" by (simp add: free_blocks_def)
  ultimately have "card (avail n bm) \<le> card (free_blocks (take 512 bm) \<union> {4096..<?M})" by (rule card_mono [rotated])
  also have "\<dots> \<le> card (free_blocks (take 512 bm)) + card {4096..<?M}" by (rule card_Un_le)
  finally show ?thesis by simp
qed

end
