(* ===== verification/Kn_Storage.thy ===== *)
theory Kn_Storage
  imports Kn_Fs_Refine Mk_Image_Spec
begin

text \<open>
  The storage stack put together: the image the builder writes, the emulated block device that serves it, the
  kernel's driver, its buffer cache and its file system.  The interpretation \<open>vfs\<close> instantiates the file system's
  interface \<open>fs_dev\<close> with the driver on the device, for disks of at least 4096 sectors; the theorems are about the composition.

  The last section is a concrete machine: a small memory with the driver's statics and a disk image with one file.
\<close>

unbundle bit_operations_syntax

subsection \<open>The file system on the virtio driver\<close>

interpretation vfs: fs_dev "virtio_blk lay" "blk_good lay (max 4096 cap)" blk_sec "max 4096 cap" for lay cap
  by unfold_locales (simp_all add: fs_sectors_def)

abbreviation vfs_ok :: "blk_layout \<Rightarrow> u64 \<Rightarrow> blk_sys fsd \<Rightarrow> bool" where
  "vfs_ok lay cap \<equiv> fs_ok (blk_good lay cap) blk_sec cap"

abbreviation vfs_files :: "blk_sys fsd \<Rightarrow> str \<Rightarrow> u8 list option" where
  "vfs_files s \<equiv> file_of (fs_view blk_sec s)"

text \<open>Booting from an image of the builder.\<close>

lemma boot_image:
  assumes size: "2 \<le> mb" "mb < 2 ^ 20" and uni: "unicode_tree t" and imp: "importable (tree_files t)"
    and room: "blocks_of (tree_files t) \<le> min MAP_SECTORS (mb * 2048) - 129"
    and mem: "lay_ok lay (bs_mem s)" "zeroed lay (bs_mem s)" "unat (BLK_QUEUE_MEM lay) < 2 ^ 44"
    and disk: "disk (bs_dev s) = fst (snd (mkfs_main mb t))"
  shows "\<exists>s1 f s2. blk_new lay base s = (Ok (), s1) \<and> fs_init (virtio_blk lay) s1 = (Ok f, s2) \<and>
    vfs_ok lay (word_of_nat (mb * 2048)) (f, s2) \<and> cache_clean (fs_cache f) \<and> vfs_files (f, s2) = map_of (tree_files t) \<and>
    fs_view blk_sec (f, s2) = blk_sec s2 \<and> blk_sec s2 = sector_of (fst (snd (mkfs_main mb t))) \<and>
    3967 \<le> card (free_blocks (bitmap_cache f)) + blocks_of (tree_files t) \<and> blk_good lay (word_of_nat (mb * 2048)) s2"
proof -
  let ?cap = "word_of_nat (mb * 2048) :: u64" and ?img = "fst (snd (mkfs_main mb t))"
  obtain bm where mk: "mkfs_main mb t = (Ok (word_of_nat (length (tree_files t))), ?img, bm)" "length ?img = mb * 1024 * 1024"
    "wf_fs ?cap (sector_of ?img) (sector_of ?img SEC_MAP_START)" "of_le32 (bytes_at 0 4 (sector_of ?img SEC_SUPER)) = MAGIC"
    "file_of (sector_of ?img) = map_of (tree_files t)" "sector_of ?img SEC_MAP_START = take 512 bm" "length bm = 32768"
    "min MAP_SECTORS (mb * 2048) - 129 = card (avail (mb * 2048) bm) + blocks_of (tree_files t)"
    using mkfs_spec [OF size uni imp room] by fastforce
  have "unat (word_of_nat m :: u64) = m" if "m < 2 ^ 64" for m using that by (simp add: unat_of_nat)
  from this [of "mb * 2048"] have cap: "unat ?cap = mb * 2048" using size(2) by simp
  then have max: "max 4096 ?cap = ?cap" using size(1) by (simp add: max_def word_le_nat_alt)
  have "unat ?cap * 512 \<le> length (disk (bs_dev s))" "length (disk (bs_dev s)) < 2 ^ 64"
    unfolding disk cap using size mk(2) by simp_all
  from blk_new_spec [OF mem this, of base] obtain s1 where s1: "blk_new lay base s = (Ok (), s1)" "blk_good lay ?cap s1"
    "blk_sec s1 = sector_of ?img" by (auto simp: blk_sec_def disk elim: outcomeE)
  from vfs.fs_init_outcome [of lay ?cap s1, unfolded max, OF s1(2)] mk(3,4) obtain s2 where
    s2: "fs_init (virtio_blk lay) s1 = (Ok \<lparr> bitmap_cache = blk_sec s1 SEC_MAP_START, bitmap_dirty = False, fs_cache = buffer_cache_new \<rparr>, s2)"
    "blk_good lay ?cap s2" "blk_sec s2 = sector_of ?img"
    by (auto simp: s1(3) elim: outcomeE)
  note mi = vfs.mounted_inv [of lay ?cap s2, unfolded max, OF s2(2)] vfs.mounted_view [of s2]
  have "3967 \<le> card (free_blocks (sector_of ?img SEC_MAP_START)) + blocks_of (tree_files t)"
  proof -
    have "4096 \<le> min MAP_SECTORS (mb * 2048)" using size(1) by (simp add: MAP_SECTORS_def)
    then show ?thesis using kernel_free_blocks [OF mk(7), of "mb * 2048"] mk(8) unfolding mk(6) by linarith
  qed
  then show ?thesis
    using s1(1) s2 mi mk(3,4,5) by (auto simp: s1(3))
qed

subsection \<open>A concrete machine\<close>

definition demo_layout :: blk_layout where
  "demo_layout = \<lparr> BLK_QUEUE_MEM = 0x80000000, REQ_HDR = 0x80002000, REQ_STATUS = 0x80002010, BUF = 0x80003000 \<rparr>"

definition demo_sys :: "u8 list \<Rightarrow> blk_sys" where
  "demo_sys img = \<lparr> bs_drv = \<lparr> vb_base = 0, vb_queue = \<lparr> vq_desc = 0, vq_avail = 0, vq_used = 0, free_head = 0, num_free = 0,
       last_used_idx = 0, queue_idx = 0 \<rparr>, vb_capacity = 0 \<rparr>,
     bs_dev = virtio_block_new img, bs_mem = dram_new DRAM_BASE 0x100000 \<rparr>"

definition demo_file :: host_entry where
  "demo_file = \<lparr> he_is_dir = False, he_is_file = True, he_file_name = Some (lit ''motd''), he_stem = None, he_extension = None,
     he_data = lit ''hello'' \<rparr>"

definition demo_tree :: host_tree where
  "demo_tree = \<lparr> src_dir = Some [demo_file], usr_bin_dir = None, home_dir = None, var_log_dir = None, etc_init_dir = None, wasm_dirs = [] \<rparr>"

lemma demo_layout_ok:
  "lay_ok demo_layout (bs_mem (demo_sys img))" "zeroed demo_layout (bs_mem (demo_sys img))"
  "unat (BLK_QUEUE_MEM demo_layout) < 2 ^ 44"
  by (auto simp: lay_ok_def span_def region_defs demo_layout_def demo_sys_def dram_new_def DRAM_BASE_def offs_def zeroed_def)

lemma lit_simps: "lit [] = []" "lit (c # cs) = word_of_nat (of_char c) # lit cs"
  by (simp_all add: lit_def)

lemma demo_files: "tree_files demo_tree = [(lit ''motd'', lit ''hello'')]" "unicode_tree demo_tree"
  "importable (tree_files demo_tree)" "blocks_of (tree_files demo_tree) \<le> min MAP_SECTORS (2 * 2048) - 129"
proof -
  show t: "tree_files demo_tree = [(lit ''motd'', lit ''hello'')]"
    by (simp add: tree_files_def demo_tree_def demo_file_def dir_files_def dir_accepts_def dir_name_def wasm_files_def lit_def)
  show "unicode_tree demo_tree" by (simp add: unicode_tree_def unicode_names_def demo_tree_def demo_file_def)
  show "importable (tree_files demo_tree)" by (simp add: t importable_def name_ok_def lit_simps)
  show "blocks_of (tree_files demo_tree) \<le> min MAP_SECTORS (2 * 2048) - 129"
    by (simp add: t blocks_of_def blocks_needed_def MAP_SECTORS_def lit_simps)
qed

abbreviation demo_cap :: u64 where "demo_cap \<equiv> word_of_nat (2 * 2048)"

lemma demo_boot:
  obtains s1 f s2 where "blk_new demo_layout 0x10001000 (demo_sys (fst (snd (mkfs_main 2 demo_tree)))) = (Ok (), s1)"
    "fs_init (virtio_blk demo_layout) s1 = (Ok f, s2)" "vfs_ok demo_layout demo_cap (f, s2)" "cache_clean (fs_cache f)"
    "vfs_files (f, s2) = [lit ''motd'' \<mapsto> lit ''hello'']" "blk_good demo_layout demo_cap s2"
    "3966 \<le> card (free_blocks (bitmap_cache f))"
  using boot_image [of 2 demo_tree demo_layout "demo_sys (fst (snd (mkfs_main 2 demo_tree)))" "0x10001000",
      OF _ _ demo_files(2,3,4) demo_layout_ok]
  by (auto simp: demo_sys_def virtio_block_new_def demo_files(1) blocks_of_def blocks_needed_def lit_simps)

lemma demo_write:
  obtains s s1 where "vfs_ok demo_layout demo_cap s" "cache_clean (fs_cache (fst s))" "vfs_files s = [lit ''motd'' \<mapsto> lit ''hello'']"
    "write_file (virtio_blk demo_layout) (lit ''motd'') (lit ''bye'') s = (Ok (), s1)" "blk_good demo_layout demo_cap (snd s)"
proof -
  obtain s1 f s2 where b: "vfs_ok demo_layout demo_cap (f, s2)" "cache_clean (fs_cache f)"
    "vfs_files (f, s2) = [lit ''motd'' \<mapsto> lit ''hello'']" "3966 \<le> card (free_blocks (bitmap_cache f))" "blk_good demo_layout demo_cap s2"
    using demo_boot by metis
  have max: "max 4096 demo_cap = demo_cap" by (simp add: max_def)
  have n: "name_ok (lit ''motd'')" "length (lit ''bye'') < 2 ^ 32" "blocks_needed (length (lit ''bye'')) = 1"
    by (simp_all add: name_ok_def lit_simps blocks_needed_def)
  have "vfs_files (f, s2) (lit ''motd'') \<noteq> None" using b(3) by simp
  then have "target_slot (fs_view blk_sec (f, s2)) (lit ''motd'') \<noteq> None"
    by (auto simp: target_slot_def file_of_def split: option.splits)
  moreover obtain r s3 where r: "write_file (virtio_blk demo_layout) (lit ''motd'') (lit ''bye'') (f, s2) = (r, s3)"
    by (rule prod.exhaust)
  moreover have "case r of Ok _ \<Rightarrow> True | Err e \<Rightarrow> target_slot (fs_view blk_sec (f, s2)) (lit ''motd'') = None \<or>
       card (free_blocks (bitmap_cache f)) < blocks_needed (length (lit ''bye'')) | Panic \<Rightarrow> False"
    using vfs.write_file_spec [of demo_layout demo_cap "(f, s2)", unfolded max, OF b(1) _ n(1,2)] b(2) r by (cases r) auto
  ultimately have "r = Ok ()" using b(4) n(3) by (cases r) auto
  then show ?thesis using that b r by auto
qed

subsection \<open>Theorems about the stack\<close>

text \<open>C4: files that the image builder imported are the files the kernel reads after booting from the image: the builder
  succeeds, the driver brings up the device that serves the image, the file system mounts, and \<open>read_file\<close> returns for every name exactly
  what was imported under it.  This holds for images of 2 MB (the size the build script asks for) up to a terabyte, when
  the host names are Unicode, the accepted files are at most 1024 with distinct non-empty names, none of which the builder
  checks, and their blocks fit into the image and into the bitmap; the driver's memory is laid out and zeroed as its statics are.\<close>

theorem boot_reads_imported_files:
  assumes "2 \<le> mb" "mb < 2 ^ 20" "unicode_tree t" "importable (tree_files t)" "blocks_of (tree_files t) \<le> min MAP_SECTORS (mb * 2048) - 129"
    and "lay_ok lay (bs_mem s)" "zeroed lay (bs_mem s)" "unat (BLK_QUEUE_MEM lay) < 2 ^ 44"
    and "disk (bs_dev s) = fst (snd (mkfs_main mb t))"
  shows "fst (mkfs_main mb t) = Ok (word_of_nat (length (tree_files t))) \<and>
    (\<exists>s1 f s2. blk_new lay base s = (Ok (), s1) \<and> fs_init (virtio_blk lay) s1 = (Ok f, s2) \<and>
      (\<forall>name. fst (read_file (virtio_blk lay) name s2) =
        (case map_of (tree_files t) name of Some data \<Rightarrow> Ok data | None \<Rightarrow> Err ())))"
proof -
  let ?cap = "word_of_nat (mb * 2048) :: u64"
  obtain s1 f s2 where b: "blk_new lay base s = (Ok (), s1)" "fs_init (virtio_blk lay) s1 = (Ok f, s2)"
    "vfs_ok lay ?cap (f, s2)" "vfs_files (f, s2) = map_of (tree_files t)" "fs_view blk_sec (f, s2) = blk_sec s2"
    "blk_good lay ?cap s2"
    using boot_image [OF assms, of base] by blast
  have "4096 \<le> mb * 2048" "mb * 2048 < 2 ^ 64" using assms(1,2) by simp_all
  then have "4096 \<le> ?cap" unfolding word_le_nat_alt by (subst unat_of_nat) simp_all
  then have max: "max 4096 ?cap = ?cap" by (simp add: max_def)
  have wf: "wf_fs ?cap (blk_sec s2) (bitmap_cache f)" using b(3,5) by (simp add: fs_ok_def)
  show ?thesis
    using b(1,2,4,5) mkfs_spec [OF assms(1-5)] vfs.read_file_yields [of lay ?cap s2, unfolded max, OF b(6) wf]
    by (auto simp: yields_def)
qed

theorem boot_reads_imported_files_witness:
  "\<exists>s1 f s2. blk_new demo_layout 0x10001000 (demo_sys (fst (snd (mkfs_main 2 demo_tree)))) = (Ok (), s1) \<and>
    fs_init (virtio_blk demo_layout) s1 = (Ok f, s2) \<and>
    fst (read_file (virtio_blk demo_layout) (lit ''motd'') s2) = Ok (lit ''hello'') \<and>
    fst (read_file (virtio_blk demo_layout) (lit ''none'') s2) = Err ()"
proof -
  have d: "disk (bs_dev (demo_sys (fst (snd (mkfs_main 2 demo_tree))))) = fst (snd (mkfs_main 2 demo_tree))"
    by (simp add: demo_sys_def virtio_block_new_def)
  have ne: "lit ''none'' \<noteq> lit ''motd''" by (simp add: lit_simps)
  show ?thesis
    using boot_reads_imported_files [of 2 demo_tree demo_layout "demo_sys (fst (snd (mkfs_main 2 demo_tree)))" "0x10001000",
        OF _ _ demo_files(2,3,4) demo_layout_ok d] ne
    by (auto simp: demo_files(1))
qed

text \<open>C5: a file that was written survives: \<open>sync\<close> succeeds, the disk can be mounted again, and then \<open>read_file\<close> returns
  the written data for its name and the old contents for every other name.  The statement is about the kernel's file
  system, its write-back cache, the virtio driver and the device together.  The write starts from a cache without dirty blocks, as a
  mount or a sync leaves it: a directory entry that is still dirty in the cache is not seen by the next write.\<close>

theorem written_file_survives_remount:
  assumes "4096 \<le> cap" "vfs_ok lay cap s" "cache_clean (fs_cache (fst s))" "name_ok name" "length data < 2 ^ 32"
    and "write_file (virtio_blk lay) name data s = (Ok (), s1)"
  shows "\<exists>n s2 f d. fs_sync (virtio_blk lay) s1 = (Ok n, s2) \<and> fs_init (virtio_blk lay) (snd s2) = (Ok f, d) \<and>
    (\<forall>nm. fst (read_file (virtio_blk lay) nm d) =
      (case ((vfs_files s)(name \<mapsto> data)) nm of Some x \<Rightarrow> Ok x | None \<Rightarrow> Err ()))"
proof -
  have max: "max 4096 cap = cap" using assms(1) by (simp add: max_def)
  show ?thesis using vfs.write_persists [of lay cap, unfolded max, OF assms(2-)] by blast
qed

theorem written_file_survives_remount_witness:
  "\<exists>s s1 n s2 f d. write_file (virtio_blk demo_layout) (lit ''motd'') (lit ''bye'') s = (Ok (), s1) \<and>
    fs_sync (virtio_blk demo_layout) s1 = (Ok n, s2) \<and> fs_init (virtio_blk demo_layout) (snd s2) = (Ok f, d) \<and>
    fst (read_file (virtio_blk demo_layout) (lit ''motd'') d) = Ok (lit ''bye'')"
proof -
  obtain s s1 where s: "vfs_ok demo_layout demo_cap s" "cache_clean (fs_cache (fst s))"
    "write_file (virtio_blk demo_layout) (lit ''motd'') (lit ''bye'') s = (Ok (), s1)"
    using demo_write by metis
  have c: "4096 \<le> demo_cap" "name_ok (lit ''motd'')" "length (lit ''bye'') < 2 ^ 32"
    by (simp_all add: name_ok_def lit_simps)
  from written_file_survives_remount [OF c(1) s(1,2) c(2,3) s(3)] show ?thesis using s(3) by fastforce
qed

text \<open>C12: \<open>write_file\<close>, called with a valid name on a disk of at least 4096 sectors and with no dirty block in the cache, always returns.  When it succeeds, the files are the old ones with this name set to the data; when it
  fails, no file has changed, and either the directory is full or there are not enough free blocks.  The invariant of
  disk, cache and driver is kept in every case.\<close>

theorem write_file_total:
  assumes "4096 \<le> cap" "vfs_ok lay cap s" "cache_clean (fs_cache (fst s))" "name_ok name" "length data < 2 ^ 32"
  shows "\<exists>r s'. write_file (virtio_blk lay) name data s = (r, s') \<and> vfs_ok lay cap s' \<and>
    (case r of
       Ok _ \<Rightarrow> vfs_files s' = (vfs_files s)(name \<mapsto> data)
     | Err e \<Rightarrow> vfs_files s' = vfs_files s \<and>
         (target_slot (fs_view blk_sec s) name = None \<or>
          card (free_blocks (bitmap_cache (fst s))) < blocks_needed (length data))
     | Panic \<Rightarrow> False)"
proof -
  have max: "max 4096 cap = cap" using assms(1) by (simp add: max_def)
  show ?thesis using vfs.write_file_spec [of lay cap, unfolded max, OF assms(2-)] .
qed

theorem write_file_total_witness:
  "\<exists>s r s'. write_file (virtio_blk demo_layout) (lit ''news'') (lit ''x'') s = (r, s') \<and> r \<noteq> Panic \<and>
    vfs_files s (lit ''motd'') = Some (lit ''hello'') \<and> vfs_files s' (lit ''motd'') = Some (lit ''hello'')"
proof -
  obtain s where s: "vfs_ok demo_layout demo_cap s" "cache_clean (fs_cache (fst s))" "vfs_files s = [lit ''motd'' \<mapsto> lit ''hello'']"
    using demo_write by metis
  have c: "4096 \<le> demo_cap" "name_ok (lit ''news'')" "length (lit ''x'') < 2 ^ 32" "lit ''motd'' \<noteq> lit ''news''"
    by (simp_all add: name_ok_def lit_simps)
  from write_file_total [OF c(1) s(1,2) c(2,3)] show ?thesis
    using s(3) c(4) by (fastforce split: result.splits)
qed

text \<open>C13: removing an existing file, with no dirty block in the cache, succeeds and takes exactly this file out of the map of files.
  It leaves no dirty block in the buffer cache (the bitmap can stay marked dirty until a sync), the invariant holds again, and after
  a sync and a new mount \<open>read_file\<close> fails for its name and returns the old contents for every other name.\<close>

theorem remove_file_refines:
  assumes "4096 \<le> cap" "vfs_ok lay cap s" "cache_clean (fs_cache (fst s))" "\<not> ends_with name (lit ''/'')" "vfs_files s name \<noteq> None"
  shows "\<exists>s1 n s2 f d. remove (virtio_blk lay) name s = (Ok (), s1) \<and> vfs_ok lay cap s1 \<and> cache_clean (fs_cache (fst s1)) \<and>
    vfs_files s1 = (vfs_files s)(name := None) \<and>
    fs_sync (virtio_blk lay) s1 = (Ok n, s2) \<and> fs_init (virtio_blk lay) (snd s2) = (Ok f, d) \<and>
    (\<forall>nm. fst (read_file (virtio_blk lay) nm d) =
      (case ((vfs_files s)(name := None)) nm of Some x \<Rightarrow> Ok x | None \<Rightarrow> Err ()))"
proof -
  have max: "max 4096 cap = cap" using assms(1) by (simp add: max_def)
  from vfs.remove_spec [of lay cap, unfolded max, OF assms(2-)] obtain s1 where
    s1: "remove (virtio_blk lay) name s = (Ok (), s1)" "vfs_ok lay cap s1" "cache_clean (fs_cache (fst s1))"
    "vfs_files s1 = (vfs_files s)(name := None)" by (auto elim!: outcomeE)
  from vfs.sync_persists [of lay cap, unfolded max, OF s1(2)] show ?thesis unfolding s1(4) using s1 by blast
qed

theorem remove_file_refines_witness:
  "\<exists>s s'. vfs_files s (lit ''motd'') = Some (lit ''hello'') \<and> remove (virtio_blk demo_layout) (lit ''motd'') s = (Ok (), s') \<and>
    vfs_files s' (lit ''motd'') = None"
proof -
  obtain s where s: "vfs_ok demo_layout demo_cap s" "cache_clean (fs_cache (fst s))" "vfs_files s = [lit ''motd'' \<mapsto> lit ''hello'']"
    using demo_write by metis
  have c: "4096 \<le> demo_cap" "\<not> ends_with (lit ''motd'') (lit ''/'')" "vfs_files s (lit ''motd'') \<noteq> None"
    by (simp_all add: ends_with_def lit_simps s(3))
  from remove_file_refines [OF c(1) s(1,2) c(2,3)] obtain s' where
    "remove (virtio_blk demo_layout) (lit ''motd'') s = (Ok (), s')" "vfs_files s' (lit ''motd'') = None" by auto
  then show ?thesis using s(3) by (intro exI [of _ s] exI [of _ s']) simp
qed

text \<open>C22: the write-back cache is transparent.  A read returns the contents seen through the cache and a write changes them
  at one sector, whatever has to be evicted; \<open>sync\<close> changes nothing that is seen, writes back as many blocks as were
  dirty, and makes the disk equal to what is seen.\<close>

theorem buffer_cache_transparent:
  assumes "cache_ok (blk_good lay cap) blk_sec (fs_sectors cap) cd" "4096 \<le> cap" "65 \<le> sector" "sector < cap" "length data = 512"
  shows "outcome (cache_read (virtio_blk lay) sector cd) (view blk_sec cd sector)
      (\<lambda>cd'. cache_ok (blk_good lay cap) blk_sec (fs_sectors cap) cd' \<and> view blk_sec cd' = view blk_sec cd) \<and>
    outcome (cache_write (virtio_blk lay) sector data cd) ()
      (\<lambda>cd'. cache_ok (blk_good lay cap) blk_sec (fs_sectors cap) cd' \<and> view blk_sec cd' = (view blk_sec cd)(sector := data)) \<and>
    outcome (cache_sync (virtio_blk lay) cd) (dirty_count (fst cd))
      (\<lambda>cd'. view blk_sec cd' = view blk_sec cd \<and> cache_clean (fst cd') \<and> blk_sec (snd cd') = view blk_sec cd)"
proof -
  have max: "max 4096 cap = cap" using assms(2) by (simp add: max_def)
  have s: "sector \<in> fs_sectors cap" using assms(3,4) by (simp add: fs_sectors_def)
  note f = vfs.cache_read_outcome [of lay cap, unfolded max, OF assms(1) s]
    vfs.cache_write_outcome [of lay cap, unfolded max, OF assms(1) s assms(5)]
    outcome_mono [OF vfs.cache_sync_outcome [of lay cap, unfolded max, OF assms(1)]]
  show ?thesis by (intro conjI f) simp_all
qed

theorem buffer_cache_transparent_witness:
  "\<exists>d cd'. cache_write (virtio_blk demo_layout) 200 (replicate 512 7) (buffer_cache_new, d) = (Ok (), cd') \<and>
    view blk_sec cd' 200 = replicate 512 7"
proof -
  obtain s where s: "vfs_ok demo_layout demo_cap s" "blk_good demo_layout demo_cap (snd s)" using demo_write by metis
  then have "cache_ok (blk_good demo_layout demo_cap) blk_sec (fs_sectors demo_cap) (buffer_cache_new, snd s)"
    by (simp add: cache_ok_def buffer_cache_new_def)
  from buffer_cache_transparent [OF this, of 200 "replicate 512 7"] obtain cd' where
    "cache_write (virtio_blk demo_layout) 200 (replicate 512 7) (buffer_cache_new, snd s) = (Ok (), cd')"
    "view blk_sec cd' 200 = replicate 512 7" by (auto elim!: outcomeE)
  then show ?thesis by blast
qed

text \<open>C23: the driver and the device finish every request: a sector read returns the sector's bytes and a sector write replaces
  exactly this sector; the loop that polls the used ring ends, the descriptors go back to the free list, and the
  invariant that allows the next request is kept, so this holds for any number of requests.\<close>

theorem virtio_request_completes:
  assumes "blk_good lay cap s" "sector < cap" "length buf = 512"
  shows "outcome (blk_read_sector lay sector buf s) (blk_sec s sector) (\<lambda>s'. blk_good lay cap s' \<and> blk_sec s' = blk_sec s) \<and>
    outcome (blk_write_sector lay sector buf s) () (\<lambda>s'. blk_good lay cap s' \<and> blk_sec s' = (blk_sec s)(sector := buf))"
  using virtio.dev_read [OF assms] virtio.dev_write [OF assms] by (simp add: virtio_blk_def)

theorem virtio_request_completes_witness:
  "\<exists>s s'. blk_write_sector demo_layout 300 (replicate 512 9) s = (Ok (), s') \<and> blk_sec s' 300 = replicate 512 9"
proof -
  obtain s where "blk_good demo_layout demo_cap s" using demo_write by metis
  from virtio_request_completes [OF this, of 300 "replicate 512 9"] obtain s' where
    "blk_write_sector demo_layout 300 (replicate 512 9) s = (Ok (), s')" "blk_sec s' 300 = replicate 512 9"
    by (auto elim!: outcomeE)
  then show ?thesis by blast
qed

text \<open>Two defects of the file system.  A file created while the entry of another new file is still in the cache takes its
  slot; and a directory, whose test for emptiness lists the whole root, cannot be removed while the first directory sector has an entry,
  which may be its own.\<close>

lemma second_create_loses_first:
  assumes "4096 \<le> cap" "vfs_ok lay cap s" "target_slot (blk_sec (snd s)) name = Some p" "slot_named (fs_view blk_sec s) other p"
    and "other \<noteq> name" "name_ok name" "write_file (virtio_blk lay) name data s = (Ok (), s')"
  shows "vfs_files s' other = None"
proof -
  have max: "max 4096 cap = cap" using assms(1) by (simp add: max_def)
  show ?thesis using vfs.create_before_sync [of lay cap, unfolded max, OF assms(2-)] .
qed

lemma remove_directory_fails:
  assumes "4096 \<le> cap" "vfs_ok lay cap s" "cache_clean (fs_cache (fst s))" "ends_with path (lit ''/'')"
    and "lookup_slot (fs_view blk_sec s) path dir_sectors = Some p" "j < 16" "slot_used (fs_view blk_sec s) (SEC_DIR_START, j)"
  shows "fst (remove (virtio_blk lay) path s) = Err ''Directory not empty''"
proof -
  have max: "max 4096 cap = cap" using assms(1) by (simp add: max_def)
  show ?thesis using vfs.remove_dir_fails [of lay cap, unfolded max, OF assms(2-)] .
qed

end
