(* ===== verification/Rv_Net_Spec.thy ===== *)
theory Rv_Net_Spec
  imports Rv_Net
begin

text \<open>
  What the network device does for a guest whose rings are set up properly (\<open>rings_ok\<close>): a notification of the transmit
  queue hands the contents of every pending descriptor chain to the backend, in the order of the ring and without
  the virtio header, and a poll puts the frames of the backend into the buffers of the receive queue.
\<close>

unbundle bit_operations_syntax

subsection \<open>Rings\<close>

abbreviation qlen :: "net_queue \<Rightarrow> nat" where "qlen q \<equiv> unat (net_qsz q)"

definition used_region :: "net_queue \<Rightarrow> nat set" where
  "used_region q = {offs (nq_used q)..<offs (nq_used q) + 4 + 8 * qlen q}"

definition ring_region :: "nat \<Rightarrow> net_queue \<Rightarrow> nat set" where
  "ring_region N q = {offs (nq_desc q)..<offs (nq_desc q) + 16 * N} \<union> {offs (nq_avail q)..<offs (nq_avail q) + 4 + 2 * qlen q}"

text \<open>The queue is switched on, its descriptor table has \<open>N\<close> entries, the three parts are memory, aligned, and the used
  ring does not overlap the parts that the driver writes.\<close>

definition rings_ok :: "nat \<Rightarrow> net_queue \<Rightarrow> dram \<Rightarrow> bool" where
  "rings_ok N q m \<longleftrightarrow> nq_ready q \<and> nq_desc q \<noteq> 0 \<and> N \<le> 2 ^ 16 \<and> qlen q \<le> 2 ^ 15 \<and>
     span m (nq_desc q) (16 * N) \<and> span m (nq_avail q) (4 + 2 * qlen q) \<and> span m (nq_used q) (4 + 8 * qlen q) \<and>
     8 dvd offs (nq_desc q) \<and> 8 dvd offs (nq_avail q) \<and> 8 dvd offs (nq_used q) \<and>
     used_region q \<inter> ring_region N q = {}"

definition avail_idx :: "net_queue \<Rightarrow> dram \<Rightarrow> u16" where
  "avail_idx q m = low16 (peek 2 (offs (nq_avail q) + 2) m)"

definition head_at :: "net_queue \<Rightarrow> u16 \<Rightarrow> dram \<Rightarrow> u16" where
  "head_at q i m = low16 (peek 2 (offs (nq_avail q) + 4 + 2 * (unat i mod qlen q)) m)"

definition used_idx :: "net_queue \<Rightarrow> dram \<Rightarrow> u16" where
  "used_idx q m = low16 (peek 2 (offs (nq_used q) + 2) m)"

text \<open>The element of the used ring at the running index \<open>u\<close>: its bytes, and the identifier and the length it holds.\<close>

definition used_slot :: "net_queue \<Rightarrow> u16 \<Rightarrow> nat set" where
  "used_slot q u = {offs (nq_used q) + 4 + 8 * (unat u mod qlen q)..<offs (nq_used q) + 12 + 8 * (unat u mod qlen q)}"

definition used_elem :: "net_queue \<Rightarrow> u16 \<Rightarrow> dram \<Rightarrow> u32 \<times> u32" where
  "used_elem q u m = (low32 (peek 4 (offs (nq_used q) + 4 + 8 * (unat u mod qlen q)) m),
     low32 (peek 4 (offs (nq_used q) + 8 + 8 * (unat u mod qlen q)) m))"

text \<open>The index and \<open>n\<close> elements from \<open>u\<close> on.  Running indices wrap at \<open>2\<^sup>1\<^sup>6\<close>, so that \<open>n\<close> successive elements lie
  apart when the size of the ring divides it, as the standard asks (\<open>apart\<close>).\<close>

definition used_part :: "net_queue \<Rightarrow> u16 \<Rightarrow> nat \<Rightarrow> nat set" where
  "used_part q u n = {offs (nq_used q) + 2..<offs (nq_used q) + 4} \<union> (\<Union>k<n. used_slot q (u + word_of_nat k))"

definition apart :: "net_queue \<Rightarrow> nat \<Rightarrow> bool" where
  "apart q n \<longleftrightarrow> qlen q dvd 2 ^ 16 \<and> n \<le> qlen q"

definition used_elems :: "net_queue \<Rightarrow> u16 \<Rightarrow> (u16 \<times> nat) list \<Rightarrow> dram \<Rightarrow> bool" where
  "used_elems q u es m \<longleftrightarrow> apart q (length es) \<longrightarrow>
     (\<forall>k<length es. used_elem q (u + word_of_nat k) m = (ucast (fst (es ! k)), word_of_nat (snd (es ! k))))"

lemma qlen_pos: "0 < qlen q"
  by (auto simp: net_qsz_def word_less_nat_alt)

lemma rings_ok_changes: "changes S m m' \<Longrightarrow> rings_ok N q m' = rings_ok N q m"
  by (simp add: rings_ok_def changes_span)

lemma avail_idx_load: "rings_ok N q m \<Longrightarrow> load16_at (nq_avail q + 2) m = (Ok (avail_idx q m), m)"
  using load16_span [of m "nq_avail q" "4 + 2 * qlen q" 2] by (simp add: rings_ok_def avail_idx_def)

lemma head_at_load:
  assumes "rings_ok N q m"
  shows "ring_head q i m = (Ok (head_at q i m), m)"
proof -
  define k :: u64 where "k = 4 + zext32 (ucast i mod net_qsz q) * 2"
  have b: "unat i mod qlen q < qlen q" using qlen_pos by simp
  have "unat (zext32 (ucast i mod net_qsz q) :: u64) = unat i mod qlen q"
    using unsigned_less [of i, where ?'a = nat] by (simp add: unat_zext32 unat_mod unsigned_ucast_eq take_bit_nat_eq_self)
  then have k: "unat k = 4 + 2 * (unat i mod qlen q)"
    unfolding k_def unat_word_ariths using b assms by (simp add: rings_ok_def)
  have "nq_avail q + 4 + zext32 (ucast i mod net_qsz q) * 2 = nq_avail q + k" by (simp add: k_def)
  then show ?thesis
    using load16_span [of m "nq_avail q" "4 + 2 * qlen q" k] assms b k
    by (simp add: ring_head_def Let_def rings_ok_def head_at_def add.assoc)
qed

lemma ring_reads_same:
  assumes "changes S m m'" "S \<inter> ring_region N q = {}"
  shows "avail_idx q m' = avail_idx q m" "head_at q i m' = head_at q i m"
proof -
  have b: "unat i mod qlen q < qlen q" using qlen_pos by simp
  have "{offs (nq_avail q) + 2..<offs (nq_avail q) + 2 + 2} \<inter> S = {}"
    "{offs (nq_avail q) + 4 + 2 * (unat i mod qlen q)..<offs (nq_avail q) + 4 + 2 * (unat i mod qlen q) + 2} \<inter> S = {}"
    using assms(2) b by (auto simp: ring_region_def)
  then show "avail_idx q m' = avail_idx q m" "head_at q i m' = head_at q i m"
    using changes_peek [OF assms(1)] by (simp_all only: avail_idx_def head_at_def)
qed


lemma used_slot_region: "used_slot q u \<subseteq> used_region q"
proof -
  have "unat u mod qlen q < qlen q" using qlen_pos by simp
  then show ?thesis by (auto simp: used_slot_def used_region_def)
qed

lemma used_part_region: "used_part q u n \<subseteq> used_region q"
  using used_slot_region [of q] by (auto simp: used_part_def used_region_def)

lemma used_part_Suc: "used_part q u (Suc n) = used_part q u 1 \<union> used_part q (u + 1) n"
proof -
  have "(\<Union>k<Suc n. used_slot q (u + word_of_nat k)) = used_slot q u \<union> (\<Union>k<n. used_slot q (u + 1 + word_of_nat k))"
    unfolding lessThan_Suc_eq_insert_0 by (simp add: image_image algebra_simps)
  then show ?thesis by (auto simp: used_part_def)
qed

lemma used_slot_apart:
  assumes "apart q (Suc n)"
  shows "used_slot q u \<inter> used_part q (u + 1) n = {}"
proof -
  have "unat (u + 1 + word_of_nat k) mod qlen q \<noteq> unat u mod qlen q" if "k < n" for k
  proof
    assume *: "unat (u + 1 + word_of_nat k) mod qlen q = unat u mod qlen q"
    have "u + 1 + word_of_nat k = u + word_of_nat (Suc k)" by simp
    then have "unat (u + 1 + word_of_nat k) mod qlen q = (unat u + Suc k) mod 2 ^ 16 mod qlen q"
      by (simp add: unat_word_ariths unat_of_nat mod_simps del: of_nat_Suc)
    also have "\<dots> = (unat u + Suc k) mod qlen q" using assms by (simp add: apart_def mod_mod_cancel del: add_Suc_right)
    finally have "(unat u + Suc k) mod qlen q = unat u mod qlen q" using * by simp
    then have "qlen q dvd unat u + Suc k - unat u" by (simp only: mod_eq_dvd_iff_nat le_add1)
    then have "qlen q dvd Suc k" by simp
    then show False using assms that by (auto simp: apart_def dest: dvd_imp_le)
  qed
  then have "used_slot q u \<inter> used_slot q (u + 1 + word_of_nat k) = {}" if "k < n" for k
    using that by (force simp: used_slot_def)
  moreover have "used_slot q u \<inter> {offs (nq_used q) + 2..<offs (nq_used q) + 4} = {}" by (auto simp: used_slot_def)
  ultimately show ?thesis by (auto simp: used_part_def)
qed

lemma used_elem_same:
  assumes "changes S m m'" "used_slot q u \<inter> S = {}"
  shows "used_elem q u m' = used_elem q u m"
proof -
  let ?e = "offs (nq_used q) + 4 + 8 * (unat u mod qlen q)" and ?f = "offs (nq_used q) + 8 + 8 * (unat u mod qlen q)"
  have "{?e..<?e + 4} \<subseteq> used_slot q u" "{?f..<?f + 4} \<subseteq> used_slot q u" by (auto simp: used_slot_def)
  then have "{?e..<?e + 4} \<inter> S = {}" "{?f..<?f + 4} \<inter> S = {}" using assms(2) by blast+
  from this [THEN changes_peek [OF assms(1)]] show ?thesis by (simp only: used_elem_def)
qed

lemma used_elems_Cons:
  assumes "used_elem q u m1 = (ucast h, word_of_nat n)" "used_elems q (u + 1) es m'"
    and "changes (used_part q (u + 1) (length es) \<union> S) m1 m'" "S \<inter> used_region q = {}"
  shows "used_elems q u ((h, n) # es) m'"
proof -
  have "used_elem q (u + word_of_nat k) m' = (ucast (fst (((h, n) # es) ! k)), word_of_nat (snd (((h, n) # es) ! k)))"
    if "k < Suc (length es)" and ap: "apart q (Suc (length es))" for k
  proof (cases k)
    case 0
    have "used_slot q u \<inter> (used_part q (u + 1) (length es) \<union> S) = {}"
      using used_slot_apart [OF ap, of u] used_slot_region [of q u] assms(4) by blast
    from used_elem_same [OF assms(3) this] assms(1) 0 show ?thesis by simp
  next
    case (Suc j)
    have "apart q (length es)" using ap by (simp add: apart_def)
    with assms(2) that(1) Suc show ?thesis by (simp add: used_elems_def add.assoc)
  qed
  then show ?thesis by (simp add: used_elems_def)
qed

lemma push_used_ring:
  assumes "rings_ok N q m"
  shows "\<exists>m'. push_used (nq_used q) (zext32 (net_qsz q)) head len m = (Ok (), m') \<and>
    changes (used_part q (used_idx q m) 1) m m' \<and> used_idx q m' = used_idx q m + 1 \<and>
    used_elem q (used_idx q m) m' = (ucast head, len)"
proof -
  define i where "i = used_idx q m"
  define e where "e = offs (nq_used q) + 4 + 8 * (unat i mod qlen q)"
  let ?m = "poke 2 (offs (nq_used q) + 2) (zext16 (i + 1)) (poke 4 (e + 4) (zext32 len) (poke 4 e (zext16 head) m))"
  have b: "unat i mod qlen q < qlen q" using qlen_pos by simp
  have q: "unat (zext32 (net_qsz q) :: u64) = qlen q" by (simp add: unat_zext32)
  then have "(0 :: u64) < zext32 (net_qsz q)" using qlen_pos [of q] by (simp add: word_less_nat_alt)
  from push_used_span [of m "nq_used q" "zext32 (net_qsz q)" head len, unfolded q, OF _ _ this] assms
  have p: "push_used (nq_used q) (zext32 (net_qsz q)) head len m = (Ok (), ?m)"
    by (simp add: rings_ok_def e_def i_def used_idx_def)
  have c: "changes (used_part q (used_idx q m) 1) m ?m"
    by (rule changes_mono [OF changes_trans [OF changes_trans [OF changes_poke changes_poke] changes_poke]])
      (auto simp: used_part_def used_slot_def e_def i_def)
  have e4: "peek 4 (e + 4) ?m = take_bit 32 (zext32 len)"
    using changes_peek [OF changes_poke [of "offs (nq_used q) + 2" 2], of "e + 4" 4] by (auto simp: e_def peek_poke)
  have e0: "peek 4 e ?m = take_bit 32 (zext16 head)"
    using changes_peek [OF changes_poke [of "offs (nq_used q) + 2" 2], of e 4] changes_peek [OF changes_poke [of "e + 4" 4], of e 4]
    by (auto simp: e_def peek_poke)
  have t: "low32 (take_bit 32 (zext32 x :: u64)) = x" "low32 (take_bit 32 (zext16 y :: u64)) = ucast y"
    "low16 (take_bit 16 (zext16 y :: u64)) = y" for x y by (transfer, simp)+
  have u: "used_idx q ?m = used_idx q m + 1" by (simp add: used_idx_def peek_poke i_def t)
  have e: "offs (nq_used q) + 4 + 8 * (unat (used_idx q m) mod qlen q) = e"
    "offs (nq_used q) + 8 + 8 * (unat (used_idx q m) mod qlen q) = e + 4" by (simp_all add: e_def i_def)
  have "low32 (peek 4 e ?m) = ucast head" "low32 (peek 4 (e + 4) ?m) = len" unfolding e0 e4 by (rule t)+
  with p c u show ?thesis unfolding used_elem_def e by blast
qed

subsection \<open>Descriptor chains\<close>

abbreviation desc_addr :: "u64 \<Rightarrow> u16 \<Rightarrow> dram \<Rightarrow> u64" where
  "desc_addr desc i m \<equiv> peek 8 (offs desc + 16 * unat i) m"

abbreviation desc_len :: "u64 \<Rightarrow> u16 \<Rightarrow> dram \<Rightarrow> nat" where
  "desc_len desc i m \<equiv> unat (low32 (peek 4 (offs desc + 16 * unat i + 8) m))"

abbreviation desc_flags :: "u64 \<Rightarrow> u16 \<Rightarrow> dram \<Rightarrow> u16" where
  "desc_flags desc i m \<equiv> low16 (peek 2 (offs desc + 16 * unat i + 12) m)"

abbreviation desc_next :: "u64 \<Rightarrow> u16 \<Rightarrow> dram \<Rightarrow> u16" where
  "desc_next desc i m \<equiv> low16 (peek 2 (offs desc + 16 * unat i + 14) m)"

definition desc_buffer :: "u64 \<Rightarrow> u16 \<Rightarrow> dram \<Rightarrow> nat set" where
  "desc_buffer desc i m = {offs (desc_addr desc i m)..<offs (desc_addr desc i m) + desc_len desc i m}"

definition memory :: "dram \<Rightarrow> nat \<Rightarrow> nat \<Rightarrow> u8 list" where
  "memory m i n = map (dram_data m) [i..<i + n]"

text \<open>The bytes of a chain of at most \<open>n\<close> descriptors, and when it is well formed: the descriptors are in the table and
  their buffers are memory outside \<open>S\<close>.\<close>

primrec chain_bytes :: "nat \<Rightarrow> u64 \<Rightarrow> u16 \<Rightarrow> dram \<Rightarrow> u8 list" where
  "chain_bytes 0 desc i m = []"
| "chain_bytes (Suc n) desc i m = memory m (offs (desc_addr desc i m)) (desc_len desc i m) @
     (if zext16 (desc_flags desc i m) AND VRING_DESC_F_NEXT = 0 then [] else chain_bytes n desc (desc_next desc i m) m)"

primrec chain_ok :: "nat set \<Rightarrow> nat \<Rightarrow> nat \<Rightarrow> u64 \<Rightarrow> u16 \<Rightarrow> dram \<Rightarrow> bool" where
  "chain_ok S N 0 desc i m = True"
| "chain_ok S N (Suc n) desc i m \<longleftrightarrow> unat i < N \<and> span m (desc_addr desc i m) (desc_len desc i m) \<and>
     desc_buffer desc i m \<inter> S = {} \<and>
     (zext16 (desc_flags desc i m) AND VRING_DESC_F_NEXT = 0 \<or> chain_ok S N n desc (desc_next desc i m) m)"

lemma load_bytes_memory:
  assumes "span m a N" "k + n \<le> N"
  shows "load_bytes (a - DRAM_BASE) [k..<k + n] m = (Ok (memory m (offs a + k) n), m)"
  using assms(2)
proof (induction n arbitrary: k)
  case (Suc n)
  have k: "unat (word_of_nat k :: u64) = k" using assms(1) Suc.prems by (simp add: span_def unat_of_nat)
  have u: "unat (a + word_of_nat k - DRAM_BASE) = offs a + k"
    using span_offset(2) [OF assms(1), of "word_of_nat k"] Suc.prems k by (simp add: offs_def)
  have w: "unat (a - DRAM_BASE + word_of_nat k) = offs a + k" using u by (simp add: add.commute add_diff_eq)
  have "load_8 m (a - DRAM_BASE + word_of_nat k) = Ok (dram_data m (offs a + k))"
    using assms(1) Suc.prems by (simp add: load_8_def raw_read_def word_le_nat_alt span_def w ucast_up_ucast_id is_up)
  with Suc.IH [of "Suc k"] Suc.prems show ?case
    by (simp add: memory_def upt_conv_Cons [of k "Suc (k + n)"] upt_conv_Cons [of "offs a + k"] del: upt_Suc)
qed (simp add: memory_def)

lemma tx_collect_chain:
  assumes "span m desc (16 * N)" "8 dvd offs desc" "N \<le> 2 ^ 16"
  shows "chain_ok S N n desc i m \<Longrightarrow> tx_collect n desc i m = (Ok (chain_bytes n desc i m), m)"
proof (induction n arbitrary: i)
  case (Suc n)
  have k: "unat (zext16 i * 16 :: u64) = 16 * unat i"
    using unsigned_less [of i, where ?'a = nat] by (simp add: unat_word_ariths unat_zext16)
  note d = desc_loads [OF assms(1,2), of "zext16 i * 16", unfolded k]
  have sp: "span m (desc_addr desc i m) (desc_len desc i m)" using Suc.prems by simp
  have "phys_to_offset (desc_addr desc i m) = Ok (desc_addr desc i m - DRAM_BASE)" using span_offset(1) [OF sp, of 0] by simp
  moreover note load_bytes_memory [OF sp, of 0 "desc_len desc i m"]
  ultimately show ?case using Suc d by (auto simp: algebra_simps)
qed simp

lemma desc_reads_same:
  assumes "changes S m m'" "S \<inter> {offs desc..<offs desc + 16 * N} = {}" "unat i < N"
  shows "desc_addr desc i m' = desc_addr desc i m" "desc_len desc i m' = desc_len desc i m"
    "desc_flags desc i m' = desc_flags desc i m" "desc_next desc i m' = desc_next desc i m"
proof -
  have "{offs desc + 16 * unat i + k..<offs desc + 16 * unat i + k + n} \<inter> S = {}" if "k + n \<le> 16" for k n
    using assms(2,3) that by auto
  note d = changes_peek [OF assms(1) this]
  show "desc_addr desc i m' = desc_addr desc i m" "desc_len desc i m' = desc_len desc i m"
    "desc_flags desc i m' = desc_flags desc i m" "desc_next desc i m' = desc_next desc i m"
    using d [of 0 8] d [of 8 4] d [of 12 2] d [of 14 2] by simp_all
qed

lemma memory_same: "changes S m m' \<Longrightarrow> {i..<i + n} \<inter> S = {} \<Longrightarrow> memory m' i n = memory m i n"
  by (auto simp: memory_def changes_def)

lemma chain_same:
  assumes "changes S m m'" "S \<inter> {offs desc..<offs desc + 16 * N} = {}"
  shows "chain_ok S N n desc i m \<Longrightarrow> chain_ok S N n desc i m' \<and> chain_bytes n desc i m' = chain_bytes n desc i m"
proof (induction n arbitrary: i)
  case (Suc n)
  then have i: "unat i < N" "desc_buffer desc i m \<inter> S = {}" by simp_all
  note same = desc_reads_same [OF assms i(1)]
  have "memory m' (offs (desc_addr desc i m)) (desc_len desc i m) = memory m (offs (desc_addr desc i m)) (desc_len desc i m)"
    by (rule memory_same [OF assms(1) i(2) [unfolded desc_buffer_def]])
  with Suc show ?case unfolding chain_ok.simps chain_bytes.simps desc_buffer_def same by (auto simp: changes_span [OF assms(1)])
qed simp

subsection \<open>Transmission\<close>

definition pending :: "u16 \<Rightarrow> u16 \<Rightarrow> u16 list" where
  "pending avail frm = map (\<lambda>k. frm + word_of_nat k) [0..<unat (avail - frm)]"

lemma pending_simps:
  "pending avail avail = []" "frm \<noteq> avail \<Longrightarrow> pending avail frm = frm # pending avail (frm + 1)"
proof -
  show "pending avail avail = []" by (simp add: pending_def)
  assume "frm \<noteq> avail"
  then have "avail - frm \<noteq> 0" by simp
  then have u: "unat (avail - frm) = Suc (unat (avail - (frm + 1)))"
    using unatSuc [of "avail - frm - 1"] by (simp add: diff_diff_eq)
  show "pending avail frm = frm # pending avail (frm + 1)"
    unfolding pending_def u by (simp only: upt_conv_Cons [OF zero_less_Suc] map_Suc_upt [symmetric] list.map map_map) (simp add: comp_def algebra_simps)
qed

lemma or_1_nonzero: "w OR 1 \<noteq> (0 :: u32)"
  by (metis bit_0 bit_or_iff bit_0_eq bit_1_0 bot_apply bot_bool_def)

definition chains :: "net_queue \<Rightarrow> u16 list \<Rightarrow> dram \<Rightarrow> u8 list list" where
  "chains q idxs m = map (\<lambda>i. chain_bytes 16 (nq_desc q) (head_at q i m) m) idxs"

definition frames :: "u8 list list \<Rightarrow> u8 list list" where
  "frames ds = map (drop 12) (filter (\<lambda>d. 12 < length d) ds)"

definition chains_ok :: "nat \<Rightarrow> net_queue \<Rightarrow> u16 list \<Rightarrow> dram \<Rightarrow> bool" where
  "chains_ok N q idxs m \<longleftrightarrow> (\<forall>i\<in>set idxs. chain_ok (used_region q) N 16 (nq_desc q) (head_at q i m) m)"

lemma chains_same:
  assumes "rings_ok N q m" "changes (used_region q) m m'" "chains_ok N q idxs m"
  shows "chains_ok N q idxs m'" "chains q idxs m' = chains q idxs m"
proof -
  have d: "used_region q \<inter> ring_region N q = {}" "used_region q \<inter> {offs (nq_desc q)..<offs (nq_desc q) + 16 * N} = {}"
    using assms(1) by (auto simp: rings_ok_def ring_region_def)
  from ring_reads_same(2) [OF assms(2) d(1)] chain_same [OF assms(2) d(2)] assms(3)
  show "chains_ok N q idxs m'" "chains q idxs m' = chains q idxs m" by (auto simp: chains_ok_def chains_def)
qed

text \<open>What a served slot leaves in the used ring: the head of its chain and the length of its contents.\<close>

definition tx_log :: "net_queue \<Rightarrow> u16 list \<Rightarrow> dram \<Rightarrow> (u16 \<times> nat) list" where
  "tx_log q idxs m = map (\<lambda>i. (head_at q i m, length (chain_bytes 16 (nq_desc q) (head_at q i m) m))) idxs"

lemma tx_log_same:
  assumes "rings_ok N q m" "changes (used_region q) m m'" "chains_ok N q idxs m"
  shows "tx_log q idxs m' = tx_log q idxs m"
proof -
  have d: "used_region q \<inter> ring_region N q = {}" "used_region q \<inter> {offs (nq_desc q)..<offs (nq_desc q) + 16 * N} = {}"
    using assms(1) by (auto simp: rings_ok_def ring_region_def)
  from ring_reads_same(2) [OF assms(2) d(1)] chain_same [OF assms(2) d(2)] assms(3)
  show ?thesis by (auto simp: chains_ok_def tx_log_def)
qed

definition sent :: "u8 list list \<Rightarrow> external_net virtio_net \<Rightarrow> external_net virtio_net" where
  "sent fs s = s\<lparr> backend := (backend s)\<lparr> ext_tx := ext_tx (backend s) @ fs \<rparr>,
     stats := (stats s)\<lparr> tx_packets := tx_packets (stats s) + word_of_nat (length fs) \<rparr> \<rparr>"

lemma sent_simps [simp]: "tx_queue (sent fs s) = tx_queue s" "sent [] s = s" "sent gs (sent fs s) = sent (fs @ gs) s"
  by (simp_all add: sent_def add.assoc)

lemma tx_send_frames: "tx_send external_methods data s = (Ok (), sent (frames [data]) s)"
  by (simp add: tx_send_def external_methods_def external_send_def frames_def sent_def)

lemma tx_serve_spec:
  assumes "rings_ok N (tx_queue s) m" "chains_ok N (tx_queue s) [i] m"
  shows "\<exists>m'. tx_serve external_methods i (s, m) = (Ok (), sent (frames (chains (tx_queue s) [i] m)) s, m') \<and>
    changes (used_part (tx_queue s) (used_idx (tx_queue s) m) 1) m m' \<and>
    used_idx (tx_queue s) m' = used_idx (tx_queue s) m + 1 \<and>
    used_elem (tx_queue s) (used_idx (tx_queue s) m) m' = (ucast (head_at (tx_queue s) i m),
      word_of_nat (length (chain_bytes 16 (nq_desc (tx_queue s)) (head_at (tx_queue s) i m) m)))"
proof -
  let ?q = "tx_queue s" and ?d = "chain_bytes 16 (nq_desc (tx_queue s)) (head_at (tx_queue s) i m) m"
  have c: "tx_collect 16 (nq_desc ?q) (head_at ?q i m) m = (Ok ?d, m)"
    by (rule tx_collect_chain [of _ _ N "used_region ?q"]) (use assms in \<open>auto simp: rings_ok_def chains_ok_def\<close>)
  from push_used_ring [OF assms(1), of "head_at ?q i m" "word_of_nat (length ?d)"] obtain m'
    where "push_used (nq_used ?q) (zext32 (net_qsz ?q)) (head_at ?q i m) (word_of_nat (length ?d)) m = (Ok (), m')"
      "changes (used_part ?q (used_idx ?q m) 1) m m'" "used_idx ?q m' = used_idx ?q m + 1"
      "used_elem ?q (used_idx ?q m) m' = (ucast (head_at ?q i m), word_of_nat (length ?d))" by blast
  then show ?thesis
    by (intro exI [of _ m']) (simp add: tx_serve_def Let_def head_at_load [OF assms(1)] c tx_send_frames chains_def)
qed

lemma tx_loop_spec:
  "rings_ok N (tx_queue s) m \<Longrightarrow> chains_ok N (tx_queue s) (pending avail i) m \<Longrightarrow>
    \<exists>m'. tx_loop external_methods avail i (s, m) = (Ok (), sent (frames (chains (tx_queue s) (pending avail i) m)) s, m') \<and>
      changes (used_part (tx_queue s) (used_idx (tx_queue s) m) (length (pending avail i))) m m' \<and>
      used_idx (tx_queue s) m' = used_idx (tx_queue s) m + word_of_nat (length (pending avail i)) \<and>
      used_elems (tx_queue s) (used_idx (tx_queue s) m) (tx_log (tx_queue s) (pending avail i) m) m'"
proof (induction "pending avail i" arbitrary: i s m)
  case Nil
  then have "i = avail" using pending_simps(2) [of i avail] by (cases "i = avail") auto
  then show ?case by (subst tx_loop.simps) (simp add: pending_simps(1) chains_def frames_def tx_log_def used_elems_def)
next
  case (Cons j js)
  let ?q = "tx_queue s"
  have ne: "i \<noteq> avail" using Cons.hyps(2) pending_simps(1) [of avail] by auto
  note p = pending_simps(2) [OF ne]
  have ok: "chains_ok N ?q [i] m" "chains_ok N ?q (pending avail (i + 1)) m"
    using Cons.prems(2) by (simp_all add: p chains_ok_def)
  from tx_serve_spec [OF Cons.prems(1) ok(1)] obtain m1 where m1:
    "tx_serve external_methods i (s, m) = (Ok (), sent (frames (chains ?q [i] m)) s, m1)"
    "changes (used_part ?q (used_idx ?q m) 1) m m1" "used_idx ?q m1 = used_idx ?q m + 1"
    "used_elem ?q (used_idx ?q m) m1 = (ucast (head_at ?q i m), word_of_nat (length (chain_bytes 16 (nq_desc ?q) (head_at ?q i m) m)))"
    by blast
  let ?s = "sent (frames (chains ?q [i] m)) s" and ?js = "pending avail (i + 1)"
  note c1 = changes_mono [OF m1(2) used_part_region]
  note same = chains_same [OF Cons.prems(1) c1 ok(2)] tx_log_same [OF Cons.prems(1) c1 ok(2)]
  have "js = ?js" using Cons.hyps(2) p by simp
  from Cons.hyps(1) [OF this, of ?s m1] Cons.prems(1) rings_ok_changes [OF m1(2)] same obtain m2 where m2:
    "tx_loop external_methods avail (i + 1) (?s, m1) = (Ok (), sent (frames (chains ?q ?js m)) ?s, m2)"
    "changes (used_part ?q (used_idx ?q m + 1) (length ?js)) m1 m2" "used_idx ?q m2 = used_idx ?q m1 + word_of_nat (length ?js)"
    "used_elems ?q (used_idx ?q m + 1) (tx_log ?q ?js m) m2" by (auto simp: m1(3))
  have "changes (used_part ?q (used_idx ?q m) (length (pending avail i))) m m2"
    using changes_trans [OF m1(2) m2(2)] by (simp add: p used_part_Suc [of _ _ "length ?js"])
  moreover have "used_elems ?q (used_idx ?q m) (tx_log ?q (pending avail i) m) m2"
    using used_elems_Cons [OF m1(4) m2(4), of "{}"] m2(2) by (simp add: p tx_log_def)
  ultimately show ?case
    using m1 m2 ne by (intro exI [of _ m2], subst tx_loop.simps) (simp add: p chains_def frames_def)
qed

text \<open>C14: A notification of the transmit queue hands the backend the contents of every pending descriptor chain, in the
  order of the available ring and without the 12 bytes of the virtio header, and completes each chain in the used ring:
  the k-th new element holds the head of the k-th chain and the number of its bytes.  (This is said for a ring size that
  divides \<open>2\<^sup>1\<^sup>6\<close> and no more chains than elements, so that no element is written twice.)  It raises the interrupt if there
  was a chain, and changes no memory but the used ring.\<close>

theorem net_transmits_pending_chains:
  assumes "rings_ok N (tx_queue s) m"
    and "idxs = pending (avail_idx (tx_queue s) m) (nq_last_avail_idx (tx_queue s))" "chains_ok N (tx_queue s) idxs m"
  shows "\<exists>s' m'. net_write external_methods 0x050 1 (s, m) = (Ok (), s', m') \<and>
    ext_tx (backend s') = ext_tx (backend s) @ frames (chains (tx_queue s) idxs m) \<and>
    nq_last_avail_idx (tx_queue s') = avail_idx (tx_queue s) m \<and> (idxs \<noteq> [] \<longrightarrow> n_interrupt_status s' \<noteq> 0) \<and>
    used_idx (tx_queue s) m' = used_idx (tx_queue s) m + word_of_nat (length idxs) \<and>
    (qlen (tx_queue s) dvd 2 ^ 16 \<and> length idxs \<le> qlen (tx_queue s) \<longrightarrow>
      (\<forall>k<length idxs. used_elem (tx_queue s) (used_idx (tx_queue s) m + word_of_nat k) m' =
        (ucast (head_at (tx_queue s) (idxs ! k) m), word_of_nat (length (chains (tx_queue s) idxs m ! k))))) \<and>
    changes (used_region (tx_queue s)) m m'"
proof -
  let ?q = "tx_queue s"
  from tx_loop_spec [OF assms(1) assms(3) [unfolded assms(2)], folded assms(2)] obtain m' where m':
    "tx_loop external_methods (avail_idx ?q m) (nq_last_avail_idx ?q) (s, m) = (Ok (), sent (frames (chains ?q idxs m)) s, m')"
    "changes (used_part ?q (used_idx ?q m) (length idxs)) m m'" "used_idx ?q m' = used_idx ?q m + word_of_nat (length idxs)"
    "used_elems ?q (used_idx ?q m) (tx_log ?q idxs m) m'" by blast
  have el: "apart ?q (length idxs) \<longrightarrow> (\<forall>k<length idxs. used_elem ?q (used_idx ?q m + word_of_nat k) m' =
      (ucast (head_at ?q (idxs ! k) m), word_of_nat (length (chains ?q idxs m ! k))))"
    using m'(4) by (simp add: used_elems_def tx_log_def chains_def)
  have ne: "idxs \<noteq> [] \<longleftrightarrow> nq_last_avail_idx ?q \<noteq> avail_idx ?q m"
    unfolding assms(2) using pending_simps by (cases "nq_last_avail_idx ?q = avail_idx ?q m") auto
  have on: "nq_ready ?q" "nq_desc ?q \<noteq> 0" using assms(1) by (simp_all add: rings_ok_def)
  show ?thesis
    using m'(1,3) changes_mono [OF m'(2) used_part_region] el [unfolded apart_def] on avail_idx_load [OF assms(1)] ne or_1_nonzero
    by (simp add: net_write_def process_tx_queue_def Let_def sent_def)
qed

text \<open>Memory with one descriptor for a buffer of 16 bytes at \<open>0x80004000\<close>, offered in the available ring.\<close>

definition example_queue :: net_queue where
  "example_queue = \<lparr> nq_num = 1, nq_desc = 0x80001000, nq_avail = 0x80002000, nq_used = 0x80003000, nq_ready = True, nq_last_avail_idx = 0 \<rparr>"

definition example_rings :: "u16 \<Rightarrow> dram" where
  "example_rings flags = poke 2 0x2002 1 (poke 2 0x100C (zext16 flags) (poke 4 0x1008 16 (poke 8 0x1000 0x80004000
     (dram_new DRAM_BASE 0x5000))))"

definition example_memory :: "u16 \<Rightarrow> dram" where
  "example_memory flags = (example_rings flags)\<lparr> dram_data :=
     copy_in (replicate 12 0 @ [0xAB, 0xCD, 0, 0]) (dram_data (example_rings flags)) 0x4000 \<rparr>"

definition example_net :: "external_net virtio_net" where
  "example_net = (virtio_net_new external_methods (external_new [2, 0, 0, 0, 0, 1]))\<lparr> tx_queue := example_queue, rx_queue := example_queue \<rparr>"

lemma peek_poke_apart: "i + n \<le> j \<or> j + k \<le> i \<Longrightarrow> peek n i (poke k j v m) = peek n i m"
  by (rule changes_peek [OF changes_poke]) auto

lemma peek_new: "peek n i (dram_new b sz) = 0"
  by (induction n arbitrary: i) (simp_all add: peek_def dram_new_def)

lemma memory_copy_in:
  "length xs = n \<Longrightarrow> memory (m\<lparr> dram_data := copy_in xs d i \<rparr>) i n = xs"
  by (rule nth_equalityI) (simp_all add: memory_def copy_in_def)

lemma example_peek: "i + n \<le> 0x4000 \<Longrightarrow> peek n i (example_memory flags) = peek n i (example_rings flags)"
  unfolding example_memory_def by (rule changes_peek [OF changes_copy_in]) auto

lemma example_reads:
  "peek 8 0x1000 (example_memory flags) = 0x80004000" "peek 4 0x1008 (example_memory flags) = 16"
  "peek 2 0x100C (example_memory flags) = take_bit 16 (zext16 flags)" "peek 2 0x2002 (example_memory flags) = 1"
  "peek 2 0x2004 (example_memory flags) = 0" "dram_size (example_memory flags) = 0x5000"
  by (simp_all add: example_peek) (simp_all add: example_rings_def peek_poke_apart peek_poke peek_new,
      simp add: example_memory_def example_rings_def poke_def dram_new_def)

lemma example_rings_ok: "rings_ok 1 example_queue (example_memory flags)"
  by (auto simp: rings_ok_def example_queue_def used_region_def ring_region_def span_def offs_def net_qsz_def DRAM_BASE_def example_reads)

lemma example_slot: "avail_idx example_queue (example_memory flags) = 1" "head_at example_queue 0 (example_memory flags) = 0" "pending 1 0 = [0]"
  by (simp_all add: avail_idx_def head_at_def example_queue_def offs_def DRAM_BASE_def net_qsz_def example_reads pending_def)

lemma example_qlen: "qlen example_queue = 1"
  by (simp add: example_queue_def net_qsz_def)

lemma example_chain:
  "chain_bytes 16 (nq_desc example_queue) 0 (example_memory 0) = replicate 12 0 @ [0xAB, 0xCD, 0, 0]"
  "chain_ok (used_region example_queue) 1 16 (nq_desc example_queue) 0 (example_memory 0)"
proof -
  have 16: "(16 :: nat) = Suc 15" by simp
  have "memory (example_memory 0) 0x4000 16 = replicate 12 0 @ [0xAB, 0xCD, 0, 0]"
    unfolding example_memory_def by (rule memory_copy_in) simp
  then show "chain_bytes 16 (nq_desc example_queue) 0 (example_memory 0) = replicate 12 0 @ [0xAB, 0xCD, 0, 0]"
    unfolding 16 chain_bytes.simps by (simp add: example_queue_def offs_def DRAM_BASE_def example_reads)
  show "chain_ok (used_region example_queue) 1 16 (nq_desc example_queue) 0 (example_memory 0)"
    unfolding 16 chain_ok.simps
    by (simp add: example_queue_def offs_def DRAM_BASE_def example_reads desc_buffer_def span_def used_region_def net_qsz_def)
qed

theorem net_transmits_pending_chains_witness:
  "\<exists>s' m'. net_write external_methods 0x050 1 (example_net, example_memory 0) = (Ok (), s', m') \<and>
    ext_tx (backend s') = [[0xAB, 0xCD, 0, 0]] \<and> n_interrupt_status s' \<noteq> 0 \<and>
    used_elem example_queue (used_idx example_queue (example_memory 0)) m' = (0, 16)"
proof -
  have q: "tx_queue example_net = example_queue" "nq_last_avail_idx example_queue = 0" "ext_tx (backend example_net) = []"
    by (simp_all add: example_net_def example_queue_def virtio_net_new_def external_methods_def external_new_def)
  have f: "frames (chains example_queue [0] (example_memory 0)) = [[0xAB, 0xCD, 0, 0]]" "chains_ok 1 example_queue [0] (example_memory 0)"
    using example_chain by (simp_all add: chains_def chains_ok_def frames_def example_slot)
  from net_transmits_pending_chains [of 1 example_net "example_memory 0" "[0]", unfolded q example_slot, OF example_rings_ok refl f(2)]
  show ?thesis unfolding f(1) using example_chain(1) by (auto simp: chains_def example_slot example_qlen)
qed

subsection \<open>Reception\<close>

text \<open>The buffer of the slot \<open>i\<close> of the receive queue, and that it is fit for the frame \<open>p\<close>.\<close>

abbreviation slot_addr :: "net_queue \<Rightarrow> u16 \<Rightarrow> dram \<Rightarrow> u64" where
  "slot_addr q i m \<equiv> desc_addr (nq_desc q) (head_at q i m) m"

abbreviation slot_buffer :: "net_queue \<Rightarrow> u16 \<Rightarrow> dram \<Rightarrow> nat set" where
  "slot_buffer q i m \<equiv> desc_buffer (nq_desc q) (head_at q i m) m"

definition slot_fits :: "nat \<Rightarrow> net_queue \<Rightarrow> u16 \<Rightarrow> u8 list \<Rightarrow> dram \<Rightarrow> bool" where
  "slot_fits N q i p m \<longleftrightarrow> unat (head_at q i m) < N \<and>
     zext16 (desc_flags (nq_desc q) (head_at q i m) m) AND VRING_DESC_F_WRITE \<noteq> 0 \<and>
     12 + length p \<le> desc_len (nq_desc q) (head_at q i m) m \<and>
     span m (slot_addr q i m) (desc_len (nq_desc q) (head_at q i m) m) \<and>
     slot_buffer q i m \<inter> (ring_region N q \<union> used_region q) = {}"




lemma last_idx_frame [simp]: "net_qsz (q\<lparr> nq_last_avail_idx := i \<rparr>) = net_qsz q"
  "used_region (q\<lparr> nq_last_avail_idx := i \<rparr>) = used_region q" "ring_region N (q\<lparr> nq_last_avail_idx := i \<rparr>) = ring_region N q"
  "rings_ok N (q\<lparr> nq_last_avail_idx := i \<rparr>) m = rings_ok N q m" "avail_idx (q\<lparr> nq_last_avail_idx := i \<rparr>) m = avail_idx q m"
  "head_at (q\<lparr> nq_last_avail_idx := i \<rparr>) j m = head_at q j m" "used_idx (q\<lparr> nq_last_avail_idx := i \<rparr>) m = used_idx q m"
  "slot_fits N (q\<lparr> nq_last_avail_idx := i \<rparr>) j p m = slot_fits N q j p m"
  "used_part (q\<lparr> nq_last_avail_idx := i \<rparr>) u n = used_part q u n" "used_elems (q\<lparr> nq_last_avail_idx := i \<rparr>) u es m = used_elems q u es m"
  by (simp_all add: net_qsz_def used_part_def used_slot_def used_elems_def used_elem_def apart_def used_region_def ring_region_def rings_ok_def avail_idx_def head_at_def used_idx_def slot_fits_def)






text \<open>The frames have been delivered to the slots \<open>ips\<close>: every buffer starts with a zero header and the frame, and the
  used ring holds the heads and the lengths.\<close>

definition rx_log :: "net_queue \<Rightarrow> (u16 \<times> u8 list) list \<Rightarrow> dram \<Rightarrow> (u16 \<times> nat) list" where
  "rx_log q ips m = map (\<lambda>(i, p). (head_at q i m, 12 + length p)) ips"

lemma rx_log_frame [simp]: "rx_log (q\<lparr> nq_last_avail_idx := i \<rparr>) ips m = rx_log q ips m"
  by (simp add: rx_log_def)







end
