(* ===== verification/Rl_Peer.thy ===== *)
theory Rl_Peer
  imports Kn_Bytes
begin

text \<open>
  Peers of the relay and the pool of their addresses (\<^verbatim>\<open>relay/src/peer.rs\<close>).

  A \<open>HashMap\<close> is a partial function.  The standard library leaves the order of its iteration open, so
  \<open>cleanup_expired\<close> takes that order as an argument.  A point in time is a number of nanoseconds, and \<open>now\<close> is the
  reading of the clock.  \<open>pm_ok\<close> is the invariant of the tables: the three maps describe the same set of peers, and
  an address of the pool is either available or allocated to exactly the peer that carries it.
\<close>

subsection \<open>Peers\<close>

type_synonym peer_id = u64

record peer =
  p_id :: peer_id
  p_mac :: "u8 list"
  p_ip :: "u8 list"
  last_seen :: nat

definition peer_new :: "peer_id \<Rightarrow> u8 list \<Rightarrow> u8 list \<Rightarrow> nat \<Rightarrow> peer" where
  "peer_new i mac ip now = \<lparr> p_id = i, p_mac = mac, p_ip = ip, last_seen = now \<rparr>"

definition is_expired :: "peer \<Rightarrow> nat \<Rightarrow> nat \<Rightarrow> bool" where
  "is_expired p timeout_secs now \<longleftrightarrow> (now - last_seen p) div 1000000000 > timeout_secs"

subsection \<open>The address pool\<close>

record ip_pool =
  network_prefix :: "u8 list"
  available :: "u8 list"
  allocated :: "u8 \<rightharpoonup> peer_id"

abbreviation (input) IP_POOL_START :: nat where "IP_POOL_START \<equiv> 10"
abbreviation (input) IP_POOL_END :: nat where "IP_POOL_END \<equiv> 254"

definition ip_pool_new :: ip_pool where
  "ip_pool_new = \<lparr> network_prefix = [10, 0, 2], available = map word_of_nat [IP_POOL_START..<Suc IP_POOL_END],
     allocated = Map.empty \<rparr>"

definition allocate :: "peer_id \<Rightarrow> ip_pool \<Rightarrow> u8 list option \<times> ip_pool" where
  "allocate i p =
     (if available p = [] then (None, p)
      else let host = last (available p) in
        (Some [network_prefix p ! 0, network_prefix p ! 1, network_prefix p ! 2, host],
         p\<lparr> available := butlast (available p), allocated := (allocated p)(host \<mapsto> i) \<rparr>))"

definition is_internal :: "ip_pool \<Rightarrow> u8 list \<Rightarrow> bool" where
  "is_internal p ip \<longleftrightarrow>
     ip ! 0 = network_prefix p ! 0 \<and> ip ! 1 = network_prefix p ! 1 \<and> ip ! 2 = network_prefix p ! 2"

definition release :: "u8 list \<Rightarrow> ip_pool \<Rightarrow> ip_pool" where
  "release ip p =
     (if ip ! 0 = network_prefix p ! 0 \<and> ip ! 1 = network_prefix p ! 1 \<and> ip ! 2 = network_prefix p ! 2 then
        let host = ip ! 3 in
        if allocated p host \<noteq> None
        then p\<lparr> allocated := (allocated p)(host := None), available := available p @ [host] \<rparr>
        else p
      else p)"

subsection \<open>The peer tables\<close>

record peer_manager =
  peers :: "peer_id \<rightharpoonup> peer"
  mac_to_peer :: "u8 list \<rightharpoonup> peer_id"
  ip_to_peer :: "u8 list \<rightharpoonup> peer_id"
  pm_pool :: ip_pool
  next_id :: peer_id
  heartbeat_timeout :: nat

definition peer_manager_new :: peer_manager where
  "peer_manager_new = \<lparr> peers = Map.empty, mac_to_peer = Map.empty, ip_to_peer = Map.empty,
     pm_pool = ip_pool_new, next_id = 1, heartbeat_timeout = 120 \<rparr>"

definition register_new :: "u8 list \<Rightarrow> nat \<Rightarrow> peer_manager \<Rightarrow> (peer_id \<times> u8 list) option \<times> peer_manager" where
  "register_new mac now m =
     (let i = next_id m; m = m\<lparr> next_id := next_id m + 1 \<rparr> in
      case allocate i (pm_pool m) of
        (None, pool) \<Rightarrow> (None, m\<lparr> pm_pool := pool \<rparr>)
      | (Some ip, pool) \<Rightarrow>
          (Some (i, ip), m\<lparr> pm_pool := pool, peers := (peers m)(i \<mapsto> peer_new i mac ip now),
             mac_to_peer := (mac_to_peer m)(mac \<mapsto> i), ip_to_peer := (ip_to_peer m)(ip \<mapsto> i) \<rparr>))"

definition register :: "u8 list \<Rightarrow> nat \<Rightarrow> peer_manager \<Rightarrow> (peer_id \<times> u8 list) option \<times> peer_manager" where
  "register mac now m =
     (case mac_to_peer m mac of
        Some existing_id \<Rightarrow>
          (case peers m existing_id of
             Some p \<Rightarrow> (Some (existing_id, p_ip p), m)
           | None \<Rightarrow> register_new mac now m)
      | None \<Rightarrow> register_new mac now m)"

definition unregister :: "peer_id \<Rightarrow> peer_manager \<Rightarrow> peer_manager" where
  "unregister i m =
     (case peers m i of
        Some p \<Rightarrow> m\<lparr> peers := (peers m)(i := None), mac_to_peer := (mac_to_peer m)(p_mac p := None),
          ip_to_peer := (ip_to_peer m)(p_ip p := None), pm_pool := release (p_ip p) (pm_pool m) \<rparr>
      | None \<Rightarrow> m)"

definition pm_touch :: "peer_id \<Rightarrow> nat \<Rightarrow> peer_manager \<Rightarrow> peer_manager" where
  "pm_touch i now m =
     (case peers m i of
        Some p \<Rightarrow> m\<lparr> peers := (peers m)(i \<mapsto> p\<lparr> last_seen := now \<rparr>) \<rparr>
      | None \<Rightarrow> m)"

definition find_by_mac :: "peer_manager \<Rightarrow> u8 list \<Rightarrow> peer option" where
  "find_by_mac m mac = (case mac_to_peer m mac of Some i \<Rightarrow> peers m i | None \<Rightarrow> None)"

definition peer_id_by_ip :: "peer_manager \<Rightarrow> u8 list \<Rightarrow> peer_id option" where
  "peer_id_by_ip m ip = ip_to_peer m ip"

definition cleanup_expired :: "peer_id list \<Rightarrow> nat \<Rightarrow> peer_manager \<Rightarrow> peer_id list \<times> peer_manager" where
  "cleanup_expired order now m =
     (let expired = filter (\<lambda>i. case peers m i of Some p \<Rightarrow> is_expired p (heartbeat_timeout m) now | None \<Rightarrow> False) order
      in (expired, fold unregister expired m))"

subsection \<open>The contract of the pool\<close>

text \<open>What the peer tables rely on: an allocation hands out an address that nobody owns and fails only when every
  address is owned, and a release gives up exactly one address.\<close>

locale addr_pool =
  fixes alloc :: "'i \<Rightarrow> 'p \<Rightarrow> 'a option \<times> 'p" and give_back :: "'a \<Rightarrow> 'p \<Rightarrow> 'p"
    and owner :: "'p \<Rightarrow> 'a \<rightharpoonup> 'i" and good :: "'p \<Rightarrow> bool" and addrs :: "'a set"
  assumes owner_addrs: "good p \<Longrightarrow> dom (owner p) \<subseteq> addrs"
    and alloc_Some: "good p \<Longrightarrow> alloc i p = (Some a, p') \<Longrightarrow>
      good p' \<and> a \<in> addrs \<and> owner p a = None \<and> owner p' = (owner p)(a \<mapsto> i)"
    and alloc_None: "good p \<Longrightarrow> alloc i p = (None, p') \<Longrightarrow> p' = p \<and> dom (owner p) = addrs"
    and give_back: "good p \<Longrightarrow> a \<in> addrs \<Longrightarrow> good (give_back a p) \<and> owner (give_back a p) = (owner p)(a := None)"
    and finite_addrs: "finite addrs"
begin

lemma alloc_fails_iff:
  assumes "good p"
  shows "fst (alloc i p) = None \<longleftrightarrow> dom (owner p) = addrs"
  using alloc_Some [OF assms, of i] alloc_None [OF assms, of i]
  by (cases "alloc i p"; cases "fst (alloc i p)") auto

lemma alloc_after_give_back:
  assumes "good p" "a \<in> addrs"
  shows "fst (alloc i (give_back a p)) \<noteq> None"
proof -
  from give_back [OF assms] have "good (give_back a p)" "a \<notin> dom (owner (give_back a p))" by auto
  with assms(2) show ?thesis using alloc_fails_iff [of "give_back a p" i] by auto
qed

text \<open>As many owners fit in as there are addresses.\<close>

lemma alloc_count:
  assumes "good p" "alloc i p = (Some a, p')"
  shows "card (dom (owner p')) = Suc (card (dom (owner p)))" "card (dom (owner p')) \<le> card addrs"
proof -
  from alloc_Some [OF assms] have p': "good p'" "owner p a = None" "dom (owner p') = insert a (dom (owner p))" by auto
  have "finite (dom (owner p))" using owner_addrs [OF assms(1)] finite_addrs by (rule finite_subset)
  with p' show "card (dom (owner p')) = Suc (card (dom (owner p)))" by (simp add: domIff)
  show "card (dom (owner p')) \<le> card addrs" using owner_addrs [OF p'(1)] finite_addrs by (simp add: card_mono)
qed

end

definition pool_hosts :: "u8 set" where
  "pool_hosts = {h. 10 \<le> h \<and> h \<le> 254}"

definition pool_addrs :: "u8 list set" where
  "pool_addrs = (\<lambda>h. [10, 0, 2, h]) ` pool_hosts"

definition pool_ok :: "ip_pool \<Rightarrow> bool" where
  "pool_ok p \<longleftrightarrow> network_prefix p = [10, 0, 2] \<and> distinct (available p) \<and>
     set (available p) \<inter> dom (allocated p) = {} \<and> set (available p) \<union> dom (allocated p) = pool_hosts"

definition pool_owner :: "ip_pool \<Rightarrow> u8 list \<rightharpoonup> peer_id" where
  "pool_owner p ip = (case ip of [a, b, c, h] \<Rightarrow> if a = 10 \<and> b = 0 \<and> c = 2 then allocated p h else None | _ \<Rightarrow> None)"

lemma pool_owner_addr [simp]: "pool_owner p [10, 0, 2, h] = allocated p h"
  by (simp add: pool_owner_def)

lemma pool_owner_Some: "pool_owner p ip = Some i \<longleftrightarrow> (\<exists>h. ip = [10, 0, 2, h] \<and> allocated p h = Some i)"
  by (auto simp: pool_owner_def split: list.splits if_splits)

lemma pool_owner_upd: "allocated q = (allocated p)(h := x) \<Longrightarrow> pool_owner q = (pool_owner p)([10, 0, 2, h] := x)"
  by (auto simp: pool_owner_def fun_eq_iff split: list.splits)

lemma dom_pool_owner: "dom (pool_owner p) = (\<lambda>h. [10, 0, 2, h]) ` dom (allocated p)"
  by (auto simp: pool_owner_Some dom_def)

lemma inj_addr: "inj (\<lambda>h :: u8. [10, 0, 2, h])"
  by (rule injI) simp

lemma allocate_Some_iff:
  "allocate i p = (Some ip, p') \<longleftrightarrow> available p \<noteq> [] \<and>
    ip = [network_prefix p ! 0, network_prefix p ! 1, network_prefix p ! 2, last (available p)] \<and>
    p' = p\<lparr> available := butlast (available p), allocated := (allocated p)(last (available p) \<mapsto> i) \<rparr>"
  by (auto simp: allocate_def Let_def)

lemma pool_last:
  assumes "pool_ok p" "available p \<noteq> []"
  shows "last (available p) \<in> pool_hosts" "allocated p (last (available p)) = None"
    "set (butlast (available p)) = set (available p) - {last (available p)}"
proof -
  obtain xs h where xs: "available p = xs @ [h]" using assms(2) by (metis append_butlast_last_id)
  with assms(1) show "last (available p) \<in> pool_hosts" "allocated p (last (available p)) = None"
    "set (butlast (available p)) = set (available p) - {last (available p)}"
    by (auto simp: pool_ok_def)
qed

lemma allocate_ok:
  assumes "pool_ok p" "allocate i p = (Some ip, p')"
  shows "pool_ok p' \<and> ip \<in> pool_addrs \<and> pool_owner p ip = None \<and> pool_owner p' = (pool_owner p)(ip \<mapsto> i)"
proof -
  let ?h = "last (available p)"
  from assms(2) have ne: "available p \<noteq> []" and ip: "ip = [10, 0, 2, ?h]"
    and p': "p' = p\<lparr> available := butlast (available p), allocated := (allocated p)(?h \<mapsto> i) \<rparr>"
    using assms(1) by (auto simp: allocate_Some_iff pool_ok_def)
  note l = pool_last [OF assms(1) ne]
  have "pool_ok p'"
    using assms(1) l ne by (auto simp: pool_ok_def p' distinct_butlast)
  moreover have "pool_owner p' = (pool_owner p)(ip \<mapsto> i)"
    unfolding ip by (rule pool_owner_upd) (simp add: p')
  ultimately show ?thesis using l by (simp add: ip pool_addrs_def)
qed

lemma release_ok:
  assumes "pool_ok p" "ip \<in> pool_addrs"
  shows "pool_ok (release ip p) \<and> pool_owner (release ip p) = (pool_owner p)(ip := None)"
proof -
  from assms obtain h where h: "ip = [10, 0, 2, h]" "h \<in> pool_hosts" "network_prefix p = [10, 0, 2]"
    by (auto simp: pool_addrs_def pool_ok_def)
  show ?thesis
  proof (cases "allocated p h")
    case None
    with h show ?thesis using assms(1) by (simp add: release_def fun_upd_idem)
  next
    case (Some i)
    with assms(1) h have "pool_ok (release ip p)" by (auto simp: release_def pool_ok_def domIff)
    moreover have "pool_owner (release ip p) = (pool_owner p)(ip := None)"
      unfolding h(1) by (rule pool_owner_upd) (use Some h in \<open>simp add: release_def\<close>)
    ultimately show ?thesis by simp
  qed
qed

interpretation pool: addr_pool allocate release pool_owner pool_ok pool_addrs
proof
  fix p :: ip_pool and i a p'
  assume ok: "pool_ok p"
  then show "dom (pool_owner p) \<subseteq> pool_addrs" by (auto simp: dom_pool_owner pool_ok_def pool_addrs_def)
  show "pool_ok p' \<and> a \<in> pool_addrs \<and> pool_owner p a = None \<and> pool_owner p' = (pool_owner p)(a \<mapsto> i)"
    if "allocate i p = (Some a, p')" using allocate_ok [OF ok that] .
  show "p' = p \<and> dom (pool_owner p) = pool_addrs" if "allocate i p = (None, p')"
    using that ok by (auto simp: allocate_def Let_def dom_pool_owner pool_ok_def pool_addrs_def split: if_splits)
  show "pool_ok (release a p) \<and> pool_owner (release a p) = (pool_owner p)(a := None)" if "a \<in> pool_addrs"
    using release_ok [OF ok that] .
qed (simp add: pool_addrs_def)

lemma pool_new_ok: "pool_ok ip_pool_new"
proof -
  have inj: "inj_on (word_of_nat :: nat \<Rightarrow> u8) {10..<255}"
    by (rule inj_on_inverseI [of _ unat]) (simp add: unat_of_nat)
  have "word_of_nat ` {10..<255} = pool_hosts"
  proof (intro equalityI subsetI)
    fix h :: u8 assume "h \<in> pool_hosts"
    then have "unat h \<in> {10..<255}" by (simp add: pool_hosts_def word_le_nat_alt)
    then show "h \<in> word_of_nat ` {10..<255}" by (rule image_eqI [rotated]) simp
  qed (auto simp: pool_hosts_def word_le_nat_alt unat_of_nat)
  with inj show ?thesis
    unfolding pool_ok_def ip_pool_new_def by (simp add: distinct_map del: upt_rec_numeral upt_Suc)
qed

subsection \<open>The invariant of the peer tables\<close>

definition pm_ok :: "peer_manager \<Rightarrow> bool" where
  "pm_ok m \<longleftrightarrow> pool_ok (pm_pool m) \<and> ip_to_peer m = pool_owner (pm_pool m) \<and>
     (\<forall>i p. peers m i = Some p \<longrightarrow>
        p_id p = i \<and> mac_to_peer m (p_mac p) = Some i \<and> ip_to_peer m (p_ip p) = Some i \<and> i < next_id m) \<and>
     (\<forall>mac i. mac_to_peer m mac = Some i \<longrightarrow> (\<exists>p. peers m i = Some p \<and> p_mac p = mac)) \<and>
     (\<forall>ip i. ip_to_peer m ip = Some i \<longrightarrow> (\<exists>p. peers m i = Some p \<and> p_ip p = ip))"

lemma pm_okI:
  assumes "pool_ok (pm_pool m)" "ip_to_peer m = pool_owner (pm_pool m)"
    and "\<And>i p. peers m i = Some p \<Longrightarrow>
      p_id p = i \<and> mac_to_peer m (p_mac p) = Some i \<and> ip_to_peer m (p_ip p) = Some i \<and> i < next_id m"
    and "\<And>mac i. mac_to_peer m mac = Some i \<Longrightarrow> \<exists>p. peers m i = Some p \<and> p_mac p = mac"
    and "\<And>ip i. ip_to_peer m ip = Some i \<Longrightarrow> \<exists>p. peers m i = Some p \<and> p_ip p = ip"
  shows "pm_ok m"
  using assms unfolding pm_ok_def by blast

lemma pm_okD:
  assumes "pm_ok m" "peers m i = Some p"
  shows "p_id p = i" "mac_to_peer m (p_mac p) = Some i" "ip_to_peer m (p_ip p) = Some i" "i < next_id m"
    "p_ip p \<in> pool_addrs" "pool_owner (pm_pool m) (p_ip p) = Some i"
  using assms pool.owner_addrs [of "pm_pool m"] by (auto simp: pm_ok_def dom_def subset_eq)

lemma pm_ok_pool: "pm_ok m \<Longrightarrow> pool_ok (pm_pool m)"
  by (simp add: pm_ok_def)

lemma pm_ok_new: "pm_ok peer_manager_new"
proof -
  have "pool_owner ip_pool_new = Map.empty"
    by (auto simp: fun_eq_iff pool_owner_def ip_pool_new_def split: list.splits)
  then show ?thesis by (simp add: pm_ok_def peer_manager_new_def pool_new_ok)
qed

lemma pm_ok_mac: "pm_ok m \<Longrightarrow> mac_to_peer m mac = Some i \<Longrightarrow> \<exists>p. peers m i = Some p \<and> p_mac p = mac"
  by (auto simp: pm_ok_def)

lemma pm_ok_ip: "pm_ok m \<Longrightarrow> ip_to_peer m ip = Some i \<Longrightarrow> \<exists>p. peers m i = Some p \<and> p_ip p = ip"
  by (auto simp: pm_ok_def)

lemma less_next:
  fixes n :: peer_id
  assumes "n \<noteq> - 1"
  shows "n < n + 1" "i < n \<Longrightarrow> i < n + 1"
proof -
  have "1 + n \<noteq> 0" using assms by (metis add.commute add_eq_0_iff)
  then show "n < n + 1" by (simp add: word_less_nat_alt unatSuc add.commute)
  then show "i < n \<Longrightarrow> i < n + 1" by simp
qed

text \<open>A registration of an unknown address either fails, when all addresses are owned, or adds one peer.\<close>

lemma register_new_cases:
  assumes "pm_ok m" "next_id m \<noteq> - 1" "mac_to_peer m mac = None" "register_new mac now m = (r, m')"
  shows "pm_ok m' \<and> next_id m' = next_id m + 1 \<and> heartbeat_timeout m' = heartbeat_timeout m \<and>
    (case r of
       None \<Rightarrow> peers m' = peers m \<and> dom (ip_to_peer m) = pool_addrs
     | Some (i, ip) \<Rightarrow> i = next_id m \<and> ip \<in> pool_addrs \<and> ip_to_peer m ip = None \<and> peers m i = None \<and>
         peers m' = (peers m)(i \<mapsto> peer_new i mac ip now))"
proof (cases "allocate (next_id m) (pm_pool m)")
  case (Pair a pool)
  show ?thesis
  proof (cases a)
    case None
    with pool.alloc_None [OF pm_ok_pool [OF assms(1)]] Pair have "pool = pm_pool m" "dom (pool_owner (pm_pool m)) = pool_addrs" by auto
    with None Pair assms show ?thesis by (auto simp: register_new_def pm_ok_def less_next)
  next
    case (Some ip)
    let ?i = "next_id m"
    from pool.alloc_Some [OF pm_ok_pool [OF assms(1)]] Pair Some have pool: "pool_ok pool" "ip \<in> pool_addrs"
      "pool_owner (pm_pool m) ip = None" "pool_owner pool = (pool_owner (pm_pool m))(ip \<mapsto> ?i)" by auto
    have fresh: "peers m ?i = None"
      using pm_okD(4) [OF assms(1), of ?i] by (cases "peers m ?i") auto
    from Some Pair assms(4) have m': "r = Some (?i, ip)" "peers m' = (peers m)(?i \<mapsto> peer_new ?i mac ip now)"
      "mac_to_peer m' = (mac_to_peer m)(mac \<mapsto> ?i)" "ip_to_peer m' = (ip_to_peer m)(ip \<mapsto> ?i)"
      "pm_pool m' = pool" "next_id m' = ?i + 1" "heartbeat_timeout m' = heartbeat_timeout m"
      by (auto simp: register_new_def Let_def)
    have ips: "ip_to_peer m = pool_owner (pm_pool m)" using assms(1) by (simp add: pm_ok_def)
    have old: "j \<noteq> ?i \<and> p_id p = j \<and> mac_to_peer m (p_mac p) = Some j \<and> p_mac p \<noteq> mac \<and>
      ip_to_peer m (p_ip p) = Some j \<and> p_ip p \<noteq> ip \<and> j < ?i" if "peers m j = Some p" for j p
    proof -
      note d = pm_okD [OF assms(1) that]
      have "p_mac p \<noteq> mac" using d(2) assms(3) by (metis option.distinct(1))
      moreover have "p_ip p \<noteq> ip" using d(6) pool(3) by (metis option.distinct(1))
      moreover have "j \<noteq> ?i" using d(4) by simp
      ultimately show ?thesis using d by simp
    qed
    have "pm_ok m'"
    proof (rule pm_okI)
      fix j p assume "peers m' j = Some p"
      then consider "j = ?i" "p = peer_new ?i mac ip now" | "j \<noteq> ?i" "peers m j = Some p"
        unfolding m' by (cases "j = ?i") auto
      then show "p_id p = j \<and> mac_to_peer m' (p_mac p) = Some j \<and> ip_to_peer m' (p_ip p) = Some j \<and> j < next_id m'"
        unfolding m' by cases (use old [of j p] less_next [OF assms(2)] in \<open>simp_all add: peer_new_def\<close>)
    next
      fix a j assume "mac_to_peer m' a = Some j"
      then show "\<exists>p. peers m' j = Some p \<and> p_mac p = a"
        unfolding m' using pm_ok_mac [OF assms(1), of a j] fresh by (cases "a = mac") (auto simp: peer_new_def)
    next
      fix a j assume "ip_to_peer m' a = Some j"
      then show "\<exists>p. peers m' j = Some p \<and> p_ip p = a"
        unfolding m' using pm_ok_ip [OF assms(1), of a j] fresh by (cases "a = ip") (auto simp: peer_new_def)
    qed (simp_all add: m' pool(1,4) ips)
    with m' fresh pool(2,3) ips show ?thesis by simp
  qed
qed

text \<open>A registration of a known hardware address returns the peer it belongs to and changes nothing.\<close>

lemma register_known:
  assumes "pm_ok m" "mac_to_peer m mac = Some i"
  shows "\<exists>p. peers m i = Some p \<and> p_mac p = mac \<and> register mac now m = (Some (i, p_ip p), m)"
  using pm_ok_mac [OF assms] assms(2) by (auto simp: register_def)

lemma register_ok:
  assumes "pm_ok m" "next_id m \<noteq> - 1" "register mac now m = (r, m')"
  shows "pm_ok m' \<and> next_id m' \<le> next_id m + 1 \<and> next_id m \<le> next_id m' \<and> heartbeat_timeout m' = heartbeat_timeout m \<and>
    (case r of
       None \<Rightarrow> peers m' = peers m \<and> dom (ip_to_peer m) = pool_addrs
     | Some (i, ip) \<Rightarrow> \<exists>p. peers m' i = Some p \<and> p_mac p = mac \<and> p_ip p = ip \<and>
         (peers m' = peers m \<or> i = next_id m \<and> peers m i = None \<and> peers m' = (peers m)(i \<mapsto> p)))"
proof (cases "mac_to_peer m mac")
  case None
  then have "register_new mac now m = (r, m')" using assms(3) by (simp add: register_def)
  from register_new_cases [OF assms(1,2) None this] show ?thesis
    using less_next(1) [OF assms(2)] by (auto simp: peer_new_def split: option.splits)
next
  case (Some i)
  from register_known [OF assms(1) this, of now] assms(3) show ?thesis
    using assms(1) less_next(1) [OF assms(2)] by auto
qed

lemma unregister_ok:
  assumes "pm_ok m"
  shows "pm_ok (unregister i m) \<and> peers (unregister i m) = (peers m)(i := None) \<and> next_id (unregister i m) = next_id m"
proof (cases "peers m i")
  case None
  with assms show ?thesis by (simp add: unregister_def fun_upd_idem)
next
  case (Some p)
  let ?m = "unregister i m"
  have m: "peers ?m = (peers m)(i := None)" "mac_to_peer ?m = (mac_to_peer m)(p_mac p := None)"
    "ip_to_peer ?m = (ip_to_peer m)(p_ip p := None)" "pm_pool ?m = release (p_ip p) (pm_pool m)" "next_id ?m = next_id m"
    using Some by (simp_all add: unregister_def)
  note d = pm_okD [OF assms Some] and pool = pool.give_back [OF pm_ok_pool [OF assms]]
  have "pm_ok ?m"
  proof (rule pm_okI)
    fix j q assume "peers ?m j = Some q"
    then have q: "j \<noteq> i" "peers m j = Some q" unfolding m by (auto split: if_splits)
    note e = pm_okD [OF assms q(2)]
    have "p_mac q \<noteq> p_mac p" "p_ip q \<noteq> p_ip p" using e(2,3) d(2,3) q(1) by (metis option.inject)+
    with e show "p_id q = j \<and> mac_to_peer ?m (p_mac q) = Some j \<and> ip_to_peer ?m (p_ip q) = Some j \<and> j < next_id ?m"
      unfolding m by simp
  next
    fix a j assume "mac_to_peer ?m a = Some j"
    then have a: "a \<noteq> p_mac p" "mac_to_peer m a = Some j" unfolding m by (auto split: if_splits)
    with pm_ok_mac [OF assms a(2)] Some show "\<exists>q. peers ?m j = Some q \<and> p_mac q = a" unfolding m by auto
  next
    fix a j assume "ip_to_peer ?m a = Some j"
    then have a: "a \<noteq> p_ip p" "ip_to_peer m a = Some j" unfolding m by (auto split: if_splits)
    with pm_ok_ip [OF assms a(2)] Some show "\<exists>q. peers ?m j = Some q \<and> p_ip q = a" unfolding m by auto
  next
    show "ip_to_peer ?m = pool_owner (pm_pool ?m)" "pool_ok (pm_pool ?m)"
      unfolding m using pool [OF d(5)] assms by (simp_all add: pm_ok_def)
  qed
  with m show ?thesis by simp
qed

lemma pm_touch_ok:
  assumes "pm_ok m"
  shows "pm_ok (pm_touch i now m) \<and> dom (peers (pm_touch i now m)) = dom (peers m) \<and> next_id (pm_touch i now m) = next_id m"
proof (cases "peers m i")
  case (Some p)
  let ?m = "pm_touch i now m"
  have m: "peers ?m = (peers m)(i \<mapsto> p\<lparr> last_seen := now \<rparr>)" "mac_to_peer ?m = mac_to_peer m"
    "ip_to_peer ?m = ip_to_peer m" "pm_pool ?m = pm_pool m" "next_id ?m = next_id m"
    using Some by (simp_all add: pm_touch_def)
  have "pm_ok ?m"
  proof (rule pm_okI)
    fix j q assume "peers ?m j = Some q"
    then obtain q' where q': "peers m j = Some q'" "p_id q = p_id q'" "p_mac q = p_mac q'" "p_ip q = p_ip q'"
      unfolding m using Some by (cases "j = i") auto
    then show "p_id q = j \<and> mac_to_peer ?m (p_mac q) = Some j \<and> ip_to_peer ?m (p_ip q) = Some j \<and> j < next_id ?m"
      using pm_okD [OF assms q'(1)] unfolding m by simp
  qed (use assms pm_ok_mac [OF assms] pm_ok_ip [OF assms] Some in \<open>(fastforce simp: m pm_ok_def)+\<close>)
  with m Some show ?thesis by auto
qed (use assms in \<open>simp add: pm_touch_def\<close>)

lemma unregister_all_ok:
  "pm_ok m \<Longrightarrow> pm_ok (fold unregister is m) \<and> peers (fold unregister is m) = peers m |` (- set is) \<and>
    next_id (fold unregister is m) = next_id m"
proof (induction "is" arbitrary: m)
  case (Cons i "is")
  from unregister_ok [OF Cons.prems, of i] Cons.IH [of "unregister i m"] show ?case
    by (auto simp: restrict_map_def fun_eq_iff)
qed (simp add: restrict_map_def)

lemma cleanup_expired_ok:
  assumes "pm_ok m" "set order = dom (peers m)" "cleanup_expired order now m = (expired, m')"
  shows "pm_ok m' \<and> next_id m' = next_id m \<and> peers m' = peers m |` (- set expired) \<and>
    set expired = {i. \<exists>p. peers m i = Some p \<and> is_expired p (heartbeat_timeout m) now}"
  using assms unregister_all_ok [OF assms(1)]
  by (auto simp: cleanup_expired_def Let_def split: option.splits)

end
