(* ===== verification/Rl_Hub.thy ===== *)
theory Rl_Hub
  imports Rl_Peer
begin

text \<open>
  The hub of the relay (\<^verbatim>\<open>relay/src/hub.rs\<close>) and its datagrams (\<^verbatim>\<open>relay/src/protocol.rs\<close>).

  Each handler of the hub is one step here; interleavings of two handlers at their suspension points are not modelled.
  The channels to the connection tasks and the broadcast channel belong to the runtime library; what the hub
  sends on them is recorded in \<open>hub_sent\<close>, with the channel, and in \<open>hub_broadcast\<close>.  JSON is written and read by a
  library, given here as the argument \<open>codec\<close>, and \<open>proxy\<close> is the answer of the external proxy to a frame.
\<close>

unbundle bit_operations_syntax

subsection \<open>Datagrams\<close>

abbreviation (input) MSG_TYPE_CONTROL :: u8 where "MSG_TYPE_CONTROL \<equiv> 0"
abbreviation (input) MSG_TYPE_DATA :: u8 where "MSG_TYPE_DATA \<equiv> 1"
abbreviation (input) GATEWAY_IP :: "u8 list" where "GATEWAY_IP \<equiv> [10, 0, 2, 2]"
abbreviation (input) GATEWAY_MAC :: "u8 list" where "GATEWAY_MAC \<equiv> [0x52, 0x54, 0x00, 0x12, 0x34, 0x56]"
abbreviation (input) NETWORK_MASK :: "u8 list" where "NETWORK_MASK \<equiv> [255, 255, 255, 0]"
abbreviation (input) DNS_SERVER :: "u8 list" where "DNS_SERVER \<equiv> [8, 8, 8, 8]"

datatype control_message =
    Register "u8 list"
  | Assigned "u8 list" "u8 list" "u8 list" "u8 list"
  | Heartbeat
  | HeartbeatAck
  | Disconnect
  | Error str
  | PeerList "(u8 list \<times> u8 list) list"

record json_codec =
  to_vec :: "control_message \<Rightarrow> u8 list"
  from_slice :: "u8 list \<Rightarrow> control_message option"

datatype decode_error = EmptyMessage | NotControl u8 | ParseFailed

definition encode :: "json_codec \<Rightarrow> control_message \<Rightarrow> u8 list" where
  "encode codec m = MSG_TYPE_CONTROL # to_vec codec m"

definition decode :: "json_codec \<Rightarrow> u8 list \<Rightarrow> (control_message, decode_error) result" where
  "decode codec data =
     (if data = [] then Err EmptyMessage
      else if data ! 0 \<noteq> MSG_TYPE_CONTROL then Err (NotControl (data ! 0))
      else case from_slice codec (drop 1 data) of Some m \<Rightarrow> Ok m | None \<Rightarrow> Err ParseFailed)"

definition encode_data_frame :: "u8 list \<Rightarrow> u8 list" where
  "encode_data_frame ethernet_frame = MSG_TYPE_DATA # ethernet_frame"

subsection \<open>The Internet checksum\<close>

fun sum_words :: "u32 \<Rightarrow> u8 list \<Rightarrow> u32" where
  "sum_words acc (a # b # data) = sum_words (acc + ucast (be16 a b)) data"
| "sum_words acc [a] = acc + shl (ucast a) 8"
| "sum_words acc [] = acc"

lemma fold_step:
  fixes s :: u32
  assumes "0xFFFF < s"
  shows "unat ((s AND 0xFFFF) + shr s 16) = unat s mod 65536 + unat s div 65536"
proof -
  have "s AND 0xFFFF = take_bit 16 s" by (rule bit_word_eqI) (simp add: bitx bit_take_bit_iff)
  then have "unat (s AND 0xFFFF) = unat s mod 65536" by (simp add: take_bit_eq_mod unat_mod)
  moreover have "unat (shr s 16) = unat s div 65536" by (simp add: drop_bit_eq_div unat_div)
  moreover have "unat s < 2 ^ LENGTH(32)" by (rule unsigned_less)
  ultimately show ?thesis by (simp add: unat_word_ariths)
qed

function fold_carry :: "u32 \<Rightarrow> u32" where
  "fold_carry s = (if s > 0xFFFF then fold_carry ((s AND 0xFFFF) + shr s 16) else s)"
  by pat_completeness auto

termination fold_carry
proof (relation "measure unat")
  fix s :: u32 assume "0xFFFF < s"
  then have "65535 < unat s" by (simp add: word_less_nat_alt)
  then have "1 \<le> unat s div 65536" by (simp add: div_greater_zero_iff Suc_leI)
  with div_mult_mod_eq [of "unat s" 65536] have "unat s mod 65536 + unat s div 65536 < unat s" by linarith
  then show "((s AND 0xFFFF) + shr s 16, s) \<in> measure unat" using \<open>0xFFFF < s\<close> by (simp add: fold_step)
qed simp

definition compute_checksum :: "u8 list \<Rightarrow> u16" where
  "compute_checksum data = NOT (ucast (fold_carry (sum_words 0 data)))"

subsection \<open>The hub\<close>

datatype peer_message = Send "u8 list" | DisconnectPeer

record hub =
  hub_peers :: peer_manager
  peer_senders :: "peer_id \<rightharpoonup> nat"
  hub_sent :: "(nat \<times> peer_message) list"
  hub_broadcast :: "(peer_id \<times> u8 list) list"

definition hub_new :: hub where
  "hub_new = \<lparr> hub_peers = peer_manager_new, peer_senders = Map.empty, hub_sent = [], hub_broadcast = [] \<rparr>"

definition send_to_peer :: "peer_id \<Rightarrow> u8 list \<Rightarrow> hub \<Rightarrow> hub" where
  "send_to_peer i data h =
     (case peer_senders h i of Some ch \<Rightarrow> h\<lparr> hub_sent := hub_sent h @ [(ch, Send data)] \<rparr> | None \<Rightarrow> h)"

definition register_peer :: "json_codec \<Rightarrow> u8 list \<Rightarrow> nat \<Rightarrow> nat \<Rightarrow> hub \<Rightarrow> (peer_id \<times> u8 list) option \<times> hub" where
  "register_peer codec mac sender now h =
     (case register mac now (hub_peers h) of
        (None, m) \<Rightarrow> (None, h\<lparr> hub_peers := m \<rparr>)
      | (Some (i, ip), m) \<Rightarrow>
          (let h = h\<lparr> hub_peers := m, peer_senders := (peer_senders h)(i \<mapsto> sender) \<rparr>
           in (Some (i, ip), send_to_peer i (encode codec (Assigned ip GATEWAY_IP NETWORK_MASK DNS_SERVER)) h)))"

definition unregister_peer :: "peer_id \<Rightarrow> hub \<Rightarrow> hub" where
  "unregister_peer i h =
     h\<lparr> hub_peers := unregister i (hub_peers h), peer_senders := (peer_senders h)(i := None) \<rparr>"

definition touch_peer :: "peer_id \<Rightarrow> nat \<Rightarrow> hub \<Rightarrow> hub" where
  "touch_peer i now h = h\<lparr> hub_peers := pm_touch i now (hub_peers h) \<rparr>"

definition handle_control_message :: "json_codec \<Rightarrow> peer_id \<Rightarrow> nat \<Rightarrow> u8 list \<Rightarrow> hub \<Rightarrow> hub" where
  "handle_control_message codec from_peer now data h =
     (case decode codec data of
        Ok Heartbeat \<Rightarrow> send_to_peer from_peer (encode codec HeartbeatAck) (touch_peer from_peer now h)
      | Ok Disconnect \<Rightarrow> unregister_peer from_peer h
      | _ \<Rightarrow> h)"

definition is_arp_request_for_gateway :: "u8 list \<Rightarrow> bool" where
  "is_arp_request_for_gateway frame \<longleftrightarrow>
     \<not> length frame < 42 \<and> \<not> (frame ! 20 \<noteq> 0 \<or> frame ! 21 \<noteq> 1) \<and> bytes_at 38 4 frame = GATEWAY_IP"

definition generate_arp_reply :: "u8 list \<Rightarrow> u8 list" where
  "generate_arp_reply request =
     (let reply = replicate 42 0;
          reply = overlay 0 (bytes_at 6 6 request) reply;
          reply = overlay 6 GATEWAY_MAC reply;
          reply = overlay 12 [0x08, 0x06] reply;
          reply = overlay 14 [0x00, 0x01] reply;
          reply = overlay 16 [0x08, 0x00] reply;
          reply = reply[18 := 6];
          reply = reply[19 := 4];
          reply = overlay 20 [0x00, 0x02] reply;
          reply = overlay 22 GATEWAY_MAC reply;
          reply = overlay 28 GATEWAY_IP reply;
          reply = overlay 32 (bytes_at 22 6 request) reply
      in overlay 38 (bytes_at 28 4 request) reply)"

definition set_checksum :: "nat \<Rightarrow> u16 \<Rightarrow> u8 list \<Rightarrow> u8 list" where
  "set_checksum k c reply = reply[k := ucast (shr c 8), Suc k := ucast (c AND 0xFF)]"

definition generate_icmp_reply :: "u8 list \<Rightarrow> u8 list" where
  "generate_icmp_reply request =
     (let reply = overlay 0 (bytes_at 6 6 request) request;
          reply = overlay 6 GATEWAY_MAC reply;
          src_ip = bytes_at 26 4 request;
          dst_ip = bytes_at 30 4 request;
          reply = overlay 26 dst_ip reply;
          reply = overlay 30 src_ip reply;
          reply = reply[24 := 0, 25 := 0];
          reply = set_checksum 24 (compute_checksum (bytes_at 14 20 reply)) reply;
          reply = reply[34 := 0];
          reply = reply[36 := 0, 37 := 0]
      in set_checksum 36 (compute_checksum (drop 34 reply)) reply)"

definition handle_gateway_packet :: "u8 list \<Rightarrow> u8 list option" where
  "handle_gateway_packet frame =
     (if length frame < 34 then None
      else if frame ! 23 = 1 \<and> length frame \<ge> 42 \<and> frame ! 34 = 8 then Some (generate_icmp_reply frame)
      else None)"

text \<open>The end of \<open>route_data_frame\<close>: delivery by hardware address.\<close>

definition route_by_mac :: "peer_id \<Rightarrow> u8 list \<Rightarrow> hub \<Rightarrow> hub" where
  "route_by_mac from_peer frame h =
     (let dst_mac = bytes_at 0 6 frame in
      if dst_mac = replicate 6 0xFF
      then h\<lparr> hub_broadcast := hub_broadcast h @ [(from_peer, encode_data_frame frame)] \<rparr>
      else if dst_mac = GATEWAY_MAC then h
      else case find_by_mac (hub_peers h) dst_mac of
          Some p \<Rightarrow> send_to_peer (p_id p) (encode_data_frame frame) h
        | None \<Rightarrow> h)"

definition reply_to :: "peer_id \<Rightarrow> u8 list option \<Rightarrow> hub \<Rightarrow> hub" where
  "reply_to i r h = (case r of Some reply \<Rightarrow> send_to_peer i (encode_data_frame reply) h | None \<Rightarrow> h)"

definition route_data_frame :: "(u8 list \<Rightarrow> u8 list option) \<Rightarrow> peer_id \<Rightarrow> u8 list \<Rightarrow> hub \<Rightarrow> hub" where
  "route_data_frame proxy from_peer frame h =
     (if length frame < 14 then h
      else
        let ethertype = be16 (frame ! 12) (frame ! 13) in
        if ethertype = 0x0806 \<and> is_arp_request_for_gateway frame
        then send_to_peer from_peer (encode_data_frame (generate_arp_reply frame)) h
        else if ethertype = 0x0800 \<and> length frame \<ge> 34 then
          let dst_ip = bytes_at 30 4 frame in
          if dst_ip = GATEWAY_IP then reply_to from_peer (handle_gateway_packet frame) h
          else if \<not> is_internal (pm_pool (hub_peers h)) dst_ip then reply_to from_peer (proxy frame) h
          else case peer_id_by_ip (hub_peers h) dst_ip of
              Some target_peer \<Rightarrow>
                if target_peer \<noteq> from_peer then send_to_peer target_peer (encode_data_frame frame) h else h
            | None \<Rightarrow> route_by_mac from_peer frame h
        else route_by_mac from_peer frame h)"

definition route_frame ::
  "json_codec \<Rightarrow> (u8 list \<Rightarrow> u8 list option) \<Rightarrow> peer_id \<Rightarrow> nat \<Rightarrow> u8 list \<Rightarrow> hub \<Rightarrow> hub" where
  "route_frame codec proxy from_peer now data h =
     (if data = [] then h
      else if data ! 0 = MSG_TYPE_CONTROL then handle_control_message codec from_peer now data h
      else if data ! 0 = MSG_TYPE_DATA then route_data_frame proxy from_peer (drop 1 data) h
      else h)"

definition cleanup_expired_peers :: "peer_id list \<Rightarrow> nat \<Rightarrow> hub \<Rightarrow> hub" where
  "cleanup_expired_peers order now h =
     (case cleanup_expired order now (hub_peers h) of
        (expired, m) \<Rightarrow> h\<lparr> hub_peers := m, peer_senders := fold (\<lambda>i s. s(i := None)) expired (peer_senders h) \<rparr>)"

end
