(* ===== verification/Rl_Hub_Spec.thy ===== *)
theory Rl_Hub_Spec
  imports Rl_Hub
begin

text \<open>
  The hub of the relay: its tables stay consistent under every sequence of handlers, a frame reaches the peer it is
  addressed to and nobody else, and the packets that the hub writes itself carry the right checksums.
\<close>

unbundle bit_operations_syntax

subsection \<open>Checksums\<close>

declare fold_carry.simps [simp del]

text \<open>The sum of the 16-bit words of a packet, as a number.\<close>

fun word_sum :: "u8 list \<Rightarrow> nat" where
  "word_sum (a # b # data) = 256 * unat a + unat b + word_sum data"
| "word_sum [a] = 256 * unat a"
| "word_sum [] = 0"

lemma word_sum_bound: "word_sum data \<le> 65535 * ((length data + 1) div 2)"
proof (induction data rule: word_sum.induct)
  case (1 a b data)
  have "unat a < 2 ^ LENGTH(8)" "unat b < 2 ^ LENGTH(8)" by (rule unsigned_less)+
  with 1 show ?case by simp
next
  case (2 a)
  have "unat a < 2 ^ LENGTH(8)" by (rule unsigned_less)
  then show ?case by simp
qed simp

lemma unat_sum_words:
  "unat acc + word_sum data < 2 ^ 32 \<Longrightarrow> unat (sum_words acc data) = unat acc + word_sum data"
proof (induction acc data rule: sum_words.induct)
  case (1 acc a b data)
  then show ?case by (simp add: unat_word_ariths unat_ucast_up unat_be16)
next
  case (2 acc a)
  have "unat a < 2 ^ LENGTH(8)" by (rule unsigned_less)
  with 2 show ?case by (simp add: push_bit_eq_mult unat_word_ariths unat_ucast_up)
qed simp

lemma fold_carry_spec:
  "unat (fold_carry s) mod 65535 = unat s mod 65535 \<and> unat (fold_carry s) \<le> 65535 \<and> (fold_carry s = 0 \<longleftrightarrow> s = 0)"
proof (induction s rule: fold_carry.induct)
  case (1 s)
  show ?case
  proof (cases "0xFFFF < s")
    case True
    let ?t = "(s AND 0xFFFF) + shr s 16"
    have "65536 * (unat s div 65536) + unat s mod 65536 = unat s" by simp
    then have "unat s = unat ?t + 65535 * (unat s div 65536)" using fold_step [OF True] by linarith
    then have m: "unat ?t mod 65535 = unat s mod 65535" by (metis mod_mult_self2)
    have "65536 \<le> unat s" using True by (simp add: word_less_nat_alt)
    then have "unat ?t \<noteq> 0" using fold_step [OF True] by (simp add: div_eq_0_iff)
    then have "?t \<noteq> 0" by auto
    with 1 True m show ?thesis by (subst (1 2 3) fold_carry.simps) auto
  next
    case False
    then show ?thesis by (subst (1 2 3) fold_carry.simps) (simp add: word_less_nat_alt not_less)
  qed
qed

lemma compute_checksum_eq_0:
  assumes "length data \<le> 2 ^ 17"
  shows "compute_checksum data = 0 \<longleftrightarrow> word_sum data mod 65535 = 0 \<and> 0 < word_sum data"
    "unat (compute_checksum data) = 65535 - unat (fold_carry (sum_words 0 data))"
    "unat (sum_words 0 data) = word_sum data"
proof -
  have "word_sum data \<le> 65535 * 65536"
    using word_sum_bound [of data] assms by (simp add: div_le_mono order.trans)
  then show s: "unat (sum_words 0 data) = word_sum data" by (simp add: unat_sum_words)
  let ?f = "fold_carry (sum_words 0 data)"
  note f = fold_carry_spec [of "sum_words 0 data"]
  have u: "unat (ucast ?f :: u16) = unat ?f" using f by (simp add: unsigned_ucast_eq take_bit_nat_eq_self)
  have "unat (NOT w) = 65535 - unat w" for w :: u16
  proof -
    have "NOT w = - 1 - w" by (simp add: not_eq_complement)
    moreover have "unat (- 1 - w) = unat (- 1 :: u16) - unat w" by (rule unat_sub) simp
    ultimately show ?thesis by (simp add: unsigned_minus_1_eq_mask mask_eq_exp_minus_1)
  qed
  then show c: "unat (compute_checksum data) = 65535 - unat ?f" by (simp add: compute_checksum_def u)
  have "compute_checksum data = 0 \<longleftrightarrow> unat ?f = 65535"
    using c f by (metis diff_self_eq_0 diff_is_0_eq le_antisym unat_eq_zero)
  also have "\<dots> \<longleftrightarrow> word_sum data mod 65535 = 0 \<and> 0 < word_sum data"
  proof
    assume "unat ?f = 65535"
    moreover from this have "sum_words 0 data \<noteq> 0" using f by auto
    ultimately show "word_sum data mod 65535 = 0 \<and> 0 < word_sum data" using f s by (metis mod_self neq0_conv unat_eq_zero)
  next
    assume *: "word_sum data mod 65535 = 0 \<and> 0 < word_sum data"
    then have "unat ?f mod 65535 = 0" "unat ?f \<noteq> 0" using f s by (auto simp: unat_eq_zero)
    then show "unat ?f = 65535" using f by (metis mod_less nat_less_le)
  qed
  finally show "compute_checksum data = 0 \<longleftrightarrow> word_sum data mod 65535 = 0 \<and> 0 < word_sum data" .
qed

text \<open>The checksum of RFC 1071: the one's complement sum of the 16-bit words, an odd last byte padded with zero, where a carry
  out of the top is added at the bottom.  A packet with its checksum filled in verifies when this sum is all ones.\<close>

definition oc_add :: "nat \<Rightarrow> nat \<Rightarrow> nat" where
  "oc_add a b = (if a + b \<ge> 2 ^ 16 then a + b - 2 ^ 16 + 1 else a + b)"

fun oc_sum :: "u8 list \<Rightarrow> nat" where
  "oc_sum (a # b # data) = oc_add (256 * unat a + unat b) (oc_sum data)"
| "oc_sum [a] = 256 * unat a"
| "oc_sum [] = 0"

lemma oc_sum_spec: "oc_sum data \<le> 65535 \<and> oc_sum data mod 65535 = word_sum data mod 65535 \<and> (oc_sum data = 0 \<longleftrightarrow> word_sum data = 0)"
proof (induction data rule: oc_sum.induct)
  case (1 a b data)
  let ?x = "256 * unat a + unat b"
  have "unat a < 2 ^ LENGTH(8)" "unat b < 2 ^ LENGTH(8)" by (rule unsigned_less)+
  then have x: "?x \<le> 65535" by simp
  have "oc_add ?x (oc_sum data) mod 65535 = (?x + oc_sum data) mod 65535"
  proof (cases "2 ^ 16 \<le> ?x + oc_sum data")
    case True
    then have "oc_add ?x (oc_sum data) = ?x + oc_sum data - 65535" "65535 \<le> ?x + oc_sum data" by (simp_all add: oc_add_def)
    then show ?thesis by (simp only: le_mod_geq)
  qed (simp add: oc_add_def)
  also have "\<dots> = (?x + word_sum data) mod 65535" using 1 by (metis mod_add_right_eq)
  finally show ?case using 1 x by (auto simp: oc_add_def)
next
  case (2 a)
  have "unat a < 2 ^ LENGTH(8)" by (rule unsigned_less)
  then show ?case by simp
qed simp

lemma oc_sum_verifies:
  assumes "length data \<le> 2 ^ 17" "compute_checksum data = 0"
  shows "oc_sum data = 65535"
proof -
  have "oc_sum data mod 65535 = 0" "oc_sum data \<noteq> 0" "oc_sum data \<le> 65535"
    using compute_checksum_eq_0(1) [OF assms(1)] assms(2) oc_sum_spec [of data] by auto
  then show ?thesis by (cases "oc_sum data < 65535") auto
qed

lemma word_sum_append: "even (length xs) \<Longrightarrow> word_sum (xs @ ys) = word_sum xs + word_sum ys"
  by (induction xs rule: word_sum.induct) simp_all

text \<open>Filling in the checksum at two zero bytes makes the checksum of the packet zero, which is what a receiver tests.\<close>

lemma checksum_verifies:
  assumes "length data \<le> 2 ^ 17" "even k" "Suc k < length data" "data ! k = 0" "data ! Suc k = 0"
  shows "compute_checksum (set_checksum k (compute_checksum data) data) = 0"
proof -
  let ?c = "compute_checksum data" and ?xs = "take k data" and ?ys = "drop (Suc (Suc k)) data"
  have d: "data = ?xs @ [0, 0] @ ?ys"
    using assms(3-5) by (metis Cons_nth_drop_Suc Suc_lessD append_Cons append_Nil append_take_drop_id)
  have k: "length ?xs = k" using assms(3) by simp
  have "set_checksum k ?c data = set_checksum k ?c (?xs @ [0, 0] @ ?ys)" using d by simp
  also have "\<dots> = ?xs @ [ucast (shr ?c 8), ucast (?c AND 0xFF)] @ ?ys"
    using k by (simp add: set_checksum_def list_update_append)
  finally have s: "set_checksum k ?c data = ?xs @ [ucast (shr ?c 8), ucast (?c AND 0xFF)] @ ?ys" .
  have "256 * unat (ucast (shr ?c 8) :: u8) + unat (ucast (?c AND 0xFF) :: u8) = unat (be16 (ucast (shr ?c 8)) (ucast (?c AND 0xFF)))"
    by (rule unat_be16 [symmetric])
  also have "be16 (ucast (shr ?c 8)) (ucast (?c AND 0xFF)) = ?c" by (rule be16_halves)
  finally have b: "256 * unat (ucast (shr ?c 8) :: u8) + unat (ucast (?c AND 0xFF) :: u8) = unat ?c" .
  have w: "word_sum (set_checksum k ?c data) = word_sum data + unat ?c"
    by (subst (2) d, unfold s) (use k assms(2) b in \<open>simp add: word_sum_append\<close>)
  note z = compute_checksum_eq_0 [OF assms(1)] and f = fold_carry_spec [of "sum_words 0 data"]
  let ?f = "unat (fold_carry (sum_words 0 data))"
  have "(word_sum data + unat ?c) mod 65535 = (?f + (65535 - ?f)) mod 65535"
    using f z by (metis mod_add_left_eq)
  then have "(word_sum data + unat ?c) mod 65535 = 0" using f by simp
  moreover have "0 < word_sum data + unat ?c" using f z by (metis add_gr_0 diff_zero neq0_conv unat_eq_zero unat_0 zero_less_numeral)
  moreover have "length (set_checksum k ?c data) \<le> 2 ^ 17" using assms(1) by (simp add: set_checksum_def)
  ultimately show ?thesis by (simp add: compute_checksum_eq_0(1) w)
qed
subsection \<open>The tables of the hub\<close>

text \<open>The states that the handlers reach, with the number of registrations so far.\<close>

inductive hub_reach :: "json_codec \<Rightarrow> nat \<Rightarrow> hub \<Rightarrow> bool" for codec where
  start: "hub_reach codec 0 hub_new"
| registration: "hub_reach codec n h \<Longrightarrow> register_peer codec mac sender now h = (r, h') \<Longrightarrow> hub_reach codec (Suc n) h'"
| unregistration: "hub_reach codec n h \<Longrightarrow> hub_reach codec n (unregister_peer i h)"
| touch: "hub_reach codec n h \<Longrightarrow> hub_reach codec n (touch_peer i now h)"
| datagram: "hub_reach codec n h \<Longrightarrow> hub_reach codec n (route_frame codec proxy from_peer now data h)"
| cleanup: "hub_reach codec n h \<Longrightarrow> set order = dom (peers (hub_peers h)) \<Longrightarrow>
    hub_reach codec n (cleanup_expired_peers order now h)"

definition hub_ok :: "hub \<Rightarrow> bool" where
  "hub_ok h \<longleftrightarrow> pm_ok (hub_peers h) \<and> dom (peer_senders h) = dom (peers (hub_peers h))"

lemma send_to_peer_simps [simp]:
  "hub_peers (send_to_peer i data h) = hub_peers h" "peer_senders (send_to_peer i data h) = peer_senders h"
  "hub_broadcast (send_to_peer i data h) = hub_broadcast h"
  by (simp_all add: send_to_peer_def split: option.splits)

lemma reply_to_simps [simp]:
  "hub_peers (reply_to i r h) = hub_peers h" "peer_senders (reply_to i r h) = peer_senders h"
  "hub_broadcast (reply_to i r h) = hub_broadcast h"
  by (simp_all add: reply_to_def split: option.splits)

lemma route_by_mac_simps [simp]:
  "hub_peers (route_by_mac i frame h) = hub_peers h" "peer_senders (route_by_mac i frame h) = peer_senders h"
  by (simp_all add: route_by_mac_def Let_def split: option.splits)

lemma route_data_frame_simps [simp]:
  "hub_peers (route_data_frame proxy i frame h) = hub_peers h"
  "peer_senders (route_data_frame proxy i frame h) = peer_senders h"
  by (simp_all add: route_data_frame_def Let_def split: option.splits)

lemma hub_ok_same:
  "hub_ok h \<Longrightarrow> hub_peers h' = hub_peers h \<Longrightarrow> peer_senders h' = peer_senders h \<Longrightarrow> hub_ok h'"
  by (simp add: hub_ok_def)

lemma unregister_peer_ok: "hub_ok h \<Longrightarrow> hub_ok (unregister_peer i h)"
  using unregister_ok [of "hub_peers h" i] by (auto simp: hub_ok_def unregister_peer_def)

lemma route_frame_ok:
  assumes "hub_ok h"
  shows "hub_ok (route_frame codec proxy i now data h)"
    "next_id (hub_peers (route_frame codec proxy i now data h)) = next_id (hub_peers h)"
proof -
  have touch: "hub_ok (touch_peer i now h)" "next_id (hub_peers (touch_peer i now h)) = next_id (hub_peers h)"
    using assms pm_touch_ok [of "hub_peers h" i now] by (auto simp: hub_ok_def touch_peer_def)
  have "next_id (hub_peers (unregister_peer i h)) = next_id (hub_peers h)"
    using assms unregister_ok [of "hub_peers h" i] by (simp add: hub_ok_def unregister_peer_def)
  with touch have "hub_ok (handle_control_message codec i now data h) \<and>
    next_id (hub_peers (handle_control_message codec i now data h)) = next_id (hub_peers h)"
    using assms unregister_peer_ok [OF assms, of i]
    by (auto simp: handle_control_message_def hub_ok_def split: result.splits control_message.splits)
  then show "hub_ok (route_frame codec proxy i now data h)"
    "next_id (hub_peers (route_frame codec proxy i now data h)) = next_id (hub_peers h)"
    using assms by (auto simp: route_frame_def hub_ok_def)
qed

lemma register_peer_ok:
  assumes "hub_ok h" "next_id (hub_peers h) \<noteq> - 1" "register_peer codec mac sender now h = (r, h')"
  shows "hub_ok h' \<and> next_id (hub_peers h') \<le> next_id (hub_peers h) + 1 \<and> next_id (hub_peers h) \<le> next_id (hub_peers h')"
proof (cases "register mac now (hub_peers h)")
  case (Pair a m)
  from assms(1) have "pm_ok (hub_peers h)" by (simp add: hub_ok_def)
  note reg = register_ok [OF this assms(2) Pair]
  show ?thesis
  proof (cases a)
    case None
    with assms(3) Pair have "h' = h\<lparr> hub_peers := m \<rparr>" by (simp add: register_peer_def)
    with reg None assms(1) show ?thesis by (simp add: hub_ok_def)
  next
    case (Some q)
    obtain i ip where q: "q = (i, ip)" by (cases q)
    from reg Some q obtain p where "peers m i = Some p" "peers m = peers (hub_peers h) \<or> peers m = (peers (hub_peers h))(i \<mapsto> p)"
      by auto
    then have "dom (peers m) = insert i (dom (peers (hub_peers h)))" by auto
    moreover have "hub_peers h' = m" "peer_senders h' = (peer_senders h)(i \<mapsto> sender)"
      using assms(3) Pair Some q by (auto simp: register_peer_def Let_def)
    ultimately show ?thesis using reg assms(1) by (simp add: hub_ok_def)
  qed
qed

lemma fold_remove: "fold (\<lambda>i s. s(i := None)) is f = f |` (- set is)"
  by (induction "is" arbitrary: f) (auto simp: restrict_map_def fun_eq_iff)

lemma cleanup_expired_peers_ok:
  assumes "hub_ok h" "set order = dom (peers (hub_peers h))"
  shows "hub_ok (cleanup_expired_peers order now h)"
    "next_id (hub_peers (cleanup_expired_peers order now h)) = next_id (hub_peers h)"
proof -
  obtain expired m where c: "cleanup_expired order now (hub_peers h) = (expired, m)" by fastforce
  from cleanup_expired_ok [OF _ assms(2) c] assms(1) show "hub_ok (cleanup_expired_peers order now h)"
    "next_id (hub_peers (cleanup_expired_peers order now h)) = next_id (hub_peers h)"
    by (auto simp: cleanup_expired_peers_def c hub_ok_def fold_remove)
qed

lemma hub_reach_ok:
  "hub_reach codec n h \<Longrightarrow> n < 2 ^ 64 - 2 \<Longrightarrow> hub_ok h \<and> unat (next_id (hub_peers h)) \<le> Suc n"
proof (induction rule: hub_reach.induct)
  case start
  have "next_id peer_manager_new = 1" "dom (peers peer_manager_new) = {}" by (simp_all add: peer_manager_new_def)
  then show ?case by (simp add: hub_ok_def hub_new_def pm_ok_new)
next
  case (registration n h mac sender now r h')
  then have h: "hub_ok h" "unat (next_id (hub_peers h)) \<le> Suc n" by simp_all
  have "next_id (hub_peers h) \<noteq> - 1"
  proof
    assume "next_id (hub_peers h) = - 1"
    then have "unat (next_id (hub_peers h)) = 2 ^ 64 - 1" by (simp add: unsigned_minus_1_eq_mask mask_eq_exp_minus_1)
    with h(2) registration.prems show False by simp
  qed
  from register_peer_ok [OF h(1) this registration.hyps(2)] less_next(1) [OF this] h(2) show ?case
    by (auto simp: word_le_nat_alt word_less_nat_alt unat_word_ariths)
next
  case (unregistration n h i)
  then show ?case using unregister_peer_ok [of h i] unregister_ok [of "hub_peers h" i]
    by (simp add: hub_ok_def unregister_peer_def)
next
  case (touch n h i now)
  then show ?case using pm_touch_ok [of "hub_peers h" i now] by (auto simp: hub_ok_def touch_peer_def)
next
  case (datagram n h proxy i now data)
  then show ?case using route_frame_ok [of h codec proxy i now data] by simp
next
  case (cleanup n h order now)
  then show ?case using cleanup_expired_peers_ok [of h order now] by simp
qed

subsection \<open>Where a frame goes\<close>

lemma find_by_mac_peer:
  assumes "pm_ok m" "peers m i = Some p"
  shows "find_by_mac m (p_mac p) = Some p" "peer_id_by_ip m (p_ip p) = Some i"
  using pm_okD [OF assms] assms(2) by (simp_all add: find_by_mac_def peer_id_by_ip_def)

lemma find_by_mac_Some:
  assumes "pm_ok m" "find_by_mac m mac = Some p"
  shows "peers m (p_id p) = Some p" "p_mac p = mac"
  using assms pm_ok_mac [OF assms(1), of mac] pm_okD(1) [OF assms(1)]
  by (auto simp: find_by_mac_def split: option.splits)

text \<open>The messages a handler adds, and to whom they go.\<close>

definition sent_to :: "hub \<Rightarrow> hub \<Rightarrow> peer_id \<Rightarrow> u8 list \<Rightarrow> bool" where
  "sent_to h h' i data \<longleftrightarrow> (\<exists>ch. peer_senders h i = Some ch \<and> hub_sent h' = hub_sent h @ [(ch, Send data)])"

lemma send_to_peer_cases:
  "hub_sent (send_to_peer i data h) = hub_sent h \<or> sent_to h (send_to_peer i data h) i data"
  by (auto simp: send_to_peer_def sent_to_def split: option.splits)

lemma send_to_peer_sent: "peer_senders h i \<noteq> None \<Longrightarrow> sent_to h (send_to_peer i data h) i data"
  by (auto simp: send_to_peer_def sent_to_def)

lemma route_data_frame_cases:
  "route_data_frame proxy from_peer frame h = h \<or>
   (\<exists>reply. route_data_frame proxy from_peer frame h = send_to_peer from_peer (encode_data_frame reply) h) \<or>
   (\<exists>r. route_data_frame proxy from_peer frame h = reply_to from_peer r h) \<or>
   (\<exists>i. peer_id_by_ip (hub_peers h) (bytes_at 30 4 frame) = Some i \<and>
      route_data_frame proxy from_peer frame h = send_to_peer i (encode_data_frame frame) h) \<or>
   route_data_frame proxy from_peer frame h = route_by_mac from_peer frame h"
  unfolding route_data_frame_def Let_def
  by (cases "peer_id_by_ip (hub_peers h) (bytes_at 30 4 frame)") (simp_all, blast+)

text \<open>C19: the tables of the relay stay consistent under every sequence of registrations, departures, datagrams and
  clean-ups: a peer is found under its own hardware address and under its own IP address and has a channel, two
  peers never share an address, and every assigned address lies in 10.0.2.10 to 10.0.2.254 and is not in the list of
  available ones.  The identifiers are fresh as long as fewer than \<open>2\<^sup>6\<^sup>4 - 2\<close> registrations have been made.\<close>

theorem relay_tables_consistent:
  assumes "hub_reach codec n h" "n < 2 ^ 64 - 2"
  shows "(\<forall>i p. peers (hub_peers h) i = Some p \<longrightarrow>
      p_id p = i \<and> find_by_mac (hub_peers h) (p_mac p) = Some p \<and> peer_id_by_ip (hub_peers h) (p_ip p) = Some i \<and>
      peer_senders h i \<noteq> None \<and>
      (\<exists>host. p_ip p = [10, 0, 2, host] \<and> 10 \<le> host \<and> host \<le> 254 \<and> host \<notin> set (available (pm_pool (hub_peers h))))) \<and>
    (\<forall>i j p q. peers (hub_peers h) i = Some p \<and> peers (hub_peers h) j = Some q \<and> i \<noteq> j \<longrightarrow>
      p_ip p \<noteq> p_ip q \<and> p_mac p \<noteq> p_mac q) \<and>
    (\<forall>ip i. peer_id_by_ip (hub_peers h) ip = Some i \<longrightarrow> peers (hub_peers h) i \<noteq> None)"
proof -
  have ok: "hub_ok h" using hub_reach_ok [OF assms] by simp
  then have pm: "pm_ok (hub_peers h)" by (simp add: hub_ok_def)
  have one: "p_id p = i \<and> find_by_mac (hub_peers h) (p_mac p) = Some p \<and> peer_id_by_ip (hub_peers h) (p_ip p) = Some i \<and>
      peer_senders h i \<noteq> None \<and>
      (\<exists>host. p_ip p = [10, 0, 2, host] \<and> 10 \<le> host \<and> host \<le> 254 \<and> host \<notin> set (available (pm_pool (hub_peers h))))"
    if "peers (hub_peers h) i = Some p" for i p
  proof -
    note d = pm_okD [OF pm that]
    from d(5) obtain host where host: "p_ip p = [10, 0, 2, host]" "10 \<le> host" "host \<le> 254"
      by (auto simp: pool_addrs_def pool_hosts_def)
    with d(6) have "host \<in> dom (allocated (pm_pool (hub_peers h)))" by auto
    with pm_ok_pool [OF pm] have "host \<notin> set (available (pm_pool (hub_peers h)))" by (auto simp: pool_ok_def)
    moreover have "peer_senders h i \<noteq> None" using ok that by (auto simp: hub_ok_def dom_def)
    ultimately show ?thesis using d(1) find_by_mac_peer [OF pm that] host by auto
  qed
  have two: "p_ip p \<noteq> p_ip q \<and> p_mac p \<noteq> p_mac q"
    if "peers (hub_peers h) i = Some p" "peers (hub_peers h) j = Some q" "i \<noteq> j" for i j p q
    using pm_okD(2,3) [OF pm that(1)] pm_okD(2,3) [OF pm that(2)] that(3) by (metis option.inject)
  have "peers (hub_peers h) i \<noteq> None" if "peer_id_by_ip (hub_peers h) ip = Some i" for ip i
    using pm_ok_ip [OF pm] that by (auto simp: peer_id_by_ip_def)
  with one two show ?thesis by blast
qed

text \<open>C20: a data frame causes at most one message, either to one peer or on the broadcast channel.  An IPv4 frame for the
  address of a registered peer goes to
  that peer, unchanged, and to nobody when the peer has sent it itself; a frame for the broadcast hardware address that
  is neither IPv4 nor an ARP frame for the gateway's address goes to the broadcast channel, with its sender.  Nothing else is
  possible: a frame on the broadcast channel has the broadcast hardware address, and a message goes to the sender (as an answer of
  the gateway or of the proxy), or to the peer that owns the destination IP or hardware address of the frame.  The
  tables do not change.\<close>

theorem frame_reaches_addressee:
  assumes "hub_reach codec n h" "n < 2 ^ 64 - 2" "h' = route_frame codec proxy from_peer now (encode_data_frame frame) h"
  shows "hub_peers h' = hub_peers h \<and> peer_senders h' = peer_senders h \<and>
    (hub_broadcast h' = hub_broadcast h \<and>
       (hub_sent h' = hub_sent h \<or> (\<exists>reply. sent_to h h' from_peer (encode_data_frame reply)) \<or>
        (\<exists>p. peers (hub_peers h) (p_id p) = Some p \<and> (p_ip p = bytes_at 30 4 frame \<or> p_mac p = bytes_at 0 6 frame) \<and>
          sent_to h h' (p_id p) (encode_data_frame frame))) \<or>
     bytes_at 0 6 frame = replicate 6 0xFF \<and> hub_sent h' = hub_sent h \<and>
       hub_broadcast h' = hub_broadcast h @ [(from_peer, encode_data_frame frame)]) \<and>
    (\<forall>i p. peers (hub_peers h) i = Some p \<and> 34 \<le> length frame \<and> be16 (frame ! 12) (frame ! 13) = 0x0800 \<and>
        bytes_at 30 4 frame = p_ip p \<longrightarrow>
      hub_broadcast h' = hub_broadcast h \<and>
      (if i = from_peer then hub_sent h' = hub_sent h else sent_to h h' i (encode_data_frame frame))) \<and>
    (14 \<le> length frame \<and> bytes_at 0 6 frame = replicate 6 0xFF \<and> be16 (frame ! 12) (frame ! 13) \<noteq> 0x0800 \<and>
        (be16 (frame ! 12) (frame ! 13) = 0x0806 \<longrightarrow> bytes_at 38 4 frame \<noteq> GATEWAY_IP) \<longrightarrow>
      hub_sent h' = hub_sent h \<and> hub_broadcast h' = hub_broadcast h @ [(from_peer, encode_data_frame frame)])"
proof -
  have ok: "hub_ok h" using hub_reach_ok [OF assms(1,2)] by simp
  then have pm: "pm_ok (hub_peers h)" by (simp add: hub_ok_def)
  have h': "h' = route_data_frame proxy from_peer frame h"
    by (simp add: assms(3) route_frame_def encode_data_frame_def)
  have mac: "hub_broadcast (route_by_mac from_peer frame h) = hub_broadcast h \<and>
      (hub_sent (route_by_mac from_peer frame h) = hub_sent h \<or>
       (\<exists>p. peers (hub_peers h) (p_id p) = Some p \<and> p_mac p = bytes_at 0 6 frame \<and>
         sent_to h (route_by_mac from_peer frame h) (p_id p) (encode_data_frame frame))) \<or>
    bytes_at 0 6 frame = replicate 6 0xFF \<and> hub_sent (route_by_mac from_peer frame h) = hub_sent h \<and>
      hub_broadcast (route_by_mac from_peer frame h) = hub_broadcast h @ [(from_peer, encode_data_frame frame)]"
  proof (cases "bytes_at 0 6 frame = replicate 6 0xFF")
    case True
    then show ?thesis by (simp add: route_by_mac_def Let_def)
  next
    case False
    then show ?thesis
      using send_to_peer_cases [of _ "encode_data_frame frame" h] find_by_mac_Some [OF pm]
      unfolding route_by_mac_def Let_def by (simp split: option.splits) blast
  qed
  have ip: "\<exists>p. peers (hub_peers h) (p_id p) = Some p \<and> p_ip p = ip \<and> p_id p = i"
    if "peer_id_by_ip (hub_peers h) ip = Some i" for ip i
    using pm_ok_ip [OF pm, of ip i] that pm_okD(1) [OF pm] by (auto simp: peer_id_by_ip_def)
  have reply: "hub_sent (reply_to from_peer r h) = hub_sent h \<or> (\<exists>reply. sent_to h (reply_to from_peer r h) from_peer (encode_data_frame reply))" for r
    using send_to_peer_cases [of from_peer _ h] by (auto simp: reply_to_def split: option.splits)
  let ?to = "hub_sent h' = hub_sent h \<or> (\<exists>reply. sent_to h h' from_peer (encode_data_frame reply)) \<or>
     (\<exists>p. peers (hub_peers h) (p_id p) = Some p \<and> (p_ip p = bytes_at 30 4 frame \<or> p_mac p = bytes_at 0 6 frame) \<and>
        sent_to h h' (p_id p) (encode_data_frame frame))"
  let ?bc = "hub_sent h' = hub_sent h \<and> hub_broadcast h' = hub_broadcast h @ [(from_peer, encode_data_frame frame)]"
  have where_to: "hub_broadcast h' = hub_broadcast h \<and> ?to \<or> bytes_at 0 6 frame = replicate 6 0xFF \<and> ?bc"
  proof -
    consider "h' = h" | reply where "h' = send_to_peer from_peer (encode_data_frame reply) h" | r where "h' = reply_to from_peer r h"
      | i where "peer_id_by_ip (hub_peers h) (bytes_at 30 4 frame) = Some i" "h' = send_to_peer i (encode_data_frame frame) h"
      | "h' = route_by_mac from_peer frame h"
      using route_data_frame_cases [of proxy from_peer frame h] unfolding h' by blast
    then show ?thesis
    proof cases
      case 5
      with mac show ?thesis by blast
    next
      case (4 i)
      then show ?thesis using send_to_peer_cases [of i "encode_data_frame frame" h] ip [OF 4(1)] by auto
    qed (use send_to_peer_cases reply in \<open>fastforce+\<close>)
  qed
  have bc: ?bc if "14 \<le> length frame" "bytes_at 0 6 frame = replicate 6 0xFF" "be16 (frame ! 12) (frame ! 13) \<noteq> 0x0800"
    "be16 (frame ! 12) (frame ! 13) = 0x0806 \<longrightarrow> bytes_at 38 4 frame \<noteq> GATEWAY_IP"
    using that by (auto simp: h' route_data_frame_def route_by_mac_def is_arp_request_for_gateway_def Let_def)
  have "hub_broadcast h' = hub_broadcast h \<and> (if i = from_peer then hub_sent h' = hub_sent h else sent_to h h' i (encode_data_frame frame))"
    if "peers (hub_peers h) i = Some p" "34 \<le> length frame" "be16 (frame ! 12) (frame ! 13) = 0x0800" "bytes_at 30 4 frame = p_ip p" for i p
  proof -
    note d = pm_okD [OF pm that(1)]
    have "bytes_at 30 4 frame \<noteq> GATEWAY_IP" "is_internal (pm_pool (hub_peers h)) (bytes_at 30 4 frame)"
      using d(5) pm_ok_pool [OF pm] that(4) by (auto simp: pool_addrs_def pool_hosts_def is_internal_def pool_ok_def)
    moreover have "peer_id_by_ip (hub_peers h) (bytes_at 30 4 frame) = Some i" using d(3) that(4) by (simp add: peer_id_by_ip_def)
    moreover have "peer_senders h i \<noteq> None" using ok that(1) by (auto simp: hub_ok_def dom_def)
    ultimately show ?thesis using that(2,3) send_to_peer_sent [of h i "encode_data_frame frame"] by (simp add: h' route_data_frame_def)
  qed
  moreover have "hub_peers h' = hub_peers h" "peer_senders h' = peer_senders h" by (simp_all add: h')
  ultimately show ?thesis using where_to bc by blast
qed

subsection \<open>Echo requests to the gateway\<close>

lemma bytes_at_update:
  "bytes_at i n (xs[k := v]) = (if i \<le> k then (bytes_at i n xs)[k - i := v] else bytes_at i n xs)"
  by (auto simp: bytes_at_def drop_update_swap take_update_swap)

lemma bytes_at_outside: "i + n \<le> k \<Longrightarrow> bytes_at i n (xs[k := v]) = bytes_at i n xs"
  by (simp add: bytes_at_update list_update_beyond)

lemma bytes_at_set_checksum:
  "i \<le> k \<Longrightarrow> k < i + n \<Longrightarrow> bytes_at i n (set_checksum k c xs) = set_checksum (k - i) c (bytes_at i n xs)"
  "i + n \<le> k \<or> Suc k < i \<Longrightarrow> bytes_at i n (set_checksum k c xs) = bytes_at i n xs"
  by (auto simp: set_checksum_def bytes_at_update Suc_diff_le list_update_beyond)

lemma drop_set_checksum: "i \<le> k \<Longrightarrow> drop i (set_checksum k c xs) = set_checksum (k - i) c (drop i xs)"
  by (simp add: set_checksum_def drop_update_swap Suc_diff_le)

lemma length_set_checksum [simp]: "length (set_checksum k c xs) = length xs"
  by (simp add: set_checksum_def)

lemma nth_set_checksum [simp]: "j \<noteq> k \<Longrightarrow> j \<noteq> Suc k \<Longrightarrow> set_checksum k c xs ! j = xs ! j"
  by (simp add: set_checksum_def)

lemma icmp_reply_spec:
  assumes "42 \<le> length request" "length request \<le> 2 ^ 17"
  shows "length (generate_icmp_reply request) = length request"
    "compute_checksum (bytes_at 14 20 (generate_icmp_reply request)) = 0"
    "compute_checksum (drop 34 (generate_icmp_reply request)) = 0"
    "bytes_at 0 6 (generate_icmp_reply request) = bytes_at 6 6 request"
    "bytes_at 6 6 (generate_icmp_reply request) = GATEWAY_MAC"
    "bytes_at 26 4 (generate_icmp_reply request) = bytes_at 30 4 request"
    "bytes_at 30 4 (generate_icmp_reply request) = bytes_at 26 4 request"
    "generate_icmp_reply request ! 34 = 0" "generate_icmp_reply request ! 35 = request ! 35"
    "bytes_at 12 12 (generate_icmp_reply request) = bytes_at 12 12 request"
    "drop 38 (generate_icmp_reply request) = drop 38 request"
proof -
  define r1 where "r1 = overlay 30 (bytes_at 26 4 request) (overlay 26 (bytes_at 30 4 request)
    (overlay 6 GATEWAY_MAC (overlay 0 (bytes_at 6 6 request) request)))"
  define r2 where "r2 = r1[24 := 0, 25 := 0]"
  define r3 where "r3 = set_checksum 24 (compute_checksum (bytes_at 14 20 r2)) r2"
  define r4 where "r4 = r3[34 := 0, 36 := 0, 37 := 0]"
  have reply: "generate_icmp_reply request = set_checksum 36 (compute_checksum (drop 34 r4)) r4"
    by (simp add: generate_icmp_reply_def r1_def r2_def r3_def r4_def Let_def)
  have len: "length r1 = length request" "length r2 = length request" "length r3 = length request" "length r4 = length request"
    using assms(1) by (simp_all add: r1_def r2_def r3_def r4_def)
  show "length (generate_icmp_reply request) = length request" by (simp add: reply len)
  have "bytes_at 14 20 (generate_icmp_reply request) = set_checksum 10 (compute_checksum (bytes_at 14 20 r2)) (bytes_at 14 20 r2)"
    by (simp add: reply r4_def r3_def bytes_at_set_checksum bytes_at_outside)
  moreover have "bytes_at 14 20 r2 ! 10 = 0" "bytes_at 14 20 r2 ! Suc 10 = 0"
    using len assms by (simp_all add: r2_def)
  ultimately show "compute_checksum (bytes_at 14 20 (generate_icmp_reply request)) = 0"
    using checksum_verifies [of "bytes_at 14 20 r2" 10] len assms by simp
  have "drop 34 (generate_icmp_reply request) = set_checksum 2 (compute_checksum (drop 34 r4)) (drop 34 r4)"
    by (simp add: reply drop_set_checksum)
  moreover have "drop 34 r4 ! 2 = 0" "drop 34 r4 ! Suc 2 = 0"
    using len assms by (simp_all add: r4_def)
  ultimately show "compute_checksum (drop 34 (generate_icmp_reply request)) = 0"
    using checksum_verifies [of "drop 34 r4" 2] len assms by simp
  show "generate_icmp_reply request ! 35 = request ! 35" using assms(1)
    by (simp add: reply r4_def r3_def r2_def r1_def overlay_def nth_append)
  show "generate_icmp_reply request ! 34 = 0" using len assms by (simp add: reply r4_def)
  have below: "bytes_at i n (generate_icmp_reply request) = bytes_at i n r1"
    if "i + n \<le> 24 \<or> 26 \<le> i \<and> i + n \<le> 34" for i n
    using that by (auto simp: reply r4_def r3_def r2_def bytes_at_set_checksum bytes_at_update list_update_beyond)
  show "bytes_at 0 6 (generate_icmp_reply request) = bytes_at 6 6 request"
    "bytes_at 6 6 (generate_icmp_reply request) = GATEWAY_MAC"
    "bytes_at 26 4 (generate_icmp_reply request) = bytes_at 30 4 request"
    "bytes_at 30 4 (generate_icmp_reply request) = bytes_at 26 4 request"
    "bytes_at 12 12 (generate_icmp_reply request) = bytes_at 12 12 request"
    using assms(1) by (simp_all add: below r1_def bytes_at_overlay_other)
  have "drop 38 r1 = drop 38 request" using assms(1) by (simp add: r1_def overlay_def)
  then show "drop 38 (generate_icmp_reply request) = drop 38 request"
    by (simp add: reply r4_def r3_def r2_def set_checksum_def)
qed

text \<open>C21: the gateway answers an echo request: its sender, and nobody else, gets a packet of the same length back with
  the hardware and IP addresses exchanged, the type of an echo reply and the same identifier, sequence number,
  payload and other header fields, and both the IP and the ICMP checksum of the answer verify: the one's complement sum of the
  16-bit words of the IP header, and of the ICMP message, is all ones, as RFC 1071 asks.\<close>

theorem gateway_answers_ping:
  assumes "be16 (frame ! 12) (frame ! 13) = 0x0800" "42 \<le> length frame" "length frame \<le> 2 ^ 17"
    and "bytes_at 30 4 frame = GATEWAY_IP" "frame ! 23 = 1" "frame ! 34 = 8" "peer_senders h from_peer = Some ch"
  shows "\<exists>reply. hub_sent (route_frame codec proxy from_peer now (encode_data_frame frame) h) =
      hub_sent h @ [(ch, Send (encode_data_frame reply))] \<and>
    length reply = length frame \<and> bytes_at 0 6 reply = bytes_at 6 6 frame \<and> bytes_at 6 6 reply = GATEWAY_MAC \<and>
    bytes_at 26 4 reply = GATEWAY_IP \<and> bytes_at 30 4 reply = bytes_at 26 4 frame \<and>
    bytes_at 12 12 reply = bytes_at 12 12 frame \<and> reply ! 34 = 0 \<and> reply ! 35 = frame ! 35 \<and> drop 38 reply = drop 38 frame \<and>
    oc_sum (bytes_at 14 20 reply) = 65535 \<and> oc_sum (drop 34 reply) = 65535"
proof -
  have "route_frame codec proxy from_peer now (encode_data_frame frame) h =
    send_to_peer from_peer (encode_data_frame (generate_icmp_reply frame)) h"
    using assms by (simp add: route_frame_def encode_data_frame_def route_data_frame_def handle_gateway_packet_def reply_to_def)
  then show ?thesis
    using icmp_reply_spec [OF assms(2,3)] assms(2,3,4,7) oc_sum_verifies [of "bytes_at 14 20 (generate_icmp_reply frame)"]
      oc_sum_verifies [of "drop 34 (generate_icmp_reply frame)"]
    by (intro exI [of _ "generate_icmp_reply frame"]) (simp add: send_to_peer_def)
qed

subsection \<open>Two peers\<close>

definition demo_codec :: json_codec where
  "demo_codec = \<lparr> to_vec = (\<lambda>m. if m = Heartbeat then [1] else []), from_slice = (\<lambda>d. if d = [1] then Some Heartbeat else None) \<rparr>"

definition demo_hub :: hub where
  "demo_hub = snd (register_peer demo_codec [2, 0, 0, 0, 0, 2] 8 0 (snd (register_peer demo_codec [2, 0, 0, 0, 0, 1] 7 0 hub_new)))"

lemma demo_hub_reach: "hub_reach demo_codec 2 demo_hub"
proof -
  obtain r h where 1: "register_peer demo_codec [2, 0, 0, 0, 0, 1] 7 0 hub_new = (r, h)" by fastforce
  obtain r' h' where 2: "register_peer demo_codec [2, 0, 0, 0, 0, 2] 8 0 h = (r', h')" by fastforce
  have "hub_reach demo_codec (Suc (Suc 0)) h'"
    by (rule hub_reach.registration [OF hub_reach.registration [OF hub_reach.start 1] 2])
  with 1 2 show ?thesis by (simp add: demo_hub_def numeral_2_eq_2)
qed

lemma available_new: "available ip_pool_new = map word_of_nat [10..<252] @ [252, 253, 254]"
proof -
  have "[10..<Suc 254] = [10..<252] @ [252, 253, 254]"
    using upt_add_eq_append [of 10 252 3] by (simp add: upt_rec)
  then show ?thesis by (simp add: ip_pool_new_def del: upt_rec_numeral upt_Suc)
qed

lemma demo_hub_tables:
  "peers (hub_peers demo_hub) = [1 \<mapsto> peer_new 1 [2, 0, 0, 0, 0, 1] [10, 0, 2, 254] 0,
     2 \<mapsto> peer_new 2 [2, 0, 0, 0, 0, 2] [10, 0, 2, 253] 0]"
  "peer_senders demo_hub = [1 \<mapsto> 7, 2 \<mapsto> 8]"
  using available_new
  by (simp_all add: demo_hub_def register_peer_def register_def register_new_def hub_new_def peer_manager_new_def
      allocate_def Let_def send_to_peer_def ip_pool_new_def butlast_append del: upt_rec_numeral upt_Suc)

theorem relay_tables_consistent_witness:
  "hub_reach demo_codec 2 demo_hub \<and> find_by_mac (hub_peers demo_hub) [2, 0, 0, 0, 0, 1] \<noteq> None \<and>
   peer_id_by_ip (hub_peers demo_hub) [10, 0, 2, 253] = Some 2"
  using relay_tables_consistent [OF demo_hub_reach] demo_hub_reach
  by (auto simp: demo_hub_tables peer_new_def split: if_splits)

definition demo_frame :: "u8 list" where
  "demo_frame = replicate 12 0 @ [8, 0] @ replicate 16 0 @ [10, 0, 2, 253]"

theorem frame_reaches_addressee_witness:
  "hub_reach demo_codec 2 demo_hub \<and>
   sent_to demo_hub (route_frame demo_codec (\<lambda>_. None) 1 0 (encode_data_frame demo_frame) demo_hub) 2 (encode_data_frame demo_frame)"
proof -
  have "peers (hub_peers demo_hub) 2 = Some (peer_new 2 [2, 0, 0, 0, 0, 2] [10, 0, 2, 253] 0)" "34 \<le> length demo_frame"
    "be16 (demo_frame ! 12) (demo_frame ! 13) = 0x0800" "bytes_at 30 4 demo_frame = [10, 0, 2, 253]"
    by (simp_all add: demo_hub_tables demo_frame_def be16_def bytes_at_def nth_append)
  with frame_reaches_addressee [OF demo_hub_reach _ refl, of "\<lambda>_. None" 1 0 demo_frame] demo_hub_reach show ?thesis
    by (fastforce simp: peer_new_def)
qed

definition demo_ping :: "u8 list" where
  "demo_ping = replicate 12 0 @ [8, 0] @ replicate 9 0 @ [1, 0, 0, 10, 0, 2, 254, 10, 0, 2, 2, 8, 0, 0, 0, 0, 1, 0, 1]"

theorem gateway_answers_ping_witness:
  "\<exists>reply. hub_sent (route_frame demo_codec (\<lambda>_. None) 1 0 (encode_data_frame demo_ping) demo_hub) =
      hub_sent demo_hub @ [(7, Send (encode_data_frame reply))] \<and> oc_sum (drop 34 reply) = 65535"
proof -
  have "be16 (demo_ping ! 12) (demo_ping ! 13) = 0x0800" "42 \<le> length demo_ping" "length demo_ping \<le> 2 ^ 17"
    "bytes_at 30 4 demo_ping = GATEWAY_IP" "demo_ping ! 23 = 1" "demo_ping ! 34 = 8" "peer_senders demo_hub 1 = Some 7"
    by (simp_all add: demo_ping_def be16_def bytes_at_def nth_append demo_hub_tables)
  from gateway_answers_ping [OF this, of demo_codec "\<lambda>_. None" 0] show ?thesis by blast
qed

end
