(* ===== verification/Kn_Task.thy ===== *)
theory Kn_Task
  imports Kn_Bytes
begin

text \<open>
  Tasks, wait queues and the scheduler of the kernel (\<^verbatim>\<open>kernel/src/task.rs\<close>, \<^verbatim>\<open>kernel/src/scheduler.rs\<close>).

  A task is shared: the registry, the run queues and the harts hold references (\<open>Arc<Task>\<close>) to one object whose
  state, hart and exit code change in place.  The objects are the list \<open>heap\<close>, in the order of their creation, and a
  reference is an index into it.  An operation on a run queue or on the registry takes its spinlock for its whole
  duration, so one operation is one step.  An operation that takes several locks one after the other (\<open>spawn_on_hart\<close> the registry and then a
  queue, \<open>pick_next\<close> one queue after the other) is one step as well: what other harts do between its locks is not
  modelled.  The lock of the registry is kept as a flag because one operation calls another
  while it holds it.  Waiting for a lock that the same hart holds does not end; the model does not tell this from a panic:
  it is \<open>Panic\<close>, like an index out of range.  \<open>now\<close> is the clock in milliseconds; the log is not modelled.
\<close>

subsection \<open>Tasks\<close>

type_synonym pid = u32

datatype task_state = Ready | Running | Sleeping | Stopped | Zombie

datatype priority = Idle | Low | Normal | High | Realtime

primrec prio_code :: "priority \<Rightarrow> nat" where
  "prio_code Idle = 0"
| "prio_code Low = 1"
| "prio_code Normal = 2"
| "prio_code High = 3"
| "prio_code Realtime = 4"

lemma prio_code_inject: "prio_code p = prio_code q \<Longrightarrow> p = q"
  by (cases p; cases q) simp_all

instantiation priority :: linorder
begin

definition less_eq_priority :: "priority \<Rightarrow> priority \<Rightarrow> bool" where
  "p \<le> q \<longleftrightarrow> prio_code p \<le> prio_code q"

definition less_priority :: "priority \<Rightarrow> priority \<Rightarrow> bool" where
  "p < q \<longleftrightarrow> prio_code p < prio_code q"

instance
  by standard (auto simp: less_eq_priority_def less_priority_def intro: prio_code_inject)

end

record task =
  t_pid :: pid
  t_name :: str
  t_state :: task_state
  t_priority :: priority
  hart_affinity :: "nat option"
  current_hart :: u64
  t_entry :: u64
  created_at :: u64
  cpu_time :: u64
  exit_code :: u64
  is_daemon :: bool
  restart_on_exit :: bool

definition task_new :: "pid \<Rightarrow> str \<Rightarrow> u64 \<Rightarrow> priority \<Rightarrow> u64 \<Rightarrow> task" where
  "task_new p name entry prio now = \<lparr> t_pid = p, t_name = name, t_state = Ready, t_priority = prio, hart_affinity = None,
     current_hart = - 1, t_entry = entry, created_at = now, cpu_time = 0, exit_code = 0, is_daemon = False,
     restart_on_exit = False \<rparr>"

definition task_new_daemon :: "pid \<Rightarrow> str \<Rightarrow> u64 \<Rightarrow> priority \<Rightarrow> u64 \<Rightarrow> task" where
  "task_new_daemon p name entry prio now = (task_new p name entry prio now)\<lparr> is_daemon := True, restart_on_exit := True \<rparr>"

definition mark_running :: "nat \<Rightarrow> task \<Rightarrow> task" where
  "mark_running hart_id t = t\<lparr> current_hart := word_of_nat hart_id, t_state := Running \<rparr>"

definition mark_finished :: "u64 \<Rightarrow> task \<Rightarrow> task" where
  "mark_finished code t = t\<lparr> exit_code := code, current_hart := - 1, t_state := Zombie \<rparr>"

record task_info =
  ti_pid :: pid
  ti_name :: str
  ti_state :: task_state
  ti_priority :: priority
  ti_hart :: "u64 option"
  ti_cpu_time :: u64
  ti_uptime :: u64

definition task_info_of :: "u64 \<Rightarrow> task \<Rightarrow> task_info" where
  "task_info_of current_time t = \<lparr> ti_pid = t_pid t, ti_name = t_name t, ti_state = t_state t, ti_priority = t_priority t,
     ti_hart = (if current_hart t = - 1 then None else Some (current_hart t)), ti_cpu_time = cpu_time t,
     ti_uptime = (if created_at t \<le> current_time then current_time - created_at t else 0) \<rparr>"

subsection \<open>Run queues\<close>

text \<open>The queue of a hart.  The field \<open>current\<close> of the source's \<open>RunQueue\<close> is never read or written and is left out.\<close>

type_synonym rq = "nat list"

definition enqueue :: "task list \<Rightarrow> nat \<Rightarrow> rq \<Rightarrow> rq" where
  "enqueue h r q =
     (let insert_pos = unwrap_or (position (\<lambda>t. t_priority (h ! t) < t_priority (h ! r)) q) (length q)
      in take insert_pos q @ r # drop insert_pos q)"

definition dequeue :: "task list \<Rightarrow> rq \<Rightarrow> nat option \<times> rq" where
  "dequeue h q =
     (case position (\<lambda>t. t_state (h ! t) = Ready) q of
        Some i \<Rightarrow> (Some (q ! i), take i q @ drop (Suc i) q)
      | None \<Rightarrow> (None, q))"

definition steal :: "rq \<Rightarrow> nat option \<times> rq" where
  "steal q = (if length q > 1 then (Some (last q), butlast q) else (None, q))"

subsection \<open>The scheduler\<close>

record scheduler =
  heap :: "task list"
  queues :: "rq list"
  registry :: "(pid, nat) btree"
  tasks_locked :: bool
  next_pid :: u64
  num_harts :: nat
  sched_running :: bool
  ipis :: "nat list"

definition scheduler_init :: "nat \<Rightarrow> scheduler" where
  "scheduler_init n = \<lparr> heap = [], queues = replicate 128 [], registry = [], tasks_locked = False, next_pid = 1,
     num_harts = n, sched_running = True, ipis = [] \<rparr>"

definition with_tasks :: "(scheduler \<Rightarrow> ('a, unit) result \<times> scheduler) \<Rightarrow> scheduler \<Rightarrow> ('a, unit) result \<times> scheduler" where
  "with_tasks body s =
     (if tasks_locked s then (Panic, s)
      else bindS (body (s\<lparr> tasks_locked := True \<rparr>)) (\<lambda>a s. (Ok a, s\<lparr> tasks_locked := False \<rparr>)))"

definition set_task :: "nat \<Rightarrow> (task \<Rightarrow> task) \<Rightarrow> scheduler \<Rightarrow> scheduler" where
  "set_task r f s = s\<lparr> heap := (heap s)[r := f (heap s ! r)] \<rparr>"

definition on_queue :: "nat \<Rightarrow> (rq \<Rightarrow> 'a \<times> rq) \<Rightarrow> scheduler \<Rightarrow> ('a, unit) result \<times> scheduler" where
  "on_queue hart f s =
     (if hart < length (queues s)
      then case f (queues s ! hart) of (a, q) \<Rightarrow> (Ok a, s\<lparr> queues := (queues s)[hart := q] \<rparr>)
      else (Panic, s))"

definition find_least_loaded_hart :: "scheduler \<Rightarrow> (nat, unit) result" where
  "find_least_loaded_hart s =
     (if num_harts s \<le> length (queues s)
      then Ok (snd (fold (\<lambda>hart (min_load, target).
             let load = length (queues s ! hart) in if load < min_load then (load, hart) else (min_load, target))
             [0..<num_harts s] (2 ^ 64 - 1, 0)))
      else Panic)"

text \<open>The part that \<open>spawn_on_hart\<close> and \<open>spawn_daemon_on_hart\<close> share: the new task is registered and queued on
  the hart of its affinity, or on the least loaded one.\<close>

definition admit_task :: "(pid \<Rightarrow> task) \<Rightarrow> nat option \<Rightarrow> scheduler \<Rightarrow> (pid \<times> nat, unit) result \<times> scheduler" where
  "admit_task mk affinity s =
     (let p = ucast (next_pid s); r = length (heap s);
          s = s\<lparr> next_pid := next_pid s + 1, heap := heap s @ [(mk p)\<lparr> hart_affinity := affinity \<rparr>] \<rparr> in
      bindS (with_tasks (\<lambda>s. (Ok (), s\<lparr> registry := bt_insert p r (registry s) \<rparr>)) s) (\<lambda>_ s.
      bindS (case affinity of Some hart \<Rightarrow> (Ok hart, s) | None \<Rightarrow> (find_least_loaded_hart s, s)) (\<lambda>target_hart s.
      bindS (on_queue target_hart (\<lambda>q. ((), enqueue (heap s) r q)) s) (\<lambda>_ s. (Ok (p, target_hart), s)))))"

definition spawn_on_hart :: "str \<Rightarrow> u64 \<Rightarrow> priority \<Rightarrow> nat option \<Rightarrow> u64 \<Rightarrow> scheduler \<Rightarrow> (pid, unit) result \<times> scheduler" where
  "spawn_on_hart name entry prio affinity now s =
     bindS (admit_task (\<lambda>p. task_new p name entry prio now) affinity s) (\<lambda>(p, target_hart) s.
       (Ok p, if target_hart \<noteq> 0 then s\<lparr> ipis := ipis s @ [target_hart] \<rparr> else s))"

definition spawn_daemon_on_hart ::
  "str \<Rightarrow> u64 \<Rightarrow> priority \<Rightarrow> nat option \<Rightarrow> u64 \<Rightarrow> scheduler \<Rightarrow> (pid, unit) result \<times> scheduler" where
  "spawn_daemon_on_hart name entry prio affinity now s =
     bindS (admit_task (\<lambda>p. task_new_daemon p name entry prio now) affinity s) (\<lambda>(p, _) s. (Ok p, s))"

primrec steal_from :: "nat \<Rightarrow> nat list \<Rightarrow> scheduler \<Rightarrow> (nat option, unit) result \<times> scheduler" where
  "steal_from hart_id [] s = (Ok None, s)"
| "steal_from hart_id (other # others) s =
     (if other \<noteq> hart_id then
        bindS (on_queue other steal s) (\<lambda>stolen s.
          case stolen of Some r \<Rightarrow> (Ok (Some r), s) | None \<Rightarrow> steal_from hart_id others s)
      else steal_from hart_id others s)"

definition pick_next :: "nat \<Rightarrow> scheduler \<Rightarrow> (nat option, unit) result \<times> scheduler" where
  "pick_next hart_id s =
     bindS (on_queue hart_id (dequeue (heap s)) s) (\<lambda>found s.
       case found of Some r \<Rightarrow> (Ok (Some r), s) | None \<Rightarrow> steal_from hart_id [0..<num_harts s] s)"

definition requeue :: "nat \<Rightarrow> nat \<Rightarrow> scheduler \<Rightarrow> (unit, unit) result \<times> scheduler" where
  "requeue r hart_id s =
     (let s = set_task r (\<lambda>t. t\<lparr> t_state := Ready \<rparr>) s in on_queue hart_id (\<lambda>q. ((), enqueue (heap s) r q)) s)"

definition finish_task :: "pid \<Rightarrow> u64 \<Rightarrow> u64 \<Rightarrow> scheduler \<Rightarrow> (unit, unit) result \<times> scheduler" where
  "finish_task p code now = with_tasks (\<lambda>s.
     case map_of (registry s) p of
       None \<Rightarrow> (Ok (), s)
     | Some r \<Rightarrow>
         (let s = set_task r (mark_finished code) s; t = heap s ! r in
          if is_daemon t \<and> restart_on_exit t
          then bindS (spawn_on_hart (t_name t) (t_entry t) (t_priority t) (hart_affinity t) now s) (\<lambda>_ s. (Ok (), s))
          else (Ok (), s)))"

definition reap_zombies :: "scheduler \<Rightarrow> (nat, unit) result \<times> scheduler" where
  "reap_zombies = with_tasks (\<lambda>s.
     let zombies = map fst (filter (\<lambda>(p, r). t_state (heap s ! r) = Zombie \<and> \<not> restart_on_exit (heap s ! r)) (registry s))
     in (Ok (length zombies), s\<lparr> registry := fold bt_remove zombies (registry s) \<rparr>))"

definition kill :: "pid \<Rightarrow> scheduler \<Rightarrow> (bool, unit) result \<times> scheduler" where
  "kill p = with_tasks (\<lambda>s.
     case map_of (registry s) p of
       None \<Rightarrow> (Ok False, s)
     | Some r \<Rightarrow>
         (let t = heap s ! r; s = set_task r (mark_finished 137) s in
          if is_daemon t \<and> restart_on_exit t then (Ok True, s)
          else (Ok True, s\<lparr> registry := bt_remove p (registry s) \<rparr>)))"

definition get_task :: "pid \<Rightarrow> scheduler \<Rightarrow> (nat option, unit) result \<times> scheduler" where
  "get_task p = with_tasks (\<lambda>s. (Ok (map_of (registry s) p), s))"

definition list_tasks :: "u64 \<Rightarrow> scheduler \<Rightarrow> (task_info list, unit) result \<times> scheduler" where
  "list_tasks now = with_tasks (\<lambda>s. (Ok (map (\<lambda>(_, r). task_info_of now (heap s ! r)) (registry s)), s))"

definition queued_count :: "scheduler \<Rightarrow> (nat, unit) result" where
  "queued_count s =
     (if num_harts s \<le> length (queues s) then Ok (sum_list (map length (take (num_harts s) (queues s)))) else Panic)"

text \<open>One round of a hart (\<open>secondary_hart_idle\<close>): the task's entry point is a function pointer, and \<open>run\<close> is what
  calling it does to the scheduler and to the clock.\<close>

definition run_next :: "(u64 \<Rightarrow> scheduler \<Rightarrow> scheduler) \<Rightarrow> nat \<Rightarrow> u64 \<Rightarrow> u64 \<Rightarrow> scheduler \<Rightarrow> (unit, unit) result \<times> scheduler" where
  "run_next run hart_id start stop s =
     (if sched_running s then
        bindS (pick_next hart_id s) (\<lambda>picked s.
          case picked of
            None \<Rightarrow> (Ok (), s)
          | Some r \<Rightarrow>
              (let s = set_task r (mark_running hart_id) s; s = run (t_entry (heap s ! r)) s;
                   elapsed = (if start \<le> stop then stop - start else 0);
                   s = set_task r (\<lambda>t. t\<lparr> cpu_time := cpu_time t + elapsed \<rparr>) s
               in finish_task (t_pid (heap s ! r)) 0 stop s))
      else (Ok (), s))"

subsection \<open>Wait queues\<close>

datatype wait_event = Timer | IoReady | IpcMessage | ChildExit | Signal

record waiter =
  w_pid :: pid
  w_event :: wait_event
  w_timeout :: "u64 option"
  w_data :: u64

record wait_queue =
  wq_name :: str
  waiters :: "waiter list"
  pending_wakes :: u64

definition wait_queue_new :: "str \<Rightarrow> wait_queue" where
  "wait_queue_new name = \<lparr> wq_name = name, waiters = [], pending_wakes = 0 \<rparr>"

definition wq_wait :: "pid \<Rightarrow> wait_event \<Rightarrow> u64 option \<Rightarrow> u64 \<Rightarrow> wait_queue \<Rightarrow> wait_queue" where
  "wq_wait p event timeout data q =
     q\<lparr> waiters := waiters q @ [\<lparr> w_pid = p, w_event = event, w_timeout = timeout, w_data = data \<rparr>] \<rparr>"

text \<open>\<open>if let Some(task) = SCHEDULER.get_task(pid) { task.set_state(TaskState::Ready) }\<close>\<close>

definition wake_task :: "pid \<Rightarrow> scheduler \<Rightarrow> (unit, unit) result \<times> scheduler" where
  "wake_task p s =
     bindS (get_task p s) (\<lambda>found s.
       (Ok (), case found of Some r \<Rightarrow> set_task r (\<lambda>t. t\<lparr> t_state := Ready \<rparr>) s | None \<Rightarrow> s))"

definition wake_one :: "wait_queue \<Rightarrow> scheduler \<Rightarrow> (pid option, unit) result \<times> wait_queue \<times> scheduler" where
  "wake_one q s =
     (case waiters q of
        [] \<Rightarrow> (Ok None, q, s)
      | w # ws \<Rightarrow>
          (case wake_task (w_pid w) s of
             (Ok _, s) \<Rightarrow> (Ok (Some (w_pid w)), q\<lparr> waiters := ws \<rparr>, s)
           | (_, s) \<Rightarrow> (Panic, q\<lparr> waiters := ws \<rparr>, s)))"

text \<open>The loop of \<open>wake_all\<close>, \<open>wake_event\<close>, \<open>check_timeouts\<close> and \<open>wake_ipc\<close>: waiters are taken from the front, those that
  satisfy the condition are woken and the others kept in their order.  The result is the woken and the kept ones.\<close>

primrec wake_loop :: "(waiter \<Rightarrow> bool) \<Rightarrow> waiter list \<Rightarrow> scheduler \<Rightarrow> (waiter list \<times> waiter list, unit) result \<times> scheduler" where
  "wake_loop P [] s = (Ok ([], []), s)"
| "wake_loop P (w # ws) s =
     (if P w then
        bindS (wake_task (w_pid w) s) (\<lambda>_ s.
        bindS (wake_loop P ws s) (\<lambda>(woken, remaining) s. (Ok (w # woken, remaining), s)))
      else bindS (wake_loop P ws s) (\<lambda>(woken, remaining) s. (Ok (woken, w # remaining), s)))"

definition wake_where :: "(waiter \<Rightarrow> bool) \<Rightarrow> wait_queue \<Rightarrow> scheduler \<Rightarrow> (pid list, unit) result \<times> wait_queue \<times> scheduler" where
  "wake_where P q s =
     (case wake_loop P (waiters q) s of
        (Ok (woken, remaining), s) \<Rightarrow> (Ok (map w_pid woken), q\<lparr> waiters := remaining \<rparr>, s)
      | (_, s) \<Rightarrow> (Panic, q, s))"

definition wake_all :: "wait_queue \<Rightarrow> scheduler \<Rightarrow> (nat, unit) result \<times> wait_queue \<times> scheduler" where
  "wake_all q s = apfst (map_result length id) (wake_where (\<lambda>_. True) q s)"

definition wake_event :: "wait_event \<Rightarrow> wait_queue \<Rightarrow> scheduler \<Rightarrow> (nat, unit) result \<times> wait_queue \<times> scheduler" where
  "wake_event event q s = apfst (map_result length id) (wake_where (\<lambda>w. w_event w = event) q s)"

definition check_timeouts :: "u64 \<Rightarrow> wait_queue \<Rightarrow> scheduler \<Rightarrow> (pid list, unit) result \<times> wait_queue \<times> scheduler" where
  "check_timeouts current_time =
     wake_where (\<lambda>w. case w_timeout w of Some timeout \<Rightarrow> current_time \<ge> timeout | None \<Rightarrow> False)"

subsection \<open>The global wait queues\<close>

record kernel_tasks =
  k_sched :: scheduler
  timer_waitq :: "wait_queue option"
  io_waitq :: "wait_queue option"
  ipc_waitq :: "wait_queue option"

definition init_wait_queues :: "kernel_tasks \<Rightarrow> kernel_tasks" where
  "init_wait_queues k = k\<lparr> timer_waitq := Some (wait_queue_new (lit ''timer'')),
     io_waitq := Some (wait_queue_new (lit ''io'')), ipc_waitq := Some (wait_queue_new (lit ''ipc'')) \<rparr>"

definition wait_timer :: "pid \<Rightarrow> u64 \<Rightarrow> u64 \<Rightarrow> kernel_tasks \<Rightarrow> kernel_tasks" where
  "wait_timer p timeout_ms now k =
     k\<lparr> timer_waitq := map_option (wq_wait p Timer (Some (now + timeout_ms)) 0) (timer_waitq k) \<rparr>"

definition wait_io :: "pid \<Rightarrow> u64 option \<Rightarrow> kernel_tasks \<Rightarrow> kernel_tasks" where
  "wait_io p timeout k = k\<lparr> io_waitq := map_option (wq_wait p IoReady timeout 0) (io_waitq k) \<rparr>"

definition wait_ipc :: "pid \<Rightarrow> u64 \<Rightarrow> u64 option \<Rightarrow> kernel_tasks \<Rightarrow> kernel_tasks" where
  "wait_ipc p channel_id timeout k = k\<lparr> ipc_waitq := map_option (wq_wait p IpcMessage timeout channel_id) (ipc_waitq k) \<rparr>"

text \<open>An operation on a global queue that may not have been created yet.\<close>

definition on_waitq ::
  "'a \<Rightarrow> (wait_queue \<Rightarrow> scheduler \<Rightarrow> ('a, unit) result \<times> wait_queue \<times> scheduler) \<Rightarrow> wait_queue option \<times> scheduler
    \<Rightarrow> ('a, unit) result \<times> wait_queue option \<times> scheduler" where
  "on_waitq dflt f qs =
     (case qs of
        (Some q, s) \<Rightarrow> apsnd (apfst Some) (f q s)
      | (None, s) \<Rightarrow> (Ok dflt, None, s))"

definition wake_io :: "kernel_tasks \<Rightarrow> (nat, unit) result \<times> kernel_tasks" where
  "wake_io k =
     (case on_waitq 0 wake_all (io_waitq k, k_sched k) of (r, q, s) \<Rightarrow> (r, k\<lparr> io_waitq := q, k_sched := s \<rparr>))"

definition wake_ipc :: "u64 \<Rightarrow> kernel_tasks \<Rightarrow> (nat, unit) result \<times> kernel_tasks" where
  "wake_ipc channel_id k =
     (case on_waitq 0 (\<lambda>q s. apfst (map_result length id)
         (wake_where (\<lambda>w. w_event w = IpcMessage \<and> w_data w = channel_id) q s)) (ipc_waitq k, k_sched k) of
        (r, q, s) \<Rightarrow> (r, k\<lparr> ipc_waitq := q, k_sched := s \<rparr>))"

definition check_all_timeouts :: "u64 \<Rightarrow> kernel_tasks \<Rightarrow> (unit, unit) result \<times> kernel_tasks" where
  "check_all_timeouts current_time k =
     bindS (case on_waitq [] (check_timeouts current_time) (timer_waitq k, k_sched k) of
              (r, q, s) \<Rightarrow> (r, k\<lparr> timer_waitq := q, k_sched := s \<rparr>)) (\<lambda>_ k.
     bindS (case on_waitq [] (check_timeouts current_time) (io_waitq k, k_sched k) of
              (r, q, s) \<Rightarrow> (r, k\<lparr> io_waitq := q, k_sched := s \<rparr>)) (\<lambda>_ k.
     bindS (case on_waitq [] (check_timeouts current_time) (ipc_waitq k, k_sched k) of
              (r, q, s) \<Rightarrow> (r, k\<lparr> ipc_waitq := q, k_sched := s \<rparr>)) (\<lambda>_ k. (Ok (), k))))"

end
