(* ===== verification/Kn_Task_Spec.thy ===== *)
theory Kn_Task_Spec
  imports Kn_Task
begin

text \<open>
  What the scheduler guarantees.  A run queue is a priority queue that serves equal priorities in the order of their
  arrival (\<open>task_queue\<close>).  Whatever the harts do, no task is in two queues, or in a queue while a hart holds it, and the
  registry maps every process identifier to its own task.  The wait queues wake exactly the waiters they should.
\<close>

subsection \<open>The contract of a run queue\<close>

locale task_queue =
  fixes prio :: "'t \<Rightarrow> 'p::linorder" and ready :: "'t \<Rightarrow> bool"
    and enq :: "'t \<Rightarrow> 'q \<Rightarrow> 'q" and deq :: "'q \<Rightarrow> 't option \<times> 'q" and items :: "'q \<Rightarrow> 't list"
  assumes enq_items: "sorted_wrt (\<lambda>x y. prio y \<le> prio x) (items q) \<Longrightarrow>
      items (enq t q) = filter (\<lambda>x. prio t \<le> prio x) (items q) @ t # filter (\<lambda>x. prio x < prio t) (items q)"
    and deq_Some: "deq q = (Some t, q') \<Longrightarrow>
      \<exists>xs ys. items q = xs @ t # ys \<and> items q' = xs @ ys \<and> ready t \<and> (\<forall>x\<in>set xs. \<not> ready x)"
    and deq_None: "deq q = (None, q') \<Longrightarrow> q' = q \<and> (\<forall>x\<in>set (items q). \<not> ready x)"
begin

abbreviation ordered :: "'t list \<Rightarrow> bool" where
  "ordered \<equiv> sorted_wrt (\<lambda>x y. prio y \<le> prio x)"

lemma enq_ordered: "ordered (items q) \<Longrightarrow> ordered (items (enq t q))"
  by (auto simp: enq_items sorted_wrt_append sorted_wrt_filter)

lemma enq_set: "ordered (items q) \<Longrightarrow> set (items (enq t q)) = insert t (set (items q))"
  by (auto simp: enq_items)

lemma enq_distinct: "ordered (items q) \<Longrightarrow> distinct (items q) \<Longrightarrow> t \<notin> set (items q) \<Longrightarrow> distinct (items (enq t q))"
  by (auto simp: enq_items not_le)

lemma deq_ordered: "deq q = (Some t, q') \<Longrightarrow> ordered (items q) \<Longrightarrow> ordered (items q')"
  by (auto simp: sorted_wrt_append dest!: deq_Some)

text \<open>The task handed out has the highest priority among those that can run, and came first among its equals.\<close>

lemma deq_best:
  assumes "deq q = (Some t, q')" "ordered (items q)"
  shows "ready t \<and> (\<forall>x\<in>set (items q). ready x \<longrightarrow> prio x \<le> prio t) \<and> t = hd (filter ready (items q)) \<and>
    filter ready (items q') = tl (filter ready (items q)) \<and> filter (\<lambda>x. \<not> ready x) (items q') = filter (\<lambda>x. \<not> ready x) (items q)"
proof -
  from deq_Some [OF assms(1)] obtain xs ys where q: "items q = xs @ t # ys" "items q' = xs @ ys" "ready t" "\<forall>x\<in>set xs. \<not> ready x"
    by blast
  moreover from q(4) have "filter ready xs = []" by (simp add: filter_empty_conv)
  ultimately show ?thesis using assms(2) by (auto simp: sorted_wrt_append)
qed

text \<open>Tasks of the same priority leave in the order of their arrival.\<close>

lemma enq_behind_equals:
  assumes "ordered (items q)" "x \<in> set (items q)" "prio t \<le> prio x"
  shows "\<exists>xs ys. items (enq t q) = xs @ t # ys \<and> x \<in> set xs"
  using assms by (auto simp: enq_items)

end

lemma position_split:
  "position P xs = Some i \<Longrightarrow> i < length xs \<and> P (xs ! i) \<and> (\<forall>x\<in>set (take i xs). \<not> P x)"
proof (induction xs arbitrary: i)
  case (Cons x xs)
  then show ?case by (cases i) (auto split: if_splits)
qed simp

lemma filter_ordered_split:
  assumes "sorted_wrt (\<lambda>x y. (f y :: 'b::linorder) \<le> f x) q"
  shows "take (unwrap_or (position (\<lambda>x. f x < k) q) (length q)) q = filter (\<lambda>x. k \<le> f x) q"
    "drop (unwrap_or (position (\<lambda>x. f x < k) q) (length q)) q = filter (\<lambda>x. f x < k) q"
  using assms
proof (induction q)
  case (Cons x xs)
  {
    case 1
    show ?case
    proof (cases "f x < k")
      case True
      with 1 have "filter (\<lambda>x. k \<le> f x) (x # xs) = []" by (auto simp: filter_empty_conv)
      with True show ?thesis by simp
    next
      case False
      with Cons(1) 1 show ?thesis by (cases "position (\<lambda>x. f x < k) xs") auto
    qed
  next
    case 2
    show ?case
    proof (cases "f x < k")
      case True
      with 2 have "filter (\<lambda>x. f x < k) (x # xs) = x # xs" by (auto simp: filter_id_conv)
      with True show ?thesis by simp
    next
      case False
      with Cons(2) 2 show ?thesis by (cases "position (\<lambda>x. f x < k) xs") auto
    qed
  }
qed simp_all

interpretation rq: task_queue "\<lambda>r. t_priority (h ! r)" "\<lambda>r. t_state (h ! r) = Ready" "enqueue h" "dequeue h" id
  for h :: "task list"
proof
  fix q :: rq and t :: nat
  assume "sorted_wrt (\<lambda>x y. t_priority (h ! y) \<le> t_priority (h ! x)) (id q)"
  then show "id (enqueue h t q) = filter (\<lambda>x. t_priority (h ! t) \<le> t_priority (h ! x)) (id q) @
      t # filter (\<lambda>x. t_priority (h ! x) < t_priority (h ! t)) (id q)"
    using filter_ordered_split [of "\<lambda>r. t_priority (h ! r)" q "t_priority (h ! t)"] by (simp add: enqueue_def Let_def)
next
  fix q q' :: rq and t :: nat
  assume "dequeue h q = (Some t, q')"
  then obtain i where i: "position (\<lambda>t. t_state (h ! t) = Ready) q = Some i" "t = q ! i" "q' = take i q @ drop (Suc i) q"
    by (auto simp: dequeue_def split: option.splits)
  from position_split [OF i(1)] i(2,3) have "q = take i q @ t # drop (Suc i) q"
    by (simp add: id_take_nth_drop)
  with position_split [OF i(1)] i(2,3)
  show "\<exists>xs ys. id q = xs @ t # ys \<and> id q' = xs @ ys \<and> t_state (h ! t) = Ready \<and> (\<forall>x\<in>set xs. t_state (h ! x) \<noteq> Ready)"
    by (intro exI [of _ "take i q"] exI [of _ "drop (Suc i) q"]) simp
next
  fix q q' :: rq
  assume "dequeue h q = (None, q')"
  then show "q' = q \<and> (\<forall>x\<in>set (id q). t_state (h ! x) \<noteq> Ready)"
    by (auto simp: dequeue_def position_None split: option.splits)
qed

subsection \<open>The invariant\<close>

abbreviation rq_ordered :: "task list \<Rightarrow> rq \<Rightarrow> bool" where
  "rq_ordered h \<equiv> sorted_wrt (\<lambda>x y. t_priority (h ! y) \<le> t_priority (h ! x))"

text \<open>\<open>held\<close> are the tasks that the harts have taken from a queue and not put back.\<close>

definition queues_ok :: "task list \<Rightarrow> rq list \<Rightarrow> nat list \<Rightarrow> bool" where
  "queues_ok h qs held \<longleftrightarrow> length qs = 128 \<and> distinct (concat qs @ held) \<and>
     (\<forall>r\<in>set (concat qs @ held). r < length h) \<and> (\<forall>q\<in>set qs. rq_ordered h q)"

definition tables_ok :: "task list \<Rightarrow> (pid, nat) btree \<Rightarrow> u64 \<Rightarrow> bool" where
  "tables_ok h reg next \<longleftrightarrow> bt_wf reg \<and> next = word_of_nat (Suc (length h)) \<and>
     (\<forall>r<length h. t_pid (h ! r) = word_of_nat (Suc r)) \<and>
     (\<forall>p r. map_of reg p = Some r \<longrightarrow> r < length h \<and> p = word_of_nat (Suc r))"

definition sched_ok :: "scheduler \<Rightarrow> nat list \<Rightarrow> bool" where
  "sched_ok s held \<longleftrightarrow> num_harts s \<le> 128 \<and> \<not> tasks_locked s \<and> queues_ok (heap s) (queues s) held \<and>
     tables_ok (heap s) (registry s) (next_pid s)"

text \<open>Changing a task in place, without its identifier and priority, keeps the invariant.\<close>

lemma rq_ordered_cong:
  assumes "\<And>r. r \<in> set q \<Longrightarrow> t_priority (h' ! r) = t_priority (h ! r)"
  shows "rq_ordered h' q \<longleftrightarrow> rq_ordered h q"
  using assms by (induction q) auto

lemma queues_ok_cong:
  assumes "length h \<le> length h'" "\<And>r. r < length h \<Longrightarrow> t_priority (h' ! r) = t_priority (h ! r)" "queues_ok h qs held"
  shows "queues_ok h' qs held"
proof -
  have "rq_ordered h' q" if "q \<in> set qs" for q
  proof -
    have "r < length h" if "r \<in> set q" for r using that \<open>q \<in> set qs\<close> assms(3) by (auto simp: queues_ok_def)
    then have "rq_ordered h' q \<longleftrightarrow> rq_ordered h q" using assms(2) by (intro rq_ordered_cong) simp
    with that assms(3) show ?thesis by (simp add: queues_ok_def)
  qed
  with assms(1,3) show ?thesis by (auto simp: queues_ok_def intro: less_le_trans)
qed

lemma set_task_ok:
  assumes "sched_ok s held" "\<And>t. t_pid (f t) = t_pid t" "\<And>t. t_priority (f t) = t_priority t"
  shows "sched_ok (set_task r f s) held"
proof -
  let ?h = "(heap s)[r := f (heap s ! r)]"
  have p: "t_priority (?h ! x) = t_priority (heap s ! x)" "t_pid (?h ! x) = t_pid (heap s ! x)" if "x < length (heap s)" for x
    using assms(2,3) that by (cases "x = r"; simp)+
  have "queues_ok ?h (queues s) held"
    by (rule queues_ok_cong [of "heap s"]) (use assms(1) p in \<open>auto simp: sched_ok_def\<close>)
  moreover have "tables_ok ?h (registry s) (next_pid s)"
    using assms(1) p(2) by (simp add: sched_ok_def tables_ok_def del: of_nat_Suc)
  ultimately show ?thesis using assms(1) by (simp add: sched_ok_def set_task_def)
qed

lemma concat_update:
  assumes "i < length qs"
  shows "\<exists>as bs. concat qs = as @ qs ! i @ bs \<and> concat (qs[i := q]) = as @ q @ bs"
proof -
  have "concat qs = concat (take i qs @ qs ! i # drop (Suc i) qs)" using assms by (simp add: id_take_nth_drop [symmetric])
  moreover have "concat (qs[i := q]) = concat (take i qs @ q # drop (Suc i) qs)" using assms by (simp add: upd_conv_take_nth_drop)
  ultimately show ?thesis
    by (intro exI [of _ "concat (take i qs)"] exI [of _ "concat (drop (Suc i) qs)"]) simp
qed

text \<open>Taking a task out of a queue, and putting one that is held into a queue.\<close>

lemma take_out_ok:
  assumes "queues_ok h qs held" "i < 128" "qs ! i = xs @ r # ys"
  shows "queues_ok h (qs[i := xs @ ys]) (r # held)" "r < length h"
proof -
  have i: "i < length qs" using assms(1,2) by (simp add: queues_ok_def)
  from concat_update [OF i, of "xs @ ys"] obtain as bs
    where c: "concat qs = as @ (xs @ r # ys) @ bs" "concat (qs[i := xs @ ys]) = as @ (xs @ ys) @ bs"
    unfolding assms(3) by blast
  have "qs ! i \<in> set qs" using i by simp
  then have "rq_ordered h (xs @ ys)" using assms(1) by (auto simp: queues_ok_def assms(3) sorted_wrt_append)
  then have "\<forall>q\<in>set (qs[i := xs @ ys]). rq_ordered h q"
    using assms(1) set_update_subset_insert [of qs i "xs @ ys"] by (auto simp: queues_ok_def)
  then show "queues_ok h (qs[i := xs @ ys]) (r # held)" using assms(1) unfolding queues_ok_def c by auto
  show "r < length h" using assms(1) unfolding queues_ok_def c(1) by simp
qed

lemma put_in_ok:
  assumes "queues_ok h qs (r # held)" "i < 128"
  shows "queues_ok h (qs[i := enqueue h r (qs ! i)]) held"
proof -
  let ?q = "qs ! i" and ?q' = "enqueue h r (qs ! i)"
  have i: "i < length qs" using assms by (simp add: queues_ok_def)
  from concat_update [OF i, of ?q'] obtain as bs
    where c: "concat qs = as @ ?q @ bs" "concat (qs[i := ?q']) = as @ ?q' @ bs" by blast
  have "?q \<in> set qs" using i by simp
  then have o: "rq_ordered h (id ?q)" using assms(1) by (simp add: queues_ok_def)
  have d: "distinct (id ?q)" "r \<notin> set (id ?q)" using assms(1) unfolding queues_ok_def c(1) by auto
  note e = rq.enq_ordered [OF o, of r] rq.enq_set [OF o, of r] rq.enq_distinct [OF o d]
  have "\<forall>q\<in>set (qs[i := ?q']). rq_ordered h q"
    using assms(1) e(1) set_update_subset_insert [of qs i ?q'] by (auto simp: queues_ok_def)
  then show ?thesis using assms(1) e(2,3) unfolding queues_ok_def c by auto
qed

subsection \<open>The operations keep the invariant\<close>

lemma with_tasks_Ok:
  "with_tasks body s = (Ok a, s') \<longleftrightarrow>
     \<not> tasks_locked s \<and> (\<exists>s1. body (s\<lparr> tasks_locked := True \<rparr>) = (Ok a, s1) \<and> s' = s1\<lparr> tasks_locked := False \<rparr>)"
  by (cases "body (s\<lparr> tasks_locked := True \<rparr>)"; cases "fst (body (s\<lparr> tasks_locked := True \<rparr>))") (auto simp: with_tasks_def)

lemma on_queue_Ok:
  "on_queue hart f s = (Ok a, s') \<longleftrightarrow>
     hart < length (queues s) \<and> (\<exists>q. f (queues s ! hart) = (a, q) \<and> s' = s\<lparr> queues := (queues s)[hart := q] \<rparr>)"
  by (auto simp: on_queue_def split: prod.splits)

lemma admit_task_Ok:
  assumes "admit_task mk affinity s = (Ok (p, hart), s')"
  defines "h \<equiv> heap s @ [(mk p)\<lparr> hart_affinity := affinity \<rparr>]"
  shows "p = ucast (next_pid s) \<and> hart < length (queues s) \<and> \<not> tasks_locked s \<and> (affinity = None \<or> affinity = Some hart) \<and>
    s' = s\<lparr> next_pid := next_pid s + 1, heap := h, registry := bt_insert p (length (heap s)) (registry s),
      tasks_locked := False, queues := (queues s)[hart := enqueue h (length (heap s)) (queues s ! hart)] \<rparr>"
  using assms(1) unfolding admit_task_def h_def Let_def bindS_Ok with_tasks_Ok on_queue_Ok
  by (cases affinity) (elim exE conjE, force)+

lemma admit_task_ok:
  assumes "sched_ok s held" "admit_task mk affinity s = (Ok (p, hart), s')" "\<And>p. t_pid (mk p) = p"
  shows "sched_ok s' held"
proof -
  let ?h = "heap s @ [(mk p)\<lparr> hart_affinity := affinity \<rparr>]" and ?r = "length (heap s)"
  note s' = admit_task_Ok [OF assms(2)]
  have p: "p = word_of_nat (Suc ?r)"
    using assms(1) s' by (simp add: sched_ok_def tables_ok_def ucast_of_nat del: of_nat_Suc)
  have "queues_ok ?h (queues s) held"
    by (rule queues_ok_cong [of "heap s"]) (use assms(1) in \<open>auto simp: sched_ok_def nth_append\<close>)
  then have q: "queues_ok ?h (queues s) (?r # held)" using assms(1) by (auto simp: queues_ok_def sched_ok_def)
  have hart: "hart < 128" using s' assms(1) by (simp add: sched_ok_def queues_ok_def)
  have "tables_ok ?h (registry s') (next_pid s')"
    using assms(1,3) p s' by (auto simp: sched_ok_def tables_ok_def nth_append less_Suc_eq algebra_simps)
  with put_in_ok [OF q hart(1)] assms(1) s' show ?thesis by (simp add: sched_ok_def)
qed

lemma sched_ok_ipis [simp]: "sched_ok (s\<lparr> ipis := i \<rparr>) held = sched_ok s held"
  by (simp add: sched_ok_def)

lemma spawn_on_hart_ok:
  assumes "sched_ok s held" "spawn_on_hart name entry prio affinity now s = (Ok p, s')"
  shows "sched_ok s' held"
proof -
  from assms(2) obtain hart s1 where "admit_task (\<lambda>p. task_new p name entry prio now) affinity s = (Ok (p, hart), s1)"
    "s' = (if hart \<noteq> 0 then s1\<lparr> ipis := ipis s1 @ [hart] \<rparr> else s1)"
    by (auto simp: spawn_on_hart_def bindS_Ok)
  with admit_task_ok [OF assms(1) this(1)] show ?thesis by (simp add: task_new_def)
qed

lemma spawn_daemon_on_hart_ok:
  assumes "sched_ok s held" "spawn_daemon_on_hart name entry prio affinity now s = (Ok p, s')"
  shows "sched_ok s' held"
proof -
  from assms(2) obtain hart where "admit_task (\<lambda>p. task_new_daemon p name entry prio now) affinity s = (Ok (p, hart), s')"
    by (auto simp: spawn_daemon_on_hart_def bindS_Ok)
  from admit_task_ok [OF assms(1) this] show ?thesis by (simp add: task_new_daemon_def task_new_def)
qed

text \<open>What a hart takes from a queue, its own or another's, is held by it afterwards.\<close>

definition taken :: "nat option \<Rightarrow> nat list \<Rightarrow> nat list" where
  "taken found held = (case found of Some r \<Rightarrow> r # held | None \<Rightarrow> held)"

lemma taken_simps [simp]: "taken None held = held" "taken (Some r) held = r # held"
  by (simp_all add: taken_def)

lemma on_queue_taken_ok:
  assumes "sched_ok s held" "on_queue hart f s = (Ok found, s')"
    and "\<And>q r q'. f q = (Some r, q') \<Longrightarrow> \<exists>xs ys. q = xs @ r # ys \<and> q' = xs @ ys" "\<And>q q'. f q = (None, q') \<Longrightarrow> q' = q"
  shows "sched_ok s' (taken found held)"
proof -
  from assms(2) obtain q where q: "hart < length (queues s)" "f (queues s ! hart) = (found, q)"
    "s' = s\<lparr> queues := (queues s)[hart := q] \<rparr>" by (auto simp: on_queue_Ok)
  show ?thesis
  proof (cases found)
    case None
    with q(2) assms(4) have "q = queues s ! hart" by blast
    with q(3) assms(1) None show ?thesis by (simp add: taken_def)
  next
    case (Some r)
    with assms(3) q(2) obtain xs ys where "queues s ! hart = xs @ r # ys" "q = xs @ ys" by blast
    with q assms(1) take_out_ok [of "heap s" "queues s" held hart xs r ys] Some show ?thesis
      by (simp add: sched_ok_def taken_def queues_ok_def)
  qed
qed

lemma steal_from_ok: "sched_ok s held \<Longrightarrow> steal_from hart others s = (Ok found, s') \<Longrightarrow> sched_ok s' (taken found held)"
proof (induction others arbitrary: s)
  case Nil
  then show ?case by (simp add: taken_def)
next
  case (Cons other others)
  have steal: "sched_ok s1 (taken stolen held)" if "on_queue other steal s = (Ok stolen, s1)" for stolen s1
    using Cons.prems(1) that
  proof (rule on_queue_taken_ok)
    show "\<exists>xs ys. q = xs @ r # ys \<and> q' = xs @ ys" if "steal q = (Some r, q')" for q r q'
    proof -
      have "q = butlast q @ r # [] \<and> q' = butlast q @ []" using that by (cases q rule: rev_cases) (auto simp: steal_def split: if_splits)
      then show ?thesis by blast
    qed
  qed (simp add: steal_def split: if_splits)
  show ?case
  proof (cases "other = hart")
    case True
    with Cons.prems Cons.IH show ?thesis by simp
  next
    case False
    with Cons.prems(2) obtain stolen s1 where s1: "on_queue other steal s = (Ok stolen, s1)"
      "(case stolen of Some r \<Rightarrow> (Ok (Some r), s1) | None \<Rightarrow> steal_from hart others s1) = (Ok found, s')"
      by (auto simp: bindS_Ok)
    with steal [OF s1(1)] Cons.IH [of s1] show ?thesis by (cases stolen) auto
  qed
qed

lemma pick_next_ok:
  assumes "sched_ok s held" "pick_next hart s = (Ok found, s')"
  shows "sched_ok s' (taken found held)"
proof -
  from assms(2) obtain own s1 where own: "on_queue hart (dequeue (heap s)) s = (Ok own, s1)"
    and s': "(case own of Some r \<Rightarrow> (Ok (Some r), s1) | None \<Rightarrow> steal_from hart [0..<num_harts s1] s1) = (Ok found, s')"
    by (auto simp: pick_next_def bindS_Ok)
  have "sched_ok s1 (taken own held)"
    using assms(1) own by (rule on_queue_taken_ok) (use rq.deq_Some rq.deq_None in \<open>(fastforce, blast)\<close>)
  with s' steal_from_ok show ?thesis by (cases own) (auto simp: taken_def)
qed

lemma requeue_ok:
  assumes "sched_ok s (r # held)" "requeue r hart s = (Ok u, s')"
  shows "sched_ok s' held"
proof -
  let ?s = "set_task r (\<lambda>t. t\<lparr> t_state := Ready \<rparr>) s"
  have "sched_ok ?s (r # held)" using assms(1) by (rule set_task_ok) simp_all
  moreover from assms(2) have "hart < length (queues ?s)"
    "s' = ?s\<lparr> queues := (queues ?s)[hart := enqueue (heap ?s) r (queues ?s ! hart)] \<rparr>"
    by (auto simp: requeue_def Let_def on_queue_Ok)
  ultimately show ?thesis
    using put_in_ok [of "heap ?s" "queues ?s" r held hart] by (simp add: sched_ok_def queues_ok_def)
qed

lemma held_front:
  assumes "sched_ok s held" "r \<in> set held"
  shows "sched_ok s (r # remove1 r held)" "sched_ok s (remove1 r held)"
  using assms unfolding sched_ok_def queues_ok_def by (auto simp: set_remove1_eq)

lemma with_tasks_sched_ok:
  assumes "sched_ok s held" "with_tasks body s = (Ok a, s')"
    and "\<And>s1. body (s\<lparr> tasks_locked := True \<rparr>) = (Ok a, s1) \<Longrightarrow> sched_ok (s1\<lparr> tasks_locked := False \<rparr>) held"
  shows "sched_ok s' held"
  using assms(2,3) by (auto simp: with_tasks_Ok)

lemma set_task_locked [simp]: "(set_task r f s)\<lparr> tasks_locked := b \<rparr> = set_task r f (s\<lparr> tasks_locked := b \<rparr>)"
  "(set_task r f s)\<lparr> registry := g \<rparr> = set_task r f (s\<lparr> registry := g \<rparr>)"
  "registry (set_task r f s) = registry s" "tasks_locked (set_task r f s) = tasks_locked s"
  "queues (set_task r f s) = queues s" "num_harts (set_task r f s) = num_harts s" "next_pid (set_task r f s) = next_pid s"
  "length (heap (set_task r f s)) = length (heap s)"
  by (simp_all add: set_task_def)

lemma unlocked_ok: "sched_ok s held \<Longrightarrow> sched_ok (s\<lparr> tasks_locked := False \<rparr>) held"
  by (simp add: sched_ok_def)

lemma mark_finished_frame: "t_pid (mark_finished c t) = t_pid t" "t_priority (mark_finished c t) = t_priority t"
  by (simp_all add: mark_finished_def)

text \<open>The registry only shrinks when tasks are removed from it.\<close>

lemma registry_shrinks_ok:
  assumes "sched_ok s held" "bt_wf reg" "map_of reg \<subseteq>\<^sub>m map_of (registry s)"
  shows "sched_ok (s\<lparr> registry := reg, tasks_locked := False \<rparr>) held"
  using assms by (simp add: sched_ok_def tables_ok_def map_le_def dom_def del: of_nat_Suc) metis

text \<open>While the registry is locked no task can be started: \<open>spawn_on_hart\<close> would wait for the same lock for ever.\<close>

lemma spawn_locked: "tasks_locked s \<Longrightarrow> fst (spawn_on_hart name entry prio affinity now s) = Panic"
  by (simp add: spawn_on_hart_def admit_task_def with_tasks_def Let_def)

lemma finish_task_ok:
  assumes "sched_ok s held" "finish_task p code now s = (Ok u, s')"
  shows "sched_ok s' held"
  using assms unfolding finish_task_def
proof (rule with_tasks_sched_ok)
  fix s1
  let ?s = "s\<lparr> tasks_locked := True \<rparr>"
  assume b: "(case map_of (registry ?s) p of None \<Rightarrow> (Ok (), ?s)
     | Some r \<Rightarrow> (let s = set_task r (mark_finished code) ?s; t = heap s ! r in
          if is_daemon t \<and> restart_on_exit t
          then bindS (spawn_on_hart (t_name t) (t_entry t) (t_priority t) (hart_affinity t) now s) (\<lambda>_ s. (Ok (), s))
          else (Ok (), s))) = (Ok u, s1)"
  have "s1 = ?s \<or> (\<exists>r. s1 = set_task r (mark_finished code) ?s)"
  proof (cases "map_of (registry s) p")
    case (Some r)
    with b spawn_locked [of "set_task r (mark_finished code) ?s"] show ?thesis
      by (auto simp: Let_def bindS_Ok split: if_splits) (metis fst_conv result.distinct(3))
  qed (use b in simp)
  with unlocked_ok [OF assms(1)] show "sched_ok (s1\<lparr> tasks_locked := False \<rparr>) held"
    by (elim disjE exE) (simp_all add: set_task_ok mark_finished_frame)
qed

lemma kill_ok:
  assumes "sched_ok s held" "kill p s = (Ok b, s')"
  shows "sched_ok s' held"
proof -
  have "bt_wf (registry s)" using assms(1) by (simp add: sched_ok_def tables_ok_def)
  then have r: "sched_ok (s\<lparr> registry := bt_remove p (registry s), tasks_locked := False \<rparr>) held"
    by (intro registry_shrinks_ok assms(1)) (simp_all add: map_le_def)
  note k = unlocked_ok [OF assms(1)] set_task_ok [OF r mark_finished_frame]
    set_task_ok [OF unlocked_ok [OF assms(1)] mark_finished_frame]
  from assms(2) k show ?thesis
    by (auto simp: kill_def with_tasks_Ok Let_def split: option.splits if_splits)
qed

lemma fold_bt_remove:
  "bt_wf m \<Longrightarrow> bt_wf (fold bt_remove ps m) \<and> (\<forall>p. map_of (fold bt_remove ps m) p = (if p \<in> set ps then None else map_of m p))"
  by (induction ps arbitrary: m) auto

lemma reap_zombies_ok:
  assumes "sched_ok s held" "reap_zombies s = (Ok n, s')"
  shows "sched_ok s' held"
proof -
  from assms(2) obtain ps where s': "s' = s\<lparr> registry := fold bt_remove ps (registry s), tasks_locked := False \<rparr>"
    by (auto simp: reap_zombies_def with_tasks_Ok Let_def)
  have "bt_wf (registry s)" using assms(1) by (simp add: sched_ok_def tables_ok_def)
  from fold_bt_remove [OF this, of ps] show ?thesis
    unfolding s' by (intro registry_shrinks_ok assms(1)) (auto simp: map_le_def)
qed

lemma unlocked_eq: "\<not> tasks_locked s \<Longrightarrow> s\<lparr> tasks_locked := False \<rparr> = s"
  by simp

lemma wake_task_eq:
  "\<not> tasks_locked s \<Longrightarrow> wake_task p s =
    (Ok (), case map_of (registry s) p of Some r \<Rightarrow> set_task r (\<lambda>t. t\<lparr> t_state := Ready \<rparr>) s | None \<Rightarrow> s)"
  by (simp add: wake_task_def get_task_def with_tasks_def unlocked_eq split: option.split)

lemma wake_task_ok: "sched_ok s held \<Longrightarrow> wake_task p s = (Ok u, s') \<Longrightarrow> sched_ok s' held"
  using wake_task_eq [of s p] sched_ok_def [of s held] by (auto simp: set_task_ok split: option.splits)

subsection \<open>What the harts can reach\<close>

text \<open>\<open>sched_reach s held\<close>: the scheduler is in the state \<open>s\<close> and the harts hold the tasks \<open>held\<close>, after any sequence of
  completed operations.  A hart marks, requeues or drops only a task that it holds.\<close>

inductive sched_reach :: "scheduler \<Rightarrow> nat list \<Rightarrow> bool" where
  boot: "n \<le> 128 \<Longrightarrow> sched_reach (scheduler_init n) []"
| spawn: "sched_reach s held \<Longrightarrow> spawn_on_hart name entry prio affinity now s = (Ok p, s') \<Longrightarrow> sched_reach s' held"
| daemon: "sched_reach s held \<Longrightarrow> spawn_daemon_on_hart name entry prio affinity now s = (Ok p, s') \<Longrightarrow> sched_reach s' held"
| pick: "sched_reach s held \<Longrightarrow> pick_next hart s = (Ok found, s') \<Longrightarrow> sched_reach s' (taken found held)"
| mark: "sched_reach s held \<Longrightarrow> r \<in> set held \<Longrightarrow> sched_reach (set_task r (mark_running hart) s) held"
| account: "sched_reach s held \<Longrightarrow> r \<in> set held \<Longrightarrow>
    sched_reach (set_task r (\<lambda>t. t\<lparr> cpu_time := cpu_time t + elapsed \<rparr>) s) held"
| requeue: "sched_reach s held \<Longrightarrow> r \<in> set held \<Longrightarrow> requeue r hart s = (Ok (), s') \<Longrightarrow> sched_reach s' (remove1 r held)"
| finish: "sched_reach s held \<Longrightarrow> finish_task p code now s = (Ok (), s') \<Longrightarrow> sched_reach s' held"
| drop: "sched_reach s held \<Longrightarrow> r \<in> set held \<Longrightarrow> sched_reach s (remove1 r held)"
| kill: "sched_reach s held \<Longrightarrow> kill p s = (Ok b, s') \<Longrightarrow> sched_reach s' held"
| reap: "sched_reach s held \<Longrightarrow> reap_zombies s = (Ok n, s') \<Longrightarrow> sched_reach s' held"
| wake: "sched_reach s held \<Longrightarrow> wake_task p s = (Ok (), s') \<Longrightarrow> sched_reach s' held"

lemma scheduler_init_ok: "n \<le> 128 \<Longrightarrow> sched_ok (scheduler_init n) []"
  by (simp add: sched_ok_def scheduler_init_def queues_ok_def tables_ok_def)

lemma sched_reach_ok: "sched_reach s held \<Longrightarrow> sched_ok s held"
proof (induction rule: sched_reach.induct)
  case (requeue s held r hart s')
  then show ?case using held_front(1) requeue_ok by blast
qed (auto simp: scheduler_init_ok mark_running_def intro: spawn_on_hart_ok spawn_daemon_on_hart_ok pick_next_ok
    finish_task_ok held_front kill_ok reap_zombies_ok wake_task_ok set_task_ok)

text \<open>C16: Whatever sequence of spawns, picks, steals, requeues, exits, kills, reaps and wake-ups the harts complete, no task
  is in two run queues, twice in one, or in a queue while a hart holds it; every queue is ordered by descending
  priority; and the registry maps an identifier only to the task that carries it.\<close>

theorem no_task_runs_twice:
  assumes "sched_reach s held"
  shows "distinct (concat (queues s) @ held) \<and>
    (\<forall>i<128. sorted_wrt (\<lambda>x y. t_priority (heap s ! y) \<le> t_priority (heap s ! x)) (queues s ! i)) \<and>
    (\<forall>p r. map_of (registry s) p = Some r \<longrightarrow> r < length (heap s) \<and> t_pid (heap s ! r) = p)"
  using sched_reach_ok [OF assms] unfolding sched_ok_def queues_ok_def tables_ok_def by (metis distinct_append nth_mem)

text \<open>A hart with a low and a high priority task, and the hart after it has picked one.\<close>

definition two_tasks :: scheduler where
  "two_tasks = snd (spawn_on_hart (lit ''high'') 16 High (Some 0) 7 (snd (spawn_on_hart (lit ''low'') 8 Low (Some 0) 5 (scheduler_init 1))))"

lemma two_tasks_eq:
  "two_tasks = \<lparr> heap = [(task_new 1 (lit ''low'') 8 Low 5)\<lparr> hart_affinity := Some 0 \<rparr>, (task_new 2 (lit ''high'') 16 High 7)\<lparr> hart_affinity := Some 0 \<rparr>],
     queues = [1, 0] # replicate 127 [], registry = [(1, 0), (2, 1)], tasks_locked = False, next_pid = 3, num_harts = 1,
     sched_running = True, ipis = [] \<rparr>"
  by code_simp

lemma two_tasks_reach: "sched_reach two_tasks []"
proof -
  let ?s = "snd (spawn_on_hart (lit ''low'') 8 Low (Some 0) 5 (scheduler_init 1))"
  have "fst (spawn_on_hart (lit ''low'') 8 Low (Some 0) 5 (scheduler_init 1)) = Ok 1"
    "fst (spawn_on_hart (lit ''high'') 16 High (Some 0) 7 ?s) = Ok 2" by code_simp+
  then have "spawn_on_hart (lit ''low'') 8 Low (Some 0) 5 (scheduler_init 1) = (Ok 1, ?s)"
    "spawn_on_hart (lit ''high'') 16 High (Some 0) 7 ?s = (Ok 2, two_tasks)" by (simp_all add: two_tasks_def prod_eq_iff)
  then show ?thesis using sched_reach.boot [of 1] by (auto intro: sched_reach.spawn)
qed

theorem no_task_runs_twice_witness:
  "sched_reach (snd (pick_next 0 two_tasks)) [1] \<and> distinct (concat (queues (snd (pick_next 0 two_tasks))) @ [1])"
proof -
  have "fst (pick_next 0 two_tasks) = Ok (Some 1)" by (simp add: two_tasks_eq) code_simp
  then have "pick_next 0 two_tasks = (Ok (Some 1), snd (pick_next 0 two_tasks))" by (simp add: prod_eq_iff)
  from sched_reach.pick [OF two_tasks_reach this] have "sched_reach (snd (pick_next 0 two_tasks)) [1]" by simp
  with no_task_runs_twice [OF this] show ?thesis by simp
qed

subsection \<open>Who runs next\<close>

text \<open>The tasks of a hart's own queue that can run.\<close>

abbreviation ready_on :: "nat \<Rightarrow> scheduler \<Rightarrow> nat list" where
  "ready_on hart s \<equiv> filter (\<lambda>r. t_state (heap s ! r) = Ready) (queues s ! hart)"

lemma pick_next_own:
  assumes "sched_ok s held" "hart < 128" "ready_on hart s = r # rs"
  shows "\<exists>s'. pick_next hart s = (Ok (Some r), s') \<and> ready_on hart s' = rs \<and> heap s' = heap s \<and>
    (\<forall>x\<in>set (r # rs). t_priority (heap s ! x) \<le> t_priority (heap s ! r))"
proof -
  let ?q = "queues s ! hart"
  have hart: "hart < length (queues s)" using assms(1,2) by (simp add: sched_ok_def queues_ok_def)
  have o: "rq_ordered (heap s) (id ?q)" using assms(1) hart by (simp add: sched_ok_def queues_ok_def)
  show ?thesis
  proof (cases "dequeue (heap s) ?q")
    case (Pair found q')
    show ?thesis
    proof (cases found)
      case None
      with Pair rq.deq_None [of "heap s" ?q q'] assms(3) show ?thesis by (auto simp: filter_eq_Cons_iff)
    next
      case (Some t)
      from rq.deq_best [of "heap s" ?q t q', OF Pair [unfolded Some] o] assms(3)
      have b: "t = r" "filter (\<lambda>r. t_state (heap s ! r) = Ready) q' = rs"
        "\<And>x. x \<in> set ?q \<Longrightarrow> t_state (heap s ! x) = Ready \<Longrightarrow> t_priority (heap s ! x) \<le> t_priority (heap s ! r)" by auto
      have "set (r # rs) \<subseteq> {x \<in> set ?q. t_state (heap s ! x) = Ready}" using assms(3) by (metis set_filter order_refl)
      with b Pair Some hart show ?thesis by (auto simp: pick_next_def on_queue_def)
    qed
  qed
qed

text \<open>\<open>n\<close> picks of one hart in a row.\<close>

primrec pick_many :: "nat \<Rightarrow> nat \<Rightarrow> scheduler \<Rightarrow> (nat option list, unit) result \<times> scheduler" where
  "pick_many hart 0 s = (Ok [], s)"
| "pick_many hart (Suc n) s =
     bindS (pick_next hart s) (\<lambda>r s. bindS (pick_many hart n s) (\<lambda>rs s. (Ok (r # rs), s)))"

lemma pick_many_own:
  "sched_ok s held \<Longrightarrow> hart < 128 \<Longrightarrow> ready_on hart s = rs @ rest \<Longrightarrow>
    \<exists>s'. pick_many hart (length rs) s = (Ok (map Some rs), s') \<and> ready_on hart s' = rest \<and> heap s' = heap s"
proof (induction rs arbitrary: s held)
  case (Cons r rs)
  then obtain s1 where s1: "pick_next hart s = (Ok (Some r), s1)" "ready_on hart s1 = rs @ rest" "heap s1 = heap s"
    using pick_next_own [of s held hart r "rs @ rest"] by auto
  with Cons.IH [OF pick_next_ok [OF Cons.prems(1) s1(1)] Cons.prems(2) s1(2)] show ?case by auto
qed simp

lemma spawn_on_hart_queue:
  assumes "sched_ok s held" "hart < 128" "spawn_on_hart name entry prio (Some hart) now s = (Ok p, s')"
  defines "q \<equiv> queues s ! hart" and "t \<equiv> (task_new p name entry prio now)\<lparr> hart_affinity := Some hart \<rparr>"
  shows "heap s' = heap s @ [t]"
    and "queues s' ! hart = filter (\<lambda>r. prio \<le> t_priority (heap s ! r)) q @ length (heap s) # filter (\<lambda>r. t_priority (heap s ! r) < prio) q"
proof -
  from assms(3) obtain hart' s1 where s0: "admit_task (\<lambda>p. task_new p name entry prio now) (Some hart) s = (Ok (p, hart'), s1)"
    and "s' = (if hart' \<noteq> 0 then s1\<lparr> ipis := ipis s1 @ [hart'] \<rparr> else s1)"
    by (auto simp: spawn_on_hart_def bindS_Ok)
  then have s': "heap s' = heap s1" "queues s' = queues s1" by simp_all
  have s1: "admit_task (\<lambda>p. task_new p name entry prio now) (Some hart) s = (Ok (p, hart), s1)"
    using s0 admit_task_Ok [OF s0] by simp
  note a = admit_task_Ok [OF s1, folded t_def]
  then show h: "heap s' = heap s @ [t]" by (simp add: s')
  have "q \<in> set (queues s)" using assms(1,2) by (simp add: q_def sched_ok_def queues_ok_def)
  then have q: "rq_ordered (heap s) q" "\<And>r. r \<in> set q \<Longrightarrow> r < length (heap s)"
    using assms(1) by (auto simp: sched_ok_def queues_ok_def)
  then have "rq_ordered (heap s @ [t]) (id q)"
    using rq_ordered_cong [of q "heap s @ [t]" "heap s"] by (simp add: nth_append)
  from rq.enq_items [OF this, of "length (heap s)"]
  have "enqueue (heap s @ [t]) (length (heap s)) q =
      filter (\<lambda>r. prio \<le> t_priority (heap s ! r)) q @ length (heap s) # filter (\<lambda>r. t_priority (heap s ! r) < prio) q"
    using q(2) by (simp add: t_def task_new_def nth_append cong: filter_cong)
  with a show "queues s' ! hart = filter (\<lambda>r. prio \<le> t_priority (heap s ! r)) q @ length (heap s) # filter (\<lambda>r. t_priority (heap s ! r) < prio) q"
    by (simp add: s' q_def)
qed

text \<open>C17: A task spawned on a hart gets its turn there: the hart first picks the ready tasks of its queue whose priority is
  not lower, in their order, and with the next pick the new task, before every task of lower priority.\<close>

theorem spawned_task_gets_its_turn:
  assumes "sched_reach s held" "hart < 128" "spawn_on_hart name entry prio (Some hart) now s = (Ok p, s')"
    and "ahead = filter (\<lambda>r. t_state (heap s ! r) = Ready \<and> prio \<le> t_priority (heap s ! r)) (queues s ! hart)"
  shows "\<exists>s''. pick_many hart (Suc (length ahead)) s' = (Ok (map Some (ahead @ [length (heap s)])), s'') \<and>
    heap s'' = heap s @ [(task_new p name entry prio now)\<lparr> hart_affinity := Some hart \<rparr>]"
proof -
  note ok = sched_reach_ok [OF assms(1)]
  note s' = spawn_on_hart_queue [OF ok assms(2,3)]
  have "r < length (heap s)" if "r \<in> set (queues s ! hart)" for r
  proof -
    have "queues s ! hart \<in> set (queues s)" using ok assms(2) by (simp add: sched_ok_def queues_ok_def)
    with that ok show ?thesis by (auto simp: sched_ok_def queues_ok_def)
  qed
  then have "\<exists>rest. ready_on hart s' = (ahead @ [length (heap s)]) @ rest"
    by (simp add: s' assms(4) nth_append task_new_def conj_commute cong: filter_cong)
  then obtain rest where "ready_on hart s' = (ahead @ [length (heap s)]) @ rest" ..
  from pick_many_own [OF spawn_on_hart_ok [OF ok assms(3)] assms(2) this] s'(1) show ?thesis by auto
qed

theorem spawned_task_gets_its_turn_witness:
  "\<exists>s''. pick_many 0 2 (snd (spawn_on_hart (lit ''mid'') 24 Normal (Some 0) 9 two_tasks)) = (Ok [Some 1, Some 2], s'')"
proof -
  have "fst (spawn_on_hart (lit ''mid'') 24 Normal (Some 0) 9 two_tasks) = Ok 3" by (simp add: two_tasks_eq) code_simp
  then have s: "spawn_on_hart (lit ''mid'') 24 Normal (Some 0) 9 two_tasks =
    (Ok 3, snd (spawn_on_hart (lit ''mid'') 24 Normal (Some 0) 9 two_tasks))" by (simp add: prod_eq_iff)
  have a: "[1] = filter (\<lambda>r. t_state (heap two_tasks ! r) = Ready \<and> Normal \<le> t_priority (heap two_tasks ! r)) (queues two_tasks ! 0)"
    "length (heap two_tasks) = 2"
    by (simp_all add: two_tasks_eq task_new_def less_eq_priority_def)
  from spawned_task_gets_its_turn [OF two_tasks_reach _ s a(1)] show ?thesis by (auto simp: a(2) numeral_2_eq_2)
qed

subsection \<open>Waking\<close>

text \<open>The registered tasks of the processes \<open>ps\<close> are made ready, and nothing else changes.\<close>

definition readied :: "pid set \<Rightarrow> scheduler \<Rightarrow> scheduler" where
  "readied ps s = s\<lparr> heap := map (\<lambda>r. if \<exists>p\<in>ps. map_of (registry s) p = Some r then (heap s ! r)\<lparr> t_state := Ready \<rparr> else heap s ! r)
     [0..<length (heap s)] \<rparr>"

lemma readied_frame [simp]: "registry (readied ps s) = registry s" "tasks_locked (readied ps s) = tasks_locked s"
  "length (heap (readied ps s)) = length (heap s)"
  by (simp_all add: readied_def)

lemma readied_empty [simp]: "readied {} s = s"
  by (simp add: readied_def map_nth)

lemma readied_readied [simp]: "readied ps (readied qs s) = readied (ps \<union> qs) s"
  by (auto simp: readied_def intro!: scheduler.equality)

lemma wake_task_readied: "\<not> tasks_locked s \<Longrightarrow> wake_task p s = (Ok (), readied {p} s)"
  by (auto simp: wake_task_eq readied_def set_task_def map_nth nth_list_update split: option.split intro!: scheduler.equality nth_equalityI)

lemma wake_loop_readied:
  "\<not> tasks_locked s \<Longrightarrow> wake_loop P ws s =
    (Ok (filter P ws, filter (\<lambda>w. \<not> P w) ws), readied (w_pid ` set (filter P ws)) s)"
  by (induction ws arbitrary: s) (simp_all add: wake_task_readied)

lemma wake_where_readied:
  "\<not> tasks_locked s \<Longrightarrow> wake_where P q s = (Ok (map w_pid (filter P (waiters q))),
    q\<lparr> waiters := filter (\<lambda>w. \<not> P w) (waiters q) \<rparr>, readied (w_pid ` set (filter P (waiters q))) s)"
  by (simp add: wake_where_def wake_loop_readied)

abbreviation expired :: "u64 \<Rightarrow> waiter \<Rightarrow> bool" where
  "expired now w \<equiv> (case w_timeout w of Some timeout \<Rightarrow> now \<ge> timeout | None \<Rightarrow> False)"

abbreviation expired_in :: "u64 \<Rightarrow> wait_queue option \<Rightarrow> pid set" where
  "expired_in now q \<equiv> (case q of Some q \<Rightarrow> w_pid ` set (filter (expired now) (waiters q)) | None \<Rightarrow> {})"

abbreviation still_waiting :: "u64 \<Rightarrow> wait_queue option \<Rightarrow> wait_queue option" where
  "still_waiting now \<equiv> map_option (\<lambda>q. q\<lparr> waiters := filter (\<lambda>w. \<not> expired now w) (waiters q) \<rparr>)"

lemma on_waitq_timeouts:
  "\<not> tasks_locked s \<Longrightarrow> \<exists>ps. on_waitq [] (check_timeouts now) (q, s) = (Ok ps, still_waiting now q, readied (expired_in now q) s)"
  by (cases q) (simp_all add: on_waitq_def check_timeouts_def wake_where_readied)

text \<open>C34: One tick of the timeouts: in each of the three wait queues exactly the waiters whose time has come leave, the
  others keep their place, and exactly the tasks of the former that are still registered become ready.\<close>

theorem timeouts_wake_the_expired:
  assumes "\<not> tasks_locked (k_sched k)"
  shows "check_all_timeouts now k =
    (Ok (), k\<lparr> timer_waitq := still_waiting now (timer_waitq k), io_waitq := still_waiting now (io_waitq k),
       ipc_waitq := still_waiting now (ipc_waitq k),
       k_sched := readied (expired_in now (ipc_waitq k) \<union> expired_in now (io_waitq k) \<union> expired_in now (timer_waitq k)) (k_sched k) \<rparr>)"
proof -
  from on_waitq_timeouts [OF assms, of now "timer_waitq k"] obtain ps1 where
    1: "on_waitq [] (check_timeouts now) (timer_waitq k, k_sched k) =
      (Ok ps1, still_waiting now (timer_waitq k), readied (expired_in now (timer_waitq k)) (k_sched k))" ..
  let ?s1 = "readied (expired_in now (timer_waitq k)) (k_sched k)"
  from on_waitq_timeouts [of ?s1 now "io_waitq k"] assms obtain ps2 where
    2: "on_waitq [] (check_timeouts now) (io_waitq k, ?s1) = (Ok ps2, still_waiting now (io_waitq k), readied (expired_in now (io_waitq k)) ?s1)"
    by auto
  let ?s2 = "readied (expired_in now (io_waitq k)) ?s1"
  from on_waitq_timeouts [of ?s2 now "ipc_waitq k"] assms obtain ps3 where
    3: "on_waitq [] (check_timeouts now) (ipc_waitq k, ?s2) = (Ok ps3, still_waiting now (ipc_waitq k), readied (expired_in now (ipc_waitq k)) ?s2)"
    by auto
  show ?thesis unfolding check_all_timeouts_def 1 by (simp add: 2 3 del: readied_readied) (simp add: Un_assoc)
qed

theorem timeouts_wake_the_expired_witness:
  "check_all_timeouts 50 \<lparr> k_sched = snd (kill 2 two_tasks), timer_waitq = Some (wq_wait 1 Timer (Some 40) 0 (wait_queue_new [])),
      io_waitq = None, ipc_waitq = Some (wq_wait 2 IpcMessage None 7 (wait_queue_new [])) \<rparr> =
   (Ok (), \<lparr> k_sched = readied {1} (snd (kill 2 two_tasks)), timer_waitq = Some (wait_queue_new []),
      io_waitq = None, ipc_waitq = Some (wq_wait 2 IpcMessage None 7 (wait_queue_new [])) \<rparr>)"
proof -
  have "\<not> tasks_locked (snd (kill 2 two_tasks))" by (simp add: two_tasks_eq) code_simp
  then show ?thesis
    using timeouts_wake_the_expired [of "\<lparr> k_sched = snd (kill 2 two_tasks), timer_waitq = Some (wq_wait 1 Timer (Some 40) 0 (wait_queue_new [])),
      io_waitq = None, ipc_waitq = Some (wq_wait 2 IpcMessage None 7 (wait_queue_new [])) \<rparr>" 50]
    by (simp add: wq_wait_def wait_queue_new_def)
qed

text \<open>A service that returns is never restarted: \<open>finish_task\<close> of a daemon marked for restart calls
  \<open>spawn_on_hart\<close> while it holds the lock of the registry, which the call waits for; the operation never returns.\<close>

theorem restarting_daemon_hangs:
  assumes "map_of (registry s) p = Some r" "r < length (heap s)" "is_daemon (heap s ! r)" "restart_on_exit (heap s ! r)"
  shows "fst (finish_task p code now s) = Panic"
proof -
  let ?s = "set_task r (mark_finished code) (s\<lparr> tasks_locked := True \<rparr>)"
  have d: "is_daemon (heap ?s ! r)" "restart_on_exit (heap ?s ! r)"
    using assms(2-4) by (simp_all add: set_task_def mark_finished_def)
  have "fst (spawn_on_hart (t_name (heap ?s ! r)) (t_entry (heap ?s ! r)) (t_priority (heap ?s ! r)) (hart_affinity (heap ?s ! r)) now ?s) = Panic"
    by (rule spawn_locked) simp
  with d assms(1) show ?thesis
    by (auto simp: finish_task_def with_tasks_def Let_def bindS_def split: prod.splits)
qed

theorem restarting_daemon_hangs_witness:
  "fst (finish_task 1 0 9 (snd (spawn_daemon_on_hart (lit ''klogd'') 8 Low (Some 0) 5 (scheduler_init 1)))) = Panic"
  by (rule restarting_daemon_hangs [where r = 0]) code_simp+

end
