(* ===== verification/Kn_Ipc.thy ===== *)
theory Kn_Ipc
  imports Kn_Bytes "HOL-Library.List_Lexorder"
begin

text \<open>
  Channels, pipes and their registry (\<^verbatim>\<open>kernel/src/ipc.rs\<close>).  Handles are shared references (\<open>Arc\<close>): the objects are in
  lists, in the order of their creation, and a handle is an index.  A handle stays usable after the object is removed
  from the registry.  Each method takes the lock of what it changes for its duration, so a method is one step; waking a
  waiter only removes it from the list of waiters (the source logs it).
\<close>

subsection \<open>Channels\<close>

record message =
  m_sender :: u32
  m_data :: "u8 list"
  msg_type :: u32

record channel =
  ch_id :: u32
  ch_name :: str
  ch_buffer :: "message list"
  ch_capacity :: nat
  sender_count :: u64
  receiver_active :: bool
  ch_waiters :: "u32 list"
  ch_closed :: bool

definition with_capacity :: "u32 \<Rightarrow> str \<Rightarrow> nat \<Rightarrow> channel" where
  "with_capacity i name capacity = \<lparr> ch_id = i, ch_name = name, ch_buffer = [], ch_capacity = capacity, sender_count = 1,
     receiver_active = True, ch_waiters = [], ch_closed = False \<rparr>"

definition send :: "message \<Rightarrow> channel \<Rightarrow> (unit, str) result \<times> channel" where
  "send msg c =
     (if ch_closed c then (Err (lit ''Channel closed''), c)
      else if \<not> receiver_active c then (Err (lit ''No receiver''), c)
      else if length (ch_buffer c) \<ge> ch_capacity c then (Err (lit ''Channel full''), c)
      else (Ok (), c\<lparr> ch_buffer := ch_buffer c @ [msg], ch_waiters := tl (ch_waiters c) \<rparr>))"

definition try_recv :: "channel \<Rightarrow> message option \<times> channel" where
  "try_recv c =
     (if ch_closed c then (None, c)
      else case ch_buffer c of [] \<Rightarrow> (None, c) | m # ms \<Rightarrow> (Some m, c\<lparr> ch_buffer := ms \<rparr>))"

definition register_waiter :: "u32 \<Rightarrow> channel \<Rightarrow> channel" where
  "register_waiter pid c = c\<lparr> ch_waiters := ch_waiters c @ [pid] \<rparr>"

definition close :: "channel \<Rightarrow> channel" where
  "close c = c\<lparr> ch_closed := True, ch_waiters := [] \<rparr>"

definition add_sender :: "channel \<Rightarrow> channel" where
  "add_sender c = c\<lparr> sender_count := sender_count c + 1 \<rparr>"

definition remove_sender :: "channel \<Rightarrow> channel" where
  "remove_sender c =
     (let prev = sender_count c; c = c\<lparr> sender_count := prev - 1 \<rparr> in if prev = 1 then close c else c)"

definition drop_receiver :: "channel \<Rightarrow> channel" where
  "drop_receiver c = c\<lparr> receiver_active := False \<rparr>"

subsection \<open>Pipes\<close>

abbreviation (input) PIPE_BUFFER_SIZE :: nat where "PIPE_BUFFER_SIZE \<equiv> 8192"

record pipe_buffer =
  pb_data :: "u8 list"
  read_pos :: nat
  write_pos :: nat
  pb_count :: nat

definition pipe_buffer_new :: pipe_buffer where
  "pipe_buffer_new = \<lparr> pb_data = replicate PIPE_BUFFER_SIZE 0, read_pos = 0, write_pos = 0, pb_count = 0 \<rparr>"

primrec put_bytes :: "u8 list \<Rightarrow> pipe_buffer \<Rightarrow> pipe_buffer" where
  "put_bytes [] b = b"
| "put_bytes (byte # bytes) b =
     put_bytes bytes (b\<lparr> pb_data := (pb_data b)[write_pos b := byte], write_pos := (write_pos b + 1) mod PIPE_BUFFER_SIZE,
       pb_count := pb_count b + 1 \<rparr>)"

definition pb_write :: "u8 list \<Rightarrow> pipe_buffer \<Rightarrow> nat \<times> pipe_buffer" where
  "pb_write data b =
     (let to_write = min (length data) (PIPE_BUFFER_SIZE - pb_count b) in (to_write, put_bytes (take to_write data) b))"

primrec get_bytes :: "nat \<Rightarrow> pipe_buffer \<Rightarrow> u8 list \<times> pipe_buffer" where
  "get_bytes 0 b = ([], b)"
| "get_bytes (Suc n) b =
     apfst (Cons (pb_data b ! read_pos b))
       (get_bytes n (b\<lparr> read_pos := (read_pos b + 1) mod PIPE_BUFFER_SIZE, pb_count := pb_count b - 1 \<rparr>))"

text \<open>\<open>buf_len\<close> is the length of the caller's buffer; the bytes are what the method stores at its front.\<close>

definition pb_read :: "nat \<Rightarrow> pipe_buffer \<Rightarrow> u8 list \<times> pipe_buffer" where
  "pb_read buf_len b = get_bytes (min buf_len (pb_count b)) b"

record pipe =
  p_id :: u32
  p_buffer :: pipe_buffer
  reader_active :: bool
  writer_active :: bool
  read_waiters :: "u32 list"
  write_waiters :: "u32 list"

definition pipe_new :: "u32 \<Rightarrow> pipe" where
  "pipe_new i = \<lparr> p_id = i, p_buffer = pipe_buffer_new, reader_active = True, writer_active = True, read_waiters = [],
     write_waiters = [] \<rparr>"

definition pipe_write :: "u8 list \<Rightarrow> pipe \<Rightarrow> (nat, str) result \<times> pipe" where
  "pipe_write data p =
     (if \<not> reader_active p then (Err (lit ''Broken pipe (no reader)''), p)
      else case pb_write data (p_buffer p) of (written, b) \<Rightarrow>
        (Ok written, p\<lparr> p_buffer := b, read_waiters := (if written > 0 then tl (read_waiters p) else read_waiters p) \<rparr>))"

definition pipe_read :: "nat \<Rightarrow> pipe \<Rightarrow> (u8 list, str) result \<times> pipe" where
  "pipe_read buf_len p =
     (case pb_read buf_len (p_buffer p) of (bytes, b) \<Rightarrow>
      let p = p\<lparr> p_buffer := b, write_waiters := (if bytes \<noteq> [] then tl (write_waiters p) else write_waiters p) \<rparr> in
      if bytes = [] \<and> \<not> writer_active p then (Err (lit ''EOF''), p) else (Ok bytes, p))"

definition register_read_waiter :: "u32 \<Rightarrow> pipe \<Rightarrow> pipe" where
  "register_read_waiter pid p = p\<lparr> read_waiters := read_waiters p @ [pid] \<rparr>"

definition register_write_waiter :: "u32 \<Rightarrow> pipe \<Rightarrow> pipe" where
  "register_write_waiter pid p = p\<lparr> write_waiters := write_waiters p @ [pid] \<rparr>"

definition close_write :: "pipe \<Rightarrow> pipe" where
  "close_write p = p\<lparr> writer_active := False, read_waiters := [] \<rparr>"

definition close_read :: "pipe \<Rightarrow> pipe" where
  "close_read p = p\<lparr> reader_active := False, write_waiters := [] \<rparr>"

definition pipe_is_closed :: "pipe \<Rightarrow> bool" where
  "pipe_is_closed p \<longleftrightarrow> \<not> reader_active p \<or> \<not> writer_active p"

subsection \<open>The registry\<close>

record ipc =
  all_channels :: "channel list"
  all_pipes :: "pipe list"
  channels :: "(u32, nat) btree"
  channel_names :: "(str, u32) btree"
  pipes :: "(u32, nat) btree"
  next_channel_id :: u64
  next_pipe_id :: u64

definition ipc_new :: ipc where
  "ipc_new = \<lparr> all_channels = [], all_pipes = [], channels = [], channel_names = [], pipes = [], next_channel_id = 1,
     next_pipe_id = 1 \<rparr>"

definition create_channel_with_capacity :: "str \<Rightarrow> nat \<Rightarrow> ipc \<Rightarrow> nat \<times> ipc" where
  "create_channel_with_capacity name capacity s =
     (let i = ucast (next_channel_id s); r = length (all_channels s) in
      (r, s\<lparr> next_channel_id := next_channel_id s + 1, all_channels := all_channels s @ [with_capacity i name capacity],
             channels := bt_insert i r (channels s), channel_names := bt_insert name i (channel_names s) \<rparr>))"

definition get_channel_by_name :: "str \<Rightarrow> ipc \<Rightarrow> nat option" where
  "get_channel_by_name name s = Option.bind (map_of (channel_names s) name) (map_of (channels s))"

definition on_channel :: "nat \<Rightarrow> (channel \<Rightarrow> channel) \<Rightarrow> ipc \<Rightarrow> ipc" where
  "on_channel r f s = s\<lparr> all_channels := (all_channels s)[r := f (all_channels s ! r)] \<rparr>"

definition on_pipe :: "nat \<Rightarrow> (pipe \<Rightarrow> pipe) \<Rightarrow> ipc \<Rightarrow> ipc" where
  "on_pipe r f s = s\<lparr> all_pipes := (all_pipes s)[r := f (all_pipes s ! r)] \<rparr>"

definition remove_channel :: "u32 \<Rightarrow> ipc \<Rightarrow> ipc" where
  "remove_channel i s =
     (case map_of (channels s) i of
        None \<Rightarrow> s
      | Some r \<Rightarrow> on_channel r close (s\<lparr> channels := bt_remove i (channels s),
          channel_names := bt_remove (ch_name (all_channels s ! r)) (channel_names s) \<rparr>))"

definition create_pipe :: "ipc \<Rightarrow> nat \<times> ipc" where
  "create_pipe s =
     (let i = ucast (next_pipe_id s); r = length (all_pipes s) in
      (r, s\<lparr> next_pipe_id := next_pipe_id s + 1, all_pipes := all_pipes s @ [pipe_new i], pipes := bt_insert i r (pipes s) \<rparr>))"

definition remove_pipe :: "u32 \<Rightarrow> ipc \<Rightarrow> ipc" where
  "remove_pipe i s =
     (case map_of (pipes s) i of
        None \<Rightarrow> s
      | Some r \<Rightarrow> on_pipe r (close_write \<circ> close_read) (s\<lparr> pipes := bt_remove i (pipes s) \<rparr>))"

definition list_channels :: "ipc \<Rightarrow> (u32 \<times> str \<times> nat) list" where
  "list_channels s =
     map (\<lambda>(_, r). let c = all_channels s ! r in (ch_id c, ch_name c, length (ch_buffer c))) (channels s)"

definition list_pipes :: "ipc \<Rightarrow> (u32 \<times> nat \<times> bool) list" where
  "list_pipes s = map (\<lambda>(_, r). let p = all_pipes s ! r in (p_id p, pb_count (p_buffer p), pipe_is_closed p)) (pipes s)"

definition cleanup :: "ipc \<Rightarrow> (nat \<times> nat) \<times> ipc" where
  "cleanup s =
     (let closed_channels = map fst (filter (\<lambda>(_, r). ch_closed (all_channels s ! r)) (channels s));
          s = fold remove_channel closed_channels s;
          closed_pipes = map fst (filter (\<lambda>(_, r). pipe_is_closed (all_pipes s ! r)) (pipes s));
          s = fold remove_pipe closed_pipes s
      in ((length closed_channels, length closed_pipes), s))"

subsection \<open>First in, first out\<close>

text \<open>A sequence of operations on a queue: \<open>Put xs\<close>, \<open>Get k\<close>, and others that do not touch the elements.  \<open>run_acts\<close> collects
  the elements that were accepted and those that were delivered.\<close>

datatype ('a, 'o) act = Put "'a list" | Get nat | Other 'o

primrec run_acts ::
  "('a list \<Rightarrow> 's \<Rightarrow> nat \<times> 's) \<Rightarrow> (nat \<Rightarrow> 's \<Rightarrow> 'a list \<times> 's) \<Rightarrow> ('o \<Rightarrow> 's \<Rightarrow> 's) \<Rightarrow> ('a, 'o) act list \<Rightarrow> 's \<Rightarrow> 'a list \<times> 'a list \<times> 's" where
  "run_acts put get oth [] s = ([], [], s)"
| "run_acts put get oth (a # as) s =
     (case a of
        Put xs \<Rightarrow> (case put xs s of (n, s) \<Rightarrow> apfst (append (take n xs)) (run_acts put get oth as s))
      | Get k \<Rightarrow> (case get k s of (ys, s) \<Rightarrow> apsnd (apfst (append ys)) (run_acts put get oth as s))
      | Other z \<Rightarrow> run_acts put get oth as (oth z s))"

text \<open>What the users of a queue rely on: what is put in is appended as far as it is accepted, and what is taken out are
  the oldest elements.\<close>

locale fifo =
  fixes put :: "'a list \<Rightarrow> 's \<Rightarrow> nat \<times> 's" and get :: "nat \<Rightarrow> 's \<Rightarrow> 'a list \<times> 's" and oth :: "'o \<Rightarrow> 's \<Rightarrow> 's"
    and items :: "'s \<Rightarrow> 'a list" and ok :: "'s \<Rightarrow> bool"
  assumes put_items: "ok s \<Longrightarrow> put xs s = (n, s') \<Longrightarrow> ok s' \<and> n \<le> length xs \<and> items s' = items s @ take n xs"
    and get_items: "ok s \<Longrightarrow> get k s = (ys, s') \<Longrightarrow> ok s' \<and> length ys \<le> k \<and> items s = ys @ items s'"
    and oth_items: "ok s \<Longrightarrow> ok (oth z s) \<and> items (oth z s) = items s"
begin

lemma run_stream:
  "ok s \<Longrightarrow> run_acts put get oth as s = (accepted, delivered, s') \<Longrightarrow> ok s' \<and> items s @ accepted = delivered @ items s'"
proof (induction as arbitrary: s accepted delivered)
  case (Cons a as)
  show ?case
  proof (cases a)
    case (Put xs)
    obtain n s1 where p: "put xs s = (n, s1)" by (cases "put xs s")
    obtain acc where "run_acts put get oth as s1 = (acc, delivered, s')" "accepted = take n xs @ acc"
      using Cons.prems(2) Put p by (cases "run_acts put get oth as s1") auto
    with Cons.IH [of s1 acc delivered] put_items [OF Cons.prems(1) p] show ?thesis by simp
  next
    case (Get k)
    obtain ys s1 where p: "get k s = (ys, s1)" by (cases "get k s")
    obtain d where "run_acts put get oth as s1 = (accepted, d, s')" "delivered = ys @ d"
      using Cons.prems(2) Get p by (cases "run_acts put get oth as s1") auto
    with Cons.IH [of s1 accepted d] get_items [OF Cons.prems(1) p] show ?thesis by simp
  next
    case (Other z)
    with Cons.IH [of "oth z s"] Cons.prems oth_items [OF Cons.prems(1), of z] show ?thesis by simp
  qed
qed simp

end

subsection \<open>The ring buffer of a pipe\<close>

definition pb_ok :: "pipe_buffer \<Rightarrow> bool" where
  "pb_ok b \<longleftrightarrow> length (pb_data b) = PIPE_BUFFER_SIZE \<and> read_pos b < PIPE_BUFFER_SIZE \<and> pb_count b \<le> PIPE_BUFFER_SIZE \<and>
     write_pos b = (read_pos b + pb_count b) mod PIPE_BUFFER_SIZE"

definition pb_items :: "pipe_buffer \<Rightarrow> u8 list" where
  "pb_items b = map (\<lambda>k. pb_data b ! ((read_pos b + k) mod PIPE_BUFFER_SIZE)) [0..<pb_count b]"

lemma mod_ring_inj:
  fixes a k c N :: nat
  assumes "k < c" "c < N"
  shows "(a + k) mod N \<noteq> (a + c) mod N"
proof
  assume "(a + k) mod N = (a + c) mod N"
  then have "N dvd c - k" using assms mod_eq_dvd_iff_nat [of "a + k" "a + c" N] by simp
  with assms show False using nat_dvd_not_less [of "c - k" N] by simp
qed

lemma put_bytes_items:
  "pb_ok b \<Longrightarrow> length bytes \<le> PIPE_BUFFER_SIZE - pb_count b \<Longrightarrow> pb_ok (put_bytes bytes b) \<and> pb_items (put_bytes bytes b) = pb_items b @ bytes"
proof (induction bytes arbitrary: b)
  case (Cons x xs)
  let ?b = "b\<lparr> pb_data := (pb_data b)[write_pos b := x], write_pos := (write_pos b + 1) mod PIPE_BUFFER_SIZE, pb_count := pb_count b + 1 \<rparr>"
  have ok: "pb_ok ?b" using Cons.prems by (simp add: pb_ok_def mod_simps)
  have "write_pos b \<noteq> (read_pos b + k) mod PIPE_BUFFER_SIZE" if "k < pb_count b" for k
    using mod_ring_inj [OF that, of PIPE_BUFFER_SIZE "read_pos b", symmetric] Cons.prems by (simp add: pb_ok_def)
  then have "pb_items ?b = pb_items b @ [x]"
    using Cons.prems(1) by (auto simp: pb_items_def pb_ok_def)
  with Cons.IH [OF ok] Cons.prems(2) show ?case by simp
qed simp

lemma get_bytes_items:
  "pb_ok b \<Longrightarrow> n \<le> pb_count b \<Longrightarrow> get_bytes n b = (ys, b') \<Longrightarrow> pb_ok b' \<and> length ys = n \<and> pb_items b = ys @ pb_items b'"
proof (induction n arbitrary: b ys)
  case (Suc n)
  let ?b = "b\<lparr> read_pos := (read_pos b + 1) mod PIPE_BUFFER_SIZE, pb_count := pb_count b - 1 \<rparr>"
  obtain zs where zs: "get_bytes n ?b = (zs, b')" "ys = pb_data b ! read_pos b # zs"
    using Suc.prems(3) by (cases "get_bytes n ?b") auto
  obtain c where c: "pb_count b = Suc c" using Suc.prems(2) by (cases "pb_count b") auto
  have ok: "pb_ok ?b" using Suc.prems(1) c by (simp add: pb_ok_def mod_simps)
  have "pb_items b = pb_data b ! read_pos b # pb_items ?b"
    using Suc.prems(1) unfolding pb_items_def c
    by (simp only: upt_conv_Cons [OF zero_less_Suc] map_Suc_upt [symmetric] list.map map_map)
      (simp add: c comp_def pb_ok_def mod_simps)
  with Suc.IH [OF ok _ zs(1)] Suc.prems(2) zs(2) show ?case by simp
qed simp

lemma length_pb_items [simp]: "length (pb_items b) = pb_count b"
  by (simp add: pb_items_def)

lemma pb_write_items:
  assumes "pb_ok b" "pb_write data b = (n, b')"
  shows "pb_ok b' \<and> n = min (length data) (PIPE_BUFFER_SIZE - pb_count b) \<and> pb_items b' = pb_items b @ take n data"
  using assms put_bytes_items [of b "take n data"] by (auto simp: pb_write_def Let_def)

lemma pb_read_items:
  assumes "pb_ok b" "pb_read k b = (ys, b')"
  shows "pb_ok b' \<and> length ys = min k (pb_count b) \<and> pb_items b = ys @ pb_items b'"
  using assms get_bytes_items [of b "min k (pb_count b)" ys b'] by (simp add: pb_read_def)

datatype pipe_other = CloseRead | CloseWrite | WaitRead u32 | WaitWrite u32

primrec pipe_oth :: "pipe_other \<Rightarrow> pipe \<Rightarrow> pipe" where
  "pipe_oth CloseRead p = close_read p"
| "pipe_oth CloseWrite p = close_write p"
| "pipe_oth (WaitRead pid) p = register_read_waiter pid p"
| "pipe_oth (WaitWrite pid) p = register_write_waiter pid p"

definition pipe_put :: "u8 list \<Rightarrow> pipe \<Rightarrow> nat \<times> pipe" where
  "pipe_put xs p = (case pipe_write xs p of (Ok n, p) \<Rightarrow> (n, p) | (_, p) \<Rightarrow> (0, p))"

definition pipe_get :: "nat \<Rightarrow> pipe \<Rightarrow> u8 list \<times> pipe" where
  "pipe_get k p = (case pipe_read k p of (Ok bytes, p) \<Rightarrow> (bytes, p) | (_, p) \<Rightarrow> ([], p))"

interpretation pipe: fifo pipe_put pipe_get pipe_oth "\<lambda>p. pb_items (p_buffer p)" "\<lambda>p. pb_ok (p_buffer p)"
proof
  fix p p' :: pipe and xs :: "u8 list" and n :: nat
  assume "pb_ok (p_buffer p)" "pipe_put xs p = (n, p')"
  then show "pb_ok (p_buffer p') \<and> n \<le> length xs \<and> pb_items (p_buffer p') = pb_items (p_buffer p) @ take n xs"
    using pb_write_items [of "p_buffer p" xs] by (auto simp: pipe_put_def pipe_write_def split: if_splits prod.splits)
next
  fix p p' :: pipe and ys :: "u8 list" and k :: nat
  assume "pb_ok (p_buffer p)" "pipe_get k p = (ys, p')"
  then show "pb_ok (p_buffer p') \<and> length ys \<le> k \<and> pb_items (p_buffer p) = ys @ pb_items (p_buffer p')"
    using pb_read_items [of "p_buffer p" k] by (auto simp: pipe_get_def pipe_read_def Let_def split: if_splits prod.splits)
next
  show "pb_ok (p_buffer (pipe_oth z p)) \<and> pb_items (p_buffer (pipe_oth z p)) = pb_items (p_buffer p)" if "pb_ok (p_buffer p)" for z p
    using that by (cases z) (simp_all add: close_read_def close_write_def register_read_waiter_def register_write_waiter_def)
qed

lemma pipe_new_ok: "pb_ok (p_buffer (pipe_new i))" "pb_items (p_buffer (pipe_new i)) = []"
  by (simp_all add: pipe_new_def pipe_buffer_new_def pb_ok_def pb_items_def)

text \<open>C35: A pipe is a stream of bytes: after any sequence of reads, writes, closings and registrations of waiters, the bytes
  that were accepted are the bytes that were read followed by those still in the ring buffer, at most 8192; the next read
  returns these, or the end of the stream when there are none and the writer is gone, and the next write with a reader
  takes exactly as much as there is room for.\<close>

theorem pipe_is_a_stream:
  assumes "run_acts pipe_put pipe_get pipe_oth acts (pipe_new i) = (accepted, delivered, p)"
  shows "\<exists>buffered. accepted = delivered @ buffered \<and> length buffered \<le> 8192 \<and> 
    fst (pipe_read 8192 p) = (if buffered = [] \<and> \<not> writer_active p then Err (lit ''EOF'') else Ok buffered) \<and>
    (reader_active p \<longrightarrow> fst (pipe_write data p) = Ok (min (length data) (8192 - length buffered)))"
proof -
  from pipe.run_stream [OF pipe_new_ok(1) assms] have s: "pb_ok (p_buffer p)" "accepted = delivered @ pb_items (p_buffer p)"
    by (simp_all add: pipe_new_ok)
  have n: "pb_count (p_buffer p) \<le> 8192" using s(1) by (simp add: pb_ok_def)
  obtain ys b where r: "pb_read 8192 (p_buffer p) = (ys, b)" by (cases "pb_read 8192 (p_buffer p)")
  have e: "pb_items (p_buffer p) = ys @ pb_items b" "length ys = pb_count (p_buffer p)" using pb_read_items [OF s(1) r] n by simp_all
  have "pb_count (p_buffer p) = pb_count (p_buffer p) + pb_count b" using arg_cong [OF e(1), of length, unfolded length_append length_pb_items e(2)] .
  then have "length (pb_items b) = 0" by simp
  then have ys: "ys = pb_items (p_buffer p)" using e(1) by (simp only: length_0_conv append_Nil2)
  obtain k b' where w: "pb_write data (p_buffer p) = (k, b')" by (cases "pb_write data (p_buffer p)")
  from pb_write_items [OF s(1) w] n s(2) r ys w show ?thesis
    by (intro exI [of _ "pb_items (p_buffer p)"]) (simp add: pipe_read_def pipe_write_def Let_def)
qed

theorem pipe_is_a_stream_witness:
  "fst (pipe_read 8192 (snd (snd (run_acts pipe_put pipe_get pipe_oth [Put [1, 2, 3], Get 2, Put [4, 5]] (pipe_new 1))))) = Ok [3, 4, 5]"
proof -
  let ?run = "run_acts pipe_put pipe_get pipe_oth [Put [1, 2, 3], Get 2, Put [4, 5]] (pipe_new 1)"
  have "?run = ([1, 2, 3, 4, 5], [1, 2], snd (snd ?run))"
    by (simp add: pipe_put_def pipe_get_def pipe_write_def pipe_read_def pb_write_def pb_read_def pipe_new_def pipe_buffer_new_def Let_def
        numeral_2_eq_2)
  from pipe_is_a_stream [OF this, of "[]"] show ?thesis by auto
qed

subsection \<open>Channels deliver in order\<close>

datatype channel_other = Close | AddSender | RemoveSender | DropReceiver | WaitMessage u32

primrec channel_oth :: "channel_other \<Rightarrow> channel \<Rightarrow> channel" where
  "channel_oth Close c = close c"
| "channel_oth AddSender c = add_sender c"
| "channel_oth RemoveSender c = remove_sender c"
| "channel_oth DropReceiver c = drop_receiver c"
| "channel_oth (WaitMessage pid) c = register_waiter pid c"

text \<open>A channel takes and gives one message at a time.\<close>

definition channel_put :: "message list \<Rightarrow> channel \<Rightarrow> nat \<times> channel" where
  "channel_put ms c = (case ms of [] \<Rightarrow> (0, c) | m # _ \<Rightarrow> (case send m c of (Ok _, c) \<Rightarrow> (1, c) | (_, c) \<Rightarrow> (0, c)))"

definition channel_get :: "nat \<Rightarrow> channel \<Rightarrow> message list \<times> channel" where
  "channel_get k c = (if k = 0 then ([], c) else case try_recv c of (Some m, c) \<Rightarrow> ([m], c) | (None, c) \<Rightarrow> ([], c))"

interpretation channel: fifo channel_put channel_get channel_oth ch_buffer "\<lambda>c. length (ch_buffer c) \<le> ch_capacity c"
proof
  show "length (ch_buffer c') \<le> ch_capacity c' \<and> n \<le> length ms \<and> ch_buffer c' = ch_buffer c @ take n ms"
    if "length (ch_buffer c) \<le> ch_capacity c" "channel_put ms c = (n, c')" for c c' ms n
    using that by (auto simp: channel_put_def send_def split: list.splits if_splits)
  show "length (ch_buffer c') \<le> ch_capacity c' \<and> length ys \<le> k \<and> ch_buffer c = ys @ ch_buffer c'"
    if "length (ch_buffer c) \<le> ch_capacity c" "channel_get k c = (ys, c')" for c c' ys k
    using that by (auto simp: channel_get_def try_recv_def split: list.splits if_splits)
  show "length (ch_buffer (channel_oth z c)) \<le> ch_capacity (channel_oth z c) \<and> ch_buffer (channel_oth z c) = ch_buffer c"
    if "length (ch_buffer c) \<le> ch_capacity c" for z c
    using that by (cases z) (simp_all add: close_def add_sender_def remove_sender_def drop_receiver_def register_waiter_def Let_def)
qed

lemma channel_delivers_in_order:
  assumes "run_acts channel_put channel_get channel_oth acts (with_capacity i name cap) = (sent, received, c)"
  shows "sent = received @ ch_buffer c \<and> length (ch_buffer c) \<le> ch_capacity c"
  using channel.run_stream [OF _ assms] by (simp add: with_capacity_def)

text \<open>When the last sender goes, the messages that were accepted and not yet received are lost: nothing is received from a
  closed channel.\<close>

lemma last_sender_loses_messages:
  assumes "sender_count c = 1"
  shows "try_recv (remove_sender c) = (None, remove_sender c) \<and> ch_buffer (remove_sender c) = ch_buffer c"
  using assms by (simp add: remove_sender_def Let_def close_def try_recv_def)

subsection \<open>The registry\<close>

inductive ipc_reach :: "ipc \<Rightarrow> bool" where
  boot: "ipc_reach ipc_new"
| create: "ipc_reach s \<Longrightarrow> ipc_reach (snd (create_channel_with_capacity name capacity s))"
| remove: "ipc_reach s \<Longrightarrow> ipc_reach (remove_channel i s)"
| send: "ipc_reach s \<Longrightarrow> ipc_reach (on_channel r (\<lambda>c. snd (send m c)) s)"
| recv: "ipc_reach s \<Longrightarrow> ipc_reach (on_channel r (\<lambda>c. snd (try_recv c)) s)"
| other: "ipc_reach s \<Longrightarrow> ipc_reach (on_channel r (channel_oth z) s)"
| clean: "ipc_reach s \<Longrightarrow> ipc_reach (snd (cleanup s))"
| pipe_create: "ipc_reach s \<Longrightarrow> ipc_reach (snd (create_pipe s))"
| pipe_remove: "ipc_reach s \<Longrightarrow> ipc_reach (remove_pipe i s)"
| pipe_use: "ipc_reach s \<Longrightarrow> ipc_reach (on_pipe r f s)"

text \<open>The invariant of the registry: identifiers are given in order, and a name leads to a registered channel of this name.\<close>

definition names_ok :: "ipc \<Rightarrow> bool" where
  "names_ok s \<longleftrightarrow> bt_wf (channels s) \<and> bt_wf (channel_names s) \<and> next_channel_id s = word_of_nat (Suc (length (all_channels s))) \<and>
     (\<forall>r<length (all_channels s). ch_id (all_channels s ! r) = word_of_nat (Suc r)) \<and>
     (\<forall>i r. map_of (channels s) i = Some r \<longrightarrow> r < length (all_channels s) \<and> i = word_of_nat (Suc r)) \<and>
     (\<forall>name i. map_of (channel_names s) name = Some i \<longrightarrow>
        (\<exists>r. map_of (channels s) i = Some r \<and> ch_name (all_channels s ! r) = name))"

lemma on_channel_names_ok:
  assumes "names_ok s" "\<And>c. ch_id (f c) = ch_id c \<and> ch_name (f c) = ch_name c"
  shows "names_ok (on_channel r f s)"
proof -
  have "ch_id ((all_channels s)[r := f (all_channels s ! r)] ! j) = ch_id (all_channels s ! j)"
    "ch_name ((all_channels s)[r := f (all_channels s ! r)] ! j) = ch_name (all_channels s ! j)" if "j < length (all_channels s)" for j
    using assms(2) that by (cases "j = r"; simp)+
  with assms(1) show ?thesis unfolding names_ok_def on_channel_def by (simp del: of_nat_Suc) metis
qed

lemma names_okE:
  assumes "names_ok s" "map_of (channel_names s) name = Some i"
  obtains r where "map_of (channels s) i = Some r" "r < length (all_channels s)" "i = word_of_nat (Suc r)"
    "ch_name (all_channels s ! r) = name"
  using assms unfolding names_ok_def by blast

lemma remove_channel_names_ok:
  assumes "names_ok s"
  shows "names_ok (remove_channel i s)"
proof (cases "map_of (channels s) i")
  case (Some r)
  let ?s = "s\<lparr> channels := bt_remove i (channels s), channel_names := bt_remove (ch_name (all_channels s ! r)) (channel_names s) \<rparr>"
  have "\<exists>k. map_of (channels s) j = Some k \<and> j \<noteq> i \<and> ch_name (all_channels s ! k) = name"
    if "map_of (channel_names s) name = Some j" "name \<noteq> ch_name (all_channels s ! r)" for name j
    using names_okE [OF assms that(1)] that(2) Some by (metis option.inject)
  then have "names_ok ?s" using assms unfolding names_ok_def by (auto simp del: of_nat_Suc)
  from on_channel_names_ok [OF this, of close r] Some show ?thesis by (simp add: remove_channel_def close_def)
qed (simp add: remove_channel_def assms)

lemma create_channel_names_ok:
  assumes "names_ok s" "length (all_channels s) < 2 ^ 32 - 1"
  shows "names_ok (snd (create_channel_with_capacity name capacity s))"
proof -
  let ?n = "length (all_channels s)"
  define cs where "cs = all_channels s @ [with_capacity (word_of_nat (Suc ?n)) name capacity]"
  have cs: "length cs = Suc ?n" "ch_name (cs ! ?n) = name" by (simp_all add: cs_def nth_append with_capacity_def)
  have i: "(ucast (next_channel_id s) :: u32) = word_of_nat (Suc ?n)"
    using assms(1) by (simp add: names_ok_def ucast_of_nat del: of_nat_Suc)
  have "j \<noteq> word_of_nat (Suc ?n)" if "r < ?n" "j = word_of_nat (Suc r)" for j :: u32 and r
  proof
    assume "j = word_of_nat (Suc ?n)"
    with that have "(word_of_nat (Suc ?n) :: u32) = word_of_nat (Suc r)" by simp
    from arg_cong [OF this, of unat] that(1) assms(2) show False by (simp add: unat_of_nat del: of_nat_Suc)
  qed
  then have "\<exists>k. map_of (channels s) j = Some k \<and> j \<noteq> word_of_nat (Suc ?n) \<and> ch_name (cs ! k) = m"
    if "map_of (channel_names s) m = Some j" for m j
    using names_okE [OF assms(1) that] by (metis nth_append cs_def)
  moreover have "ch_id (cs ! r) = word_of_nat (Suc r)" if "r < Suc ?n" for r
    using that assms(1) by (cases "r = ?n") (simp_all add: cs_def nth_append with_capacity_def names_ok_def del: of_nat_Suc)
  moreover have "r < Suc ?n \<and> j = word_of_nat (Suc r)" if "map_of (channels s) j = Some r" for j r
    using that assms(1) less_SucI unfolding names_ok_def by blast
  ultimately show ?thesis
    using assms(1) cs unfolding create_channel_with_capacity_def Let_def i cs_def [symmetric] names_ok_def
    by (simp add: algebra_simps) blast
qed

lemma remove_pipe_names_ok [simp]: "names_ok (remove_pipe i s) = names_ok s"
  "all_channels (remove_pipe i s) = all_channels s"
  by (simp_all add: names_ok_def remove_pipe_def on_pipe_def split: option.split)

lemma fold_remove_pipe [simp]: "names_ok (fold remove_pipe is s) = names_ok s"
  "length (all_channels (fold remove_pipe is s)) = length (all_channels s)"
  by (induction "is" arbitrary: s) simp_all

lemma fold_remove_channel:
  "names_ok s \<Longrightarrow> names_ok (fold remove_channel is s)" "length (all_channels (fold remove_channel is s)) = length (all_channels s)"
  by (induction "is" arbitrary: s) (simp_all add: remove_channel_names_ok, simp add: remove_channel_def on_channel_def split: option.split)

lemma ipc_reach_names_ok: "ipc_reach s \<Longrightarrow> length (all_channels s) < 2 ^ 32 \<Longrightarrow> names_ok s"
proof (induction rule: ipc_reach.induct)
  case boot
  show ?case by (simp add: names_ok_def ipc_new_def bt_wf_def)
next
  case (create s name capacity)
  then show ?case by (intro create_channel_names_ok) (simp_all add: create_channel_with_capacity_def Let_def)
next
  case (remove s i)
  then show ?case by (intro remove_channel_names_ok) (simp_all add: remove_channel_def on_channel_def split: option.splits)
next
  case (clean s)
  then show ?case by (simp add: cleanup_def Let_def fold_remove_channel)
next
  case (send s r m)
  then show ?case by (intro on_channel_names_ok) (simp_all add: on_channel_def send_def)
next
  case (recv s r)
  then show ?case by (intro on_channel_names_ok) (simp_all add: on_channel_def try_recv_def split: list.split)
next
  case (other s r z)
  then show ?case
    by (intro on_channel_names_ok; cases z)
      (simp_all add: on_channel_def close_def add_sender_def remove_sender_def drop_receiver_def register_waiter_def Let_def)
next
  case (pipe_remove s i)
  then show ?case by simp
qed (simp_all add: names_ok_def create_pipe_def on_pipe_def Let_def)

text \<open>C36: In every state the registry of the kernel can get into (fewer than \<open>2\<^sup>3\<^sup>2\<close> channels created), looking up a
  name gives a channel that has this name and is registered under its own identifier, and a channel just created is the
  one its name gives.\<close>

theorem channel_names_resolve:
  assumes "ipc_reach s" "length (all_channels s) < 2 ^ 32 - 1"
  shows "(\<forall>name r. get_channel_by_name name s = Some r \<longrightarrow>
      ch_name (all_channels s ! r) = name \<and> map_of (channels s) (ch_id (all_channels s ! r)) = Some r) \<and>
    get_channel_by_name name (snd (create_channel_with_capacity name capacity s)) = Some (length (all_channels s))"
proof -
  have ok: "names_ok s" using assms by (intro ipc_reach_names_ok) simp_all
  have "ch_name (all_channels s ! r) = n \<and> map_of (channels s) (ch_id (all_channels s ! r)) = Some r"
    if "get_channel_by_name n s = Some r" for n r
  proof -
    from that obtain i where i: "map_of (channel_names s) n = Some i" "map_of (channels s) i = Some r"
      by (auto simp: get_channel_by_name_def bind_eq_Some_conv)
    show ?thesis using names_okE [OF ok i(1)] i(2) ok by (metis names_ok_def option.inject)
  qed
  moreover have "bt_wf (channels s)" "bt_wf (channel_names s)" using ok by (simp_all add: names_ok_def)
  ultimately show ?thesis by (simp add: get_channel_by_name_def create_channel_with_capacity_def Let_def)
qed

theorem channel_names_resolve_witness:
  "get_channel_by_name (lit ''b'') (snd (create_channel_with_capacity (lit ''b'') 4 (snd (create_channel_with_capacity (lit ''a'') 4 ipc_new)))) = Some 1"
  using channel_names_resolve [OF ipc_reach.create [OF ipc_reach.boot], of "lit ''a''" 4 "lit ''b''" 4]
  by (simp add: create_channel_with_capacity_def ipc_new_def Let_def)

text \<open>Two channels may be given the same name; removing the first then takes the name from the second, which stays
  registered and open.\<close>

definition twins :: ipc where
  "twins = remove_channel 1 (snd (create_channel_with_capacity (lit ''a'') 4 (snd (create_channel_with_capacity (lit ''a'') 4 ipc_new))))"

lemma namesake_loses_its_name:
  "get_channel_by_name (lit ''a'') twins = None \<and> map_of (channels twins) 2 = Some 1 \<and> \<not> ch_closed (all_channels twins ! 1)"
  by code_simp

end
