(* ===== verification/Kn_Lock.thy ===== *)
theory Kn_Lock
  imports Rv_Prelude
begin

text \<open>
  The kernel's spin lock (\<^verbatim>\<open>kernel/src/lock.rs\<close>) under contention.

  The lock word and the debug field \<open>holder\<close> are atomics that every hart accesses; a method of the lock is the sequence of
  its steps, each of which is an atomic access or a round of the spin loop, and \<open>stage\<close> says which step a hart is about to make.  \<open>lock_step\<close> makes it, \<open>client_call\<close> is what
  the code around the lock does: call \<open>lock\<close> or \<open>try_lock\<close>, read the data through the guard, write a value computed from
  what was read, drop the guard.  A run is a list of such moves in any order, each labelled with the hart that makes it, on a sequentially
  consistent memory.  \<open>debug\<close> is \<open>cfg(debug_assertions)\<close>: without it there is no holder and no deadlock detection.
\<close>

subsection \<open>The lock\<close>

record 'a spinlock =
  locked :: u32
  lock_data :: 'a
  holder :: u64

abbreviation (input) UNLOCKED :: u32 where "UNLOCKED \<equiv> 0"
abbreviation (input) LOCKED :: u32 where "LOCKED \<equiv> 1"
abbreviation (input) NO_HOLDER :: u64 where "NO_HOLDER \<equiv> - 1"

definition spinlock_new :: "'a \<Rightarrow> 'a spinlock" where
  "spinlock_new d = \<lparr> locked = UNLOCKED, lock_data = d, holder = NO_HOLDER \<rparr>"

text \<open>\<open>Swap\<close> is the first swap of \<open>lock\<close>, \<open>Spin n\<close> the head of its inner loop with \<open>spin_count = n\<close> and \<open>SwapAgain n\<close> the swap
  there; \<open>Acquired\<close> is the store of the holder after a successful swap, \<open>Loaded v\<close> the point between a read and the write
  through the guard, and \<open>Release\<close> the swap in \<open>drop\<close>.\<close>

datatype 'a stage =
    Running | Swap | Spin u32 | SwapAgain u32 | TrySwap | Acquired | Loaded 'a | Release | Panicked

record 'a hart =
  guard :: bool
  stage :: "'a stage"

definition acquire :: "'a stage \<Rightarrow> 'a hart \<Rightarrow> 'a spinlock \<Rightarrow> 'a hart \<times> 'a spinlock" where
  "acquire otherwise h l =
     (if locked l = UNLOCKED then h\<lparr> guard := True, stage := Acquired \<rparr> else h\<lparr> stage := otherwise \<rparr>, l\<lparr> locked := LOCKED \<rparr>)"

definition spin :: "bool \<Rightarrow> u64 \<Rightarrow> u32 \<Rightarrow> 'a spinlock \<Rightarrow> 'a stage" where
  "spin debug me spin_count l =
     (let spin_count = spin_count + 1 in
      if debug \<and> spin_count > 1000000 then if holder l = me then Panicked else SwapAgain 0
      else SwapAgain spin_count)"

definition lock_step :: "bool \<Rightarrow> u64 \<Rightarrow> 'a hart \<Rightarrow> 'a spinlock \<Rightarrow> 'a hart \<times> 'a spinlock" where
  "lock_step debug me h l =
     (case stage h of
        Swap \<Rightarrow> acquire (Spin 0) h l
      | Spin n \<Rightarrow> (h\<lparr> stage := spin debug me n l \<rparr>, l)
      | SwapAgain n \<Rightarrow> acquire (Spin n) h l
      | TrySwap \<Rightarrow> acquire Running h l
      | Acquired \<Rightarrow> (h\<lparr> stage := Running \<rparr>, if debug then l\<lparr> holder := me \<rparr> else l)
      | Release \<Rightarrow> (h\<lparr> guard := False, stage := Running \<rparr>, l\<lparr> locked := UNLOCKED \<rparr>)
      | _ \<Rightarrow> (h, l))"

datatype 'a client = Lock | TryLock | Load | Store "'a \<Rightarrow> 'a" | Drop

definition drop_guard :: "bool \<Rightarrow> 'a hart \<Rightarrow> 'a spinlock \<Rightarrow> 'a hart \<times> 'a spinlock" where
  "drop_guard debug h l = (h\<lparr> stage := Release \<rparr>, if debug then l\<lparr> holder := NO_HOLDER \<rparr> else l)"

fun client_call :: "bool \<Rightarrow> 'a client \<Rightarrow> 'a hart \<Rightarrow> 'a spinlock \<Rightarrow> ('a hart \<times> 'a spinlock) option" where
  "client_call debug Lock h l = (case stage h of Running \<Rightarrow> Some (h\<lparr> stage := Swap \<rparr>, l) | _ \<Rightarrow> None)"
| "client_call debug TryLock h l = (case stage h of Running \<Rightarrow> Some (h\<lparr> stage := TrySwap \<rparr>, l) | _ \<Rightarrow> None)"
| "client_call debug Load h l =
     (case stage h of Running \<Rightarrow> if guard h then Some (h\<lparr> stage := Loaded (lock_data l) \<rparr>, l) else None | _ \<Rightarrow> None)"
| "client_call debug (Store f) h l =
     (case stage h of Loaded v \<Rightarrow> Some (h\<lparr> stage := Running \<rparr>, l\<lparr> lock_data := f v \<rparr>) | _ \<Rightarrow> None)"
| "client_call debug Drop h l =
     (case stage h of Running \<Rightarrow> if guard h then Some (drop_guard debug h l) else None | _ \<Rightarrow> None)"

subsection \<open>Harts that share a lock\<close>

text \<open>\<open>applied\<close> records the functions that were written through the guard, the latest first; it is not part of the lock.  A call that
  the hart cannot make in its stage changes nothing.\<close>

record 'a smp =
  the_lock :: "'a spinlock"
  harts :: "u64 \<Rightarrow> 'a hart"
  applied :: "('a \<Rightarrow> 'a) list"

definition smp_new :: "'a \<Rightarrow> 'a smp" where
  "smp_new d = \<lparr> the_lock = spinlock_new d, harts = \<lambda>_. \<lparr> guard = False, stage = Running \<rparr>, applied = [] \<rparr>"

datatype 'a move = Step (mover: u64) | Call (mover: u64) "'a client"

definition put_hart :: "u64 \<Rightarrow> 'a hart \<times> 'a spinlock \<Rightarrow> 'a smp \<Rightarrow> 'a smp" where
  "put_hart h r s = s\<lparr> the_lock := snd r, harts := (harts s)(h := fst r) \<rparr>"

fun smp_move :: "bool \<Rightarrow> 'a move \<Rightarrow> 'a smp \<Rightarrow> 'a smp" where
  "smp_move debug (Step h) s = put_hart h (lock_step debug h (harts s h) (the_lock s)) s"
| "smp_move debug (Call h c) s =
     (case client_call debug c (harts s h) (the_lock s) of
        None \<Rightarrow> s
      | Some r \<Rightarrow> put_hart h r (case c of Store f \<Rightarrow> s\<lparr> applied := f # applied s \<rparr> | _ \<Rightarrow> s))"

abbreviation smp_run :: "bool \<Rightarrow> 'a move list \<Rightarrow> 'a smp \<Rightarrow> 'a smp" where
  "smp_run debug \<equiv> fold (smp_move debug)"

subsection \<open>Mutual exclusion\<close>

text \<open>What a hart's own stage says about the lock.\<close>

definition hart_ok :: "bool \<Rightarrow> u64 \<Rightarrow> 'a hart \<Rightarrow> 'a spinlock \<Rightarrow> bool" where
  "hart_ok debug me h l \<longleftrightarrow>
     (guard h \<longrightarrow> locked l = LOCKED) \<and>
     (case stage h of Loaded v \<Rightarrow> guard h \<and> v = lock_data l | Acquired \<Rightarrow> guard h | Release \<Rightarrow> guard h | Panicked \<Rightarrow> guard h | _ \<Rightarrow> True) \<and>
     (debug \<longrightarrow> me \<noteq> NO_HOLDER \<longrightarrow> (holder l = me \<longleftrightarrow> guard h \<and> stage h \<noteq> Acquired \<and> stage h \<noteq> Release))"

definition smp_ok :: "bool \<Rightarrow> 'a \<Rightarrow> 'a smp \<Rightarrow> bool" where
  "smp_ok debug d s \<longleftrightarrow>
     (\<forall>h. hart_ok debug h (harts s h) (the_lock s)) \<and>
     (\<forall>h k. guard (harts s h) \<longrightarrow> guard (harts s k) \<longrightarrow> h = k) \<and>
     (locked (the_lock s) \<noteq> UNLOCKED \<longrightarrow> (\<exists>h. guard (harts s h))) \<and>
     lock_data (the_lock s) = foldr (\<lambda>f. f) (applied s) d"

text \<open>A hart changes the lock only while no other hart has a guard, and it changes the holder to itself or to nobody.\<close>

definition own_change :: "u64 \<Rightarrow> 'a hart \<Rightarrow> 'a spinlock \<Rightarrow> 'a hart \<times> 'a spinlock \<Rightarrow> bool" where
  "own_change me h l r \<longleftrightarrow>
     (snd r = l \<or> (locked l = UNLOCKED \<or> guard h) \<and> holder (snd r) \<in> {holder l, me, NO_HOLDER}) \<and>
     (guard (fst r) \<longrightarrow> guard h \<or> locked l = UNLOCKED) \<and>
     (locked (snd r) \<noteq> UNLOCKED \<longrightarrow> guard (fst r) \<or> snd r = l \<and> \<not> guard h)"

lemma hart_ok_no_guard:
  "\<lbrakk> hart_ok debug k h l; \<not> guard h; holder l' \<in> {holder l, me, NO_HOLDER}; k \<noteq> me \<rbrakk> \<Longrightarrow> hart_ok debug k h l'"
  unfolding hart_ok_def by (cases "stage h") auto

lemma put_hart_ok:
  assumes "smp_ok debug d s" "own_change me (harts s me) (the_lock s) r" "hart_ok debug me (fst r) (snd r)"
    "lock_data (snd r) = foldr (\<lambda>f. f) fs d"
  shows "smp_ok debug d (put_hart me r (s\<lparr> applied := fs \<rparr>))"
proof -
  let ?h = "harts s" and ?l = "the_lock s"
  have ok: "\<And>h. hart_ok debug h (?h h) ?l" and one: "\<And>h k. guard (?h h) \<Longrightarrow> guard (?h k) \<Longrightarrow> h = k"
    and free: "locked ?l \<noteq> UNLOCKED \<Longrightarrow> \<exists>h. guard (?h h)"
    using assms(1) by (auto simp: smp_ok_def)
  have alone: "\<not> guard (?h k)" if "locked ?l = UNLOCKED \<or> guard (?h me)" "k \<noteq> me" for k
    using that ok [of k] one by (auto simp: hart_ok_def)
  let ?h' = "(harts s)(me := fst r)"
  have "hart_ok debug k (?h k) (snd r)" if "k \<noteq> me" for k
  proof (cases "snd r = ?l")
    case False
    with assms(2) have "locked ?l = UNLOCKED \<or> guard (?h me)" "holder (snd r) \<in> {holder ?l, me, NO_HOLDER}"
      by (simp_all add: own_change_def)
    with ok alone that show ?thesis by (blast intro: hart_ok_no_guard)
  qed (simp add: ok)
  then have ok': "hart_ok debug k (?h' k) (snd r)" for k using assms(3) by simp
  have one': "h = k" if "guard (?h' h)" "guard (?h' k)" for h k
    using that alone one assms(2) by (auto simp: own_change_def split: if_splits)
  have free': "\<exists>h. guard (?h' h)" if "locked (snd r) \<noteq> UNLOCKED"
    using that free assms(2) by (auto simp: own_change_def)
  have "smp_ok debug d (put_hart me r (s\<lparr> applied := fs \<rparr>)) \<longleftrightarrow> (\<forall>h. hart_ok debug h (?h' h) (snd r)) \<and>
      (\<forall>h k. guard (?h' h) \<longrightarrow> guard (?h' k) \<longrightarrow> h = k) \<and> (locked (snd r) \<noteq> UNLOCKED \<longrightarrow> (\<exists>h. guard (?h' h)))"
    using assms(4) unfolding smp_ok_def put_hart_def by simp
  with ok' one' free' show ?thesis by blast
qed

lemma acquire_ok:
  assumes "hart_ok debug me h l" "stage h \<in> {Swap, TrySwap} \<or> stage h = SwapAgain n" "locked l \<in> {UNLOCKED, LOCKED}"
    "w = Running \<or> w = Spin k"
  shows "own_change me h l (acquire w h l) \<and> hart_ok debug me (fst (acquire w h l)) (snd (acquire w h l)) \<and>
    lock_data (snd (acquire w h l)) = lock_data l"
proof (cases "locked l = UNLOCKED")
  case True
  then have "\<not> guard h" using assms(1) by (auto simp: hart_ok_def)
  then show ?thesis using assms True by (auto simp: own_change_def hart_ok_def acquire_def)
next
  case False
  then have "l\<lparr> locked := LOCKED \<rparr> = l" using assms(3) by (cases l) simp
  then have "acquire w h l = (h\<lparr> stage := w \<rparr>, l)" using False by (simp add: acquire_def)
  moreover have "hart_ok debug me (h\<lparr> stage := w \<rparr>) l" using assms(1,2,4) unfolding hart_ok_def by (elim disjE) auto
  ultimately show ?thesis using False assms(3) by (simp add: own_change_def hart_ok_def)
qed

lemma lock_step_ok:
  assumes "hart_ok debug me h l" "locked l \<in> {UNLOCKED, LOCKED}" "me \<noteq> NO_HOLDER"
  shows "own_change me h l (lock_step debug me h l) \<and> hart_ok debug me (fst (lock_step debug me h l)) (snd (lock_step debug me h l)) \<and>
    lock_data (snd (lock_step debug me h l)) = lock_data l"
proof (cases "stage h")
  case (Spin n)
  then show ?thesis using assms by (auto simp: lock_step_def own_change_def hart_ok_def spin_def Let_def)
next
  case Acquired
  then show ?thesis using assms by (auto simp: lock_step_def own_change_def hart_ok_def)
next
  case Release
  then show ?thesis using assms by (auto simp: lock_step_def own_change_def hart_ok_def)
next
  case Swap
  with acquire_ok [OF assms(1) _ assms(2), of 0 "Spin 0" 0] show ?thesis by (simp add: lock_step_def)
next
  case TrySwap
  with acquire_ok [OF assms(1) _ assms(2), of 0 Running 0] show ?thesis by (simp add: lock_step_def)
next
  case (SwapAgain n)
  with acquire_ok [OF assms(1) _ assms(2), of n "Spin n" n] show ?thesis by (simp add: lock_step_def)
qed (use assms in \<open>simp_all add: lock_step_def own_change_def hart_ok_def\<close>)

lemma client_call_ok:
  assumes "hart_ok debug me h l" "client_call debug c h l = Some r" "locked l \<in> {UNLOCKED, LOCKED}"
  shows "own_change me h l r \<and> hart_ok debug me (fst r) (snd r) \<and>
    lock_data (snd r) = (case c of Store f \<Rightarrow> f (lock_data l) | _ \<Rightarrow> lock_data l)"
proof (cases "stage h")
  case (Loaded v)
  then show ?thesis using assms by (cases c) (auto simp: own_change_def hart_ok_def)
next
  case Running
  then show ?thesis
  proof (cases c)
    case Drop
    then show ?thesis using Running assms by (auto simp: own_change_def hart_ok_def drop_guard_def split: if_splits)
  qed (use Running assms in \<open>auto simp: own_change_def hart_ok_def split: if_splits\<close>)
qed (use assms in \<open>cases c; simp\<close>)+

lemma smp_ok_locked: "smp_ok debug d s \<Longrightarrow> locked (the_lock s) \<in> {UNLOCKED, LOCKED}"
  unfolding smp_ok_def hart_ok_def by blast

lemma smp_move_ok:
  assumes "smp_ok debug d s" "mover m \<noteq> NO_HOLDER"
  shows "smp_ok debug d (smp_move debug m s)"
proof (cases m)
  case (Step h)
  have ok: "hart_ok debug h (harts s h) (the_lock s)" "lock_data (the_lock s) = foldr (\<lambda>f. f) (applied s) d"
    using assms(1) by (simp_all add: smp_ok_def)
  show ?thesis
    using lock_step_ok [OF ok(1) smp_ok_locked [OF assms(1)]] put_hart_ok [OF assms(1), of h _ "applied s"] assms(2) ok(2) Step by simp
next
  case (Call h c)
  have ok: "hart_ok debug h (harts s h) (the_lock s)" "lock_data (the_lock s) = foldr (\<lambda>f. f) (applied s) d"
    using assms(1) by (simp_all add: smp_ok_def)
  show ?thesis
  proof (cases "client_call debug c (harts s h) (the_lock s)")
    case (Some r)
    let ?fs = "case c of Store f \<Rightarrow> f # applied s | _ \<Rightarrow> applied s"
    have "smp_ok debug d (put_hart h r (s\<lparr> applied := ?fs \<rparr>))"
      using client_call_ok [OF ok(1) Some smp_ok_locked [OF assms(1)]] ok(2)
      by (intro put_hart_ok assms(1)) (simp_all split: client.splits)
    then show ?thesis using Call Some by (cases c) simp_all
  qed (simp add: Call assms(1))
qed

lemma smp_run_ok:
  assumes "\<forall>m \<in> set moves. mover m \<noteq> NO_HOLDER"
  shows "smp_ok debug d s \<Longrightarrow> smp_ok debug d (smp_run debug moves s)"
  using assms by (induction moves arbitrary: s) (simp_all add: smp_move_ok)

lemma smp_new_ok: "smp_ok debug d (smp_new d)"
  by (simp add: smp_ok_def smp_new_def spinlock_new_def hart_ok_def)

text \<open>C18: Whatever the harts that share a lock do and in whatever order their accesses happen, at most one of them has a guard, the
  lock is free exactly when none has, a hart between its read and its write through the guard has read the present value, and
  the data is the result of all writes, each applied to the one before it: no update is lost.\<close>

theorem spinlock_mutual_exclusion:
  assumes "\<forall>m \<in> set moves. mover m \<noteq> NO_HOLDER" and "s = smp_run debug moves (smp_new d)"
  shows "(\<forall>h k. guard (harts s h) \<and> guard (harts s k) \<longrightarrow> h = k) \<and>
    (locked (the_lock s) = UNLOCKED \<longleftrightarrow> (\<forall>h. \<not> guard (harts s h))) \<and>
    (\<forall>h v. stage (harts s h) = Loaded v \<longrightarrow> v = lock_data (the_lock s)) \<and>
    lock_data (the_lock s) = foldr (\<lambda>f. f) (applied s) d"
proof -
  have ok: "smp_ok debug d s" using smp_run_ok [OF assms(1) smp_new_ok] assms(2) by simp
  then have h: "hart_ok debug h (harts s h) (the_lock s)" for h by (simp add: smp_ok_def)
  then have "guard (harts s h) \<Longrightarrow> locked (the_lock s) = LOCKED" for h by (simp add: hart_ok_def)
  moreover have "stage (harts s h) = Loaded v \<Longrightarrow> v = lock_data (the_lock s)" for h v using h [of h] by (simp add: hart_ok_def)
  ultimately show ?thesis using ok unfolding smp_ok_def by (metis zero_neq_one)
qed

definition contention :: "nat move list" where
  "contention = [Call 0 Lock, Call 1 Lock, Step 0, Step 1, Step 0, Call 0 Load, Step 1, Step 1, Call 0 (Store Suc), Call 0 Drop, Step 0,
     Step 1, Step 1, Step 1, Call 1 Load, Call 1 (Store Suc)]"

theorem spinlock_mutual_exclusion_witness:
  "lock_data (the_lock (smp_run True contention (smp_new 40))) = 42 \<and> guard (harts (smp_run True contention (smp_new 40)) 1) \<and>
    \<not> guard (harts (smp_run True contention (smp_new 40)) 0)"
proof -
  have run: "applied (smp_run True contention (smp_new 40)) = [Suc, Suc]" "guard (harts (smp_run True contention (smp_new 40)) 1)"
    by (simp_all add: contention_def smp_new_def spinlock_new_def put_hart_def lock_step_def acquire_def spin_def drop_guard_def)
  have "\<forall>m \<in> set contention. mover m \<noteq> NO_HOLDER" by (simp add: contention_def)
  from spinlock_mutual_exclusion [OF this refl, of True 40] run
  have "lock_data (the_lock (smp_run True contention (smp_new 40))) = 42"
    "guard (harts (smp_run True contention (smp_new 40)) 0) \<longrightarrow> (0 :: u64) = 1" by (simp, blast)
  with run show ?thesis by simp
qed

subsection \<open>Locking twice\<close>

text \<open>The stage of a hart that has a guard and calls \<open>lock\<close> again, after \<open>k\<close> of its own steps.\<close>

definition relocking :: "bool \<Rightarrow> nat \<Rightarrow> 'a stage" where
  "relocking debug k =
     (if k = 0 then Swap else if debug \<and> 2000002 \<le> k then Panicked
      else if odd k then Spin (word_of_nat (k div 2)) else SwapAgain (word_of_nat (k div 2)))"

lemma lock_step_relocking:
  assumes "stage h = relocking debug k" "locked l = LOCKED" "debug \<Longrightarrow> holder l = me"
  shows "lock_step debug me h l = (h\<lparr> stage := relocking debug (Suc k) \<rparr>, l)"
proof -
  have l: "l\<lparr> locked := LOCKED \<rparr> = l" using assms(2) by (cases l) simp
  consider "k = 0" | "debug" "2000002 \<le> k" | n where "k = 2 * n + 1" "debug \<longrightarrow> n \<le> 1000000" | n where "k = 2 * n" "0 < n" "debug \<longrightarrow> n \<le> 1000000"
  proof (cases "odd k")
    case True
    then obtain n where "k = 2 * n + 1" by (auto elim: oddE)
    then show ?thesis using that(2) that(3) [of n] by linarith
  next
    case False
    then obtain n where "k = 2 * n" by (auto elim: evenE)
    then show ?thesis using that(1,2) that(4) [of n] by linarith
  qed
  then show ?thesis
  proof cases
    case 1
    then show ?thesis using assms l by (simp add: lock_step_def relocking_def acquire_def)
  next
    case 2
    then show ?thesis using assms by (simp add: lock_step_def relocking_def)
  next
    case (3 n)
    then have "debug \<Longrightarrow> (1 + word_of_nat n > (1000000 :: u32)) \<longleftrightarrow> n = 1000000"
      by (auto simp: word_less_nat_alt unat_of_nat simp flip: of_nat_Suc)
    then show ?thesis using assms 3 by (auto simp: lock_step_def relocking_def spin_def Let_def add.commute)
  next
    case (4 n)
    then show ?thesis using assms l by (auto simp: lock_step_def relocking_def acquire_def)
  qed
qed

lemma smp_move_relocking:
  assumes "smp_ok debug d s" "h \<noteq> NO_HOLDER" "guard (harts s h)" "stage (harts s h) = relocking debug k"
  shows "guard (harts (smp_move debug m s) h) \<and>
    stage (harts (smp_move debug m s) h) = relocking debug (if m = Step h then Suc k else k)"
proof -
  have ok: "hart_ok debug h (harts s h) (the_lock s)" using assms(1) by (simp add: smp_ok_def)
  have st: "stage (harts s h) \<notin> {Running, Acquired, Release}" "\<And>v. stage (harts s h) \<noteq> Loaded v"
    using assms(4) by (auto simp: relocking_def)
  have l: "locked (the_lock s) = LOCKED" "debug \<Longrightarrow> holder (the_lock s) = h"
    using ok assms(2,3) st by (auto simp: hart_ok_def)
  show ?thesis
  proof (cases m)
    case (Step k')
    then show ?thesis using lock_step_relocking [OF assms(4) l] assms(3,4) by (auto simp: put_hart_def)
  next
    case (Call k' c)
    have "client_call debug c (harts s h) (the_lock s) = None" using st by (cases c) (auto split: stage.splits)
    then show ?thesis using Call assms(3,4) by (cases "k' = h") (auto simp: put_hart_def split: option.splits client.splits)
  qed
qed

lemma smp_run_relocking:
  assumes "smp_ok debug d s" "h \<noteq> NO_HOLDER" "guard (harts s h)" "stage (harts s h) = relocking debug k"
    "\<forall>m \<in> set moves. mover m \<noteq> NO_HOLDER"
  shows "guard (harts (smp_run debug moves s) h) \<and>
    stage (harts (smp_run debug moves s) h) = relocking debug (k + length (filter ((=) (Step h)) moves))"
  using assms
proof (induction moves arbitrary: s k)
  case (Cons m moves)
  from smp_move_relocking [OF Cons.prems(1-4), of m] smp_move_ok [OF Cons.prems(1), of m] Cons.prems
  show ?case using Cons.IH [of "smp_move debug m s" "if m = Step h then Suc k else k"] by (auto simp: eq_commute)
qed simp

text \<open>C37: A hart that calls \<open>lock\<close> while it has the guard never gets out of the call, whatever the other harts do meanwhile: in a
  debug build it panics at its 2000002nd step in the call (about a million rounds of the spin loop, each a check and an exchange) at the latest, otherwise it spins; and in no run does the
  detection stop a hart that does not have the guard.\<close>

theorem relocking_never_returns:
  assumes "\<forall>m \<in> set moves \<union> set moves'. mover m \<noteq> NO_HOLDER" and "s = smp_run debug moves (smp_new d)" and "t = smp_run debug moves' s"
  shows "(stage (harts s h) = Panicked \<longrightarrow> guard (harts s h)) \<and>
    (h \<noteq> NO_HOLDER \<and> guard (harts s h) \<and> stage (harts s h) = Swap \<longrightarrow>
      guard (harts t h) \<and>
      (if debug \<and> 2000002 \<le> length (filter ((=) (Step h)) moves') then stage (harts t h) = Panicked
       else \<exists>n. stage (harts t h) \<in> {Swap, Spin n, SwapAgain n}))"
proof -
  have ok: "smp_ok debug d s" using smp_run_ok [OF _ smp_new_ok, of moves] assms(1,2) by auto
  then have "hart_ok debug h (harts s h) (the_lock s)" by (simp add: smp_ok_def)
  then have "stage (harts s h) = Panicked \<longrightarrow> guard (harts s h)" by (auto simp: hart_ok_def)
  moreover have "guard (harts t h) \<and> stage (harts t h) = relocking debug (length (filter ((=) (Step h)) moves'))"
    if "h \<noteq> NO_HOLDER" "guard (harts s h)" "stage (harts s h) = Swap"
    using smp_run_relocking [OF ok that(1,2), of 0 moves'] that(3) assms(1,3) by (simp add: relocking_def)
  ultimately show ?thesis by (auto simp: relocking_def)
qed

theorem relocking_never_returns_witness:
  "stage (harts (smp_run True (replicate 2000002 (Step 0)) (smp_run True [Call 0 Lock, Step 0, Step 0, Call 0 Lock] (smp_new (5 :: nat)))) 0) = Panicked"
proof -
  let ?moves = "[Call 0 Lock, Step 0, Step 0, Call 0 Lock] :: nat move list" and ?moves' = "replicate 2000002 (Step 0) :: nat move list"
  have "\<forall>m \<in> set ?moves \<union> set ?moves'. mover m \<noteq> NO_HOLDER" by auto
  from relocking_never_returns [OF this refl refl, of True 5 0] show ?thesis
    by (simp add: smp_new_def spinlock_new_def put_hart_def lock_step_def acquire_def filter_replicate)
qed

end
