(* ===== verification/Kn_Dns.thy ===== *)
theory Kn_Dns
  imports Kn_Bytes
begin

text \<open>
  The kernel's DNS client (\<^verbatim>\<open>kernel/src/dns.rs\<close>): building a query and parsing the answer.

  Positions in a packet are natural numbers (a packet is far shorter than \<open>2\<^sup>6\<^sup>4\<close> bytes).  Reading a byte outside the packet is \<open>Panic\<close>.
  \<open>resolve\<close>, which sends the query and polls for the answer through the sockets of a third-party library, is not modelled.

  The second part is the wire format of RFC 1035 as a specification, written from the sender's side: names as labels
  that end with a zero byte or a compression pointer, and resource records.
\<close>

unbundle bit_operations_syntax

subsection \<open>Queries\<close>

abbreviation (input) DNS_TYPE_A :: u16 where "DNS_TYPE_A \<equiv> 1"
abbreviation (input) DNS_CLASS_IN :: u16 where "DNS_CLASS_IN \<equiv> 1"
abbreviation (input) DNS_FLAG_RD :: u16 where "DNS_FLAG_RD \<equiv> 0x0100"
abbreviation (input) DNS_FLAG_QR :: u16 where "DNS_FLAG_QR \<equiv> 0x8000"
abbreviation (input) DNS_RCODE_MASK :: u16 where "DNS_RCODE_MASK \<equiv> 0x000F"
abbreviation (input) DNS_RCODE_NXDOMAIN :: u16 where "DNS_RCODE_NXDOMAIN \<equiv> 3"

primrec encode_loop :: "u8 list \<Rightarrow> nat list \<Rightarrow> nat \<Rightarrow> u8 list \<Rightarrow> u8 list" where
  "encode_loop hostname [] label_start packet = packet"
| "encode_loop hostname (i # is) label_start packet =
     (if i = length hostname \<or> hostname ! i = 46 then
        (let label_len = i - label_start in
         encode_loop hostname is (i + 1)
           (if label_len > 0 \<and> label_len \<le> 63 then packet @ word_of_nat label_len # bytes_at label_start label_len hostname else packet))
      else encode_loop hostname is label_start packet)"

definition encode_domain_name :: "u8 list \<Rightarrow> u8 list \<Rightarrow> u8 list" where
  "encode_domain_name hostname packet = encode_loop hostname [0..<length hostname + 1] 0 packet @ [0]"

text \<open>The state is the counter of transaction identifiers.\<close>

definition next_transaction_id :: "u16 \<Rightarrow> u16 \<times> u16" where
  "next_transaction_id ctr = (ctr + 1, ctr + 1)"

definition build_query :: "u8 list \<Rightarrow> u16 \<Rightarrow> (u16 \<times> u8 list) \<times> u16" where
  "build_query hostname ctr =
     (let (txid, ctr) = next_transaction_id ctr;
          packet = be16_bytes txid @ be16_bytes DNS_FLAG_RD @ be16_bytes 1 @ be16_bytes 0 @ be16_bytes 0 @ be16_bytes 0;
          packet = encode_domain_name hostname packet
      in ((txid, packet @ be16_bytes DNS_TYPE_A @ be16_bytes DNS_CLASS_IN), ctr))"

subsection \<open>Answers\<close>

type_synonym ipv4 = "u8 \<times> u8 \<times> u8 \<times> u8"

datatype dns_result = Resolved "ipv4 list" | NotFound | Error str | WrongId

definition byte_at :: "u8 list \<Rightarrow> nat \<Rightarrow> (u8, dns_result) result" where
  "byte_at packet pos = (if pos < length packet then Ok (packet ! pos) else Panic)"

definition and_then :: "('a, 'e) result \<Rightarrow> ('a \<Rightarrow> ('b, 'e) result) \<Rightarrow> ('b, 'e) result" where
  "and_then r f = (case r of Ok a \<Rightarrow> f a | Err e \<Rightarrow> Err e | Panic \<Rightarrow> Panic)"

definition u16_at :: "u8 list \<Rightarrow> nat \<Rightarrow> (u16, dns_result) result" where
  "u16_at packet pos =
     and_then (byte_at packet pos) (\<lambda>a. and_then (byte_at packet (pos + 1)) (\<lambda>b. Ok (be16 a b)))"

function skip_name :: "u8 list \<Rightarrow> nat \<Rightarrow> (nat, dns_result) result" where
  "skip_name packet pos =
     (if length packet \<le> pos then Err (Error (lit ''Name extends past packet''))
      else
        let len = packet ! pos in
        if len = 0 then Ok (pos + 1)
        else if len AND 0xC0 = 0xC0 then Ok (pos + 2)
        else
          let pos = pos + (1 + unat len) in
          if length packet < pos then Err (Error (lit ''Label extends past packet'')) else skip_name packet pos)"
  by pat_completeness auto
termination
  by (relation "measure (\<lambda>(packet, pos). length packet - pos)") auto

declare skip_name.simps [simp del]

primrec skip_questions :: "u8 list \<Rightarrow> nat \<Rightarrow> nat \<Rightarrow> (nat, dns_result) result" where
  "skip_questions packet 0 pos = Ok pos"
| "skip_questions packet (Suc n) pos =
     and_then (skip_name packet pos) (\<lambda>pos.
       let pos = pos + 4 in
       if length packet < pos then Err (Error (lit ''Truncated question'')) else skip_questions packet n pos)"

primrec parse_answers :: "u8 list \<Rightarrow> nat \<Rightarrow> nat \<Rightarrow> ipv4 list \<Rightarrow> (ipv4 list, dns_result) result" where
  "parse_answers packet 0 pos addresses = Ok addresses"
| "parse_answers packet (Suc n) pos addresses =
     (if length packet \<le> pos then Ok addresses
      else
        and_then (skip_name packet pos) (\<lambda>pos.
        if length packet < pos + 10 then Err (Error (lit ''Truncated answer''))
        else
          and_then (u16_at packet pos) (\<lambda>rtype.
          and_then (u16_at packet (pos + 2)) (\<lambda>rclass.
          and_then (u16_at packet (pos + 8)) (\<lambda>rdlength.
          let pos = pos + 10 in
          if length packet < pos + unat rdlength then Err (Error (lit ''Truncated RDATA''))
          else
            and_then
              (if rtype = DNS_TYPE_A \<and> rclass = DNS_CLASS_IN \<and> unat rdlength = 4 then
                 and_then (byte_at packet pos) (\<lambda>a. and_then (byte_at packet (pos + 1)) (\<lambda>b.
                 and_then (byte_at packet (pos + 2)) (\<lambda>c. and_then (byte_at packet (pos + 3)) (\<lambda>d.
                   Ok (addresses @ [(a, b, c, d)])))))
               else Ok addresses) (\<lambda>addresses. parse_answers packet n (pos + unat rdlength) addresses))))))"

definition parse_response :: "u8 list \<Rightarrow> u16 \<Rightarrow> (dns_result, dns_result) result" where
  "parse_response packet expected_txid =
     (if length packet < 12 then Ok (Error (lit ''Packet too short''))
      else
        and_then (u16_at packet 0) (\<lambda>txid.
        if txid \<noteq> expected_txid then Ok WrongId
        else
          and_then (u16_at packet 2) (\<lambda>flags.
          if flags AND DNS_FLAG_QR = 0 then Ok (Error (lit ''Not a response''))
          else
            let rcode = flags AND DNS_RCODE_MASK in
            if rcode = DNS_RCODE_NXDOMAIN then Ok NotFound
            else if rcode \<noteq> 0 then Ok (Error (lit ''DNS server error''))
            else
              and_then (u16_at packet 4) (\<lambda>qdcount.
              and_then (u16_at packet 6) (\<lambda>ancount.
              if ancount = 0 then Ok NotFound
              else
                case and_then (skip_questions packet (unat qdcount) 12)
                       (\<lambda>pos. parse_answers packet (unat ancount) pos []) of
                  Ok addresses \<Rightarrow> Ok (if addresses = [] then NotFound else Resolved addresses)
                | Err e \<Rightarrow> Ok e
                | Panic \<Rightarrow> Panic)))))"

lemma and_then_simps [simp]:
  "and_then (Ok a) f = f a" "and_then (Err e) f = Err e" "and_then Panic f = Panic"
  by (simp_all add: and_then_def)

subsection \<open>No panic\<close>

lemma and_then_Panic: "and_then r f = Panic \<longleftrightarrow> r = Panic \<or> (\<exists>a. r = Ok a \<and> f a = Panic)"
  by (cases r) simp_all

lemma u16_at_Ok: "pos + 1 < length packet \<Longrightarrow> u16_at packet pos = Ok (be16 (packet ! pos) (packet ! (pos + 1)))"
  by (simp add: u16_at_def byte_at_def)

lemma skip_name_no_panic: "skip_name packet pos \<noteq> Panic"
proof (induction packet pos rule: skip_name.induct)
  case (1 packet pos)
  then show ?case by (subst skip_name.simps) (simp add: Let_def)
qed

lemma skip_questions_no_panic: "skip_questions packet n pos \<noteq> Panic"
  by (induction n arbitrary: pos) (auto simp: Let_def and_then_Panic skip_name_no_panic split: if_splits)

lemma parse_answers_no_panic: "parse_answers packet n pos addresses \<noteq> Panic"
  by (induction n arbitrary: pos addresses)
    (auto simp: Let_def u16_at_Ok byte_at_def and_then_Panic skip_name_no_panic split: if_splits)

lemma parse_response_no_panic: "parse_response packet expected_txid \<noteq> Panic"
  by (auto simp: parse_response_def u16_at_Ok Let_def and_then_Panic skip_questions_no_panic parse_answers_no_panic split: result.split)

subsection \<open>The wire format\<close>

text \<open>A name is a list of labels and an ending: a zero byte, or a compression pointer.\<close>

type_synonym name = "u8 list list \<times> (u8 \<times> u8) option"

definition wire_label :: "u8 list \<Rightarrow> u8 list" where
  "wire_label l = word_of_nat (length l) # l"

fun wire_name :: "name \<Rightarrow> u8 list" where
  "wire_name (ls, end) = concat (map wire_label ls) @ (case end of None \<Rightarrow> [0] | Some (a, b) \<Rightarrow> [a, b])"

definition label_ok :: "u8 list \<Rightarrow> bool" where
  "label_ok l \<longleftrightarrow> 0 < length l \<and> length l \<le> 63"

fun name_ok :: "name \<Rightarrow> bool" where
  "name_ok (ls, end) \<longleftrightarrow> list_all label_ok ls \<and> (case end of None \<Rightarrow> True | Some (a, _) \<Rightarrow> a AND 0xC0 = 0xC0)"

record rr =
  rr_name :: name
  rr_type :: u16
  rr_class :: u16
  rr_ttl :: "u8 \<times> u8 \<times> u8 \<times> u8"
  rr_data :: "u8 list"

fun quad :: "u8 \<times> u8 \<times> u8 \<times> u8 \<Rightarrow> u8 list" where
  "quad (a, b, c, d) = [a, b, c, d]"

definition wire_rr :: "rr \<Rightarrow> u8 list" where
  "wire_rr r = wire_name (rr_name r) @ be16_bytes (rr_type r) @ be16_bytes (rr_class r) @ quad (rr_ttl r) @
     be16_bytes (word_of_nat (length (rr_data r))) @ rr_data r"

definition rr_ok :: "rr \<Rightarrow> bool" where
  "rr_ok r \<longleftrightarrow> name_ok (rr_name r) \<and> length (rr_data r) < 2 ^ 16"

definition address :: "u16 \<Rightarrow> u16 \<Rightarrow> u8 list \<Rightarrow> ipv4 list" where
  "address rtype rclass data =
     (case data of [a, b, c, d] \<Rightarrow> if rtype = DNS_TYPE_A \<and> rclass = DNS_CLASS_IN then [(a, b, c, d)] else [] | _ \<Rightarrow> [])"

abbreviation rr_address :: "rr \<Rightarrow> ipv4 list" where
  "rr_address r \<equiv> address (rr_type r) (rr_class r) (rr_data r)"

lemma label_byte:
  assumes "n \<le> 63"
  shows "unat (word_of_nat n :: u8) = n" "(word_of_nat n :: u8) AND 0xC0 = 0"
proof -
  show n: "unat (word_of_nat n :: u8) = n" using assms by (simp add: unat_of_nat)
  have "take_bit 6 n = n" using assms by (simp add: take_bit_nat_eq_self)
  then have "take_bit 6 (word_of_nat n :: u8) = word_of_nat n" by (metis take_bit_of_nat)
  moreover have mask: "take_bit 6 (w :: u8) AND push_bit 6 m = 0" for w m by (auto intro!: bit_word_eqI simp: bit_simps)
  have "take_bit 6 (w :: u8) AND 0xC0 = 0" for w using mask [of w 3] by simp
  ultimately show "(word_of_nat n :: u8) AND 0xC0 = 0" by metis
qed

lemma skip_name_wire:
  "name_ok (ls, end) \<Longrightarrow> skip_name (xs @ wire_name (ls, end) @ ys) (length xs) = Ok (length xs + length (wire_name (ls, end)))"
proof (induction ls arbitrary: xs)
  case Nil
  then show ?case by (subst skip_name.simps) (auto split: option.splits)
next
  case (Cons l ls)
  let ?p = "xs @ wire_name (l # ls, end) @ ys"
  have l: "0 < length l" "length l \<le> 63" using Cons.prems by (simp_all add: label_ok_def)
  have b: "?p ! length xs = word_of_nat (length l)" "?p = (xs @ wire_label l) @ wire_name (ls, end) @ ys"
    by (simp_all add: wire_label_def nth_append)
  have "(word_of_nat (length l) :: u8) \<noteq> 0" using l label_byte(1) [OF l(2)] by (metis less_irrefl unat_0)
  then have "skip_name ?p (length xs) = skip_name ?p (length (xs @ wire_label l))"
    by (subst skip_name.simps) (use l b(1) label_byte in \<open>simp add: wire_label_def Let_def\<close>)
  also have "\<dots> = Ok (length xs + length (wire_name (l # ls, end)))"
    using Cons.IH [of "xs @ wire_label l"] Cons.prems b(2) by simp
  finally show ?case .
qed

lemma skip_name_at:
  assumes "name_ok nm" "packet = xs @ wire_name nm @ ys"
  shows "skip_name packet (length xs) = Ok (length xs + length (wire_name nm))"
  using skip_name_wire [of "fst nm" "snd nm" xs ys] assms by simp

lemma length_be16_bytes [simp]: "length (be16_bytes v) = 2"
  by (simp add: be16_bytes_def)

lemma u16_at_wire: "u16_at (xs @ be16_bytes v @ ys) (length xs) = Ok v"
  by (simp add: u16_at_def byte_at_def be16_bytes_def nth_append)

lemma u16_at_append: "length xs \<le> pos \<Longrightarrow> u16_at (xs @ ys) pos = u16_at ys (pos - length xs)"
  by (simp add: u16_at_def byte_at_def nth_append) (auto simp: and_then_def Suc_diff_le)

lemma parse_answers_step:
  assumes "pos < length p" "skip_name p pos = Ok q" "u16_at p q = Ok ty" "u16_at p (q + 2) = Ok cl" "u16_at p (q + 8) = Ok ln"
    "q + 10 + unat ln \<le> length p"
  shows "parse_answers p (Suc n) pos as =
    parse_answers p n (q + 10 + unat ln) (as @ address ty cl (bytes_at (q + 10) (unat ln) p))"
proof (cases "unat ln = 4")
  case True
  with assms(6) have "bytes_at (q + 10) (unat ln) p = [p ! (q + 10), p ! (q + 10 + 1), p ! (q + 10 + 2), p ! (q + 10 + 3)]"
    by (intro nth_equalityI) (auto simp: bytes_at_def less_Suc_eq numeral_eq_Suc)
  then show ?thesis using assms True by (simp add: Let_def byte_at_def address_def)
next
  case False
  then have "length (bytes_at (q + 10) (unat ln) p) \<noteq> 4" using assms(6) by (simp add: bytes_at_def)
  moreover have "address ty cl bs = []" if "length bs \<noteq> 4" for bs using that by (auto simp: address_def split: list.split)
  ultimately have "address ty cl (bytes_at (q + 10) (unat ln) p) = []" by blast
  then show ?thesis using assms False by (simp add: Let_def)
qed

lemma parse_answers_wire:
  "list_all rr_ok rs \<Longrightarrow>
    parse_answers (xs @ concat (map wire_rr rs) @ ys) (length rs) (length xs) as = Ok (as @ concat (map rr_address rs))"
proof (induction rs arbitrary: xs as)
  case (Cons r rs)
  let ?n = "wire_name (rr_name r)" and ?len = "length (rr_data r)"
  let ?q = "xs @ ?n" and ?t = "rr_data r @ concat (map wire_rr rs) @ ys"
  let ?h = "?q @ be16_bytes (rr_type r) @ be16_bytes (rr_class r) @ quad (rr_ttl r) @ be16_bytes (word_of_nat ?len)"
  define p where "p = xs @ concat (map wire_rr (r # rs)) @ ys"
  have ok: "name_ok (rr_name r)" "?len < 2 ^ 16" using Cons.prems by (simp_all add: rr_ok_def)
  have p: "p = ?h @ ?t" by (simp add: wire_rr_def p_def)
  have q: "length (quad (rr_ttl r)) = 4" by (cases "rr_ttl r") simp
  have h: "length ?h = length ?q + 10" by (simp add: q be16_bytes_def)
  have len: "unat (word_of_nat ?len :: u16) = ?len" using ok(2) by (simp add: unat_of_nat)
  have skip: "skip_name p (length xs) = Ok (length ?q)" using skip_name_at [OF ok(1), of p xs] by (simp add: wire_rr_def p_def)
  have fields: "u16_at p (length ?q) = Ok (rr_type r)" "u16_at p (length ?q + 2) = Ok (rr_class r)"
    "u16_at p (length ?q + 8) = Ok (word_of_nat ?len)"
    using u16_at_wire [of ?q "rr_type r"] u16_at_wire [of "?q @ be16_bytes (rr_type r)" "rr_class r"]
      u16_at_wire [of "?q @ be16_bytes (rr_type r) @ be16_bytes (rr_class r) @ quad (rr_ttl r)" "word_of_nat ?len"]
    unfolding p by (simp_all add: q be16_bytes_def add.assoc)
  have bounds: "length xs < length p" "length ?q + 10 + ?len \<le> length p"
    unfolding p h [symmetric] by (simp_all add: be16_bytes_def)
  have data: "bytes_at (length ?q + 10) ?len p = rr_data r"
    unfolding p h [symmetric] by (simp only: bytes_at_def append_eq_conv_conj drop_append) simp
  have "parse_answers p (length (r # rs)) (length xs) as = parse_answers p (length rs) (length (?h @ rr_data r)) (as @ rr_address r)"
    using parse_answers_step [OF bounds(1) skip fields, unfolded len, OF bounds(2), unfolded data, of "length rs" as]
    by (simp only: length_append [of ?h] h list.size add_0_right plus_1_eq_Suc add_Suc_right)
  also have "\<dots> = Ok (as @ concat (map rr_address (r # rs)))"
    using Cons.IH [of "?h @ rr_data r" "as @ rr_address r"] Cons.prems p by simp
  finally show ?case unfolding p_def .
qed simp

subsection \<open>Queries and their answers\<close>

text \<open>The labels of a host name are the pieces between its dots.\<close>

primrec split_dots :: "u8 list \<Rightarrow> u8 list \<Rightarrow> u8 list list" where
  "split_dots piece [] = [piece]"
| "split_dots piece (c # cs) = (if c = 46 then piece # split_dots [] cs else split_dots (piece @ [c]) cs)"

abbreviation host_name :: "u8 list \<Rightarrow> name" where
  "host_name hostname \<equiv> (filter label_ok (split_dots [] hostname), None)"

lemma encode_loop_labels:
  "encode_loop (xs @ piece @ cs) [length (xs @ piece)..<length (xs @ piece @ cs) + 1] (length xs) packet =
    packet @ concat (map wire_label (filter label_ok (split_dots piece cs)))"
proof (induction cs arbitrary: xs piece packet)
  case Nil
  then show ?case by (simp add: label_ok_def wire_label_def bytes_at_def)
next
  case (Cons c cs)
  let ?h = "xs @ piece @ c # cs" and ?i = "length (xs @ piece)"
  have up: "[?i..<length ?h + 1] = ?i # [?i + 1..<length ?h + 1]" using upt_conv_Cons [of ?i "length ?h + 1"] by (simp del: upt_Suc)
  have c: "?h ! ?i = c" "?i < length ?h" by (simp_all add: nth_append)
  show ?case
  proof (cases "c = 46")
    case True
    let ?p = "if label_ok piece then packet @ wire_label piece else packet"
    have "encode_loop ?h [?i..<length ?h + 1] (length xs) packet = encode_loop ?h [?i + 1..<length ?h + 1] (?i + 1) ?p"
      unfolding up using c True by (simp add: Let_def label_ok_def wire_label_def bytes_at_def)
    then show ?thesis using Cons.IH [of "xs @ piece @ [c]" "[]" ?p] True by simp
  next
    case False
    have "encode_loop ?h [?i..<length ?h + 1] (length xs) packet = encode_loop ?h [?i + 1..<length ?h + 1] (length xs) packet"
      unfolding up using c False by simp
    then show ?thesis using Cons.IH [of xs "piece @ [c]" packet] False by simp
  qed
qed

lemma encode_domain_name_wire: "encode_domain_name hostname packet = packet @ wire_name (host_name hostname)"
  using encode_loop_labels [of "[]" "[]" hostname packet] by (simp add: encode_domain_name_def)

text \<open>A label of more than 63 bytes is left out of the query, which then asks for another name.\<close>

lemma long_label_is_dropped:
  assumes "63 < length piece" "46 \<notin> set piece"
  shows "fst (fst (build_query (piece @ 46 # rest) ctr)) = fst (fst (build_query rest ctr)) \<and>
    snd (fst (build_query (piece @ 46 # rest) ctr)) = snd (fst (build_query rest ctr))"
proof -
  have "split_dots p (piece @ 46 # rest) = (p @ piece) # split_dots [] rest" for p
    using assms(2) by (induction piece arbitrary: p) auto
  then show ?thesis
    using assms(1) by (simp add: build_query_def encode_domain_name_wire next_transaction_id_def label_ok_def Let_def)
qed

text \<open>What a server sends back: the identifier and the question of the query, its own flags, and records.\<close>

definition answer :: "u8 list \<Rightarrow> u16 \<Rightarrow> rr list \<Rightarrow> u8 list \<Rightarrow> u8 list" where
  "answer query flags answers rest =
     take 2 query @ be16_bytes flags @ bytes_at 4 2 query @ be16_bytes (word_of_nat (length answers)) @ replicate 4 0 @ drop 12 query @
     concat (map wire_rr answers) @ rest"

text \<open>C38: The answer to a query of the kernel, with the identifier and the question copied from the query, no error in the flags
  and any well-formed records, is parsed to the addresses of its Internet A records in their order (to ``not found'' if there is none), whatever the
  host name, the compression of the names and the sections that follow.  No packet at all makes the parser panic, and one with another
  identifier is not taken for the answer.\<close>

theorem dns_answers_resolve:
  assumes "build_query hostname ctr = ((txid, query), ctr')" and "flags AND 0x8000 \<noteq> 0" "flags AND 0x000F = 0"
    and "list_all rr_ok answers" "length answers < 2 ^ 16"
  shows "parse_response (answer query flags answers rest) txid =
      Ok (let as = concat (map rr_address answers) in if as = [] then NotFound else Resolved as) \<and>
    (other \<noteq> txid \<longrightarrow> parse_response (answer query flags answers rest) other = Ok WrongId) \<and>
    parse_response packet txid \<noteq> Panic"
proof -
  let ?qn = "wire_name (host_name hostname)" and ?w = "concat (map wire_rr answers)" and ?n = "word_of_nat (length answers) :: u16"
  let ?hd = "be16_bytes txid @ be16_bytes flags @ be16_bytes 1 @ be16_bytes ?n @ replicate 4 0"
  let ?tl = "[0, 1, 0, 1] :: u8 list"
  have q: "query = (be16_bytes txid @ be16_bytes DNS_FLAG_RD @ be16_bytes 1 @ replicate 6 0) @ ?qn @ ?tl"
    using assms(1) by (auto simp: build_query_def next_transaction_id_def encode_domain_name_wire be16_bytes_def numeral_eq_Suc)
  define p where "p = answer query flags answers rest"
  have p: "p = ?hd @ ?qn @ ?tl @ ?w @ rest"
    unfolding p_def answer_def q by (simp add: be16_bytes_def bytes_at_def numeral_eq_Suc)
  have hd: "12 \<le> length p" "u16_at p 0 = Ok txid" "u16_at p 2 = Ok flags" "u16_at p 4 = Ok 1" "u16_at p 6 = Ok ?n"
    using u16_at_wire [of "[]" txid] u16_at_wire [of "be16_bytes txid" flags] u16_at_wire [of "be16_bytes txid @ be16_bytes flags" 1]
      u16_at_wire [of "be16_bytes txid @ be16_bytes flags @ be16_bytes 1" ?n]
    unfolding p by simp_all
  have n: "unat ?n = length answers" using assms(5) by (simp add: unat_of_nat)
  have h12: "length ?hd = 12" by (simp add: be16_bytes_def)
  have "name_ok (host_name hostname)" by (simp add: list_all_iff)
  from skip_name_at [OF this p] have "skip_questions p 1 12 = Ok (length (?hd @ ?qn @ ?tl))"
    unfolding h12 One_nat_def by (simp add: p be16_bytes_def)
  moreover have "parse_answers p (length answers) (length (?hd @ ?qn @ ?tl)) [] = Ok (concat (map rr_address answers))"
    using parse_answers_wire [OF assms(4), of "?hd @ ?qn @ ?tl" rest "[]"] p by simp
  ultimately have "parse_response p txid = Ok (let as = concat (map rr_address answers) in if as = [] then NotFound else Resolved as)"
    using hd n assms(2,3) by (cases "?n = 0") (simp_all add: parse_response_def Let_def)
  then show ?thesis using hd unfolding p_def [symmetric] by (simp add: parse_response_no_panic) (simp add: parse_response_def)
qed

definition example_answers :: "rr list" where
  "example_answers =
     [\<lparr> rr_name = ([], Some (0xC0, 12)), rr_type = 5, rr_class = 1, rr_ttl = (0, 0, 1, 44), rr_data = [1, 98, 0xC0, 14] \<rparr>,
      \<lparr> rr_name = ([[98]], Some (0xC0, 14)), rr_type = 1, rr_class = 1, rr_ttl = (0, 0, 1, 44), rr_data = [10, 0, 2, 2] \<rparr>]"

theorem dns_answers_resolve_witness:
  "parse_response (answer (snd (fst (build_query (lit ''a.org'') 0x1234))) 0x8180 example_answers []) 0x1235 = Ok (Resolved [(10, 0, 2, 2)])"
proof -
  have q: "build_query (lit ''a.org'') 0x1234 = ((0x1235, snd (fst (build_query (lit ''a.org'') 0x1234))), 0x1235)"
    by (simp add: build_query_def next_transaction_id_def Let_def)
  have "(0x8180 :: u16) AND 0x8000 \<noteq> 0" "(0x8180 :: u16) AND 0x000F = 0" "list_all rr_ok example_answers" "length example_answers < 2 ^ 16"
    by (simp_all add: example_answers_def rr_ok_def label_ok_def)
  from dns_answers_resolve [OF q this, of "[]" 0 "[]"] show ?thesis by (simp add: example_answers_def address_def)
qed

end
