(* ===== verification/Kn_Http.thy ===== *)
theory Kn_Http
  imports Kn_Bytes "HOL-Library.List_Lexorder"
begin

text \<open>
  The requests of the kernel's HTTP client (\<^verbatim>\<open>kernel/src/http.rs\<close>): URLs, the request builder, and the request that a
  redirect leads to.  The exchange with the server runs over third-party TCP and TLS code, and the parsing of responses
  over Unicode tables of the standard library; neither is modelled.

  Strings are their UTF-8 bytes; all slices of the source are at ASCII characters.
\<close>

subsection \<open>Numbers as text\<close>

text \<open>\<open>u16::to_string\<close> and \<open>str::parse::<u16>\<close>: the latter takes one optional plus sign and fails on an empty string, on a
  character that is no digit and on overflow.\<close>

fun decimal :: "nat \<Rightarrow> str" where
  "decimal n = (if n < 10 then [48 + word_of_nat n] else decimal (n div 10) @ [48 + word_of_nat (n mod 10)])"

declare decimal.simps [simp del]

primrec parse_digits :: "nat \<Rightarrow> str \<Rightarrow> nat option" where
  "parse_digits n [] = Some n"
| "parse_digits n (c # cs) =
     (if 48 \<le> c \<and> c \<le> 57 then
        let n = n * 10 + (unat c - 48) in if n < 2 ^ 16 then parse_digits n cs else None
      else None)"

definition parse_u16 :: "str \<Rightarrow> u16 option" where
  "parse_u16 s =
     (let ds = (case s of c # cs \<Rightarrow> if c = 43 then cs else s | [] \<Rightarrow> [])
      in if ds = [] then None else map_option word_of_nat (parse_digits 0 ds))"

subsection \<open>Requests\<close>

datatype http_method = Get | Post | Put | Delete | Head

fun method_str :: "http_method \<Rightarrow> str" where
  "method_str Get = lit ''GET''"
| "method_str Post = lit ''POST''"
| "method_str Put = lit ''PUT''"
| "method_str Delete = lit ''DELETE''"
| "method_str Head = lit ''HEAD''"

record http_request =
  rq_method :: http_method
  rq_host :: str
  rq_path :: str
  rq_port :: u16
  rq_headers :: "(str, str) btree"
  rq_body :: "u8 list option"
  is_https :: bool

record parsed_url =
  pu_host :: str
  pu_port :: u16
  pu_path :: str
  pu_is_https :: bool

definition strip_scheme :: "str \<Rightarrow> str \<times> bool \<times> u16" where
  "strip_scheme url =
     (if starts_with url (lit ''https://'') then (drop 8 url, True, 443)
      else if starts_with url (lit ''http://'') then (drop 7 url, False, 80)
      else (url, False, 80))"

definition split_path :: "str \<Rightarrow> str \<times> str" where
  "split_path url = (case position ((=) 47) url of Some idx \<Rightarrow> (take idx url, drop idx url) | None \<Rightarrow> (url, [47]))"

definition split_port :: "u16 \<Rightarrow> str \<Rightarrow> (str \<times> u16, str) result" where
  "split_port default_port host_port =
     (case position ((=) 58) host_port of
        Some idx \<Rightarrow>
          (case parse_u16 (drop (idx + 1) host_port) of
             Some port \<Rightarrow> Ok (take idx host_port, port) | None \<Rightarrow> Err (lit ''Invalid port number''))
      | None \<Rightarrow> Ok (host_port, default_port))"

definition parse_url :: "str \<Rightarrow> (parsed_url, str) result" where
  "parse_url url =
     (let (url, https, default_port) = strip_scheme url; (host_port, path) = split_path url
      in map_result (\<lambda>(host, port). \<lparr> pu_host = host, pu_port = port, pu_path = path, pu_is_https = https \<rparr>) id
           (split_port default_port host_port))"

text \<open>\<open>version\<close> is the package version that the build inserts.\<close>

definition standard_headers :: "str \<Rightarrow> str \<Rightarrow> (str, str) btree" where
  "standard_headers version host =
     bt_insert (lit ''Connection'') (lit ''close'') (bt_insert (lit ''Accept'') (lit ''*/*'')
     (bt_insert (lit ''User-Agent'') (lit ''BAVY OS/'' @ version) (bt_insert (lit ''Host'') host [])))"

definition request_new :: "str \<Rightarrow> http_method \<Rightarrow> str \<Rightarrow> (http_request, str) result" where
  "request_new version m url =
     map_result (\<lambda>p. \<lparr> rq_method = m, rq_host = pu_host p, rq_path = pu_path p, rq_port = pu_port p,
         rq_headers = standard_headers version (pu_host p), rq_body = None, is_https = pu_is_https p \<rparr>) id (parse_url url)"

definition with_header :: "str \<Rightarrow> str \<Rightarrow> http_request \<Rightarrow> http_request" where
  "with_header key val r = r\<lparr> rq_headers := bt_insert key val (rq_headers r) \<rparr>"

definition with_body :: "u8 list \<Rightarrow> http_request \<Rightarrow> http_request" where
  "with_body bs r =
     r\<lparr> rq_body := Some bs, rq_headers := bt_insert (lit ''Content-Length'') (decimal (length bs)) (rq_headers r) \<rparr>"

definition build :: "http_request \<Rightarrow> u8 list" where
  "build r =
     method_str (rq_method r) @ lit '' '' @ rq_path r @ lit '' HTTP/1.1'' @ [13, 10] @
     concat (map (\<lambda>(key, val). key @ lit '': '' @ val @ [13, 10]) (rq_headers r)) @ [13, 10] @
     (case rq_body r of Some bs \<Rightarrow> bs | None \<Rightarrow> [])"

subsection \<open>Redirects\<close>

text \<open>The part of the path up to its last slash, \<open>&path[..=path.rfind('/')]\<close>.\<close>

definition base_path :: "str \<Rightarrow> str" where
  "base_path path =
     (case position ((=) 47) (rev path) of Some i \<Rightarrow> take (length path - i) path | None \<Rightarrow> [47])"

definition resolve_redirect_url :: "http_request \<Rightarrow> str \<Rightarrow> str" where
  "resolve_redirect_url original location =
     (if starts_with location (lit ''http://'') \<or> starts_with location (lit ''https://'') then location
      else if starts_with location (lit ''//'') then (if is_https original then lit ''https:'' else lit ''http:'') @ location
      else
        let protocol = (if is_https original then lit ''https'' else lit ''http'');
            port_str = (if is_https original \<and> rq_port original = 443 \<or> \<not> is_https original \<and> rq_port original = 80 then []
                        else lit '':'' @ decimal (unat (rq_port original)))
        in if starts_with location (lit ''/'') then protocol @ lit ''://'' @ rq_host original @ port_str @ location
           else protocol @ lit ''://'' @ rq_host original @ port_str @ base_path (rq_path original) @ location)"

text \<open>The request that follows a response with this status and this \<open>Location\<close>.\<close>

definition redirected :: "str \<Rightarrow> http_request \<Rightarrow> u16 \<Rightarrow> str \<Rightarrow> (http_request, str) result" where
  "redirected version current status_code location =
     map_result (\<lambda>parsed.
       let new_method =
             (if status_code = 303 \<or> (status_code = 301 \<or> status_code = 302) \<and> rq_method current = Post then Get
              else rq_method current)
       in \<lparr> rq_method = new_method, rq_host = pu_host parsed, rq_path = pu_path parsed, rq_port = pu_port parsed,
            rq_headers = standard_headers version (pu_host parsed), rq_body = (if new_method = Get then None else rq_body current),
            is_https = pu_is_https parsed \<rparr>) id
       (parse_url (resolve_redirect_url current location))"

subsection \<open>Printing and parsing\<close>

lemma parse_digits_append: "parse_digits n (xs @ ys) = Option.bind (parse_digits n xs) (\<lambda>n. parse_digits n ys)"
  by (induction xs arbitrary: n) (simp_all add: Let_def)

lemma digit:
  assumes "d < 10"
  shows "unat (48 + word_of_nat d :: u8) = 48 + d" "48 \<le> (48 + word_of_nat d :: u8)" "(48 + word_of_nat d :: u8) \<le> 57"
proof -
  show u: "unat (48 + word_of_nat d :: u8) = 48 + d" using assms by (simp add: unat_word_ariths unat_of_nat)
  show "48 \<le> (48 + word_of_nat d :: u8)" "(48 + word_of_nat d :: u8) \<le> 57" using u assms by (simp_all add: word_le_nat_alt)
qed

lemma decimal_digits: "\<forall>c \<in> set (decimal n). 48 \<le> c \<and> c \<le> 57"
proof (induction n rule: decimal.induct)
  case (1 n)
  then show ?case using digit by (subst decimal.simps) auto
qed

lemma parse_digits_decimal: "n < 2 ^ 16 \<Longrightarrow> parse_digits 0 (decimal n) = Some n"
proof (induction n rule: decimal.induct)
  case (1 n)
  show ?case
  proof (cases "n < 10")
    case True
    then show ?thesis using 1 digit [of n] by (subst decimal.simps) simp
  next
    case False
    then have "parse_digits 0 (decimal (n div 10)) = Some (n div 10)" using 1 by simp
    then show ?thesis using 1 False digit [of "n mod 10"] by (subst decimal.simps) (simp add: parse_digits_append)
  qed
qed

lemma decimal_not_Nil [simp]: "decimal n \<noteq> []"
  by (subst decimal.simps) simp

lemma decimal_avoids: "c < 48 \<or> 57 < c \<Longrightarrow> c \<notin> set (decimal n)"
  using decimal_digits by force

lemma parse_u16_decimal: "parse_u16 (decimal (unat p)) = Some p"
proof -
  have "unat p < 2 ^ LENGTH(16)" by (rule unsigned_less)
  then have d: "parse_digits 0 (decimal (unat p)) = Some (unat p)" by (simp add: parse_digits_decimal)
  obtain c cs where c: "decimal (unat p) = c # cs" by (cases "decimal (unat p)") auto
  then have "c \<noteq> 43" using decimal_avoids [of 43 "unat p"] by auto
  with c d show ?thesis by (simp add: parse_u16_def)
qed

lemma position_take: "position P xs = Some i \<Longrightarrow> \<forall>x \<in> set (take i xs). \<not> P x"
  by (induction xs arbitrary: i) (auto split: if_splits)

subsection \<open>Where a redirect goes\<close>

text \<open>What every request has: a host without slash and colon and a path that starts with a slash.\<close>

definition request_ok :: "http_request \<Rightarrow> bool" where
  "request_ok r \<longleftrightarrow> 47 \<notin> set (rq_host r) \<and> 58 \<notin> set (rq_host r) \<and> (\<exists>p. rq_path r = 47 # p)"

lemma position_drop: "position ((=) c) xs = Some i \<Longrightarrow> \<exists>ys. drop i xs = c # ys"
  by (induction xs arbitrary: i) (auto split: if_splits)

lemma split_path_ok: "47 \<notin> set (fst (split_path url)) \<and> (\<exists>p. snd (split_path url) = 47 # p)"
  using position_take [of "(=) 47" url] position_drop [of 47 url] by (auto simp: split_path_def position_None split: option.split)

lemma split_port_ok: "split_port d host_port = Ok (host, port) \<Longrightarrow> 58 \<notin> set host \<and> set host \<subseteq> set host_port"
  using position_take [of "(=) 58" host_port]
  by (auto simp: split_port_def position_None split: option.splits dest: in_set_takeD)

lemma parse_url_ok:
  assumes "parse_url url = Ok p"
  shows "47 \<notin> set (pu_host p) \<and> 58 \<notin> set (pu_host p) \<and> (\<exists>q. pu_path p = 47 # q)"
proof -
  obtain u s d where u: "strip_scheme url = (u, s, d)" by (cases "strip_scheme url")
  obtain hp q where q: "split_path u = (hp, q)" by (cases "split_path u")
  from assms u q obtain host port where "split_port d hp = Ok (host, port)" "pu_host p = host" "pu_path p = q"
    by (cases "split_port d hp") (auto simp: parse_url_def)
  then show ?thesis using split_port_ok [of d hp host port] split_path_ok [of u] q by auto
qed

inductive made :: "str \<Rightarrow> http_request \<Rightarrow> bool" for version where
  new: "request_new version m url = Ok r \<Longrightarrow> made version r"
| header: "made version r \<Longrightarrow> made version (with_header key val r)"
| body: "made version r \<Longrightarrow> made version (with_body bs r)"
| redirect: "made version r \<Longrightarrow> redirected version r status location = Ok r' \<Longrightarrow> made version r'"

lemma map_result_Ok: "map_result f g r = Ok y \<longleftrightarrow> (\<exists>x. r = Ok x \<and> y = f x)"
  by (cases r) auto

lemma made_ok: "made version r \<Longrightarrow> request_ok r"
proof (induction rule: made.induct)
  case (new m url r)
  then show ?case using parse_url_ok [of url] by (auto simp: request_new_def map_result_Ok request_ok_def)
next
  case (redirect r status location r')
  then show ?case
    using parse_url_ok [of "resolve_redirect_url r location"] by (auto simp: redirected_def map_result_Ok request_ok_def Let_def)
qed (simp_all add: with_header_def with_body_def request_ok_def)

lemma parse_url_print:
  assumes "47 \<notin> set host" "58 \<notin> set host" "port_str = [] \<and> port = (if https then 443 else 80) \<or> port_str = 58 # decimal (unat port)"
  shows "parse_url ((if https then lit ''https'' else lit ''http'') @ lit ''://'' @ host @ port_str @ 47 # path) =
    Ok \<lparr> pu_host = host, pu_port = port, pu_path = 47 # path, pu_is_https = https \<rparr>"
proof -
  let ?u = "host @ port_str @ 47 # path" and ?d = "if https then 443 else 80 :: u16"
  have s: "strip_scheme ((if https then lit ''https'' else lit ''http'') @ lit ''://'' @ ?u) = (?u, https, ?d)"
    by (simp add: strip_scheme_def starts_with_def lit_def)
  have "47 \<notin> set (host @ port_str)" using assms decimal_avoids [of 47] by auto
  then have "position ((=) 47) ((host @ port_str) @ 47 # path) = Some (length (host @ port_str))"
    by (intro position_append_hit) auto
  then have p: "split_path ?u = (host @ port_str, 47 # path)" by (simp add: split_path_def)
  have "split_port ?d (host @ port_str) = Ok (host, port)"
    using assms(3)
  proof
    assume "port_str = [] \<and> port = ?d"
    moreover have "position ((=) 58) host = None" using assms(2) by (auto simp: position_None)
    ultimately show ?thesis by (simp add: split_port_def)
  next
    assume "port_str = 58 # decimal (unat port)"
    moreover from this have "position ((=) 58) (host @ port_str) = Some (length host)" using assms(2) by (auto intro: position_append_hit)
    ultimately show ?thesis by (simp add: split_port_def parse_u16_decimal)
  qed
  with s p show ?thesis by (simp add: parse_url_def)
qed

lemma base_path_slash:
  assumes "path = 47 # p"
  shows "\<exists>q. base_path path = 47 # q"
proof (cases "position ((=) 47) (rev path)")
  case (Some i)
  from position_drop [OF this] obtain ys where "drop i (rev path) = 47 # ys" by auto
  then have "i < length path" by (metis drop_all length_rev list.discI not_le)
  then obtain k where "length path - i = Suc k" by (metis Suc_diff_Suc diff_zero zero_less_diff gr0_implies_Suc)
  with Some assms show ?thesis by (simp add: base_path_def)
qed (simp add: base_path_def)

text \<open>C39: A redirect to anything but an absolute or protocol-relative URL stays with the server of the request: the next request
  goes to the same host and port with the same scheme, whatever port this is, for the path given, or for the path relative to the directory of the present one.
  This holds along every chain of redirects from a request made from any URL.\<close>

theorem redirect_stays_on_host:
  assumes "made version r"
    and "\<not> starts_with location (lit ''http://'')" "\<not> starts_with location (lit ''https://'')" "\<not> starts_with location (lit ''//'')"
  shows "\<exists>r'. redirected version r status location = Ok r' \<and>
    rq_host r' = rq_host r \<and> rq_port r' = rq_port r \<and> is_https r' = is_https r \<and>
    rq_path r' = (if starts_with location (lit ''/'') then location else base_path (rq_path r) @ location)"
proof -
  have ok: "47 \<notin> set (rq_host r)" "58 \<notin> set (rq_host r)" "\<exists>p. rq_path r = 47 # p"
    using made_ok [OF assms(1)] by (simp_all add: request_ok_def)
  let ?path = "if starts_with location (lit ''/'') then location else base_path (rq_path r) @ location"
  from ok(3) base_path_slash obtain b where "base_path (rq_path r) = 47 # b" by blast
  then have "\<exists>q. ?path = 47 # q" by (cases location) (simp_all add: starts_with_def lit_def)
  then obtain q where q: "?path = 47 # q" by blast
  let ?ps = "if is_https r \<and> rq_port r = 443 \<or> \<not> is_https r \<and> rq_port r = 80 then [] else 58 # decimal (unat (rq_port r))"
  have "resolve_redirect_url r location =
      (if is_https r then lit ''https'' else lit ''http'') @ lit ''://'' @ rq_host r @ ?ps @ ?path"
    using assms(2-4) by (simp add: resolve_redirect_url_def Let_def lit_def)
  then have "parse_url (resolve_redirect_url r location) =
      Ok \<lparr> pu_host = rq_host r, pu_port = rq_port r, pu_path = ?path, pu_is_https = is_https r \<rparr>"
    using parse_url_print [OF ok(1,2), of ?ps "rq_port r" "is_https r" q] q by (simp split: if_splits)
  then show ?thesis by (simp add: redirected_def Let_def)
qed

definition example_request :: http_request where
  "example_request = \<lparr> rq_method = Get, rq_host = lit ''a.b'', rq_path = lit ''/x/y'', rq_port = 8080,
     rq_headers = standard_headers [49] (lit ''a.b''), rq_body = None, is_https = False \<rparr>"

theorem redirect_stays_on_host_witness:
  "\<exists>r'. redirected [49] example_request 302 (lit ''z'') = Ok r' \<and> rq_host r' = lit ''a.b'' \<and> rq_port r' = 8080 \<and> rq_path r' = lit ''/x/z''"
proof -
  have "request_new [49] Get (lit ''http://a.b:8080/x/y'') = Ok example_request"
    by (simp add: request_new_def parse_url_def strip_scheme_def split_path_def split_port_def parse_u16_def starts_with_def lit_def
        example_request_def)
  then have "made [49] example_request" by (rule made.new)
  from redirect_stays_on_host [OF this, of "lit ''z''" 302] show ?thesis
    by (auto simp: starts_with_def lit_def example_request_def base_path_def)
qed

text \<open>A redirect that keeps the method keeps the body too, and drops the header that says how long it is.\<close>

lemma redirect_loses_content_length:
  assumes "redirected version (with_body bs r) 307 location = Ok r'" "rq_method r \<noteq> Get"
  shows "rq_body r' = Some bs \<and> map_of (rq_headers r') (lit ''Content-Length'') = None"
  using assms by (auto simp: redirected_def map_result_Ok with_body_def Let_def standard_headers_def lit_def)

end
