(* ===== verification/Spec2Isabelle.thy ===== *)
theory Spec2Isabelle
  imports Rv_Decoder_Spec Rv_Engine_Spec Rv_Trap_Spec Rv_Arith_Spec Kn_Storage Rv_Net_Spec Rl_Hub_Spec Kn_Task_Spec Kn_Ipc Kn_Lock Kn_Dns Kn_Http
begin

text \<open>
  A verification development for the RISC-V virtual machine, its operating-system kernel, its disk tools and its network
  relay.  The sources are Rust; every path below is relative to \<^verbatim>\<open>src/\<close>.

  \<^bold>\<open>The program.\<close>  \<^verbatim>\<open>riscv-vm\<close> emulates a 64-bit RISC-V machine: harts with an interpreter and an engine that runs compiled
  superblocks, Sv39/Sv48 address translation, DRAM, an interrupt controller, timers, a UART and virtio devices behind a
  system bus.  \<^verbatim>\<open>kernel\<close> is the guest operating system: a virtio block driver, a buffer cache, a file system, a scheduler,
  channels and pipes, spin locks and network clients.  \<^verbatim>\<open>mkfs\<close> builds the disk image the kernel mounts.  \<^verbatim>\<open>relay\<close> connects virtual
  machines on a virtual Ethernet.  The parts meet in three places: the CPU drives the bus, the kernel's driver and the
  emulated devices share the guest memory, and the kernel reads the image the builder wrote.

  \<^bold>\<open>Conventions\<close> (\<open>Rv_Prelude\<close>, \<open>Kn_Bytes\<close>).  Machine integers are words of their width and wrap, as the build does
  (\<^verbatim>\<open>overflow-checks = false\<close>).  A struct is a record, an enum a datatype, a method a function from the old state to its result and the new
  state.  A result is \<open>Ok\<close>, \<open>Err\<close> or \<open>Panic\<close>, where \<open>Panic\<close> is an index out of range, a failed \<open>unwrap\<close> or a wait that
  never ends; \<open>safe\<close> is the absence of panics, with rules that follow the structure of a method.  A Rust string is the list of its
  UTF-8 bytes, a \<open>BTreeMap\<close> the list of its entries in ascending order, an object shared through \<open>Arc\<close> an index into a
  list of objects.

  \<^bold>\<open>The virtual machine.\<close>
  \<^item> \<open>Rv_Types\<close>, \<open>Rv_Csr\<close>: privilege modes, traps and the control and status registers (\<^verbatim>\<open>cpu/types.rs\<close>, \<^verbatim>\<open>cpu/csr.rs\<close>).
  \<^item> \<open>Rv_Decoder\<close>, \<open>Rv_Decoder_Spec\<close>: \<^verbatim>\<open>engine/decoder.rs\<close>.  Decoding inverts an assembler, the expansion of compressed
    instructions agrees with a table of the architecture except for the one instruction the findings name, and every decoded register
    number is below 32.
  \<^item> \<open>Rv_Bus\<close>, \<open>Rv_Dram\<close>, \<open>Rv_Clint\<close>, \<open>Rv_Plic\<close>, \<open>Rv_Uart\<close>, \<open>Rv_Sysinfo\<close>, \<open>Rv_Virtio\<close>, \<open>Rv_Dma\<close>, \<open>Rv_Net\<close>: the \<open>Bus\<close> trait and the
    devices, with the virtio entropy, block and network devices and their DMA (\<^verbatim>\<open>bus.rs\<close>, \<^verbatim>\<open>dram.rs\<close>, \<^verbatim>\<open>devices\<close>, \<^verbatim>\<open>net\<close>).  The
    interfaces are locales: \<open>safe_virtio\<close> for a device and \<open>safe_bus\<close> for a bus, interpreted on the models.
    \<open>Rv_Net_Spec\<close> shows that a notified transmit queue sends each pending chain once, in order, and that polling stores each frame
    in the next receive buffer, with the elements both leave in the used ring.
  \<^item> \<open>Rv_System_Bus\<close>, \<open>Rv_System_Bus_Spec\<close>: \<open>SystemBus\<close> decodes addresses to the devices.  A load returns what was stored, an
    unmapped address faults and changes nothing, and the interrupt word is made of the four sources.
  \<^item> \<open>Rv_Mmu\<close>, \<open>Rv_Mmu_Spec\<close>: \<^verbatim>\<open>mmu.rs\<close>.  On the real bus, translation with the TLB refines the page walk.
  \<^item> \<open>Rv_Microop\<close>, \<open>Rv_Block\<close>, \<open>Rv_Block_Cache\<close>, \<open>Rv_Cpu\<close>, \<open>Rv_Exec\<close>, \<open>Rv_Block_Exec\<close>: the block compiler and its cache
    (\<^verbatim>\<open>engine\<close>), registers, traps and interrupts (\<^verbatim>\<open>cpu/core.rs\<close>), the interpreter (\<^verbatim>\<open>cpu/execution.rs\<close>) and the execution of blocks.
  \<^item> \<open>Rv_Machine\<close>: the invariant of the CPU on a bus; in every reachable state of a machine with entropy and network
    devices a step does not panic.  \<open>Rv_Engine_Spec\<close>: a compiled block has the effect of interpreting its instructions one by
    one, unless it holds an encoding the interpreter refuses.  \<open>Rv_Trap_Spec\<close>: trap entry and return are inverse, the interrupt of highest priority is taken, user code stays
    in user mode unless it traps, and a store-conditional succeeds exactly while no completed instruction has written to the reserved granule.  \<open>Rv_Arith_Spec\<close>: multiplication
    and division against integer arithmetic.

  \<^bold>\<open>Storage.\<close>
  \<^item> \<open>Kn_Disk\<close>, \<open>Kn_Fs\<close>: the buffer cache and the file system (\<^verbatim>\<open>kernel/src/fs.rs\<close>) over an abstract device; \<open>Kn_Fs_Spec\<close> and
    \<open>Kn_Fs_Refine\<close> relate the disk to the map from names to contents.
  \<^item> \<open>Kn_Blk\<close>, \<open>Kn_Blk_Spec\<close>: the driver (\<^verbatim>\<open>kernel/src/virtio_blk.rs\<close> on the virtqueue of \<^verbatim>\<open>kernel/src/virtio_net.rs\<close>) run against the emulated device
    through the shared memory: every sector request completes and transfers the sector.
  \<^item> \<open>Mk_Image\<close>, \<open>Mk_Image_Spec\<close>: the image builder (\<^verbatim>\<open>mkfs/src/main.rs\<close>).
  \<^item> \<open>Kn_Storage\<close> puts them together: a kernel that boots from a built image reads the imported files, a file written and synced is
    there after a remount, the cache is invisible, and removal and the error paths of writing are as specified.  Writing and removing
    are specified for a cache without dirty blocks, as a mount or a sync leaves it; \<open>second_create_loses_first\<close> shows what happens
    otherwise.  The image has at least 4096 sectors, the 2 MB of the build script.
  \<^item> \<open>Kn_Uart\<close>: the console driver (\<^verbatim>\<open>kernel/src/uart.rs\<close>) against the UART.

  \<^bold>\<open>Kernel services.\<close>
  \<^item> \<open>Kn_Task\<close>, \<open>Kn_Task_Spec\<close>: \<^verbatim>\<open>kernel/src/task.rs\<close> and \<^verbatim>\<open>kernel/src/scheduler.rs\<close>.  No task is queued or run twice, a spawned task gets its turn,
    timeouts wake exactly the expired waiters.  An operation of the scheduler is one step, also when it takes several locks in turn.
  \<^item> \<open>Kn_Ipc\<close>: \<^verbatim>\<open>kernel/src/ipc.rs\<close>.  Pipes and channels are interpretations of the locale \<open>fifo\<close>: what is accepted is delivered once and in order.
  \<^item> \<open>Kn_Lock\<close>: \<^verbatim>\<open>kernel/src/lock.rs\<close> as interleaved steps of the harts: mutual exclusion, no lost update, and what locking twice does.
  \<^item> \<open>Kn_Dns\<close>, \<open>Kn_Http\<close>: the packets of the DNS client (\<^verbatim>\<open>kernel/src/dns.rs\<close>) against the wire format, and the requests and redirects of the HTTP
    client (\<^verbatim>\<open>kernel/src/http.rs\<close>).

  \<^bold>\<open>The relay\<close> (\<open>Rl_Peer\<close>, \<open>Rl_Hub\<close>, \<open>Rl_Hub_Spec\<close>): \<^verbatim>\<open>relay/src/peer.rs\<close>, \<^verbatim>\<open>protocol.rs\<close> and \<^verbatim>\<open>hub.rs\<close>.  The peer, address and
    connection tables agree in every reachable state, a frame reaches its addressee, its sender as an answer, or the broadcast channel, and nobody
    else, and the gateway answers a ping with a reply whose checksums verify.

  \<^bold>\<open>Bounds and termination.\<close>  Loops whose bound is in the source (a descriptor chain, a block of 64 micro-operations, the sectors of the
  directory) recurse on that bound or on a list.  Loops bounded by their data have a termination proof.  Loops that wait for
  a device (\<open>poll_used\<close>) or for a lock are a \<open>partial_function\<close> or end in \<open>Panic\<close>, and the theorems about them show that they return: a
  block request completes, the console transmits.  No fuel is used.  Counters that could wrap appear as hypotheses where a theorem
  needs them: fewer than \<open>2\<^sup>3\<^sup>2\<close> channels created, hart numbers other than the one that stands for ``nobody''.

  \<^bold>\<open>Parameters.\<close>  Code outside the repository is an argument of the definitions that use it: the backend of the network
  device, the JSON text of control messages, the external proxy of the relay, the host's directory tree, the addresses the
  linker gives to the driver's buffers.

  \<^bold>\<open>Not modelled.\<close>
  \<^item> The browser variants of DRAM and bus over a shared buffer (\<^verbatim>\<open>shared_mem.rs\<close>, the WASM parts of \<^verbatim>\<open>dram.rs\<close> and \<^verbatim>\<open>bus.rs\<close>), which are
    atomic accesses to a JavaScript object.
  \<^item> The front ends of the machine (\<^verbatim>\<open>vm\<close>, \<^verbatim>\<open>worker.rs\<close>, \<^verbatim>\<open>napi_bindings.rs\<close>, \<^verbatim>\<open>console.rs\<close>, \<^verbatim>\<open>loader.rs\<close>, \<^verbatim>\<open>snapshot.rs\<close>): host
    threads, terminals, language bindings, a third-party ELF parser and serialisation.
  \<^item> The WebTransport backends and the relay's sockets (\<^verbatim>\<open>net/webtransport.rs\<close>, \<^verbatim>\<open>net/async_backend.rs\<close>, \<^verbatim>\<open>relay/src/main.rs\<close>,
    \<^verbatim>\<open>relay/src/proxy.rs\<close>): asynchronous input and output of third-party libraries.
  \<^item> The kernel's network driver and stack (the rest of \<^verbatim>\<open>virtio_net.rs\<close>, \<^verbatim>\<open>net.rs\<close>, \<^verbatim>\<open>tls.rs\<close>, \<^verbatim>\<open>tls12.rs\<close>, \<open>resolve\<close> and the exchange of
    \<^verbatim>\<open>http.rs\<close>): built on third-party TCP and TLS code.
  \<^item> The shell, the WASM host interface, process start-up, the kernel log and the user programs (\<^verbatim>\<open>main.rs\<close>, \<^verbatim>\<open>cmd\<close>, \<^verbatim>\<open>init.rs\<close>, \<^verbatim>\<open>wasm.rs\<close>,
    \<^verbatim>\<open>scripting.rs\<close>, \<^verbatim>\<open>klog.rs\<close>, \<^verbatim>\<open>mkfs/src/bin\<close>): text output over a third-party interpreter.
  \<^item> Log messages of the modelled parts, and memory orderings: accesses of several harts to a lock interleave on a sequentially consistent memory.
\<close>

end
